(* ===== verification/Prelude.thy ===== *)
theory Prelude
  imports Main "HOL-Library.Word" "HOL-Library.List_Lexorder"
begin

text \<open>
  Shared vocabulary of the development.

  \<^item> \<open>'e + 'a\<close> is Rust's \<^verbatim>\<open>Result<A, E>\<close>: \<open>Inl\<close> is \<^verbatim>\<open>Err\<close>, \<open>Inr\<close> is \<^verbatim>\<open>Ok\<close>;
    \<open>and_then\<close> is the \<^verbatim>\<open>?\<close> operator.
  \<^item> A \<^verbatim>\<open>String\<close> / \<^verbatim>\<open>&str\<close> is a list of Unicode scalar values (\<open>ustring\<close>), so that
    \<^verbatim>\<open>chars()\<close> is the list itself and \<^verbatim>\<open>len()\<close> (bytes) is \<open>str_len\<close>; an ASCII literal of the
    source is written \<open>lit ''...''\<close>. The lexicographic order on scalar values is the byte order of
    UTF-8, which is the order \<^verbatim>\<open>BTreeMap<String, _>\<close> iterates in.
  \<^item> A \<^verbatim>\<open>Vec<u8>\<close> is a list of 8-bit words; \<open>le_bytes\<close> is \<^verbatim>\<open>to_le_bytes\<close>.
  \<^item> A \<^verbatim>\<open>BTreeMap\<close> is an association list with strictly increasing keys (\<open>bt_wf\<close>), with the
    interface stated as the locale \<open>ordered_map\<close> and interpreted on \<open>bt_insert\<close>, \<open>bt_remove\<close>
    and \<open>bt_get\<close>.
  \<^item> \<open>state_machine\<close> is the contract that several stateful components share: an invariant that the
    start state has and every step keeps; its lemmas lift it to runs over step lists.
\<close>

named_theorems bt_simps "lookup facts of the ordered map"
named_theorems codec_simps "byte encodings and their inverses"

section \<open>Results\<close>

definition and_then :: "'e + 'a \<Rightarrow> ('a \<Rightarrow> 'e + 'b) \<Rightarrow> 'e + 'b" where
  "and_then r f = (case r of Inl e \<Rightarrow> Inl e | Inr a \<Rightarrow> f a)"

definition map_err :: "('e \<Rightarrow> 'f) \<Rightarrow> 'e + 'a \<Rightarrow> 'f + 'a" where
  "map_err g r = (case r of Inl e \<Rightarrow> Inl (g e) | Inr a \<Rightarrow> Inr a)"

definition ok_or :: "'e \<Rightarrow> 'a option \<Rightarrow> 'e + 'a" where
  "ok_or e x = (case x of None \<Rightarrow> Inl e | Some a \<Rightarrow> Inr a)"

lemma and_then_simps [simp]:
  "and_then (Inl e) f = Inl e"
  "and_then (Inr a) f = f a"
  by (simp_all add: and_then_def)

lemma map_err_simps [simp]:
  "map_err g (Inl e) = Inl (g e)"
  "map_err g (Inr a) = Inr a"
  by (simp_all add: map_err_def)

lemma ok_or_simps [simp]:
  "ok_or e None = Inl e"
  "ok_or e (Some a) = Inr a"
  by (simp_all add: ok_or_def)

lemma and_then_eq_Inr:
  "and_then r f = Inr b \<longleftrightarrow> (\<exists>a. r = Inr a \<and> f a = Inr b)"
  by (cases r) auto

lemma map_err_eq_Inr: "map_err g r = Inr a \<longleftrightarrow> r = Inr a"
  by (cases r) auto

lemma ok_or_eq_Inr: "ok_or e x = Inr a \<longleftrightarrow> x = Some a"
  by (cases x) auto

section \<open>Bytes\<close>

type_synonym u8 = "8 word"
type_synonym bytes = "8 word list"

text \<open>The largest values of the fixed-width integers of the source.\<close>

definition u32_max :: nat where "u32_max = 4294967295"
definition u64_max :: nat where "u64_max = 18446744073709551615"
definition i64_max :: int where "i64_max = 9223372036854775807"
definition i64_min :: int where "i64_min = - 9223372036854775808"

text \<open>\<^verbatim>\<open>i64::saturating_add\<close> and \<^verbatim>\<open>saturating_mul\<close>.\<close>

definition sat_i64 :: "int \<Rightarrow> int" where
  "sat_i64 x = (if i64_max < x then i64_max else if x < i64_min then i64_min else x)"

definition i64_saturating_add :: "int \<Rightarrow> int \<Rightarrow> int" where
  "i64_saturating_add a b = sat_i64 (a + b)"

definition i64_saturating_mul :: "int \<Rightarrow> int \<Rightarrow> int" where
  "i64_saturating_mul a b = sat_i64 (a * b)"

lemma sat_i64_bounds: "i64_min \<le> sat_i64 x \<and> sat_i64 x \<le> i64_max"
  by (simp add: sat_i64_def i64_min_def i64_max_def)

lemma sat_i64_id: "i64_min \<le> x \<Longrightarrow> x \<le> i64_max \<Longrightarrow> sat_i64 x = x"
  by (simp add: sat_i64_def)

lemma sat_i64_mono: "x \<le> y \<Longrightarrow> sat_i64 x \<le> sat_i64 y"
  by (simp add: sat_i64_def i64_min_def i64_max_def)

text \<open>\<^verbatim>\<open>n.to_le_bytes()\<close> for a \<open>k\<close>-byte unsigned integer (the value is truncated to \<open>k\<close> bytes,
  as an \<^verbatim>\<open>as\<close> cast does), and \<^verbatim>\<open>from_le_bytes\<close>.\<close>

fun le_bytes :: "nat \<Rightarrow> nat \<Rightarrow> bytes" where
  "le_bytes 0 n = []"
| "le_bytes (Suc k) n = word_of_nat (n mod 256) # le_bytes k (n div 256)"

fun from_le_bytes :: "bytes \<Rightarrow> nat" where
  "from_le_bytes [] = 0"
| "from_le_bytes (b # bs) = unat b + 256 * from_le_bytes bs"

lemma length_le_bytes [simp, codec_simps]: "length (le_bytes k n) = k"
  by (induction k arbitrary: n) auto

lemma from_le_bytes_le_bytes [codec_simps]:
  "from_le_bytes (le_bytes k n) = n mod 256 ^ k"
proof (induction k arbitrary: n)
  case 0
  then show ?case by simp
next
  case (Suc k)
  have "unat (word_of_nat (n mod 256) :: u8) = n mod 256"
    by (simp add: unat_of_nat)
  then show ?case
    by (simp add: Suc mod_mult2_eq)
qed

lemma le_bytes_inj:
  assumes "le_bytes k m = le_bytes k n" "m < 256 ^ k" "n < 256 ^ k"
  shows "m = n"
proof -
  have "m mod 256 ^ k = n mod 256 ^ k"
    using arg_cong [OF assms(1), of from_le_bytes] by (simp only: from_le_bytes_le_bytes)
  with assms(2,3) show ?thesis by simp
qed

section \<open>Strings\<close>

type_synonym uchar = nat
type_synonym ustring = "uchar list"

definition lit :: "string \<Rightarrow> ustring" where
  "lit s = map of_char s"

lemma lit_inj [simp]: "lit s = lit t \<longleftrightarrow> s = t"
  using inj_map_eq_map [of "of_char :: char \<Rightarrow> nat" s t] by (simp add: lit_def inj_def)

lemma lit_Nil [simp]: "lit [] = []" "lit s = [] \<longleftrightarrow> s = []" "[] = lit s \<longleftrightarrow> s = []"
  by (auto simp: lit_def)

text \<open>\<^verbatim>\<open>char::is_whitespace\<close> (the Unicode White\_Space property) and \<^verbatim>\<open>char::is_control\<close>
  (general category Cc).\<close>

definition is_whitespace :: "uchar \<Rightarrow> bool" where
  "is_whitespace c \<longleftrightarrow>
     (9 \<le> c \<and> c \<le> 13) \<or> c = 32 \<or> c = 133 \<or> c = 160 \<or> c = 5760 \<or>
     (8192 \<le> c \<and> c \<le> 8202) \<or> c = 8232 \<or> c = 8233 \<or> c = 8239 \<or> c = 8287 \<or> c = 12288"

definition is_control :: "uchar \<Rightarrow> bool" where
  "is_control c \<longleftrightarrow> c \<le> 31 \<or> (127 \<le> c \<and> c \<le> 159)"

definition trim_start :: "ustring \<Rightarrow> ustring" where
  "trim_start s = dropWhile is_whitespace s"

definition trim_end :: "ustring \<Rightarrow> ustring" where
  "trim_end s = rev (dropWhile is_whitespace (rev s))"

definition trim :: "ustring \<Rightarrow> ustring" where
  "trim s = trim_end (trim_start s)"

lemma trim_Nil [simp]: "trim [] = []"
  by (simp add: trim_def trim_end_def trim_start_def)

lemma set_trim: "set (trim s) \<subseteq> set s"
  by (auto simp: trim_def trim_end_def trim_start_def dest!: set_dropWhileD)

lemma trim_eq_Nil_iff: "trim s = [] \<longleftrightarrow> (\<forall>c\<in>set s. is_whitespace c)"
proof -
  have "trim s = [] \<longleftrightarrow> (\<forall>c\<in>set (dropWhile is_whitespace s). is_whitespace c)"
    by (simp add: trim_def trim_end_def trim_start_def dropWhile_eq_Nil_conv)
  also have "\<dots> \<longleftrightarrow> (\<forall>c\<in>set s. is_whitespace c)"
    by (induction s) auto
  finally show ?thesis .
qed

text \<open>\<^verbatim>\<open>char::to_lowercase\<close>: ASCII letters are mapped here, all other scalars by the Unicode
  table of the standard library, the parameter \<open>table\<close>.\<close>

definition ascii_lower :: "uchar \<Rightarrow> uchar" where
  "ascii_lower c = (if 65 \<le> c \<and> c \<le> 90 then c + 32 else c)"

definition to_lowercase :: "(uchar \<Rightarrow> ustring) \<Rightarrow> uchar \<Rightarrow> ustring" where
  "to_lowercase table c = (if c < 128 then [ascii_lower c] else table c)"

lemma concat_to_lowercase_ascii:
  "\<forall>c\<in>set s. c < 128 \<Longrightarrow> concat (map (to_lowercase table) s) = map ascii_lower s"
  by (induction s) (simp_all add: to_lowercase_def)

text \<open>The decimal digits of a number.\<close>

fun show_nat :: "nat \<Rightarrow> ustring" where
  "show_nat n = (if n < 10 then [48 + n] else show_nat (n div 10) @ [48 + n mod 10])"

declare show_nat.simps [simp del]

text \<open>\<^verbatim>\<open>char::len_utf8\<close>, \<^verbatim>\<open>str::len\<close> and the UTF-8 bytes of \<^verbatim>\<open>str::as_bytes\<close>.\<close>

definition len_utf8 :: "uchar \<Rightarrow> nat" where
  "len_utf8 c = (if c < 128 then 1 else if c < 2048 then 2 else if c < 65536 then 3 else 4)"

definition str_len :: "ustring \<Rightarrow> nat" where
  "str_len s = sum_list (map len_utf8 s)"

definition utf8_char :: "uchar \<Rightarrow> bytes" where
  "utf8_char c =
     (if c < 128 then [word_of_nat c]
      else if c < 2048 then
        [word_of_nat (192 + c div 64), word_of_nat (128 + c mod 64)]
      else if c < 65536 then
        [word_of_nat (224 + c div 4096), word_of_nat (128 + c div 64 mod 64),
         word_of_nat (128 + c mod 64)]
      else
        [word_of_nat (240 + c div 262144), word_of_nat (128 + c div 4096 mod 64),
         word_of_nat (128 + c div 64 mod 64), word_of_nat (128 + c mod 64)])"

definition utf8 :: "ustring \<Rightarrow> bytes" where
  "utf8 s = concat (map utf8_char s)"

lemma str_len_simps [simp]:
  "str_len [] = 0"
  "str_len (c # s) = len_utf8 c + str_len s"
  "str_len (s @ t) = str_len s + str_len t"
  by (simp_all add: str_len_def)

lemma len_utf8_bounds: "0 < len_utf8 c" "len_utf8 c \<le> 4"
  by (simp_all add: len_utf8_def)

lemma length_utf8_char [simp]: "length (utf8_char c) = len_utf8 c"
  by (simp add: utf8_char_def len_utf8_def)

lemma length_utf8 [simp]: "length (utf8 s) = str_len s"
  by (induction s) (simp_all add: utf8_def)

section \<open>Ordered maps\<close>

text \<open>\<^verbatim>\<open>BTreeMap<K, V>\<close> (and \<^verbatim>\<open>serde_json::Map\<close>, which is one): the entries in key order.
  \<open>bt_insert\<close> is \<^verbatim>\<open>insert\<close> (an existing value is replaced), \<open>bt_remove\<close> is \<^verbatim>\<open>remove\<close>, \<open>bt_get\<close>
  is \<^verbatim>\<open>get\<close>.\<close>

definition bt_wf :: "('k::linorder \<times> 'v) list \<Rightarrow> bool" where
  "bt_wf m \<longleftrightarrow> sorted_wrt (<) (map fst m)"

definition bt_get :: "('k \<times> 'v) list \<Rightarrow> 'k \<Rightarrow> 'v option" where
  "bt_get m k = map_of m k"

fun bt_insert :: "'k::linorder \<Rightarrow> 'v \<Rightarrow> ('k \<times> 'v) list \<Rightarrow> ('k \<times> 'v) list" where
  "bt_insert k v [] = [(k, v)]"
| "bt_insert k v ((k', v') # m) =
     (if k < k' then (k, v) # (k', v') # m
      else if k = k' then (k, v) # m
      else (k', v') # bt_insert k v m)"

definition bt_remove :: "'k \<Rightarrow> ('k \<times> 'v) list \<Rightarrow> ('k \<times> 'v) list" where
  "bt_remove k m = filter (\<lambda>(k', _). k' \<noteq> k) m"

definition bt_keys :: "('k \<times> 'v) list \<Rightarrow> 'k list" where
  "bt_keys m = map fst m"

text \<open>Collecting an iterator of pairs into a \<^verbatim>\<open>BTreeMap\<close>: later pairs replace earlier ones.\<close>

definition bt_collect :: "('k::linorder \<times> 'v) list \<Rightarrow> ('k \<times> 'v) list" where
  "bt_collect xs = fold (\<lambda>(k, v) m. bt_insert k v m) xs []"

locale ordered_map =
  fixes empty :: 'm
    and insert :: "'k::linorder \<Rightarrow> 'v \<Rightarrow> 'm \<Rightarrow> 'm"
    and remove :: "'k \<Rightarrow> 'm \<Rightarrow> 'm"
    and get :: "'m \<Rightarrow> 'k \<Rightarrow> 'v option"
    and keys :: "'m \<Rightarrow> 'k list"
    and wf :: "'m \<Rightarrow> bool"
  assumes wf_empty: "wf empty"
    and get_empty: "get empty k = None"
    and wf_insert: "wf m \<Longrightarrow> wf (insert k v m)"
    and get_insert: "wf m \<Longrightarrow> get (insert k v m) = (get m)(k \<mapsto> v)"
    and wf_remove: "wf m \<Longrightarrow> wf (remove k m)"
    and get_remove: "wf m \<Longrightarrow> get (remove k m) = (get m)(k := None)"
    and keys_dom: "wf m \<Longrightarrow> set (keys m) = dom (get m)"
    and keys_sorted: "wf m \<Longrightarrow> sorted_wrt (<) (keys m)"
begin

definition insert_all :: "('k \<times> 'v) list \<Rightarrow> 'm \<Rightarrow> 'm" where
  "insert_all xs m = fold (\<lambda>(k, v) m. insert k v m) xs m"

lemma insert_all_simps [simp]:
  "insert_all [] m = m"
  "insert_all ((k, v) # xs) m = insert_all xs (insert k v m)"
  by (simp_all add: insert_all_def)

lemma wf_insert_all: "wf m \<Longrightarrow> wf (insert_all xs m)"
  by (induction xs arbitrary: m) (auto simp: wf_insert)

lemma get_insert_all: "wf m \<Longrightarrow> get (insert_all xs m) = get m ++ map_of (rev xs)"
  by (induction xs arbitrary: m)
    (auto simp: wf_insert get_insert map_add_def fun_eq_iff map_of_append split: option.splits)

lemma insert_insert_same: "wf m \<Longrightarrow> get (insert k v (insert k u m)) = get (insert k v m)"
  by (simp add: get_insert wf_insert)

lemma keys_insert: "wf m \<Longrightarrow> set (keys (insert k v m)) = Set.insert k (set (keys m))"
  by (simp add: keys_dom wf_insert get_insert)

lemma keys_remove: "wf m \<Longrightarrow> set (keys (remove k m)) = set (keys m) - {k}"
  by (simp add: keys_dom wf_remove get_remove)

end

lemma in_map_filter: "y \<in> set (List.map_filter f xs) \<longleftrightarrow> (\<exists>x\<in>set xs. f x = Some y)"
  by (induction xs) (auto simp: List.map_filter_simps split: option.splits)

lemma bt_get_simps [simp]:
  "bt_get [] k = None"
  "bt_get ((k', v) # m) k = (if k = k' then Some v else bt_get m k)"
  by (simp_all add: bt_get_def)

lemma bt_wf_Nil [simp]: "bt_wf []"
  by (simp add: bt_wf_def)

lemma bt_wf_Cons: "bt_wf ((k, v) # m) \<longleftrightarrow> (\<forall>k'\<in>fst ` set m. k < k') \<and> bt_wf m"
  by (auto simp: bt_wf_def)

lemma bt_wf_distinct: "bt_wf m \<Longrightarrow> distinct (map fst m)"
  by (simp add: bt_wf_def strict_sorted_iff)

lemma fst_set_bt_insert: "fst ` set (bt_insert k v m) = insert k (fst ` set m)"
proof (induction m)
  case (Cons e m)
  then show ?case by (cases e) auto
qed simp

lemma bt_wf_insert [simp]: "bt_wf m \<Longrightarrow> bt_wf (bt_insert k v m)"
proof (induction m)
  case (Cons e m)
  obtain a b where e: "e = (a, b)" by (cases e)
  show ?case
  proof (cases "k < a")
    case True
    then have "\<forall>k'\<in>fst ` set m. k < k'"
      using Cons.prems e by (auto simp: bt_wf_Cons intro: less_trans)
    with True Cons.prems e show ?thesis by (simp add: bt_wf_Cons)
  next
    case False
    with Cons e show ?thesis by (auto simp: bt_wf_Cons fst_set_bt_insert not_less order.strict_iff_order)
  qed
qed (simp add: bt_wf_Cons)

lemma bt_get_insert [bt_simps]: "bt_wf m \<Longrightarrow> bt_get (bt_insert k v m) = (bt_get m)(k \<mapsto> v)"
  by (induction m) (auto simp: bt_wf_Cons bt_get_def fun_eq_iff)

lemma bt_wf_remove [simp]: "bt_wf m \<Longrightarrow> bt_wf (bt_remove k m)"
  by (induction m) (auto simp: bt_wf_Cons bt_remove_def)

lemma bt_get_remove [bt_simps]: "bt_get (bt_remove k m) = (bt_get m)(k := None)"
  by (induction m) (auto simp: bt_get_def bt_remove_def fun_eq_iff)

interpretation bt: ordered_map "[]" bt_insert bt_remove bt_get bt_keys bt_wf
proof unfold_locales
  fix m :: "('a \<times> 'b) list" and k :: 'a and v :: 'b
  show "bt_wf ([] :: ('a \<times> 'b) list)" by simp
  show "bt_get ([] :: ('a \<times> 'b) list) k = None" by (simp add: bt_get_def)
  show "bt_get (bt_remove k m) = (bt_get m)(k := None)" by (rule bt_get_remove)
  assume wf: "bt_wf m"
  show "bt_wf (bt_insert k v m)" and "bt_wf (bt_remove k m)" using wf by simp_all
  show "bt_get (bt_insert k v m) = (bt_get m)(k \<mapsto> v)" using wf by (rule bt_get_insert)
  show "set (bt_keys m) = dom (bt_get m)" by (auto simp: bt_keys_def bt_get_def [abs_def] dom_map_of_conv_image_fst)
  show "sorted_wrt (<) (bt_keys m)" using wf by (simp add: bt_keys_def bt_wf_def)
qed

lemma bt_collect_insert_all: "bt_collect xs = bt.insert_all xs []"
  by (simp add: bt_collect_def bt.insert_all_def)

lemma bt_wf_collect [simp]: "bt_wf (bt_collect xs)"
  by (simp add: bt_collect_insert_all bt.wf_insert_all)

lemma bt_get_Some_in: "bt_wf m \<Longrightarrow> bt_get m k = Some v \<longleftrightarrow> (k, v) \<in> set m"
  by (simp add: bt_get_def bt_wf_distinct)

text \<open>Two well-formed maps with the same lookups are the same list.\<close>

lemma bt_ext:
  assumes "bt_wf m" "bt_wf n" "bt_get m = bt_get n"
  shows "m = n"
proof -
  have "set m = set n"
    using assms by (metis bt_get_Some_in subrelI subset_antisym)
  moreover have "distinct m" "distinct n"
    using assms bt_wf_distinct by (auto simp: distinct_map)
  moreover have "sorted (map fst m)" "sorted (map fst n)"
    using assms by (simp_all add: bt_wf_def strict_sorted_iff)
  ultimately show ?thesis
    using map_sorted_distinct_set_unique [of fst m n] assms bt_wf_distinct
    by (metis distinct_map inf.idem sup.idem)
qed

section \<open>Ordered sets\<close>

text \<open>\<^verbatim>\<open>BTreeSet<K>\<close>: the elements in increasing order.\<close>

definition bs_wf :: "'k::linorder list \<Rightarrow> bool" where
  "bs_wf s \<longleftrightarrow> sorted_wrt (<) s"

fun bs_insert :: "'k::linorder \<Rightarrow> 'k list \<Rightarrow> 'k list" where
  "bs_insert x [] = [x]"
| "bs_insert x (y # ys) = (if x < y then x # y # ys else if x = y then y # ys else y # bs_insert x ys)"

definition bs_remove :: "'k \<Rightarrow> 'k list \<Rightarrow> 'k list" where
  "bs_remove x s = filter (\<lambda>y. y \<noteq> x) s"

lemma bs_wf_Nil [simp]: "bs_wf []"
  by (simp add: bs_wf_def)

lemma set_bs_insert [simp]: "set (bs_insert x s) = insert x (set s)"
  by (induction s) auto

lemma set_bs_remove [simp]: "set (bs_remove x s) = set s - {x}"
  by (auto simp: bs_remove_def)

lemma bs_wf_insert [simp]: "bs_wf s \<Longrightarrow> bs_wf (bs_insert x s)"
proof (induction s)
  case (Cons y s)
  show ?case
  proof (cases "x < y")
    case True
    with Cons.prems show ?thesis by (auto simp: bs_wf_def intro: less_trans)
  next
    case False
    with Cons show ?thesis by (auto simp: bs_wf_def)
  qed
qed (simp add: bs_wf_def)

lemma bs_wf_remove [simp]: "bs_wf s \<Longrightarrow> bs_wf (bs_remove x s)"
  by (simp add: bs_wf_def bs_remove_def sorted_wrt_filter)

lemma bs_ext: "bs_wf s \<Longrightarrow> bs_wf t \<Longrightarrow> set s = set t \<Longrightarrow> s = t"
  by (simp add: bs_wf_def strict_sorted_equal)

lemma bs_insert_mem: "bs_wf s \<Longrightarrow> x \<in> set s \<Longrightarrow> bs_insert x s = s"
  by (rule bs_ext) auto

lemma bs_wf_distinct: "bs_wf s \<Longrightarrow> distinct s"
  by (simp add: bs_wf_def strict_sorted_iff)

section \<open>Framed streams\<close>

text \<open>A codec that puts values one after another on a byte stream: reading at the start of what was
  written gives the value back and leaves the rest. Then a whole sequence is read back in order.\<close>

locale frame_codec =
  fixes ok :: "'a \<Rightarrow> bool"
    and put :: "'a \<Rightarrow> bytes"
    and get :: "bytes \<Rightarrow> ('a \<times> bytes) option"
  assumes get_put: "ok x \<Longrightarrow> get (put x @ rest) = Some (x, rest)"
begin

primrec get_many :: "nat \<Rightarrow> bytes \<Rightarrow> ('a list \<times> bytes) option" where
  "get_many 0 bs = Some ([], bs)"
| "get_many (Suc n) bs =
     (case get bs of None \<Rightarrow> None
      | Some (x, rest) \<Rightarrow> map_option (\<lambda>(xs, r). (x # xs, r)) (get_many n rest))"

lemma get_many_put:
  "\<forall>x\<in>set xs. ok x \<Longrightarrow> get_many (length xs) (concat (map put xs) @ rest) = Some (xs, rest)"
  by (induction xs) (simp_all add: get_put)

lemma put_inj: "ok x \<Longrightarrow> ok y \<Longrightarrow> put x @ r = put y @ s \<Longrightarrow> x = y \<and> r = s"
  by (metis get_put option.inject prod.inject)

lemma put_many_inj:
  assumes "\<forall>x\<in>set xs. ok x" "\<forall>y\<in>set ys. ok y" "length xs = length ys"
    and "concat (map put xs) = concat (map put ys)"
  shows "xs = ys"
proof -
  have "get_many (length ys) (concat (map put ys) @ []) = Some (xs, [])"
    using get_many_put [OF assms(1), of "[]"] by (simp only: assms(3,4))
  then show ?thesis by (simp only: get_many_put [OF assms(2)]) simp
qed

end

text \<open>The length-prefixed field: a \<open>k\<close>-byte little-endian length and then the bytes.\<close>

definition put_prefixed :: "nat \<Rightarrow> bytes \<Rightarrow> bytes" where
  "put_prefixed k body = le_bytes k (length body) @ body"

definition get_prefixed :: "nat \<Rightarrow> bytes \<Rightarrow> (bytes \<times> bytes) option" where
  "get_prefixed k bs =
     (if length bs < k then None
      else let n = from_le_bytes (take k bs); rest = drop k bs in
        if length rest < n then None else Some (take n rest, drop n rest))"

lemma get_put_prefixed:
  "length body < 256 ^ k \<Longrightarrow> get_prefixed k (put_prefixed k body @ rest) = Some (body, rest)"
  by (simp add: put_prefixed_def get_prefixed_def from_le_bytes_le_bytes Let_def)

interpretation prefixed4: frame_codec "\<lambda>b. length b < 256 ^ 4" "put_prefixed 4" "get_prefixed 4"
  by unfold_locales (rule get_put_prefixed)

interpretation prefixed8: frame_codec "\<lambda>b. length b < 256 ^ 8" "put_prefixed 8" "get_prefixed 8"
  by unfold_locales (rule get_put_prefixed)

section \<open>Vectors\<close>

text \<open>\<^verbatim>\<open>Iterator::position\<close>, \<^verbatim>\<open>Vec::insert\<close> (which panics past the end: \<open>None\<close>) and \<^verbatim>\<open>Vec::remove\<close>.\<close>

fun position :: "('a \<Rightarrow> bool) \<Rightarrow> 'a list \<Rightarrow> nat option" where
  "position p [] = None"
| "position p (x # xs) = (if p x then Some 0 else map_option Suc (position p xs))"

definition insert_at :: "nat \<Rightarrow> 'a \<Rightarrow> 'a list \<Rightarrow> 'a list" where
  "insert_at i x xs = take i xs @ x # drop i xs"

definition delete_at :: "nat \<Rightarrow> 'a list \<Rightarrow> 'a list" where
  "delete_at i xs = take i xs @ drop (Suc i) xs"

lemma position_None_iff: "position p xs = None \<longleftrightarrow> (\<forall>x\<in>set xs. \<not> p x)"
  by (induction xs) auto

lemma position_SomeD:
  "position p xs = Some i \<Longrightarrow> i < length xs \<and> p (xs ! i) \<and> (\<forall>j<i. \<not> p (xs ! j))"
proof (induction xs arbitrary: i)
  case (Cons x xs)
  then show ?case by (auto simp: nth_Cons split: if_splits nat.splits)
qed simp

lemma position_append:
  "position p (xs @ ys) =
     (case position p xs of Some i \<Rightarrow> Some i
      | None \<Rightarrow> map_option (\<lambda>i. i + length xs) (position p ys))"
  by (induction xs) (auto simp: option.map_comp o_def option.map_ident split: option.splits)

lemma length_insert_at [simp]: "length (insert_at i x xs) = Suc (length xs)"
  by (simp add: insert_at_def)

lemma set_insert_at [simp]: "set (insert_at i x xs) = insert x (set xs)"
  unfolding insert_at_def by (metis append_take_drop_id list.simps(15) set_append Un_insert_right)

lemma length_delete_at [simp]: "i < length xs \<Longrightarrow> length (delete_at i xs) = length xs - 1"
  by (simp add: delete_at_def)

lemma insert_at_append: "insert_at (length xs) x (xs @ ys) = xs @ x # ys"
  by (simp add: insert_at_def)

lemma delete_at_append: "delete_at (length xs) (xs @ y # ys) = xs @ ys"
  by (simp add: delete_at_def)

lemma map_insert_at: "map f (insert_at i x xs) = insert_at i (f x) (map f xs)"
  by (simp add: insert_at_def take_map drop_map)

section \<open>Table codecs\<close>

text \<open>A concrete codec for instantiating codec parameters: the values of a table are encoded as one
  byte, their index in it.\<close>

definition table_encode :: "'a list \<Rightarrow> 'a \<Rightarrow> bytes option" where
  "table_encode t v = map_option (\<lambda>i. [word_of_nat i]) (position (\<lambda>x. x = v) (take 256 t))"

definition table_decode :: "'a list \<Rightarrow> bytes \<Rightarrow> 'a option" where
  "table_decode t bs =
     (case bs of [b] \<Rightarrow> if unat b < length t then Some (t ! unat b) else None | _ \<Rightarrow> None)"

lemma table_decode_encode: "table_encode t v = Some b \<Longrightarrow> table_decode t b = Some v"
proof -
  assume "table_encode t v = Some b"
  then obtain i where b: "b = [word_of_nat i]" and i: "position (\<lambda>x. x = v) (take 256 t) = Some i"
    by (auto simp: table_encode_def)
  from position_SomeD [OF i] have "i < 256" "i < length t" "t ! i = v" by auto
  moreover have "unat (word_of_nat i :: u8) = i" using \<open>i < 256\<close> by (simp add: unat_of_nat)
  ultimately show ?thesis by (simp add: b table_decode_def)
qed

text \<open>A total injective encoding of texts: every character in unary.\<close>

definition unary :: "nat list \<Rightarrow> bytes" where
  "unary s = concat (map (\<lambda>n. replicate n 0 @ [1]) s)"

lemma unary_inj: "unary s = unary t \<Longrightarrow> s = t"
proof (induction s arbitrary: t)
  case Nil
  then show ?case by (cases t) (auto simp: unary_def)
next
  case (Cons a s)
  have split1: "replicate a (0 :: u8) @ 1 # x = replicate b 0 @ 1 # y \<Longrightarrow> a = b \<and> x = y" for b x y
  proof (induction a arbitrary: b)
    case 0
    then show ?case by (cases b) auto
  next
    case (Suc a)
    then show ?case by (cases b) auto
  qed
  from Cons show ?case
    by (cases t) (auto simp: unary_def dest: split1)
qed

section \<open>State machines\<close>

locale state_machine =
  fixes init :: "'s \<Rightarrow> bool"
    and step :: "'s \<Rightarrow> 'e \<Rightarrow> 's"
    and inv :: "'s \<Rightarrow> bool"
  assumes inv_init: "init s \<Longrightarrow> inv s"
    and inv_step: "inv s \<Longrightarrow> inv (step s e)"
begin

lemma inv_run: "inv s \<Longrightarrow> inv (foldl step s es)"
  by (induction es arbitrary: s) (auto intro: inv_step)

lemma inv_reachable: "init s \<Longrightarrow> inv (foldl step s es)"
  by (blast intro: inv_init inv_run)

lemma run_frame:
  "(\<And>s e. inv s \<Longrightarrow> f (step s e) = f s) \<Longrightarrow> inv s \<Longrightarrow> f (foldl step s es) = f s"
  by (induction es arbitrary: s) (simp_all add: inv_step)

end

end
