(* ===== verification/Share_Room.thy ===== *)
theory Share_Room
  imports Prelude
begin

text \<open>
  \<^verbatim>\<open>crates/vt-share/src/room.rs\<close>, \<^verbatim>\<open>nearby.rs\<close> and \<^verbatim>\<open>shareable.rs\<close>: the sharing scope, the room
  secret and the topic derived from both, the display name rules and the closed list of what may
  leave the machine. SHA-256 is a parameter (\<open>sha256\<close>).
\<close>

section \<open>Scopes and topics\<close>

datatype scope_id = Notebook ustring | Session ustring

definition topic_domain :: bytes where
  "topic_domain = utf8 (lit ''zulangue/room/v1'')"

fun derivation_bytes :: "scope_id \<Rightarrow> bytes" where
  "derivation_bytes (Notebook notebook_id) = utf8 (lit ''notebook:'') @ utf8 notebook_id"
| "derivation_bytes (Session session_id) = utf8 (lit ''session:'') @ utf8 session_id"

text \<open>\<^verbatim>\<open>RoomSecret([u8; 32])\<close>. The array length is the predicate \<open>secret_wf\<close>.\<close>

datatype room_secret = RoomSecret (secret_bytes: bytes)

definition secret_wf :: "room_secret \<Rightarrow> bool" where
  "secret_wf s \<longleftrightarrow> length (secret_bytes s) = 32"

definition topic_preimage :: "room_secret \<Rightarrow> scope_id \<Rightarrow> bytes" where
  "topic_preimage s scope = topic_domain @ derivation_bytes scope @ secret_bytes s"

definition topic_id :: "(bytes \<Rightarrow> bytes) \<Rightarrow> room_secret \<Rightarrow> scope_id \<Rightarrow> bytes" where
  "topic_id sha256 s scope = sha256 (topic_preimage s scope)"

text \<open>UTF-8 is injective on scalar values: the first byte tells the length, the rest the value.\<close>

definition scalars :: "ustring \<Rightarrow> bool" where
  "scalars s \<longleftrightarrow> (\<forall>c\<in>set s. c < 1114112)"

definition utf8_decode :: "bytes \<Rightarrow> (uchar \<times> bytes) option" where
  "utf8_decode bs =
     (case map unat bs of
        [] \<Rightarrow> None
      | a # r \<Rightarrow>
          if a < 128 then Some (a, drop 1 bs)
          else if a < 224 then Some ((a - 192) * 64 + (r ! 0 - 128), drop 2 bs)
          else if a < 240 then
            Some ((a - 224) * 4096 + (r ! 0 - 128) * 64 + (r ! 1 - 128), drop 3 bs)
          else Some ((a - 240) * 262144 + (r ! 0 - 128) * 4096 + (r ! 1 - 128) * 64 + (r ! 2 - 128),
                     drop 4 bs))"

lemma unat_u8: "n < 256 \<Longrightarrow> unat (word_of_nat n :: u8) = n"
  by (simp add: unat_of_nat)

lemma mod_digits:
  "(c :: nat) div 64 * 64 + c mod 64 = c"
  "c div 4096 * 4096 + c div 64 mod 64 * 64 + c mod 64 = c"
  "c div 262144 * 262144 + c div 4096 mod 64 * 4096 + c div 64 mod 64 * 64 + c mod 64 = c"
proof -
  have one: "d div 64 * 64 + d mod 64 = d" for d :: nat by simp
  have d2: "c div 4096 = c div 64 div 64" and d3: "c div 262144 = c div 64 div 64 div 64"
    by (simp_all flip: div_mult2_eq)
  show "c div 64 * 64 + c mod 64 = c" by (rule one)
  show "c div 4096 * 4096 + c div 64 mod 64 * 64 + c mod 64 = c"
    using one [of c] one [of "c div 64"] unfolding d2 by linarith
  show "c div 262144 * 262144 + c div 4096 mod 64 * 4096 + c div 64 mod 64 * 64 + c mod 64 = c"
    using one [of c] one [of "c div 64"] one [of "c div 64 div 64"] unfolding d2 d3 by linarith
qed

lemma utf8_decode_char:
  assumes "c < 1114112"
  shows "utf8_decode (utf8_char c @ rest) = Some (c, rest)"
proof -
  consider "c < 128" | "128 \<le> c" "c < 2048" | "2048 \<le> c" "c < 65536" | "65536 \<le> c"
    by linarith
  then show ?thesis
  proof cases
    case 1
    then show ?thesis by (simp add: utf8_decode_def utf8_char_def unat_u8)
  next
    case 2
    then have "192 + c div 64 < 224" "192 + c div 64 < 256" "128 + c mod 64 < 256" by auto
    with 2 show ?thesis
      by (simp add: utf8_decode_def utf8_char_def unat_u8 mod_digits del: of_nat_add)
  next
    case 3
    then have "224 + c div 4096 < 240" "224 + c div 4096 < 256"
      "128 + c div 64 mod 64 < 256" "128 + c mod 64 < 256" by auto
    with 3 show ?thesis
      by (simp add: utf8_decode_def utf8_char_def unat_u8 mod_digits del: of_nat_add)
  next
    case 4
    with assms have "240 + c div 262144 < 256" "128 + c div 4096 mod 64 < 256"
      "128 + c div 64 mod 64 < 256" "128 + c mod 64 < 256" by auto
    with 4 show ?thesis
      by (simp add: utf8_decode_def utf8_char_def unat_u8 mod_digits del: of_nat_add)
  qed
qed

interpretation utf8_codec: frame_codec "\<lambda>c. c < 1114112" utf8_char utf8_decode
  by unfold_locales (rule utf8_decode_char)

lemma utf8_char_neq_Nil [simp]: "utf8_char c \<noteq> []"
  by (simp add: utf8_char_def)

lemma utf8_inj: "scalars s \<Longrightarrow> scalars t \<Longrightarrow> utf8 s = utf8 t \<Longrightarrow> s = t"
proof (induction s arbitrary: t)
  case Nil
  then show ?case
    by (cases t) (auto simp: utf8_def)
next
  case (Cons c s)
  show ?case
  proof (cases t)
    case Nil
    then show ?thesis
      using Cons.prems by (simp add: utf8_def)
  next
    case (Cons d t')
    then show ?thesis
      using Cons.IH [of t'] Cons.prems utf8_codec.put_inj [of c d "utf8 s" "utf8 t'"]
      by (simp add: utf8_def scalars_def)
  qed
qed

lemma utf8_lit_prefix: "utf8 (lit (c # s)) = utf8_char (of_char c) @ utf8 (lit s)"
  by (simp add: utf8_def lit_def)

lemma derivation_bytes_inj:
  assumes "derivation_bytes a = derivation_bytes b"
    and "\<forall>i. a = Notebook i \<or> a = Session i \<longrightarrow> scalars i"
    and "\<forall>i. b = Notebook i \<or> b = Session i \<longrightarrow> scalars i"
  shows "a = b"
  using assms
  by (cases a; cases b) (auto simp: utf8_lit_prefix utf8_char_def intro: utf8_inj)

definition scope_text :: "scope_id \<Rightarrow> ustring" where
  "scope_text scope = (case scope of Notebook i \<Rightarrow> i | Session i \<Rightarrow> i)"

lemma topic_preimage_inj:
  assumes eq: "topic_preimage s a = topic_preimage t b"
    and len: "secret_wf s" "secret_wf t"
    and sc: "scalars (scope_text a)" "scalars (scope_text b)"
  shows "s = t \<and> a = b"
proof -
  have "derivation_bytes a = derivation_bytes b \<and> secret_bytes s = secret_bytes t"
    using eq len by (simp add: topic_preimage_def secret_wf_def)
  then show ?thesis
    using sc derivation_bytes_inj [of a b]
    by (auto simp: scope_text_def room_secret.expand split: scope_id.splits)
qed

text \<open>Two rooms share a gossip topic only when they are the same room (same secret and same
  scope, notebook and session kept apart) or SHA-256 collides on their two preimages. Rotating the
  secret therefore changes the room.\<close>

theorem topic_id_separates_rooms:
  assumes "secret_wf s" "secret_wf t" "scalars (scope_text a)" "scalars (scope_text b)"
    and "topic_id sha256 s a = topic_id sha256 t b"
  shows "(s = t \<and> a = b) \<or>
    (topic_preimage s a \<noteq> topic_preimage t b \<and>
     sha256 (topic_preimage s a) = sha256 (topic_preimage t b))"
  using assms topic_preimage_inj [of s a t b] by (auto simp: topic_id_def)

theorem topic_id_separates_rooms_witness:
  "topic_id (\<lambda>b. b) (RoomSecret (replicate 32 1)) (Notebook (lit ''same-id''))
     \<noteq> topic_id (\<lambda>b. b) (RoomSecret (replicate 32 1)) (Session (lit ''same-id''))"
proof
  let ?s = "RoomSecret (replicate 32 1)" and ?a = "Notebook (lit ''same-id'')"
    and ?b = "Session (lit ''same-id'')"
  assume eq: "topic_id (\<lambda>b. b) ?s ?a = topic_id (\<lambda>b. b) ?s ?b"
  have "secret_wf ?s" by (simp add: secret_wf_def)
  moreover have "scalars (scope_text ?a)" "scalars (scope_text ?b)"
    by (simp_all add: scalars_def scope_text_def lit_def)
  ultimately show False
    using topic_id_separates_rooms [of ?s ?s ?a ?b "\<lambda>b. b"] eq by simp
qed

section \<open>Display names\<close>

definition max_display_name_bytes :: nat where
  "max_display_name_bytes = 64"

text \<open>The loop that copies characters while the byte limit allows.\<close>

fun clip_name :: "ustring \<Rightarrow> ustring \<Rightarrow> ustring" where
  "clip_name out [] = out"
| "clip_name out (c # cs) =
     (if str_len out + len_utf8 c > max_display_name_bytes then out else clip_name (out @ [c]) cs)"

definition sanitize_display_name :: "ustring \<Rightarrow> ustring" where
  "sanitize_display_name raw =
     (let cleaned = trim (filter (\<lambda>c. \<not> is_control c) raw)
      in if cleaned = [] then [] else clip_name [] cleaned)"

lemma clip_name_prefix: "\<exists>k. clip_name out cs = out @ take k cs"
proof (induction out cs rule: clip_name.induct)
  case (2 out c cs)
  show ?case
  proof (cases "str_len out + len_utf8 c > max_display_name_bytes")
    case True
    then show ?thesis by (auto intro: exI [of _ 0])
  next
    case False
    with 2 obtain k where "clip_name (out @ [c]) cs = (out @ [c]) @ take k cs" by auto
    with False show ?thesis by (auto intro: exI [of _ "Suc k"])
  qed
qed simp

lemma clip_name_len:
  "str_len out \<le> max_display_name_bytes \<Longrightarrow> str_len (clip_name out cs) \<le> max_display_name_bytes"
  by (induction out cs rule: clip_name.induct) auto

lemma clip_name_id:
  "str_len out + str_len cs \<le> max_display_name_bytes \<Longrightarrow> clip_name out cs = out @ cs"
  by (induction out cs rule: clip_name.induct) auto

definition name_ok :: "ustring \<Rightarrow> bool" where
  "name_ok n \<longleftrightarrow> str_len n \<le> max_display_name_bytes \<and> (\<forall>c\<in>set n. \<not> is_control c)"

lemma sanitize_display_name_clip:
  "sanitize_display_name raw = clip_name [] (trim (filter (\<lambda>c. \<not> is_control c) raw))"
  by (simp add: sanitize_display_name_def Let_def)

lemma clip_name_take: "\<exists>k. clip_name [] cs = take k cs"
  using clip_name_prefix [of "[]" cs] by simp

lemma set_clip_name: "set (clip_name [] cs) \<subseteq> set cs"
  using clip_name_take [of cs] by (metis set_take_subset)

lemma name_ok_sanitize [simp, intro]: "name_ok (sanitize_display_name raw)"
proof -
  have "set (sanitize_display_name raw) \<subseteq> set (filter (\<lambda>c. \<not> is_control c) raw)"
    unfolding sanitize_display_name_clip by (rule subset_trans [OF set_clip_name set_trim])
  moreover have "str_len (sanitize_display_name raw) \<le> max_display_name_bytes"
    unfolding sanitize_display_name_clip by (rule clip_name_len) simp
  ultimately show ?thesis
    unfolding name_ok_def by fastforce
qed

text \<open>A name that arrives from a peer is shown with no control character and at most 64 bytes;
  it is a prefix of the trimmed input, cut between characters, and it is the whole trimmed input
  when that fits.\<close>

theorem sanitize_display_name_bounds:
  "str_len (sanitize_display_name raw) \<le> max_display_name_bytes \<and>
   (\<forall>c\<in>set (sanitize_display_name raw). \<not> is_control c) \<and>
   (\<exists>k. sanitize_display_name raw = take k (trim (filter (\<lambda>c. \<not> is_control c) raw))) \<and>
   (str_len (trim (filter (\<lambda>c. \<not> is_control c) raw)) \<le> max_display_name_bytes \<longrightarrow>
      sanitize_display_name raw = trim (filter (\<lambda>c. \<not> is_control c) raw))"
proof (intro conjI impI)
  show "str_len (sanitize_display_name raw) \<le> max_display_name_bytes"
    and "\<forall>c\<in>set (sanitize_display_name raw). \<not> is_control c"
    using name_ok_sanitize [of raw] unfolding name_ok_def by blast+
  show "\<exists>k. sanitize_display_name raw = take k (trim (filter (\<lambda>c. \<not> is_control c) raw))"
    unfolding sanitize_display_name_clip by (rule clip_name_take)
  assume "str_len (trim (filter (\<lambda>c. \<not> is_control c) raw)) \<le> max_display_name_bytes"
  then show "sanitize_display_name raw = trim (filter (\<lambda>c. \<not> is_control c) raw)"
    unfolding sanitize_display_name_clip by (subst clip_name_id) (simp_all only: str_len_simps append_Nil add_0)
qed

theorem sanitize_display_name_bounds_witness:
  "sanitize_display_name (lit '' Ann '') = trim (filter (\<lambda>c. \<not> is_control c) (lit '' Ann ''))"
  using sanitize_display_name_bounds [of "lit '' Ann ''"]
  by (simp add: lit_def trim_def trim_end_def trim_start_def is_whitespace_def is_control_def
      len_utf8_def max_display_name_bytes_def)

section \<open>What may leave the machine\<close>

datatype shareable_kind = RealtimeTranscript | AsyncTranscript | PersonalNote | TextExportBundle

fun wire_tag :: "shareable_kind \<Rightarrow> ustring" where
  "wire_tag RealtimeTranscript = lit ''realtime_transcript''"
| "wire_tag AsyncTranscript = lit ''async_transcript''"
| "wire_tag PersonalNote = lit ''personal_note''"
| "wire_tag TextExportBundle = lit ''text_export_bundle''"

definition shareable_kinds :: "shareable_kind list" where
  "shareable_kinds = [RealtimeTranscript, AsyncTranscript, PersonalNote, TextExportBundle]"

lemma shareable_kinds_complete: "k \<in> set shareable_kinds"
  by (cases k) (simp_all add: shareable_kinds_def)

lemma wire_tag_inj: "wire_tag a = wire_tag b \<Longrightarrow> a = b"
  by (cases a; cases b) simp_all

end
