(* ===== verification/Share_Wire.thy ===== *)
theory Share_Wire
  imports Share_Room
begin

text \<open>
  \<^verbatim>\<open>crates/vt-share/src/wire.rs\<close> (framing of one message per uni-stream) and
  \<^verbatim>\<open>resource.rs\<close> (text resources asked for by kind). The serde\_json codec and the hex SHA-256
  digest are parameters. A writer is what it has accepted and how many more bytes it will take; a
  reader is the bytes still to come.
\<close>

section \<open>Framing\<close>

definition max_message_bytes :: nat where
  "max_message_bytes = 4 * 1024 * 1024"

datatype wire_error = WireIo | WireTooLarge nat | WireDecode

text \<open>\<^verbatim>\<open>AsyncWrite\<close>: \<open>room = None\<close> never fails; otherwise \<open>write_all\<close> fails once the room is used
  up, after the part that fitted.\<close>

record writer =
  written :: bytes
  room :: "nat option"

definition write_all :: "writer \<Rightarrow> bytes \<Rightarrow> writer \<times> (wire_error + unit)" where
  "write_all w bs =
     (case room w of
        None \<Rightarrow> (w\<lparr>written := written w @ bs\<rparr>, Inr ())
      | Some n \<Rightarrow>
          if length bs \<le> n
          then (w\<lparr>written := written w @ bs, room := Some (n - length bs)\<rparr>, Inr ())
          else (w\<lparr>written := written w @ take n bs, room := Some 0\<rparr>, Inl WireIo))"

definition write_message ::
    "('a \<Rightarrow> bytes option) \<Rightarrow> writer \<Rightarrow> 'a \<Rightarrow> writer \<times> (wire_error + unit)" where
  "write_message to_vec w v =
     (case to_vec v of
        None \<Rightarrow> (w, Inl WireDecode)
      | Some body \<Rightarrow>
          if length body > max_message_bytes then (w, Inl (WireTooLarge (length body)))
          else (case write_all w (le_bytes 4 (length body)) of
                  (w', Inl e) \<Rightarrow> (w', Inl e)
                | (w', Inr _) \<Rightarrow> write_all w' body))"

definition read_exact :: "nat \<Rightarrow> bytes \<Rightarrow> wire_error + (bytes \<times> bytes)" where
  "read_exact n r = (if length r < n then Inl WireIo else Inr (take n r, drop n r))"

definition read_message ::
    "(bytes \<Rightarrow> 'a option) \<Rightarrow> bytes \<Rightarrow> wire_error + ('a \<times> bytes)" where
  "read_message from_slice r =
     and_then (read_exact 4 r) (\<lambda>(len_bytes, r1).
       let len = from_le_bytes len_bytes in
       if len > max_message_bytes then Inl (WireTooLarge len)
       else and_then (read_exact len r1) (\<lambda>(body, r2).
         and_then (ok_or WireDecode (from_slice body)) (\<lambda>v. Inr (v, r2))))"

definition codec_ok :: "('a \<Rightarrow> bytes option) \<Rightarrow> (bytes \<Rightarrow> 'a option) \<Rightarrow> bool" where
  "codec_ok enc dec \<longleftrightarrow> (\<forall>v b. enc v = Some b \<longrightarrow> dec b = Some v)"

definition sendable :: "('a \<Rightarrow> bytes option) \<Rightarrow> 'a \<Rightarrow> bool" where
  "sendable enc v \<longleftrightarrow> (\<exists>b. enc v = Some b \<and> length b \<le> max_message_bytes)"

definition frame :: "('a \<Rightarrow> bytes option) \<Rightarrow> 'a \<Rightarrow> bytes" where
  "frame enc v = put_prefixed 4 (the (enc v))"

lemma max_message_fits: "n \<le> max_message_bytes \<Longrightarrow> n mod 256 ^ 4 = n"
  by (simp add: max_message_bytes_def)

lemma write_message_frame:
  assumes "sendable enc v" "room w = None"
  shows "write_message enc w v = (w\<lparr>written := written w @ frame enc v\<rparr>, Inr ())"
  using assms by (auto simp: sendable_def write_message_def write_all_def frame_def put_prefixed_def)

lemma read_message_frame:
  assumes "codec_ok enc dec" "sendable enc v"
  shows "read_message dec (frame enc v @ rest) = Inr (v, rest)"
  using assms max_message_fits
  by (auto simp: codec_ok_def sendable_def read_message_def read_exact_def frame_def
      put_prefixed_def from_le_bytes_le_bytes Let_def)

text \<open>The messages of a stream, written one after another and read back one after another.\<close>

fun write_messages :: "('a \<Rightarrow> bytes option) \<Rightarrow> writer \<Rightarrow> 'a list \<Rightarrow> writer \<times> (wire_error + unit)" where
  "write_messages enc w [] = (w, Inr ())"
| "write_messages enc w (v # vs) =
     (case write_message enc w v of (w', Inl e) \<Rightarrow> (w', Inl e) | (w', Inr _) \<Rightarrow> write_messages enc w' vs)"

fun read_messages :: "(bytes \<Rightarrow> 'a option) \<Rightarrow> nat \<Rightarrow> bytes \<Rightarrow> wire_error + ('a list \<times> bytes)" where
  "read_messages dec 0 r = Inr ([], r)"
| "read_messages dec (Suc n) r =
     and_then (read_message dec r) (\<lambda>(v, r1).
       and_then (read_messages dec n r1) (\<lambda>(vs, r2). Inr (v # vs, r2)))"

lemma write_messages_frames:
  "\<forall>v\<in>set vs. sendable enc v \<Longrightarrow> room w = None \<Longrightarrow>
   write_messages enc w vs = (w\<lparr>written := written w @ concat (map (frame enc) vs)\<rparr>, Inr ())"
  by (induction vs arbitrary: w) (simp_all add: write_message_frame)

lemma read_messages_frames:
  "codec_ok enc dec \<Longrightarrow> \<forall>v\<in>set vs. sendable enc v \<Longrightarrow>
   read_messages dec (length vs) (concat (map (frame enc) vs) @ rest) = Inr (vs, rest)"
  by (induction vs) (simp_all add: read_message_frame)

text \<open>Whatever sequence of messages within the size limit is written to a stream is read back as
  the same sequence, in order, with nothing left over; reading never looks past a frame.\<close>

theorem wire_messages_round_trip:
  assumes "codec_ok enc dec" "\<forall>v\<in>set vs. sendable enc v"
  shows "\<exists>w. write_messages enc \<lparr>written = [], room = None\<rparr> vs = (w, Inr ()) \<and>
             read_messages dec (length vs) (written w @ rest) = Inr (vs, rest)"
  using assms write_messages_frames [of vs enc "\<lparr>written = [], room = None\<rparr>"]
    read_messages_frames [of enc dec vs rest] by simp

theorem wire_messages_round_trip_witness:
  "\<exists>w. write_messages Some \<lparr>written = [], room = None\<rparr> [[1, 2], [], [3 :: u8]] = (w, Inr ()) \<and>
       read_messages Some 3 (written w @ []) = Inr ([[1, 2], [], [3]], [])"
proof -
  have "codec_ok Some (Some :: bytes \<Rightarrow> bytes option)" by (simp add: codec_ok_def)
  moreover have "\<forall>v\<in>set [[1, 2], [], [3 :: u8]]. sendable Some v"
    by (simp add: sendable_def max_message_bytes_def)
  ultimately show ?thesis
    using wire_messages_round_trip [of Some Some "[[1, 2], [], [3 :: u8]]" "[]"]
    by (simp add: numeral_3_eq_3)
qed

text \<open>A declared length above the limit is refused before anything of the body is read or
  allocated, a body that stops short is an I/O error, and a message that does not fit is not
  written at all.\<close>

theorem wire_limits:
  "(from_le_bytes (take 4 r) > max_message_bytes \<and> 4 \<le> length r \<longrightarrow>
      read_message dec r = Inl (WireTooLarge (from_le_bytes (take 4 r)))) \<and>
   (from_le_bytes (take 4 r) \<le> max_message_bytes \<and> 4 \<le> length r \<and>
      length r < 4 + from_le_bytes (take 4 r) \<longrightarrow> read_message dec r = Inl WireIo) \<and>
   (enc v = Some b \<and> max_message_bytes < length b \<longrightarrow>
      write_message enc w v = (w, Inl (WireTooLarge (length b))))"
  by (auto simp: read_message_def read_exact_def write_message_def Let_def)

theorem wire_limits_witness:
  "read_message (Some :: bytes \<Rightarrow> bytes option) [255, 255, 255, 255] = Inl (WireTooLarge u32_max)"
  using wire_limits [of "[255, 255, 255, 255]" "Some :: bytes \<Rightarrow> bytes option" "Some :: bytes \<Rightarrow> bytes option"
      "[]" "[]" "\<lparr>written = [], room = None\<rparr>"]
  by (simp add: max_message_bytes_def u32_max_def)

section \<open>Text resources\<close>

definition max_resource_bytes :: nat where
  "max_resource_bytes = 8 * 1024 * 1024"

record resource_request =
  req_session_id :: ustring
  req_kind :: shareable_kind

datatype resource_response =
    Delivered shareable_kind (delivered_text: ustring) ustring
  | Unavailable ustring

datatype resource_error =
    ResUnavailable ustring | KindMismatch | DigestMismatch | ResTooLarge nat

definition content_digest :: "(bytes \<Rightarrow> ustring) \<Rightarrow> bytes \<Rightarrow> ustring" where
  "content_digest hex_sha256 bs = hex_sha256 bs"

definition deliver :: "(bytes \<Rightarrow> ustring) \<Rightarrow> shareable_kind \<Rightarrow> ustring \<Rightarrow> resource_response" where
  "deliver h kind text = Delivered kind text (content_digest h (utf8 text))"

fun into_verified_text ::
    "(bytes \<Rightarrow> ustring) \<Rightarrow> resource_response \<Rightarrow> shareable_kind \<Rightarrow> resource_error + ustring" where
  "into_verified_text h (Unavailable reason) requested = Inl (ResUnavailable reason)"
| "into_verified_text h (Delivered kind text sha256) requested =
     (if kind \<noteq> requested then Inl KindMismatch
      else if str_len text > max_resource_bytes then Inl (ResTooLarge (str_len text))
      else if content_digest h (utf8 text) \<noteq> sha256 then Inl DigestMismatch
      else Inr text)"

text \<open>The two refusal texts of the source, kept as two named constants.\<close>

definition over_limit_reason :: ustring where
  "over_limit_reason = [36164, 28304, 36229, 36807, 20998, 20139, 19978, 38480]"

definition missing_reason :: ustring where
  "missing_reason = [36164, 28304, 19981, 23384, 22312, 25110, 23578, 26410, 29983, 25104]"

definition answer ::
    "(bytes \<Rightarrow> ustring) \<Rightarrow> (ustring \<Rightarrow> shareable_kind \<Rightarrow> ustring option) \<Rightarrow> resource_request
     \<Rightarrow> resource_response" where
  "answer h provide request =
     (case provide (req_session_id request) (req_kind request) of
        Some text \<Rightarrow>
          if str_len text > max_resource_bytes then Unavailable over_limit_reason
          else deliver h (req_kind request) text
      | None \<Rightarrow> Unavailable missing_reason)"

text \<open>Asking and answering. What the asker accepts is exactly what the provider holds for that
  session and kind, and an answer that was altered on the way (kind, text under the same digest
  claim, or size) is refused unless the digest function itself collides.\<close>

theorem resource_request_round_trip:
  "into_verified_text h (answer h provide request) (req_kind request) =
     (case provide (req_session_id request) (req_kind request) of
        None \<Rightarrow> Inl (ResUnavailable missing_reason)
      | Some text \<Rightarrow> if str_len text > max_resource_bytes
                     then Inl (ResUnavailable over_limit_reason) else Inr text) \<and>
   (into_verified_text h (Delivered k text' (content_digest h (utf8 text))) requested = Inr u \<longrightarrow>
      k = requested \<and> u = text' \<and> str_len u \<le> max_resource_bytes \<and> h (utf8 u) = h (utf8 text))"
  by (auto simp: answer_def deliver_def content_digest_def split: option.splits if_splits)

theorem resource_request_round_trip_witness:
  "into_verified_text (\<lambda>b. [length b])
     (answer (\<lambda>b. [length b]) (\<lambda>s k. Some (lit ''hello''))
        \<lparr>req_session_id = lit ''s1'', req_kind = PersonalNote\<rparr>) PersonalNote = Inr (lit ''hello'') \<and>
   into_verified_text (\<lambda>b. [length b])
     (Delivered PersonalNote (lit ''hi'') (content_digest (\<lambda>b. [length b]) (utf8 (lit ''hi''))))
     PersonalNote = Inr (lit ''hi'')"
  using resource_request_round_trip [of "\<lambda>b. [length b]" "\<lambda>s k. Some (lit ''hello'')"
      "\<lparr>req_session_id = lit ''s1'', req_kind = PersonalNote\<rparr>"
      PersonalNote "lit ''hi''" "lit ''hi''" PersonalNote "lit ''hi''"]
  by (simp add: lit_def len_utf8_def max_resource_bytes_def)

end
