(* ===== verification/Share_Envelope.thy ===== *)
theory Share_Envelope
  imports Share_Room
begin

text \<open>
  \<^verbatim>\<open>crates/vt-share/src/envelope.rs\<close>: the signed envelope every cross-machine payload travels in.
  The iroh identity keys and the serde\_json and postcard codecs are parameters, gathered in the
  record \<open>crypto\<close>; \<open>crypto_ok\<close> states what the code relies on of them: signatures made by a key
  verify, a verifying signature was made by that key over those bytes, the codecs are injective or
  decode what they encoded, and a public key is 32 bytes.
\<close>

section \<open>Data\<close>

datatype payload_kind = DocumentUpdate | RoomControlPayload | Resource

record ('pk, 'sig) share_envelope =
  env_author :: 'pk
  env_scope :: scope_id
  env_kind :: payload_kind
  env_payload :: bytes
  env_signature :: 'sig

record unsigned_envelope =
  un_scope :: scope_id
  un_kind :: payload_kind
  un_payload :: bytes

datatype envelope_error = BadSignature | ScopeMismatch

record ('sk, 'pk, 'sig) crypto =
  public_of :: "'sk \<Rightarrow> 'pk"
  sign_with :: "'sk \<Rightarrow> bytes \<Rightarrow> 'sig"
  sig_verifies :: "'pk \<Rightarrow> bytes \<Rightarrow> 'sig \<Rightarrow> bool"
  pk_bytes :: "'pk \<Rightarrow> bytes"
  pk_of_bytes :: "bytes \<Rightarrow> 'pk option"
  json_scope :: "scope_id \<Rightarrow> bytes"
  json_kind :: "payload_kind \<Rightarrow> bytes"
  postcard_envelope :: "('pk, 'sig) share_envelope \<Rightarrow> bytes option"
  envelope_of_postcard :: "bytes \<Rightarrow> ('pk, 'sig) share_envelope option"

definition crypto_ok :: "('sk, 'pk, 'sig) crypto \<Rightarrow> bool" where
  "crypto_ok c \<longleftrightarrow>
     (\<forall>sk m. sig_verifies c (public_of c sk) m (sign_with c sk m)) \<and>
     (\<forall>pk sk m m'. sig_verifies c pk m (sign_with c sk m') \<longrightarrow> pk = public_of c sk \<and> m = m') \<and>
     inj (pk_bytes c) \<and> (\<forall>pk. length (pk_bytes c pk) = 32) \<and>
     (\<forall>pk. pk_of_bytes c (pk_bytes c pk) = Some pk) \<and>
     inj (json_scope c) \<and> inj (json_kind c) \<and> (\<forall>k. length (json_kind c k) < 256 ^ 8) \<and>
     (\<forall>e b. postcard_envelope c e = Some b \<longrightarrow> envelope_of_postcard c b = Some e)"

text \<open>Every field of a message is shorter than \<open>2 ^ 64\<close> bytes, as any \<^verbatim>\<open>Vec\<close> is.\<close>

definition fits :: "('sk, 'pk, 'sig) crypto \<Rightarrow> scope_id \<Rightarrow> bytes \<Rightarrow> bool" where
  "fits c s p \<longleftrightarrow> length (json_scope c s) < 256 ^ 8 \<and> length p < 256 ^ 8"

section \<open>Operations\<close>

definition signing_domain :: bytes where
  "signing_domain = utf8 (lit ''zulangue/envelope/v1'')"

text \<open>The closure \<^verbatim>\<open>push\<close> writes the 8-byte length and then the field.\<close>

definition signing_message ::
    "('sk, 'pk, 'sig) crypto \<Rightarrow> 'pk \<Rightarrow> scope_id \<Rightarrow> payload_kind \<Rightarrow> bytes \<Rightarrow> bytes" where
  "signing_message c author scope kind payload =
     concat (map (put_prefixed 8)
       [signing_domain, pk_bytes c author, json_scope c scope, json_kind c kind, payload])"

definition new_envelope :: "scope_id \<Rightarrow> payload_kind \<Rightarrow> bytes \<Rightarrow> unsigned_envelope" where
  "new_envelope scope kind payload = \<lparr>un_scope = scope, un_kind = kind, un_payload = payload\<rparr>"

definition sign ::
    "('sk, 'pk, 'sig) crypto \<Rightarrow> unsigned_envelope \<Rightarrow> 'sk \<Rightarrow> ('pk, 'sig) share_envelope" where
  "sign c u secret =
     (let author = public_of c secret;
          message = signing_message c author (un_scope u) (un_kind u) (un_payload u)
      in \<lparr>env_author = author, env_scope = un_scope u, env_kind = un_kind u,
          env_payload = un_payload u, env_signature = sign_with c secret message\<rparr>)"

definition encode_compact ::
    "('sk, 'pk, 'sig) crypto \<Rightarrow> ('pk, 'sig) share_envelope \<Rightarrow> envelope_error + bytes" where
  "encode_compact c e = ok_or BadSignature (postcard_envelope c e)"

definition decode_compact ::
    "('sk, 'pk, 'sig) crypto \<Rightarrow> bytes \<Rightarrow> envelope_error + ('pk, 'sig) share_envelope" where
  "decode_compact c bs = ok_or BadSignature (envelope_of_postcard c bs)"

definition verify ::
    "('sk, 'pk, 'sig) crypto \<Rightarrow> ('pk, 'sig) share_envelope \<Rightarrow> scope_id \<Rightarrow> envelope_error + unit" where
  "verify c e expected_scope =
     (if env_scope e \<noteq> expected_scope then Inl ScopeMismatch
      else if sig_verifies c (env_author e)
                (signing_message c (env_author e) (env_scope e) (env_kind e) (env_payload e))
                (env_signature e)
      then Inr () else Inl BadSignature)"

section \<open>Properties\<close>

lemma crypto_okD:
  assumes "crypto_ok c"
  shows crypto_sign_verifies: "sig_verifies c (public_of c sk) m (sign_with c sk m)"
    and crypto_unforgeable:
      "sig_verifies c pk m (sign_with c sk m') \<Longrightarrow> pk = public_of c sk \<and> m = m'"
    and crypto_pk_len: "length (pk_bytes c pk) = 32"
    and crypto_pk_decode: "pk_of_bytes c (pk_bytes c pk) = Some pk"
    and crypto_postcard: "postcard_envelope c e = Some b \<Longrightarrow> envelope_of_postcard c b = Some e"
  using assms unfolding crypto_ok_def by blast+

lemma signing_message_inj:
  assumes ok: "crypto_ok c"
    and len: "fits c s p" "fits c t q"
    and eq: "signing_message c a s k p = signing_message c b t l q"
  shows "a = b \<and> s = t \<and> k = l \<and> p = q"
proof -
  let ?xs = "[signing_domain, pk_bytes c a, json_scope c s, json_kind c k, p]"
  let ?ys = "[signing_domain, pk_bytes c b, json_scope c t, json_kind c l, q]"
  have dom: "length signing_domain < 256 ^ 8"
    by (simp add: signing_domain_def lit_def len_utf8_def)
  have "\<forall>x\<in>set ?xs. length x < 256 ^ 8" "\<forall>y\<in>set ?ys. length y < 256 ^ 8"
    using ok len dom unfolding crypto_ok_def fits_def by simp_all
  then have "?xs = ?ys"
    using eq unfolding signing_message_def
    by (intro prefixed8.put_many_inj) (simp_all only: length_Cons list.size)
  then show ?thesis
    using ok unfolding crypto_ok_def by (auto dest: injD)
qed

text \<open>C34: An honestly sealed envelope verifies for its scope under its author, and a signature
  carried over to any other combination of author, scope, kind and payload does not: no field can be
  swapped, moved to another room, or re-split against its neighbour.\<close>

theorem envelope_authenticity:
  assumes "crypto_ok c" and "fits c (un_scope u) (un_payload u)" "fits c (env_scope e) (env_payload e)"
    and "env_signature e = env_signature (sign c u secret)"
  shows "verify c (sign c u secret) (un_scope u) = Inr () \<and>
         (verify c e scope = Inr () \<longleftrightarrow>
            scope = un_scope u \<and> env_author e = public_of c secret \<and> env_scope e = un_scope u \<and>
            env_kind e = un_kind u \<and> env_payload e = un_payload u)"
proof -
  let ?m = "signing_message c (public_of c secret) (un_scope u) (un_kind u) (un_payload u)"
  have sg: "env_signature e = sign_with c secret ?m"
    using assms(4) by (simp add: sign_def Let_def)
  have "sig_verifies c (env_author e)
          (signing_message c (env_author e) (env_scope e) (env_kind e) (env_payload e))
          (env_signature e) \<longleftrightarrow>
        env_author e = public_of c secret \<and> env_scope e = un_scope u \<and>
        env_kind e = un_kind u \<and> env_payload e = un_payload u"
    unfolding sg using crypto_okD [OF assms(1)] signing_message_inj [OF assms(1) assms(3,2)] by metis
  then show ?thesis
    using crypto_sign_verifies [OF assms(1)] by (auto simp: verify_def sign_def Let_def)
qed

lemma verify_sign:
  "crypto_ok c \<Longrightarrow> verify c (sign c u secret) scope = (if un_scope u = scope then Inr () else Inl ScopeMismatch)"
  by (simp add: verify_def sign_def Let_def crypto_sign_verifies)

lemma sign_fields [simp]:
  "env_author (sign c u secret) = public_of c secret"
  "env_scope (sign c u secret) = un_scope u"
  "env_kind (sign c u secret) = un_kind u"
  "env_payload (sign c u secret) = un_payload u"
  by (simp_all add: sign_def Let_def)

lemma new_envelope_fields [simp]:
  "un_scope (new_envelope s k p) = s" "un_kind (new_envelope s k p) = k"
  "un_payload (new_envelope s k p) = p"
  by (simp_all add: new_envelope_def)

lemma decode_encode_compact:
  "crypto_ok c \<Longrightarrow> encode_compact c e = Inr bs \<Longrightarrow> decode_compact c bs = Inr e"
  by (auto simp: encode_compact_def decode_compact_def ok_or_eq_Inr crypto_postcard)

section \<open>A concrete instance of the parameters\<close>

text \<open>A key is one byte padded to 32, a signature is the signer with the message, scopes are written
  in unary, and the envelopes of a table are encoded by their index. It satisfies \<open>crypto_ok\<close>, so the
  hypotheses of the properties hold together.\<close>

definition demo_json_scope :: "scope_id \<Rightarrow> bytes" where
  "demo_json_scope s = (case s of Notebook i \<Rightarrow> 0 # unary i | Session i \<Rightarrow> 1 # unary i)"

definition demo_json_kind :: "payload_kind \<Rightarrow> bytes" where
  "demo_json_kind k = (case k of DocumentUpdate \<Rightarrow> [0] | RoomControlPayload \<Rightarrow> [1] | Resource \<Rightarrow> [2])"

definition demo_crypto ::
    "(u8, u8 \<times> bytes) share_envelope list \<Rightarrow> (u8, u8, u8 \<times> bytes) crypto" where
  "demo_crypto table =
     \<lparr>public_of = (\<lambda>sk. sk), sign_with = (\<lambda>sk m. (sk, m)),
      sig_verifies = (\<lambda>pk m sg. sg = (pk, m)),
      pk_bytes = (\<lambda>pk. pk # replicate 31 0),
      pk_of_bytes = (\<lambda>b. case b of [] \<Rightarrow> None | x # _ \<Rightarrow> Some x),
      json_scope = demo_json_scope, json_kind = demo_json_kind,
      postcard_envelope = table_encode table, envelope_of_postcard = table_decode table\<rparr>"

lemma demo_crypto_simps [simp]:
  "public_of (demo_crypto t) sk = sk" "sign_with (demo_crypto t) sk m = (sk, m)"
  "sig_verifies (demo_crypto t) pk m sg \<longleftrightarrow> sg = (pk, m)"
  "json_scope (demo_crypto t) = demo_json_scope" "json_kind (demo_crypto t) = demo_json_kind"
  "postcard_envelope (demo_crypto t) = table_encode t"
  "envelope_of_postcard (demo_crypto t) = table_decode t"
  by (simp_all add: demo_crypto_def)

lemma demo_json_scope_inj: "inj demo_json_scope"
  by (rule injI) (auto simp: demo_json_scope_def dest: unary_inj split: scope_id.splits)

lemma demo_json_kind_inj: "inj demo_json_kind"
  by (rule injI) (auto simp: demo_json_kind_def split: payload_kind.splits)

lemma demo_crypto_ok [simp]: "crypto_ok (demo_crypto table)"
proof -
  have "length (demo_json_kind k) < 256 ^ 8" for k
    by (cases k) (simp_all add: demo_json_kind_def)
  moreover have "inj (\<lambda>pk :: u8. pk # replicate 31 0)"
    by (rule injI) simp
  ultimately show ?thesis
    by (simp add: crypto_ok_def demo_crypto_def demo_json_scope_inj demo_json_kind_inj
        table_decode_encode)
qed

theorem envelope_authenticity_witness:
  "verify (demo_crypto [])
     (sign (demo_crypto []) (new_envelope (Notebook [1]) DocumentUpdate [7]) 5) (Notebook [1]) = Inr () \<and>
   verify (demo_crypto [])
     ((sign (demo_crypto []) (new_envelope (Notebook [1]) DocumentUpdate [7]) 5)\<lparr>env_author := 6\<rparr>)
     (Notebook [1]) \<noteq> Inr ()"
proof -
  let ?c = "demo_crypto []" and ?u = "new_envelope (Notebook [1]) DocumentUpdate [7]"
  let ?e = "(sign ?c ?u 5)\<lparr>env_author := 6\<rparr>"
  have "fits ?c (un_scope ?u) (un_payload ?u)" "fits ?c (env_scope ?e) (env_payload ?e)"
    by (simp_all add: fits_def demo_json_scope_def unary_def)
  moreover have "env_signature ?e = env_signature (sign ?c ?u 5)" by simp
  ultimately have "verify ?c (sign ?c ?u 5) (un_scope ?u) = Inr ()"
    and "verify ?c ?e (Notebook [1]) = Inr () \<longleftrightarrow>
      Notebook [1] = un_scope ?u \<and> env_author ?e = public_of ?c 5 \<and> env_scope ?e = un_scope ?u \<and>
      env_kind ?e = un_kind ?u \<and> env_payload ?e = un_payload ?u"
    using envelope_authenticity [OF demo_crypto_ok] by blast+
  then show ?thesis by simp
qed

end
