(* ===== verification/Share_Permission.thy ===== *)
theory Share_Permission
  imports Share_Envelope
begin

text \<open>
  \<^verbatim>\<open>crates/vt-share/src/permission.rs\<close>: the room roster, the write policy and the admission gate
  every incoming document update passes. The trait \<^verbatim>\<open>CaptureBoundaryGuard\<close> is a function argument
  (\<open>guard\<close>).
\<close>

section \<open>Roster\<close>

datatype write_policy = Everyone | HostOnly

record 'pk room_roster =
  ro_scope :: scope_id
  ro_host :: 'pk
  ro_members :: "'pk list"
  ro_policy :: write_policy

definition roster_new :: "scope_id \<Rightarrow> 'pk::linorder \<Rightarrow> write_policy \<Rightarrow> 'pk room_roster" where
  "roster_new scope host policy =
     \<lparr>ro_scope = scope, ro_host = host, ro_members = bs_insert host [], ro_policy = policy\<rparr>"

definition set_policy :: "'pk room_roster \<Rightarrow> write_policy \<Rightarrow> 'pk room_roster" where
  "set_policy r policy = r\<lparr>ro_policy := policy\<rparr>"

definition admit :: "'pk::linorder room_roster \<Rightarrow> 'pk \<Rightarrow> 'pk room_roster" where
  "admit r member = r\<lparr>ro_members := bs_insert member (ro_members r)\<rparr>"

definition roster_remove :: "'pk::linorder room_roster \<Rightarrow> 'pk \<Rightarrow> 'pk room_roster \<times> bool" where
  "roster_remove r member =
     (if member = ro_host r then (r, False)
      else (r\<lparr>ro_members := bs_remove member (ro_members r)\<rparr>, member \<in> set (ro_members r)))"

definition is_member :: "'pk room_roster \<Rightarrow> 'pk \<Rightarrow> bool" where
  "is_member r who \<longleftrightarrow> who \<in> set (ro_members r)"

definition may_write :: "'pk room_roster \<Rightarrow> 'pk \<Rightarrow> bool" where
  "may_write r who \<longleftrightarrow>
     (if \<not> is_member r who then False
      else case ro_policy r of Everyone \<Rightarrow> True | HostOnly \<Rightarrow> who = ro_host r)"

lemma roster_fields [simp]:
  "ro_scope (roster_new s h p) = s" "ro_host (roster_new s h p) = h" "ro_policy (roster_new s h p) = p"
  "ro_members (roster_new s h p) = [h]"
  "ro_scope (admit r m) = ro_scope r" "ro_host (admit r m) = ro_host r"
  "ro_policy (admit r m) = ro_policy r" "ro_members (admit r m) = bs_insert m (ro_members r)"
  "ro_scope (fst (roster_remove r m)) = ro_scope r" "ro_host (fst (roster_remove r m)) = ro_host r"
  "ro_policy (fst (roster_remove r m)) = ro_policy r"
  "set (ro_members (fst (roster_remove r m))) =
     (if m = ro_host r then set (ro_members r) else set (ro_members r) - {m})"
  "ro_members (set_policy r p) = ro_members r" "ro_scope (set_policy r p) = ro_scope r"
  "ro_host (set_policy r p) = ro_host r" "ro_policy (set_policy r p) = p"
  by (simp_all add: roster_new_def admit_def roster_remove_def set_policy_def)

definition roster_inv :: "'pk::linorder room_roster \<Rightarrow> bool" where
  "roster_inv r \<longleftrightarrow> bs_wf (ro_members r) \<and> ro_host r \<in> set (ro_members r)"

datatype 'pk roster_op = RosterAdmit 'pk | RosterRemove 'pk | RosterPolicy write_policy

fun roster_step :: "'pk::linorder room_roster \<Rightarrow> 'pk roster_op \<Rightarrow> 'pk room_roster" where
  "roster_step r (RosterAdmit m) = admit r m"
| "roster_step r (RosterRemove m) = fst (roster_remove r m)"
| "roster_step r (RosterPolicy p) = set_policy r p"

lemma roster_inv_new [simp]: "roster_inv (roster_new s h p)"
  by (simp add: roster_inv_def bs_wf_def)

lemma roster_inv_admit [simp]: "roster_inv r \<Longrightarrow> roster_inv (admit r m)"
  by (simp add: roster_inv_def)

lemma roster_inv_remove [simp]: "roster_inv r \<Longrightarrow> roster_inv (fst (roster_remove r m))"
  by (auto simp: roster_inv_def roster_remove_def)

lemma roster_inv_set_policy [simp]: "roster_inv r \<Longrightarrow> roster_inv (set_policy r p)"
  by (simp add: roster_inv_def)

interpretation roster_sm: state_machine
  "\<lambda>r. \<exists>s h p. r = roster_new s h p" roster_step roster_inv
proof unfold_locales
  fix r :: "'a room_roster" and e :: "'a roster_op"
  show "\<exists>s h p. r = roster_new s h p \<Longrightarrow> roster_inv r" by auto
  show "roster_inv r \<Longrightarrow> roster_inv (roster_step r e)" by (cases e) simp_all
qed

lemma roster_step_host: "ro_host (roster_step r e) = ro_host r" "ro_scope (roster_step r e) = ro_scope r"
  by (cases e; simp)+

text \<open>Through any sequence of admissions, removals and policy switches the room keeps its host
  and its scope, the host stays a member and may write, nobody outside the roster may write, and
  under the host-only policy nobody but the host may.\<close>

theorem roster_write_authority:
  "let r = foldl roster_step (roster_new scope host policy) ops in
     ro_host r = host \<and> ro_scope r = scope \<and> is_member r host \<and> may_write r host \<and>
     (\<forall>who. may_write r who \<longrightarrow> is_member r who) \<and>
     (ro_policy r = HostOnly \<longrightarrow> (\<forall>who. may_write r who \<longleftrightarrow> who = host))"
proof -
  let ?r = "foldl roster_step (roster_new scope host policy) ops"
  have inv: "roster_inv ?r" by (rule roster_sm.inv_reachable) blast
  have host: "ro_host ?r = host" and scope: "ro_scope ?r = scope"
    using roster_sm.run_frame [of ro_host "roster_new scope host policy" ops]
      roster_sm.run_frame [of ro_scope "roster_new scope host policy" ops]
    by (simp_all add: roster_step_host)
  then show ?thesis
    using inv by (auto simp: Let_def may_write_def is_member_def roster_inv_def split: write_policy.splits)
qed

theorem roster_write_authority_witness:
  "\<not> may_write (foldl roster_step (roster_new (Notebook []) (1 :: nat) Everyone)
       [RosterAdmit 2, RosterRemove 1, RosterPolicy HostOnly]) 2"
  using roster_write_authority [of "Notebook []" "1 :: nat" Everyone
      "[RosterAdmit 2, RosterRemove 1, RosterPolicy HostOnly]"]
  by (simp add: Let_def)

section \<open>The admission gate\<close>

datatype admission_denial =
    DeniedEnvelope envelope_error
  | NotAMember
  | ReadOnlyForThisAuthor
  | WrongPayloadKind
  | TouchesCaptureOwnedRange
  | DocumentNotInScope
  | SchemaEpochMismatch nat nat
  | SchemaEpochUnknown

type_synonym boundary_guard = "scope_id \<Rightarrow> ustring \<Rightarrow> bytes \<Rightarrow> bool"

definition allow_all_boundaries :: boundary_guard where
  "allow_all_boundaries scope document_id update = False"

definition admit_document_update ::
    "('sk, 'pk::linorder, 'sig) crypto \<Rightarrow> ('pk, 'sig) share_envelope \<Rightarrow> ustring \<Rightarrow> bytes
     \<Rightarrow> 'pk room_roster \<Rightarrow> boundary_guard \<Rightarrow> admission_denial + unit" where
  "admit_document_update c envelope document_id update roster guard =
     and_then (map_err DeniedEnvelope (verify c envelope (ro_scope roster))) (\<lambda>_.
       if env_kind envelope \<noteq> DocumentUpdate then Inl WrongPayloadKind
       else if \<not> is_member roster (env_author envelope) then Inl NotAMember
       else if \<not> may_write roster (env_author envelope) then Inl ReadOnlyForThisAuthor
       else if env_author envelope \<noteq> ro_host roster \<and> guard (ro_scope roster) document_id update
         then Inl TouchesCaptureOwnedRange
       else Inr ())"

text \<open>C36: The gate lets an update through exactly when its envelope verifies for this room, it is a
  document update, its author is a member with write permission, and, unless the author is the
  host, the update stays off the ranges owned by the capture projection. A bad envelope is reported
  whatever else is wrong, and the guard decides only after everything else has passed.\<close>

theorem admit_document_update_iff:
  "(admit_document_update c e doc update r guard = Inr () \<longleftrightarrow>
      verify c e (ro_scope r) = Inr () \<and> env_kind e = DocumentUpdate \<and>
      is_member r (env_author e) \<and> may_write r (env_author e) \<and>
      (env_author e = ro_host r \<or> \<not> guard (ro_scope r) doc update)) \<and>
   (\<forall>err. verify c e (ro_scope r) = Inl err \<longrightarrow>
      admit_document_update c e doc update r guard = Inl (DeniedEnvelope err)) \<and>
   (admit_document_update c e doc update r guard = Inl TouchesCaptureOwnedRange \<longleftrightarrow>
      admit_document_update c e doc update r allow_all_boundaries = Inr () \<and>
      env_author e \<noteq> ro_host r \<and> guard (ro_scope r) doc update)"
  by (cases "verify c e (ro_scope r)")
    (auto simp: admit_document_update_def allow_all_boundaries_def)

theorem admit_document_update_iff_witness:
  "admit_document_update (demo_crypto [])
     ((sign (demo_crypto []) (new_envelope (Notebook []) DocumentUpdate [1]) 5)\<lparr>env_scope := Session []\<rparr>)
     [] [] (roster_new (Notebook []) 5 Everyone) (\<lambda>_ _ _. True) = Inl (DeniedEnvelope ScopeMismatch)"
  using admit_document_update_iff [of "demo_crypto []"
     "(sign (demo_crypto []) (new_envelope (Notebook []) DocumentUpdate [1]) 5)\<lparr>env_scope := Session []\<rparr>"
     "[]" "[]" "roster_new (Notebook []) 5 Everyone" "\<lambda>_ _ _. True"]
  by (simp add: verify_def)

lemma admit_document_update_host:
  "crypto_ok c \<Longrightarrow> roster_inv r \<Longrightarrow> ro_host r = public_of c sk \<Longrightarrow>
   admit_document_update c (sign c (new_envelope (ro_scope r) DocumentUpdate p) sk) doc update r guard = Inr ()"
  by (auto simp: admit_document_update_def verify_sign is_member_def may_write_def roster_inv_def
      split: write_policy.splits)

end
