(* ===== verification/Share_Control.thy ===== *)
theory Share_Control
  imports Share_Permission
begin

text \<open>
  \<^verbatim>\<open>crates/vt-share/src/room_control.rs\<close>: the gossip control plane. \<open>seal\<close> and \<open>open_control\<close> put
  control messages into signed envelopes and take them out; \<open>presence\<close> is what one machine knows of
  the room, stepped by \<open>apply_control\<close> and \<open>neighbor_down\<close>. The postcard codec of the control
  message and the gossip message limit are parameters (\<open>control_codec\<close>).
\<close>

section \<open>Messages\<close>

definition max_roster_members :: nat where
  "max_roster_members = 64"

datatype room_control =
    Hello ustring
  | Roster "bytes list" bool
  | Goodbye

definition hello :: "ustring \<Rightarrow> room_control" where
  "hello display_name = Hello (sanitize_display_name display_name)"

datatype control_error =
    ControlEnvelope envelope_error
  | ControlWrongPayloadKind
  | Malformed
  | RosterFromNonHost
  | RosterTooLarge nat
  | TooLargeForGossip nat
  | DisplayNameTooLong

record control_codec =
  postcard_control :: "room_control \<Rightarrow> bytes option"
  control_of_postcard :: "bytes \<Rightarrow> room_control option"
  gossip_max_message_size :: nat

definition control_codec_ok :: "control_codec \<Rightarrow> bool" where
  "control_codec_ok k \<longleftrightarrow>
     (\<forall>m b. postcard_control k m = Some b \<longrightarrow> control_of_postcard k b = Some m)"

definition seal ::
    "('sk, 'pk, 'sig) crypto \<Rightarrow> control_codec \<Rightarrow> room_control \<Rightarrow> scope_id \<Rightarrow> 'sk
     \<Rightarrow> control_error + bytes" where
  "seal c k control scope secret =
     (case (case control of
              Roster members _ \<Rightarrow>
                if length members > max_roster_members then Inl (RosterTooLarge (length members))
                else Inr ()
            | _ \<Rightarrow> Inr ()) of
        Inl e \<Rightarrow> Inl e
      | Inr _ \<Rightarrow>
          and_then (ok_or Malformed (postcard_control k control)) (\<lambda>payload.
            and_then (map_err ControlEnvelope
                (encode_compact c (sign c (new_envelope scope RoomControlPayload payload) secret)))
              (\<lambda>bs. if length bs > gossip_max_message_size k then Inl (TooLargeForGossip (length bs))
                    else Inr bs)))"

definition check_control :: "'pk \<Rightarrow> 'pk \<Rightarrow> room_control \<Rightarrow> control_error + unit" where
  "check_control author host control =
     (case control of
        Roster members _ \<Rightarrow>
          if author \<noteq> host then Inl RosterFromNonHost
          else if length members > max_roster_members then Inl (RosterTooLarge (length members))
          else Inr ()
      | Hello display_name \<Rightarrow>
          if str_len display_name > max_display_name_bytes then Inl DisplayNameTooLong else Inr ()
      | Goodbye \<Rightarrow> Inr ())"

definition open_control ::
    "('sk, 'pk, 'sig) crypto \<Rightarrow> control_codec \<Rightarrow> bytes \<Rightarrow> scope_id \<Rightarrow> 'pk
     \<Rightarrow> control_error + ('pk \<times> room_control)" where
  "open_control c k bs scope host =
     and_then (map_err ControlEnvelope (decode_compact c bs)) (\<lambda>envelope.
       and_then (map_err ControlEnvelope (verify c envelope scope)) (\<lambda>_.
         if env_kind envelope \<noteq> RoomControlPayload then Inl ControlWrongPayloadKind
         else and_then (ok_or Malformed (control_of_postcard k (env_payload envelope))) (\<lambda>control.
           and_then (check_control (env_author envelope) host control) (\<lambda>_.
             Inr (env_author envelope, control)))))"

section \<open>Presence\<close>

record 'pk presence =
  pr_scope :: scope_id
  pr_host :: 'pk
  pr_is_host :: bool
  pr_seen :: "'pk list"
  pr_roster :: "'pk room_roster"
  pr_names :: "('pk \<times> ustring) list"
  pr_host_departed :: bool

definition presence_new ::
    "scope_id \<Rightarrow> 'pk::linorder \<Rightarrow> 'pk \<Rightarrow> ustring \<Rightarrow> write_policy \<Rightarrow> 'pk presence" where
  "presence_new scope host me my_name policy =
     (let cleaned = sanitize_display_name my_name in
      \<lparr>pr_scope = scope, pr_host = host, pr_is_host = (me = host),
       pr_seen = bs_insert me (bs_insert host []),
       pr_roster = admit (roster_new scope host policy) me,
       pr_names = (if cleaned = [] then [] else bt_insert me cleaned []),
       pr_host_departed = False\<rparr>)"

definition name_of :: "'pk presence \<Rightarrow> 'pk \<Rightarrow> ustring option" where
  "name_of p who = bt_get (pr_names p) who"

definition members_with_names :: "'pk presence \<Rightarrow> ('pk \<times> ustring) list" where
  "members_with_names p =
     map (\<lambda>i. (i, case bt_get (pr_names p) i of None \<Rightarrow> [] | Some n \<Rightarrow> n)) (ro_members (pr_roster p))"

definition remove_presence :: "'pk::linorder presence \<Rightarrow> 'pk \<Rightarrow> 'pk presence \<times> bool" where
  "remove_presence p who =
     (let p1 = p\<lparr>pr_seen := bs_remove who (pr_seen p), pr_names := bt_remove who (pr_names p)\<rparr> in
      if pr_is_host p then
        (case roster_remove (pr_roster p) who of (r, removed) \<Rightarrow> (p1\<lparr>pr_roster := r\<rparr>, removed))
      else (p1, False))"

definition apply_hello :: "'pk::linorder presence \<Rightarrow> 'pk \<Rightarrow> ustring \<Rightarrow> 'pk presence \<times> bool" where
  "apply_hello p author display_name =
     (let p1 = (if author = pr_host p then p\<lparr>pr_host_departed := False\<rparr> else p);
          cleaned = sanitize_display_name display_name;
          name_changed = (cleaned \<noteq> [] \<and> bt_get (pr_names p1) author \<noteq> Some cleaned);
          p2 = (if name_changed then p1\<lparr>pr_names := bt_insert author cleaned (pr_names p1)\<rparr> else p1);
          newly = author \<notin> set (pr_seen p2);
          p3 = p2\<lparr>pr_seen := bs_insert author (pr_seen p2)\<rparr>
      in if \<not> newly then (p3, name_changed)
         else if pr_is_host p3 then (p3\<lparr>pr_roster := admit (pr_roster p3) author\<rparr>, True)
         else (p3, False))"

definition apply_goodbye :: "'pk::linorder presence \<Rightarrow> 'pk \<Rightarrow> 'pk presence \<times> bool" where
  "apply_goodbye p author =
     (case remove_presence p author of (p1, changed) \<Rightarrow>
        if author = pr_host p1 \<and> \<not> pr_is_host p1 then (p1\<lparr>pr_host_departed := True\<rparr>, True)
        else (p1, changed))"

text \<open>The keys a roster message carries are decoded one by one; those that are not keys are skipped.\<close>

definition apply_roster ::
    "('sk, 'pk::linorder, 'sig) crypto \<Rightarrow> 'pk presence \<Rightarrow> bytes list \<Rightarrow> bool \<Rightarrow> 'pk presence \<times> bool" where
  "apply_roster c p members host_only =
     (if pr_is_host p then (p, False)
      else let r0 = roster_new (pr_scope p) (pr_host p) (if host_only then HostOnly else Everyone);
               r1 = fold (\<lambda>raw r. case pk_of_bytes c raw of Some i \<Rightarrow> admit r i | None \<Rightarrow> r) members r0
           in (p\<lparr>pr_roster := r1\<rparr>, True))"

fun apply_control ::
    "('sk, 'pk::linorder, 'sig) crypto \<Rightarrow> 'pk presence \<Rightarrow> 'pk \<Rightarrow> room_control \<Rightarrow> 'pk presence \<times> bool" where
  "apply_control c p author (Hello display_name) = apply_hello p author display_name"
| "apply_control c p author Goodbye = apply_goodbye p author"
| "apply_control c p author (Roster members host_only) = apply_roster c p members host_only"

definition roster_broadcast :: "('sk, 'pk, 'sig) crypto \<Rightarrow> 'pk presence \<Rightarrow> room_control option" where
  "roster_broadcast c p =
     (if \<not> pr_is_host p then None
      else Some (Roster (map (pk_bytes c) (take max_roster_members (ro_members (pr_roster p))))
                        (ro_policy (pr_roster p) = HostOnly)))"

definition neighbor_down :: "'pk::linorder presence \<Rightarrow> 'pk \<Rightarrow> 'pk presence \<times> bool" where
  "neighbor_down p who = remove_presence p who"

section \<open>Invariant\<close>

datatype 'pk presence_event = Control 'pk room_control | NeighborDown 'pk

fun presence_step ::
    "('sk, 'pk::linorder, 'sig) crypto \<Rightarrow> 'pk presence \<Rightarrow> 'pk presence_event \<Rightarrow> 'pk presence" where
  "presence_step c p (Control author m) = fst (apply_control c p author m)"
| "presence_step c p (NeighborDown who) = fst (neighbor_down p who)"

definition names_ok :: "('pk::linorder \<times> ustring) list \<Rightarrow> bool" where
  "names_ok names \<longleftrightarrow>
     bt_wf names \<and> (\<forall>who n. bt_get names who = Some n \<longrightarrow> n \<noteq> [] \<and> name_ok n)"

definition presence_inv :: "'pk::linorder presence \<Rightarrow> bool" where
  "presence_inv p \<longleftrightarrow>
     roster_inv (pr_roster p) \<and> ro_host (pr_roster p) = pr_host p \<and>
     ro_scope (pr_roster p) = pr_scope p \<and> bs_wf (pr_seen p) \<and> names_ok (pr_names p) \<and>
     (pr_is_host p \<longrightarrow> \<not> pr_host_departed p \<and>
        set (ro_members (pr_roster p)) = insert (pr_host p) (set (pr_seen p)))"

lemma names_ok_insert: "names_ok m \<Longrightarrow> n \<noteq> [] \<Longrightarrow> name_ok n \<Longrightarrow> names_ok (bt_insert who n m)"
  by (auto simp: names_ok_def bt_simps)

lemma names_ok_remove: "names_ok m \<Longrightarrow> names_ok (bt_remove who m)"
  by (auto simp: names_ok_def bt_simps split: if_splits)

lemma names_ok_Nil [simp]: "names_ok []"
  by (simp add: names_ok_def bt_get_def)

lemma presence_inv_new: "presence_inv (presence_new scope host me my_name policy)"
  by (auto simp: presence_inv_def presence_new_def Let_def bs_wf_def
      intro: names_ok_insert [where m = "[]", simplified])

lemma remove_presence_fields:
  "pr_scope (fst (remove_presence p who)) = pr_scope p"
  "pr_host (fst (remove_presence p who)) = pr_host p"
  "pr_is_host (fst (remove_presence p who)) = pr_is_host p"
  "pr_seen (fst (remove_presence p who)) = bs_remove who (pr_seen p)"
  "pr_names (fst (remove_presence p who)) = bt_remove who (pr_names p)"
  "pr_host_departed (fst (remove_presence p who)) = pr_host_departed p"
  "pr_roster (fst (remove_presence p who)) =
     (if pr_is_host p then fst (roster_remove (pr_roster p) who) else pr_roster p)"
  by (simp_all add: remove_presence_def Let_def case_prod_beta)

lemma presence_inv_remove: "presence_inv p \<Longrightarrow> presence_inv (fst (remove_presence p who))"
  by (auto simp: presence_inv_def remove_presence_fields names_ok_remove)

lemma apply_hello_fields:
  "pr_scope (fst (apply_hello p a n)) = pr_scope p"
  "pr_host (fst (apply_hello p a n)) = pr_host p"
  "pr_is_host (fst (apply_hello p a n)) = pr_is_host p"
  "pr_seen (fst (apply_hello p a n)) = bs_insert a (pr_seen p)"
  "pr_host_departed (fst (apply_hello p a n)) = (if a = pr_host p then False else pr_host_departed p)"
  "pr_roster (fst (apply_hello p a n)) =
     (if pr_is_host p \<and> a \<notin> set (pr_seen p) then admit (pr_roster p) a else pr_roster p)"
  "pr_names (fst (apply_hello p a n)) =
     (let cleaned = sanitize_display_name n in
      if cleaned \<noteq> [] \<and> bt_get (pr_names p) a \<noteq> Some cleaned then bt_insert a cleaned (pr_names p)
      else pr_names p)"
  by (simp_all add: apply_hello_def Let_def)

lemma names_ok_hello:
  "presence_inv p \<Longrightarrow> names_ok (pr_names (fst (apply_hello p a n)))"
  using names_ok_insert [of "pr_names p" "sanitize_display_name n" a]
  by (simp add: apply_hello_fields(7) Let_def presence_inv_def)

lemma presence_inv_hello: "presence_inv p \<Longrightarrow> presence_inv (fst (apply_hello p a n))"
  using names_ok_hello [of p a n] unfolding presence_inv_def apply_hello_fields(1-6)
  by (simp add: insert_commute insert_absorb)

lemma apply_goodbye_fields:
  "pr_scope (fst (apply_goodbye p a)) = pr_scope p"
  "pr_host (fst (apply_goodbye p a)) = pr_host p"
  "pr_is_host (fst (apply_goodbye p a)) = pr_is_host p"
  "pr_seen (fst (apply_goodbye p a)) = bs_remove a (pr_seen p)"
  "pr_names (fst (apply_goodbye p a)) = bt_remove a (pr_names p)"
  "pr_host_departed (fst (apply_goodbye p a)) =
     (if a = pr_host p \<and> \<not> pr_is_host p then True else pr_host_departed p)"
  "pr_roster (fst (apply_goodbye p a)) = pr_roster (fst (remove_presence p a))"
  by (simp_all add: apply_goodbye_def case_prod_beta remove_presence_fields)

lemma presence_inv_goodbye: "presence_inv p \<Longrightarrow> presence_inv (fst (apply_goodbye p a))"
  using presence_inv_remove [of p a]
  by (auto simp: presence_inv_def apply_goodbye_fields remove_presence_fields)

text \<open>The roster a guest builds from a broadcast: the host and the keys that decode.\<close>

definition roster_of_keys ::
    "('sk, 'pk::linorder, 'sig) crypto \<Rightarrow> bytes list \<Rightarrow> 'pk room_roster \<Rightarrow> 'pk room_roster" where
  "roster_of_keys c members r0 =
     fold (\<lambda>raw r. case pk_of_bytes c raw of Some i \<Rightarrow> admit r i | None \<Rightarrow> r) members r0"

lemma roster_of_keys:
  "roster_inv r0 \<Longrightarrow>
   roster_inv (roster_of_keys c members r0) \<and>
   ro_host (roster_of_keys c members r0) = ro_host r0 \<and>
   ro_scope (roster_of_keys c members r0) = ro_scope r0 \<and>
   ro_policy (roster_of_keys c members r0) = ro_policy r0 \<and>
   set (ro_members (roster_of_keys c members r0)) =
     set (ro_members r0) \<union> {i. \<exists>raw\<in>set members. pk_of_bytes c raw = Some i}"
proof (induction members arbitrary: r0)
  case (Cons raw members)
  show ?case
  proof (cases "pk_of_bytes c raw")
    case None
    then show ?thesis using Cons by (auto simp: roster_of_keys_def)
  next
    case (Some i)
    then show ?thesis using Cons.IH [of "admit r0 i"] Cons.prems by (auto simp: roster_of_keys_def)
  qed
qed (simp add: roster_of_keys_def)

lemma apply_roster_fields:
  "pr_scope (fst (apply_roster c p ms h)) = pr_scope p"
  "pr_host (fst (apply_roster c p ms h)) = pr_host p"
  "pr_is_host (fst (apply_roster c p ms h)) = pr_is_host p"
  "pr_seen (fst (apply_roster c p ms h)) = pr_seen p"
  "pr_names (fst (apply_roster c p ms h)) = pr_names p"
  "pr_host_departed (fst (apply_roster c p ms h)) = pr_host_departed p"
  "pr_roster (fst (apply_roster c p ms h)) =
     (if pr_is_host p then pr_roster p
      else roster_of_keys c ms
             (roster_new (pr_scope p) (pr_host p) (if h then HostOnly else Everyone)))"
  by (auto simp: apply_roster_def roster_of_keys_def Let_def)

lemma presence_inv_roster: "presence_inv p \<Longrightarrow> presence_inv (fst (apply_roster c p ms h))"
  using roster_of_keys [OF roster_inv_new, of c ms "pr_scope p" "pr_host p" "if h then HostOnly else Everyone"]
  by (auto simp: presence_inv_def apply_roster_fields)

lemmas presence_fields =
  remove_presence_fields apply_hello_fields apply_goodbye_fields apply_roster_fields

lemma presence_inv_step: "presence_inv p \<Longrightarrow> presence_inv (presence_step c p e)"
proof (cases e)
  case (Control a m)
  then show "presence_inv p \<Longrightarrow> presence_inv (presence_step c p e)"
    by (cases m) (auto intro: presence_inv_hello presence_inv_goodbye presence_inv_roster)
next
  case (NeighborDown who)
  then show "presence_inv p \<Longrightarrow> presence_inv (presence_step c p e)"
    by (auto simp: neighbor_down_def intro: presence_inv_remove)
qed

interpretation presence_sm: state_machine
  "\<lambda>p. \<exists>scope host me name policy. p = presence_new scope host me name policy"
  "presence_step c" presence_inv
  for c :: "('sk, 'pk::linorder, 'sig) crypto"
  by unfold_locales (auto intro: presence_inv_new presence_inv_step)

lemma presence_step_frame:
  "pr_scope (presence_step c p e) = pr_scope p"
  "pr_host (presence_step c p e) = pr_host p"
  "pr_is_host (presence_step c p e) = pr_is_host p"
proof -
  have *: "pr_scope (presence_step c p e) = pr_scope p \<and> pr_host (presence_step c p e) = pr_host p \<and>
    pr_is_host (presence_step c p e) = pr_is_host p"
  proof (cases e)
    case (Control a m)
    then show ?thesis by (cases m) (simp_all add: presence_fields)
  qed (simp add: neighbor_down_def presence_fields)
  then show "pr_scope (presence_step c p e) = pr_scope p"
    "pr_host (presence_step c p e) = pr_host p" "pr_is_host (presence_step c p e) = pr_is_host p"
    by blast+
qed

section \<open>Properties\<close>

lemma open_seal:
  assumes "crypto_ok c" "control_codec_ok k" and sealed: "seal c k m scope sk = Inr bs"
  shows "open_control c k bs scope host =
    and_then (check_control (public_of c sk) host m) (\<lambda>_. Inr (public_of c sk, m))"
proof -
  from sealed obtain payload where payload: "postcard_control k m = Some payload"
    and enc: "encode_compact c (sign c (new_envelope scope RoomControlPayload payload) sk) = Inr bs"
    unfolding seal_def
    by (auto simp: and_then_eq_Inr ok_or_eq_Inr map_err_eq_Inr split: sum.splits if_splits)
  have "decode_compact c bs = Inr (sign c (new_envelope scope RoomControlPayload payload) sk)"
    using decode_encode_compact [OF assms(1) enc] .
  moreover have "control_of_postcard k payload = Some m"
    using assms(2) payload by (simp add: control_codec_ok_def)
  ultimately show ?thesis
    by (simp add: open_control_def verify_sign [OF assms(1)])
qed

lemma presence_inv_facts:
  assumes inv: "presence_inv p"
  shows "is_member (pr_roster p) (pr_host p)" "ro_host (pr_roster p) = pr_host p"
    "ro_scope (pr_roster p) = pr_scope p"
    "\<forall>who n. name_of p who = Some n \<longrightarrow> n \<noteq> [] \<and> name_ok n"
    "pr_is_host p \<Longrightarrow> \<not> pr_host_departed p"
    "pr_is_host p \<Longrightarrow> is_member (pr_roster p) who \<longleftrightarrow> who = pr_host p \<or> who \<in> set (pr_seen p)"
proof -
  show "ro_host (pr_roster p) = pr_host p" "ro_scope (pr_roster p) = pr_scope p"
    using inv by (simp_all add: presence_inv_def)
  show "is_member (pr_roster p) (pr_host p)"
    using inv unfolding presence_inv_def is_member_def roster_inv_def by metis
  show "\<forall>who n. name_of p who = Some n \<longrightarrow> n \<noteq> [] \<and> name_ok n"
    using inv by (simp add: presence_inv_def names_ok_def name_of_def)
  show "pr_is_host p \<Longrightarrow> \<not> pr_host_departed p"
    using inv by (simp add: presence_inv_def)
  show "pr_is_host p \<Longrightarrow> is_member (pr_roster p) who \<longleftrightarrow> who = pr_host p \<or> who \<in> set (pr_seen p)"
    using inv by (simp add: presence_inv_def is_member_def roster_inv_def)
qed

text \<open>In every state a machine reaches from joining a room, through any control messages and
  neighbour losses, the host is a member and the roster is about this room; every stored name is
  non-empty, at most 64 bytes and free of control characters; and on the host's own machine the
  members are exactly the host and those who said hello and have not left.\<close>

theorem presence_reachable:
  "let p = foldl (presence_step c) (presence_new scope host me my_name policy) es in
     pr_host p = host \<and> pr_is_host p = (me = host) \<and> is_member (pr_roster p) host \<and>
     ro_host (pr_roster p) = host \<and> ro_scope (pr_roster p) = scope \<and>
     (\<forall>who n. name_of p who = Some n \<longrightarrow> n \<noteq> [] \<and> name_ok n) \<and>
     (me = host \<longrightarrow> \<not> pr_host_departed p \<and>
        (\<forall>who. is_member (pr_roster p) who \<longleftrightarrow> who = host \<or> who \<in> set (pr_seen p)))"
proof -
  define p0 where "p0 = presence_new scope host me my_name policy"
  define p where "p = foldl (presence_step c) p0 es"
  have inv: "presence_inv p"
    unfolding p_def p0_def by (rule presence_sm.inv_reachable) blast
  have "pr_scope p = pr_scope p0" "pr_host p = pr_host p0" "pr_is_host p = pr_is_host p0"
    unfolding p_def by (rule presence_sm.run_frame, simp_all add: presence_step_frame p0_def presence_inv_new)+
  then have frame: "pr_scope p = scope" "pr_host p = host" "pr_is_host p = (me = host)"
    by (simp_all add: p0_def presence_new_def Let_def)
  have "pr_host p = host \<and> pr_is_host p = (me = host) \<and> is_member (pr_roster p) host \<and>
     ro_host (pr_roster p) = host \<and> ro_scope (pr_roster p) = scope \<and>
     (\<forall>who n. name_of p who = Some n \<longrightarrow> n \<noteq> [] \<and> name_ok n) \<and>
     (me = host \<longrightarrow> \<not> pr_host_departed p \<and>
        (\<forall>who. is_member (pr_roster p) who \<longleftrightarrow> who = host \<or> who \<in> set (pr_seen p)))"
    using presence_inv_facts [OF inv] unfolding frame by blast
  then show ?thesis unfolding p_def p0_def Let_def .
qed

theorem presence_reachable_witness:
  "is_member (pr_roster (foldl (presence_step (demo_crypto []))
      (presence_new (Notebook []) 1 1 (lit ''Ann'') Everyone)
      [Control 2 (Hello (lit ''Bob'')), Control 1 Goodbye, NeighborDown 3])) 1"
  using presence_reachable [of "demo_crypto []" "Notebook []" 1 1 "lit ''Ann''" Everyone
      "[Control 2 (Hello (lit ''Bob'')), Control 1 Goodbye, NeighborDown 3]"]
  by (simp only: Let_def)

text \<open>On a guest's machine the roster changes only through bytes that carry an envelope
  verifying under the host's key for this room, holding a roster of at most 64 members. No message
  of another member, however formed, moves it.\<close>

theorem guest_roster_only_from_host:
  assumes "open_control c k bs (pr_scope p) (pr_host p) = Inr (author, m)" "\<not> pr_is_host p"
    and "pr_roster (fst (apply_control c p author m)) \<noteq> pr_roster p"
  shows "author = pr_host p \<and>
    (\<exists>e members host_only. decode_compact c bs = Inr e \<and> verify c e (pr_scope p) = Inr () \<and>
       env_author e = pr_host p \<and> m = Roster members host_only \<and> length members \<le> max_roster_members)"
proof -
  obtain members host_only where m: "m = Roster members host_only"
    using assms(2,3) by (cases m) (simp_all add: presence_fields)
  from assms(1) show ?thesis
    unfolding open_control_def m
    by (auto simp: and_then_eq_Inr ok_or_eq_Inr map_err_eq_Inr check_control_def split: if_splits)
qed

lemma roster_ext:
  assumes "roster_inv r" "roster_inv s" "ro_scope r = ro_scope s" "ro_host r = ro_host s"
    "ro_policy r = ro_policy s" "set (ro_members r) = set (ro_members s)"
  shows "(r :: 'pk::linorder room_roster) = s"
proof -
  have "ro_members r = ro_members s"
    using assms by (auto simp: roster_inv_def intro: bs_ext)
  with assms show ?thesis by (cases r; cases s) simp
qed

text \<open>What the host broadcasts is what every guest ends up with. The sealed broadcast opens on
  the guest as the host's message, and applying it makes the guest's roster equal to the host's
  (same members in the same order, same policy) as long as the roster is within the gossip limit of
  64 members.\<close>

theorem roster_broadcast_converges:
  assumes "crypto_ok c" "control_codec_ok k"
    and "presence_inv h" "pr_is_host h" "public_of c sk = pr_host h"
    and "\<not> pr_is_host p" "pr_scope p = pr_scope h" "pr_host p = pr_host h"
    and "roster_broadcast c h = Some m" "seal c k m (pr_scope h) sk = Inr bs"
    and "length (ro_members (pr_roster h)) \<le> max_roster_members"
  shows "open_control c k bs (pr_scope p) (pr_host p) = Inr (pr_host h, m) \<and>
    pr_roster (fst (apply_control c p (pr_host h) m)) = pr_roster h"
proof -
  let ?ids = "ro_members (pr_roster h)"
  have m: "m = Roster (map (pk_bytes c) ?ids) (ro_policy (pr_roster h) = HostOnly)"
    using assms(4,9,11) by (simp add: roster_broadcast_def)
  let ?r0 = "roster_new (pr_scope h) (pr_host h) (ro_policy (pr_roster h))"
  let ?r1 = "roster_of_keys c (map (pk_bytes c) ?ids) ?r0"
  note r1 = roster_of_keys [OF roster_inv_new, of c "map (pk_bytes c) ?ids" "pr_scope h" "pr_host h"
      "ro_policy (pr_roster h)"]
  have "set (ro_members ?r1) = set ?ids"
    using assms(3) r1 crypto_pk_decode [OF assms(1)]
    by (auto simp: presence_inv_def roster_inv_def)
  then have "?r1 = pr_roster h"
    using assms(3) r1 by (intro roster_ext) (simp_all add: presence_inv_def)
  moreover have "(if ro_policy (pr_roster h) = HostOnly then HostOnly else Everyone) =
      ro_policy (pr_roster h)"
    by (cases "ro_policy (pr_roster h)") simp_all
  moreover have "open_control c k bs (pr_scope p) (pr_host p) = Inr (pr_host h, m)"
    using open_seal [OF assms(1,2,10), of "pr_host h"] assms(5,7,8,11)
    by (simp add: check_control_def m)
  ultimately show ?thesis
    using assms(6,7,8) by (simp add: m apply_roster_fields)
qed

definition demo_control :: "room_control list \<Rightarrow> control_codec" where
  "demo_control table =
     \<lparr>postcard_control = table_encode table, control_of_postcard = table_decode table,
      gossip_max_message_size = 4096\<rparr>"

lemma demo_control_ok [simp]: "control_codec_ok (demo_control table)"
  by (simp add: control_codec_ok_def demo_control_def table_decode_encode)

theorem roster_broadcast_converges_witness:
  "\<exists>h p m bs.
     h = fst (apply_hello (presence_new (Notebook []) (1 :: u8) 1 [] HostOnly) 2 []) \<and>
     p = presence_new (Notebook []) 1 (2 :: u8) [] Everyone \<and>
     m = Roster [pk_bytes (demo_crypto []) 1, pk_bytes (demo_crypto []) 2] True \<and>
     open_control (demo_crypto [sign (demo_crypto []) (new_envelope (Notebook []) RoomControlPayload [0]) 1])
        (demo_control [m]) bs (Notebook []) 1 = Inr (1, m) \<and>
     pr_roster (fst (apply_control
        (demo_crypto [sign (demo_crypto []) (new_envelope (Notebook []) RoomControlPayload [0]) 1])
        p 1 m)) = pr_roster h"
proof -
  let ?env = "sign (demo_crypto []) (new_envelope (Notebook []) RoomControlPayload [0]) 1"
  let ?c = "demo_crypto [?env]"
  let ?h = "fst (apply_hello (presence_new (Notebook []) (1 :: u8) 1 [] HostOnly) 2 [])"
  let ?p = "presence_new (Notebook []) 1 (2 :: u8) [] Everyone"
  let ?m = "Roster [pk_bytes (demo_crypto []) 1, pk_bytes (demo_crypto []) 2] True"
  have h: "pr_is_host ?h" "pr_host ?h = 1" "pr_scope ?h = Notebook []"
    "ro_members (pr_roster ?h) = [1, 2]" "ro_policy (pr_roster ?h) = HostOnly"
    by (simp_all add: apply_hello_fields presence_new_def Let_def)
  have p: "\<not> pr_is_host ?p" "pr_scope ?p = pr_scope ?h" "pr_host ?p = pr_host ?h"
    by (simp_all add: h) (simp_all add: presence_new_def Let_def)
  have env: "sign ?c (new_envelope (Notebook []) RoomControlPayload [0]) 1 = ?env"
    by (simp add: sign_def Let_def signing_message_def demo_crypto_def)
  have "seal ?c (demo_control [?m]) ?m (pr_scope ?h) 1 = Inr [0]"
    by (simp add: seal_def h max_roster_members_def demo_control_def table_encode_def env
        encode_compact_def)
  moreover have "roster_broadcast ?c ?h = Some ?m"
    by (simp add: roster_broadcast_def h max_roster_members_def demo_crypto_def)
  moreover have "presence_inv ?h" by (rule presence_inv_hello, rule presence_inv_new)
  moreover have "public_of ?c 1 = pr_host ?h" "length (ro_members (pr_roster ?h)) \<le> max_roster_members"
    by (simp_all add: h max_roster_members_def)
  ultimately have "open_control ?c (demo_control [?m]) [0] (pr_scope ?p) (pr_host ?p) = Inr (pr_host ?h, ?m) \<and>
      pr_roster (fst (apply_control ?c ?p (pr_host ?h) ?m)) = pr_roster ?h"
    using roster_broadcast_converges [OF demo_crypto_ok demo_control_ok] h(1) p by blast
  then show ?thesis unfolding p h by blast
qed

theorem guest_roster_only_from_host_witness:
  "\<exists>(p :: u8 presence) (c :: (u8, u8, u8 \<times> bytes) crypto) k bs m. \<not> pr_is_host p \<and> pr_roster (fst (apply_control c p 1 m)) \<noteq> pr_roster p \<and>
     open_control c k bs (pr_scope p) (pr_host p) = Inr (1, m) \<and> pr_host p = 1"
proof -
  let ?env = "sign (demo_crypto []) (new_envelope (Notebook []) RoomControlPayload [0]) 1"
  let ?c = "demo_crypto [?env]" and ?m = "Roster [] False" and ?k = "demo_control [Roster [] False]"
  let ?p = "presence_new (Notebook []) 1 (2 :: u8) [] Everyone"
  have env: "sign ?c (new_envelope (Notebook []) RoomControlPayload [0]) 1 = ?env"
    by (simp add: sign_def Let_def signing_message_def demo_crypto_def)
  have "seal ?c ?k ?m (Notebook []) 1 = Inr [0]"
    by (simp add: seal_def max_roster_members_def demo_control_def table_encode_def env
        encode_compact_def)
  then have op: "open_control ?c ?k [0] (pr_scope ?p) (pr_host ?p) = Inr (1, ?m)"
    using open_seal [OF demo_crypto_ok demo_control_ok]
    by (simp add: check_control_def max_roster_members_def presence_new_def Let_def)
  have p: "\<not> pr_is_host ?p" by (simp add: presence_new_def Let_def)
  have "pr_roster (fst (apply_control ?c ?p 1 ?m)) \<noteq> pr_roster ?p"
    by (simp add: apply_roster_fields roster_of_keys_def)
      (simp add: presence_new_def Let_def roster_new_def admit_def)
  note changed = this
  have "1 = pr_host ?p" using guest_roster_only_from_host [OF op p changed] by (rule conjunct1)
  then have "\<not> pr_is_host ?p \<and> pr_roster (fst (apply_control ?c ?p 1 ?m)) \<noteq> pr_roster ?p \<and>
     open_control ?c ?k [0] (pr_scope ?p) (pr_host ?p) = Inr (1, ?m) \<and> pr_host ?p = 1"
    using op p changed by (intro conjI) (assumption | rule sym, assumption)+
  then show ?thesis by (intro exI)
qed

fun silent_on_departure :: "'pk \<Rightarrow> 'pk presence_event \<Rightarrow> bool" where
  "silent_on_departure host (NeighborDown who) = True"
| "silent_on_departure host (Control author m) =
     (author \<noteq> host \<or> (case m of Roster _ _ \<Rightarrow> True | _ \<Rightarrow> False))"

lemma departed_silent:
  "silent_on_departure (pr_host p) e \<Longrightarrow>
   pr_host_departed (presence_step c p e) = pr_host_departed p"
proof (cases e)
  case (Control a m)
  then show "silent_on_departure (pr_host p) e \<Longrightarrow> ?thesis"
    by (cases m) (auto simp: presence_fields)
qed (simp add: neighbor_down_def presence_fields)

lemma departed_silent_run:
  "\<forall>e\<in>set es. silent_on_departure (pr_host p) e \<Longrightarrow>
   pr_host_departed (foldl (presence_step c) p es) = pr_host_departed p"
  by (induction es arbitrary: p) (simp_all add: presence_step_frame departed_silent)

text \<open>The guest's \<^verbatim>\<open>host_departed\<close> is the host's own latest word: a goodbye sets it whatever came
  before, it stays set until the host says hello again, and messages of others and lost neighbours
  never touch it.\<close>

theorem host_departed_latest_word:
  assumes "\<not> pr_is_host p" "\<forall>e\<in>set es. silent_on_departure (pr_host p) e"
  shows "pr_host_departed (foldl (presence_step c) p (Control (pr_host p) Goodbye # es)) \<and>
    \<not> pr_host_departed (foldl (presence_step c) p (Control (pr_host p) (Hello n) # es)) \<and>
    pr_host_departed (foldl (presence_step c) p es) = pr_host_departed p"
  using assms by (simp add: departed_silent_run presence_step_frame presence_fields)

theorem host_departed_latest_word_witness:
  "pr_host_departed (foldl (presence_step (demo_crypto []))
     (presence_new (Notebook []) 1 (2 :: u8) [] Everyone)
     [Control 1 Goodbye, NeighborDown 1, Control 3 (Hello [])])"
  using host_departed_latest_word [of "presence_new (Notebook []) 1 (2 :: u8) [] Everyone"
      "[NeighborDown 1, Control 3 (Hello [])]" "demo_crypto []"]
  by (simp add: presence_new_def Let_def)

end
