(* ===== verification/Share_Docsync.thy ===== *)
theory Share_Docsync
  imports Share_Permission
begin

text \<open>
  \<^verbatim>\<open>crates/vt-share/src/docsync.rs\<close>: what a machine does with document updates of others, and how it
  answers a peer that declares its versions. The side that holds the documents is the trait
  \<^verbatim>\<open>DocumentSync\<close>; a record \<open>document_sync\<close> holds its six operations over a store of any type, with
  \<open>ds_apply\<close> returning the changed store. The postcard coding of the payload is a parameter.
\<close>

section \<open>Messages\<close>

record document_update_payload =
  dup_document_id :: ustring
  dup_schema_epoch :: nat
  dup_update :: bytes

record document_version =
  dv_document_id :: ustring
  dv_version :: bytes

datatype doc_sync_message =
    Have "document_version list"
  | Updates "bytes list"
  | UpToDate

record 's document_sync =
  ds_documents :: "'s \<Rightarrow> scope_id \<Rightarrow> ustring list"
  ds_document_in_scope :: "'s \<Rightarrow> scope_id \<Rightarrow> ustring \<Rightarrow> bool"
  ds_version :: "'s \<Rightarrow> scope_id \<Rightarrow> ustring \<Rightarrow> bytes"
  ds_schema_epoch :: "'s \<Rightarrow> scope_id \<Rightarrow> ustring \<Rightarrow> nat option"
  ds_updates_since :: "'s \<Rightarrow> scope_id \<Rightarrow> ustring \<Rightarrow> bytes \<Rightarrow> bytes option"
  ds_apply :: "'s \<Rightarrow> scope_id \<Rightarrow> ustring \<Rightarrow> bytes \<Rightarrow> 's \<times> bool"

datatype incoming_outcome =
    Applied
  | Denied admission_denial
  | ApplyFailed
  | OutcomeMalformed

record update_codec =
  postcard_update :: "document_update_payload \<Rightarrow> bytes option"
  update_of_postcard :: "bytes \<Rightarrow> document_update_payload option"

definition update_codec_ok :: "update_codec \<Rightarrow> bool" where
  "update_codec_ok k \<longleftrightarrow>
     (\<forall>p b. postcard_update k p = Some b \<longrightarrow> update_of_postcard k b = Some p)"

section \<open>Operations\<close>

definition handle_incoming_update ::
    "('sk, 'pk::linorder, 'sig) crypto \<Rightarrow> update_codec \<Rightarrow> 's document_sync \<Rightarrow> 'pk room_roster
     \<Rightarrow> boundary_guard \<Rightarrow> 's \<Rightarrow> bytes \<Rightarrow> 's \<times> incoming_outcome" where
  "handle_incoming_update c k sink roster guard s envelope_bytes =
     (case decode_compact c envelope_bytes of
        Inl _ \<Rightarrow> (s, OutcomeMalformed)
      | Inr envelope \<Rightarrow>
        (case update_of_postcard k (env_payload envelope) of
           None \<Rightarrow> (s, OutcomeMalformed)
         | Some payload \<Rightarrow>
           if \<not> ds_document_in_scope sink s (ro_scope roster) (dup_document_id payload)
           then (s, Denied DocumentNotInScope)
           else
             (case ds_schema_epoch sink s (ro_scope roster) (dup_document_id payload) of
                None \<Rightarrow> (s, Denied SchemaEpochUnknown)
              | Some epoch \<Rightarrow>
                if epoch \<noteq> dup_schema_epoch payload
                then (s, Denied (SchemaEpochMismatch epoch (dup_schema_epoch payload)))
                else
                  (case admit_document_update c envelope (dup_document_id payload)
                          (dup_update payload) roster guard of
                     Inl denial \<Rightarrow> (s, Denied denial)
                   | Inr _ \<Rightarrow>
                     (case ds_apply sink s (ro_scope roster) (dup_document_id payload)
                             (dup_update payload) of
                        (s', True) \<Rightarrow> (s', Applied)
                      | (s', False) \<Rightarrow> (s', ApplyFailed))))))"

definition seal_update ::
    "('sk, 'pk, 'sig) crypto \<Rightarrow> update_codec \<Rightarrow> scope_id \<Rightarrow> ustring \<Rightarrow> nat \<Rightarrow> bytes \<Rightarrow> 'sk
     \<Rightarrow> bytes option" where
  "seal_update c k scope document_id schema_epoch update secret =
     (case postcard_update k \<lparr>dup_document_id = document_id, dup_schema_epoch = schema_epoch,
                              dup_update = update\<rparr> of
        None \<Rightarrow> None
      | Some payload \<Rightarrow>
        (case encode_compact c (sign c (new_envelope scope DocumentUpdate payload) secret) of
           Inl _ \<Rightarrow> None
         | Inr bs \<Rightarrow> Some bs))"

definition declare_versions :: "'s document_sync \<Rightarrow> 's \<Rightarrow> scope_id \<Rightarrow> doc_sync_message" where
  "declare_versions sink s scope =
     Have (map (\<lambda>d. \<lparr>dv_document_id = d, dv_version = ds_version sink s scope d\<rparr>)
               (ds_documents sink s scope))"

definition peer_version :: "document_version list \<Rightarrow> ustring \<Rightarrow> bytes" where
  "peer_version versions document_id =
     (case find (\<lambda>v. dv_document_id v = document_id) versions of
        None \<Rightarrow> [] | Some v \<Rightarrow> dv_version v)"

text \<open>The body of the loop of \<^verbatim>\<open>respond_to_have\<close>; None is one of its two \<^verbatim>\<open>continue\<close>s or an update
  that could not be sealed.\<close>

definition respond_document ::
    "('sk, 'pk, 'sig) crypto \<Rightarrow> update_codec \<Rightarrow> 's document_sync \<Rightarrow> 's \<Rightarrow> document_version list
     \<Rightarrow> scope_id \<Rightarrow> 'sk \<Rightarrow> ustring \<Rightarrow> bytes option" where
  "respond_document c k sink s versions scope secret document_id =
     (case ds_updates_since sink s scope document_id (peer_version versions document_id) of
        None \<Rightarrow> None
      | Some update \<Rightarrow>
        (case ds_schema_epoch sink s scope document_id of
           None \<Rightarrow> None
         | Some epoch \<Rightarrow> seal_update c k scope document_id epoch update secret))"

definition respond_to_have ::
    "('sk, 'pk, 'sig) crypto \<Rightarrow> update_codec \<Rightarrow> 's document_sync \<Rightarrow> 's \<Rightarrow> document_version list
     \<Rightarrow> scope_id \<Rightarrow> 'sk \<Rightarrow> doc_sync_message" where
  "respond_to_have c k sink s versions scope secret =
     (let envelopes = List.map_filter (respond_document c k sink s versions scope secret)
                        (ds_documents sink s scope)
      in if envelopes = [] then UpToDate else Updates envelopes)"

section \<open>Properties\<close>

text \<open>Whatever bytes arrive, the store is touched only by applying the update of an envelope
  that decodes, whose document belongs to the room's scope, whose schema epoch is the local one and
  which verifies, was written by a member who may write and stays off the guarded ranges of others
  than the host. In every other case the store is unchanged and the outcome says so; a document
  outside the scope is refused as such whoever signed it.\<close>

theorem incoming_update_gate:
  assumes "handle_incoming_update c k sink roster guard s bs = (s', outcome)"
  shows "(\<exists>envelope payload ok.
      decode_compact c bs = Inr envelope \<and> update_of_postcard k (env_payload envelope) = Some payload \<and>
      ds_document_in_scope sink s (ro_scope roster) (dup_document_id payload) \<and>
      ds_schema_epoch sink s (ro_scope roster) (dup_document_id payload) = Some (dup_schema_epoch payload) \<and>
      verify c envelope (ro_scope roster) = Inr () \<and> env_kind envelope = DocumentUpdate \<and>
      is_member roster (env_author envelope) \<and> may_write roster (env_author envelope) \<and>
      (env_author envelope = ro_host roster \<or>
         \<not> guard (ro_scope roster) (dup_document_id payload) (dup_update payload)) \<and>
      ds_apply sink s (ro_scope roster) (dup_document_id payload) (dup_update payload) = (s', ok) \<and>
      outcome = (if ok then Applied else ApplyFailed)) \<or>
   (s' = s \<and> (outcome = OutcomeMalformed \<or>
      (\<exists>denial envelope payload. outcome = Denied denial \<and> decode_compact c bs = Inr envelope \<and>
         update_of_postcard k (env_payload envelope) = Some payload \<and>
         (denial = DocumentNotInScope \<longleftrightarrow>
            \<not> ds_document_in_scope sink s (ro_scope roster) (dup_document_id payload)))))"
proof (cases "decode_compact c bs")
  case (Inr e)
  show ?thesis
  proof (cases "update_of_postcard k (env_payload e)")
    case (Some p)
    have not_scope: "admit_document_update c e d u roster guard \<noteq> Inl DocumentNotInScope" for d u
      by (cases "verify c e (ro_scope roster)") (simp_all add: admit_document_update_def)
    have admit: "admit_document_update c e (dup_document_id p) (dup_update p) roster guard = Inr () \<longleftrightarrow>
      verify c e (ro_scope roster) = Inr () \<and> env_kind e = DocumentUpdate \<and>
      is_member roster (env_author e) \<and> may_write roster (env_author e) \<and>
      (env_author e = ro_host roster \<or> \<not> guard (ro_scope roster) (dup_document_id p) (dup_update p))"
      by (cases "verify c e (ro_scope roster)") (auto simp: admit_document_update_def)
    show ?thesis
      using assms admit not_scope Inr Some
      by (auto simp: handle_incoming_update_def split: if_splits option.splits sum.splits prod.splits bool.splits)
  qed (use assms Inr in \<open>simp add: handle_incoming_update_def\<close>)
qed (use assms in \<open>simp add: handle_incoming_update_def\<close>)

lemma admit_signed_by:
  assumes "crypto_ok c" "is_member roster (public_of c sk)" "may_write roster (public_of c sk)"
    and "public_of c sk = ro_host roster \<or> \<not> guard (ro_scope roster) d u"
  shows "admit_document_update c (sign c (new_envelope (ro_scope roster) DocumentUpdate payload) sk)
           d u roster guard = Inr ()"
  using assms verify_sign [OF assms(1), of "new_envelope (ro_scope roster) DocumentUpdate payload" sk]
  by (simp add: admit_document_update_def)

lemma handle_sealed_update:
  assumes "crypto_ok c" "update_codec_ok k"
    and "seal_update c k (ro_scope roster) d epoch u sk = Some bs"
    and "is_member roster (public_of c sk)" "may_write roster (public_of c sk)"
    and "public_of c sk = ro_host roster \<or> \<not> guard (ro_scope roster) d u"
    and "ds_document_in_scope sink s (ro_scope roster) d"
    and "ds_schema_epoch sink s (ro_scope roster) d = Some epoch"
  shows "handle_incoming_update c k sink roster guard s bs =
    (let (s', ok) = ds_apply sink s (ro_scope roster) d u in (s', if ok then Applied else ApplyFailed))"
proof -
  let ?p = "\<lparr>dup_document_id = d, dup_schema_epoch = epoch, dup_update = u\<rparr>"
  from assms(3) obtain payload where p: "postcard_update k ?p = Some payload"
    and enc: "encode_compact c (sign c (new_envelope (ro_scope roster) DocumentUpdate payload) sk) = Inr bs"
    by (auto simp: seal_update_def split: option.splits sum.splits)
  have "decode_compact c bs = Inr (sign c (new_envelope (ro_scope roster) DocumentUpdate payload) sk)"
    by (rule decode_encode_compact [OF assms(1) enc])
  moreover have "update_of_postcard k payload = Some ?p"
    using assms(2) p by (simp add: update_codec_ok_def)
  ultimately show ?thesis
    using assms(7,8) admit_signed_by [of c roster sk guard d u payload, OF assms(1,4,5,6)]
    by (simp add: handle_incoming_update_def split: prod.splits bool.splits)
qed

text \<open>What the peer lacks of a document: what the sender has beyond the version the peer declared for it, or beyond the
  empty version when it declared none. A document whose schema epoch the sender does not know is not sent.\<close>

definition lacks_update :: "'s document_sync \<Rightarrow> 's \<Rightarrow> scope_id \<Rightarrow> document_version list \<Rightarrow> ustring \<Rightarrow> bytes \<Rightarrow> bool" where
  "lacks_update sink t scope versions d u \<longleftrightarrow>
     ds_schema_epoch sink t scope d \<noteq> None \<and>
     ds_updates_since sink t scope d
       (case map_of (map (\<lambda>v. (dv_document_id v, dv_version v)) versions) d of None \<Rightarrow> [] | Some version \<Rightarrow> version) = Some u"

text \<open>The receiver handles the envelopes one after another and reports the outcome of each.\<close>

primrec handle_all ::
    "('sk, 'pk::linorder, 'sig) crypto \<Rightarrow> update_codec \<Rightarrow> 's document_sync \<Rightarrow> 'pk room_roster
     \<Rightarrow> boundary_guard \<Rightarrow> 's \<Rightarrow> bytes list \<Rightarrow> 's \<times> incoming_outcome list" where
  "handle_all c k sink roster guard s [] = (s, [])"
| "handle_all c k sink roster guard s (b # bs) =
     (case handle_incoming_update c k sink roster guard s b of
        (s', r) \<Rightarrow> (case handle_all c k sink roster guard s' bs of (s'', rs) \<Rightarrow> (s'', r # rs)))"

primrec apply_all :: "'s document_sync \<Rightarrow> scope_id \<Rightarrow> 's \<Rightarrow> (ustring \<times> bytes) list \<Rightarrow> 's \<times> incoming_outcome list" where
  "apply_all sink scope s [] = (s, [])"
| "apply_all sink scope s (x # xs) =
     (case ds_apply sink s scope (fst x) (snd x) of
        (s', ok) \<Rightarrow>
          (case apply_all sink scope s' xs of (s'', rs) \<Rightarrow> (s'', (if ok then Applied else ApplyFailed) # rs)))"

lemma peer_version_map_of:
  "peer_version versions d =
     (case map_of (map (\<lambda>v. (dv_document_id v, dv_version v)) versions) d of None \<Rightarrow> [] | Some version \<Rightarrow> version)"
  by (induction versions) (auto simp: peer_version_def)

lemma respond_lacks:
  assumes "\<And>u e. lacks_update sink t scope versions d u \<Longrightarrow> ds_schema_epoch sink t scope d = Some e \<Longrightarrow>
      seal_update c k scope d e u sk \<noteq> None"
  shows "case respond_document c k sink t versions scope sk d of
      None \<Rightarrow> \<nexists>u. lacks_update sink t scope versions d u
    | Some bs \<Rightarrow> \<exists>u e. lacks_update sink t scope versions d u \<and> ds_schema_epoch sink t scope d = Some e \<and>
        seal_update c k scope d e u sk = Some bs"
  using assms
  by (auto simp: respond_document_def lacks_update_def peer_version_map_of [symmetric] split: option.split)

text \<open>C37: Catching up is complete and never refused. A member with write permission answers a peer's version
  declaration. It says that the peer is up to date exactly when the peer lacks nothing of any document; otherwise the
  peer that handles the envelopes one after another applies what it lacks, once for each document and in the order
  listed, and each outcome says whether that one could be applied. Both sides are to agree on the documents and their
  schema epochs (\<open>agree\<close>, kept by applying updates), and what is lacking can be encoded.\<close>

theorem catch_up_applied:
  assumes "crypto_ok c" "update_codec_ok k"
    and "is_member roster (public_of c sk)" "may_write roster (public_of c sk)"
    and "\<forall>d u. public_of c sk = ro_host roster \<or> \<not> guard (ro_scope roster) d u"
    and "agree s"
    and "\<forall>s d. agree s \<and> d \<in> set (ds_documents snd_docs t (ro_scope roster)) \<longrightarrow>
        ds_document_in_scope rcv_docs s (ro_scope roster) d \<and>
        ds_schema_epoch rcv_docs s (ro_scope roster) d = ds_schema_epoch snd_docs t (ro_scope roster) d \<and>
        (\<forall>u. agree (fst (ds_apply rcv_docs s (ro_scope roster) d u)))"
    and "\<forall>d u e. d \<in> set (ds_documents snd_docs t (ro_scope roster)) \<and> lacks_update snd_docs t (ro_scope roster) versions d u \<and>
        ds_schema_epoch snd_docs t (ro_scope roster) d = Some e \<longrightarrow> seal_update c k (ro_scope roster) d e u sk \<noteq> None"
  shows "\<exists>missing.
    map fst missing = filter (\<lambda>d. \<exists>u. lacks_update snd_docs t (ro_scope roster) versions d u)
      (ds_documents snd_docs t (ro_scope roster)) \<and>
    (\<forall>(d, u)\<in>set missing. lacks_update snd_docs t (ro_scope roster) versions d u) \<and>
    (case respond_to_have c k snd_docs t versions (ro_scope roster) sk of
       UpToDate \<Rightarrow> missing = []
     | Updates bss \<Rightarrow> missing \<noteq> [] \<and>
         handle_all c k rcv_docs roster guard s bss = apply_all rcv_docs (ro_scope roster) s missing
     | Have _ \<Rightarrow> False)"
proof -
  let ?r = "respond_document c k snd_docs t versions (ro_scope roster) sk"
  let ?lacks = "lacks_update snd_docs t (ro_scope roster) versions"
  let ?docs = "ds_documents snd_docs t (ro_scope roster)"
  have respond: "case ?r d of None \<Rightarrow> \<nexists>u. ?lacks d u
    | Some bs \<Rightarrow> \<exists>u e. ?lacks d u \<and> ds_schema_epoch snd_docs t (ro_scope roster) d = Some e \<and>
        seal_update c k (ro_scope roster) d e u sk = Some bs" if "d \<in> set ?docs" for d
    by (rule respond_lacks) (use assms(8) that in blast)
  have "\<exists>missing. map fst missing = filter (\<lambda>d. \<exists>u. ?lacks d u) ds \<and> (\<forall>(d, u)\<in>set missing. ?lacks d u) \<and>
      (\<forall>s. agree s \<longrightarrow> handle_all c k rcv_docs roster guard s (List.map_filter ?r ds) =
         apply_all rcv_docs (ro_scope roster) s missing) \<and>
      (missing = [] \<longleftrightarrow> List.map_filter ?r ds = [])"
    if "set ds \<subseteq> set ?docs" for ds
    using that
  proof (induction ds)
    case (Cons d ds)
    then obtain missing where m: "map fst missing = filter (\<lambda>d. \<exists>u. ?lacks d u) ds" "\<forall>(d, u)\<in>set missing. ?lacks d u"
        "\<And>s. agree s \<Longrightarrow> handle_all c k rcv_docs roster guard s (List.map_filter ?r ds) =
           apply_all rcv_docs (ro_scope roster) s missing"
        "missing = [] \<longleftrightarrow> List.map_filter ?r ds = []"
      by auto
    show ?case
    proof (cases "?r d")
      case None
      then have "\<nexists>u. ?lacks d u" using respond [of d] Cons.prems by simp
      then show ?thesis using m None by (intro exI [of _ missing]) (simp add: List.map_filter_simps)
    next
      case (Some bs)
      then obtain u e where u: "?lacks d u" "ds_schema_epoch snd_docs t (ro_scope roster) d = Some e"
          "seal_update c k (ro_scope roster) d e u sk = Some bs"
        using respond [of d] Cons.prems by auto
      have one: "handle_incoming_update c k rcv_docs roster guard s bs =
          (let (s', ok) = ds_apply rcv_docs s (ro_scope roster) d u in (s', if ok then Applied else ApplyFailed))"
        "agree (fst (ds_apply rcv_docs s (ro_scope roster) d u))" if "agree s" for s
        using handle_sealed_update [OF assms(1,2) u(3) assms(3,4), of guard rcv_docs s] assms(5,7) that Cons.prems u(2) by auto
      have "handle_all c k rcv_docs roster guard s (List.map_filter ?r (d # ds)) =
          apply_all rcv_docs (ro_scope roster) s ((d, u) # missing)" if "agree s" for s
        using Some one [OF that] m(3) by (simp add: List.map_filter_simps Let_def case_prod_beta)
      moreover have "map fst ((d, u) # missing) = filter (\<lambda>d. \<exists>u. ?lacks d u) (d # ds)" using u(1) m(1) by auto
      ultimately show ?thesis
        using m(2) u(1) Some by (intro exI [of _ "(d, u) # missing"]) (simp add: List.map_filter_simps)
    qed
  qed (simp add: List.map_filter_simps)
  from this [of ?docs] show ?thesis
    using assms(6) by (auto simp: respond_to_have_def Let_def)
qed

section \<open>Witnesses\<close>

text \<open>A store with one document: its epoch is 1 and its content is the list of updates applied.\<close>

definition demo_docs :: "bytes list document_sync" where
  "demo_docs =
     \<lparr>ds_documents = (\<lambda>s scope. [[1]]), ds_document_in_scope = (\<lambda>s scope d. d = [1]),
      ds_version = (\<lambda>s scope d. concat s), ds_schema_epoch = (\<lambda>s scope d. Some 1),
      ds_updates_since = (\<lambda>s scope d v. if v = concat s then None else Some (concat s)),
      ds_apply = (\<lambda>s scope d u. (s @ [u], True))\<rparr>"

definition demo_update :: "document_update_payload \<Rightarrow> update_codec" where
  "demo_update p = \<lparr>postcard_update = table_encode [p], update_of_postcard = table_decode [p]\<rparr>"

lemma demo_update_ok [simp]: "update_codec_ok (demo_update p)"
  by (simp add: update_codec_ok_def demo_update_def table_decode_encode)

definition demo_payload :: document_update_payload where
  "demo_payload = \<lparr>dup_document_id = [1], dup_schema_epoch = 1, dup_update = [7, 8]\<rparr>"

definition demo_doc_envelope :: "(u8, u8 \<times> bytes) share_envelope" where
  "demo_doc_envelope = sign (demo_crypto []) (new_envelope (Notebook []) DocumentUpdate [0]) 1"

lemma demo_respond:
  "respond_to_have (demo_crypto [demo_doc_envelope]) (demo_update demo_payload) demo_docs [[7, 8]] []
     (Notebook []) 1 = Updates [[0]]"
proof -
  have "sign (demo_crypto [demo_doc_envelope]) (new_envelope (Notebook []) DocumentUpdate [0]) 1 =
      demo_doc_envelope"
    by (simp add: demo_doc_envelope_def sign_def Let_def signing_message_def demo_crypto_def)
  then show ?thesis
    by (simp add: respond_to_have_def respond_document_def demo_docs_def peer_version_def seal_update_def
        demo_update_def table_encode_def demo_payload_def encode_compact_def List.map_filter_simps)
qed

lemma demo_sealed:
  "seal_update (demo_crypto [demo_doc_envelope]) (demo_update demo_payload) (Notebook []) [1] 1 [7, 8] 1 = Some [0]"
proof -
  have "respond_to_have (demo_crypto [demo_doc_envelope]) (demo_update demo_payload) demo_docs [[7, 8]] [] (Notebook []) 1 = Updates [[0]]"
    by (rule demo_respond)
  then show ?thesis
    by (auto simp: respond_to_have_def respond_document_def demo_docs_def peer_version_def Let_def List.map_filter_simps
        split: if_splits option.splits)
qed

theorem catch_up_applied_witness:
  "handle_all (demo_crypto [demo_doc_envelope]) (demo_update demo_payload) demo_docs
     (roster_new (Notebook []) 1 HostOnly) allow_all_boundaries [] [[0]] = ([[7, 8]], [Applied])"
proof -
  let ?r = "roster_new (Notebook []) (1 :: u8) HostOnly"
  let ?c = "demo_crypto [demo_doc_envelope]" and ?k = "demo_update demo_payload"
  have r: "ro_scope ?r = Notebook []" "is_member ?r 1" "may_write ?r 1" "ro_host ?r = 1"
    by (simp_all add: roster_new_def is_member_def may_write_def)
  have docs: "ds_documents demo_docs t scope = [[1]]" for t scope by (simp add: demo_docs_def)
  have lacks: "lacks_update demo_docs [[7, 8]] (Notebook []) [] d u \<longleftrightarrow> u = [7, 8]" for d u
    by (auto simp: lacks_update_def demo_docs_def)
  have "\<exists>missing.
    map fst missing = filter (\<lambda>d. \<exists>u. lacks_update demo_docs [[7, 8]] (ro_scope ?r) [] d u)
      (ds_documents demo_docs [[7, 8]] (ro_scope ?r)) \<and>
    (\<forall>(d, u)\<in>set missing. lacks_update demo_docs [[7, 8]] (ro_scope ?r) [] d u) \<and>
    (case respond_to_have ?c ?k demo_docs [[7, 8]] [] (ro_scope ?r) 1 of
       UpToDate \<Rightarrow> missing = []
     | Updates bss \<Rightarrow> missing \<noteq> [] \<and>
         handle_all ?c ?k demo_docs ?r allow_all_boundaries [] bss = apply_all demo_docs (ro_scope ?r) [] missing
     | Have _ \<Rightarrow> False)"
  proof (rule catch_up_applied [where agree = "\<lambda>_. True"])
    show "\<forall>d u e. d \<in> set (ds_documents demo_docs [[7, 8]] (ro_scope ?r)) \<and> lacks_update demo_docs [[7, 8]] (ro_scope ?r) [] d u \<and>
        ds_schema_epoch demo_docs [[7, 8]] (ro_scope ?r) d = Some e \<longrightarrow> seal_update ?c ?k (ro_scope ?r) d e u 1 \<noteq> None"
      unfolding r lacks using demo_sealed by (simp add: demo_docs_def)
  qed (simp_all add: r allow_all_boundaries_def demo_docs_def)
  then obtain missing where m: "map fst missing = filter (\<lambda>d. \<exists>u. lacks_update demo_docs [[7, 8]] (ro_scope ?r) [] d u)
        (ds_documents demo_docs [[7, 8]] (ro_scope ?r))"
      "\<forall>(d, u)\<in>set missing. lacks_update demo_docs [[7, 8]] (ro_scope ?r) [] d u"
      "case respond_to_have ?c ?k demo_docs [[7, 8]] [] (ro_scope ?r) 1 of
         UpToDate \<Rightarrow> missing = []
       | Updates bss \<Rightarrow> missing \<noteq> [] \<and>
           handle_all ?c ?k demo_docs ?r allow_all_boundaries [] bss = apply_all demo_docs (ro_scope ?r) [] missing
       | Have _ \<Rightarrow> False"
    by blast
  have "map fst missing = [[1]]" "\<forall>(d, u)\<in>set missing. u = [7, 8]"
    using m(1,2) unfolding r lacks docs by simp_all
  then have "missing = [([1], [7, 8])]" by (cases missing) auto
  then show ?thesis using m(3) unfolding r demo_respond by (simp add: demo_docs_def del: handle_all.simps)
qed

theorem incoming_update_gate_witness:
  "handle_incoming_update (demo_crypto []) (demo_update demo_payload) demo_docs
     (roster_new (Notebook []) 1 HostOnly) allow_all_boundaries [] [9] = ([], OutcomeMalformed)"
proof -
  obtain s' outcome where h: "handle_incoming_update (demo_crypto []) (demo_update demo_payload) demo_docs
     (roster_new (Notebook []) 1 HostOnly) allow_all_boundaries [] [9] = (s', outcome)"
    by (cases "handle_incoming_update (demo_crypto []) (demo_update demo_payload) demo_docs
     (roster_new (Notebook []) 1 HostOnly) allow_all_boundaries [] [9]")
  have "decode_compact (demo_crypto []) [9] \<noteq> Inr e" for e
    by (simp add: decode_compact_def table_decode_def ok_or_def)
  then show ?thesis using incoming_update_gate [OF h] h by simp
qed

end
