(* ===== verification/Share_Caption.thy ===== *)
theory Share_Caption
  imports Share_Room
begin

text \<open>
  \<^verbatim>\<open>crates/vt-share/src/caption.rs\<close>: the receiver of live captions. Each frame carries the whole
  tail of the transcript and a revision; the receiver keeps the newest frame it has seen.
\<close>

type_synonym u64 = "64 word"

record caption_line =
  cl_speaker :: "ustring option"
  cl_source_language :: ustring
  cl_source_text :: ustring
  cl_target_language :: "ustring option"
  cl_target_text :: "ustring option"
  cl_completion :: ustring

record caption_frame =
  cf_scope :: scope_id
  cf_preview_revision :: u64
  cf_lines :: "caption_line list"

record caption_receiver =
  cr_applied_revision :: "u64 option"
  cr_lines :: "caption_line list"

datatype frame_outcome = FrameApplied | Stale | WrongScope

definition caption_new :: caption_receiver where
  "caption_new = \<lparr>cr_applied_revision = None, cr_lines = []\<rparr>"

definition caption_accept ::
    "caption_receiver \<Rightarrow> caption_frame \<Rightarrow> scope_id \<Rightarrow> caption_receiver \<times> frame_outcome" where
  "caption_accept r frame expected_scope =
     (if cf_scope frame \<noteq> expected_scope then (r, WrongScope)
      else if (case cr_applied_revision r of
                 None \<Rightarrow> False | Some applied \<Rightarrow> cf_preview_revision frame \<le> applied)
      then (r, Stale)
      else (r\<lparr>cr_applied_revision := Some (cf_preview_revision frame), cr_lines := cf_lines frame\<rparr>,
            FrameApplied))"

definition caption_clear :: "caption_receiver \<Rightarrow> caption_receiver" where
  "caption_clear r = r\<lparr>cr_applied_revision := None, cr_lines := []\<rparr>"

lemma caption_clear_new: "caption_clear r = caption_new"
  by (cases r) (simp add: caption_clear_def caption_new_def)

text \<open>The newest frame of the scope among those received, in any order: the first to arrive when
  two have the same revision.\<close>

fun newest_frame :: "scope_id \<Rightarrow> caption_frame list \<Rightarrow> caption_frame option" where
  "newest_frame scope [] = None"
| "newest_frame scope (f # fs) =
     (if cf_scope f \<noteq> scope then newest_frame scope fs
      else case newest_frame scope fs of
             None \<Rightarrow> Some f
           | Some g \<Rightarrow> if cf_preview_revision g \<le> cf_preview_revision f then Some f else Some g)"

definition shows_frame :: "caption_receiver \<Rightarrow> caption_frame option \<Rightarrow> bool" where
  "shows_frame r f \<longleftrightarrow>
     (case f of
        None \<Rightarrow> cr_applied_revision r = None \<and> cr_lines r = []
      | Some f \<Rightarrow> cr_applied_revision r = Some (cf_preview_revision f) \<and> cr_lines r = cf_lines f)"

lemma newest_frame_facts:
  "newest_frame scope fs = Some f \<Longrightarrow> f \<in> set fs \<and> cf_scope f = scope \<and>
     (\<forall>g\<in>set fs. cf_scope g = scope \<longrightarrow> cf_preview_revision g \<le> cf_preview_revision f)"
  "newest_frame scope fs = None \<Longrightarrow> \<forall>g\<in>set fs. cf_scope g \<noteq> scope"
proof (induction fs arbitrary: f)
  case (Cons a fs)
  { case 1 then show ?case using Cons by (cases "newest_frame scope fs") (auto split: if_splits) }
  { case 2 then show ?case using Cons by (auto split: if_splits option.splits) }
qed simp_all

lemma caption_run:
  "foldl (\<lambda>r f. fst (caption_accept r f scope)) r fs =
     (case newest_frame scope fs of
        None \<Rightarrow> r
      | Some f \<Rightarrow> fst (caption_accept r f scope))"
proof (induction fs arbitrary: r)
  case (Cons a fs)
  show ?case
  proof (cases "newest_frame scope fs")
    case None
    then show ?thesis using Cons [of "fst (caption_accept r a scope)"] by (simp add: caption_accept_def)
  next
    case (Some g)
    then have "cf_scope g = scope" using newest_frame_facts(1) by blast
    with Some show ?thesis using Cons [of "fst (caption_accept r a scope)"]
      by (auto simp: caption_accept_def split: option.splits)
  qed
qed simp

text \<open>What a viewer sees after any frames is the newest frame of its scope among them, whatever
  was lost, repeated or overtaken on the way: two viewers that received frame lists with the same
  set of frames show the same captions when a revision names one frame, and dropping all but the
  newest frame changes nothing.\<close>

theorem caption_order_and_loss:
  assumes "\<forall>f\<in>set fs. \<forall>g\<in>set fs. cf_preview_revision f = cf_preview_revision g \<longrightarrow> f = g"
    and "set gs \<subseteq> set fs" "\<forall>f. newest_frame scope fs = Some f \<longrightarrow> f \<in> set gs"
  shows "foldl (\<lambda>r f. fst (caption_accept r f scope)) caption_new gs =
           foldl (\<lambda>r f. fst (caption_accept r f scope)) caption_new fs \<and>
         shows_frame (foldl (\<lambda>r f. fst (caption_accept r f scope)) caption_new fs) (newest_frame scope fs)"
proof
  have "newest_frame scope gs = newest_frame scope fs"
  proof (cases "newest_frame scope fs")
    case None
    then have "\<forall>g\<in>set gs. cf_scope g \<noteq> scope" using newest_frame_facts(2) assms(2) by blast
    then show ?thesis using None newest_frame_facts(1) [of scope gs] by (cases "newest_frame scope gs") auto
  next
    case (Some f)
    then have f: "f \<in> set gs" "cf_scope f = scope"
      using assms(3) newest_frame_facts(1) [of scope fs f] by auto
    then obtain g where g: "newest_frame scope gs = Some g"
      using newest_frame_facts(2) [of scope gs] by fastforce
    have "cf_preview_revision g = cf_preview_revision f"
      using newest_frame_facts(1) [OF Some] newest_frame_facts(1) [OF g] f assms(2)
      by (intro order_antisym) blast+
    then have "g = f"
      using newest_frame_facts(1) [OF g] assms(1,2) f by blast
    with g Some show ?thesis by simp
  qed
  then show "foldl (\<lambda>r f. fst (caption_accept r f scope)) caption_new gs =
           foldl (\<lambda>r f. fst (caption_accept r f scope)) caption_new fs"
    unfolding caption_run by simp
  show "shows_frame (foldl (\<lambda>r f. fst (caption_accept r f scope)) caption_new fs) (newest_frame scope fs)"
    unfolding caption_run using newest_frame_facts(1) [of scope fs]
    by (auto simp: shows_frame_def caption_accept_def caption_new_def split: option.splits)
qed

definition demo_frame :: "u64 \<Rightarrow> caption_frame" where
  "demo_frame n = \<lparr>cf_scope = Notebook [], cf_preview_revision = n, cf_lines =
     [\<lparr>cl_speaker = None, cl_source_language = [], cl_source_text = [unat n], cl_target_language = None,
       cl_target_text = None, cl_completion = lit ''partial''\<rparr>]\<rparr>"

theorem caption_order_and_loss_witness:
  "foldl (\<lambda>r f. fst (caption_accept r f (Notebook []))) caption_new [demo_frame 5, demo_frame 2] =
   foldl (\<lambda>r f. fst (caption_accept r f (Notebook []))) caption_new [demo_frame 2, demo_frame 3, demo_frame 5]"
  using caption_order_and_loss [of "[demo_frame 2, demo_frame 3, demo_frame 5]" "[demo_frame 5, demo_frame 2]"
      "Notebook []"]
  by (simp add: demo_frame_def)

end
