(* ===== verification/Share_Code.thy ===== *)
theory Share_Code
  imports Share_Permission
begin

text \<open>
  \<^verbatim>\<open>crates/vt-share/src/sharecode.rs\<close>: the share code, a ticket of the iroh-tickets crate. The
  crate's text coding (kind prefix and base32) and the postcard coding of the wire record are
  parameters; \<open>ticket_ok\<close> states what the code relies on: both decode what they encoded, and the
  text of a ticket consists of lower-case ASCII letters and digits.
\<close>

record 'h share_code =
  sc_host :: 'h
  sc_scope :: scope_id
  sc_room_secret :: room_secret
  sc_policy :: write_policy

record 'h share_code_wire =
  scw_host :: 'h
  scw_scope :: scope_id
  scw_room_secret :: bytes
  scw_host_only :: bool

datatype parse_error = ParsePostcard | ParseTicket ustring

record 'h ticket_lib =
  postcard_code :: "'h share_code_wire \<Rightarrow> bytes option"
  code_of_postcard :: "bytes \<Rightarrow> 'h share_code_wire option"
  ticket_text :: "ustring \<Rightarrow> bytes \<Rightarrow> ustring"
  ticket_of_text :: "ustring \<Rightarrow> ustring \<Rightarrow> parse_error + bytes"

definition ticket_char :: "uchar \<Rightarrow> bool" where
  "ticket_char c \<longleftrightarrow> (97 \<le> c \<and> c \<le> 122) \<or> (48 \<le> c \<and> c \<le> 57)"

definition ticket_ok :: "'h ticket_lib \<Rightarrow> bool" where
  "ticket_ok t \<longleftrightarrow>
     (\<forall>w b. postcard_code t w = Some b \<longrightarrow> code_of_postcard t b = Some w) \<and>
     (\<forall>k b. ticket_of_text t k (ticket_text t k b) = Inr b) \<and>
     (\<forall>k b. (\<forall>c\<in>set k. ticket_char c) \<longrightarrow> (\<forall>c\<in>set (ticket_text t k b). ticket_char c))"

definition share_code_new ::
    "'h \<Rightarrow> scope_id \<Rightarrow> room_secret \<Rightarrow> write_policy \<Rightarrow> 'h share_code" where
  "share_code_new host scope room_secret policy =
     \<lparr>sc_host = host, sc_scope = scope, sc_room_secret = room_secret, sc_policy = policy\<rparr>"

definition share_code_topic :: "(bytes \<Rightarrow> bytes) \<Rightarrow> 'h share_code \<Rightarrow> bytes" where
  "share_code_topic sha256 code = topic_id sha256 (sc_room_secret code) (sc_scope code)"

definition to_wire :: "'h share_code \<Rightarrow> 'h share_code_wire" where
  "to_wire code =
     \<lparr>scw_host = sc_host code, scw_scope = sc_scope code,
      scw_room_secret = secret_bytes (sc_room_secret code), scw_host_only = (sc_policy code = HostOnly)\<rparr>"

definition from_wire :: "'h share_code_wire \<Rightarrow> 'h share_code" where
  "from_wire w =
     \<lparr>sc_host = scw_host w, sc_scope = scw_scope w, sc_room_secret = RoomSecret (scw_room_secret w),
      sc_policy = (if scw_host_only w then HostOnly else Everyone)\<rparr>"

definition share_kind :: ustring where
  "share_kind = lit ''zulangueshare''"

text \<open>None is the panic of \<^verbatim>\<open>expect\<close>, should the serialisation fail.\<close>

definition encode_bytes :: "'h ticket_lib \<Rightarrow> 'h share_code \<Rightarrow> bytes option" where
  "encode_bytes t code = postcard_code t (to_wire code)"

definition decode_bytes :: "'h ticket_lib \<Rightarrow> bytes \<Rightarrow> parse_error + 'h share_code" where
  "decode_bytes t bs = and_then (ok_or ParsePostcard (code_of_postcard t bs)) (\<lambda>w. Inr (from_wire w))"

definition display_code :: "'h ticket_lib \<Rightarrow> 'h share_code \<Rightarrow> ustring option" where
  "display_code t code = map_option (ticket_text t share_kind) (encode_bytes t code)"

definition normalize_code :: "(uchar \<Rightarrow> ustring) \<Rightarrow> ustring \<Rightarrow> ustring" where
  "normalize_code table s = concat (map (to_lowercase table) (filter (\<lambda>c. \<not> is_whitespace c) s))"

definition parse_code ::
    "'h ticket_lib \<Rightarrow> (uchar \<Rightarrow> ustring) \<Rightarrow> ustring \<Rightarrow> parse_error + 'h share_code" where
  "parse_code t table s =
     and_then (ticket_of_text t share_kind (normalize_code table s)) (decode_bytes t)"

lemma from_to_wire [simp]: "from_wire (to_wire code) = code"
  by (cases code; cases "sc_policy code") (simp_all add: from_wire_def to_wire_def)

lemma decode_encode_bytes: "ticket_ok t \<Longrightarrow> encode_bytes t code = Some b \<Longrightarrow> decode_bytes t b = Inr code"
  by (simp add: ticket_ok_def decode_bytes_def encode_bytes_def)

lemma ticket_char_of_lower: "ticket_char (ascii_lower c) \<Longrightarrow> c < 128 \<and> \<not> is_whitespace c"
  by (auto simp: ticket_char_def ascii_lower_def is_whitespace_def split: if_splits)

lemma display_code_chars:
  assumes "ticket_ok t" "display_code t code = Some text"
  shows "\<forall>c\<in>set text. ticket_char c"
proof -
  have "\<forall>c\<in>set share_kind. ticket_char c"
    by (simp add: share_kind_def lit_def ticket_char_def)
  with assms show ?thesis by (auto simp: ticket_ok_def display_code_def)
qed

text \<open>The code a host displays parses back to the same host, scope, secret and policy, however
  it was pasted: with line breaks, spaces or any other white space put in anywhere, and with any of
  its letters turned to upper case.\<close>

theorem share_code_survives_pasting:
  assumes "ticket_ok t" "display_code t code = Some text"
    and "map ascii_lower (filter (\<lambda>c. \<not> is_whitespace c) pasted) = text"
  shows "parse_code t table pasted = Inr code"
proof -
  let ?s = "filter (\<lambda>c. \<not> is_whitespace c) pasted"
  from assms(2) obtain b where b: "encode_bytes t code = Some b" "text = ticket_text t share_kind b"
    by (auto simp: display_code_def)
  have "\<forall>c\<in>set ?s. ticket_char (ascii_lower c)"
    using display_code_chars [OF assms(1,2)] unfolding assms(3) [symmetric] by simp
  then have "\<forall>c\<in>set ?s. c < 128" using ticket_char_of_lower by blast
  then have "normalize_code table pasted = text"
    unfolding normalize_code_def using concat_to_lowercase_ascii [of ?s table] assms(3) by simp
  then show ?thesis
    using assms(1) decode_encode_bytes [OF assms(1) b(1)]
    by (simp add: parse_code_def b(2) ticket_ok_def)
qed

text \<open>A ticket coding for the witness: two letters per byte.\<close>

fun demo_letters :: "bytes \<Rightarrow> ustring" where
  "demo_letters [] = []"
| "demo_letters (b # bs) = (97 + unat b div 16) # (97 + unat b mod 16) # demo_letters bs"

fun demo_unletters :: "ustring \<Rightarrow> bytes" where
  "demo_unletters (x # y # s) = word_of_nat ((x - 97) * 16 + (y - 97)) # demo_unletters s"
| "demo_unletters _ = []"

lemma demo_unletters_letters [simp]: "demo_unletters (demo_letters bs) = bs"
proof (induction bs)
  case (Cons b bs)
  have "(unat b div 16) * 16 + unat b mod 16 = unat b" by simp
  then show ?case using Cons by (simp del: of_nat_add)
qed simp

lemma demo_letters_char: "\<forall>c\<in>set (demo_letters bs). ticket_char c"
proof (induction bs)
  case (Cons b bs)
  have "unat b < 256" using unsigned_less [of b] by simp
  then have "unat b div 16 < 16" by simp
  moreover have "unat b mod 16 < 16" by simp
  ultimately show ?case using Cons by (auto simp: ticket_char_def)
qed simp

definition demo_ticket :: "u8 share_code_wire list \<Rightarrow> u8 ticket_lib" where
  "demo_ticket table =
     \<lparr>postcard_code = table_encode table, code_of_postcard = table_decode table,
      ticket_text = (\<lambda>k b. k @ demo_letters b),
      ticket_of_text = (\<lambda>k s. if take (length k) s = k then Inr (demo_unletters (drop (length k) s))
                              else Inl (ParseTicket k))\<rparr>"

lemma demo_ticket_ok: "ticket_ok (demo_ticket table)"
  using demo_letters_char by (auto simp: ticket_ok_def demo_ticket_def table_decode_encode)

theorem share_code_survives_pasting_witness:
  "\<exists>code. code = share_code_new (9 :: u8) (Notebook [1]) (RoomSecret (replicate 32 7)) HostOnly \<and>
     parse_code (demo_ticket [to_wire code]) (\<lambda>c. [c]) (lit ''Zulan GUEshare  aA '') = Inr code"
proof -
  let ?code = "share_code_new (9 :: u8) (Notebook [1]) (RoomSecret (replicate 32 7)) HostOnly"
  have "display_code (demo_ticket [to_wire ?code]) ?code = Some (lit ''zulangueshareaa'')"
    by (simp add: display_code_def encode_bytes_def demo_ticket_def table_encode_def share_kind_def lit_def)
  moreover have "map ascii_lower (filter (\<lambda>c. \<not> is_whitespace c) (lit ''Zulan GUEshare  aA '')) =
      lit ''zulangueshareaa''"
    by (simp add: lit_def is_whitespace_def ascii_lower_def)
  ultimately have "parse_code (demo_ticket [to_wire ?code]) (\<lambda>c. [c]) (lit ''Zulan GUEshare  aA '') = Inr ?code"
    by (rule share_code_survives_pasting [OF demo_ticket_ok])
  then show ?thesis by blast
qed

end
