(* ===== verification/Task_Queue.thy ===== *)
theory Task_Queue
  imports Prelude
begin

text \<open>
  \<^verbatim>\<open>crates/vt-pipeline/src/task_queue.rs\<close>: the durable queue of post-recording transcription tasks.
  The SQLite table \<^verbatim>\<open>tasks\<close> is the list of its rows, each SQL statement is its effect on that list
  (a statement runs under the connection lock, so it is one step), and the semaphore is its number
  of free permits. The wall clock is an argument: milliseconds for leases, and \<^verbatim>\<open>datetime('now')\<close>,
  whose text order is its order in time, as the second. The serde\_json text of a payload is a
  parameter (\<open>payload_json\<close>). I/O errors of SQLite itself are not modelled.
\<close>

section \<open>Payloads\<close>

record remote_task_authorization =
  rta_schema :: ustring
  rta_provider :: ustring
  rta_data_class :: ustring
  rta_purpose :: ustring
  rta_authorized :: bool
  rta_authorized_at_ms :: int

datatype task_payload =
  Transcribe (session_id_of: ustring) (language_hint: "ustring option")
    (remote_authorization: "remote_task_authorization option")

datatype task_queue_error =
    DbError ustring
  | SerializeError ustring
  | NotFound ustring
  | ValidationFailed ustring

definition soniox_post_recording_at :: "int \<Rightarrow> remote_task_authorization" where
  "soniox_post_recording_at authorized_at_ms =
     \<lparr>rta_schema = lit ''zulangue.remote_processing_authorization.v1'',
      rta_provider = lit ''soniox'', rta_data_class = lit ''recorded_audio'',
      rta_purpose = lit ''post_recording_transcription'',
      rta_authorized = True, rta_authorized_at_ms = authorized_at_ms\<rparr>"

definition authorization_validate :: "remote_task_authorization \<Rightarrow> task_queue_error + unit" where
  "authorization_validate a =
     (let valid = rta_schema a = lit ''zulangue.remote_processing_authorization.v1'' \<and>
                  rta_provider a = lit ''soniox'' \<and>
                  rta_data_class a = lit ''recorded_audio'' \<and>
                  rta_purpose a = lit ''post_recording_transcription'' \<and>
                  rta_authorized a \<and> rta_authorized_at_ms a > 0
      in if valid then Inr ()
         else Inl (ValidationFailed (lit ''remote_authorization_invalid: transcription requires an explicit Soniox authorization snapshot'')))"

definition validate_payload :: "task_payload \<Rightarrow> task_queue_error + unit" where
  "validate_payload payload =
     (case payload of
        Transcribe session_id _ authorization \<Rightarrow>
          if trim session_id = []
          then Inl (ValidationFailed (lit ''transcribe session_id must not be empty''))
          else and_then
                 (ok_or (ValidationFailed (lit ''remote_authorization_required: transcription requires explicit authorization''))
                    authorization)
                 authorization_validate)"

record payload_json =
  to_json :: "task_payload \<Rightarrow> ustring"
  of_json :: "ustring \<Rightarrow> ustring + task_payload"

section \<open>The table\<close>

datatype task_status = Pending | Running | Completed | Failed

fun status_as_str :: "task_status \<Rightarrow> ustring" where
  "status_as_str Pending = lit ''pending''"
| "status_as_str Running = lit ''running''"
| "status_as_str Completed = lit ''completed''"
| "status_as_str Failed = lit ''failed''"

definition status_from_str :: "ustring \<Rightarrow> task_status" where
  "status_from_str v =
     (if v = lit ''running'' then Running
      else if v = lit ''completed'' then Completed
      else if v = lit ''failed'' then Failed
      else Pending)"

datatype task_priority = Low | Normal | High

fun priority_value :: "task_priority \<Rightarrow> int" where
  "priority_value Low = 0"
| "priority_value Normal = 5"
| "priority_value High = 10"

record task_row =
  tr_id :: ustring
  tr_payload :: ustring
  tr_status :: task_status
  tr_priority :: int
  tr_retry_count :: int
  tr_max_retries :: int
  tr_lease_expires_at_ms :: "int option"
  tr_last_heartbeat_at_ms :: "int option"
  tr_error_msg :: "ustring option"
  tr_created_at :: int
  tr_updated_at :: int

record claimed_task =
  ct_id :: ustring
  ct_payload :: task_payload
  ct_retry_count :: int

record task_queue =
  tq_rows :: "task_row list"
  tq_permits :: nat

definition datetime_now :: "int \<Rightarrow> int" where
  "datetime_now now_ms = now_ms div 1000"

text \<open>\<^verbatim>\<open>UPDATE tasks SET .. WHERE ..\<close> with the number of rows it changed, and \<^verbatim>\<open>DELETE\<close>.\<close>

definition sql_update ::
    "(task_row \<Rightarrow> bool) \<Rightarrow> (task_row \<Rightarrow> task_row) \<Rightarrow> task_queue \<Rightarrow> task_queue \<times> nat" where
  "sql_update cond set_row q =
     (q\<lparr>tq_rows := map (\<lambda>r. if cond r then set_row r else r) (tq_rows q)\<rparr>,
      length (filter cond (tq_rows q)))"

definition sql_delete :: "(task_row \<Rightarrow> bool) \<Rightarrow> task_queue \<Rightarrow> task_queue \<times> nat" where
  "sql_delete cond q =
     (q\<lparr>tq_rows := filter (\<lambda>r. \<not> cond r) (tq_rows q)\<rparr>, length (filter cond (tq_rows q)))"

lemma sql_update_simps [simp]:
  "tq_rows (fst (sql_update cond f q)) = map (\<lambda>r. if cond r then f r else r) (tq_rows q)"
  "tq_permits (fst (sql_update cond f q)) = tq_permits q"
  "snd (sql_update cond f q) = length (filter cond (tq_rows q))"
  by (simp_all add: sql_update_def)

lemma sql_delete_simps [simp]:
  "tq_rows (fst (sql_delete cond q)) = filter (\<lambda>r. \<not> cond r) (tq_rows q)"
  "tq_permits (fst (sql_delete cond q)) = tq_permits q"
  "snd (sql_delete cond q) = length (filter cond (tq_rows q))"
  by (simp_all add: sql_delete_def)

definition row_of :: "task_queue \<Rightarrow> ustring \<Rightarrow> task_row option" where
  "row_of q task_id = find (\<lambda>r. tr_id r = task_id) (tq_rows q)"

definition require_updated ::
    "task_queue \<Rightarrow> ustring \<Rightarrow> nat \<Rightarrow> ustring \<Rightarrow> task_queue_error + unit" where
  "require_updated q task_id updated action =
     (if updated = 1 then Inr ()
      else if row_of q task_id \<noteq> None
      then Inl (ValidationFailed
                  (lit ''task '' @ task_id @ lit '' cannot '' @ action @ lit '' from its current state''))
      else Inl (NotFound task_id))"

section \<open>Opening\<close>

text \<open>What \<^verbatim>\<open>initialize_task_schema\<close> sees of a database file: its \<^verbatim>\<open>user_version\<close>, whether it has
  objects of its own, and the rows of \<^verbatim>\<open>tasks\<close> when the table has the columns of version 1.\<close>

record task_database =
  db_user_version :: int
  db_has_user_objects :: bool
  db_tasks :: "task_row list option"

definition initialize_task_schema ::
    "(int \<Rightarrow> ustring) \<Rightarrow> task_database \<Rightarrow> task_database \<times> (task_queue_error + unit)" where
  "initialize_task_schema show_int db =
     (if db_user_version db = 0 \<and> db_has_user_objects db
      then (db, Inl (ValidationFailed (lit ''unsupported task schema 0; reset required'')))
      else if db_user_version db = 0
      then (\<lparr>db_user_version = 1, db_has_user_objects = True, db_tasks = Some []\<rparr>, Inr ())
      else if db_user_version db = 1
      then (db, if db_tasks db = None
                then Inl (ValidationFailed (lit ''task schema 1 is incomplete; reset required''))
                else Inr ())
      else (db, Inl (ValidationFailed (lit ''unsupported task schema '' @ show_int (db_user_version db) @
                                        lit ''; reset required''))))"

definition queue_new ::
    "(int \<Rightarrow> ustring) \<Rightarrow> task_database \<Rightarrow> task_database \<times> (task_queue_error + task_queue)" where
  "queue_new show_int db =
     (case initialize_task_schema show_int db of
        (db', Inl e) \<Rightarrow> (db', Inl e)
      | (db', Inr _) \<Rightarrow>
          (db', Inr \<lparr>tq_rows = (case db_tasks db' of None \<Rightarrow> [] | Some rows \<Rightarrow> rows), tq_permits = 2\<rparr>))"

definition recover_abandoned_tasks :: "int \<Rightarrow> task_queue \<Rightarrow> task_queue \<times> nat" where
  "recover_abandoned_tasks now q =
     sql_update (\<lambda>r. tr_status r = Running)
       (\<lambda>r. r\<lparr>tr_status := Pending, tr_lease_expires_at_ms := None, tr_last_heartbeat_at_ms := None,
             tr_updated_at := datetime_now now\<rparr>) q"

section \<open>Enqueueing\<close>

definition enqueue_with_stable_id_and_max_retries ::
    "payload_json \<Rightarrow> int \<Rightarrow> ustring \<Rightarrow> task_payload \<Rightarrow> task_priority \<Rightarrow> int \<Rightarrow> task_queue
     \<Rightarrow> task_queue \<times> (task_queue_error + (ustring \<times> bool))" where
  "enqueue_with_stable_id_and_max_retries j now stable_id payload priority max_retries q =
     (let stable_id = trim stable_id in
      if stable_id = [] then (q, Inl (ValidationFailed (lit ''stable task id must not be empty'')))
      else if \<not> (1 \<le> max_retries \<and> max_retries \<le> 20)
      then (q, Inl (ValidationFailed (lit ''max retries must be between 1 and 20'')))
      else
        (case validate_payload payload of
           Inl e \<Rightarrow> (q, Inl e)
         | Inr _ \<Rightarrow>
           (case row_of q stable_id of
              None \<Rightarrow>
                (q\<lparr>tq_rows := tq_rows q @
                     [\<lparr>tr_id = stable_id, tr_payload = to_json j payload, tr_status = Pending,
                       tr_priority = priority_value priority, tr_retry_count = 0,
                       tr_max_retries = max_retries, tr_lease_expires_at_ms = None,
                       tr_last_heartbeat_at_ms = None, tr_error_msg = None,
                       tr_created_at = datetime_now now, tr_updated_at = datetime_now now\<rparr>]\<rparr>,
                 Inr (stable_id, True))
            | Some existing \<Rightarrow>
                if tr_payload existing \<noteq> to_json j payload \<or> tr_max_retries existing \<noteq> max_retries
                then (q, Inl (ValidationFailed (lit ''stable task id '' @ stable_id @
                           lit '' is already bound to another payload or retry policy'')))
                else (q, Inr (stable_id, False)))))"

definition enqueue_with_stable_id ::
    "payload_json \<Rightarrow> int \<Rightarrow> ustring \<Rightarrow> task_payload \<Rightarrow> task_priority \<Rightarrow> task_queue
     \<Rightarrow> task_queue \<times> (task_queue_error + (ustring \<times> bool))" where
  "enqueue_with_stable_id j now stable_id payload priority q =
     enqueue_with_stable_id_and_max_retries j now stable_id payload priority 3 q"

definition enqueue_once_with_stable_id ::
    "payload_json \<Rightarrow> int \<Rightarrow> ustring \<Rightarrow> task_payload \<Rightarrow> task_priority \<Rightarrow> task_queue
     \<Rightarrow> task_queue \<times> (task_queue_error + (ustring \<times> bool))" where
  "enqueue_once_with_stable_id j now stable_id payload priority q =
     enqueue_with_stable_id_and_max_retries j now stable_id payload priority 1 q"

text \<open>The random identifier of \<^verbatim>\<open>Uuid::new_v4\<close> is the argument \<open>uuid\<close>.\<close>

definition enqueue_with_priority ::
    "payload_json \<Rightarrow> int \<Rightarrow> ustring \<Rightarrow> task_payload \<Rightarrow> task_priority \<Rightarrow> task_queue
     \<Rightarrow> task_queue \<times> (task_queue_error + ustring)" where
  "enqueue_with_priority j now uuid payload priority q =
     (case enqueue_with_stable_id j now uuid payload priority q of
        (q', r) \<Rightarrow> (q', and_then r (\<lambda>(id, _). Inr id)))"

definition enqueue ::
    "payload_json \<Rightarrow> int \<Rightarrow> ustring \<Rightarrow> task_payload \<Rightarrow> task_queue
     \<Rightarrow> task_queue \<times> (task_queue_error + ustring)" where
  "enqueue j now uuid payload q = enqueue_with_priority j now uuid payload Normal q"

section \<open>Claiming\<close>

definition claimable :: "int \<Rightarrow> task_row \<Rightarrow> bool" where
  "claimable now r \<longleftrightarrow>
     tr_status r = Pending \<or>
     (tr_status r = Running \<and> (case tr_lease_expires_at_ms r of None \<Rightarrow> False | Some l \<Rightarrow> l \<le> now))"

text \<open>\<^verbatim>\<open>ORDER BY priority DESC, created_at ASC LIMIT 1\<close>; of equals the first in table order.\<close>

definition ranks_before :: "task_row \<Rightarrow> task_row \<Rightarrow> bool" where
  "ranks_before r s \<longleftrightarrow>
     tr_priority r > tr_priority s \<or>
     (tr_priority r = tr_priority s \<and> tr_created_at r \<le> tr_created_at s)"

fun first_ranked :: "task_row list \<Rightarrow> task_row option" where
  "first_ranked [] = None"
| "first_ranked (r # rs) =
     (case first_ranked rs of
        None \<Rightarrow> Some r
      | Some s \<Rightarrow> if ranks_before r s then Some r else Some s)"

definition error_text :: "task_queue_error \<Rightarrow> ustring" where
  "error_text e =
     (case e of
        DbError m \<Rightarrow> lit ''database error: '' @ m
      | SerializeError m \<Rightarrow> lit ''serialization error: '' @ m
      | NotFound m \<Rightarrow> lit ''task not found: '' @ m
      | ValidationFailed m \<Rightarrow> lit ''validation error: '' @ m)"

definition decode_payload :: "payload_json \<Rightarrow> ustring \<Rightarrow> task_queue_error + task_payload" where
  "decode_payload j text =
     and_then (map_err SerializeError (of_json j text)) (\<lambda>payload.
       and_then (validate_payload payload) (\<lambda>_. Inr payload))"

definition quarantined :: "int \<Rightarrow> task_queue_error \<Rightarrow> task_row \<Rightarrow> task_row" where
  "quarantined now e r =
     r\<lparr>tr_status := Failed, tr_retry_count := tr_retry_count r + 1,
       tr_error_msg := Some (lit ''unsupported_task_payload: '' @ error_text e),
       tr_lease_expires_at_ms := None, tr_last_heartbeat_at_ms := None,
       tr_updated_at := datetime_now now\<rparr>"

definition quarantine :: "int \<Rightarrow> task_queue_error \<Rightarrow> ustring \<Rightarrow> task_queue \<Rightarrow> task_queue \<times> nat" where
  "quarantine now e task_id q = sql_update (\<lambda>r. tr_id r = task_id) (quarantined now e) q"

definition lease_until :: "int \<Rightarrow> 64 word \<Rightarrow> int" where
  "lease_until now lease_seconds =
     i64_saturating_add now (i64_saturating_mul (sint lease_seconds) 1000)"

definition leased :: "int \<Rightarrow> 64 word \<Rightarrow> task_row \<Rightarrow> task_row" where
  "leased now lease_seconds r =
     r\<lparr>tr_status := Running, tr_lease_expires_at_ms := Some (lease_until now lease_seconds),
       tr_last_heartbeat_at_ms := Some now, tr_updated_at := datetime_now now\<rparr>"

definition take_lease :: "int \<Rightarrow> 64 word \<Rightarrow> ustring \<Rightarrow> task_queue \<Rightarrow> task_queue \<times> nat" where
  "take_lease now lease_seconds task_id q =
     sql_update (\<lambda>r. tr_id r = task_id \<and> claimable now r) (leased now lease_seconds) q"

lemma row_change_id [simp]:
  "tr_id (quarantined now e r) = tr_id r" "tr_id (leased now l r) = tr_id r"
  "tr_payload (quarantined now e r) = tr_payload r" "tr_payload (leased now l r) = tr_payload r"
  "tr_status (quarantined now e r) = Failed" "tr_status (leased now l r) = Running"
  by (simp_all add: quarantined_def leased_def)

lemma first_ranked_mem: "first_ranked rs = Some r \<Longrightarrow> r \<in> set rs"
  by (induction rs arbitrary: r) (auto split: option.splits if_splits)

definition open_rows :: "task_queue \<Rightarrow> nat" where
  "open_rows q = length (filter (\<lambda>r. tr_status r = Pending \<or> tr_status r = Running) (tq_rows q))"

lemma length_filter_map_less:
  "r \<in> set rs \<Longrightarrow> p r \<Longrightarrow> \<not> p (f r) \<Longrightarrow> (\<And>s. p (f s) \<Longrightarrow> p s) \<Longrightarrow>
   length (filter p (map f rs)) < length (filter p rs)"
proof (induction rs)
  case (Cons a rs)
  have le: "length (filter p (map f xs)) \<le> length (filter p xs)" for xs
    by (induction xs) (use Cons.prems(4) in auto)
  show ?case
  proof (cases "r = a")
    case True
    then show ?thesis using Cons.prems(2,3) le [of rs] by simp
  next
    case False
    then show ?thesis using Cons by auto
  qed
qed simp

lemma quarantine_open_rows:
  assumes "r \<in> set (tq_rows q)" "tr_status r = Pending \<or> tr_status r = Running" "tr_id r = i"
  shows "open_rows (fst (quarantine now e i q)) < open_rows q"
  unfolding open_rows_def quarantine_def sql_update_simps
  by (rule length_filter_map_less [of r]) (use assms in \<open>auto split: if_splits\<close>)

text \<open>The loop of \<^verbatim>\<open>claim_next\<close>: the \<open>i\<close>-th turn reads the clock \<open>clock i\<close>. A row whose payload does not
  decode or validate is failed and the next one is tried.\<close>

function claim_loop ::
    "payload_json \<Rightarrow> (nat \<Rightarrow> int) \<Rightarrow> nat \<Rightarrow> 64 word \<Rightarrow> task_queue \<Rightarrow> task_queue \<times> claimed_task option" where
  "claim_loop j clock i lease_seconds q =
     (case first_ranked (filter (claimable (clock i)) (tq_rows q)) of
        None \<Rightarrow> (q, None)
      | Some row \<Rightarrow>
        (case decode_payload j (tr_payload row) of
           Inl e \<Rightarrow> claim_loop j clock (Suc i) lease_seconds (fst (quarantine (clock i) e (tr_id row) q))
         | Inr payload \<Rightarrow>
           (case take_lease (clock i) lease_seconds (tr_id row) q of
              (q', updated) \<Rightarrow>
                if updated = 0 then claim_loop j clock (Suc i) lease_seconds q'
                else (q', Some \<lparr>ct_id = tr_id row, ct_payload = payload,
                                ct_retry_count = tr_retry_count row\<rparr>))))"
  by pat_completeness auto

lemma selected_claimable:
  "first_ranked (filter (claimable now) rs) = Some row \<Longrightarrow> row \<in> set rs \<and> claimable now row"
  by (auto dest: first_ranked_mem)

lemma take_lease_updates:
  "row \<in> set (tq_rows q) \<Longrightarrow> claimable now row \<Longrightarrow> snd (take_lease now l (tr_id row) q) \<noteq> 0"
  by (auto simp: take_lease_def sql_update_def filter_empty_conv)

termination claim_loop
  apply (relation "measure (\<lambda>(j, clock, i, l, q). open_rows q)")
    apply simp
  subgoal premises p for j clock i l q row e
    using quarantine_open_rows [of row q "tr_id row" "clock i" e] selected_claimable [OF p(1)]
    by (auto simp: claimable_def)
  subgoal premises p for j clock i l q row payload q' updated
    using take_lease_updates [of row q "clock i" l] selected_claimable [OF p(1)] p(3,4)
    by (metis snd_conv)
  done

declare claim_loop.simps [simp del]

definition claim_next ::
    "payload_json \<Rightarrow> (nat \<Rightarrow> int) \<Rightarrow> 64 word \<Rightarrow> task_queue \<Rightarrow> task_queue \<times> claimed_task option" where
  "claim_next j clock lease_seconds q =
     (if tq_permits q = 0 then (q, None)
      else
        (case claim_loop j clock 0 lease_seconds q of
           (q', None) \<Rightarrow> (q', None)
         | (q', Some t) \<Rightarrow> (q'\<lparr>tq_permits := tq_permits q' - 1\<rparr>, Some t)))"

definition claim_by_id ::
    "payload_json \<Rightarrow> int \<Rightarrow> ustring \<Rightarrow> 64 word \<Rightarrow> task_queue
     \<Rightarrow> task_queue \<times> (task_queue_error + claimed_task option)" where
  "claim_by_id j now task_id lease_seconds q =
     (if tq_permits q = 0 then (q, Inr None)
      else
        (case find (\<lambda>r. tr_id r = task_id \<and> claimable now r) (tq_rows q) of
           None \<Rightarrow> (q, Inr None)
         | Some row \<Rightarrow>
           (case decode_payload j (tr_payload row) of
              Inl e \<Rightarrow> (q, Inl e)
            | Inr payload \<Rightarrow>
              (case take_lease now lease_seconds (tr_id row) q of
                 (q', updated) \<Rightarrow>
                   if updated = 0 then (q', Inr None)
                   else (q'\<lparr>tq_permits := tq_permits q' - 1\<rparr>,
                         Inr (Some \<lparr>ct_id = tr_id row, ct_payload = payload,
                                    ct_retry_count = tr_retry_count row\<rparr>))))))"

text \<open>Dropping a claimed task gives its permit back.\<close>

definition drop_task :: "claimed_task \<Rightarrow> task_queue \<Rightarrow> task_queue" where
  "drop_task t q = q\<lparr>tq_permits := tq_permits q + 1\<rparr>"

section \<open>Settling\<close>

definition heartbeat ::
    "int \<Rightarrow> ustring \<Rightarrow> 64 word \<Rightarrow> task_queue \<Rightarrow> task_queue \<times> (task_queue_error + unit)" where
  "heartbeat now task_id lease_seconds q =
     (case sql_update (\<lambda>r. tr_id r = task_id \<and> tr_status r = Running)
             (\<lambda>r. r\<lparr>tr_lease_expires_at_ms := Some (lease_until now lease_seconds),
                   tr_last_heartbeat_at_ms := Some now, tr_updated_at := datetime_now now\<rparr>) q of
        (q', updated) \<Rightarrow> (q', require_updated q' task_id updated (lit ''heartbeat'')))"

definition complete ::
    "int \<Rightarrow> ustring \<Rightarrow> task_queue \<Rightarrow> task_queue \<times> (task_queue_error + unit)" where
  "complete now task_id q =
     (case sql_update (\<lambda>r. tr_id r = task_id \<and> tr_status r = Running)
             (\<lambda>r. r\<lparr>tr_status := Completed, tr_lease_expires_at_ms := None,
                   tr_last_heartbeat_at_ms := None, tr_error_msg := None,
                   tr_updated_at := datetime_now now\<rparr>) q of
        (q', updated) \<Rightarrow> (q', require_updated q' task_id updated (lit ''complete'')))"

definition complete_from_durable_provider_receipt ::
    "int \<Rightarrow> ustring \<Rightarrow> task_queue \<Rightarrow> task_queue \<times> (task_queue_error + unit)" where
  "complete_from_durable_provider_receipt now task_id q =
     (case sql_update (\<lambda>r. tr_id r = task_id \<and> tr_status r \<in> {Pending, Running, Failed})
             (\<lambda>r. r\<lparr>tr_status := Completed, tr_lease_expires_at_ms := None,
                   tr_last_heartbeat_at_ms := None, tr_error_msg := None,
                   tr_updated_at := datetime_now now\<rparr>) q of
        (q', updated) \<Rightarrow>
          (q', if updated = 1 then Inr ()
               else (case row_of q' task_id of
                       Some r \<Rightarrow>
                         if tr_status r = Completed then Inr ()
                         else Inl (ValidationFailed (lit ''cannot complete task '' @ task_id @
                                lit '' from durable provider receipt while status is '' @
                                status_as_str (tr_status r)))
                     | None \<Rightarrow> Inl (NotFound task_id))))"

definition release_without_retry ::
    "int \<Rightarrow> ustring \<Rightarrow> task_queue \<Rightarrow> task_queue \<times> (task_queue_error + unit)" where
  "release_without_retry now task_id q =
     (case sql_update (\<lambda>r. tr_id r = task_id \<and> tr_status r = Running)
             (\<lambda>r. r\<lparr>tr_status := Pending, tr_lease_expires_at_ms := None,
                   tr_last_heartbeat_at_ms := None, tr_updated_at := datetime_now now\<rparr>) q of
        (q', updated) \<Rightarrow> (q', require_updated q' task_id updated (lit ''release without retry'')))"

definition fail ::
    "int \<Rightarrow> ustring \<Rightarrow> ustring \<Rightarrow> task_queue \<Rightarrow> task_queue \<times> (task_queue_error + unit)" where
  "fail now task_id err q =
     (case row_of q task_id of
        None \<Rightarrow> (q, Inl (NotFound task_id))
      | Some row \<Rightarrow>
        (let status = (if tr_retry_count row + 1 \<ge> tr_max_retries row then Failed else Pending) in
         case sql_update (\<lambda>r. tr_id r = task_id \<and> tr_status r = Running)
                (\<lambda>r. r\<lparr>tr_status := status, tr_retry_count := tr_retry_count r + 1,
                      tr_lease_expires_at_ms := None, tr_last_heartbeat_at_ms := None,
                      tr_error_msg := Some err, tr_updated_at := datetime_now now\<rparr>) q of
           (q', updated) \<Rightarrow> (q', require_updated q' task_id updated (lit ''fail''))))"

definition fail_terminal ::
    "int \<Rightarrow> ustring \<Rightarrow> ustring \<Rightarrow> task_queue \<Rightarrow> task_queue \<times> (task_queue_error + unit)" where
  "fail_terminal now task_id err q =
     (case sql_update (\<lambda>r. tr_id r = task_id)
             (\<lambda>r. r\<lparr>tr_status := Failed, tr_retry_count := tr_retry_count r + 1,
                   tr_lease_expires_at_ms := None, tr_last_heartbeat_at_ms := None,
                   tr_error_msg := Some err, tr_updated_at := datetime_now now\<rparr>) q of
        (q', updated) \<Rightarrow> (q', require_updated q' task_id updated (lit ''fail terminal'')))"

definition fail_local_preflight ::
    "int \<Rightarrow> ustring \<Rightarrow> ustring \<Rightarrow> task_queue \<Rightarrow> task_queue \<times> (task_queue_error + unit)" where
  "fail_local_preflight now task_id err q =
     (case sql_update (\<lambda>r. tr_id r = task_id \<and> tr_status r = Running)
             (\<lambda>r. r\<lparr>tr_status := Failed, tr_lease_expires_at_ms := None,
                   tr_last_heartbeat_at_ms := None, tr_error_msg := Some err,
                   tr_updated_at := datetime_now now\<rparr>) q of
        (q', updated) \<Rightarrow> (q', require_updated q' task_id updated (lit ''fail local preflight'')))"

section \<open>Purging and reading\<close>

definition purge_task :: "ustring \<Rightarrow> task_queue \<Rightarrow> task_queue \<times> bool" where
  "purge_task task_id q =
     (case sql_delete (\<lambda>r. tr_id r = task_id) q of (q', deleted) \<Rightarrow> (q', deleted = 1))"

fun matching_ids ::
    "payload_json \<Rightarrow> ustring \<Rightarrow> task_row list \<Rightarrow> task_queue_error + ustring list" where
  "matching_ids j session_id [] = Inr []"
| "matching_ids j session_id (r # rs) =
     (case of_json j (tr_payload r) of
        Inl e \<Rightarrow> Inl (SerializeError (lit ''cannot audit task '' @ tr_id r @
                                     lit '' during session purge: '' @ e))
      | Inr payload \<Rightarrow>
          and_then (matching_ids j session_id rs) (\<lambda>ids.
            Inr (if session_id_of payload = session_id then tr_id r # ids else ids)))"

text \<open>\<^verbatim>\<open>ORDER BY id\<close> compares the bytes of the text, which is the order of its scalars.\<close>

definition matching_task_ids ::
    "payload_json \<Rightarrow> ustring \<Rightarrow> task_queue \<Rightarrow> task_queue_error + ustring list" where
  "matching_task_ids j session_id q = matching_ids j session_id (sort_key tr_id (tq_rows q))"

definition list_session_task_ids ::
    "payload_json \<Rightarrow> ustring \<Rightarrow> task_queue \<Rightarrow> task_queue_error + ustring list" where
  "list_session_task_ids j session_id q = matching_task_ids j session_id q"

definition purge_session ::
    "payload_json \<Rightarrow> ustring \<Rightarrow> task_queue \<Rightarrow> task_queue \<times> (task_queue_error + nat)" where
  "purge_session j session_id q =
     (case matching_task_ids j session_id q of
        Inl e \<Rightarrow> (q, Inl e)
      | Inr ids \<Rightarrow>
          (fold (\<lambda>i q. fst (sql_delete (\<lambda>r. tr_id r = i) q)) ids q, Inr (length ids)))"

definition get_status :: "ustring \<Rightarrow> task_queue \<Rightarrow> task_queue_error + task_status" where
  "get_status task_id q =
     (case row_of q task_id of
        None \<Rightarrow> Inl (NotFound task_id)
      | Some r \<Rightarrow> Inr (status_from_str (status_as_str (tr_status r))))"

record task_info =
  ti_id :: ustring
  ti_payload_json :: ustring
  ti_status :: ustring
  ti_retry_count :: int
  ti_error_msg :: "ustring option"
  ti_lease_expires_at_ms :: "int option"
  ti_last_heartbeat_at_ms :: "int option"

definition task_info_from_row :: "task_row \<Rightarrow> task_info" where
  "task_info_from_row r =
     \<lparr>ti_id = tr_id r, ti_payload_json = tr_payload r, ti_status = status_as_str (tr_status r),
      ti_retry_count = tr_retry_count r, ti_error_msg = tr_error_msg r,
      ti_lease_expires_at_ms = tr_lease_expires_at_ms r,
      ti_last_heartbeat_at_ms = tr_last_heartbeat_at_ms r\<rparr>"

definition get_task :: "ustring \<Rightarrow> task_queue \<Rightarrow> task_queue_error + task_info" where
  "get_task task_id q = ok_or (NotFound task_id) (map_option task_info_from_row (row_of q task_id))"

definition list_tasks ::
    "ustring option \<Rightarrow> task_queue \<Rightarrow> task_queue_error + task_info list" where
  "list_tasks status_filter q =
     (case status_filter of
        None \<Rightarrow> Inr (map task_info_from_row (sort_key (\<lambda>r. - tr_created_at r) (tq_rows q)))
      | Some status \<Rightarrow>
          if status \<notin> {lit ''pending'', lit ''running'', lit ''completed'', lit ''failed''}
          then Inl (ValidationFailed (lit ''invalid task status filter: '' @ status))
          else Inr (map task_info_from_row (sort_key (\<lambda>r. - tr_created_at r)
                      (filter (\<lambda>r. status_as_str (tr_status r) = status) (tq_rows q)))))"

end
