(* ===== verification/Task_Queue_Laws.thy ===== *)
theory Task_Queue_Laws
  imports Task_Queue
begin

text \<open>
  What the task queue guarantees: the invariant of its rows and permits over every sequence of
  calls, which task a claim hands out, the exclusiveness of a lease, the retry budget and the
  finality of settled tasks, idempotent enqueueing and exact purging.
\<close>

section \<open>Rows under updates\<close>

definition row_inv :: "task_row \<Rightarrow> bool" where
  "row_inv r \<longleftrightarrow>
     tr_id r \<noteq> [] \<and> 1 \<le> tr_max_retries r \<and> tr_max_retries r \<le> 20 \<and> 0 \<le> tr_retry_count r \<and>
     tr_priority r \<in> {0, 5, 10} \<and>
     (tr_lease_expires_at_ms r = None \<longleftrightarrow> tr_status r \<noteq> Running) \<and>
     (tr_last_heartbeat_at_ms r = None \<longleftrightarrow> tr_status r \<noteq> Running) \<and>
     (tr_status r = Pending \<or> tr_status r = Running \<longrightarrow> tr_retry_count r < tr_max_retries r)"

definition queue_inv :: "task_queue \<Rightarrow> bool" where
  "queue_inv q \<longleftrightarrow> distinct (map tr_id (tq_rows q)) \<and> (\<forall>r\<in>set (tq_rows q). row_inv r)"

lemma find_map:
  "(\<And>r. p (f r) = p r) \<Longrightarrow> find p (map f rs) = map_option f (find p rs)"
  by (induction rs) auto

lemma row_of_sql_update:
  "(\<And>r. tr_id (f r) = tr_id r) \<Longrightarrow>
   row_of (fst (sql_update cond f q)) i = map_option (\<lambda>r. if cond r then f r else r) (row_of q i)"
  unfolding row_of_def sql_update_simps by (rule find_map) simp

lemma row_of_Some:
  "queue_inv q \<Longrightarrow> row_of q i = Some r \<longleftrightarrow> r \<in> set (tq_rows q) \<and> tr_id r = i"
proof -
  have "distinct (map tr_id rs) \<Longrightarrow> find (\<lambda>r. tr_id r = i) rs = Some r \<longleftrightarrow> r \<in> set rs \<and> tr_id r = i" for rs
    by (induction rs) auto
  then show "queue_inv q \<Longrightarrow> ?thesis" by (simp add: queue_inv_def row_of_def)
qed

lemma row_unique:
  "queue_inv q \<Longrightarrow> r \<in> set (tq_rows q) \<Longrightarrow> s \<in> set (tq_rows q) \<Longrightarrow> tr_id r = tr_id s \<Longrightarrow> r = s"
  by (auto simp: queue_inv_def distinct_map dest: inj_onD)

lemma row_of_mem: "row_of q i = Some r \<Longrightarrow> r \<in> set (tq_rows q) \<and> tr_id r = i"
  by (auto simp: row_of_def find_Some_iff)

lemma row_of_None: "row_of q i = None \<longleftrightarrow> i \<notin> tr_id ` set (tq_rows q)"
  by (auto simp: row_of_def find_None_iff)

lemma queue_inv_sql_update:
  assumes "queue_inv q" "\<And>r. tr_id (f r) = tr_id r"
    and "\<And>r. r \<in> set (tq_rows q) \<Longrightarrow> row_inv r \<Longrightarrow> cond r \<Longrightarrow> row_inv (f r)"
  shows "queue_inv (fst (sql_update cond f q))"
proof -
  have "map tr_id (tq_rows (fst (sql_update cond f q))) = map tr_id (tq_rows q)"
    by (simp add: assms(2))
  then show ?thesis using assms by (auto simp: queue_inv_def simp del: map_map)
qed

lemma queue_inv_sql_delete: "queue_inv q \<Longrightarrow> queue_inv (fst (sql_delete cond q))"
  by (auto simp: queue_inv_def distinct_map_filter)

text \<open>How a row may change while it stays in the table.\<close>

definition settled :: "task_row \<Rightarrow> bool" where
  "settled r \<longleftrightarrow> tr_status r = Completed \<or> tr_status r = Failed"

definition evolves :: "task_row \<Rightarrow> task_row \<Rightarrow> bool" where
  "evolves r r' \<longleftrightarrow>
     tr_id r' = tr_id r \<and> tr_payload r' = tr_payload r \<and> tr_max_retries r' = tr_max_retries r \<and>
     tr_priority r' = tr_priority r \<and> tr_created_at r' = tr_created_at r \<and>
     tr_retry_count r \<le> tr_retry_count r' \<and> (settled r \<longrightarrow> settled r')"

lemma evolves_refl [simp]: "evolves r r"
  by (simp add: evolves_def)

lemma evolves_trans: "evolves r s \<Longrightarrow> evolves s t \<Longrightarrow> evolves r t"
  by (simp add: evolves_def)

definition rows_evolve :: "task_queue \<Rightarrow> task_queue \<Rightarrow> bool" where
  "rows_evolve q q' \<longleftrightarrow> (\<forall>i r. row_of q i = Some r \<longrightarrow> (\<exists>r'. row_of q' i = Some r' \<and> evolves r r'))"

lemma rows_evolve_refl [simp]: "rows_evolve q q"
  by (simp add: rows_evolve_def)

lemma rows_evolve_trans: "rows_evolve q q' \<Longrightarrow> rows_evolve q' q'' \<Longrightarrow> rows_evolve q q''"
  unfolding rows_evolve_def by (meson evolves_trans)

lemma rows_evolve_sql_update:
  "(\<And>r. cond r \<Longrightarrow> evolves r (f r)) \<Longrightarrow> (\<And>r. tr_id (f r) = tr_id r) \<Longrightarrow>
   rows_evolve q (fst (sql_update cond f q))"
  by (auto simp: rows_evolve_def row_of_sql_update)

section \<open>Each operation keeps the invariant\<close>

lemma queue_inv_recover: "queue_inv q \<Longrightarrow> queue_inv (fst (recover_abandoned_tasks now q))"
  unfolding recover_abandoned_tasks_def by (rule queue_inv_sql_update) (auto simp: row_inv_def)

lemma queue_inv_quarantine: "queue_inv q \<Longrightarrow> queue_inv (fst (quarantine now e i q))"
  unfolding quarantine_def by (rule queue_inv_sql_update) (auto simp: row_inv_def quarantined_def)

lemma queue_inv_take_lease: "queue_inv q \<Longrightarrow> queue_inv (fst (take_lease now l i q))"
  unfolding take_lease_def by (rule queue_inv_sql_update) (auto simp: row_inv_def claimable_def leased_def)

lemma rows_evolve_recover: "rows_evolve q (fst (recover_abandoned_tasks now q))"
  unfolding recover_abandoned_tasks_def
  by (rule rows_evolve_sql_update) (auto simp: evolves_def settled_def)

lemma rows_evolve_quarantine: "rows_evolve q (fst (quarantine now e i q))"
  unfolding quarantine_def by (rule rows_evolve_sql_update) (auto simp: evolves_def settled_def quarantined_def)

lemma rows_evolve_take_lease: "rows_evolve q (fst (take_lease now l i q))"
  unfolding take_lease_def
  by (rule rows_evolve_sql_update) (auto simp: evolves_def settled_def claimable_def leased_def)

lemma queue_inv_enqueue:
  "queue_inv q \<Longrightarrow> queue_inv (fst (enqueue_with_stable_id_and_max_retries j now i p pr m q))"
  by (cases pr) (auto simp: enqueue_with_stable_id_and_max_retries_def Let_def queue_inv_def row_inv_def
      row_of_None image_iff split: sum.splits option.splits if_splits)

lemma enqueue_permits:
  "tq_permits (fst (enqueue_with_stable_id_and_max_retries j now i p pr m q)) = tq_permits q"
  by (simp add: enqueue_with_stable_id_and_max_retries_def Let_def split: sum.splits option.splits)

lemma rows_evolve_enqueue:
  "rows_evolve q (fst (enqueue_with_stable_id_and_max_retries j now i p pr m q))"
proof -
  have *: "find P (rs @ [r]) = Some s" if "find P rs = Some s" for P :: "task_row \<Rightarrow> bool" and rs r s
    using that by (induction rs) (auto split: if_splits)
  show ?thesis
    by (auto simp: enqueue_with_stable_id_and_max_retries_def Let_def rows_evolve_def row_of_def *
        split: sum.splits option.splits if_splits)
qed

section \<open>The claim loop\<close>

lemma claim_loop_turn:
  "claim_loop j clock i l q =
     (case first_ranked (filter (claimable (clock i)) (tq_rows q)) of
        None \<Rightarrow> (q, None)
      | Some row \<Rightarrow>
        (case decode_payload j (tr_payload row) of
           Inl e \<Rightarrow> claim_loop j clock (Suc i) l (fst (quarantine (clock i) e (tr_id row) q))
         | Inr payload \<Rightarrow>
             (fst (take_lease (clock i) l (tr_id row) q),
              Some \<lparr>ct_id = tr_id row, ct_payload = payload, ct_retry_count = tr_retry_count row\<rparr>)))"
proof (cases "first_ranked (filter (claimable (clock i)) (tq_rows q))")
  case (Some row)
  have "snd (take_lease (clock i) l (tr_id row) q) \<noteq> 0"
    using take_lease_updates selected_claimable [OF Some] by blast
  then show ?thesis
    using Some by (subst claim_loop.simps) (auto split: sum.splits prod.splits)
qed (subst claim_loop.simps, simp)

lemma claim_loop_ind:
  assumes none: "\<And>i q. first_ranked (filter (claimable (clock i)) (tq_rows q)) = None \<Longrightarrow> P i q (q, None)"
    and bad: "\<And>i q row e res. first_ranked (filter (claimable (clock i)) (tq_rows q)) = Some row \<Longrightarrow>
      decode_payload j (tr_payload row) = Inl e \<Longrightarrow>
      P (Suc i) (fst (quarantine (clock i) e (tr_id row) q)) res \<Longrightarrow> P i q res"
    and good: "\<And>i q row payload. first_ranked (filter (claimable (clock i)) (tq_rows q)) = Some row \<Longrightarrow>
      decode_payload j (tr_payload row) = Inr payload \<Longrightarrow>
      P i q (fst (take_lease (clock i) l (tr_id row) q),
             Some \<lparr>ct_id = tr_id row, ct_payload = payload, ct_retry_count = tr_retry_count row\<rparr>)"
  shows "P i q (claim_loop j clock i l q)"
proof (induction "open_rows q" arbitrary: i q rule: less_induct)
  case less
  show ?case
  proof (cases "first_ranked (filter (claimable (clock i)) (tq_rows q))")
    case None
    then show ?thesis using none by (subst claim_loop_turn) simp
  next
    case (Some row)
    show ?thesis
    proof (cases "decode_payload j (tr_payload row)")
      case (Inl e)
      have "open_rows (fst (quarantine (clock i) e (tr_id row) q)) < open_rows q"
        using selected_claimable [OF Some] by (intro quarantine_open_rows) (auto simp: claimable_def)
      from bad [OF Some Inl less [OF this]] show ?thesis
        using Some Inl by (subst claim_loop_turn) simp
    next
      case (Inr payload)
      then show ?thesis using good [OF Some Inr] Some by (subst claim_loop_turn) simp
    qed
  qed
qed

lemma queue_inv_claim_loop: "queue_inv q \<Longrightarrow> queue_inv (fst (claim_loop j clock i l q))"
  by (rule claim_loop_ind [where P = "\<lambda>i q res. queue_inv q \<longrightarrow> queue_inv (fst res)", rule_format])
    (simp_all add: queue_inv_quarantine queue_inv_take_lease)

lemma rows_evolve_claim_loop: "rows_evolve q (fst (claim_loop j clock i l q))"
  by (rule claim_loop_ind [where P = "\<lambda>i q res. rows_evolve q (fst res)"])
    (auto intro: rows_evolve_take_lease rows_evolve_trans [OF rows_evolve_quarantine])

lemma claim_loop_permits: "tq_permits (fst (claim_loop j clock i l q)) = tq_permits q"
  by (rule claim_loop_ind [where P = "\<lambda>i q res. tq_permits (fst res) = tq_permits q"])
    (simp_all add: quarantine_def take_lease_def)

section \<open>Which task is handed out\<close>

lemma ranks_before_refl [simp]: "ranks_before r r"
  by (simp add: ranks_before_def)

lemma first_ranked_least: "first_ranked rs = Some r \<Longrightarrow> s \<in> set rs \<Longrightarrow> ranks_before r s"
proof (induction rs arbitrary: r s)
  case (Cons a rs)
  show ?case
  proof (cases "first_ranked rs")
    case None
    then have "rs = []" by (cases rs) (auto split: option.splits if_splits)
    with Cons None show ?thesis by simp
  next
    case (Some t)
    then show ?thesis using Cons.prems Cons.IH [OF Some]
      by (fastforce simp: ranks_before_def split: if_splits)
  qed
qed simp

lemma first_ranked_None: "first_ranked rs = None \<longleftrightarrow> rs = []"
  by (cases rs) (auto split: option.splits if_splits)

definition handed_out :: "payload_json \<Rightarrow> (nat \<Rightarrow> int) \<Rightarrow> 64 word \<Rightarrow> nat \<Rightarrow> task_queue
    \<Rightarrow> task_queue \<times> claimed_task option \<Rightarrow> bool" where
  "handed_out j clock l i q res \<longleftrightarrow>
     (\<forall>t. snd res = Some t \<longrightarrow>
        (\<exists>row k. i \<le> k \<and> row_of q (ct_id t) = Some row \<and> claimable (clock k) row \<and>
           decode_payload j (tr_payload row) = Inr (ct_payload t) \<and> ct_retry_count t = tr_retry_count row \<and>
           row_of (fst res) (ct_id t) = Some (leased (clock k) l row) \<and>
           (\<forall>s\<in>set (tq_rows q). claimable (clock i) s \<and> (\<exists>p. decode_payload j (tr_payload s) = Inr p) \<longrightarrow>
              ranks_before row s)))"

definition left_alone :: "payload_json \<Rightarrow> (nat \<Rightarrow> int) \<Rightarrow> nat \<Rightarrow> task_queue
    \<Rightarrow> task_queue \<times> claimed_task option \<Rightarrow> bool" where
  "left_alone j clock i q res \<longleftrightarrow>
     (\<forall>id row. row_of q id = Some row \<and> (\<forall>t. snd res = Some t \<longrightarrow> ct_id t \<noteq> id) \<longrightarrow>
        row_of (fst res) id = Some row \<or>
        (\<exists>k e. i \<le> k \<and> claimable (clock k) row \<and> decode_payload j (tr_payload row) = Inl e \<and>
           row_of (fst res) id = Some (quarantined (clock k) e row) \<and>
           (\<forall>s\<in>set (tq_rows q). claimable (clock k) s \<and> (\<exists>p. decode_payload j (tr_payload s) = Inr p) \<longrightarrow>
              ranks_before row s)))"

definition nothing_missed :: "payload_json \<Rightarrow> (nat \<Rightarrow> int) \<Rightarrow> nat \<Rightarrow> task_queue
    \<Rightarrow> task_queue \<times> claimed_task option \<Rightarrow> bool" where
  "nothing_missed j clock i q res \<longleftrightarrow>
     (snd res = None \<longrightarrow>
        (\<forall>s\<in>set (tq_rows q). claimable (clock i) s \<longrightarrow> (\<exists>e. decode_payload j (tr_payload s) = Inl e)))"

lemma quarantined_not_claimable: "\<not> claimable now (quarantined m e r)"
  by (simp add: claimable_def)

lemma claimable_mono: "claimable m r \<Longrightarrow> m \<le> n \<Longrightarrow> claimable n r"
  by (auto simp: claimable_def split: option.splits)

lemma row_of_quarantine:
  "row_of (fst (quarantine now e i q)) x =
     map_option (\<lambda>r. if x = i then quarantined now e r else r) (row_of q x)"
proof -
  have "row_of q x = Some r \<Longrightarrow> tr_id r = x" for r
    by (auto simp: row_of_def find_Some_iff)
  then show ?thesis
    by (cases "row_of q x") (auto simp: quarantine_def row_of_sql_update)
qed

lemma row_of_take_lease:
  "row_of (fst (take_lease now l i q)) x =
     map_option (\<lambda>r. if x = i \<and> claimable now r then leased now l r else r) (row_of q x)"
proof -
  have "row_of q x = Some r \<Longrightarrow> tr_id r = x" for r
    by (auto simp: row_of_def find_Some_iff)
  then show ?thesis
    by (cases "row_of q x") (auto simp: take_lease_def row_of_sql_update)
qed

lemma claim_loop_spec:
  assumes "mono clock" "queue_inv q"
  shows "handed_out j clock l i q (claim_loop j clock i l q) \<and>
    left_alone j clock i q (claim_loop j clock i l q) \<and>
    nothing_missed j clock i q (claim_loop j clock i l q)"
proof -
  define P where "P = (\<lambda>i q res. queue_inv q \<longrightarrow>
    handed_out j clock l i q res \<and> left_alone j clock i q res \<and> nothing_missed j clock i q res)"
  have "P i q (claim_loop j clock i l q)"
  proof (rule claim_loop_ind)
    fix i and q :: task_queue
    assume "first_ranked (filter (claimable (clock i)) (tq_rows q)) = None"
    then show "P i q (q, None)"
      by (auto simp: P_def first_ranked_None filter_empty_conv handed_out_def left_alone_def
          nothing_missed_def)
  next
    fix i and q :: task_queue and row payload
    assume sel: "first_ranked (filter (claimable (clock i)) (tq_rows q)) = Some row"
      and dec: "decode_payload j (tr_payload row) = Inr payload"
    note mem = selected_claimable [OF sel]
    let ?res = "(fst (take_lease (clock i) l (tr_id row) q),
             Some \<lparr>ct_id = tr_id row, ct_payload = payload, ct_retry_count = tr_retry_count row\<rparr>)"
    have "row_of q (tr_id row) = Some row" if "queue_inv q" using row_of_Some [OF that] mem by blast
    moreover have "ranks_before row s" if "s \<in> set (tq_rows q)" "claimable (clock i) s" for s
      using first_ranked_least [OF sel] that by simp
    ultimately have "handed_out j clock l i q ?res" if "queue_inv q"
      using that mem dec by (auto simp: handed_out_def row_of_take_lease)
    then show "P i q ?res"
      by (auto simp: P_def left_alone_def nothing_missed_def row_of_take_lease)
  next
    fix i and q :: task_queue and row e and res :: "task_queue \<times> claimed_task option"
    assume sel: "first_ranked (filter (claimable (clock i)) (tq_rows q)) = Some row"
      and dec: "decode_payload j (tr_payload row) = Inl e"
      and IH: "P (Suc i) (fst (quarantine (clock i) e (tr_id row) q)) res"
    note mem = selected_claimable [OF sel]
    let ?q = "fst (quarantine (clock i) e (tr_id row) q)"
    show "P i q res"
      unfolding P_def
    proof
      assume inv: "queue_inv q"
      have inv': "queue_inv ?q" by (rule queue_inv_quarantine [OF inv])
      have spec: "handed_out j clock l (Suc i) ?q res" "left_alone j clock (Suc i) ?q res"
        "nothing_missed j clock (Suc i) ?q res"
        using IH inv' by (simp_all add: P_def)
      have row: "row_of q (tr_id row) = Some row" using row_of_Some [OF inv] mem by blast
      have other: "row_of ?q x = row_of q x" if "x \<noteq> tr_id row" for x
        using that by (cases "row_of q x") (simp_all add: row_of_quarantine)
      have kept: "s \<in> set (tq_rows ?q)"
        if "s \<in> set (tq_rows q)" "decode_payload j (tr_payload s) = Inr p" for s p
      proof -
        have "tr_id s \<noteq> tr_id row"
        proof
          assume "tr_id s = tr_id row"
          then have "row_of q (tr_id row) = Some s" using row_of_Some [OF inv] that(1) by simp
          then show False using row that(2) dec by simp
        qed
        then have "row_of ?q (tr_id s) = Some s" using other that row_of_Some [OF inv] by simp
        then show ?thesis using row_of_Some [OF inv'] by blast
      qed
      have "clock i \<le> clock (Suc i)" using assms(1) by (simp add: mono_def)
      then have stay: "s \<in> set (tq_rows ?q) \<and> claimable (clock (Suc i)) s"
        if "s \<in> set (tq_rows q)" "claimable (clock i) s" "decode_payload j (tr_payload s) = Inr p" for s p
        using that kept claimable_mono by blast
      have first: "ranks_before row s" if "s \<in> set (tq_rows q)" "claimable (clock i) s" for s
        using first_ranked_least [OF sel] that by simp
      have "handed_out j clock l i q res"
        unfolding handed_out_def
      proof (intro allI impI)
        fix t assume t: "snd res = Some t"
        then obtain row' k where r: "Suc i \<le> k" "row_of ?q (ct_id t) = Some row'"
          "claimable (clock k) row'" "decode_payload j (tr_payload row') = Inr (ct_payload t)"
          "ct_retry_count t = tr_retry_count row'"
          "row_of (fst res) (ct_id t) = Some (leased (clock k) l row')"
          "\<forall>s\<in>set (tq_rows ?q). claimable (clock (Suc i)) s \<and>
             (\<exists>p. decode_payload j (tr_payload s) = Inr p) \<longrightarrow> ranks_before row' s"
          using spec(1) unfolding handed_out_def by blast
        have "ct_id t \<noteq> tr_id row"
          using r(2,4) row dec by (auto simp: row_of_quarantine)
        with r(2) have "row_of q (ct_id t) = Some row'" using other by simp
        moreover have "\<forall>s\<in>set (tq_rows q). claimable (clock i) s \<and>
             (\<exists>p. decode_payload j (tr_payload s) = Inr p) \<longrightarrow> ranks_before row' s"
          using r(7) stay by blast
        moreover have "i \<le> k" using r(1) by simp
        ultimately show "\<exists>row k. i \<le> k \<and> row_of q (ct_id t) = Some row \<and> claimable (clock k) row \<and>
           decode_payload j (tr_payload row) = Inr (ct_payload t) \<and> ct_retry_count t = tr_retry_count row \<and>
           row_of (fst res) (ct_id t) = Some (leased (clock k) l row) \<and>
           (\<forall>s\<in>set (tq_rows q). claimable (clock i) s \<and> (\<exists>p. decode_payload j (tr_payload s) = Inr p) \<longrightarrow>
              ranks_before row s)"
          using r(3-6) by blast
      qed
      moreover have "left_alone j clock i q res"
        unfolding left_alone_def
      proof (intro allI impI, elim conjE)
        fix x r assume r: "row_of q x = Some r" and nt: "\<forall>t. snd res = Some t \<longrightarrow> ct_id t \<noteq> x"
        show "row_of (fst res) x = Some r \<or> (\<exists>k e. i \<le> k \<and> claimable (clock k) r \<and>
            decode_payload j (tr_payload r) = Inl e \<and> row_of (fst res) x = Some (quarantined (clock k) e r) \<and>
            (\<forall>s\<in>set (tq_rows q). claimable (clock k) s \<and> (\<exists>p. decode_payload j (tr_payload s) = Inr p) \<longrightarrow>
               ranks_before r s))"
        proof (cases "x = tr_id row")
          case True
          then have "row_of ?q x = Some (quarantined (clock i) e row)"
            using row by (simp add: row_of_quarantine)
          then have "row_of (fst res) x = Some (quarantined (clock i) e row)"
            using spec(2) nt quarantined_not_claimable unfolding left_alone_def by metis
          then show ?thesis using True r row mem dec first by (intro disjI2 exI [of _ i] exI [of _ e]) auto
        next
          case False
          then have "row_of ?q x = Some r" using r other by simp
          with spec(2) nt consider "row_of (fst res) x = Some r"
            | k e where "Suc i \<le> k" "claimable (clock k) r" "decode_payload j (tr_payload r) = Inl e"
                "row_of (fst res) x = Some (quarantined (clock k) e r)"
                "\<forall>s\<in>set (tq_rows ?q). claimable (clock k) s \<and> (\<exists>p. decode_payload j (tr_payload s) = Inr p) \<longrightarrow>
                   ranks_before r s"
            unfolding left_alone_def by blast
          then show ?thesis using kept by cases (blast dest: Suc_leD)+
        qed
      qed
      moreover have "nothing_missed j clock i q res"
        unfolding nothing_missed_def
      proof (intro impI ballI)
        fix s assume "snd res = None" and s: "s \<in> set (tq_rows q)" "claimable (clock i) s"
        then have none: "\<forall>s\<in>set (tq_rows ?q). claimable (clock (Suc i)) s \<longrightarrow>
            (\<exists>e. decode_payload j (tr_payload s) = Inl e)"
          using spec(3) unfolding nothing_missed_def by blast
        show "\<exists>e. decode_payload j (tr_payload s) = Inl e"
        proof (cases "decode_payload j (tr_payload s)")
          case (Inr p)
          then show ?thesis using none stay [OF s Inr] by blast
        qed simp
      qed
      ultimately show "handed_out j clock l i q res \<and> left_alone j clock i q res \<and>
        nothing_missed j clock i q res" by blast
    qed
  qed
  then show ?thesis using assms(2) by (simp add: P_def)
qed

lemma claim_next_cases:
  "claim_next j clock l q = (q', r) \<Longrightarrow> 0 < tq_permits q \<Longrightarrow>
   \<exists>q0. claim_loop j clock 0 l q = (q0, r) \<and> tq_rows q' = tq_rows q0 \<and> tq_permits q0 = tq_permits q \<and>
     tq_permits q' = (if r = None then tq_permits q else tq_permits q - 1)"
  using claim_loop_permits [of j clock 0 l q]
  by (auto simp: claim_next_def split: prod.splits option.splits)

text \<open>C9: With a free permit and a clock that does not run backwards, a claim hands out the waiting (or
  abandoned) task with the highest priority and, among those, the earliest creation time, leased at the
  time of the claim. A row is failed only when its payload does not decode or validate and when it
  ranks before every valid row that was claimable at that turn (the one handed out, unless its old
  lease ran out only later); every other row is left as it was. Nothing is handed out only when no claimable row has a valid payload,
  and the loop always ends.\<close>

theorem claim_next_best_task:
  assumes "mono clock" "queue_inv q" "0 < tq_permits q" "claim_next j clock l q = (q', r)"
  shows "(\<forall>t. r = Some t \<longrightarrow>
      tq_permits q' = tq_permits q - 1 \<and>
      (\<exists>row k. row_of q (ct_id t) = Some row \<and> claimable (clock k) row \<and>
         decode_payload j (tr_payload row) = Inr (ct_payload t) \<and> ct_retry_count t = tr_retry_count row \<and>
         row_of q' (ct_id t) = Some (leased (clock k) l row) \<and>
         (\<forall>s\<in>set (tq_rows q). claimable (clock 0) s \<and> (\<exists>p. decode_payload j (tr_payload s) = Inr p) \<longrightarrow>
            tr_priority s < tr_priority row \<or>
            (tr_priority s = tr_priority row \<and> tr_created_at row \<le> tr_created_at s)))) \<and>
    (r = None \<longrightarrow> tq_permits q' = tq_permits q \<and>
      (\<forall>s\<in>set (tq_rows q). claimable (clock 0) s \<longrightarrow> (\<exists>e. decode_payload j (tr_payload s) = Inl e))) \<and>
    (\<forall>id row. row_of q id = Some row \<and> (\<forall>t. r = Some t \<longrightarrow> ct_id t \<noteq> id) \<longrightarrow>
      row_of q' id = Some row \<or>
      (\<exists>k e. claimable (clock k) row \<and> decode_payload j (tr_payload row) = Inl e \<and>
         row_of q' id = Some (quarantined (clock k) e row) \<and>
         (\<forall>s\<in>set (tq_rows q). claimable (clock k) s \<and> (\<exists>p. decode_payload j (tr_payload s) = Inr p) \<longrightarrow>
            tr_priority s < tr_priority row \<or>
            (tr_priority s = tr_priority row \<and> tr_created_at row \<le> tr_created_at s))))"
proof -
  obtain q0 where q0: "claim_loop j clock 0 l q = (q0, r)" "tq_rows q' = tq_rows q0"
    "tq_permits q0 = tq_permits q" "tq_permits q' = (if r = None then tq_permits q else tq_permits q - 1)"
    using claim_next_cases [OF assms(4,3)] by blast
  have row: "row_of q' x = row_of q0 x" for x using q0(2) by (simp add: row_of_def)
  have rank: "ranks_before a b \<longleftrightarrow> tr_priority b < tr_priority a \<or>
      (tr_priority b = tr_priority a \<and> tr_created_at a \<le> tr_created_at b)" for a b
    by (auto simp: ranks_before_def)
  note spec = claim_loop_spec [OF assms(1,2), of j l 0, unfolded q0(1) handed_out_def left_alone_def
      nothing_missed_def fst_conv snd_conv rank]
  note handed = spec [THEN conjunct1, rule_format] and alone = spec [THEN conjunct2, THEN conjunct1]
    and missed = spec [THEN conjunct2, THEN conjunct2]
  show ?thesis
  proof (intro conjI)
    show "\<forall>id ra. row_of q id = Some ra \<and> (\<forall>t. r = Some t \<longrightarrow> ct_id t \<noteq> id) \<longrightarrow>
      row_of q' id = Some ra \<or>
      (\<exists>k e. claimable (clock k) ra \<and> decode_payload j (tr_payload ra) = Inl e \<and>
         row_of q' id = Some (quarantined (clock k) e ra) \<and>
         (\<forall>s\<in>set (tq_rows q). claimable (clock k) s \<and> (\<exists>p. decode_payload j (tr_payload s) = Inr p) \<longrightarrow>
            tr_priority s < tr_priority ra \<or>
            (tr_priority s = tr_priority ra \<and> tr_created_at ra \<le> tr_created_at s)))"
      unfolding row using alone by blast
    show "r = None \<longrightarrow> tq_permits q' = tq_permits q \<and>
      (\<forall>s\<in>set (tq_rows q). claimable (clock 0) s \<longrightarrow> (\<exists>e. decode_payload j (tr_payload s) = Inl e))"
      using missed q0(4) by simp
    show "\<forall>t. r = Some t \<longrightarrow> tq_permits q' = tq_permits q - 1 \<and>
      (\<exists>row k. row_of q (ct_id t) = Some row \<and> claimable (clock k) row \<and>
         decode_payload j (tr_payload row) = Inr (ct_payload t) \<and> ct_retry_count t = tr_retry_count row \<and>
         row_of q' (ct_id t) = Some (leased (clock k) l row) \<and>
         (\<forall>s\<in>set (tq_rows q). claimable (clock 0) s \<and> (\<exists>p. decode_payload j (tr_payload s) = Inr p) \<longrightarrow>
            tr_priority s < tr_priority row \<or>
            (tr_priority s = tr_priority row \<and> tr_created_at row \<le> tr_created_at s)))"
      unfolding row using handed q0(4) by auto
  qed
qed

section \<open>Sequences of calls\<close>

text \<open>The queue with the claimed tasks its callers still hold (each holds a permit).\<close>

record queue_system =
  qs_queue :: task_queue
  qs_held :: "claimed_task list"

datatype queue_event =
    EvRecover int
  | EvEnqueue int ustring task_payload task_priority
  | EvEnqueueOnce int ustring task_payload task_priority
  | EvClaimNext "nat \<Rightarrow> int" "64 word"
  | EvClaimById int ustring "64 word"
  | EvHeartbeat int ustring "64 word"
  | EvComplete int ustring
  | EvReceipt int ustring
  | EvRelease int ustring
  | EvFail int ustring ustring
  | EvFailTerminal int ustring ustring
  | EvFailPreflight int ustring ustring
  | EvPurgeTask ustring
  | EvPurgeSession ustring
  | EvDrop nat

fun queue_call :: "payload_json \<Rightarrow> task_queue \<Rightarrow> queue_event \<Rightarrow> task_queue \<times> claimed_task option" where
  "queue_call j q (EvRecover now) = (fst (recover_abandoned_tasks now q), None)"
| "queue_call j q (EvEnqueue now i p pr) = (fst (enqueue_with_stable_id j now i p pr q), None)"
| "queue_call j q (EvEnqueueOnce now i p pr) = (fst (enqueue_once_with_stable_id j now i p pr q), None)"
| "queue_call j q (EvClaimNext clock l) = claim_next j clock l q"
| "queue_call j q (EvClaimById now i l) =
     (case claim_by_id j now i l q of (q', Inr r) \<Rightarrow> (q', r) | (q', Inl _) \<Rightarrow> (q', None))"
| "queue_call j q (EvHeartbeat now i l) = (fst (heartbeat now i l q), None)"
| "queue_call j q (EvComplete now i) = (fst (complete now i q), None)"
| "queue_call j q (EvReceipt now i) = (fst (complete_from_durable_provider_receipt now i q), None)"
| "queue_call j q (EvRelease now i) = (fst (release_without_retry now i q), None)"
| "queue_call j q (EvFail now i e) = (fst (fail now i e q), None)"
| "queue_call j q (EvFailTerminal now i e) = (fst (fail_terminal now i e q), None)"
| "queue_call j q (EvFailPreflight now i e) = (fst (fail_local_preflight now i e q), None)"
| "queue_call j q (EvPurgeTask i) = (fst (purge_task i q), None)"
| "queue_call j q (EvPurgeSession s) = (fst (purge_session j s q), None)"
| "queue_call j q (EvDrop n) = (q, None)"

definition queue_step :: "payload_json \<Rightarrow> queue_system \<Rightarrow> queue_event \<Rightarrow> queue_system" where
  "queue_step j s ev =
     (case ev of
        EvDrop n \<Rightarrow>
          if n < length (qs_held s)
          then \<lparr>qs_queue = drop_task (qs_held s ! n) (qs_queue s), qs_held = delete_at n (qs_held s)\<rparr>
          else s
      | _ \<Rightarrow>
          (case queue_call j (qs_queue s) ev of
             (q', None) \<Rightarrow> s\<lparr>qs_queue := q'\<rparr>
           | (q', Some t) \<Rightarrow> \<lparr>qs_queue = q', qs_held = qs_held s @ [t]\<rparr>))"

definition fresh_queue :: queue_system where
  "fresh_queue = \<lparr>qs_queue = \<lparr>tq_rows = [], tq_permits = 2\<rparr>, qs_held = []\<rparr>"

definition system_inv :: "queue_system \<Rightarrow> bool" where
  "system_inv s \<longleftrightarrow> queue_inv (qs_queue s) \<and> tq_permits (qs_queue s) + length (qs_held s) = 2"

lemmas settling_defs =
  heartbeat_def complete_def complete_from_durable_provider_receipt_def release_without_retry_def
  fail_def fail_terminal_def fail_local_preflight_def

lemma purge_session_rows:
  "queue_inv q \<Longrightarrow> queue_inv (fold (\<lambda>i q. fst (sql_delete (\<lambda>r. tr_id r = i) q)) ids q) \<and>
   tq_permits (fold (\<lambda>i q. fst (sql_delete (\<lambda>r. tr_id r = i) q)) ids q) = tq_permits q"
  by (induction ids arbitrary: q) (simp_all add: queue_inv_sql_delete)

lemma case_prod_fst: "fst (case p of (a, b) \<Rightarrow> (a, g a b)) = fst p"
  by (cases p) simp

lemma fail_rows:
  "fst (fail now i e q) =
     (case row_of q i of
        None \<Rightarrow> q
      | Some row \<Rightarrow>
          fst (sql_update (\<lambda>r. tr_id r = i \<and> tr_status r = Running)
                (\<lambda>r. r\<lparr>tr_status := (if tr_retry_count row + 1 \<ge> tr_max_retries row then Failed else Pending),
                      tr_retry_count := tr_retry_count r + 1,
                      tr_lease_expires_at_ms := None, tr_last_heartbeat_at_ms := None,
                      tr_error_msg := Some e, tr_updated_at := datetime_now now\<rparr>) q))"
  by (simp add: fail_def Let_def case_prod_fst split: option.splits)

lemma queue_inv_fail: "queue_inv q \<Longrightarrow> queue_inv (fst (fail now i e q))"
proof -
  assume inv: "queue_inv q"
  show ?thesis
  proof (cases "row_of q i")
    case (Some row)
    then have eq: "r = row" if "r \<in> set (tq_rows q)" "tr_id r = i" for r
      using row_of_Some [OF inv, of i r] that by simp
    show ?thesis
      unfolding fail_rows Some option.case
    proof (rule queue_inv_sql_update [OF inv])
      fix r assume "r \<in> set (tq_rows q)" "row_inv r" "tr_id r = i \<and> tr_status r = Running"
      then show "row_inv (r\<lparr>tr_status := if tr_max_retries row \<le> tr_retry_count row + 1 then Failed else Pending,
          tr_retry_count := tr_retry_count r + 1, tr_lease_expires_at_ms := None,
          tr_last_heartbeat_at_ms := None, tr_error_msg := Some e, tr_updated_at := datetime_now now\<rparr>)"
        using eq [of r] by (simp add: row_inv_def)
    qed simp
  qed (simp add: fail_rows inv)
qed

lemma queue_inv_settling:
  assumes "queue_inv q"
  shows "queue_inv (fst (heartbeat now i l q))" "queue_inv (fst (complete now i q))"
    "queue_inv (fst (complete_from_durable_provider_receipt now i q))"
    "queue_inv (fst (release_without_retry now i q))" "queue_inv (fst (fail_terminal now i e q))"
    "queue_inv (fst (fail_local_preflight now i e q))"
  unfolding settling_defs case_prod_fst
  by (rule queue_inv_sql_update [OF assms], simp, simp add: row_inv_def, blast?)+

lemma settling_permits:
  "tq_permits (fst (heartbeat now i l q)) = tq_permits q"
  "tq_permits (fst (complete now i q)) = tq_permits q"
  "tq_permits (fst (complete_from_durable_provider_receipt now i q)) = tq_permits q"
  "tq_permits (fst (release_without_retry now i q)) = tq_permits q"
  "tq_permits (fst (fail now i e q)) = tq_permits q"
  "tq_permits (fst (fail_terminal now i e q)) = tq_permits q"
  "tq_permits (fst (fail_local_preflight now i e q)) = tq_permits q"
  by (simp_all add: settling_defs case_prod_fst Let_def split: option.splits)

lemma rows_evolve_settling:
  "rows_evolve q (fst (heartbeat now i l q))" "rows_evolve q (fst (complete now i q))"
  "rows_evolve q (fst (complete_from_durable_provider_receipt now i q))"
  "rows_evolve q (fst (release_without_retry now i q))" "rows_evolve q (fst (fail_terminal now i e q))"
  "rows_evolve q (fst (fail_local_preflight now i e q))"
  unfolding settling_defs case_prod_fst
  by (rule rows_evolve_sql_update, force simp: evolves_def settled_def, simp)+

lemma rows_evolve_fail: "rows_evolve q (fst (fail now i e q))"
  unfolding fail_rows
  by (auto split: option.splits intro!: rows_evolve_sql_update simp: evolves_def settled_def)

lemma recover_permits: "tq_permits (fst (recover_abandoned_tasks now q)) = tq_permits q"
  by (simp add: recover_abandoned_tasks_def)

lemma claim_by_id_cases:
  assumes "claim_by_id j now i l q = (q', r)"
  obtains "q' = q" "\<forall>t. r \<noteq> Inr (Some t)"
  | row p where "find (\<lambda>r. tr_id r = i \<and> claimable now r) (tq_rows q) = Some row"
      "decode_payload j (tr_payload row) = Inr p" "0 < tq_permits q"
      "q' = fst (take_lease now l (tr_id row) q)\<lparr>tq_permits := tq_permits q - 1\<rparr>"
      "r = Inr (Some \<lparr>ct_id = tr_id row, ct_payload = p, ct_retry_count = tr_retry_count row\<rparr>)"
proof (cases "\<exists>row p. find (\<lambda>r. tr_id r = i \<and> claimable now r) (tq_rows q) = Some row \<and>
    decode_payload j (tr_payload row) = Inr p \<and> 0 < tq_permits q")
  case True
  then obtain row p where row: "find (\<lambda>r. tr_id r = i \<and> claimable now r) (tq_rows q) = Some row"
    "decode_payload j (tr_payload row) = Inr p" "0 < tq_permits q" by blast
  then have "row \<in> set (tq_rows q) \<and> claimable now row"
    by (auto simp: find_Some_iff)
  then have "snd (take_lease now l (tr_id row) q) \<noteq> 0"
    using take_lease_updates by blast
  moreover have "tq_permits (fst (take_lease now l (tr_id row) q)) = tq_permits q"
    by (simp add: take_lease_def)
  ultimately show ?thesis
    using assms row that(2) [OF row] by (simp add: claim_by_id_def case_prod_beta)
next
  case False
  then show ?thesis
    using assms that(1) by (auto simp: claim_by_id_def split: if_splits option.splits sum.splits)
qed

lemma queue_inv_permits: "queue_inv (q\<lparr>tq_permits := n\<rparr>) = queue_inv q"
  by (simp add: queue_inv_def)

lemma row_of_permits: "row_of (q\<lparr>tq_permits := n\<rparr>) i = row_of q i"
  by (simp add: row_of_def)

lemma queue_call_inv:
  assumes inv: "queue_inv q"
  shows "queue_inv (fst (queue_call j q ev)) \<and>
    tq_permits (fst (queue_call j q ev)) + (if snd (queue_call j q ev) = None then 0 else 1) = tq_permits q"
proof (cases ev)
  case (EvClaimNext clock l)
  obtain q' r where c: "claim_next j clock l q = (q', r)" by fastforce
  show ?thesis
  proof (cases "tq_permits q = 0")
    case True
    then show ?thesis using EvClaimNext inv by (simp add: claim_next_def)
  next
    case False
    then obtain q0 where "claim_loop j clock 0 l q = (q0, r)" "tq_rows q' = tq_rows q0"
      "tq_permits q' = (if r = None then tq_permits q else tq_permits q - 1)"
      using claim_next_cases [OF c] by auto
    then show ?thesis
      using EvClaimNext c False queue_inv_claim_loop [OF inv, of j clock 0 l]
      by (simp add: queue_inv_def)
  qed
next
  case (EvClaimById now i l)
  obtain q' r where c: "claim_by_id j now i l q = (q', r)" by fastforce
  then show ?thesis
  proof (cases rule: claim_by_id_cases)
    case 1
    then show ?thesis using EvClaimById c inv by (cases r; cases "projr r") simp_all
  next
    case (2 row p)
    then show ?thesis using EvClaimById c queue_inv_take_lease [OF inv]
      by (simp add: queue_inv_permits take_lease_def)
  qed
next
  case (EvPurgeSession s)
  then show ?thesis
    using purge_session_rows [OF inv] inv by (simp add: purge_session_def split: sum.splits)
qed (use inv in \<open>simp_all add: queue_inv_recover queue_inv_enqueue queue_inv_settling queue_inv_fail
    settling_permits queue_inv_sql_delete recover_permits purge_task_def case_prod_fst
    enqueue_with_stable_id_def enqueue_once_with_stable_id_def enqueue_permits\<close>)

lemma queue_step_call:
  assumes "\<And>n. ev \<noteq> EvDrop n"
  shows "qs_queue (queue_step j s ev) = fst (queue_call j (qs_queue s) ev) \<and>
    length (qs_held (queue_step j s ev)) =
      length (qs_held s) + (if snd (queue_call j (qs_queue s) ev) = None then 0 else 1)"
proof (cases "\<exists>n. ev = EvDrop n")
  case False
  then have "queue_step j s ev =
      (case queue_call j (qs_queue s) ev of
         (q', None) \<Rightarrow> s\<lparr>qs_queue := q'\<rparr>
       | (q', Some t) \<Rightarrow> \<lparr>qs_queue = q', qs_held = qs_held s @ [t]\<rparr>)"
    by (cases ev) (simp_all add: queue_step_def del: queue_call.simps)
  then show ?thesis by (simp split: prod.splits option.splits)
qed (use assms in blast)

lemma queue_step_drop_rows: "tq_rows (qs_queue (queue_step j s (EvDrop n))) = tq_rows (qs_queue s)"
  by (simp add: queue_step_def drop_task_def)

lemma system_inv_step: "system_inv s \<Longrightarrow> system_inv (queue_step j s ev)"
proof (cases "\<exists>n. ev = EvDrop n")
  case True
  then show "system_inv s \<Longrightarrow> ?thesis"
    by (auto simp: queue_step_def system_inv_def drop_task_def queue_inv_permits)
next
  case False
  assume "system_inv s"
  with False show ?thesis
    using queue_step_call [of ev j s] queue_call_inv [of "qs_queue s" j ev]
    by (auto simp: system_inv_def)
qed

lemma system_inv_fresh: "system_inv fresh_queue"
  by (simp add: system_inv_def fresh_queue_def queue_inv_def)

interpretation queue_sm: state_machine "\<lambda>s. s = fresh_queue" "queue_step j" system_inv
  for j :: payload_json
  by unfold_locales (simp_all add: system_inv_fresh system_inv_step)

text \<open>C23: From an empty queue, after any calls in any order by its callers, identifiers are unique, a
  row has a lease and a heartbeat exactly while it is running, a task that may still run has retries
  left, and never more than two claimed tasks are held.\<close>

theorem queue_reachable:
  "let s = foldl (queue_step j) fresh_queue es; rows = tq_rows (qs_queue s) in
     distinct (map tr_id rows) \<and> length (qs_held s) \<le> 2 \<and>
     tq_permits (qs_queue s) = 2 - length (qs_held s) \<and>
     (\<forall>r\<in>set rows.
        (tr_lease_expires_at_ms r \<noteq> None \<longleftrightarrow> tr_status r = Running) \<and>
        (tr_last_heartbeat_at_ms r \<noteq> None \<longleftrightarrow> tr_status r = Running) \<and>
        1 \<le> tr_max_retries r \<and> tr_max_retries r \<le> 20 \<and> 0 \<le> tr_retry_count r \<and>
        (tr_status r = Pending \<or> tr_status r = Running \<longrightarrow> tr_retry_count r < tr_max_retries r))"
proof -
  define s where "s = foldl (queue_step j) fresh_queue es"
  have "system_inv s" unfolding s_def by (rule queue_sm.inv_reachable) simp
  then have inv: "queue_inv (qs_queue s)" and held: "tq_permits (qs_queue s) + length (qs_held s) = 2"
    by (simp_all add: system_inv_def)
  have "(tr_lease_expires_at_ms r \<noteq> None \<longleftrightarrow> tr_status r = Running) \<and>
        (tr_last_heartbeat_at_ms r \<noteq> None \<longleftrightarrow> tr_status r = Running) \<and>
        1 \<le> tr_max_retries r \<and> tr_max_retries r \<le> 20 \<and> 0 \<le> tr_retry_count r \<and>
        (tr_status r = Pending \<or> tr_status r = Running \<longrightarrow> tr_retry_count r < tr_max_retries r)"
    if "r \<in> set (tq_rows (qs_queue s))" for r
  proof -
    have "row_inv r" using inv that by (simp add: queue_inv_def)
    then show ?thesis unfolding row_inv_def by (elim conjE, intro conjI) simp_all
  qed
  moreover have "distinct (map tr_id (tq_rows (qs_queue s)))" using inv by (simp add: queue_inv_def)
  ultimately show ?thesis
    using held unfolding s_def [symmetric] Let_def by auto
qed

section \<open>Leases\<close>

text \<open>Events that can end or move the lease of the task \<open>i\<close> before the time \<open>until\<close>: calls that name
  it, the recovery at start-up, and a purge of sessions.\<close>

fun spares :: "ustring \<Rightarrow> int \<Rightarrow> queue_event \<Rightarrow> bool" where
  "spares i until (EvRecover now) = False"
| "spares i until (EvClaimNext clock l) = (mono clock \<and> (\<forall>k. clock k < until))"
| "spares i until (EvClaimById now i' l) = (now < until)"
| "spares i until (EvHeartbeat now i' l) = (i' \<noteq> i)"
| "spares i until (EvComplete now i') = (i' \<noteq> i)"
| "spares i until (EvReceipt now i') = (i' \<noteq> i)"
| "spares i until (EvRelease now i') = (i' \<noteq> i)"
| "spares i until (EvFail now i' e) = (i' \<noteq> i)"
| "spares i until (EvFailTerminal now i' e) = (i' \<noteq> i)"
| "spares i until (EvFailPreflight now i' e) = (i' \<noteq> i)"
| "spares i until (EvPurgeTask i') = (i' \<noteq> i)"
| "spares i until (EvPurgeSession s) = False"
| "spares i until _ = True"

lemma row_of_update_other:
  assumes "row_of q i = Some r" "\<And>r. tr_id (f r) = tr_id r" "\<not> cond r"
  shows "row_of (fst (sql_update cond f q)) i = Some r"
  using assms by (simp add: row_of_sql_update)

lemma row_of_id: "row_of q i = Some r \<Longrightarrow> tr_id r = i"
  by (auto simp: row_of_def find_Some_iff)

lemma row_of_delete_other:
  assumes "row_of q i = Some r" "i' \<noteq> i"
  shows "row_of (fst (sql_delete (\<lambda>r. tr_id r = i') q)) i = Some r"
proof -
  have "find (\<lambda>r. tr_id r = i) (filter (\<lambda>r. tr_id r \<noteq> i') rs) = find (\<lambda>r. tr_id r = i) rs"
    for rs :: "task_row list"
    using assms(2) by (induction rs) auto
  then show ?thesis using assms by (simp add: row_of_def)
qed

lemma row_of_enqueue:
  "row_of q i = Some r \<Longrightarrow>
   row_of (fst (enqueue_with_stable_id_and_max_retries j now i' p pr m q)) i = Some r"
proof -
  have *: "find P (rs @ [a]) = Some s" if "find P rs = Some s" for P :: "task_row \<Rightarrow> bool" and rs a s
    using that by (induction rs) (auto split: if_splits)
  show "row_of q i = Some r \<Longrightarrow> ?thesis"
    by (auto simp: enqueue_with_stable_id_and_max_retries_def Let_def row_of_def *
        split: sum.splits option.splits if_splits)
qed

lemma settling_other:
  assumes "row_of q i = Some r" "i' \<noteq> i"
  shows "row_of (fst (heartbeat now i' l q)) i = Some r" "row_of (fst (complete now i' q)) i = Some r"
    "row_of (fst (complete_from_durable_provider_receipt now i' q)) i = Some r"
    "row_of (fst (release_without_retry now i' q)) i = Some r"
    "row_of (fst (fail_terminal now i' e q)) i = Some r"
    "row_of (fst (fail_local_preflight now i' e q)) i = Some r"
  unfolding settling_defs case_prod_fst
  using assms row_of_id [OF assms(1)] by (intro row_of_update_other; simp)+

lemma fail_other:
  assumes "row_of q i = Some r" "i' \<noteq> i"
  shows "row_of (fst (fail now i' e q)) i = Some r"
  using assms row_of_id [OF assms(1)] unfolding fail_rows
  by (cases "row_of q i'") (simp_all add: row_of_update_other)

lemma lease_spared:
  assumes inv: "queue_inv q" and row: "row_of q i = Some r" "tr_status r = Running"
    and lease: "tr_lease_expires_at_ms r = Some until" and ev: "spares i until ev"
  shows "row_of (fst (queue_call j q ev)) i = Some r \<and>
    (\<forall>t. snd (queue_call j q ev) = Some t \<longrightarrow> ct_id t \<noteq> i)"
proof (cases ev)
  case (EvClaimNext clock l)
  have unclaim: "\<not> claimable (clock k) r" for k
    using ev EvClaimNext row(2) lease by (simp add: claimable_def not_le)
  obtain q' res where c: "claim_next j clock l q = (q', res)" by fastforce
  show ?thesis
  proof (cases "tq_permits q = 0")
    case True
    then show ?thesis using EvClaimNext row by (simp add: claim_next_def)
  next
    case False
    then obtain q0 where q0: "claim_loop j clock 0 l q = (q0, res)" "tq_rows q' = tq_rows q0"
      using claim_next_cases [OF c] by auto
    have spec: "handed_out j clock l 0 q (q0, res)" "left_alone j clock 0 q (q0, res)"
      using claim_loop_spec [OF _ inv, of clock j l 0] q0(1) ev EvClaimNext by simp_all
    have other: "ct_id t \<noteq> i" if "res = Some t" for t
      using spec(1) that unclaim row(1) unfolding handed_out_def by fastforce
    then have "row_of q0 i = Some r"
      using spec(2) row(1) unclaim unfolding left_alone_def by fastforce
    then have "row_of q' i = Some r" using q0(2) by (simp add: row_of_def)
    with other show ?thesis using c EvClaimNext by simp
  qed
next
  case (EvClaimById now i' l)
  have unclaim: "\<not> claimable now r"
    using ev EvClaimById row(2) lease by (simp add: claimable_def not_le)
  obtain q' res where c: "claim_by_id j now i' l q = (q', res)" by fastforce
  then show ?thesis
  proof (cases rule: claim_by_id_cases)
    case 1
    then show ?thesis using EvClaimById c row by (cases res; cases "projr res") simp_all
  next
    case (2 s p)
    then have "s \<in> set (tq_rows q)" "claimable now s" by (auto simp: find_Some_iff)
    then have "tr_id s \<noteq> i" using unclaim row(1) row_of_Some [OF inv, of i s] by auto
    then show ?thesis
      using 2 EvClaimById c row(1) by (simp add: row_of_permits row_of_take_lease)
  qed
qed (use ev row in \<open>simp_all add: settling_other fail_other row_of_enqueue purge_task_def case_prod_fst
    row_of_delete_other enqueue_with_stable_id_def enqueue_once_with_stable_id_def\<close>)

lemma lease_spared_step:
  assumes "system_inv s" "row_of (qs_queue s) i = Some r" "tr_status r = Running"
    "tr_lease_expires_at_ms r = Some until" "spares i until ev"
  shows "row_of (qs_queue (queue_step j s ev)) i = Some r"
proof (cases "\<exists>n. ev = EvDrop n")
  case True
  then show ?thesis using assms(2) queue_step_drop_rows [of j s] by (auto simp: row_of_def)
next
  case False
  then show ?thesis
    using queue_step_call [of ev j s] lease_spared [OF _ assms(2-5)] assms(1) by (simp add: system_inv_def)
qed

text \<open>C10: A lease is exclusive until it expires. While nobody settles, purges or recovers the task
  and the clock of every claim reads a time before the expiry, the row keeps its lease and no claim,
  of the next task or of this one by name, hands it out again.\<close>

theorem lease_exclusive:
  assumes "system_inv s" "row_of (qs_queue s) i = Some r" "tr_status r = Running"
    and "tr_lease_expires_at_ms r = Some until" "\<forall>ev\<in>set (es @ [e]). spares i until ev"
  shows "row_of (qs_queue (foldl (queue_step j) s es)) i = Some r \<and>
    (\<forall>t. snd (queue_call j (qs_queue (foldl (queue_step j) s es)) e) = Some t \<longrightarrow> ct_id t \<noteq> i)"
  using assms(1,2,5)
proof (induction es arbitrary: s)
  case Nil
  then show ?case using lease_spared [OF _ Nil(2) assms(3,4), of e j] by (simp add: system_inv_def)
next
  case (Cons ev es)
  have "row_of (qs_queue (queue_step j s ev)) i = Some r"
    using lease_spared_step [OF Cons.prems(1,2) assms(3,4), of ev j] Cons.prems(3) by simp
  with Cons.IH [OF system_inv_step [OF Cons.prems(1)] this] Cons.prems(3)
  show ?case by simp
qed

section \<open>Retries and settled tasks\<close>

fun keeps_row :: "ustring \<Rightarrow> queue_event \<Rightarrow> bool" where
  "keeps_row i (EvPurgeTask i') = (i' \<noteq> i)"
| "keeps_row i (EvPurgeSession s) = False"
| "keeps_row i _ = True"

definition fails_ok :: "ustring \<Rightarrow> queue_system \<Rightarrow> queue_event \<Rightarrow> bool" where
  "fails_ok i s ev =
     (case ev of EvFail now i' e \<Rightarrow> i' = i \<and> snd (fail now i e (qs_queue s)) = Inr () | _ \<Rightarrow> False)"

text \<open>How many provider failures of the task \<open>i\<close> a sequence of calls has recorded.\<close>

fun fail_count :: "payload_json \<Rightarrow> ustring \<Rightarrow> queue_system \<Rightarrow> queue_event list \<Rightarrow> int" where
  "fail_count j i s [] = 0"
| "fail_count j i s (ev # es) =
     (if fails_ok i s ev then 1 else 0) + fail_count j i (queue_step j s ev) es"

lemma fail_count_nonneg: "0 \<le> fail_count j i s es"
  by (induction es arbitrary: s) simp_all

lemma rows_evolve_permits:
  "rows_evolve q (q'\<lparr>tq_permits := n\<rparr>) = rows_evolve q q'"
  by (simp add: rows_evolve_def row_of_permits)

lemma rows_evolve_claim_next: "rows_evolve q (fst (claim_next j clock l q))"
  using rows_evolve_claim_loop [of q j clock 0 l]
  by (auto simp: claim_next_def rows_evolve_permits split: prod.splits option.splits)

lemma rows_evolve_claim_by_id: "rows_evolve q (fst (claim_by_id j now i l q))"
proof (cases "claim_by_id j now i l q")
  case (Pair q' r)
  note c = this
  then show ?thesis
    by (cases rule: claim_by_id_cases)
      (simp_all add: c rows_evolve_permits rows_evolve_take_lease del: One_nat_def)
qed

lemma queue_call_evolves:
  assumes "row_of q i = Some r" "keeps_row i ev"
  shows "\<exists>r'. row_of (fst (queue_call j q ev)) i = Some r' \<and> evolves r r'"
proof -
  have by_evolve: "\<exists>r'. row_of q' i = Some r' \<and> evolves r r'" if "rows_evolve q q'" for q'
    using that assms(1) by (simp add: rows_evolve_def)
  have stay: "\<exists>r'. row_of q' i = Some r' \<and> evolves r r'" if "row_of q' i = Some r" for q'
    using that by simp
  show ?thesis
  proof (cases ev)
    case (EvClaimById now i' l)
    have "fst (queue_call j q ev) = fst (claim_by_id j now i' l q)"
      using EvClaimById by (simp split: prod.splits sum.splits)
    then show ?thesis using by_evolve [OF rows_evolve_claim_by_id, of j now i' l] by simp
  next
    case (EvPurgeTask i')
    then show ?thesis
      using assms row_of_delete_other [of q i r i'] by (simp add: purge_task_def case_prod_fst)
  qed (use assms in \<open>simp_all add: by_evolve rows_evolve_recover rows_evolve_settling rows_evolve_fail
      rows_evolve_claim_next rows_evolve_enqueue enqueue_with_stable_id_def enqueue_once_with_stable_id_def\<close>)
qed

lemma queue_step_evolves:
  assumes "row_of (qs_queue s) i = Some r" "keeps_row i ev"
  shows "\<exists>r'. row_of (qs_queue (queue_step j s ev)) i = Some r' \<and> evolves r r'"
proof (cases "\<exists>n. ev = EvDrop n")
  case True
  then have "row_of (qs_queue (queue_step j s ev)) i = Some r"
    using assms(1) queue_step_drop_rows [of j s] by (auto simp: row_of_def)
  then show ?thesis by simp
next
  case False
  then show ?thesis using queue_step_call [of ev j s] queue_call_evolves [OF assms, of j] by simp
qed

lemma fail_ok_row:
  assumes "row_of q i = Some r" "queue_inv q" "snd (fail now i e q) = Inr ()"
  shows "tr_status r = Running \<and>
    (\<exists>r'. row_of (fst (fail now i e q)) i = Some r' \<and> tr_retry_count r' = tr_retry_count r + 1 \<and>
       tr_status r' = (if tr_retry_count r + 1 \<ge> tr_max_retries r then Failed else Pending))"
proof -
  have run: "tr_status r = Running"
  proof (rule ccontr)
    assume "tr_status r \<noteq> Running"
    then have "filter (\<lambda>r. tr_id r = i \<and> tr_status r = Running) (tq_rows q) = []"
      using row_unique [OF assms(2), of r] row_of_mem [OF assms(1)] by (fastforce simp: filter_empty_conv)
    then show False
      using assms(1,3) by (simp add: fail_def Let_def case_prod_beta require_updated_def split: if_splits)
  qed
  then show ?thesis
    using assms(1) row_of_id [OF assms(1)] unfolding fail_rows
    by (simp add: row_of_sql_update)
qed

lemma claims_unsettled:
  assumes "queue_inv q" "snd (queue_call j q ev) = Some t" "row_of q (ct_id t) = Some r"
  shows "\<not> settled r"
proof -
  have unsettled: "\<not> settled row" if "claimable now row" for now row
    using that by (auto simp: claimable_def settled_def)
  have loop: "queue_inv q \<longrightarrow> (\<forall>t r. snd (claim_loop j clock i l q) = Some t \<longrightarrow>
      row_of q (ct_id t) = Some r \<longrightarrow> \<not> settled r)" for clock i l q
  proof (rule claim_loop_ind [where P = "\<lambda>i q res. queue_inv q \<longrightarrow> (\<forall>t r. snd res = Some t \<longrightarrow>
      row_of q (ct_id t) = Some r \<longrightarrow> \<not> settled r)"], goal_cases)
    case (2 i q row e res)
    then show ?case
      using queue_inv_quarantine rows_evolve_quarantine [of q "clock i" e "tr_id row"]
      unfolding rows_evolve_def evolves_def by blast
  next
    case (3 i q row payload)
    note sel = selected_claimable [OF 3(1)]
    show ?case
    proof (intro impI allI)
      fix t r
      assume inv: "queue_inv q" and "row_of q (ct_id t) = Some r"
        and "snd (fst (take_lease (clock i) l (tr_id row) q),
           Some \<lparr>ct_id = tr_id row, ct_payload = payload, ct_retry_count = tr_retry_count row\<rparr>) = Some t"
      then have "row_of q (tr_id row) = Some r" by auto
      then have "r = row" using row_unique [OF inv, of r row] row_of_mem sel by blast
      then show "\<not> settled r" using sel unsettled by blast
    qed
  qed simp
  show ?thesis
  proof (cases ev)
    case (EvClaimNext clock l)
    then show ?thesis
      using assms loop [of q clock 0 l] by (auto simp: claim_next_def split: if_splits prod.splits option.splits)
  next
    case (EvClaimById now i l)
    obtain q' res where c: "claim_by_id j now i l q = (q', res)" by fastforce
    then show ?thesis
    proof (cases rule: claim_by_id_cases)
      case 1
      then show ?thesis using EvClaimById c assms by (cases res; cases "projr res") simp_all
    next
      case (2 s p)
      then have s: "s \<in> set (tq_rows q)" "claimable now s" by (auto simp: find_Some_iff)
      have "ct_id t = tr_id s" using 2 EvClaimById c assms(2) by auto
      then have "r = s"
        using row_of_mem [OF assms(3)] row_unique [OF assms(1), of r s] s by simp
      then show ?thesis using s unsettled by blast
    qed
  qed (use assms in simp_all)
qed

lemma retry_run:
  assumes "system_inv s" "row_of (qs_queue s) i = Some r" "\<forall>ev\<in>set es. keeps_row i ev"
  shows "\<exists>r'. row_of (qs_queue (foldl (queue_step j) s es)) i = Some r' \<and> evolves r r' \<and>
    tr_retry_count r + fail_count j i s es \<le> tr_retry_count r' \<and>
    (0 < fail_count j i s es \<longrightarrow> tr_retry_count r + fail_count j i s es \<le> tr_max_retries r)"
  using assms
proof (induction es arbitrary: s r)
  case (Cons ev es)
  obtain r1 where r1: "row_of (qs_queue (queue_step j s ev)) i = Some r1" "evolves r r1"
    using queue_step_evolves [OF Cons.prems(2), of ev j] Cons.prems(3) by auto
  have count: "tr_retry_count r + (if fails_ok i s ev then 1 else 0) \<le> tr_retry_count r1 \<and>
      (fails_ok i s ev \<longrightarrow> tr_retry_count r1 = tr_retry_count r + 1 \<and> tr_retry_count r + 1 \<le> tr_max_retries r)"
  proof (cases "fails_ok i s ev")
    case True
    then obtain now e where ev: "ev = EvFail now i e" "snd (fail now i e (qs_queue s)) = Inr ()"
      by (auto simp: fails_ok_def split: queue_event.splits)
    have inv: "queue_inv (qs_queue s)" using Cons.prems(1) by (simp add: system_inv_def)
    have "r1 = r1'" if "row_of (fst (fail now i e (qs_queue s))) i = Some r1'" for r1'
      using queue_step_call [of ev j s] ev r1(1) that by simp
    moreover have "tr_retry_count r < tr_max_retries r" if "tr_status r = Running"
      using inv row_of_Some [OF inv, of i r] Cons.prems(2) that by (simp add: queue_inv_def row_inv_def)
    ultimately show ?thesis using fail_ok_row [OF Cons.prems(2) inv ev(2)] by force
  qed (use r1(2) in \<open>simp add: evolves_def\<close>)
  from Cons.IH [OF system_inv_step [OF Cons.prems(1)] r1(1)] Cons.prems(3)
  obtain r' where r': "row_of (qs_queue (foldl (queue_step j) (queue_step j s ev) es)) i = Some r'"
    "evolves r1 r'" "tr_retry_count r1 + fail_count j i (queue_step j s ev) es \<le> tr_retry_count r'"
    "0 < fail_count j i (queue_step j s ev) es \<longrightarrow>
       tr_retry_count r1 + fail_count j i (queue_step j s ev) es \<le> tr_max_retries r1"
    by auto
  have "tr_max_retries r1 = tr_max_retries r" using r1(2) by (simp add: evolves_def)
  moreover have "0 \<le> fail_count j i (queue_step j s ev) es" by (rule fail_count_nonneg)
  ultimately show ?case
    using r'(1,3,4) evolves_trans [OF r1(2) r'(2)] count by (cases "fails_ok i s ev") auto
qed simp

text \<open>C11: The retry budget is kept and settled tasks stay settled. As long as its row is not purged, a
  task records at most as many provider failures as it has retries left; once they are used up it is
  settled, and a settled task is never handed out again by any claim.\<close>

theorem retry_budget:
  assumes "system_inv s" "row_of (qs_queue s) i = Some r" "\<forall>ev\<in>set es. keeps_row i ev"
    and "n = fail_count j i s es" "s' = foldl (queue_step j) s es"
  shows "\<exists>r'. row_of (qs_queue s') i = Some r' \<and> tr_max_retries r' = tr_max_retries r \<and>
    (0 < n \<longrightarrow> tr_retry_count r + n \<le> tr_max_retries r) \<and>
    (tr_max_retries r \<le> tr_retry_count r + n \<or> settled r \<longrightarrow> settled r') \<and>
    (settled r' \<longrightarrow> (\<forall>e t. snd (queue_call j (qs_queue s') e) = Some t \<longrightarrow> ct_id t \<noteq> i))"
proof -
  obtain r' where r': "row_of (qs_queue s') i = Some r'" "evolves r r'"
    "tr_retry_count r + n \<le> tr_retry_count r'" "0 < n \<longrightarrow> tr_retry_count r + n \<le> tr_max_retries r"
    using retry_run [OF assms(1-3), of j] assms(4,5) by auto
  have inv: "queue_inv (qs_queue s')"
    using queue_sm.inv_run [OF assms(1), of j es] assms(5) by (simp add: system_inv_def)
  then have "row_inv r'" using row_of_Some [OF inv, of i r'] r'(1) by (simp add: queue_inv_def)
  then have "settled r'" if "tr_max_retries r \<le> tr_retry_count r + n"
    using that r'(2,3) by (cases "tr_status r'") (auto simp: row_inv_def settled_def evolves_def)
  moreover have "ct_id t \<noteq> i" if "settled r'" "snd (queue_call j (qs_queue s') e) = Some t" for e t
    using claims_unsettled [OF inv that(2)] r'(1) that(1) by blast
  ultimately show ?thesis using r' by (auto simp: evolves_def)
qed

section \<open>Enqueueing and purging\<close>

lemma enqueue_row:
  assumes "enqueue_with_stable_id_and_max_retries j now i p pr m q = (q', Inr (i', ins))"
  shows "i' = trim i \<and> i' \<noteq> [] \<and> 1 \<le> m \<and> m \<le> 20 \<and> validate_payload p = Inr () \<and>
    (ins \<longleftrightarrow> row_of q i' = None) \<and> (\<not> ins \<longrightarrow> q' = q) \<and>
    (\<exists>r. row_of q' i' = Some r \<and> tr_payload r = to_json j p \<and> tr_max_retries r = m \<and>
       (ins \<longrightarrow> tr_retry_count r = 0 \<and> tr_status r = Pending \<and> tq_rows q' = tq_rows q @ [r]))"
proof -
  have new: "find (\<lambda>r. tr_id r = x) (rs @ [a]) = (if tr_id a = x then Some a else None)"
    if "find (\<lambda>r. tr_id r = x) rs = None" for x and rs :: "task_row list" and a
    using that by (induction rs) (auto split: if_splits)
  show ?thesis
    using assms
    by (auto simp: enqueue_with_stable_id_and_max_retries_def Let_def row_of_def new
        split: if_splits sum.splits option.splits)
qed

text \<open>A stable identifier names one piece of work. Enqueueing returns the trimmed identifier and
  leaves a row with exactly this payload and retry policy; repeating the call changes nothing and
  says so, whatever the priority and the time, and any other payload or retry policy under the
  identifier is refused without changing the queue.\<close>

theorem enqueue_idempotent:
  assumes "of_json j (to_json j p) = Inr p" "of_json j (to_json j p') = Inr p'"
    and "enqueue_with_stable_id_and_max_retries j now i p pr m q = (q', Inr (i', ins))"
    and "validate_payload p' = Inr ()" "1 \<le> m'" "m' \<le> 20"
  shows "i' = trim i \<and> (ins \<longleftrightarrow> row_of q i' = None) \<and> (\<not> ins \<longrightarrow> q' = q) \<and>
    (\<exists>r. row_of q' i' = Some r \<and> tr_payload r = to_json j p \<and> tr_max_retries r = m) \<and>
    fst (enqueue_with_stable_id_and_max_retries j now' i p' pr' m' q') = q' \<and>
    (snd (enqueue_with_stable_id_and_max_retries j now' i p' pr' m' q') = Inr (i', False) \<longleftrightarrow>
       p' = p \<and> m' = m) \<and>
    ((\<exists>e. snd (enqueue_with_stable_id_and_max_retries j now' i p' pr' m' q') = Inl e) \<longleftrightarrow>
       p' \<noteq> p \<or> m' \<noteq> m)"
proof -
  note row = enqueue_row [OF assms(3)]
  then obtain r where r: "row_of q' i' = Some r" "tr_payload r = to_json j p" "tr_max_retries r = m"
    by blast
  have inj: "to_json j p = to_json j p' \<longleftrightarrow> p = p'"
    using assms(1,2) by (metis sum.inject(2))
  have "enqueue_with_stable_id_and_max_retries j now' i p' pr' m' q' =
      (q', if p' = p \<and> m' = m then Inr (i', False)
           else Inl (ValidationFailed (lit ''stable task id '' @ i' @
                           lit '' is already bound to another payload or retry policy'')))"
    using r row assms(4-6) inj by (auto simp: enqueue_with_stable_id_and_max_retries_def Let_def)
  with row r show ?thesis by simp
qed

text \<open>C12: An explicit authorisation is used at most once. A task enqueued with \<^verbatim>\<open>enqueue_once\<close>
  records at most one provider failure, and after it the task is never handed out again, through
  any calls that do not purge it.\<close>

theorem authorised_once:
  assumes "system_inv s" "enqueue_once_with_stable_id j now i p pr (qs_queue s) = (q', Inr (i', True))"
    and "\<forall>ev\<in>set es. keeps_row i' ev"
    and "s' = foldl (queue_step j) (s\<lparr>qs_queue := q'\<rparr>) es"
  shows "fail_count j i' (s\<lparr>qs_queue := q'\<rparr>) es \<le> 1 \<and>
    (fail_count j i' (s\<lparr>qs_queue := q'\<rparr>) es = 1 \<longrightarrow>
       (\<forall>e t. snd (queue_call j (qs_queue s') e) = Some t \<longrightarrow> ct_id t \<noteq> i'))"
proof -
  have enq: "enqueue_with_stable_id_and_max_retries j now i p pr 1 (qs_queue s) = (q', Inr (i', True))"
    using assms(2) by (simp add: enqueue_once_with_stable_id_def)
  have inv: "system_inv (s\<lparr>qs_queue := q'\<rparr>)"
    using assms(1) queue_inv_enqueue [of "qs_queue s" j now i p pr 1]
      enqueue_permits [of j now i p pr 1 "qs_queue s"] enq by (simp add: system_inv_def)
  obtain r where r: "row_of q' i' = Some r" "tr_max_retries r = 1" "tr_retry_count r = 0"
    using enqueue_row [OF enq] by blast
  have row: "row_of (qs_queue (s\<lparr>qs_queue := q'\<rparr>)) i' = Some r" using r(1) by simp
  let ?n = "fail_count j i' (s\<lparr>qs_queue := q'\<rparr>) es"
  obtain r' where r': "row_of (qs_queue s') i' = Some r'" "0 < ?n \<longrightarrow> ?n \<le> 1"
    "0 + ?n \<le> tr_retry_count r'" "evolves r r'"
    using retry_run [OF inv row assms(3), of j] r(2,3) assms(4) by auto
  have inv': "queue_inv (qs_queue s')"
    using queue_sm.inv_run [OF inv, of j es] assms(4) by (simp add: system_inv_def)
  have "row_inv r'" using row_of_mem [OF r'(1)] inv' by (simp add: queue_inv_def)
  then have "settled r'" if "?n = 1"
    using that r' r(2) by (cases "tr_status r'") (auto simp: row_inv_def settled_def evolves_def)
  then have "\<forall>e t. snd (queue_call j (qs_queue s') e) = Some t \<longrightarrow> ct_id t \<noteq> i'" if "?n = 1"
    using claims_unsettled [OF inv'] r'(1) that by blast
  moreover have "?n \<le> 1" using r'(2) by linarith
  ultimately show ?thesis by blast
qed

definition belongs :: "payload_json \<Rightarrow> ustring \<Rightarrow> task_row \<Rightarrow> bool" where
  "belongs j sid r \<longleftrightarrow> (case of_json j (tr_payload r) of Inl _ \<Rightarrow> False | Inr p \<Rightarrow> session_id_of p = sid)"

lemma matching_ids_Inr:
  "matching_ids j sid rs = Inr ids \<longleftrightarrow>
     (\<forall>r\<in>set rs. \<exists>p. of_json j (tr_payload r) = Inr p) \<and> ids = map tr_id (filter (belongs j sid) rs)"
  by (induction rs arbitrary: ids) (auto simp: and_then_eq_Inr belongs_def split: sum.splits)

lemma fold_delete_rows:
  "tq_rows (fold (\<lambda>i q. fst (sql_delete (\<lambda>r. tr_id r = i) q)) ids q) =
     filter (\<lambda>r. tr_id r \<notin> set ids) (tq_rows q)"
proof (induction ids arbitrary: q)
  case (Cons i ids)
  then show ?case by (simp add: conj_commute)
qed simp

text \<open>C24: Purging a session removes exactly the tasks whose payload names it, and says how many; a
  later listing finds none. If some payload in the table does not decode, nothing is removed.\<close>

theorem purge_session_exact:
  assumes "queue_inv q"
  shows "(case purge_session j sid q of
      (q', Inl e) \<Rightarrow> q' = q \<and> (\<exists>r\<in>set (tq_rows q). \<exists>m. of_json j (tr_payload r) = Inl m)
    | (q', Inr n) \<Rightarrow>
        tq_rows q' = filter (\<lambda>r. \<not> belongs j sid r) (tq_rows q) \<and>
        n = length (filter (belongs j sid) (tq_rows q)) \<and> tq_permits q' = tq_permits q \<and>
        list_session_task_ids j sid q' = Inr [])"
proof (cases "matching_task_ids j sid q")
  case (Inl e)
  have "\<exists>r\<in>set (tq_rows q). \<exists>m. of_json j (tr_payload r) = Inl m"
  proof (rule ccontr)
    assume "\<not> ?thesis"
    then have "\<forall>r\<in>set (sort_key tr_id (tq_rows q)). \<exists>p. of_json j (tr_payload r) = Inr p"
      by (metis set_sort sumE)
    then show False
      using matching_ids_Inr [of j sid "sort_key tr_id (tq_rows q)"
          "map tr_id (filter (belongs j sid) (sort_key tr_id (tq_rows q)))"] Inl
      by (simp add: matching_task_ids_def)
  qed
  then show ?thesis using Inl by (simp add: purge_session_def)
next
  case (Inr ids)
  have dec: "\<forall>r\<in>set (tq_rows q). \<exists>p. of_json j (tr_payload r) = Inr p"
    and ids: "ids = map tr_id (filter (belongs j sid) (sort_key tr_id (tq_rows q)))"
    using Inr matching_ids_Inr [of j sid "sort_key tr_id (tq_rows q)"]
    by (simp_all add: matching_task_ids_def)
  have n: "length ids = length (filter (belongs j sid) (tq_rows q))"
    unfolding ids by (simp add: filter_sort)
  have mem: "tr_id r \<in> set ids \<longleftrightarrow> belongs j sid r" if "r \<in> set (tq_rows q)" for r
    using row_unique [OF assms that] that by (auto simp: ids)
  let ?q = "fold (\<lambda>i q. fst (sql_delete (\<lambda>r. tr_id r = i) q)) ids q"
  have rows: "tq_rows ?q = filter (\<lambda>r. \<not> belongs j sid r) (tq_rows q)"
    unfolding fold_delete_rows by (rule filter_cong) (use mem in auto)
  have "filter (belongs j sid) (sort_key tr_id (tq_rows ?q)) = []"
    by (simp add: filter_empty_conv rows)
  then have "list_session_task_ids j sid ?q = Inr []"
    unfolding list_session_task_ids_def matching_task_ids_def matching_ids_Inr
    using dec by (simp add: rows)
  then show ?thesis
    using Inr rows n purge_session_rows [OF assms, of ids] by (simp add: purge_session_def)
qed

section \<open>Witnesses\<close>

definition demo_task :: task_payload where
  "demo_task = Transcribe (lit ''s1'') None (Some (soniox_post_recording_at 1))"

text \<open>A codec that knows one payload.\<close>

definition demo_json :: payload_json where
  "demo_json =
     \<lparr>to_json = (\<lambda>p. if p = demo_task then lit ''ok'' else lit ''other''),
      of_json = (\<lambda>s. if s = lit ''ok'' then Inr demo_task else Inl (lit ''bad''))\<rparr>"

definition demo_row :: "ustring \<Rightarrow> ustring \<Rightarrow> int \<Rightarrow> task_row" where
  "demo_row i payload pr =
     \<lparr>tr_id = i, tr_payload = payload, tr_status = Pending, tr_priority = pr, tr_retry_count = 0,
      tr_max_retries = 1, tr_lease_expires_at_ms = None, tr_last_heartbeat_at_ms = None,
      tr_error_msg = None, tr_created_at = 0, tr_updated_at = 0\<rparr>"

definition demo_queue :: task_queue where
  "demo_queue =
     \<lparr>tq_rows = [demo_row [1] (lit ''junk'') 10, demo_row [2] (lit ''ok'') 0, demo_row [3] (lit ''ok'') 5],
      tq_permits = 2\<rparr>"

definition demo_system :: queue_system where
  "demo_system = \<lparr>qs_queue = demo_queue, qs_held = []\<rparr>"

lemma demo_system_inv: "system_inv demo_system" "queue_inv demo_queue"
  by (simp_all add: system_inv_def demo_system_def demo_queue_def queue_inv_def row_inv_def demo_row_def)

lemma demo_task_valid: "validate_payload demo_task = Inr ()"
  by (simp add: validate_payload_def demo_task_def authorization_validate_def soniox_post_recording_at_def
      trim_eq_Nil_iff Let_def) (simp add: lit_def is_whitespace_def)

lemma demo_decode: "decode_payload demo_json (lit ''ok'') = Inr demo_task"
  "\<exists>e. decode_payload demo_json (lit ''junk'') = Inl e"
  by (simp_all add: decode_payload_def demo_json_def demo_task_valid)

lemma demo_claim:
  "\<exists>q'. claim_next demo_json (\<lambda>_. 5000) 60 demo_queue =
     (q', Some \<lparr>ct_id = [3], ct_payload = demo_task, ct_retry_count = 0\<rparr>)"
proof -
  obtain e where e: "decode_payload demo_json (lit ''junk'') = Inl e" using demo_decode(2) by blast
  have "claim_loop demo_json (\<lambda>_. 5000) 0 60 demo_queue =
      (fst (take_lease 5000 60 [3] (fst (quarantine 5000 e [1] demo_queue))),
       Some \<lparr>ct_id = [3], ct_payload = demo_task, ct_retry_count = 0\<rparr>)"
    by (subst claim_loop_turn, simp add: demo_queue_def demo_row_def claimable_def ranks_before_def e)
      (subst claim_loop_turn, simp add: quarantine_def sql_update_def quarantined_def demo_row_def
        claimable_def ranks_before_def demo_decode)
  then show ?thesis by (simp add: claim_next_def demo_queue_def)
qed

theorem claim_next_best_task_witness:
  "\<exists>q'. claim_next demo_json (\<lambda>_. 5000) 60 demo_queue =
     (q', Some \<lparr>ct_id = [3], ct_payload = demo_task, ct_retry_count = 0\<rparr>) \<and>
     tq_permits q' = 1 \<and> row_of q' [2] = Some (demo_row [2] (lit ''ok'') 0)"
proof -
  obtain q' where q': "claim_next demo_json (\<lambda>_. 5000) 60 demo_queue =
     (q', Some \<lparr>ct_id = [3], ct_payload = demo_task, ct_retry_count = 0\<rparr>)"
    using demo_claim by blast
  have "mono (\<lambda>_ :: nat. 5000 :: int)" "0 < tq_permits demo_queue"
    by (simp_all add: mono_def demo_queue_def)
  note spec = claim_next_best_task [OF this(1) demo_system_inv(2) this(2) q']
  have "tq_permits q' = tq_permits demo_queue - 1" using spec by blast
  moreover have "row_of demo_queue [2] = Some (demo_row [2] (lit ''ok'') 0)"
    by (simp add: row_of_def demo_queue_def demo_row_def)
  then have "row_of q' [2] = Some (demo_row [2] (lit ''ok'') 0) \<or>
    (\<exists>e. decode_payload demo_json (tr_payload (demo_row [2] (lit ''ok'') 0)) = Inl e)"
    using spec [THEN conjunct2, THEN conjunct2, rule_format, of "[2]" "demo_row [2] (lit ''ok'') 0"]
    by auto
  then have "row_of q' [2] = Some (demo_row [2] (lit ''ok'') 0)"
    using demo_decode(1) by (simp add: demo_row_def)
  ultimately show ?thesis using q' by (simp add: demo_queue_def)
qed

theorem queue_reachable_witness:
  "length (qs_held (foldl (queue_step demo_json) fresh_queue
     [EvEnqueue 0 [7] demo_task High, EvClaimNext (\<lambda>_. 1) 60, EvFail 2 [7] [], EvDrop 0])) \<le> 2"
  using queue_reachable [of demo_json "[EvEnqueue 0 [7] demo_task High, EvClaimNext (\<lambda>_. 1) 60,
      EvFail 2 [7] [], EvDrop 0]"]
  by (simp only: Let_def)

definition demo_running :: queue_system where
  "demo_running =
     \<lparr>qs_queue = \<lparr>tq_rows = [(demo_row [2] (lit ''ok'') 0)\<lparr>tr_status := Running,
         tr_lease_expires_at_ms := Some 9000, tr_last_heartbeat_at_ms := Some 5000\<rparr>], tq_permits = 2\<rparr>,
      qs_held = []\<rparr>"

lemma demo_running_inv: "system_inv demo_running"
  by (simp add: system_inv_def demo_running_def queue_inv_def row_inv_def demo_row_def)

theorem lease_exclusive_witness:
  "snd (queue_call demo_json (qs_queue (foldl (queue_step demo_json) demo_running
       [EvClaimById 8000 [2] 5, EvHeartbeat 8000 [9] 5])) (EvClaimNext (\<lambda>_. 8999) 5)) \<noteq>
     Some \<lparr>ct_id = [2], ct_payload = demo_task, ct_retry_count = 0\<rparr>"
proof -
  have "row_of (qs_queue demo_running) [2] = Some ((demo_row [2] (lit ''ok'') 0)\<lparr>tr_status := Running,
         tr_lease_expires_at_ms := Some 9000, tr_last_heartbeat_at_ms := Some 5000\<rparr>)"
    by (simp add: demo_running_def row_of_def demo_row_def)
  from lease_exclusive [OF demo_running_inv this, of 9000 "[EvClaimById 8000 [2] 5, EvHeartbeat 8000 [9] 5]"
      "EvClaimNext (\<lambda>_. 8999) 5" demo_json]
  show ?thesis by (auto simp: mono_def)
qed

theorem retry_budget_witness:
  "\<exists>r'. row_of (qs_queue (foldl (queue_step demo_json) demo_running
        [EvFail 6000 [2] [], EvRecover 7000])) [2] = Some r' \<and>
     tr_max_retries r' = 1 \<and> settled r'"
proof -
  let ?r = "(demo_row [2] (lit ''ok'') 0)\<lparr>tr_status := Running,
         tr_lease_expires_at_ms := Some 9000, tr_last_heartbeat_at_ms := Some 5000\<rparr>"
  let ?es = "[EvFail 6000 [2] [], EvRecover 7000]"
  have r: "row_of (qs_queue demo_running) [2] = Some ?r"
    by (simp add: demo_running_def row_of_def demo_row_def)
  have n: "fail_count demo_json [2] demo_running ?es = 1"
    by (simp add: fails_ok_def fail_def r)
      (simp add: demo_running_def demo_row_def sql_update_def require_updated_def Let_def)
  have "\<forall>ev\<in>set ?es. keeps_row [2] ev" by simp
  from retry_budget [OF demo_running_inv r this n [symmetric] refl]
  obtain r' where "row_of (qs_queue (foldl (queue_step demo_json) demo_running ?es)) [2] = Some r'"
    "tr_max_retries r' = tr_max_retries ?r"
    "tr_max_retries ?r \<le> tr_retry_count ?r + 1 \<or> settled ?r \<longrightarrow> settled r'" by blast
  then show ?thesis by (simp add: demo_row_def)
qed

theorem purge_session_exact_witness:
  "case purge_session demo_json (lit ''s1'') \<lparr>tq_rows = [demo_row [2] (lit ''ok'') 0], tq_permits = 2\<rparr> of
     (q', Inl e) \<Rightarrow> False | (q', Inr n) \<Rightarrow> n = 1 \<and> tq_rows q' = []"
proof -
  let ?q = "\<lparr>tq_rows = [demo_row [2] (lit ''ok'') 0], tq_permits = 2\<rparr>"
  have "queue_inv ?q" by (simp add: queue_inv_def row_inv_def demo_row_def)
  from purge_session_exact [OF this, of demo_json "lit ''s1''"]
  show ?thesis
    by (auto simp: demo_row_def demo_json_def belongs_def demo_task_def split: prod.splits sum.splits)
qed

lemma demo_enqueue:
  "enqueue_with_stable_id_and_max_retries demo_json 0 (lit '' t1 '') demo_task High 1
     \<lparr>tq_rows = [], tq_permits = 2\<rparr> =
   (\<lparr>tq_rows = [(demo_row (lit ''t1'') (lit ''ok'') 10)], tq_permits = 2\<rparr>, Inr (lit ''t1'', True))"
proof -
  have "trim (lit '' t1 '') = lit ''t1''"
    by (simp add: trim_def trim_start_def trim_end_def lit_def is_whitespace_def)
  then show ?thesis
    by (simp add: enqueue_with_stable_id_and_max_retries_def Let_def demo_task_valid row_of_def
        demo_json_def demo_row_def datetime_now_def)
qed

theorem enqueue_idempotent_witness:
  "fst (enqueue_with_stable_id_and_max_retries demo_json 7 (lit '' t1 '') demo_task Low 3
     \<lparr>tq_rows = [(demo_row (lit ''t1'') (lit ''ok'') 10)], tq_permits = 2\<rparr>) =
   \<lparr>tq_rows = [(demo_row (lit ''t1'') (lit ''ok'') 10)], tq_permits = 2\<rparr> \<and>
   (\<exists>e. snd (enqueue_with_stable_id_and_max_retries demo_json 7 (lit '' t1 '') demo_task Low 3
     \<lparr>tq_rows = [(demo_row (lit ''t1'') (lit ''ok'') 10)], tq_permits = 2\<rparr>) = Inl e)"
proof -
  have "of_json demo_json (to_json demo_json demo_task) = Inr demo_task"
    by (simp add: demo_json_def)
  note json = this
  have m: "1 \<le> (3 :: int)" "(3 :: int) \<le> 20" "(3 :: int) \<noteq> 1" by simp_all
  from enqueue_idempotent [OF json json demo_enqueue demo_task_valid m(1,2), of 7 Low] m(3)
  show ?thesis by blast
qed

theorem authorised_once_witness:
  "fail_count demo_json (lit ''t1'')
     \<lparr>qs_queue = \<lparr>tq_rows = [demo_row (lit ''t1'') (lit ''ok'') 10], tq_permits = 2\<rparr>, qs_held = []\<rparr>
     [EvClaimById 5 (lit ''t1'') 60, EvFail 6 (lit ''t1'') [], EvRecover 7,
      EvClaimById 8 (lit ''t1'') 60, EvFail 9 (lit ''t1'') []] \<le> 1"
proof -
  have enq: "enqueue_once_with_stable_id demo_json 0 (lit '' t1 '') demo_task High (qs_queue fresh_queue) =
   (\<lparr>tq_rows = [(demo_row (lit ''t1'') (lit ''ok'') 10)], tq_permits = 2\<rparr>, Inr (lit ''t1'', True))"
    using demo_enqueue by (simp add: enqueue_once_with_stable_id_def fresh_queue_def)
  have "\<forall>ev\<in>set [EvClaimById 5 (lit ''t1'') 60, EvFail 6 (lit ''t1'') [], EvRecover 7,
      EvClaimById 8 (lit ''t1'') 60, EvFail 9 (lit ''t1'') []]. keeps_row (lit ''t1'') ev" by simp
  from authorised_once [OF system_inv_fresh enq this refl] show ?thesis
    by (simp only: fresh_queue_def queue_system.update_convs)
qed

end
