(* ===== verification/Mirror_Value.thy ===== *)
theory Mirror_Value
  imports Prelude Complex_Main
begin

text \<open>
  \<^verbatim>\<open>crates/vt-mirror/src/value.rs\<close>: the JSON values of the mirror, equality with the number
  semantics of JavaScript, and reading and writing along a path. A \<^verbatim>\<open>serde_json::Map\<close> is a
  \<^verbatim>\<open>BTreeMap\<close>, here the list of its entries in key order. A float is the rational number it denotes
  (\<^verbatim>\<open>serde_json\<close> has neither NaN nor infinities, and the two zeros compare equal); an integer is
  rounded to the nearest double, ties to even, by \<open>f64_of_int\<close>.
\<close>

section \<open>Values\<close>

datatype json_number = PosInt nat | NegInt int | Float rat

datatype json =
    JNull
  | JBool bool
  | JNumber json_number
  | JString ustring
  | JArray "json list"
  | JObject "(ustring \<times> json) list"

text \<open>The value of an integer as a double: below \<open>2 ^ 53\<close> exact, otherwise the top 53 bits with the
  rest rounded to nearest even. \<open>bit_length\<close> counts the binary digits.\<close>

fun bit_length :: "nat \<Rightarrow> nat" where
  "bit_length n = (if n = 0 then 0 else Suc (bit_length (n div 2)))"

declare bit_length.simps [simp del]

definition round_53 :: "nat \<Rightarrow> nat" where
  "round_53 n =
     (let k = bit_length n - 53; q = n div 2 ^ k; r = n mod 2 ^ k
      in if k = 0 then n
         else if 2 ^ k < 2 * r \<or> (2 ^ k = 2 * r \<and> odd q) then (q + 1) * 2 ^ k
         else q * 2 ^ k)"

definition f64_of_int :: "int \<Rightarrow> rat" where
  "f64_of_int i = (if i < 0 then - of_nat (round_53 (nat (- i))) else of_nat (round_53 (nat i)))"

fun as_f64 :: "json_number \<Rightarrow> rat" where
  "as_f64 (PosInt n) = f64_of_int (int n)"
| "as_f64 (NegInt i) = f64_of_int i"
| "as_f64 (Float d) = d"

definition is_object :: "json \<Rightarrow> bool" where
  "is_object v = (case v of JObject _ \<Rightarrow> True | _ \<Rightarrow> False)"

definition is_array :: "json \<Rightarrow> bool" where
  "is_array v = (case v of JArray _ \<Rightarrow> True | _ \<Rightarrow> False)"

definition is_string :: "json \<Rightarrow> bool" where
  "is_string v = (case v of JString _ \<Rightarrow> True | _ \<Rightarrow> False)"

section \<open>Equality\<close>

lemma size_json_array: "x \<in> set xs \<Longrightarrow> size x < size (JArray xs)"
  by (induction xs) auto

lemma size_json_object: "(k, x) \<in> set m \<Longrightarrow> size x < size (JObject m)"
  by (induction m) auto

text \<open>The clauses are those of the \<^verbatim>\<open>match\<close>; values of different kinds are compared as they are.\<close>

function deep_equal :: "json \<Rightarrow> json \<Rightarrow> bool" where
  "deep_equal a b =
     (case (a, b) of
        (JNumber x, JNumber y) \<Rightarrow> as_f64 x = as_f64 y
      | (JArray xs, JArray ys) \<Rightarrow>
          length xs = length ys \<and> list_all (\<lambda>(x, y). deep_equal x y) (zip xs ys)
      | (JObject xs, JObject ys) \<Rightarrow>
          length xs = length ys \<and>
          list_all (\<lambda>(k, x). case bt_get ys k of None \<Rightarrow> False | Some y \<Rightarrow> deep_equal x y) xs
      | _ \<Rightarrow> a = b)"
  by pat_completeness auto

termination deep_equal
proof (relation "measure (\<lambda>(a, b). size a)", goal_cases)
  case (2 a b aa ba x5 x5a z x y)
  then show ?case by (auto dest!: set_zip_leftD intro: size_json_array)
next
  case (3 a b aa ba x6 x6a z x y k)
  then show ?case using size_json_object by force
qed simp

declare deep_equal.simps [simp del]

lemma deep_equal_simps [simp]:
  "deep_equal (JNumber x) (JNumber y) \<longleftrightarrow> as_f64 x = as_f64 y"
  "deep_equal (JArray xs) (JArray ys) \<longleftrightarrow>
     length xs = length ys \<and> list_all (\<lambda>(x, y). deep_equal x y) (zip xs ys)"
  "deep_equal (JObject m) (JObject n) \<longleftrightarrow>
     length m = length n \<and>
     list_all (\<lambda>(k, x). case bt_get n k of None \<Rightarrow> False | Some y \<Rightarrow> deep_equal x y) m"
  by (subst deep_equal.simps, simp)+

text \<open>Every object at any depth is a \<^verbatim>\<open>BTreeMap\<close>: its keys ascend.\<close>

fun json_wf :: "json \<Rightarrow> bool" where
  "json_wf (JArray xs) \<longleftrightarrow> (\<forall>x\<in>set xs. json_wf x)"
| "json_wf (JObject m) \<longleftrightarrow> bt_wf m \<and> (\<forall>e\<in>set m. json_wf (snd e))"
| "json_wf _ \<longleftrightarrow> True"

text \<open>The reference: a value with every number replaced by the double it stands for.\<close>

fun canon :: "json \<Rightarrow> json" where
  "canon (JNumber n) = JNumber (Float (as_f64 n))"
| "canon (JArray xs) = JArray (map canon xs)"
| "canon (JObject m) = JObject (map (\<lambda>e. (fst e, canon (snd e))) m)"
| "canon v = v"

lemma bt_get_map: "bt_get (map (\<lambda>e. (fst e, f (snd e))) m) k = map_option f (bt_get m k)"
  by (induction m) (auto simp: bt_get_def)

lemma bt_wf_map: "bt_wf (map (\<lambda>e. (fst e, f (snd e))) m) = bt_wf m"
  by (simp add: bt_wf_def comp_def)

lemma bt_get_None_iff: "bt_get m k = None \<longleftrightarrow> k \<notin> fst ` set m"
  by (simp add: bt_get_def map_of_eq_None_iff)

lemma object_canon:
  assumes "bt_wf m" "bt_wf n" and eq: "\<And>k x y. (k, x) \<in> set m \<Longrightarrow> bt_get n k = Some y \<Longrightarrow>
      E x y \<longleftrightarrow> canon x = canon y"
  shows "length m = length n \<and> list_all (\<lambda>(k, x). case bt_get n k of None \<Rightarrow> False | Some y \<Rightarrow> E x y) m \<longleftrightarrow>
    map (\<lambda>e. (fst e, canon (snd e))) m = map (\<lambda>e. (fst e, canon (snd e))) n"
proof
  assume l: "length m = length n \<and> list_all (\<lambda>(k, x). case bt_get n k of None \<Rightarrow> False | Some y \<Rightarrow> E x y) m"
  have sub: "fst ` set m \<subseteq> fst ` set n"
    using l bt_get_None_iff [of n] by (force simp: list_all_iff split: option.splits)
  have "card (fst ` set m) = length m" "card (fst ` set n) = length n"
    using bt_wf_distinct [OF assms(1)] bt_wf_distinct [OF assms(2)] distinct_card by fastforce+
  then have dom: "fst ` set m = fst ` set n"
    using sub l by (intro card_subset_eq) simp_all
  show "map (\<lambda>e. (fst e, canon (snd e))) m = map (\<lambda>e. (fst e, canon (snd e))) n"
  proof (rule bt_ext, goal_cases)
    case 3
    have "bt_get (map (\<lambda>e. (fst e, canon (snd e))) m) k = bt_get (map (\<lambda>e. (fst e, canon (snd e))) n) k" for k
    proof (cases "bt_get m k")
      case None
      then have "bt_get n k = None" unfolding bt_get_None_iff dom .
      with None show ?thesis by (simp add: bt_get_map)
    next
      case (Some x)
      then have mem: "(k, x) \<in> set m" using bt_get_Some_in [OF assms(1)] by blast
      then obtain y where y: "bt_get n k = Some y" "E x y"
        using l by (force simp: list_all_iff split: option.splits)
      then show ?thesis using Some eq [OF mem] by (simp add: bt_get_map)
    qed
    then show ?case by blast
  qed (simp_all add: bt_wf_map assms)
next
  assume r: "map (\<lambda>e. (fst e, canon (snd e))) m = map (\<lambda>e. (fst e, canon (snd e))) n"
  have get: "map_option canon (bt_get m k) = map_option canon (bt_get n k)" for k
    unfolding bt_get_map [symmetric] r ..
  have "case bt_get n k of None \<Rightarrow> False | Some y \<Rightarrow> E x y" if "(k, x) \<in> set m" for k x
  proof -
    have "bt_get m k = Some x" using bt_get_Some_in [OF assms(1)] that by blast
    then obtain y where "bt_get n k = Some y" "canon x = canon y"
      using get [of k] by (cases "bt_get n k") auto
    then show ?thesis using eq [OF that] by simp
  qed
  then show "length m = length n \<and> list_all (\<lambda>(k, x). case bt_get n k of None \<Rightarrow> False | Some y \<Rightarrow> E x y) m"
    using arg_cong [OF r, of length] by (auto simp: list_all_iff)
qed

lemma array_canon:
  assumes "\<And>x y. (x, y) \<in> set (zip xs ys) \<Longrightarrow> E x y \<longleftrightarrow> canon x = canon y"
  shows "length xs = length ys \<and> list_all (\<lambda>(x, y). E x y) (zip xs ys) \<longleftrightarrow> map canon xs = map canon ys"
  using assms
  by (induction xs ys rule: list_induct2') (auto simp: list_all_iff)

lemma deep_equal_iff_canon:
  assumes "json_wf a" "json_wf b"
  shows "deep_equal a b \<longleftrightarrow> canon a = canon b"
  using assms
proof (induction "size a" arbitrary: a b rule: less_induct)
  case less
  show ?case
  proof (cases "(\<exists>xs ys. a = JArray xs \<and> b = JArray ys) \<or> (\<exists>m n. a = JObject m \<and> b = JObject n) \<or>
      (\<exists>x y. a = JNumber x \<and> b = JNumber y)")
    case False
    then have "deep_equal a b \<longleftrightarrow> a = b"
      by (subst deep_equal.simps) (auto split: json.splits)
    moreover have "canon a = canon b \<longleftrightarrow> a = b"
      using False by (cases a; cases b) auto
    ultimately show ?thesis by simp
  next
    case True
    then consider (arr) xs ys where "a = JArray xs" "b = JArray ys"
      | (obj) m n where "a = JObject m" "b = JObject n" | (num) x y where "a = JNumber x" "b = JNumber y"
      by blast
    then show ?thesis
    proof cases
      case arr
      have "deep_equal x y \<longleftrightarrow> canon x = canon y" if "(x, y) \<in> set (zip xs ys)" for x y
        using less that arr size_json_array set_zip_leftD set_zip_rightD
        by (metis json_wf.simps(1))
      then show ?thesis using array_canon [of xs ys deep_equal] arr by simp
    next
      case obj
      have "deep_equal x y \<longleftrightarrow> canon x = canon y" if "(k, x) \<in> set m" "bt_get n k = Some y" for k x y
      proof -
        have "(k, y) \<in> set n" using that(2) by (auto simp: bt_get_def dest: map_of_SomeD)
        then have "json_wf x" "json_wf y" using less.prems obj that(1) by force+
        then show ?thesis using less.hyps size_json_object [OF that(1)] obj by simp
      qed
      then show ?thesis using object_canon [of m n deep_equal] obj less.prems by simp
    qed simp
  qed
qed

text \<open>\<^verbatim>\<open>deep_equal\<close> is equality up to the double value of the numbers: two values are equal
  exactly when they become the same after every number, at any depth, is replaced by the double it
  denotes. So it is an equivalence relation, and the order in which an object is compared does not
  matter.\<close>

theorem deep_equal_canon:
  assumes "json_wf a" "json_wf b"
  shows "deep_equal a b \<longleftrightarrow> canon a = canon b"
  by (rule deep_equal_iff_canon [OF assms])

theorem deep_equal_canon_witness:
  "deep_equal (JObject [([1], JNumber (PosInt 9007199254740993))])
     (JObject [([1], JNumber (Float 9007199254740992))])"
proof -
  let ?a = "JObject [([1], JNumber (PosInt 9007199254740993))]"
  let ?b = "JObject [([1], JNumber (Float 9007199254740992))]"
  have "json_wf ?a" "json_wf ?b" by (simp_all add: bt_wf_def)
  moreover have "canon ?a = canon ?b"
    by (simp add: f64_of_int_def round_53_def bit_length.simps Let_def)
  ultimately show ?thesis using deep_equal_canon by blast
qed

lemma deep_equal_refl: "json_wf a \<Longrightarrow> deep_equal a a"
  by (simp add: deep_equal_iff_canon)

section \<open>Paths\<close>

text \<open>\<^verbatim>\<open>str::parse::<usize>\<close>: an optional plus sign and decimal digits, within 64 bits.\<close>

definition parse_usize :: "ustring \<Rightarrow> nat option" where
  "parse_usize s =
     (let digits = (case s of c # r \<Rightarrow> if c = 43 then r else s | [] \<Rightarrow> [])
      in if digits = [] \<or> (\<exists>c\<in>set digits. c < 48 \<or> 57 < c) then None
         else let n = foldl (\<lambda>a c. 10 * a + (c - 48)) 0 digits
              in if n \<le> u64_max then Some n else None)"

fun get_path_value :: "json \<Rightarrow> ustring list \<Rightarrow> json option" where
  "get_path_value v [] = Some v"
| "get_path_value (JObject m) (k # path) =
     (case bt_get m k of None \<Rightarrow> None | Some v \<Rightarrow> get_path_value v path)"
| "get_path_value (JArray xs) (k # path) =
     (case parse_usize k of
        None \<Rightarrow> None
      | Some i \<Rightarrow> if i < length xs then get_path_value (xs ! i) path else None)"
| "get_path_value _ (k # path) = None"

text \<open>\<^verbatim>\<open>Vec::resize(n, Null)\<close> when it grows the vector, and the two places where a value that is no
  container is replaced by an empty object.\<close>

definition grow :: "nat \<Rightarrow> json list \<Rightarrow> json list" where
  "grow n xs = xs @ replicate (n - length xs) JNull"

definition as_container :: "json \<Rightarrow> json" where
  "as_container v = (if is_object v \<or> is_array v then v else JObject [])"

definition set_last :: "json \<Rightarrow> ustring \<Rightarrow> json option \<Rightarrow> json" where
  "set_last current key value =
     (case current of
        JObject m \<Rightarrow>
          (case value of Some v \<Rightarrow> JObject (bt_insert key v m) | None \<Rightarrow> JObject (bt_remove key m))
      | JArray xs \<Rightarrow>
          (case parse_usize key of
             None \<Rightarrow> current
           | Some i \<Rightarrow>
             (case value of
                Some v \<Rightarrow> JArray ((grow (i + 1) xs)[i := v])
              | None \<Rightarrow> if i < length xs then JArray (xs[i := JNull]) else current))
      | _ \<Rightarrow> current)"

fun set_path_value :: "json \<Rightarrow> ustring list \<Rightarrow> json option \<Rightarrow> json" where
  "set_path_value current [] value = current"
| "set_path_value current [key] value = set_last current key value"
| "set_path_value current (key # k # path) value =
     (case as_container current of
        JObject m \<Rightarrow>
          JObject (bt_insert key
            (set_path_value
               (as_container (case bt_get m key of None \<Rightarrow> JObject [] | Some v \<Rightarrow> v)) (k # path) value) m)
      | JArray xs \<Rightarrow>
          (case parse_usize key of
             None \<Rightarrow> JArray xs
           | Some i \<Rightarrow>
               JArray ((grow (i + 1) xs)[i :=
                 set_path_value (as_container (grow (i + 1) xs ! i)) (k # path) value]))
      | _ \<Rightarrow> current)"

text \<open>The writes that arrive: no array on the way is indexed by something that is not a number, and
  the last step is taken in an object or an array.\<close>

fun arrives :: "json \<Rightarrow> ustring list \<Rightarrow> bool" where
  "arrives current [] = False"
| "arrives current [key] =
     (case current of JObject m \<Rightarrow> True | JArray xs \<Rightarrow> parse_usize key \<noteq> None | _ \<Rightarrow> False)"
| "arrives current (key # k # path) =
     (case as_container current of
        JObject m \<Rightarrow>
          arrives (as_container (case bt_get m key of None \<Rightarrow> JObject [] | Some v \<Rightarrow> v)) (k # path)
      | JArray xs \<Rightarrow>
          (case parse_usize key of
             None \<Rightarrow> False
           | Some i \<Rightarrow> arrives (as_container (grow (i + 1) xs ! i)) (k # path))
      | _ \<Rightarrow> False)"

lemma as_container_cases: "(\<exists>m. as_container v = JObject m) \<or> (\<exists>xs. as_container v = JArray xs)"
  by (cases v) (simp_all add: as_container_def is_object_def is_array_def)

lemma json_wf_as_container [simp]: "json_wf v \<Longrightarrow> json_wf (as_container v)"
  by (simp add: as_container_def)

lemma json_wf_grow: "json_wf (JArray xs) \<Longrightarrow> json_wf (JArray (grow n xs))"
  by (auto simp: grow_def)

lemma length_grow [simp]: "length (grow n xs) = max n (length xs)"
  by (simp add: grow_def)

lemma json_wf_bt_get: "json_wf (JObject m) \<Longrightarrow> bt_get m k = Some v \<Longrightarrow> json_wf v"
  by (auto simp: bt_get_def dest!: map_of_SomeD)

lemma set_bt_insert_subset: "set (bt_insert k v m) \<subseteq> insert (k, v) (set m)"
proof (induction m)
  case (Cons e m)
  then show ?case by (cases e) auto
qed simp

lemma json_wf_insert: "json_wf (JObject m) \<Longrightarrow> json_wf v \<Longrightarrow> json_wf (JObject (bt_insert k v m))"
  using set_bt_insert_subset [of k v m] by (fastforce simp: subset_iff)

lemma json_wf_remove: "json_wf (JObject m) \<Longrightarrow> json_wf (JObject (bt_remove k m))"
  by (auto simp: bt_remove_def intro: bt_wf_remove [unfolded bt_remove_def])

lemma json_wf_update: "json_wf (JArray xs) \<Longrightarrow> json_wf v \<Longrightarrow> json_wf (JArray (xs[i := v]))"
  using set_update_subset_insert [of xs i v] by (auto simp: subset_iff)

lemma json_wf_set_last:
  "json_wf c \<Longrightarrow> (\<And>v. value = Some v \<Longrightarrow> json_wf v) \<Longrightarrow> json_wf (set_last c key value)"
proof (cases c)
  case (JArray xs)
  assume wf: "json_wf c" "\<And>v. value = Some v \<Longrightarrow> json_wf v"
  then have "json_wf (JArray (xs[i := JNull]))" "json_wf (JArray ((grow n xs)[i := v]))"
    if "value = None \<or> value = Some v" "value = None \<longrightarrow> v = JNull" for i n v
    using JArray that by (auto intro!: json_wf_update json_wf_grow simp del: json_wf.simps(1))
  then show ?thesis
    using JArray wf by (auto simp: set_last_def simp del: json_wf.simps(1) split: option.splits)
next
  case (JObject m)
  assume "json_wf c" "\<And>v. value = Some v \<Longrightarrow> json_wf v"
  then show ?thesis
    using JObject json_wf_insert json_wf_remove
    by (simp add: set_last_def del: json_wf.simps split: option.splits)
qed (simp_all add: set_last_def)

lemma json_wf_set_path_value:
  "json_wf c \<Longrightarrow> (\<And>v. u = Some v \<Longrightarrow> json_wf v) \<Longrightarrow> json_wf (set_path_value c path u)"
proof (induction c path u rule: set_path_value.induct)
  case (2 current key u)
  then show ?case by (simp add: json_wf_set_last)
next
  case (3 current key k path u)
  have wf: "json_wf (as_container current)" using "3.prems"(1) by simp
  from as_container_cases [of current] show ?case
  proof (elim disjE exE)
    fix m assume m: "as_container current = JObject m"
    have "json_wf (as_container (case bt_get m key of None \<Rightarrow> JObject [] | Some v \<Rightarrow> v))"
      using wf json_wf_bt_get [of m key] by (simp add: m split: option.splits)
    then show ?thesis using 3 m wf json_wf_insert by simp
  next
    fix xs assume xs: "as_container current = JArray xs"
    show ?thesis
    proof (cases "parse_usize key")
      case (Some i)
      have g: "json_wf (JArray (grow (i + 1) xs))" using wf xs json_wf_grow by metis
      then have "json_wf (as_container (grow (i + 1) xs ! i))" by simp
      then have "json_wf (set_path_value (as_container (grow (i + 1) xs ! i)) (k # path) u)"
        using 3 xs Some by blast
      then show ?thesis using g json_wf_update xs Some by (simp del: json_wf.simps(1))
    qed (use xs wf in simp)
  qed
qed simp

text \<open>A write along a path is read back along the same path. When no array on the way is indexed
  by a word, \<^verbatim>\<open>set_path_value\<close> with a value makes \<^verbatim>\<open>get_path_value\<close> return it, creating what was
  missing; deleting leaves nothing there (a null in an array, which cannot have holes); other keys
  of the root object read as before; and well-formed values stay well-formed.\<close>

theorem set_then_get_path:
  assumes "json_wf obj" "json_wf v" "arrives obj path"
  shows "get_path_value (set_path_value obj path (Some v)) path = Some v \<and>
    (get_path_value (set_path_value obj path None) path = None \<or>
     get_path_value (set_path_value obj path None) path = Some JNull) \<and>
    (\<forall>m k q. obj = JObject m \<and> k \<noteq> hd path \<longrightarrow>
       get_path_value (set_path_value obj path (Some v)) (k # q) = get_path_value obj (k # q) \<and>
       get_path_value (set_path_value obj path None) (k # q) = get_path_value obj (k # q)) \<and>
    json_wf (set_path_value obj path (Some v)) \<and> json_wf (set_path_value obj path None)"
proof -
  have read: "(case u of Some v \<Rightarrow> get_path_value (set_path_value c p u) p = Some v
      | None \<Rightarrow> get_path_value (set_path_value c p u) p = None \<or>
                get_path_value (set_path_value c p u) p = Some JNull)"
    if "json_wf c" "arrives c p" for c p and u :: "json option"
    using that
  proof (induction c p u rule: set_path_value.induct)
    case (2 current key u)
    then show ?case
      by (cases current) (auto simp: set_last_def bt_simps split: option.splits)
  next
    case (3 current key k path u)
    have wf: "json_wf (as_container current)" using "3.prems"(1) by simp
    from as_container_cases [of current] show ?case
    proof (elim disjE exE)
      fix m assume m: "as_container current = JObject m"
      define child where "child = as_container (case bt_get m key of None \<Rightarrow> JObject [] | Some v \<Rightarrow> v)"
      have "json_wf child"
        using wf json_wf_bt_get [of m key] by (simp add: m child_def split: option.splits)
      moreover have "arrives child (k # path)" using "3.prems"(2) by (simp add: m child_def)
      moreover have "set_path_value current (key # k # path) u =
          JObject (bt_insert key (set_path_value child (k # path) u) m)"
        by (simp add: m child_def)
      moreover have "bt_get (bt_insert key x m) key = Some x" for x
        using wf m by (simp add: bt_simps)
      ultimately show ?thesis
        using "3.IH"(2) [OF m, folded child_def] by (simp del: set_path_value.simps split: option.splits)
    next
      fix xs assume xs: "as_container current = JArray xs"
      then obtain i where i: "parse_usize key = Some i" using "3.prems"(2) by (auto split: option.splits)
      define child where "child = as_container (grow (i + 1) xs ! i)"
      have "json_wf (JArray (grow (i + 1) xs))" using wf xs json_wf_grow by metis
      then have "json_wf child" by (simp add: child_def)
      moreover have "arrives child (k # path)" using "3.prems"(2) xs i by (simp add: child_def)
      moreover have "set_path_value current (key # k # path) u =
          JArray ((grow (i + 1) xs)[i := set_path_value child (k # path) u])"
        by (simp add: xs i child_def)
      moreover have "get_path_value (JArray ((grow (i + 1) xs)[i := x])) (key # q) = get_path_value x q" for x q
        using i by (simp add: less_max_iff_disj)
      ultimately show ?thesis
        using "3.IH"(1) [OF xs i, folded child_def]
        by (simp del: set_path_value.simps get_path_value.simps split: option.splits)
    qed
  qed simp
  have frame: "get_path_value (set_path_value (JObject m) p u) (k # q) = get_path_value (JObject m) (k # q)"
    if "json_wf (JObject m)" "arrives (JObject m) p" "k \<noteq> hd p" for m p k q and u :: "json option"
    using that
    by (cases p rule: remdups_adj.cases)
      (auto simp: set_last_def bt_simps as_container_def is_object_def split: option.splits)
  show ?thesis
    using read [OF assms(1,3), of "Some v"] read [OF assms(1,3), of None] frame assms
      json_wf_set_path_value [OF assms(1), of "Some v" path] json_wf_set_path_value [OF assms(1), of None path]
    by auto
qed

theorem set_then_get_path_witness:
  "get_path_value (set_path_value (JObject [(lit ''n'', JNumber (PosInt 7))]) [lit ''xs'', lit ''2''] (Some (JBool True)))
     [lit ''xs'', lit ''2''] = Some (JBool True)"
proof -
  let ?o = "JObject [(lit ''n'', JNumber (PosInt 7))]" and ?p = "[lit ''xs'', lit ''2'']"
  have "arrives ?o ?p"
    by (simp add: as_container_def is_object_def bt_get_def)
  moreover have "json_wf ?o" "json_wf (JBool True)" by (simp_all add: bt_wf_def)
  ultimately show ?thesis using set_then_get_path by blast
qed

end
