(* ===== verification/Mirror_Schema.thy ===== *)
theory Mirror_Schema
  imports Mirror_Value
begin

text \<open>
  \<^verbatim>\<open>crates/vt-mirror/src/schema.rs\<close>: schemas, validation and default values. A recursive schema
  refers to itself through a \<^verbatim>\<open>SchemaSlot\<close>, a cell filled once; here a slot is an index and
  \<open>slots\<close> says which schema, if any, it has been filled with.
\<close>

section \<open>Schemas\<close>

datatype container_type = CText | CMap | CList | CMovableList | CTree | CCounter

datatype validation_outcome = ValidOk | ValidFail | ValidFailWith ustring

record schema_options =
  so_required :: bool
  so_default_value :: "json option"
  so_validate :: "(json \<Rightarrow> validation_outcome) option"

definition default_options :: schema_options where
  "default_options = \<lparr>so_required = False, so_default_value = None, so_validate = None\<rparr>"

definition required_options :: schema_options where
  "required_options = default_options\<lparr>so_required := True\<rparr>"

type_synonym id_selector = "json \<Rightarrow> ustring option"

datatype schema =
    SString schema_options
  | SNumber schema_options
  | SBoolean schema_options
  | SIgnore schema_options
  | SText schema_options
  | SMap "(ustring \<times> schema) list" schema_options
  | SList nat "id_selector option" schema_options
  | SMovableList nat "id_selector option" schema_options
  | SRoot "(ustring \<times> schema) list" schema_options

type_synonym slots = "nat \<Rightarrow> schema option"

text \<open>\<^verbatim>\<open>SchemaSlot::fill\<close>: None is the panic of a second filling.\<close>

definition slot_fill :: "slots \<Rightarrow> nat \<Rightarrow> schema \<Rightarrow> slots option" where
  "slot_fill slots i item = (if slots i = None then Some (slots(i \<mapsto> item)) else None)"

fun schema_opts :: "schema \<Rightarrow> schema_options" where
  "schema_opts (SString opts) = opts"
| "schema_opts (SNumber opts) = opts"
| "schema_opts (SBoolean opts) = opts"
| "schema_opts (SIgnore opts) = opts"
| "schema_opts (SText opts) = opts"
| "schema_opts (SMap _ opts) = opts"
| "schema_opts (SList _ _ opts) = opts"
| "schema_opts (SMovableList _ _ opts) = opts"
| "schema_opts (SRoot _ opts) = opts"

fun schema_container_type :: "schema \<Rightarrow> container_type option" where
  "schema_container_type (SText _) = Some CText"
| "schema_container_type (SMap _ _) = Some CMap"
| "schema_container_type (SRoot _ _) = Some CMap"
| "schema_container_type (SList _ _ _) = Some CList"
| "schema_container_type (SMovableList _ _ _) = Some CMovableList"
| "schema_container_type _ = None"

fun is_container_schema :: "schema \<Rightarrow> bool" where
  "is_container_schema (SMap _ _) = True"
| "is_container_schema (SList _ _ _) = True"
| "is_container_schema (SMovableList _ _ _) = True"
| "is_container_schema (SText _) = True"
| "is_container_schema _ = False"

section \<open>Validation\<close>

definition is_number :: "json \<Rightarrow> bool" where
  "is_number v = (case v of JNumber _ \<Rightarrow> True | _ \<Rightarrow> False)"

definition is_boolean :: "json \<Rightarrow> bool" where
  "is_boolean v = (case v of JBool _ \<Rightarrow> True | _ \<Rightarrow> False)"

definition custom_errors :: "schema \<Rightarrow> json \<Rightarrow> ustring list" where
  "custom_errors s v =
     (case so_validate (schema_opts s) of
        None \<Rightarrow> []
      | Some validate \<Rightarrow>
        (case validate v of
           ValidOk \<Rightarrow> []
         | ValidFail \<Rightarrow> [lit ''Value failed custom validation'']
         | ValidFailWith m \<Rightarrow> [m]))"

definition prefixed_errors :: "ustring \<Rightarrow> ustring list + unit \<Rightarrow> ustring list" where
  "prefixed_errors p r = (case r of Inl es \<Rightarrow> map (\<lambda>e. p @ lit '': '' @ e) es | Inr _ \<Rightarrow> [])"

definition unless_error :: "bool \<Rightarrow> string \<Rightarrow> ustring list" where
  "unless_error ok message = (if ok then [] else [lit message])"

function validate_schema :: "slots \<Rightarrow> schema \<Rightarrow> json option \<Rightarrow> ustring list + unit" where
  "validate_schema slots s v =
     (if v = None \<or> v = Some JNull
      then (if so_required (schema_opts s) then Inl [lit ''Value is required''] else Inr ())
      else
        (let x = the v;
             errors =
               (case s of
                  SString _ \<Rightarrow> unless_error (is_string x) ''Value must be a string''
                | SNumber _ \<Rightarrow> unless_error (is_number x) ''Value must be a number''
                | SBoolean _ \<Rightarrow> unless_error (is_boolean x) ''Value must be a boolean''
                | SIgnore _ \<Rightarrow> []
                | SText _ \<Rightarrow> unless_error (is_string x) ''Content must be a string''
                | SMap fs _ \<Rightarrow>
                    (case v of
                       Some (JObject m) \<Rightarrow>
                         concat (map (\<lambda>(key, f). prefixed_errors key (validate_schema slots f (bt_get m key))) fs)
                     | _ \<Rightarrow> [lit ''Value must be an object''])
                | SList slot _ _ \<Rightarrow>
                    (case v of
                       Some (JArray items) \<Rightarrow>
                         (case slots slot of
                            None \<Rightarrow> []
                          | Some item \<Rightarrow>
                              concat (map (\<lambda>i. prefixed_errors (lit ''Item '' @ show_nat i)
                                                  (validate_schema slots item (Some (items ! i))))
                                        [0..<length items]))
                     | _ \<Rightarrow> [lit ''Value must be an array''])
                | SMovableList _ _ _ \<Rightarrow> unless_error (is_array x) ''Value must be an array''
                | SRoot fs _ \<Rightarrow>
                    (case v of
                       Some (JObject m) \<Rightarrow>
                         concat (map (\<lambda>(key, f). prefixed_errors key (validate_schema slots f (bt_get m key))) fs) @
                         concat (map (\<lambda>key. if bt_get fs key = None
                                            then [lit ''Unknown property: '' @ key] else []) (bt_keys m))
                     | _ \<Rightarrow> [lit ''Value must be an object'']));
             all_errors = errors @ custom_errors s x
         in if all_errors = [] then Inr () else Inl all_errors))"
  by pat_completeness auto

definition value_measure :: "json option \<Rightarrow> nat" where
  "value_measure v = (case v of None \<Rightarrow> 0 | Some x \<Rightarrow> Suc (size x))"

lemma value_measure_field: "value_measure (bt_get m key) < value_measure (Some (JObject m))"
  using size_json_object [of key _ m]
  by (auto simp: value_measure_def bt_get_def dest!: map_of_SomeD split: option.splits)

lemma value_measure_item: "i < length xs \<Longrightarrow> value_measure (Some (xs ! i)) < value_measure (Some (JArray xs))"
  using size_json_array [of "xs ! i" xs] by (simp add: value_measure_def)

termination validate_schema
  by (relation "measure (\<lambda>(slots, s, v). value_measure v)")
    (auto simp: value_measure_field value_measure_item)

declare validate_schema.simps [simp del]

section \<open>Default values\<close>

lemma size_schema_field: "(key, f) \<in> set fs \<Longrightarrow> size f < size (SMap fs o') \<and> size f < size (SRoot fs o')"
  by (induction fs) auto

function get_default_value :: "schema \<Rightarrow> json option" where
  "get_default_value s =
     (case so_default_value (schema_opts s) of
        Some d \<Rightarrow> Some d
      | None \<Rightarrow>
        (case s of
           SString opts \<Rightarrow> if so_required opts then Some (JString []) else None
         | SText opts \<Rightarrow> if so_required opts then Some (JString []) else None
         | SNumber opts \<Rightarrow> if so_required opts then Some (JNumber (PosInt 0)) else None
         | SBoolean opts \<Rightarrow> if so_required opts then Some (JBool False) else None
         | SMap fs _ \<Rightarrow>
             Some (JObject (fold (\<lambda>(key, f) result.
                case get_default_value f of None \<Rightarrow> result | Some v \<Rightarrow> bt_insert key v result) fs []))
         | SRoot fs _ \<Rightarrow>
             Some (JObject (fold (\<lambda>(key, f) result.
                case get_default_value f of None \<Rightarrow> result | Some v \<Rightarrow> bt_insert key v result) fs []))
         | SList _ _ _ \<Rightarrow> Some (JArray [])
         | SMovableList _ _ _ \<Rightarrow> None
         | SIgnore _ \<Rightarrow> None))"
  by pat_completeness auto

termination get_default_value
  by (relation "measure size") (auto dest: size_schema_field)

declare get_default_value.simps [simp del]

text \<open>Schemas whose default value is derived from their shape: no explicit default and no custom
  validation anywhere, field names in order, and nothing required that has no derived default (a
  movable list or an ignored field).\<close>

function shaped :: "schema \<Rightarrow> bool" where
  "shaped s \<longleftrightarrow>
     so_default_value (schema_opts s) = None \<and> so_validate (schema_opts s) = None \<and>
     (case s of
        SMap fs _ \<Rightarrow> bt_wf fs \<and> list_all (\<lambda>(key, f). shaped f) fs
      | SRoot fs _ \<Rightarrow> bt_wf fs \<and> list_all (\<lambda>(key, f). shaped f) fs
      | SMovableList _ _ opts \<Rightarrow> \<not> so_required opts
      | SIgnore opts \<Rightarrow> \<not> so_required opts
      | _ \<Rightarrow> True)"
  by pat_completeness auto

termination shaped
  by (relation "measure size") (auto dest: size_schema_field)

declare shaped.simps [simp del]

lemma default_fields_run:
  assumes "bt_wf m" "distinct (map fst fs)" "\<forall>k\<in>fst ` set fs. bt_get m k = None"
  shows "bt_wf (fold (\<lambda>(key, f) result. case g f of None \<Rightarrow> result | Some v \<Rightarrow> bt_insert key v result) fs m) \<and>
    bt_get (fold (\<lambda>(key, f) result. case g f of None \<Rightarrow> result | Some v \<Rightarrow> bt_insert key v result) fs m) k =
      (case bt_get fs k of None \<Rightarrow> bt_get m k | Some f \<Rightarrow> g f)"
  using assms
proof (induction fs arbitrary: m)
  case (Cons e fs)
  obtain key f where e: "e = (key, f)" by fastforce
  let ?m = "case g f of None \<Rightarrow> m | Some v \<Rightarrow> bt_insert key v m"
  have m: "bt_wf ?m" "\<forall>k\<in>fst ` set fs. bt_get ?m k = None"
    using Cons.prems e by (auto simp: bt_simps split: option.splits)
  have other: "bt_get fs key = None" using Cons.prems(2) e by (auto simp: bt_get_None_iff)
  have "bt_get ?m k = (if k = key then g f else bt_get m k)"
    using Cons.prems(1,3) e by (auto simp: bt_simps split: option.splits)
  then show ?case
    using Cons.IH [OF m(1) _ m(2)] Cons.prems(2) other e by (auto split: option.splits)
qed simp

lemma default_fields_get:
  "bt_wf fs \<Longrightarrow>
   bt_get (fold (\<lambda>(key, f) result. case g f of None \<Rightarrow> result | Some v \<Rightarrow> bt_insert key v result) fs []) k =
     (case bt_get fs k of None \<Rightarrow> None | Some f \<Rightarrow> g f)"
  using default_fields_run [of "[]" fs g k] bt_wf_distinct [of fs] by (simp split: option.splits)

text \<open>The default state of a schema validates. For a schema without explicit defaults and custom
  validation, in which no movable list and no ignored field is required, the derived default value
  passes the schema's own validation, at every depth, and if there is none then the schema accepts
  the absence of a value.\<close>

theorem defaults_validate:
  assumes "shaped s"
  shows "validate_schema slots s (get_default_value s) = Inr ()"
  using assms
proof (induction "size s" arbitrary: s rule: less_induct)
  case less
  have opts: "so_default_value (schema_opts s) = None" "custom_errors s v = []" for v
    using less.prems by (simp_all add: shaped.simps [of s] custom_errors_def)
  have fields: "concat (map (\<lambda>(key, f). prefixed_errors key (validate_schema slots f (bt_get m key))) fs) = []"
    if s: "s = SMap fs os \<or> s = SRoot fs os"
      and m: "m = fold (\<lambda>(key, f) result. case get_default_value f of None \<Rightarrow> result
                | Some v \<Rightarrow> bt_insert key v result) fs []"
    for fs os m
  proof -
    have wf: "bt_wf fs" and sh: "list_all (\<lambda>(key, f). shaped f) fs"
      using less.prems s by (auto simp: shaped.simps [of s])
    have "prefixed_errors key (validate_schema slots f (bt_get m key)) = []" if "(key, f) \<in> set fs" for key f
    proof -
      have "bt_get fs key = Some f" using bt_get_Some_in [OF wf] that by blast
      then have "bt_get m key = get_default_value f"
        unfolding m default_fields_get [OF wf] by simp
      moreover have "validate_schema slots f (get_default_value f) = Inr ()"
        using less.hyps [of f] size_schema_field [OF that, of os] s sh that by (auto simp: list_all_iff)
      ultimately show ?thesis by (simp add: prefixed_errors_def)
    qed
    then show ?thesis by auto
  qed
  have known: "concat (map (\<lambda>key. if bt_get fs key = None then [lit ''Unknown property: '' @ key] else [])
      (bt_keys (fold (\<lambda>(key, f) result. case get_default_value f of None \<Rightarrow> result
                | Some v \<Rightarrow> bt_insert key v result) fs []))) = []"
    if s: "s = SRoot fs os" for fs os
  proof -
    have wf: "bt_wf fs" using less.prems s by (simp add: shaped.simps [of "SRoot fs os"])
    define m where "m = fold (\<lambda>(key, f) result. case get_default_value f of None \<Rightarrow> result
                | Some v \<Rightarrow> bt_insert key v result) fs []"
    have "bt_get fs key \<noteq> None" if "key \<in> set (bt_keys m)" for key
    proof -
      have "bt_get m key \<noteq> None" using that by (auto simp: bt_keys_def bt_get_None_iff)
      then show ?thesis using default_fields_get [OF wf, of get_default_value key] m_def
        by (cases "bt_get fs key") simp_all
    qed
    then show ?thesis unfolding m_def [symmetric] by fastforce
  qed
  show ?case
  proof (cases s)
    case (SMap fs os)
    then show ?thesis
      using opts fields [of fs os, OF disjI1 [OF SMap] refl]
      by (simp add: validate_schema.simps [of slots "SMap fs os"] get_default_value.simps [of "SMap fs os"])
  next
    case (SRoot fs os)
    then show ?thesis
      using opts fields [of fs os, OF disjI2 [OF SRoot] refl] known [OF SRoot]
      by (simp add: validate_schema.simps [of slots "SRoot fs os"] get_default_value.simps [of "SRoot fs os"])
  next
    case (SList slot sel os)
    then show ?thesis
      using opts
      by (simp add: validate_schema.simps [of slots "SList slot sel os"]
          get_default_value.simps [of "SList slot sel os"] split: option.splits)
  next
    case (SMovableList slot sel os)
    then show ?thesis
      using opts less.prems
      by (simp add: validate_schema.simps [of slots "SMovableList slot sel os"]
          get_default_value.simps [of "SMovableList slot sel os"] shaped.simps [of "SMovableList slot sel os"])
  next
    case (SIgnore os)
    then show ?thesis
      using opts less.prems
      by (simp add: validate_schema.simps [of slots "SIgnore os"] get_default_value.simps [of "SIgnore os"]
          shaped.simps [of "SIgnore os"])
  qed (use opts in \<open>simp_all add: validate_schema.simps get_default_value.simps unless_error_def
      is_string_def is_number_def is_boolean_def\<close>)
qed

theorem defaults_validate_witness:
  "validate_schema (\<lambda>_. None)
     (SRoot [(lit ''a'', SString required_options), (lit ''b'', SMap [(lit ''c'', SNumber required_options)] default_options)]
        default_options)
     (get_default_value
        (SRoot [(lit ''a'', SString required_options), (lit ''b'', SMap [(lit ''c'', SNumber required_options)] default_options)]
           default_options)) = Inr ()"
  by (rule defaults_validate)
    (simp add: shaped.simps default_options_def required_options_def bt_wf_def lit_def)

text \<open>A required movable list cannot be satisfied by defaults: it has no derived default value, so
  the default state of a root with such a field is refused by the root's own validation.\<close>

lemma required_movable_list_default_refused:
  "validate_schema slots (SRoot [(key, SMovableList slot sel required_options)] default_options)
     (get_default_value (SRoot [(key, SMovableList slot sel required_options)] default_options)) =
   Inl [key @ lit '': Value is required'']"
  by (simp add: validate_schema.simps get_default_value.simps default_options_def required_options_def
      custom_errors_def prefixed_errors_def bt_keys_def) (simp add: lit_def)

end
