(* ===== verification/Mirror_Lis.thy ===== *)
theory Mirror_Lis
  imports Prelude
begin

text \<open>
  \<^verbatim>\<open>crates/vt-mirror/src/lis.rs\<close>: the indices of a longest strictly increasing subsequence, by the
  patience method with a binary search, and its correctness against the definition: what it returns
  is an increasing subsequence and no increasing subsequence is longer.
\<close>

section \<open>The algorithm\<close>

text \<open>The inner \<^verbatim>\<open>while\<close>: the first position whose tail is not below \<open>x\<close>.\<close>

function lis_search :: "'a::linorder list \<Rightarrow> nat list \<Rightarrow> 'a \<Rightarrow> nat \<Rightarrow> nat \<Rightarrow> nat" where
  "lis_search xs tails x low high =
     (if low < high
      then let mid = (low + high) div 2
           in if xs ! (tails ! mid) < x then lis_search xs tails x (mid + 1) high
              else lis_search xs tails x low mid
      else low)"
  by pat_completeness auto

termination lis_search
  by (relation "measure (\<lambda>(xs, tails, x, low, high). high - low)") auto

declare lis_search.simps [simp del]

definition lis_step ::
    "'a::linorder list \<Rightarrow> nat list \<times> nat list \<Rightarrow> nat \<Rightarrow> nat list \<times> nat list" where
  "lis_step xs st i =
     (let (tails, predecessor) = st;
          low = lis_search xs tails (xs ! i) 0 (length tails);
          tails' = (if length tails \<le> low then tails @ [i] else tails[low := i]);
          predecessor' = (if 0 < low then predecessor[i := tails' ! (low - 1)] else predecessor)
      in (tails', predecessor'))"

text \<open>Reading the chain backwards from \<open>k\<close>, which is written to position \<open>slot\<close>.\<close>

fun lis_back :: "nat list \<Rightarrow> nat \<Rightarrow> nat \<Rightarrow> nat list" where
  "lis_back predecessor 0 k = [k]"
| "lis_back predecessor (Suc slot) k = lis_back predecessor slot (predecessor ! k) @ [k]"

definition longest_increasing_subsequence :: "'a::linorder list \<Rightarrow> nat list" where
  "longest_increasing_subsequence xs =
     (if xs = [] then []
      else
        (let (tails, predecessor) =
               foldl (lis_step xs) ([], replicate (length xs) u64_max) [0..<length xs]
         in lis_back predecessor (length tails - 1) (last tails)))"

section \<open>Correctness\<close>

definition increasing :: "'a::linorder list \<Rightarrow> nat list \<Rightarrow> bool" where
  "increasing xs js \<longleftrightarrow> (\<forall>j\<in>set js. j < length xs) \<and> sorted_wrt (\<lambda>a b. a < b \<and> xs ! a < xs ! b) js"

text \<open>The tails have increasing values, so the search finds how many of them are below \<open>x\<close>.\<close>

definition tails_sorted :: "'a::linorder list \<Rightarrow> nat list \<Rightarrow> bool" where
  "tails_sorted xs tails \<longleftrightarrow> (\<forall>l m. l < m \<and> m < length tails \<longrightarrow> xs ! (tails ! l) < xs ! (tails ! m))"

lemma lis_search_spec:
  assumes "tails_sorted xs tails" "low \<le> high" "high \<le> length tails"
    and "\<forall>l<low. xs ! (tails ! l) < x" "\<forall>l. high \<le> l \<and> l < length tails \<longrightarrow> x \<le> xs ! (tails ! l)"
  shows "lis_search xs tails x low high \<le> length tails \<and>
    (\<forall>l<lis_search xs tails x low high. xs ! (tails ! l) < x) \<and>
    (\<forall>l. lis_search xs tails x low high \<le> l \<and> l < length tails \<longrightarrow> x \<le> xs ! (tails ! l))"
  using assms
proof (induction xs tails x low high rule: lis_search.induct)
  case (1 xs tails x low high)
  show ?case
  proof (cases "low < high")
    case True
    define mid where "mid = (low + high) div 2"
    have mid: "low \<le> mid" "mid < high" using True by (auto simp: mid_def)
    have up: "xs ! (tails ! l) \<le> xs ! (tails ! m)" if "l \<le> m" "m < length tails" for l m
      using "1.prems"(1) that unfolding tails_sorted_def by (cases "l = m") (auto intro: less_imp_le)
    show ?thesis
    proof (cases "xs ! (tails ! mid) < x")
      case below: True
      have "\<forall>l<mid + 1. xs ! (tails ! l) < x"
      proof (intro allI impI)
        fix l assume "l < mid + 1"
        then have "xs ! (tails ! l) \<le> xs ! (tails ! mid)" using up mid "1.prems"(3) by simp
        then show "xs ! (tails ! l) < x" using below by (rule order.strict_trans1)
      qed
      then have spec: "lis_search xs tails x (mid + 1) high \<le> length tails \<and>
        (\<forall>l<lis_search xs tails x (mid + 1) high. xs ! (tails ! l) < x) \<and>
        (\<forall>l. lis_search xs tails x (mid + 1) high \<le> l \<and> l < length tails \<longrightarrow> x \<le> xs ! (tails ! l))"
        using "1.IH"(1) [OF True mid_def below] "1.prems" mid by simp
      have eq: "lis_search xs tails x low high = lis_search xs tails x (mid + 1) high"
        using True below by (simp add: lis_search.simps [of xs tails x low high] mid_def)
      show ?thesis unfolding eq by (rule spec)
    next
      case above: False
      have high: "\<forall>l. mid \<le> l \<and> l < length tails \<longrightarrow> x \<le> xs ! (tails ! l)"
      proof (intro allI impI)
        fix l assume "mid \<le> l \<and> l < length tails"
        then have "xs ! (tails ! mid) \<le> xs ! (tails ! l)" using up by simp
        then show "x \<le> xs ! (tails ! l)" using above by (simp add: not_less)
      qed
      have len: "mid \<le> length tails" using mid "1.prems"(3) by simp
      have spec: "lis_search xs tails x low mid \<le> length tails \<and>
        (\<forall>l<lis_search xs tails x low mid. xs ! (tails ! l) < x) \<and>
        (\<forall>l. lis_search xs tails x low mid \<le> l \<and> l < length tails \<longrightarrow> x \<le> xs ! (tails ! l))"
        by (rule "1.IH"(2) [OF True mid_def above "1.prems"(1) mid(1) len "1.prems"(4) high])
      have eq: "lis_search xs tails x low high = lis_search xs tails x low mid"
        using True above by (simp add: lis_search.simps [of xs tails x low high] mid_def)
      show ?thesis unfolding eq by (rule spec)
    qed
  next
    case False
    then have eq: "lis_search xs tails x low high = low"
      by (simp add: lis_search.simps [of xs tails x low high])
    show ?thesis unfolding eq using False "1.prems" by simp
  qed
qed

text \<open>A chain of \<open>slot + 1\<close> elements can be read back from \<open>k\<close>, all its indices below \<open>i\<close>.\<close>

fun back_ok :: "'a::linorder list \<Rightarrow> nat list \<Rightarrow> nat \<Rightarrow> nat \<Rightarrow> nat \<Rightarrow> bool" where
  "back_ok xs pre i 0 k \<longleftrightarrow> k < i"
| "back_ok xs pre i (Suc slot) k \<longleftrightarrow>
     k < i \<and> pre ! k < k \<and> xs ! (pre ! k) < xs ! k \<and> back_ok xs pre i slot (pre ! k)"

lemma back_ok_bound: "back_ok xs pre i slot k \<Longrightarrow> k < i"
  by (cases slot) auto

lemma back_ok_later: "back_ok xs pre i slot k \<Longrightarrow> i \<le> j \<Longrightarrow> back_ok xs pre j slot k"
  by (induction slot arbitrary: k) auto

lemma back_ok_update: "back_ok xs pre i slot k \<Longrightarrow> back_ok xs (pre[i := p]) i slot k"
  by (induction slot arbitrary: k) auto

lemma back_chain:
  "back_ok xs pre i slot k \<Longrightarrow> i \<le> length xs \<Longrightarrow>
   increasing xs (lis_back pre slot k) \<and> length (lis_back pre slot k) = Suc slot \<and>
   last (lis_back pre slot k) = k \<and>
   (\<forall>j\<in>set (lis_back pre slot k). j = k \<or> (j < k \<and> xs ! j < xs ! k))"
proof (induction slot arbitrary: k)
  case 0
  then show ?case by (simp add: increasing_def)
next
  case (Suc slot)
  have k: "pre ! k < k" "xs ! (pre ! k) < xs ! k" "k < i" "back_ok xs pre i slot (pre ! k)"
    using Suc.prems by simp_all
  note IH = Suc.IH [OF k(4) Suc.prems(2)]
  have below: "j < k \<and> xs ! j < xs ! k" if "j \<in> set (lis_back pre slot (pre ! k))" for j
    using IH that k(1,2) by (auto dest: order.strict_trans)
  then show ?case
    using IH k Suc.prems(2) by (auto simp: increasing_def sorted_wrt_append)
qed

definition lis_inv :: "'a::linorder list \<Rightarrow> nat \<Rightarrow> nat list \<times> nat list \<Rightarrow> bool" where
  "lis_inv xs i st \<longleftrightarrow>
     (case st of (tails, pre) \<Rightarrow>
        length pre = length xs \<and> tails_sorted xs tails \<and>
        (\<forall>l<length tails. back_ok xs pre i l (tails ! l)) \<and>
        (\<forall>js. js \<noteq> [] \<and> increasing xs js \<and> last js < i \<longrightarrow>
           length js \<le> length tails \<and> xs ! (tails ! (length js - 1)) \<le> xs ! last js))"

lemma lis_inv_step:
  assumes "lis_inv xs i st" "i < length xs"
  shows "lis_inv xs (Suc i) (lis_step xs st i)"
proof -
  obtain tails pre where st: "st = (tails, pre)" by fastforce
  have len: "length pre = length xs" and sorted: "tails_sorted xs tails"
    and chain: "\<And>l. l < length tails \<Longrightarrow> back_ok xs pre i l (tails ! l)"
    and best: "\<And>js. js \<noteq> [] \<Longrightarrow> increasing xs js \<Longrightarrow> last js < i \<Longrightarrow>
      length js \<le> length tails \<and> xs ! (tails ! (length js - 1)) \<le> xs ! last js"
    using assms(1) unfolding lis_inv_def st by simp_all
  define low where "low = lis_search xs tails (xs ! i) 0 (length tails)"
  define tails' where "tails' = (if length tails \<le> low then tails @ [i] else tails[low := i])"
  define pre' where "pre' = (if 0 < low then pre[i := tails' ! (low - 1)] else pre)"
  have step: "lis_step xs st i = (tails', pre')"
    by (simp add: lis_step_def st tails'_def pre'_def low_def Let_def)
  have low: "low \<le> length tails" "\<And>l. l < low \<Longrightarrow> xs ! (tails ! l) < xs ! i"
    "\<And>l. low \<le> l \<Longrightarrow> l < length tails \<Longrightarrow> xs ! i \<le> xs ! (tails ! l)"
  proof -
    have "lis_search xs tails (xs ! i) 0 (length tails) \<le> length tails \<and>
      (\<forall>l<lis_search xs tails (xs ! i) 0 (length tails). xs ! (tails ! l) < xs ! i) \<and>
      (\<forall>l. lis_search xs tails (xs ! i) 0 (length tails) \<le> l \<and> l < length tails \<longrightarrow> xs ! i \<le> xs ! (tails ! l))"
      by (rule lis_search_spec [OF sorted]) auto
    then show "low \<le> length tails" "\<And>l. l < low \<Longrightarrow> xs ! (tails ! l) < xs ! i"
      "\<And>l. low \<le> l \<Longrightarrow> l < length tails \<Longrightarrow> xs ! i \<le> xs ! (tails ! l)"
      unfolding low_def by blast+
  qed
  have len': "length tails' = max (length tails) (Suc low)"
    using low(1) by (auto simp: tails'_def)
  have at: "tails' ! l = (if l = low then i else tails ! l)" if "l < length tails'" for l
    using that low(1) by (auto simp: tails'_def nth_append nth_list_update)
  have "tails_sorted xs tails'"
    unfolding tails_sorted_def
  proof (intro allI impI)
    fix l m assume lm: "l < m \<and> m < length tails'"
    have old: "xs ! (tails ! l) < xs ! (tails ! m)" if "m < length tails"
      using sorted lm that by (simp add: tails_sorted_def)
    show "xs ! (tails' ! l) < xs ! (tails' ! m)"
    proof (cases "m = low")
      case True
      then show ?thesis using low(2) lm at by simp
    next
      case False
      then have m: "m < length tails" using lm len' low(1) by (auto simp: max_def split: if_splits)
      have "xs ! i < xs ! (tails ! m)" if "l = low"
        using low(3) [of l] old that m lm by (intro order.strict_trans1 [of "xs ! i" "xs ! (tails ! l)"]) simp_all
      then show ?thesis using False at lm old m by auto
    qed
  qed
  moreover have "back_ok xs pre' (Suc i) l (tails' ! l)" if l: "l < length tails'" for l
  proof (cases "l = low")
    case False
    then have "l < length tails" using l len' low(1) by (auto simp: max_def split: if_splits)
    then have "back_ok xs pre' i l (tails ! l)"
      using chain [of l] back_ok_update [OF chain [of l]] by (simp add: pre'_def)
    then show ?thesis using back_ok_later [of xs pre' i l "tails ! l" "Suc i"] at [OF l] False by simp
  next
    case True
    show ?thesis
    proof (cases low)
      case (Suc p)
      have p: "p < length tails" using low(1) Suc by simp
      then have "tails' ! p = tails ! p" using at [of p] len' Suc by simp
      then have pre: "pre' ! i = tails ! p" using Suc len assms(2) by (simp add: pre'_def)
      have "back_ok xs pre' i p (tails ! p)"
        using chain [OF p] back_ok_update [OF chain [OF p]] by (simp add: pre'_def)
      then have "back_ok xs pre' (Suc i) p (tails ! p)" "tails ! p < i"
        using back_ok_later [of xs pre' i p "tails ! p" "Suc i"] back_ok_bound by auto
      then show ?thesis using True Suc at [OF l] pre low(2) [of p] by simp
    qed (use True at [OF l] in simp)
  qed
  moreover have "length js \<le> length tails' \<and> xs ! (tails' ! (length js - 1)) \<le> xs ! last js"
    if js: "js \<noteq> []" "increasing xs js" "last js < Suc i" for js
  proof (cases "last js < i")
    case True
    then have old: "length js \<le> length tails" "xs ! (tails ! (length js - 1)) \<le> xs ! last js"
      using best js by blast+
    moreover have "length js - 1 < length tails" using old(1) js(1) by (cases js) simp_all
    ultimately show ?thesis
      using low(3) [of low] at [of "length js - 1"] len' by (auto intro: order_trans)
  next
    case False
    then have last: "last js = i" using js(3) by simp
    define js0 where "js0 = butlast js"
    have js_eq: "js = js0 @ [i]" using append_butlast_last_id [OF js(1)] last by (simp add: js0_def)
    have inc0: "increasing xs js0" and below: "\<And>j. j \<in> set js0 \<Longrightarrow> j < i \<and> xs ! j < xs ! i"
      using js(2) unfolding js_eq increasing_def by (auto simp: sorted_wrt_append)
    have "length js0 \<le> low"
    proof (cases "js0 = []")
      case ne: False
      then have "last js0 \<in> set js0" by simp
      then have "last js0 < i" "xs ! last js0 < xs ! i" using below by blast+
      then have old: "length js0 \<le> length tails" "xs ! (tails ! (length js0 - 1)) < xs ! i"
        using best [OF ne inc0] by auto
      moreover have "length js0 - 1 < length tails" using old(1) ne by (cases js0) simp_all
      ultimately have "\<not> low \<le> length js0 - 1"
        using low(3) [of "length js0 - 1"] leD by blast
      then show ?thesis by simp
    qed simp
    moreover have "xs ! (tails' ! length js0) \<le> xs ! i" if "length js0 \<le> low"
      using that at [of "length js0"] low(2) [of "length js0"] len' by (auto intro: less_imp_le)
    ultimately show ?thesis using len' last by (simp add: js_eq)
  qed
  ultimately show ?thesis
    unfolding step lis_inv_def using len by (simp add: pre'_def)
qed

lemma lis_inv_run: "i \<le> length xs \<Longrightarrow>
  lis_inv xs i (foldl (lis_step xs) ([], replicate (length xs) u64_max) [0..<i])"
proof (induction i)
  case 0
  then show ?case by (simp add: lis_inv_def tails_sorted_def)
next
  case (Suc i)
  then show ?case using lis_inv_step by (simp add: Suc_le_eq)
qed

lemma lis_correct:
  "increasing xs (longest_increasing_subsequence xs) \<and>
   (\<forall>js. increasing xs js \<longrightarrow> length js \<le> length (longest_increasing_subsequence xs))"
proof (cases "xs = []")
  case True
  then show ?thesis by (auto simp: longest_increasing_subsequence_def increasing_def)
next
  case False
  obtain tails pre where run:
    "foldl (lis_step xs) ([], replicate (length xs) u64_max) [0..<length xs] = (tails, pre)" by fastforce
  have inv: "lis_inv xs (length xs) (tails, pre)" using lis_inv_run [of "length xs" xs] run by simp
  have best: "length js \<le> length tails" if "increasing xs js" for js
  proof (cases "js = []")
    case ne: False
    then have "last js < length xs" using that last_in_set [OF ne] by (auto simp: increasing_def)
    then show ?thesis using inv ne that unfolding lis_inv_def by simp
  qed simp
  have "increasing xs [0]" using False by (simp add: increasing_def)
  then have ne: "0 < length tails" using best by fastforce
  then have "back_ok xs pre (length xs) (length tails - 1) (last tails)"
    using inv by (simp add: lis_inv_def last_conv_nth)
  from back_chain [OF this order_refl] show ?thesis
    using best ne False run by (simp add: longest_increasing_subsequence_def)
qed

lemma lis_of_increasing:
  assumes "sorted_wrt (<) xs"
  shows "set (longest_increasing_subsequence xs) = {..<length xs}"
proof -
  define js where "js = longest_increasing_subsequence xs"
  have js: "increasing xs js" using lis_correct [of xs] by (simp add: js_def)
  have "increasing xs [0..<length xs]"
    using assms by (auto simp: increasing_def sorted_wrt_iff_nth_less)
  then have "length xs \<le> length js" using lis_correct [of xs] by (fastforce simp: js_def)
  moreover have "distinct js"
  proof -
    have "sorted_wrt (<) js" using js by (auto simp: increasing_def sorted_wrt_iff_nth_less)
    then show ?thesis by (simp add: strict_sorted_iff)
  qed
  ultimately have "length xs \<le> card (set js)" by (simp add: distinct_card)
  moreover have "set js \<subseteq> {..<length xs}" using js by (auto simp: increasing_def)
  ultimately show ?thesis
    using card_subset_eq [of "{..<length xs}" "set js"] card_mono [of "{..<length xs}" "set js"] by (simp add: js_def)
qed

text \<open>C35: The function returns the indices of a strictly increasing subsequence, and no strictly
  increasing subsequence is longer.\<close>

theorem lis_longest:
  "increasing xs (longest_increasing_subsequence xs) \<and>
   (\<forall>js. increasing xs js \<longrightarrow> length js \<le> length (longest_increasing_subsequence xs))"
  by (rule lis_correct)

theorem lis_longest_witness:
  "\<not> increasing [3, 1, 2 :: nat] [0, 1, 2] \<and>
   length [1, 2 :: nat] \<le> length (longest_increasing_subsequence [3, 1, 2 :: nat])"
proof -
  have "increasing [3, 1, 2 :: nat] [1, 2]" "\<not> increasing [3, 1, 2 :: nat] [0, 1, 2]"
    by (simp_all add: increasing_def)
  then show ?thesis using lis_longest [of "[3, 1, 2 :: nat]"] by blast
qed

end
