(* ===== verification/Mirror_Diff.thy ===== *)
theory Mirror_Diff
  imports Mirror_Schema Mirror_Lis
begin

text \<open>
  \<^verbatim>\<open>crates/vt-mirror/src/change.rs\<close>, \<^verbatim>\<open>utils.rs\<close> and \<^verbatim>\<open>diff.rs\<close>: the changes between two states of the
  mirror. What the code asks of the Loro document is the record \<open>loro_doc\<close>: the type of a container,
  the identifier of a root container, and the child container, if there is one, at a key or an
  index. The mutual recursion of the source runs through \<open>diff_container\<close>, on a smaller old state
  each time; the functions it calls take it as their first argument.
\<close>

section \<open>Changes\<close>

datatype change_key = Prop ustring | Index nat

datatype change_kind = Insert | Delete | InsertContainer container_type | Move nat nat

record 'c change =
  ch_container :: "'c option"
  ch_key :: change_key
  ch_value :: "json option"
  ch_kind :: change_kind

definition change :: "'c option \<Rightarrow> change_key \<Rightarrow> json option \<Rightarrow> change_kind \<Rightarrow> 'c change" where
  "change c k v kind = \<lparr>ch_container = c, ch_key = k, ch_value = v, ch_kind = kind\<rparr>"

record infer_options =
  default_movable_list :: bool
  default_loro_text :: bool

definition no_infer :: infer_options where
  "no_infer = \<lparr>default_movable_list = False, default_loro_text = False\<rparr>"

record 'c loro_doc =
  ld_type :: "'c \<Rightarrow> container_type"
  ld_root :: "ustring \<Rightarrow> container_type \<Rightarrow> 'c"
  ld_map_child :: "'c \<Rightarrow> ustring \<Rightarrow> 'c option"
  ld_list_child :: "'c \<Rightarrow> nat \<Rightarrow> 'c option"
  ld_movable_child :: "'c \<Rightarrow> nat \<Rightarrow> 'c option"

section \<open>Container utilities\<close>

definition container_id_to_container_type :: "'c loro_doc \<Rightarrow> 'c \<Rightarrow> container_type option" where
  "container_id_to_container_type d c =
     (let t = ld_type d c in if t \<in> {CMap, CList, CText, CMovableList} then Some t else None)"

definition root_container_id :: "'c loro_doc \<Rightarrow> ustring \<Rightarrow> container_type \<Rightarrow> 'c option" where
  "root_container_id d key t =
     (if t \<in> {CText, CList, CMovableList, CMap} then Some (ld_root d key t) else None)"

definition insert_child_to_map :: "'c option \<Rightarrow> ustring \<Rightarrow> json \<Rightarrow> 'c change" where
  "insert_child_to_map c key v =
     (if is_object v then change c (Prop key) (Some v) (InsertContainer CMap)
      else if is_array v then change c (Prop key) (Some v) (InsertContainer CList)
      else change c (Prop key) (Some v) Insert)"

definition try_infer_container_type :: "json \<Rightarrow> infer_options option \<Rightarrow> container_type option" where
  "try_infer_container_type v defaults =
     (let defaults = (case defaults of None \<Rightarrow> no_infer | Some o' \<Rightarrow> o') in
      if is_object v then Some CMap
      else if is_array v then (if default_movable_list defaults then Some CMovableList else Some CList)
      else if is_string v then (if default_loro_text defaults then Some CText else None)
      else None)"

definition try_update_to_insert_container :: "'c change \<Rightarrow> bool \<Rightarrow> schema option \<Rightarrow> 'c change" where
  "try_update_to_insert_container ch to_update schema =
     (if \<not> to_update then ch
      else if ch_kind ch \<noteq> Insert then ch
      else
        (case (case schema of
                 None \<Rightarrow> None
               | Some s \<Rightarrow>
                 (case schema_container_type s of
                    Some t \<Rightarrow> Some t
                  | None \<Rightarrow> (case ch_value ch of
                               None \<Rightarrow> None | Some v \<Rightarrow> try_infer_container_type v None))) of
           None \<Rightarrow> ch
         | Some t \<Rightarrow>
             if t \<in> {CMap, CList, CText, CCounter} then ch\<lparr>ch_kind := InsertContainer t\<rparr> else ch))"

definition is_value_of_container_type :: "container_type \<Rightarrow> json \<Rightarrow> bool" where
  "is_value_of_container_type t v =
     (case t of
        CMovableList \<Rightarrow> is_object v \<or> is_array v
      | CList \<Rightarrow> is_object v \<or> is_array v
      | CMap \<Rightarrow> is_object v \<or> is_array v
      | CText \<Rightarrow> is_string v
      | _ \<Rightarrow> False)"

section \<open>Differences\<close>

datatype diff_error =
    RootStateNotObjects
  | MapStateNotObjects
  | ListStateNotArrays
  | MovableListStateNotArrays
  | TextStateNotStrings
  | MovableListWithoutIdSelector
  | ExpectedMapContainer

definition is_object_like :: "json \<Rightarrow> bool" where
  "is_object_like v = (case v of JObject _ \<Rightarrow> True | JArray _ \<Rightarrow> True | JNull \<Rightarrow> True | _ \<Rightarrow> False)"

definition object_entries :: "json \<Rightarrow> (ustring \<times> json) list" where
  "object_entries v =
     (case v of
        JObject m \<Rightarrow> m
      | JArray xs \<Rightarrow> map (\<lambda>i. (show_nat i, xs ! i)) [0..<length xs]
      | _ \<Rightarrow> [])"

definition object_get :: "json \<Rightarrow> ustring \<Rightarrow> json option" where
  "object_get v key =
     (case v of
        JObject m \<Rightarrow> bt_get m key
      | JArray xs \<Rightarrow>
          (case parse_usize key of
             None \<Rightarrow> None | Some i \<Rightarrow> if i < length xs then Some (xs ! i) else None)
      | _ \<Rightarrow> None)"

fun is_falsy :: "json option \<Rightarrow> bool" where
  "is_falsy None = True"
| "is_falsy (Some JNull) = True"
| "is_falsy (Some (JBool b)) = (\<not> b)"
| "is_falsy (Some (JNumber n)) = (as_f64 n = 0)"
| "is_falsy (Some (JString s)) = (s = [])"
| "is_falsy _ = False"

type_synonym 'c diff = "diff_error + 'c change list"

type_synonym 'c child_diff = "json \<Rightarrow> json \<Rightarrow> 'c \<Rightarrow> schema option \<Rightarrow> 'c diff"

text \<open>A loop that appends the changes of each turn and stops at the first error (\<^verbatim>\<open>extend(..?)\<close>).\<close>

fun diff_each :: "('a \<Rightarrow> 'c diff) \<Rightarrow> 'a list \<Rightarrow> 'c diff" where
  "diff_each f [] = Inr []"
| "diff_each f (x # xs) = and_then (f x) (\<lambda>c. and_then (diff_each f xs) (\<lambda>cs. Inr (c @ cs)))"

lemma diff_each_cong [fundef_cong]:
  "xs = ys \<Longrightarrow> (\<And>x. x \<in> set ys \<Longrightarrow> f x = g x) \<Longrightarrow> diff_each f xs = diff_each g ys"
proof (induction ys arbitrary: xs)
  case (Cons y ys)
  then show ?case by simp
qed simp

definition diff_text :: "ustring \<Rightarrow> ustring \<Rightarrow> 'c \<Rightarrow> 'c change list" where
  "diff_text old_state new_state c =
     (if new_state = old_state then []
      else [change (Some c) (Prop []) (Some (JString new_state)) Insert])"

definition select_id :: "id_selector \<Rightarrow> json \<Rightarrow> ustring option" where
  "select_id sel item =
     (case sel item of None \<Rightarrow> None | Some i \<Rightarrow> if i = [] then None else Some i)"

text \<open>Deleting and inserting again at the same index, the two changes an altered plain item gets.\<close>

definition replace_item :: "'c \<Rightarrow> nat \<Rightarrow> json \<Rightarrow> schema option \<Rightarrow> 'c change list" where
  "replace_item c i item item_schema =
     [change (Some c) (Index i) None Delete,
      try_update_to_insert_container (change (Some c) (Index i) (Some item) Insert) True item_schema]"

definition insert_item :: "'c \<Rightarrow> nat \<Rightarrow> json \<Rightarrow> schema option \<Rightarrow> 'c change" where
  "insert_item c i item item_schema =
     try_update_to_insert_container (change (Some c) (Index i) (Some item) Insert) True item_schema"

subsection \<open>Movable lists\<close>

record common_item =
  ci_old_index :: nat
  ci_new_index :: nat
  ci_old_item :: json
  ci_new_item :: json

text \<open>\<^verbatim>\<open>old_map\<close>: each identifier with the last old item that has it.\<close>

definition old_map :: "id_selector \<Rightarrow> json list \<Rightarrow> (ustring \<times> nat \<times> json) list" where
  "old_map sel old =
     fold (\<lambda>i m. case select_id sel (old ! i) of None \<Rightarrow> m | Some ident \<Rightarrow> bt_insert ident (i, old ! i) m)
       [0..<length old] []"

definition common_item_at :: "id_selector \<Rightarrow> json list \<Rightarrow> json list \<Rightarrow> nat \<Rightarrow> common_item option" where
  "common_item_at sel old new j =
     (case select_id sel (new ! j) of
        None \<Rightarrow> None
      | Some ident \<Rightarrow>
        (case bt_get (old_map sel old) ident of
           None \<Rightarrow> None
         | Some (i, item) \<Rightarrow>
             Some \<lparr>ci_old_index = i, ci_new_index = j, ci_old_item = item, ci_new_item = new ! j\<rparr>))"

definition common_items :: "id_selector \<Rightarrow> json list \<Rightarrow> json list \<Rightarrow> common_item list" where
  "common_items sel old new = List.map_filter (common_item_at sel old new) [0..<length new]"

definition deletion_indexes :: "id_selector \<Rightarrow> json list \<Rightarrow> json list \<Rightarrow> nat list" where
  "deletion_indexes sel old new =
     (let new_ids = set (List.map_filter (select_id sel) new)
      in rev (sort (map (\<lambda>(ident, i, _). i) (filter (\<lambda>(ident, _). ident \<notin> new_ids) (old_map sel old)))))"

definition movable_moves :: "'c \<Rightarrow> common_item list \<Rightarrow> 'c change list" where
  "movable_moves c common =
     (let lis_set = set (longest_increasing_subsequence (map ci_old_index common))
      in List.map_filter (\<lambda>i.
           let info = common ! i in
           if i \<notin> lis_set \<and> ci_old_index info \<noteq> ci_new_index info
           then Some (change (Some c) (Index (ci_old_index info)) (Some (ci_new_item info))
                        (Move (ci_old_index info) (ci_new_index info)))
           else None) [0..<length common])"

definition movable_inserts ::
    "'c \<Rightarrow> id_selector \<Rightarrow> json list \<Rightarrow> json list \<Rightarrow> schema option \<Rightarrow> 'c change list" where
  "movable_inserts c sel old new item_schema =
     List.map_filter (\<lambda>j.
       if (case select_id sel (new ! j) of
             None \<Rightarrow> False | Some ident \<Rightarrow> bt_get (old_map sel old) ident \<noteq> None)
       then None else Some (insert_item c j (new ! j) item_schema)) [0..<length new]"

definition diff_movable_list ::
    "'c child_diff \<Rightarrow> 'c loro_doc \<Rightarrow> json list \<Rightarrow> json list \<Rightarrow> 'c \<Rightarrow> schema option \<Rightarrow> id_selector
     \<Rightarrow> 'c diff" where
  "diff_movable_list dc d old new c item_schema sel =
     (let common = common_items sel old new
      in and_then
           (diff_each (\<lambda>info.
              if deep_equal (ci_old_item info) (ci_new_item info) then Inr []
              else
                (case ld_movable_child d c (ci_old_index info) of
                   Some child \<Rightarrow> dc (ci_old_item info) (ci_new_item info) child item_schema
                 | None \<Rightarrow> Inr (replace_item c (ci_new_index info) (ci_new_item info) item_schema)))
              common)
           (\<lambda>updates. Inr
              (map (\<lambda>i. change (Some c) (Index i) None Delete) (deletion_indexes sel old new) @
               movable_moves c common @ movable_inserts c sel old new item_schema @ updates)))"

subsection \<open>Lists\<close>

text \<open>The scan of \<^verbatim>\<open>diff_list_with_id_selector\<close>: the loop variables are \<open>index\<close>, \<open>new_index\<close> and the
  signed \<open>offset\<close>; \<open>signed_index\<close> is its closure \<^verbatim>\<open>signed\<close>.\<close>

definition signed_index :: "nat \<Rightarrow> int \<Rightarrow> nat" where
  "signed_index index offset = (if int index + offset < 0 then 0 else nat (int index + offset))"

function scan_list ::
    "'c child_diff \<Rightarrow> 'c loro_doc \<Rightarrow> json list \<Rightarrow> json list \<Rightarrow> 'c \<Rightarrow> schema option \<Rightarrow> id_selector
     \<Rightarrow> nat \<Rightarrow> nat \<Rightarrow> int \<Rightarrow> diff_error + ('c change list \<times> nat \<times> nat \<times> int)" where
  "scan_list dc d old new c item_schema sel index new_index offset =
     (if length old \<le> index then Inr ([], index, new_index, offset)
      else
        (let old_item = old ! index;
             add = (\<lambda>cs r. and_then r (\<lambda>(cs', st). Inr (cs @ cs', st)))
         in
         if new_index < length new \<and> deep_equal old_item (new ! new_index)
         then scan_list dc d old new c item_schema sel (index + 1) (new_index + 1) offset
         else
           (case (select_id sel old_item,
                  if new_index < length new then select_id sel (new ! new_index) else None) of
              (Some old_id, Some new_id) \<Rightarrow>
                (let new_item = new ! new_index in
                 if old_id = new_id
                 then
                   and_then
                     (case ld_list_child d c index of
                        Some child \<Rightarrow> dc old_item new_item child item_schema
                      | None \<Rightarrow>
                          if deep_equal old_item new_item then Inr []
                          else Inr (replace_item c (signed_index index offset) new_item item_schema))
                     (\<lambda>cs. add cs (scan_list dc d old new c item_schema sel (index + 1) (new_index + 1) offset))
                 else if new_id \<notin> set (List.map_filter (select_id sel) old)
                 then
                   add [insert_item c (signed_index index offset) new_item item_schema]
                     (scan_list dc d old new c item_schema sel index (new_index + 1) (offset + 1))
                 else
                   add [change (Some c) (Index (signed_index index offset)) None Delete]
                     (scan_list dc d old new c item_schema sel (index + 1) new_index (offset - 1)))
            | _ \<Rightarrow> scan_list dc d old new c item_schema sel (index + 1) new_index offset)))"
  by pat_completeness auto

termination scan_list
  by (relation "measure (\<lambda>(dc, d, old, new, c, s, sel, index, new_index, offset).
        (length old - index) + (length new - new_index))") (auto split: if_splits)

declare scan_list.simps [simp del]

lemma scan_list_cong:
  assumes "\<And>x y e t. x \<in> set old \<Longrightarrow> dc x y e t = dc' x y e t"
  shows "scan_list dc d old new c item_schema sel index new_index offset =
    scan_list dc' d old new c item_schema sel index new_index offset"
  using assms
proof (induction dc d old new c item_schema sel index new_index offset rule: scan_list.induct)
  case (1 dc d old new c item_schema sel index new_index offset)
  show ?case
  proof (cases "length old \<le> index")
    case False
    then have dc: "dc (old ! index) y e t = dc' (old ! index) y e t" for y e t
      using "1.prems" by simp
    show ?thesis
      using False "1.IH" "1.prems"
      by (subst (1 2) scan_list.simps) (simp add: Let_def dc split: option.splits)
  qed (simp add: scan_list.simps)
qed

definition diff_list_with_id_selector ::
    "'c child_diff \<Rightarrow> 'c loro_doc \<Rightarrow> json list \<Rightarrow> json list \<Rightarrow> 'c \<Rightarrow> schema option \<Rightarrow> id_selector
     \<Rightarrow> 'c diff" where
  "diff_list_with_id_selector dc d old new c item_schema sel =
     and_then (scan_list dc d old new c item_schema sel 0 0 0) (\<lambda>(cs, index, new_index, offset).
       Inr (cs @ map (\<lambda>j. insert_item c (signed_index index (offset + int (j - new_index))) (new ! j) item_schema)
                   [new_index..<length new]))"

lemma diff_list_with_id_selector_cong [fundef_cong]:
  assumes "d = d'" "old = old'" "new = new'" "c = c'" "s = s'" "sel = sel'"
    and "\<And>x y e t. x \<in> set old' \<Longrightarrow> dc x y e t = dc' x y e t"
  shows "diff_list_with_id_selector dc d old new c s sel = diff_list_with_id_selector dc' d' old' new' c' s' sel'"
  unfolding diff_list_with_id_selector_def assms(1-6)
  using scan_list_cong [of old' dc dc', OF assms(7)] by simp

definition diff_list ::
    "'c child_diff \<Rightarrow> 'c loro_doc \<Rightarrow> json list \<Rightarrow> json list \<Rightarrow> 'c \<Rightarrow> schema option \<Rightarrow> 'c diff" where
  "diff_list dc d old new c item_schema =
     and_then
       (diff_each (\<lambda>i.
          if deep_equal (old ! i) (new ! i) then Inr []
          else
            (case ld_list_child d c i of
               Some child \<Rightarrow> dc (old ! i) (new ! i) child item_schema
             | None \<Rightarrow> Inr (replace_item c i (new ! i) item_schema)))
          [0..<min (length old) (length new)])
       (\<lambda>updates. Inr
          (updates @
           map (\<lambda>i. change (Some c) (Index i) None Delete) [length new..<length old] @
           map (\<lambda>i. insert_item c i (new ! i) item_schema) [length old..<length new]))"

lemma diff_list_cong [fundef_cong]:
  assumes "d = d'" "old = old'" "new = new'" "c = c'" "s = s'"
    and "\<And>x y e t. x \<in> set old' \<Longrightarrow> dc x y e t = dc' x y e t"
  shows "diff_list dc d old new c s = diff_list dc' d' old' new' c' s'"
proof -
  have "diff_each (\<lambda>i. if deep_equal (old' ! i) (new' ! i) then Inr []
          else (case ld_list_child d' c' i of
               Some child \<Rightarrow> dc (old' ! i) (new' ! i) child s'
             | None \<Rightarrow> Inr (replace_item c' i (new' ! i) s'))) [0..<min (length old') (length new')] =
    diff_each (\<lambda>i. if deep_equal (old' ! i) (new' ! i) then Inr []
          else (case ld_list_child d' c' i of
               Some child \<Rightarrow> dc' (old' ! i) (new' ! i) child s'
             | None \<Rightarrow> Inr (replace_item c' i (new' ! i) s'))) [0..<min (length old') (length new')]"
    by (rule diff_each_cong) (auto simp: assms(6) split: option.splits)
  then show ?thesis unfolding diff_list_def assms(1-5) by simp
qed

lemma old_map_item:
  "bt_get (old_map sel old) ident = Some (i, item) \<Longrightarrow> i < length old \<and> item = old ! i"
proof -
  have "\<forall>e\<in>set (fold (\<lambda>i m. case select_id sel (old ! i) of None \<Rightarrow> m
        | Some ident \<Rightarrow> bt_insert ident (i, old ! i) m) [0..<n] []). fst (snd e) < n \<and> snd (snd e) = old ! fst (snd e)"
    for n
  proof (induction n)
    case (Suc n)
    then show ?case
      using set_bt_insert_subset [of _ "(n, old ! n)"]
      by (fastforce split: option.splits)
  qed simp
  then show "bt_get (old_map sel old) ident = Some (i, item) \<Longrightarrow> ?thesis"
    unfolding old_map_def by (fastforce simp: bt_get_def dest!: map_of_SomeD)
qed

lemma common_item_atD:
  "common_item_at sel old new j = Some info \<Longrightarrow>
   \<exists>ident. select_id sel (new ! j) = Some ident \<and>
     bt_get (old_map sel old) ident = Some (ci_old_index info, ci_old_item info) \<and>
     ci_new_index info = j \<and> ci_new_item info = new ! j"
  unfolding common_item_at_def
  by (cases "select_id sel (new ! j)"; cases "bt_get (old_map sel old) (the (select_id sel (new ! j)))") auto

lemma common_item_old: "info \<in> set (common_items sel old new) \<Longrightarrow> ci_old_item info \<in> set old"
  unfolding common_items_def in_map_filter using common_item_atD old_map_item nth_mem by metis

lemma diff_movable_list_cong [fundef_cong]:
  assumes "d = d'" "old = old'" "new = new'" "c = c'" "s = s'" "sel = sel'"
    and "\<And>x y e t. x \<in> set old' \<Longrightarrow> dc x y e t = dc' x y e t"
  shows "diff_movable_list dc d old new c s sel = diff_movable_list dc' d' old' new' c' s' sel'"
proof -
  have "diff_each (\<lambda>info. if deep_equal (ci_old_item info) (ci_new_item info) then Inr []
              else (case ld_movable_child d' c' (ci_old_index info) of
                   Some child \<Rightarrow> dc (ci_old_item info) (ci_new_item info) child s'
                 | None \<Rightarrow> Inr (replace_item c' (ci_new_index info) (ci_new_item info) s')))
          (common_items sel' old' new') =
    diff_each (\<lambda>info. if deep_equal (ci_old_item info) (ci_new_item info) then Inr []
              else (case ld_movable_child d' c' (ci_old_index info) of
                   Some child \<Rightarrow> dc' (ci_old_item info) (ci_new_item info) child s'
                 | None \<Rightarrow> Inr (replace_item c' (ci_new_index info) (ci_new_item info) s')))
          (common_items sel' old' new')"
    by (rule diff_each_cong) (auto simp: assms(7) common_item_old split: option.splits)
  then show ?thesis unfolding diff_movable_list_def assms(1-6) by (simp add: Let_def)
qed

subsection \<open>Maps\<close>

definition schema_fields :: "schema option \<Rightarrow> (ustring \<times> schema) list option" where
  "schema_fields s =
     (case s of Some (SMap fs _) \<Rightarrow> Some fs | Some (SRoot fs _) \<Rightarrow> Some fs | _ \<Rightarrow> None)"

definition field_schema :: "schema option \<Rightarrow> ustring \<Rightarrow> schema option" where
  "field_schema s key = (case schema_fields s of None \<Rightarrow> None | Some fs \<Rightarrow> bt_get fs key)"

definition field_container_type ::
    "schema option \<Rightarrow> ustring \<Rightarrow> json \<Rightarrow> infer_options option \<Rightarrow> container_type option" where
  "field_container_type s key new_item infer =
     (case (case field_schema s key of None \<Rightarrow> None | Some f \<Rightarrow> schema_container_type f) of
        Some t \<Rightarrow> Some t
      | None \<Rightarrow> try_infer_container_type new_item infer)"

text \<open>The turn of the loop for one key of the new state.\<close>

definition diff_map_entry ::
    "'c child_diff \<Rightarrow> 'c loro_doc \<Rightarrow> json \<Rightarrow> 'c option \<Rightarrow> schema option \<Rightarrow> infer_options option
     \<Rightarrow> ustring \<times> json \<Rightarrow> 'c diff" where
  "diff_map_entry dc d old_state c schema infer e =
     (let key = fst e; new_item = snd e;
          old_item = object_get old_state key;
          child_schema = field_schema schema key;
          t = field_container_type schema key new_item infer
      in
      if is_falsy old_item
      then Inr [case t of
                  Some child_type \<Rightarrow> change c (Prop key) (Some new_item) (InsertContainer child_type)
                | None \<Rightarrow> change c (Prop key) (Some new_item) Insert]
      else
        (case old_item of
           None \<Rightarrow> Inr []
         | Some old_value \<Rightarrow>
           if deep_equal old_value new_item then Inr []
           else
             (case t of
                Some ct \<Rightarrow>
                  if is_value_of_container_type ct new_item \<and> is_value_of_container_type ct old_value
                  then
                    (case c of
                       None \<Rightarrow>
                         (case root_container_id d key ct of
                            None \<Rightarrow> Inl ExpectedMapContainer
                          | Some child \<Rightarrow> dc old_value new_item child child_schema)
                     | Some cid \<Rightarrow>
                         if ld_type d cid \<noteq> CMap then Inl ExpectedMapContainer
                         else
                           (case ld_map_child d cid key of
                              Some child \<Rightarrow> dc old_value new_item child child_schema
                            | None \<Rightarrow> Inr [insert_child_to_map (Some cid) key new_item]))
                  else Inr [insert_child_to_map c key new_item]
              | None \<Rightarrow> Inr [insert_child_to_map c key new_item])))"

definition diff_map ::
    "'c child_diff \<Rightarrow> 'c loro_doc \<Rightarrow> json \<Rightarrow> json \<Rightarrow> 'c option \<Rightarrow> schema option \<Rightarrow> infer_options option
     \<Rightarrow> 'c diff" where
  "diff_map dc d old_state new_state c schema infer =
     and_then (diff_each (diff_map_entry dc d old_state c schema infer) (object_entries new_state))
       (\<lambda>updates. Inr
          (map (\<lambda>(key, _). change c (Prop key) None Delete)
             (filter (\<lambda>(key, _). object_get new_state key = None) (object_entries old_state)) @ updates))"

definition children :: "json \<Rightarrow> json set" where
  "children v = (case v of JObject m \<Rightarrow> snd ` set m | JArray xs \<Rightarrow> set xs | _ \<Rightarrow> {})"

lemma object_get_child: "object_get v key = Some x \<Longrightarrow> x \<in> children v"
  by (cases v) (auto simp: object_get_def children_def bt_get_def image_iff
      dest!: map_of_SomeD intro: bexI [rotated] split: option.splits if_splits)

lemma child_size: "x \<in> children v \<Longrightarrow> size x < size v"
  by (cases v) (auto simp: children_def dest: size_json_array size_json_object)

lemma diff_map_cong [fundef_cong]:
  assumes "d = d'" "old = old'" "new = new'" "c = c'" "s = s'" "infer = infer'"
    and "\<And>x y e t. x \<in> children old' \<Longrightarrow> dc x y e t = dc' x y e t"
  shows "diff_map dc d old new c s infer = diff_map dc' d' old' new' c' s' infer'"
proof -
  have "diff_map_entry dc d' old' c' s' infer' e = diff_map_entry dc' d' old' c' s' infer' e" for e
    by (auto simp: diff_map_entry_def Let_def assms(7) object_get_child split: option.splits)
  then have "diff_map_entry dc d' old' c' s' infer' = diff_map_entry dc' d' old' c' s' infer'"
    by blast
  then show ?thesis unfolding diff_map_def assms(1-6) by simp
qed

subsection \<open>Containers\<close>

definition item_schema_of :: "slots \<Rightarrow> schema option \<Rightarrow> schema option" where
  "item_schema_of slots s =
     (case s of Some (SList slot _ _) \<Rightarrow> slots slot | Some (SMovableList slot _ _) \<Rightarrow> slots slot | _ \<Rightarrow> None)"

definition id_selector_of :: "schema option \<Rightarrow> id_selector option" where
  "id_selector_of s =
     (case s of Some (SList _ sel _) \<Rightarrow> sel | Some (SMovableList _ sel _) \<Rightarrow> sel | _ \<Rightarrow> None)"

function diff_container ::
    "'c loro_doc \<Rightarrow> slots \<Rightarrow> infer_options option \<Rightarrow> json \<Rightarrow> json \<Rightarrow> 'c option \<Rightarrow> schema option \<Rightarrow> 'c diff" where
  "diff_container d slots infer old_state new_state container schema =
     (case container of
        None \<Rightarrow>
          if \<not> is_object_like old_state \<or> \<not> is_object_like new_state \<or>
             \<not> (case schema of None \<Rightarrow> True | Some (SRoot _ _) \<Rightarrow> True | _ \<Rightarrow> False)
          then Inl RootStateNotObjects
          else diff_map (\<lambda>x y e s. diff_container d slots infer x y (Some e) s)
                 d old_state new_state None schema infer
      | Some c \<Rightarrow>
        (case container_id_to_container_type d c of
           Some CMap \<Rightarrow>
             if \<not> is_object_like old_state \<or> \<not> is_object_like new_state \<or>
                \<not> (case schema of None \<Rightarrow> True | Some (SMap _ _) \<Rightarrow> True | _ \<Rightarrow> False)
             then Inl MapStateNotObjects
             else diff_map (\<lambda>x y e s. diff_container d slots infer x y (Some e) s)
                    d old_state new_state (Some c) schema infer
         | Some CList \<Rightarrow>
             (case old_state of
                JArray old_items \<Rightarrow>
                (case new_state of
                   JArray new_items \<Rightarrow>
                   if \<not> (case schema of None \<Rightarrow> True | Some (SList _ _ _) \<Rightarrow> True | _ \<Rightarrow> False)
                   then Inl ListStateNotArrays
                   else
                     (case id_selector_of schema of
                        Some sel \<Rightarrow>
                          diff_list_with_id_selector (\<lambda>x y e s. diff_container d slots infer x y (Some e) s)
                            d old_items new_items c (item_schema_of slots schema) sel
                      | None \<Rightarrow>
                          diff_list (\<lambda>x y e s. diff_container d slots infer x y (Some e) s)
                            d old_items new_items c (item_schema_of slots schema))
                 | _ \<Rightarrow> Inl ListStateNotArrays)
              | _ \<Rightarrow> Inl ListStateNotArrays)
         | Some CMovableList \<Rightarrow>
             (case old_state of
                JArray old_items \<Rightarrow>
                (case new_state of
                   JArray new_items \<Rightarrow>
                   if \<not> (case schema of None \<Rightarrow> True | Some (SMovableList _ _ _) \<Rightarrow> True | _ \<Rightarrow> False)
                   then Inl MovableListStateNotArrays
                   else
                     (case id_selector_of schema of
                        Some sel \<Rightarrow>
                          diff_movable_list (\<lambda>x y e s. diff_container d slots infer x y (Some e) s)
                            d old_items new_items c (item_schema_of slots schema) sel
                      | None \<Rightarrow> Inl MovableListWithoutIdSelector)
                 | _ \<Rightarrow> Inl MovableListStateNotArrays)
              | _ \<Rightarrow> Inl MovableListStateNotArrays)
         | Some CText \<Rightarrow>
             (case old_state of
                JString old_text \<Rightarrow>
                (case new_state of
                   JString new_text \<Rightarrow>
                   if \<not> (case schema of None \<Rightarrow> True | Some (SText _) \<Rightarrow> True | _ \<Rightarrow> False)
                   then Inl TextStateNotStrings
                   else Inr (diff_text old_text new_text c)
                 | _ \<Rightarrow> Inl TextStateNotStrings)
              | _ \<Rightarrow> Inl TextStateNotStrings)
         | _ \<Rightarrow> Inr []))"
  by pat_completeness auto

termination diff_container
  by (relation "measure (\<lambda>(d, slots, infer, old, new, c, s). size old)")
    (auto dest: child_size size_json_array)

declare diff_container.simps [simp del]

end
