(* ===== verification/Mirror_Doc.thy ===== *)
theory Mirror_Doc
  imports Mirror_Diff
begin

text \<open>
  \<^verbatim>\<open>crates/vt-mirror/src/mirror.rs\<close>, first part: what the mirror asks of the Loro document, and how it
  creates and fills a container. The document is the abstract state of the record \<open>loro_api\<close>, whose
  operations are the calls of the \<^verbatim>\<open>loro\<close> crate; the locale \<open>loro_document\<close> states their documented
  behaviour: an operation changes the one container it names, an index out of range is an error that
  changes nothing, and an inserted container is new and empty. The locale is interpreted on a document
  held in memory, which also serves the concrete examples.
\<close>

section \<open>Values\<close>

datatype loro_value =
    LNull
  | LBool bool
  | LDouble rat
  | LI64 int
  | LString ustring
  | LList "loro_value list"
  | LMap "(ustring \<times> loro_value) list"

fun as_i64 :: "json_number \<Rightarrow> int option" where
  "as_i64 (PosInt n) = (if int n \<le> i64_max then Some (int n) else None)"
| "as_i64 (NegInt i) = Some i"
| "as_i64 (Float _) = None"

fun json_to_loro :: "json \<Rightarrow> loro_value" where
  "json_to_loro JNull = LNull"
| "json_to_loro (JBool b) = LBool b"
| "json_to_loro (JNumber n) = (case as_i64 n of Some i \<Rightarrow> LI64 i | None \<Rightarrow> LDouble (as_f64 n))"
| "json_to_loro (JString s) = LString s"
| "json_to_loro (JArray xs) = LList (map json_to_loro xs)"
| "json_to_loro (JObject m) = LMap (map (\<lambda>e. (fst e, json_to_loro (snd e))) m)"

text \<open>\<^verbatim>\<open>Number::from(i64)\<close> keeps a non-negative integer as unsigned.\<close>

definition number_from_i64 :: "int \<Rightarrow> json_number" where
  "number_from_i64 i = (if 0 \<le> i then PosInt (nat i) else NegInt i)"

fun loro_to_json :: "loro_value \<Rightarrow> json" where
  "loro_to_json LNull = JNull"
| "loro_to_json (LBool b) = JBool b"
| "loro_to_json (LDouble d) = JNumber (Float d)"
| "loro_to_json (LI64 i) = JNumber (number_from_i64 i)"
| "loro_to_json (LString s) = JString s"
| "loro_to_json (LList xs) = JArray (map loro_to_json xs)"
| "loro_to_json (LMap m) = JObject (map (\<lambda>e. (fst e, loro_to_json (snd e))) m)"

text \<open>The integers of a \<^verbatim>\<open>serde_json\<close> number: \<^verbatim>\<open>NegInt\<close> is negative.\<close>

fun numbers_ok :: "json \<Rightarrow> bool" where
  "numbers_ok (JNumber (NegInt i)) \<longleftrightarrow> i < 0"
| "numbers_ok (JArray xs) \<longleftrightarrow> (\<forall>x\<in>set xs. numbers_ok x)"
| "numbers_ok (JObject m) \<longleftrightarrow> (\<forall>e\<in>set m. numbers_ok (snd e))"
| "numbers_ok _ \<longleftrightarrow> True"

text \<open>The values the mirror is given: objects with sorted keys, and such integers.\<close>

definition json_ok :: "json \<Rightarrow> bool" where
  "json_ok v \<longleftrightarrow> json_wf v \<and> numbers_ok v"

lemma json_ok_parts [simp]:
  "json_ok (JArray xs) \<longleftrightarrow> (\<forall>x\<in>set xs. json_ok x)"
  "json_ok (JObject m) \<longleftrightarrow> bt_wf m \<and> (\<forall>e\<in>set m. json_ok (snd e))"
  "json_ok (JString s)" "json_ok JNull" "json_ok (JBool b)"
  by (auto simp: json_ok_def)

lemma loro_json_canon: "numbers_ok v \<Longrightarrow> canon (loro_to_json (json_to_loro v)) = canon v"
proof (induction v)
  case (JNumber n)
  then show ?case by (cases n) (auto simp: number_from_i64_def)
next
  case (JObject m)
  then show ?case by (auto simp: snds.simps intro: JObject.IH [OF _ snds.intros])
qed auto

lemma loro_json_wf: "json_wf v \<Longrightarrow> json_wf (loro_to_json (json_to_loro v))"
proof (induction v)
  case (JNumber n)
  then show ?case by (cases n) (auto simp: number_from_i64_def)
next
  case (JObject m)
  then show ?case
    by (auto simp: snds.simps bt_wf_def comp_def intro: JObject.IH [OF _ snds.intros])
qed auto

lemma loro_json_equal: "json_ok v \<Longrightarrow> deep_equal (loro_to_json (json_to_loro v)) v"
  using deep_equal_iff_canon [OF loro_json_wf] loro_json_canon by (simp add: json_ok_def)

text \<open>Writing a value to Loro and reading it back gives an equal value in the sense of
  \<^verbatim>\<open>deep_equal\<close>, at every depth; integers beyond the range of \<^verbatim>\<open>i64\<close> come back as the double they
  denote.\<close>

theorem json_loro_round_trip:
  assumes "json_wf v" "numbers_ok v"
  shows "deep_equal (loro_to_json (json_to_loro v)) v \<and> json_wf (loro_to_json (json_to_loro v))"
  using loro_json_equal [of v] loro_json_wf [of v] assms by (simp add: json_ok_def)

theorem json_loro_round_trip_witness:
  "deep_equal (loro_to_json (json_to_loro (JArray [JNumber (PosInt 18446744073709551615), JNull])))
     (JArray [JNumber (PosInt 18446744073709551615), JNull])"
  by (rule json_loro_round_trip [THEN conjunct1]) simp_all

section \<open>Errors and effects\<close>

datatype mirror_error =
    RootSchemaNotRoot
  | MirrorValidationFailed ustring
  | MirrorDiff diff_error
  | UnsupportedMapChange
  | UnsupportedListChange
  | InvalidListIndex
  | ContainerInsertFailed
  | UnknownRootContainerType
  | TextValueNotString
  | ListValueNotArray
  | MapValueNotObject

text \<open>The schemas registered for containers, and the document. A call that fails half way leaves
  what it has done so far, so an effect returns the world beside its result.\<close>

record ('d, 'c) world =
  w_doc :: 'd
  w_registry :: "'c \<Rightarrow> schema option option"

type_synonym ('d, 'c, 'a) eff = "('d, 'c) world \<Rightarrow> (mirror_error + 'a) \<times> ('d, 'c) world"

definition ok :: "'a \<Rightarrow> ('d, 'c, 'a) eff" where
  "ok a w = (Inr a, w)"

definition fail_with :: "mirror_error \<Rightarrow> ('d, 'c, 'a) eff" where
  "fail_with e w = (Inl e, w)"

definition bind :: "('d, 'c, 'a) eff \<Rightarrow> ('a \<Rightarrow> ('d, 'c, 'b) eff) \<Rightarrow> ('d, 'c, 'b) eff" where
  "bind m f w = (case m w of (Inl e, w') \<Rightarrow> (Inl e, w') | (Inr a, w') \<Rightarrow> f a w')"

fun for_each :: "('a \<Rightarrow> ('d, 'c, unit) eff) \<Rightarrow> 'a list \<Rightarrow> ('d, 'c, unit) eff" where
  "for_each f [] = ok ()"
| "for_each f (x # xs) = bind (f x) (\<lambda>_. for_each f xs)"

lemma bind_step: "m w = (Inr a, w') \<Longrightarrow> bind m f w = f a w'"
  by (simp add: bind_def)

lemma bind_fail: "m w = (Inl e, w') \<Longrightarrow> bind m f w = (Inl e, w')"
  by (simp add: bind_def)

lemma bind_cong [fundef_cong]:
  "m = m' \<Longrightarrow> (\<And>a. f a = f' a) \<Longrightarrow> bind m f = bind m' f'"
proof -
  assume "m = m'" "\<And>a. f a = f' a"
  then have "m = m'" "f = f'" by blast+
  then show ?thesis by simp
qed

lemma for_each_cong [fundef_cong]:
  "xs = ys \<Longrightarrow> (\<And>x. x \<in> set ys \<Longrightarrow> f x = g x) \<Longrightarrow> for_each f xs = for_each g ys"
proof (induction ys arbitrary: xs)
  case (Cons y ys)
  then show ?case by (auto intro: bind_cong)
qed simp

lemma for_each_append: "for_each f (xs @ ys) w = bind (for_each f xs) (\<lambda>_. for_each f ys) w"
  by (induction xs arbitrary: w) (auto simp: bind_def ok_def split: sum.splits prod.splits)

section \<open>The document\<close>

datatype 'c slot = Plain loro_value | Child 'c

record ('d, 'c) loro_api =
  lo_kind :: "'c \<Rightarrow> container_type"
  lo_root :: "ustring \<Rightarrow> container_type \<Rightarrow> 'c"
  lo_map :: "'d \<Rightarrow> 'c \<Rightarrow> (ustring \<times> 'c slot) list"
  lo_list :: "'d \<Rightarrow> 'c \<Rightarrow> 'c slot list"
  lo_text :: "'d \<Rightarrow> 'c \<Rightarrow> ustring"
  lo_deep :: "'d \<Rightarrow> 'c \<Rightarrow> loro_value"
  lo_doc_value :: "'d \<Rightarrow> loro_value"
  lo_map_insert :: "'d \<Rightarrow> 'c \<Rightarrow> ustring \<Rightarrow> loro_value \<Rightarrow> 'd option"
  lo_map_insert_container :: "'d \<Rightarrow> 'c \<Rightarrow> ustring \<Rightarrow> container_type \<Rightarrow> ('d \<times> 'c) option"
  lo_map_delete :: "'d \<Rightarrow> 'c \<Rightarrow> ustring \<Rightarrow> 'd option"
  lo_list_insert :: "'d \<Rightarrow> 'c \<Rightarrow> nat \<Rightarrow> loro_value \<Rightarrow> 'd option"
  lo_list_insert_container :: "'d \<Rightarrow> 'c \<Rightarrow> nat \<Rightarrow> container_type \<Rightarrow> ('d \<times> 'c) option"
  lo_list_delete :: "'d \<Rightarrow> 'c \<Rightarrow> nat \<Rightarrow> nat \<Rightarrow> 'd option"
  lo_list_move :: "'d \<Rightarrow> 'c \<Rightarrow> nat \<Rightarrow> nat \<Rightarrow> 'd option"
  lo_update_text :: "'d \<Rightarrow> 'c \<Rightarrow> ustring \<Rightarrow> 'd option"

abbreviation listy :: "('d, 'c) loro_api \<Rightarrow> 'c \<Rightarrow> bool" where
  "listy api c \<equiv> lo_kind api c = CList \<or> lo_kind api c = CMovableList"

text \<open>The containers that the mirror creates.\<close>

definition creatable :: "container_type \<Rightarrow> bool" where
  "creatable t \<longleftrightarrow> t \<in> {CMap, CList, CMovableList, CText}"

definition same_content :: "('d, 'c) loro_api \<Rightarrow> 'd \<Rightarrow> 'd \<Rightarrow> 'c \<Rightarrow> bool" where
  "same_content api d d' x \<longleftrightarrow>
     lo_map api d' x = lo_map api d x \<and> lo_list api d' x = lo_list api d x \<and> lo_text api d' x = lo_text api d x"

definition only_changes :: "('d, 'c) loro_api \<Rightarrow> ('d \<Rightarrow> 'c set) \<Rightarrow> 'd \<Rightarrow> 'd \<Rightarrow> 'c \<Rightarrow> bool" where
  "only_changes api live d d' c \<longleftrightarrow> (\<forall>x. x \<noteq> c \<longrightarrow> same_content api d d' x) \<and> live d' = live d"

definition creates :: "('d, 'c) loro_api \<Rightarrow> ('d \<Rightarrow> 'c set) \<Rightarrow> 'd \<Rightarrow> 'd \<Rightarrow> 'c \<Rightarrow> container_type \<Rightarrow> 'c \<Rightarrow> bool" where
  "creates api live d d' c t n \<longleftrightarrow>
     (\<forall>x. x \<noteq> c \<and> x \<noteq> n \<longrightarrow> same_content api d d' x) \<and> n \<notin> live d \<and> insert n (live d) \<subseteq> live d' \<and>
     lo_kind api n = t \<and> lo_map api d' n = [] \<and> lo_list api d' n = [] \<and> lo_text api d' n = []"

text \<open>The behaviour of Loro that the mirror relies on; \<open>live\<close> are the containers that exist.\<close>

locale loro_document =
  fixes api :: "('d, 'c) loro_api" and live :: "'d \<Rightarrow> 'c set"
  assumes root_kind: "lo_kind api (lo_root api key t) = t"
    and map_insert: "lo_kind api c = CMap \<Longrightarrow>
      \<exists>d'. lo_map_insert api d c k v = Some d' \<and> only_changes api live d d' c \<and>
        lo_map api d' c = bt_insert k (Plain v) (lo_map api d c)"
    and map_insert_container: "lo_kind api c = CMap \<Longrightarrow> creatable t \<Longrightarrow> c \<in> live d \<Longrightarrow>
      \<exists>d' n. lo_map_insert_container api d c k t = Some (d', n) \<and> creates api live d d' c t n \<and>
        lo_map api d' c = bt_insert k (Child n) (lo_map api d c)"
    and map_delete: "lo_kind api c = CMap \<Longrightarrow>
      \<exists>d'. lo_map_delete api d c k = Some d' \<and> only_changes api live d d' c \<and>
        lo_map api d' c = bt_remove k (lo_map api d c)"
    and list_insert: "listy api c \<Longrightarrow> i \<le> length (lo_list api d c) \<Longrightarrow>
      \<exists>d'. lo_list_insert api d c i v = Some d' \<and> only_changes api live d d' c \<and>
        lo_list api d' c = insert_at i (Plain v) (lo_list api d c)"
    and list_insert_out: "listy api c \<Longrightarrow> length (lo_list api d c) < i \<Longrightarrow> lo_list_insert api d c i v = None"
    and list_insert_container: "listy api c \<Longrightarrow> creatable t \<Longrightarrow> c \<in> live d \<Longrightarrow> i \<le> length (lo_list api d c) \<Longrightarrow>
      \<exists>d' n. lo_list_insert_container api d c i t = Some (d', n) \<and> creates api live d d' c t n \<and>
        lo_list api d' c = insert_at i (Child n) (lo_list api d c)"
    and list_delete: "listy api c \<Longrightarrow> i + n \<le> length (lo_list api d c) \<Longrightarrow>
      \<exists>d'. lo_list_delete api d c i n = Some d' \<and> only_changes api live d d' c \<and>
        lo_list api d' c = take i (lo_list api d c) @ drop (i + n) (lo_list api d c)"
    and list_delete_out: "listy api c \<Longrightarrow> length (lo_list api d c) < i + n \<Longrightarrow> lo_list_delete api d c i n = None"
    and list_move: "lo_kind api c = CMovableList \<Longrightarrow> i < length (lo_list api d c) \<Longrightarrow> j < length (lo_list api d c) \<Longrightarrow>
      \<exists>d'. lo_list_move api d c i j = Some d' \<and> only_changes api live d d' c \<and>
        lo_list api d' c = insert_at j (lo_list api d c ! i) (delete_at i (lo_list api d c))"
    and text_update: "lo_kind api c = CText \<Longrightarrow>
      \<exists>d'. lo_update_text api d c txt = Some d' \<and> only_changes api live d d' c \<and> lo_text api d' c = txt"

text \<open>A document in memory. A container is named by its root key or by a number; the containers
  inserted so far are those below \<open>md_next\<close>.\<close>

datatype container_id = RootId ustring container_type | NormalId nat container_type

record mem_doc =
  md_map :: "container_id \<Rightarrow> (ustring \<times> container_id slot) list"
  md_list :: "container_id \<Rightarrow> container_id slot list"
  md_text :: "container_id \<Rightarrow> ustring"
  md_next :: nat
  md_roots :: "(ustring \<times> container_type) list"

fun mem_kind :: "container_id \<Rightarrow> container_type" where
  "mem_kind (RootId _ t) = t"
| "mem_kind (NormalId _ t) = t"

definition mem_live :: "mem_doc \<Rightarrow> container_id set" where
  "mem_live d = {c. case c of RootId _ _ \<Rightarrow> True | NormalId n _ \<Rightarrow> n < md_next d}"

fun mem_deep :: "nat \<Rightarrow> mem_doc \<Rightarrow> container_id \<Rightarrow> loro_value" where
  "mem_deep 0 d c = LNull"
| "mem_deep (Suc n) d c =
     (let deep = (\<lambda>s. case s of Plain v \<Rightarrow> v | Child x \<Rightarrow> mem_deep n d x) in
      case mem_kind c of
        CMap \<Rightarrow> LMap (map (\<lambda>e. (fst e, deep (snd e))) (md_map d c))
      | CText \<Rightarrow> LString (md_text d c)
      | _ \<Rightarrow> LList (map deep (md_list d c)))"

definition mem_create :: "mem_doc \<Rightarrow> container_type \<Rightarrow> mem_doc \<times> container_id" where
  "mem_create d t =
     (let n = NormalId (md_next d) t in
      (d\<lparr>md_map := (md_map d)(n := []), md_list := (md_list d)(n := []), md_text := (md_text d)(n := []),
         md_next := Suc (md_next d)\<rparr>, n))"

definition mem_set_map :: "container_id \<Rightarrow> (ustring \<times> container_id slot) list \<Rightarrow> mem_doc \<Rightarrow> mem_doc" where
  "mem_set_map c m d = d\<lparr>md_map := (md_map d)(c := m)\<rparr>"

definition mem_set_list :: "container_id \<Rightarrow> container_id slot list \<Rightarrow> mem_doc \<Rightarrow> mem_doc" where
  "mem_set_list c xs d = d\<lparr>md_list := (md_list d)(c := xs)\<rparr>"

definition mem_api :: "(mem_doc, container_id) loro_api" where
  "mem_api =
     \<lparr>lo_kind = mem_kind, lo_root = RootId, lo_map = md_map, lo_list = md_list, lo_text = md_text,
      lo_deep = (\<lambda>d. mem_deep (Suc (md_next d)) d),
      lo_doc_value = (\<lambda>d. LMap (bt_collect (map (\<lambda>(k, t). (k, mem_deep (Suc (md_next d)) d (RootId k t))) (md_roots d)))),
      lo_map_insert = (\<lambda>d c k v. Some (mem_set_map c (bt_insert k (Plain v) (md_map d c)) d)),
      lo_map_insert_container = (\<lambda>d c k t.
        (case mem_create d t of (d', n) \<Rightarrow> Some (mem_set_map c (bt_insert k (Child n) (md_map d c)) d', n))),
      lo_map_delete = (\<lambda>d c k. Some (mem_set_map c (bt_remove k (md_map d c)) d)),
      lo_list_insert = (\<lambda>d c i v. if i \<le> length (md_list d c)
        then Some (mem_set_list c (insert_at i (Plain v) (md_list d c)) d) else None),
      lo_list_insert_container = (\<lambda>d c i t. if i \<le> length (md_list d c)
        then (case mem_create d t of (d', n) \<Rightarrow> Some (mem_set_list c (insert_at i (Child n) (md_list d c)) d', n))
        else None),
      lo_list_delete = (\<lambda>d c i n. if i + n \<le> length (md_list d c)
        then Some (mem_set_list c (take i (md_list d c) @ drop (i + n) (md_list d c)) d) else None),
      lo_list_move = (\<lambda>d c i k. if i < length (md_list d c) \<and> k < length (md_list d c)
        then Some (mem_set_list c (insert_at k (md_list d c ! i) (delete_at i (md_list d c))) d) else None),
      lo_update_text = (\<lambda>d c s. Some (d\<lparr>md_text := (md_text d)(c := s)\<rparr>))\<rparr>"

lemma mem_api_simps [simp]:
  "lo_kind mem_api = mem_kind" "lo_root mem_api = RootId" "lo_map mem_api = md_map" "lo_list mem_api = md_list"
  "lo_text mem_api = md_text" "lo_deep mem_api d = mem_deep (Suc (md_next d)) d"
  by (simp_all add: mem_api_def)

interpretation mem: loro_document mem_api mem_live
  by unfold_locales
    (auto simp: mem_api_def mem_set_map_def mem_set_list_def mem_create_def only_changes_def creates_def
      same_content_def mem_live_def Let_def split: container_id.splits)

definition mem_empty :: "(ustring \<times> container_type) list \<Rightarrow> mem_doc" where
  "mem_empty roots = \<lparr>md_map = (\<lambda>_. []), md_list = (\<lambda>_. []), md_text = (\<lambda>_. []), md_next = 0, md_roots = roots\<rparr>"

section \<open>The mirror's environment and the list handle\<close>

text \<open>The parts of \<^verbatim>\<open>Inner\<close> that never change.\<close>

record ('d, 'c) mirror_env =
  me_api :: "('d, 'c) loro_api"
  me_slots :: slots
  me_schema :: "schema option"
  me_validate_updates :: bool
  me_infer :: infer_options

definition doc_op :: "('d \<Rightarrow> 'd option) \<Rightarrow> ('d, 'c, unit) eff" where
  "doc_op f w =
     (case f (w_doc w) of
        None \<Rightarrow> (Inl ContainerInsertFailed, w)
      | Some d \<Rightarrow> (Inr (), w\<lparr>w_doc := d\<rparr>))"

definition doc_new :: "('d \<Rightarrow> ('d \<times> 'c) option) \<Rightarrow> ('d, 'c, 'c) eff" where
  "doc_new f w =
     (case f (w_doc w) of
        None \<Rightarrow> (Inl ContainerInsertFailed, w)
      | Some (d, c) \<Rightarrow> (Inr c, w\<lparr>w_doc := d\<rparr>))"

definition value_or_container_to_json :: "('d, 'c) loro_api \<Rightarrow> 'd \<Rightarrow> 'c slot \<Rightarrow> json" where
  "value_or_container_to_json api d s =
     loro_to_json (case s of Plain v \<Rightarrow> v | Child c \<Rightarrow> lo_deep api d c)"

definition handle_len :: "('d, 'c) loro_api \<Rightarrow> 'c \<Rightarrow> ('d, 'c) world \<Rightarrow> nat" where
  "handle_len api c w = length (lo_list api (w_doc w) c)"

definition handle_get :: "('d, 'c) loro_api \<Rightarrow> 'c \<Rightarrow> nat \<Rightarrow> ('d, 'c) world \<Rightarrow> 'c slot option" where
  "handle_get api c i w =
     (if i < length (lo_list api (w_doc w) c) then Some (lo_list api (w_doc w) c ! i) else None)"

definition handle_insert :: "('d, 'c) loro_api \<Rightarrow> 'c \<Rightarrow> nat \<Rightarrow> loro_value \<Rightarrow> ('d, 'c, unit) eff" where
  "handle_insert api c i v = doc_op (\<lambda>d. lo_list_insert api d c i v)"

definition handle_delete :: "('d, 'c) loro_api \<Rightarrow> 'c \<Rightarrow> nat \<Rightarrow> nat \<Rightarrow> ('d, 'c, unit) eff" where
  "handle_delete api c i n = doc_op (\<lambda>d. lo_list_delete api d c i n)"

definition handle_insert_container ::
    "('d, 'c) loro_api \<Rightarrow> 'c \<Rightarrow> nat \<Rightarrow> container_type \<Rightarrow> ('d, 'c, 'c) eff" where
  "handle_insert_container api c i t =
     (if creatable t then doc_new (\<lambda>d. lo_list_insert_container api d c i t)
      else fail_with UnknownRootContainerType)"

section \<open>The registry\<close>

definition register_container_with_registry :: "'c \<Rightarrow> schema option \<Rightarrow> ('d, 'c, unit) eff" where
  "register_container_with_registry c s w = (Inr (), w\<lparr>w_registry := (w_registry w)(c \<mapsto> s)\<rparr>)"

definition get_container_schema :: "('d, 'c) world \<Rightarrow> 'c \<Rightarrow> schema option" where
  "get_container_schema w c = (case w_registry w c of None \<Rightarrow> None | Some s \<Rightarrow> s)"

definition get_schema_for_child :: "slots \<Rightarrow> ('d, 'c) world \<Rightarrow> 'c \<Rightarrow> ustring \<Rightarrow> schema option" where
  "get_schema_for_child slots w c key =
     (case get_container_schema w c of
        Some (SMap fs _) \<Rightarrow> bt_get fs key
      | Some (SList slot _ _) \<Rightarrow> slots slot
      | Some (SMovableList slot _ _) \<Rightarrow> slots slot
      | _ \<Rightarrow> None)"

definition only_container :: "schema option \<Rightarrow> schema option" where
  "only_container s = (case s of Some x \<Rightarrow> if is_container_schema x then Some x else None | None \<Rightarrow> None)"

definition get_schema_for_child_container :: "slots \<Rightarrow> ('d, 'c) world \<Rightarrow> 'c \<Rightarrow> ustring \<Rightarrow> schema option" where
  "get_schema_for_child_container slots w c key = only_container (get_schema_for_child slots w c key)"

definition get_schema_for_child_container_index :: "slots \<Rightarrow> ('d, 'c) world \<Rightarrow> 'c \<Rightarrow> schema option" where
  "get_schema_for_child_container_index slots w c =
     (case get_container_schema w c of
        Some (SList slot _ _) \<Rightarrow> only_container (slots slot)
      | Some (SMovableList slot _ _) \<Rightarrow> only_container (slots slot)
      | _ \<Rightarrow> None)"

section \<open>Creating containers\<close>

text \<open>\<open>init\<close> is \<^verbatim>\<open>initialize_container\<close>, with which these two are mutually recursive. A container that
  has just been created holds no others, so registering it is one entry in the registry.\<close>

type_synonym ('d, 'c) initializer = "'c \<Rightarrow> container_type \<Rightarrow> schema option \<Rightarrow> json \<Rightarrow> ('d, 'c, unit) eff"

definition container_type_for :: "infer_options \<Rightarrow> schema option \<Rightarrow> json \<Rightarrow> container_type option" where
  "container_type_for infer s v =
     (case (case s of None \<Rightarrow> None | Some x \<Rightarrow> schema_container_type x) of
        Some t \<Rightarrow> Some t | None \<Rightarrow> try_infer_container_type v (Some infer))"

definition insert_container_into_map_with ::
    "('d, 'c) initializer \<Rightarrow> ('d, 'c) loro_api \<Rightarrow> infer_options \<Rightarrow> 'c \<Rightarrow> schema option \<Rightarrow> ustring \<Rightarrow> json
     \<Rightarrow> ('d, 'c, unit) eff" where
  "insert_container_into_map_with init api infer c s key v =
     (case container_type_for infer s v of
        None \<Rightarrow> fail_with UnknownRootContainerType
      | Some t \<Rightarrow>
          bind (if creatable t then doc_new (\<lambda>d. lo_map_insert_container api d c key t)
                else fail_with UnknownRootContainerType)
            (\<lambda>n. bind (register_container_with_registry n s) (\<lambda>_. init n t s v)))"

definition insert_container_into_list_with ::
    "('d, 'c) initializer \<Rightarrow> ('d, 'c) loro_api \<Rightarrow> infer_options \<Rightarrow> 'c \<Rightarrow> schema option \<Rightarrow> nat \<Rightarrow> json
     \<Rightarrow> ('d, 'c, unit) eff" where
  "insert_container_into_list_with init api infer c s i v =
     (case container_type_for infer s v of
        None \<Rightarrow> fail_with UnknownRootContainerType
      | Some t \<Rightarrow>
          bind (handle_insert_container api c i t)
            (\<lambda>n. bind (register_container_with_registry n s) (\<lambda>_. init n t s v)))"

lemma insert_container_into_map_cong [fundef_cong]:
  assumes "api = api'" "infer = infer'" "c = c'" "s = s'" "key = key'" "v = v'"
    and "\<And>n t s. init n t s v' = init' n t s v'"
  shows "insert_container_into_map_with init api infer c s key v =
    insert_container_into_map_with init' api' infer' c' s' key' v'"
  unfolding insert_container_into_map_with_def assms(1-6)
  by (cases "container_type_for infer' s' v'") (auto intro!: bind_cong simp: assms(7))

lemma insert_container_into_list_cong [fundef_cong]:
  assumes "api = api'" "infer = infer'" "c = c'" "s = s'" "i = i'" "v = v'"
    and "\<And>n t s. init n t s v' = init' n t s v'"
  shows "insert_container_into_list_with init api infer c s i v =
    insert_container_into_list_with init' api' infer' c' s' i' v'"
  unfolding insert_container_into_list_with_def assms(1-6)
  by (cases "container_type_for infer' s' v'") (auto intro!: bind_cong simp: assms(7))

definition field_of :: "schema option \<Rightarrow> ustring \<Rightarrow> schema option" where
  "field_of s key = (case s of Some (SMap fs _) \<Rightarrow> bt_get fs key | _ \<Rightarrow> None)"

text \<open>Whether a value becomes a child container under its schema: the two conditions
  \<^verbatim>\<open>is_field_container\<close> and \<^verbatim>\<open>matches_type\<close>.\<close>

definition becomes_container :: "schema option \<Rightarrow> json \<Rightarrow> bool" where
  "becomes_container s v =
     (case s of
        None \<Rightarrow> False
      | Some x \<Rightarrow> is_container_schema x \<and>
          (case schema_container_type x of None \<Rightarrow> False | Some t \<Rightarrow> is_value_of_container_type t v))"

function initialize_container ::
    "('d, 'c) loro_api \<Rightarrow> slots \<Rightarrow> infer_options \<Rightarrow> 'c \<Rightarrow> container_type \<Rightarrow> schema option \<Rightarrow> json
     \<Rightarrow> ('d, 'c, unit) eff" where
  "initialize_container api slots infer c t s v =
     (case t of
        CMap \<Rightarrow>
          (case v of
             JObject entries \<Rightarrow>
               if lo_kind api c \<noteq> CMap then ok ()
               else
                 for_each (\<lambda>e.
                   if becomes_container (field_of s (fst e)) (snd e)
                   then insert_container_into_map_with
                          (\<lambda>n t' s' x. initialize_container api slots infer n t' s' x)
                          api infer c (field_of s (fst e)) (fst e) (snd e)
                   else doc_op (\<lambda>d. lo_map_insert api d c (fst e) (json_to_loro (snd e)))) entries
           | _ \<Rightarrow> ok ())
      | CText \<Rightarrow>
          (case v of
             JString text' \<Rightarrow> if lo_kind api c \<noteq> CText then ok () else doc_op (\<lambda>d. lo_update_text api d c text')
           | _ \<Rightarrow> ok ())
      | CTree \<Rightarrow> fail_with UnknownRootContainerType
      | CCounter \<Rightarrow> fail_with UnknownRootContainerType
      | _ \<Rightarrow>
          (case v of
             JArray items \<Rightarrow>
               if lo_kind api c \<noteq> CList \<and> lo_kind api c \<noteq> CMovableList then ok ()
               else
                 for_each (\<lambda>e.
                   if becomes_container (item_schema_of slots s) (snd e)
                   then insert_container_into_list_with
                          (\<lambda>n t' s' x. initialize_container api slots infer n t' s' x)
                          api infer c (item_schema_of slots s) (fst e) (snd e)
                   else handle_insert api c (fst e) (json_to_loro (snd e))) (enumerate 0 items)
           | _ \<Rightarrow> ok ()))"
  by pat_completeness auto

lemma in_enumerate: "e \<in> set (enumerate n xs) \<Longrightarrow> snd e \<in> set xs"
  by (cases e) (auto simp: in_set_enumerate_eq)

termination initialize_container
  by (relation "measure (\<lambda>(api, slots, infer, c, t, s, v). size v)")
    (auto dest!: in_enumerate dest: size_json_array size_json_object)

declare initialize_container.simps [simp del]

definition insert_container_into_map ::
    "('d, 'c) mirror_env \<Rightarrow> 'c \<Rightarrow> schema option \<Rightarrow> ustring \<Rightarrow> json \<Rightarrow> ('d, 'c, unit) eff" where
  "insert_container_into_map env =
     insert_container_into_map_with (initialize_container (me_api env) (me_slots env) (me_infer env))
       (me_api env) (me_infer env)"

definition insert_container_into_list ::
    "('d, 'c) mirror_env \<Rightarrow> 'c \<Rightarrow> schema option \<Rightarrow> nat \<Rightarrow> json \<Rightarrow> ('d, 'c, unit) eff" where
  "insert_container_into_list env =
     insert_container_into_list_with (initialize_container (me_api env) (me_slots env) (me_infer env))
       (me_api env) (me_infer env)"

end
