(* ===== verification/Mirror_Create.thy ===== *)
theory Mirror_Create
  imports Mirror_Doc
begin

text \<open>
  What creating a container achieves: the container that \<^verbatim>\<open>insert_container_into_map\<close> or
  \<^verbatim>\<open>insert_container_into_list\<close> inserts, with the containers below it, stands for the value it was
  created from, and every container that existed before keeps its content.
\<close>

section \<open>Containers that stand for a value\<close>

text \<open>The container that a schema asks for a value: a map, a list or a text of its own where the schema has one
  and the value has its shape. A plain write in its place is no substitute.\<close>

fun due :: "schema option \<Rightarrow> json \<Rightarrow> container_type option" where
  "due (Some (SMap _ _)) (JObject _) = Some CMap"
| "due (Some (SList _ _ _)) (JArray _) = Some CList"
| "due (Some (SMovableList _ _ _)) (JArray _) = Some CMovableList"
| "due (Some (SText _)) (JString _) = Some CText"
| "due _ _ = None"

text \<open>\<open>stands api slots d A x s v\<close>: slot \<open>x\<close> stands for \<open>v\<close> under schema \<open>s\<close> in document \<open>d\<close>, with a container of \<open>A\<close>
  of the right kind wherever one is due, and plain values elsewhere.\<close>

inductive stands :: "('d, 'c) loro_api \<Rightarrow> slots \<Rightarrow> 'd \<Rightarrow> 'c set \<Rightarrow> 'c slot \<Rightarrow> schema option \<Rightarrow> json \<Rightarrow> bool"
  for api :: "('d, 'c) loro_api" and slots :: slots and d :: 'd and A :: "'c set" where
  stands_plain: "due s v = None \<Longrightarrow> deep_equal (loro_to_json x) v \<Longrightarrow> stands api slots d A (Plain x) s v"
| stands_map: "due s (JObject m) = Some CMap \<Longrightarrow> c \<in> A \<Longrightarrow> lo_kind api c = CMap \<Longrightarrow>
    (\<And>k. rel_option (\<lambda>x v. stands api slots d A x (field_of s k) v) (bt_get (lo_map api d c) k) (bt_get m k)) \<Longrightarrow>
    stands api slots d A (Child c) s (JObject m)"
| stands_list: "due s (JArray xs) = Some (lo_kind api c) \<Longrightarrow> c \<in> A \<Longrightarrow> listy api c \<Longrightarrow>
    list_all2 (\<lambda>x v. stands api slots d A x (item_schema_of slots s) v) (lo_list api d c) xs \<Longrightarrow>
    stands api slots d A (Child c) s (JArray xs)"
| stands_text: "due s (JString t) = Some CText \<Longrightarrow> c \<in> A \<Longrightarrow> lo_kind api c = CText \<Longrightarrow> lo_text api d c = t \<Longrightarrow>
    stands api slots d A (Child c) s (JString t)"

lemma stands_frame:
  assumes "stands api slots d A x s v" "\<forall>x\<in>A. same_content api d d' x" "A \<subseteq> B"
  shows "stands api slots d' B x s v"
  using assms
proof (induction rule: stands.induct)
  case (stands_plain s v x)
  then show ?case by (simp add: stands.stands_plain)
next
  case (stands_map s m c)
  show ?case
  proof (rule stands.stands_map)
    show "rel_option (\<lambda>x v. stands api slots d' B x (field_of s k) v) (bt_get (lo_map api d' c) k) (bt_get m k)" for k
    proof -
      have "lo_map api d' c = lo_map api d c" using stands_map.prems stands_map.hyps(2) by (simp add: same_content_def)
      then show ?thesis
        using stands_map.IH [of k] stands_map.prems by (auto intro: option.rel_mono_strong)
    qed
  qed (use stands_map in auto)
next
  case (stands_list s xs c)
  show ?case
  proof (rule stands.stands_list)
    show "list_all2 (\<lambda>x v. stands api slots d' B x (item_schema_of slots s) v) (lo_list api d' c) xs"
    proof -
      have "lo_list api d' c = lo_list api d c" using stands_list.prems stands_list.hyps(2) by (simp add: same_content_def)
      then show ?thesis
        using stands_list.IH stands_list.prems by (auto intro: list.rel_mono_strong)
    qed
  qed (use stands_list in auto)
next
  case (stands_text s t c)
  then show ?case by (auto simp: same_content_def intro: stands.stands_text)
qed

text \<open>The values for which creation succeeds without dropping anything: each value that becomes a
  container has the shape of the container's type.\<close>

function fits :: "slots \<Rightarrow> container_type \<Rightarrow> schema option \<Rightarrow> json \<Rightarrow> bool" where
  "fits slots t s v =
     (json_ok v \<and>
      (case v of
         JObject m \<Rightarrow> t = CMap \<and>
           (\<forall>e\<in>set m. becomes_container (field_of s (fst e)) (snd e) \<longrightarrow>
              fits slots (the (schema_container_type (the (field_of s (fst e))))) (field_of s (fst e)) (snd e))
       | JArray xs \<Rightarrow> (t = CList \<or> t = CMovableList) \<and>
           (\<forall>x\<in>set xs. becomes_container (item_schema_of slots s) x \<longrightarrow>
              fits slots (the (schema_container_type (the (item_schema_of slots s)))) (item_schema_of slots s) x)
       | JString _ \<Rightarrow> t = CText
       | _ \<Rightarrow> False))"
  by pat_completeness auto

termination fits
  by (relation "measure (\<lambda>(slots, t, s, v). size v)") (auto dest: size_json_array size_json_object)

declare fits.simps [simp del]

lemma fits_scalar [simp]:
  "\<not> fits slots t s JNull" "\<not> fits slots t s (JBool b)" "\<not> fits slots t s (JNumber n)"
  by (simp_all add: fits.simps)

lemma becomes_type:
  "becomes_container s v \<Longrightarrow> container_type_for infer s v = Some (the (schema_container_type (the s))) \<and>
     creatable (the (schema_container_type (the s)))"
  unfolding becomes_container_def container_type_for_def
  by (cases s; cases "the s") (auto simp: creatable_def)

lemma becomes_due:
  "\<not> becomes_container s v \<Longrightarrow> due s v = None"
  "becomes_container s v \<Longrightarrow> fits slots (the (schema_container_type (the s))) s v \<Longrightarrow>
    due s v = Some (the (schema_container_type (the s)))"
  by (cases "(s, v)" rule: due.cases;
      simp add: becomes_container_def is_value_of_container_type_def is_object_def is_array_def is_string_def fits.simps)+

section \<open>Creation\<close>

context loro_document
begin

definition grows :: "'d \<Rightarrow> 'd \<Rightarrow> 'c \<Rightarrow> bool" where
  "grows d d' c \<longleftrightarrow> live d \<subseteq> live d' \<and> (\<forall>x\<in>live d. x \<noteq> c \<longrightarrow> same_content api d d' x)"

lemma grows_trans: "grows d d' c \<Longrightarrow> grows d' d'' c \<Longrightarrow> grows d d'' c"
  unfolding grows_def same_content_def by (metis subsetD order_trans)

lemma grows_refl: "grows d d c"
  by (simp add: grows_def same_content_def)

lemma only_grows: "only_changes api live d d' c \<Longrightarrow> grows d d' c"
  by (simp add: only_changes_def grows_def)

text \<open>A new part of the document that stands for a value still does after later growth at \<open>c\<close>.\<close>

lemma stands_grows:
  assumes "stands api slots d' A x s v" "A \<subseteq> live d' - live d" "c \<in> live d" "grows d' d'' c" "A \<subseteq> B"
  shows "stands api slots d'' B x s v"
  using assms by (intro stands_frame [OF assms(1)]) (auto simp: grows_def)

definition puts_key :: "slots \<Rightarrow> 'c \<Rightarrow> schema option \<Rightarrow> ustring \<times> json \<Rightarrow> 'd \<Rightarrow> 'd \<Rightarrow> bool" where
  "puts_key slots c sc e d d' \<longleftrightarrow>
     (\<exists>A s. grows d d' c \<and> A \<subseteq> live d' - live d \<and> stands api slots d' A s sc (snd e) \<and>
        lo_map api d' c = bt_insert (fst e) s (lo_map api d c))"

lemma puts_keys:
  assumes "\<And>e w. e \<in> set es \<Longrightarrow> c \<in> live (w_doc w) \<Longrightarrow>
      \<exists>w'. f e w = (Inr (), w') \<and> puts_key slots c (sc (fst e)) e (w_doc w) (w_doc w')"
    and "distinct (map fst es)" "c \<in> live (w_doc w)" "bt_wf (lo_map api (w_doc w) c)"
  shows "\<exists>w' A. for_each f es w = (Inr (), w') \<and> grows (w_doc w) (w_doc w') c \<and>
    A \<subseteq> live (w_doc w') - live (w_doc w) \<and> bt_wf (lo_map api (w_doc w') c) \<and>
    (\<forall>k. case map_of es k of
       None \<Rightarrow> bt_get (lo_map api (w_doc w') c) k = bt_get (lo_map api (w_doc w) c) k
     | Some x \<Rightarrow> \<exists>s. bt_get (lo_map api (w_doc w') c) k = Some s \<and> stands api slots (w_doc w') A s (sc k) x)"
  using assms
proof (induction es arbitrary: w)
  case Nil
  then show ?case by (auto simp: ok_def grows_refl)
next
  case (Cons e es)
  obtain w1 where w1: "f e w = (Inr (), w1)" "puts_key slots c (sc (fst e)) e (w_doc w) (w_doc w1)"
    using Cons.prems(1) [of e w] Cons.prems(3) by auto
  obtain A s where e: "grows (w_doc w) (w_doc w1) c" "A \<subseteq> live (w_doc w1) - live (w_doc w)"
      "stands api slots (w_doc w1) A s (sc (fst e)) (snd e)" "lo_map api (w_doc w1) c = bt_insert (fst e) s (lo_map api (w_doc w) c)"
    using w1(2) unfolding puts_key_def by blast
  have "distinct (map fst es)" using Cons.prems(2) by simp
  moreover have "c \<in> live (w_doc w1)" using e(1) Cons.prems(3) by (auto simp: grows_def)
  moreover have "bt_wf (lo_map api (w_doc w1) c)" using e(4) Cons.prems(4) by simp
  ultimately have "\<exists>w' A. for_each f es w1 = (Inr (), w') \<and> grows (w_doc w1) (w_doc w') c \<and>
    A \<subseteq> live (w_doc w') - live (w_doc w1) \<and> bt_wf (lo_map api (w_doc w') c) \<and>
    (\<forall>k. case map_of es k of
       None \<Rightarrow> bt_get (lo_map api (w_doc w') c) k = bt_get (lo_map api (w_doc w1) c) k
     | Some x \<Rightarrow> \<exists>s. bt_get (lo_map api (w_doc w') c) k = Some s \<and> stands api slots (w_doc w') A s (sc k) x)"
    by (rule Cons.IH [rotated]) (rule Cons.prems(1), simp_all)
  then obtain w2 B where w2: "for_each f es w1 = (Inr (), w2)" "grows (w_doc w1) (w_doc w2) c"
      "B \<subseteq> live (w_doc w2) - live (w_doc w1)" "bt_wf (lo_map api (w_doc w2) c)"
    and get: "\<And>k. case map_of es k of
       None \<Rightarrow> bt_get (lo_map api (w_doc w2) c) k = bt_get (lo_map api (w_doc w1) c) k
     | Some x \<Rightarrow> \<exists>s. bt_get (lo_map api (w_doc w2) c) k = Some s \<and> stands api slots (w_doc w2) B s (sc k) x"
    by blast
  have B: "stands api slots (w_doc w2) (A \<union> B) s' q x" if "stands api slots (w_doc w2) B s' q x" for s' q x
    by (rule stands_frame [OF that]) (auto simp: same_content_def)
  have new: "stands api slots (w_doc w2) (A \<union> B) s (sc (fst e)) (snd e)"
    by (rule stands_grows [OF e(3,2) Cons.prems(3) w2(2)]) simp
  have fresh: "map_of es (fst e) = None"
    using Cons.prems(2) by (simp add: map_of_eq_None_iff)
  have "case map_of (e # es) k of
       None \<Rightarrow> bt_get (lo_map api (w_doc w2) c) k = bt_get (lo_map api (w_doc w) c) k
     | Some x \<Rightarrow> \<exists>s. bt_get (lo_map api (w_doc w2) c) k = Some s \<and> stands api slots (w_doc w2) (A \<union> B) s (sc k) x" for k
  proof (cases "k = fst e")
    case True
    then have "bt_get (lo_map api (w_doc w2) c) k = Some s"
      using get [of k] fresh e(4) Cons.prems(4) by (simp add: bt_simps)
    then show ?thesis using True new by (cases e) auto
  next
    case False
    then show ?thesis
      using get [of k] e(4) Cons.prems(4) B by (cases e) (auto simp: bt_simps split: option.splits)
  qed
  moreover have "A \<union> B \<subseteq> live (w_doc w2) - live (w_doc w)"
    using e(1,2) w2(2,3) by (auto simp: grows_def)
  ultimately show ?case
    using w2(1,4) w1(1) grows_trans [OF e(1) w2(2)]
    by (intro exI [of _ w2] exI [of _ "A \<union> B"] conjI allI) (simp_all add: bind_step)
qed

definition puts_index :: "slots \<Rightarrow> 'c \<Rightarrow> schema option \<Rightarrow> nat \<times> json \<Rightarrow> 'd \<Rightarrow> 'd \<Rightarrow> bool" where
  "puts_index slots c sc e d d' \<longleftrightarrow>
     (\<exists>A s. grows d d' c \<and> A \<subseteq> live d' - live d \<and> stands api slots d' A s sc (snd e) \<and>
        lo_list api d' c = insert_at (fst e) s (lo_list api d c))"

lemma puts_items:
  assumes "\<And>i x w. x \<in> set xs \<Longrightarrow> c \<in> live (w_doc w) \<Longrightarrow> i \<le> length (lo_list api (w_doc w) c) \<Longrightarrow>
      \<exists>w'. f (i, x) w = (Inr (), w') \<and> puts_index slots c sc (i, x) (w_doc w) (w_doc w')"
    and "c \<in> live (w_doc w)" "length (lo_list api (w_doc w) c) = n"
  shows "\<exists>w' A ss. for_each f (enumerate n xs) w = (Inr (), w') \<and> grows (w_doc w) (w_doc w') c \<and>
    A \<subseteq> live (w_doc w') - live (w_doc w) \<and> lo_list api (w_doc w') c = lo_list api (w_doc w) c @ ss \<and>
    list_all2 (\<lambda>x v. stands api slots (w_doc w') A x sc v) ss xs"
  using assms
proof (induction xs arbitrary: w n)
  case Nil
  then show ?case by (auto simp: ok_def grows_refl)
next
  case (Cons x xs)
  obtain w1 where w1: "f (n, x) w = (Inr (), w1)" "puts_index slots c sc (n, x) (w_doc w) (w_doc w1)"
    using Cons.prems(1) [of x w n] Cons.prems(2,3) by auto
  obtain A s where e: "grows (w_doc w) (w_doc w1) c" "A \<subseteq> live (w_doc w1) - live (w_doc w)"
      "stands api slots (w_doc w1) A s sc x" "lo_list api (w_doc w1) c = lo_list api (w_doc w) c @ [s]"
    using w1(2) Cons.prems(3) unfolding puts_index_def by (auto simp: insert_at_def)
  have "c \<in> live (w_doc w1)" using e(1) Cons.prems(2) by (auto simp: grows_def)
  moreover have "length (lo_list api (w_doc w1) c) = Suc n" using e(4) Cons.prems(3) by simp
  ultimately have "\<exists>w' A ss. for_each f (enumerate (Suc n) xs) w1 = (Inr (), w') \<and> grows (w_doc w1) (w_doc w') c \<and>
    A \<subseteq> live (w_doc w') - live (w_doc w1) \<and> lo_list api (w_doc w') c = lo_list api (w_doc w1) c @ ss \<and>
    list_all2 (\<lambda>x v. stands api slots (w_doc w') A x sc v) ss xs"
    by (rule Cons.IH [rotated]) (rule Cons.prems(1), simp_all)
  then obtain w2 B ss where w2: "for_each f (enumerate (Suc n) xs) w1 = (Inr (), w2)" "grows (w_doc w1) (w_doc w2) c"
      "B \<subseteq> live (w_doc w2) - live (w_doc w1)" "lo_list api (w_doc w2) c = lo_list api (w_doc w1) c @ ss"
      "list_all2 (\<lambda>x v. stands api slots (w_doc w2) B x sc v) ss xs"
    by blast
  have "list_all2 (\<lambda>x v. stands api slots (w_doc w2) (A \<union> B) x sc v) ss xs"
    using w2(5) by (rule list.rel_mono_strong)
      (rule stands_frame [where A = B], auto simp: same_content_def)
  moreover have "stands api slots (w_doc w2) (A \<union> B) s sc x"
    by (rule stands_grows [OF e(3,2) Cons.prems(2) w2(2)]) simp
  moreover have "A \<union> B \<subseteq> live (w_doc w2) - live (w_doc w)"
    using e(1,2) w2(2,3) by (auto simp: grows_def)
  ultimately have "grows (w_doc w) (w_doc w2) c \<and> A \<union> B \<subseteq> live (w_doc w2) - live (w_doc w) \<and>
      lo_list api (w_doc w2) c = lo_list api (w_doc w) c @ (s # ss) \<and>
      list_all2 (\<lambda>x v. stands api slots (w_doc w2) (A \<union> B) x sc v) (s # ss) (x # xs)"
    using e(4) w2(4) grows_trans [OF e(1) w2(2)] by simp
  then show ?case
    using w1(1) w2(1) by (intro exI [of _ w2] exI [of _ "A \<union> B"] exI [of _ "s # ss"] conjI) (simp_all add: bind_step)
qed

definition initialises :: "slots \<Rightarrow> ('d, 'c) initializer \<Rightarrow> container_type \<Rightarrow> schema option \<Rightarrow> json \<Rightarrow> bool" where
  "initialises slots init t s v \<longleftrightarrow>
     (\<forall>n w. lo_kind api n = t \<longrightarrow> n \<in> live (w_doc w) \<longrightarrow> lo_map api (w_doc w) n = [] \<longrightarrow>
        lo_list api (w_doc w) n = [] \<longrightarrow>
        (\<exists>w' A. init n t s v w = (Inr (), w') \<and> grows (w_doc w) (w_doc w') n \<and>
           A \<subseteq> live (w_doc w') - live (w_doc w) \<and> stands api slots (w_doc w') (insert n A) (Child n) s v))"

lemma created_stands:
  assumes creates: "creates api live (w_doc w) d' c t n" and c: "c \<in> live (w_doc w)"
    and init: "initialises slots init t s v"
  shows "\<exists>w' A. init n t s v \<lparr>w_doc = d', w_registry = r\<rparr> = (Inr (), w') \<and> grows (w_doc w) (w_doc w') c \<and>
    same_content api d' (w_doc w') c \<and>
    A \<subseteq> live (w_doc w') - live (w_doc w) \<and> stands api slots (w_doc w') A (Child n) s v"
proof -
  have facts: "lo_kind api n = t" "n \<in> live d'" "lo_map api d' n = []" "lo_list api d' n = []"
    using creates by (simp_all add: creates_def)
  obtain w' A where w': "init n t s v \<lparr>w_doc = d', w_registry = r\<rparr> = (Inr (), w')" "grows d' (w_doc w') n"
      "A \<subseteq> live (w_doc w') - live d'" "stands api slots (w_doc w') (insert n A) (Child n) s v"
    using init [unfolded initialises_def, rule_format, of n "\<lparr>w_doc = d', w_registry = r\<rparr>"] facts by auto
  have n: "n \<notin> live (w_doc w)" "insert n (live (w_doc w)) \<subseteq> live d'"
    using creates by (auto simp: creates_def)
  then have "same_content api d' (w_doc w') c" using w'(2) c by (auto simp: grows_def)
  moreover have "grows (w_doc w) (w_doc w') c"
  proof -
    have "same_content api (w_doc w) (w_doc w') x" if "x \<in> live (w_doc w)" "x \<noteq> c" for x
    proof -
      have "x \<noteq> n" "x \<in> live d'" using that(1) n by auto
      then have "same_content api d' (w_doc w') x" "same_content api (w_doc w) d' x"
        using w'(2) creates that(2) by (auto simp: grows_def creates_def)
      then show ?thesis by (simp add: same_content_def)
    qed
    then show ?thesis using w'(2) n by (auto simp: grows_def)
  qed
  moreover have "insert n A \<subseteq> live (w_doc w') - live (w_doc w)"
    using w'(2,3) n by (auto simp: grows_def)
  ultimately show ?thesis using w'(1,4) by blast
qed

lemma map_container_puts:
  assumes "lo_kind api c = CMap" "c \<in> live (w_doc w)" "becomes_container s v"
    and "initialises slots init (the (schema_container_type (the s))) s v"
  shows "\<exists>w'. insert_container_into_map_with init api infer c s k v w = (Inr (), w') \<and>
    puts_key slots c s (k, v) (w_doc w) (w_doc w')"
proof -
  define t where "t = the (schema_container_type (the s))"
  have t: "container_type_for infer s v = Some t" "creatable t"
    using becomes_type [OF assms(3)] by (simp_all add: t_def)
  obtain d' n where d': "lo_map_insert_container api (w_doc w) c k t = Some (d', n)"
      "creates api live (w_doc w) d' c t n" "lo_map api d' c = bt_insert k (Child n) (lo_map api (w_doc w) c)"
    using map_insert_container [OF assms(1) t(2) assms(2)] by blast
  obtain w' A where w': "init n t s v \<lparr>w_doc = d', w_registry = (w_registry w)(n \<mapsto> s)\<rparr> = (Inr (), w')"
      "grows (w_doc w) (w_doc w') c" "same_content api d' (w_doc w') c"
      "A \<subseteq> live (w_doc w') - live (w_doc w)" "stands api slots (w_doc w') A (Child n) s v"
    using created_stands [OF d'(2) assms(2) assms(4) [folded t_def]] by blast
  have ww: "w\<lparr>w_doc := d', w_registry := (w_registry w)(n \<mapsto> s)\<rparr> = \<lparr>w_doc = d', w_registry = (w_registry w)(n \<mapsto> s)\<rparr>"
    by (cases w) simp
  then have "insert_container_into_map_with init api infer c s k v w = (Inr (), w')"
    using t d'(1) w'(1)
    by (simp add: insert_container_into_map_with_def bind_def doc_new_def register_container_with_registry_def ww)
  then show ?thesis
    using w' d'(3) unfolding puts_key_def same_content_def by auto
qed

lemma list_container_puts:
  assumes "listy api c" "c \<in> live (w_doc w)" "becomes_container s v" "i \<le> length (lo_list api (w_doc w) c)"
    and "initialises slots init (the (schema_container_type (the s))) s v"
  shows "\<exists>w'. insert_container_into_list_with init api infer c s i v w = (Inr (), w') \<and>
    puts_index slots c s (i, v) (w_doc w) (w_doc w')"
proof -
  define t where "t = the (schema_container_type (the s))"
  have t: "container_type_for infer s v = Some t" "creatable t"
    using becomes_type [OF assms(3)] by (simp_all add: t_def)
  obtain d' n where d': "lo_list_insert_container api (w_doc w) c i t = Some (d', n)"
      "creates api live (w_doc w) d' c t n" "lo_list api d' c = insert_at i (Child n) (lo_list api (w_doc w) c)"
    using list_insert_container [OF assms(1) t(2) assms(2,4)] by blast
  obtain w' A where w': "init n t s v \<lparr>w_doc = d', w_registry = (w_registry w)(n \<mapsto> s)\<rparr> = (Inr (), w')"
      "grows (w_doc w) (w_doc w') c" "same_content api d' (w_doc w') c"
      "A \<subseteq> live (w_doc w') - live (w_doc w)" "stands api slots (w_doc w') A (Child n) s v"
    using created_stands [OF d'(2) assms(2) assms(5) [folded t_def]] by blast
  have ww: "w\<lparr>w_doc := d', w_registry := (w_registry w)(n \<mapsto> s)\<rparr> = \<lparr>w_doc = d', w_registry = (w_registry w)(n \<mapsto> s)\<rparr>"
    by (cases w) simp
  then have "insert_container_into_list_with init api infer c s i v w = (Inr (), w')"
    using t d'(1) w'(1)
    by (simp add: insert_container_into_list_with_def handle_insert_container_def bind_def doc_new_def
        register_container_with_registry_def ww)
  then show ?thesis
    using w' d'(3) unfolding puts_index_def same_content_def by auto
qed

lemma plain_key_puts:
  assumes "lo_kind api c = CMap" "json_ok v" "due s v = None"
  shows "\<exists>w'. doc_op (\<lambda>d. lo_map_insert api d c k (json_to_loro v)) w = (Inr (), w') \<and>
    puts_key slots c s (k, v) (w_doc w) (w_doc w')"
proof -
  obtain d' where d': "lo_map_insert api (w_doc w) c k (json_to_loro v) = Some d'"
      "only_changes api live (w_doc w) d' c"
      "lo_map api d' c = bt_insert k (Plain (json_to_loro v)) (lo_map api (w_doc w) c)"
    using map_insert [OF assms(1)] by blast
  have "puts_key slots c s (k, v) (w_doc w) d'"
    unfolding puts_key_def using only_grows [OF d'(2)] d'(3) stands_plain [OF assms(3) loro_json_equal [OF assms(2)]]
    by (metis empty_subsetI fst_conv snd_conv)
  then show ?thesis using d'(1) by (auto simp: doc_op_def)
qed

lemma plain_index_puts:
  assumes "listy api c" "json_ok v" "due s v = None" "i \<le> length (lo_list api (w_doc w) c)"
  shows "\<exists>w'. handle_insert api c i (json_to_loro v) w = (Inr (), w') \<and>
    puts_index slots c s (i, v) (w_doc w) (w_doc w')"
proof -
  obtain d' where d': "lo_list_insert api (w_doc w) c i (json_to_loro v) = Some d'"
      "only_changes api live (w_doc w) d' c"
      "lo_list api d' c = insert_at i (Plain (json_to_loro v)) (lo_list api (w_doc w) c)"
    using list_insert [OF assms(1,4)] by blast
  have "puts_index slots c s (i, v) (w_doc w) d'"
    unfolding puts_index_def using only_grows [OF d'(2)] d'(3) stands_plain [OF assms(3) loro_json_equal [OF assms(2)]]
    by (metis empty_subsetI fst_conv snd_conv)
  then show ?thesis using d'(1) by (auto simp: doc_op_def handle_insert_def)
qed

lemma initialize_stands: "fits slots t s v \<Longrightarrow> due s v = Some t \<Longrightarrow> initialises slots (initialize_container api slots infer) t s v"
proof (induction "size v" arbitrary: v t s rule: less_induct)
  case less
  let ?init = "initialize_container api slots infer"
  have v: "json_ok v" using less.prems(1) by (simp add: fits.simps [of slots t s v])
  show ?case
    unfolding initialises_def
  proof (intro allI impI)
    fix n and w :: "('d, 'c) world"
    assume n: "lo_kind api n = t" "n \<in> live (w_doc w)" "lo_map api (w_doc w) n = []" "lo_list api (w_doc w) n = []"
    show "\<exists>w' A. ?init n t s v w = (Inr (), w') \<and> grows (w_doc w) (w_doc w') n \<and>
        A \<subseteq> live (w_doc w') - live (w_doc w) \<and> stands api slots (w_doc w') (insert n A) (Child n) s v"
    proof (cases v)
      case (JObject m)
      then have t: "t = CMap" and m: "bt_wf m" using less.prems v unfolding JObject by (simp_all add: fits.simps [of slots t s "JObject m"])
      define f where "f = (\<lambda>e. if becomes_container (field_of s (fst e)) (snd e)
          then insert_container_into_map_with ?init api infer n (field_of s (fst e)) (fst e) (snd e)
          else doc_op (\<lambda>d. lo_map_insert api d n (fst e) (json_to_loro (snd e))))"
      have "\<exists>w'. f e w = (Inr (), w') \<and> puts_key slots n (field_of s (fst e)) e (w_doc w) (w_doc w')"
        if e: "e \<in> set m" and live: "n \<in> live (w_doc w)" for e w
      proof (cases "becomes_container (field_of s (fst e)) (snd e)")
        case True
        then have "fits slots (the (schema_container_type (the (field_of s (fst e))))) (field_of s (fst e)) (snd e)"
          using less.prems(1) e JObject by (simp add: fits.simps [of slots t s "JObject m"])
        then have "initialises slots ?init (the (schema_container_type (the (field_of s (fst e))))) (field_of s (fst e)) (snd e)"
          using less.hyps [of "snd e"] size_json_object [of "fst e" "snd e" m] e JObject becomes_due(2) [OF True] by simp
        then show ?thesis
          using map_container_puts [OF _ live True, of slots ?init infer "fst e"] n(1) t True by (simp add: f_def)
      next
        case False
        then show ?thesis
          using plain_key_puts [of n "snd e" "field_of s (fst e)" "fst e" w] becomes_due(1) n(1) t v JObject e by (auto simp: f_def)
      qed
      then obtain w' A where w': "for_each f m w = (Inr (), w')" "grows (w_doc w) (w_doc w') n"
          "A \<subseteq> live (w_doc w') - live (w_doc w)"
        and get: "\<forall>k. case map_of m k of
          None \<Rightarrow> bt_get (lo_map api (w_doc w') n) k = bt_get (lo_map api (w_doc w) n) k
        | Some x \<Rightarrow> \<exists>s'. bt_get (lo_map api (w_doc w') n) k = Some s' \<and> stands api slots (w_doc w') A s' (field_of s k) x"
        using puts_keys [of m n f slots "field_of s" w] bt_wf_distinct [OF m] n(2,3) by fastforce
      have big: "stands api slots (w_doc w') (insert n A) s' q x" if "stands api slots (w_doc w') A s' q x" for s' q x
        by (rule stands_frame [OF that]) (auto simp: same_content_def)
      have "rel_option (\<lambda>x v. stands api slots (w_doc w') (insert n A) x (field_of s k) v) (bt_get (lo_map api (w_doc w') n) k) (bt_get m k)" for k
        using get [rule_format, of k] n(3) big by (cases "map_of m k") (auto simp: bt_get_def)
      then have "stands api slots (w_doc w') (insert n A) (Child n) s v"
        unfolding JObject using n(1) t less.prems(2) JObject by (intro stands_map) auto
      moreover have "?init n t s v w = (Inr (), w')"
        using w'(1) n(1) t JObject by (simp add: initialize_container.simps f_def)
      ultimately show ?thesis using w'(2,3) by blast
    next
      case (JArray xs)
      then have t: "t = CList \<or> t = CMovableList"
        using less.prems unfolding JArray by (simp add: fits.simps [of slots t s "JArray xs"])
      define f where "f = (\<lambda>e. if becomes_container (item_schema_of slots s) (snd e)
          then insert_container_into_list_with ?init api infer n (item_schema_of slots s) (fst e) (snd e)
          else handle_insert api n (fst e) (json_to_loro (snd e)))"
      have "\<exists>w'. f (i, x) w = (Inr (), w') \<and> puts_index slots n (item_schema_of slots s) (i, x) (w_doc w) (w_doc w')"
        if x: "x \<in> set xs" and live: "n \<in> live (w_doc w)" and i: "i \<le> length (lo_list api (w_doc w) n)" for i x w
      proof (cases "becomes_container (item_schema_of slots s) x")
        case True
        then have "fits slots (the (schema_container_type (the (item_schema_of slots s)))) (item_schema_of slots s) x"
          using less.prems(1) x JArray by (simp add: fits.simps [of slots t s "JArray xs"])
        then have "initialises slots ?init (the (schema_container_type (the (item_schema_of slots s)))) (item_schema_of slots s) x"
          using less.hyps [of x] size_json_array [of x xs] x JArray becomes_due(2) [OF True] by simp
        then show ?thesis
          using list_container_puts [OF _ live True i, of slots ?init infer] n(1) t True by (simp add: f_def)
      next
        case False
        then show ?thesis
          using plain_index_puts [of n x "item_schema_of slots s" i w] becomes_due(1) n(1) t v JArray x i by (auto simp: f_def)
      qed
      then obtain w' A ss where w': "for_each f (enumerate 0 xs) w = (Inr (), w')" "grows (w_doc w) (w_doc w') n"
          "A \<subseteq> live (w_doc w') - live (w_doc w)" "lo_list api (w_doc w') n = ss"
          "list_all2 (\<lambda>x v. stands api slots (w_doc w') A x (item_schema_of slots s) v) ss xs"
        using puts_items [of xs n f slots "item_schema_of slots s" w 0] n(2,4) by fastforce
      have "list_all2 (\<lambda>x v. stands api slots (w_doc w') (insert n A) x (item_schema_of slots s) v) ss xs"
        using w'(5) by (rule list.rel_mono_strong) (rule stands_frame [where A = A], auto simp: same_content_def)
      then have "stands api slots (w_doc w') (insert n A) (Child n) s v"
        unfolding JArray using n(1) t w'(4) less.prems(2) JArray by (intro stands_list) auto
      moreover have "?init n t s v w = (Inr (), w')"
        using w'(1) n(1) t JArray by (auto simp: initialize_container.simps f_def)
      ultimately show ?thesis using w'(2,3) by blast
    next
      case (JString str)
      then have t: "t = CText"
        using less.prems unfolding JString by (simp add: fits.simps [of slots t s "JString str"])
      obtain d' where d': "lo_update_text api (w_doc w) n str = Some d'" "only_changes api live (w_doc w) d' n"
          "lo_text api d' n = str"
        using text_update [of n] n(1) t by blast
      have "?init n t s v w = (Inr (), w\<lparr>w_doc := d'\<rparr>)"
        using d'(1) n(1) t JString by (simp add: initialize_container.simps doc_op_def)
      moreover have "stands api slots d' {n} (Child n) s v"
        unfolding JString using n(1) t d'(3) less.prems(2) JString by (intro stands_text) auto
      ultimately show ?thesis using only_grows [OF d'(2)] by force
    qed (use less.prems in simp_all)
  qed
qed

end

lemma due_container:
  "due s v = Some t \<Longrightarrow> becomes_container s v \<and> t = the (schema_container_type (the s))"
  by (cases "(s, v)" rule: due.cases)
     (auto simp: becomes_container_def is_value_of_container_type_def is_object_def is_array_def is_string_def)

lemma due_slot: "stands api slots d A x s v \<Longrightarrow> due s v = Some t \<Longrightarrow> \<exists>n\<in>A. x = Child n \<and> lo_kind api n = t"
  by (induction rule: stands.induct) auto

text \<open>C33: A container inserted for a value stands for that value. When the schema asks for a container for the value
  and the value fits, \<^verbatim>\<open>insert_container_into_map\<close> succeeds; the slot at the key then holds a new container of
  the kind that is asked for, which stands for the value at every depth: maps key by key, lists item by item, texts
  literally, with a new container of the right kind again wherever the schema asks for one, and plain values up to
  \<^verbatim>\<open>deep_equal\<close> elsewhere. Every other key of the map keeps its slot, and every other container that existed keeps its
  content.\<close>

theorem insert_container_stands:
  assumes "loro_document (me_api env) live"
    and "lo_kind (me_api env) c = CMap" "c \<in> live (w_doc w)" "bt_wf (lo_map (me_api env) (w_doc w) c)"
    and "due s v = Some t" "fits (me_slots env) t s v"
  shows "\<exists>w' A n. insert_container_into_map env c s key v w = (Inr (), w') \<and>
    lo_kind (me_api env) n = t \<and> n \<in> A \<and> A \<inter> live (w_doc w) = {} \<and>
    stands (me_api env) (me_slots env) (w_doc w') A (Child n) s v \<and>
    (\<forall>k. bt_get (lo_map (me_api env) (w_doc w') c) k =
       (if k = key then Some (Child n) else bt_get (lo_map (me_api env) (w_doc w) c) k)) \<and>
    (\<forall>x\<in>live (w_doc w). x \<noteq> c \<longrightarrow> same_content (me_api env) (w_doc w) (w_doc w') x)"
proof -
  have due: "becomes_container s v" "t = the (schema_container_type (the s))" using due_container [OF assms(5)] by auto
  have "loro_document.initialises (me_api env) live (me_slots env)
      (initialize_container (me_api env) (me_slots env) (me_infer env)) t s v"
    by (rule loro_document.initialize_stands [OF assms(1,6,5)])
  then obtain w' where w': "insert_container_into_map env c s key v w = (Inr (), w')"
      "loro_document.puts_key (me_api env) live (me_slots env) c s (key, v) (w_doc w) (w_doc w')"
    using loro_document.map_container_puts [OF assms(1-3) due(1)] due(2) unfolding insert_container_into_map_def by blast
  then obtain A slot where a: "\<forall>x\<in>live (w_doc w). x \<noteq> c \<longrightarrow> same_content (me_api env) (w_doc w) (w_doc w') x"
      "A \<subseteq> live (w_doc w') - live (w_doc w)" "stands (me_api env) (me_slots env) (w_doc w') A slot s v"
      "lo_map (me_api env) (w_doc w') c = bt_insert key slot (lo_map (me_api env) (w_doc w) c)"
    unfolding loro_document.puts_key_def [OF assms(1)] loro_document.grows_def [OF assms(1)] by auto
  obtain n where "n \<in> A" "slot = Child n" "lo_kind (me_api env) n = t" using due_slot [OF a(3) assms(5)] by blast
  then show ?thesis using a w'(1) assms(4) by (intro exI [of _ w'] exI [of _ A] exI [of _ n]) (auto simp: bt_simps)
qed

lemma mem_live_root: "RootId k t \<in> mem_live d"
  by (simp add: mem_live_def)

definition demo_env :: "schema \<Rightarrow> (nat \<Rightarrow> schema option) \<Rightarrow> (mem_doc, container_id) mirror_env" where
  "demo_env s slots = \<lparr>me_api = mem_api, me_slots = slots, me_schema = Some s, me_validate_updates = True, me_infer = no_infer\<rparr>"

definition demo_world :: "(mem_doc, container_id) world" where
  "demo_world = \<lparr>w_doc = mem_empty [], w_registry = (\<lambda>_. None)\<rparr>"

theorem insert_container_stands_witness:
  "\<exists>w' A n. insert_container_into_map (demo_env (SRoot [] default_options) (\<lambda>_. None)) (RootId [1] CMap)
      (Some (SMap [([2], SText default_options)] default_options)) [3] (JObject [([2], JString [4]), ([5], JNull)])
      demo_world = (Inr (), w') \<and>
    stands mem_api (\<lambda>_. None) (w_doc w') A (Child n) (Some (SMap [([2], SText default_options)] default_options))
      (JObject [([2], JString [4]), ([5], JNull)])"
proof -
  let ?env = "demo_env (SRoot [] default_options) (\<lambda>_. None)" and ?s = "Some (SMap [([2], SText default_options)] default_options)"
  let ?v = "JObject [([2], JString [4]), ([5], JNull)]"
  have "fits (me_slots ?env) CMap ?s ?v"
    by (simp add: demo_env_def becomes_container_def is_value_of_container_type_def fits.simps field_of_def bt_get_def bt_wf_def
        is_string_def)
  moreover have "RootId [1] CMap \<in> mem_live (w_doc demo_world)" "lo_kind (me_api ?env) (RootId [1] CMap) = CMap"
    "bt_wf (lo_map (me_api ?env) (w_doc demo_world) (RootId [1] CMap))" "loro_document (me_api ?env) mem_live"
    by (simp_all add: demo_env_def demo_world_def mem.loro_document_axioms mem_live_root mem_empty_def bt_wf_def)
  ultimately show ?thesis
    using insert_container_stands [of ?env mem_live "RootId [1] CMap" demo_world ?s ?v CMap "[3]"]
    by (simp add: demo_env_def) blast
qed

end
