(* ===== verification/Mirror_Apply.thy ===== *)
theory Mirror_Apply
  imports Mirror_Create
begin

text \<open>
  \<^verbatim>\<open>crates/vt-mirror/src/mirror.rs\<close>, second part: carrying changes over to the Loro document.
  \<^verbatim>\<open>apply_changes_to_loro\<close> groups the changes by container; a change of a root field replaces the
  content of a root container by one of the \<^verbatim>\<open>update_*\<close> functions, any other change is applied to its
  container one after the other.
\<close>

section \<open>Applying changes to one container\<close>

definition change_value :: "'c change \<Rightarrow> json" where
  "change_value ch = (case ch_value ch of None \<Rightarrow> JNull | Some v \<Rightarrow> v)"

definition apply_map_change :: "('d, 'c) mirror_env \<Rightarrow> 'c \<Rightarrow> 'c change \<Rightarrow> ('d, 'c, unit) eff" where
  "apply_map_change env c ch w =
     (case ch_key ch of
        Index _ \<Rightarrow> (Inr (), w)
      | Prop key \<Rightarrow>
        if key = [] then (Inr (), w)
        else
          (case ch_kind ch of
             Insert \<Rightarrow> doc_op (\<lambda>d. lo_map_insert (me_api env) d c key (json_to_loro (change_value ch))) w
           | InsertContainer _ \<Rightarrow>
               insert_container_into_map env c (get_schema_for_child_container (me_slots env) w c key) key
                 (change_value ch) w
           | Delete \<Rightarrow> doc_op (\<lambda>d. lo_map_delete (me_api env) d c key) w
           | Move _ _ \<Rightarrow> (Inl UnsupportedMapChange, w)))"

text \<open>The branches for lists and for movable lists differ in the move only.\<close>

definition apply_list_change :: "('d, 'c) mirror_env \<Rightarrow> bool \<Rightarrow> 'c \<Rightarrow> 'c change \<Rightarrow> ('d, 'c, unit) eff" where
  "apply_list_change env movable c ch w =
     (case ch_key ch of
        Prop _ \<Rightarrow> (Inl InvalidListIndex, w)
      | Index i \<Rightarrow>
        (case ch_kind ch of
           Delete \<Rightarrow> handle_delete (me_api env) c i 1 w
         | Insert \<Rightarrow> handle_insert (me_api env) c i (json_to_loro (change_value ch)) w
         | InsertContainer _ \<Rightarrow>
             insert_container_into_list env c (get_schema_for_child_container_index (me_slots env) w c) i
               (change_value ch) w
         | Move from_index to_index \<Rightarrow>
             if movable then doc_op (\<lambda>d. lo_list_move (me_api env) d c from_index to_index) w
             else (Inl UnsupportedListChange, w)))"

text \<open>A change of a text whose value is no string is logged and skipped.\<close>

definition apply_text_change :: "('d, 'c) mirror_env \<Rightarrow> 'c \<Rightarrow> 'c change \<Rightarrow> ('d, 'c, unit) eff" where
  "apply_text_change env c ch =
     (case ch_value ch of
        Some (JString s) \<Rightarrow> doc_op (\<lambda>d. lo_update_text (me_api env) d c s)
      | _ \<Rightarrow> ok ())"

definition apply_container_changes :: "('d, 'c) mirror_env \<Rightarrow> 'c \<Rightarrow> 'c change list \<Rightarrow> ('d, 'c, unit) eff" where
  "apply_container_changes env c changes =
     (case lo_kind (me_api env) c of
        CMap \<Rightarrow> for_each (apply_map_change env c) changes
      | CList \<Rightarrow> for_each (apply_list_change env False c) changes
      | CMovableList \<Rightarrow> for_each (apply_list_change env True c) changes
      | CText \<Rightarrow> for_each (apply_text_change env c) changes
      | _ \<Rightarrow> ok ())"

section \<open>Replacing a root list\<close>

definition insert_item_into_list ::
    "('d, 'c) mirror_env \<Rightarrow> 'c \<Rightarrow> nat \<Rightarrow> json \<Rightarrow> schema option \<Rightarrow> ('d, 'c, unit) eff" where
  "insert_item_into_list env c i item item_schema =
     (let schema = only_container item_schema;
          is_container = (schema \<noteq> None \<or> try_infer_container_type item (Some (me_infer env)) \<noteq> None)
      in if is_container \<and> (is_object item \<or> is_array item)
         then insert_container_into_list env c schema i item
         else handle_insert (me_api env) c i (json_to_loro item))"

definition item_at :: "('d, 'c) loro_api \<Rightarrow> 'c \<Rightarrow> nat \<Rightarrow> ('d, 'c) world \<Rightarrow> json option" where
  "item_at api c i w = map_option (value_or_container_to_json api (w_doc w)) (handle_get api c i w)"

definition item_equals :: "('d, 'c) loro_api \<Rightarrow> 'c \<Rightarrow> nat \<Rightarrow> json \<Rightarrow> ('d, 'c) world \<Rightarrow> bool" where
  "item_equals api c i item w = (case item_at api c i w of None \<Rightarrow> False | Some v \<Rightarrow> deep_equal v item)"

text \<open>Deleting the item at an index and inserting another in its place.\<close>

definition put_item ::
    "('d, 'c) mirror_env \<Rightarrow> 'c \<Rightarrow> nat \<Rightarrow> json \<Rightarrow> schema option \<Rightarrow> ('d, 'c, unit) eff" where
  "put_item env c i item item_schema =
     bind (handle_delete (me_api env) c i 1) (\<lambda>_. insert_item_into_list env c i item item_schema)"

text \<open>The loop of \<^verbatim>\<open>update_list_by_index\<close> from turn \<open>i\<close> on; \<open>n\<close> is the length the list had at first.\<close>

function update_by_index ::
    "('d, 'c) mirror_env \<Rightarrow> 'c \<Rightarrow> json list \<Rightarrow> schema option \<Rightarrow> nat \<Rightarrow> nat \<Rightarrow> ('d, 'c, unit) eff" where
  "update_by_index env c new item_schema n i w =
     (if i < max n (length new)
      then
        if n \<le> i
        then bind (insert_item_into_list env c i (new ! i) item_schema)
               (\<lambda>_. update_by_index env c new item_schema n (i + 1)) w
        else if length new \<le> i then handle_delete (me_api env) c (length new) (n - length new) w
        else if item_equals (me_api env) c i (new ! i) w
        then update_by_index env c new item_schema n (i + 1) w
        else bind (put_item env c i (new ! i) item_schema)
               (\<lambda>_. update_by_index env c new item_schema n (i + 1)) w
      else (Inr (), w))"
  by pat_completeness auto

termination update_by_index
  by (relation "measure (\<lambda>(env, c, new, s, n, i, w). max n (length new) - i)") auto

declare update_by_index.simps [simp del]

definition update_list_by_index ::
    "('d, 'c) mirror_env \<Rightarrow> 'c \<Rightarrow> json list \<Rightarrow> schema option \<Rightarrow> ('d, 'c, unit) eff" where
  "update_list_by_index env c new item_schema w =
     update_by_index env c new item_schema (handle_len (me_api env) c w) 0 w"

text \<open>\<^verbatim>\<open>update_list_with_id_selector\<close>: deleting what is gone, from the back, aligning one item after
  the other at a cursor, and cutting off the rest.\<close>

definition current_ids :: "id_selector \<Rightarrow> json list \<Rightarrow> (ustring \<times> nat) list" where
  "current_ids sel items =
     fold (\<lambda>i m. case select_id sel (items ! i) of None \<Rightarrow> m | Some ident \<Rightarrow> bt_insert ident i m)
       [0..<length items] []"

definition ids_to_remove :: "(ustring \<times> nat) list \<Rightarrow> id_selector \<Rightarrow> json list \<Rightarrow> nat list" where
  "ids_to_remove ids sel new =
     (let new_ids = set (List.map_filter (select_id sel) new)
      in rev (sort (map snd (filter (\<lambda>(ident, _). ident \<notin> new_ids) ids))))"

fun align_items ::
    "('d, 'c) mirror_env \<Rightarrow> 'c \<Rightarrow> (ustring \<times> nat) list \<Rightarrow> id_selector \<Rightarrow> schema option \<Rightarrow> nat \<Rightarrow> json list
     \<Rightarrow> ('d, 'c, nat) eff" where
  "align_items env c ids sel item_schema cursor [] w = (Inr cursor, w)"
| "align_items env c ids sel item_schema cursor (item # items) w =
     (case select_id sel item of
        None \<Rightarrow> align_items env c ids sel item_schema cursor items w
      | Some ident \<Rightarrow>
          if bt_get ids ident \<noteq> None
          then
            if item_at (me_api env) c cursor w = Some item \<or> item_equals (me_api env) c cursor item w
            then align_items env c ids sel item_schema (cursor + 1) items w
            else bind (put_item env c cursor item item_schema)
                   (\<lambda>_. align_items env c ids sel item_schema (cursor + 1) items) w
          else bind (insert_item_into_list env c cursor item item_schema)
                 (\<lambda>_. align_items env c ids sel item_schema (cursor + 1) items) w)"

definition cut_off :: "('d, 'c) mirror_env \<Rightarrow> 'c \<Rightarrow> nat \<Rightarrow> ('d, 'c, unit) eff" where
  "cut_off env c cursor w =
     (if cursor < handle_len (me_api env) c w
      then handle_delete (me_api env) c cursor (handle_len (me_api env) c w - cursor) w
      else (Inr (), w))"

definition shown :: "('d, 'c) loro_api \<Rightarrow> 'c \<Rightarrow> ('d, 'c) world \<Rightarrow> json list" where
  "shown api c w = map (value_or_container_to_json api (w_doc w)) (lo_list api (w_doc w) c)"

definition update_list_with_id_selector ::
    "('d, 'c) mirror_env \<Rightarrow> 'c \<Rightarrow> json list \<Rightarrow> id_selector \<Rightarrow> schema option \<Rightarrow> ('d, 'c, unit) eff" where
  "update_list_with_id_selector env c new sel item_schema w =
     (let ids = current_ids sel (shown (me_api env) c w) in
      bind (for_each (\<lambda>i. handle_delete (me_api env) c i 1) (ids_to_remove ids sel new)) (\<lambda>_.
        bind (align_items env c ids sel item_schema 0 new) (cut_off env c)) w)"

definition update_list_container :: "('d, 'c) mirror_env \<Rightarrow> 'c \<Rightarrow> json \<Rightarrow> ('d, 'c, unit) eff" where
  "update_list_container env c v w =
     (case v of
        JArray new \<Rightarrow>
          (let schema = get_container_schema w c;
               item_schema = item_schema_of (me_slots env) schema in
           case id_selector_of schema of
             Some sel \<Rightarrow> update_list_with_id_selector env c new sel item_schema w
           | None \<Rightarrow> update_list_by_index env c new item_schema w)
      | _ \<Rightarrow> (Inl ListValueNotArray, w))"

section \<open>Replacing a root map\<close>

text \<open>The last step writes the plain value also when a child container has just been inserted at the
  key (the source calls this quirk 6 of its model).\<close>

definition update_map_entry ::
    "('d, 'c) mirror_env \<Rightarrow> 'c \<Rightarrow> (ustring \<times> schema) list \<Rightarrow> ustring \<times> json \<Rightarrow> ('d, 'c, unit) eff" where
  "update_map_entry env c fs e =
     bind
       (case bt_get fs (fst e) of
          None \<Rightarrow> ok ()
        | Some f \<Rightarrow>
          if (case f of SMap _ _ \<Rightarrow> True | SList _ _ _ \<Rightarrow> True | SText _ \<Rightarrow> True | _ \<Rightarrow> False) \<and>
             (is_object (snd e) \<or> is_array (snd e))
          then insert_container_into_map env c (Some f) (fst e) (snd e) else ok ())
       (\<lambda>_. doc_op (\<lambda>d. lo_map_insert (me_api env) d c (fst e) (json_to_loro (snd e))))"

text \<open>The keys left over are deleted in the order of the map; the source takes them from a hash set.\<close>

definition update_map_container :: "('d, 'c) mirror_env \<Rightarrow> 'c \<Rightarrow> json \<Rightarrow> ('d, 'c, unit) eff" where
  "update_map_container env c v w =
     (case v of
        JObject entries \<Rightarrow>
          (case get_container_schema w c of
             Some (SMap fs _) \<Rightarrow>
               (let gone = filter (\<lambda>k. bt_get entries k = None) (bt_keys (lo_map (me_api env) (w_doc w) c)) in
                bind (for_each (update_map_entry env c fs) entries) (\<lambda>_.
                  for_each (\<lambda>k. doc_op (\<lambda>d. lo_map_delete (me_api env) d c k)) gone) w)
           | _ \<Rightarrow> (Inr (), w))
      | _ \<Rightarrow> (Inl MapValueNotObject, w))"

definition update_top_level_container :: "('d, 'c) mirror_env \<Rightarrow> 'c \<Rightarrow> json \<Rightarrow> ('d, 'c, unit) eff" where
  "update_top_level_container env c v =
     (case lo_kind (me_api env) c of
        CText \<Rightarrow>
          (case v of
             JString s \<Rightarrow> doc_op (\<lambda>d. lo_update_text (me_api env) d c s)
           | _ \<Rightarrow> fail_with TextValueNotString)
      | CList \<Rightarrow> update_list_container env c v
      | CMovableList \<Rightarrow> update_list_container env c v
      | CMap \<Rightarrow> update_map_container env c v
      | _ \<Rightarrow> fail_with UnknownRootContainerType)"

section \<open>Applying all changes\<close>

text \<open>What \<^verbatim>\<open>diff.rs\<close> reads of the document.\<close>

definition child_of :: "'c slot option \<Rightarrow> 'c option" where
  "child_of s = (case s of Some (Child c) \<Rightarrow> Some c | _ \<Rightarrow> None)"

definition doc_view :: "('d, 'c) loro_api \<Rightarrow> 'd \<Rightarrow> 'c loro_doc" where
  "doc_view api d =
     \<lparr>ld_type = lo_kind api, ld_root = lo_root api,
      ld_map_child = (\<lambda>c k. child_of (bt_get (lo_map api d c) k)),
      ld_list_child = (\<lambda>c i. if i < length (lo_list api d c) then child_of (Some (lo_list api d c ! i)) else None),
      ld_movable_child = (\<lambda>c i. if i < length (lo_list api d c) then child_of (Some (lo_list api d c ! i)) else None)\<rparr>"

definition apply_root_change :: "('d, 'c) mirror_env \<Rightarrow> 'c change \<Rightarrow> ('d, 'c, unit) eff" where
  "apply_root_change env ch w =
     (let key = (case ch_key ch of Prop k \<Rightarrow> k | Index i \<Rightarrow> show_nat i);
          field = (case me_schema env of Some (SRoot fs _) \<Rightarrow> bt_get fs key | _ \<Rightarrow> None);
          t = (case (case field of None \<Rightarrow> None | Some f \<Rightarrow> schema_container_type f) of
                 Some t \<Rightarrow> Some t
               | None \<Rightarrow> (case ch_value ch of
                            None \<Rightarrow> None | Some v \<Rightarrow> try_infer_container_type v (Some (me_infer env))))
      in
      case t of
        None \<Rightarrow> (Inl UnknownRootContainerType, w)
      | Some t \<Rightarrow>
        (case root_container_id (doc_view (me_api env) (w_doc w)) key t of
           None \<Rightarrow> (Inl UnknownRootContainerType, w)
         | Some c \<Rightarrow>
             bind (register_container_with_registry c field)
               (\<lambda>_. update_top_level_container env c (change_value ch)) w))"

definition apply_root_changes :: "('d, 'c) mirror_env \<Rightarrow> 'c change list \<Rightarrow> ('d, 'c, unit) eff" where
  "apply_root_changes env = for_each (apply_root_change env)"

text \<open>\<^verbatim>\<open>apply_changes_to_loro\<close> groups the changes by container, in the order of first mention.\<close>

definition add_to_bucket ::
    "('c option \<times> 'c change list) list \<Rightarrow> 'c change \<Rightarrow> ('c option \<times> 'c change list) list" where
  "add_to_bucket buckets ch =
     (case position (\<lambda>b. fst b = ch_container ch) buckets of
        Some i \<Rightarrow> buckets[i := (fst (buckets ! i), snd (buckets ! i) @ [ch])]
      | None \<Rightarrow> buckets @ [(ch_container ch, [ch])])"

definition group_changes :: "'c change list \<Rightarrow> ('c option \<times> 'c change list) list" where
  "group_changes chs = foldl add_to_bucket [] chs"

definition apply_changes_to_loro :: "('d, 'c) mirror_env \<Rightarrow> 'c change list \<Rightarrow> ('d, 'c, unit) eff" where
  "apply_changes_to_loro env changes =
     for_each (\<lambda>(container, container_changes).
       case container of
         None \<Rightarrow> apply_root_changes env container_changes
       | Some c \<Rightarrow> apply_container_changes env c container_changes) (group_changes changes)"

section \<open>The order of the changes\<close>

lemma add_to_bucket_fst:
  "map fst (add_to_bucket bs ch) =
     (if ch_container ch \<in> fst ` set bs then map fst bs else map fst bs @ [ch_container ch])"
proof (cases "position (\<lambda>b. fst b = ch_container ch) bs")
  case None
  then have "ch_container ch \<notin> fst ` set bs" by (auto simp: position_None_iff)
  then show ?thesis using None by (simp add: add_to_bucket_def)
next
  case (Some i)
  then have i: "i < length bs" "fst (bs ! i) = ch_container ch" using position_SomeD [OF Some] by simp_all
  then have "ch_container ch \<in> fst ` set bs" by (metis image_eqI nth_mem)
  moreover have "map fst (bs[i := (fst (bs ! i), x)]) = map fst bs" for x
    using i(1) list_update_id [of "map fst bs" i] by (simp add: map_update)
  ultimately show ?thesis using Some by (simp add: add_to_bucket_def)
qed

lemma bucket_of:
  "map_of (add_to_bucket bs ch) c =
     (if c = ch_container ch
      then Some ((case map_of bs c of None \<Rightarrow> [] | Some cs \<Rightarrow> cs) @ [ch]) else map_of bs c)"
proof (cases "position (\<lambda>b. fst b = ch_container ch) bs")
  case None
  then have "map_of bs (ch_container ch) = None" by (auto simp: position_None_iff map_of_eq_None_iff)
  then show ?thesis using None by (auto simp: add_to_bucket_def map_add_def split: option.splits)
next
  case (Some i)
  have "map_of (bs[i := (fst (bs ! i), snd (bs ! i) @ [ch])]) c =
     (if c = ch_container ch
      then Some ((case map_of bs c of None \<Rightarrow> [] | Some cs \<Rightarrow> cs) @ [ch]) else map_of bs c)"
    using Some
  proof (induction bs arbitrary: i)
    case (Cons b bs)
    then show ?case by (cases b) (auto split: if_splits)
  qed simp
  then show ?thesis using Some by (simp add: add_to_bucket_def)
qed

text \<open>Grouping loses nothing and keeps the order within a container. Each container that some
  change names has exactly one bucket, which holds its changes in the order they came in, and
  nothing else is in the buckets.\<close>

theorem grouping_keeps_order:
  "distinct (map fst (group_changes chs)) \<and>
   map_of (group_changes chs) c =
     (if c \<in> ch_container ` set chs then Some (filter (\<lambda>ch. ch_container ch = c) chs) else None)"
proof (induction chs rule: rev_induct)
  case Nil
  then show ?case by (simp add: group_changes_def)
next
  case (snoc ch chs)
  let ?g = "group_changes chs"
  have g: "group_changes (chs @ [ch]) = add_to_bucket ?g ch" by (simp add: group_changes_def)
  have "filter (\<lambda>ch. ch_container ch = c) chs = []" if "c \<notin> ch_container ` set chs"
    using that by (auto simp: filter_empty_conv)
  then have "map_of (add_to_bucket ?g ch) c =
      (if c \<in> ch_container ` set (chs @ [ch])
       then Some (filter (\<lambda>ch. ch_container ch = c) (chs @ [ch])) else None)"
    using snoc.IH by (cases "c = ch_container ch") (auto simp: bucket_of)
  moreover have "distinct (map fst (add_to_bucket ?g ch))"
    using snoc.IH by (auto simp: add_to_bucket_fst)
  ultimately show ?case using g by simp
qed

end
