(* ===== verification/Mirror_Laws.thy ===== *)
theory Mirror_Laws
  imports Mirror_Apply
begin

text \<open>
  What applying the differences achieves, for lists of plain values: a small calculus of effects on
  one list (\<open>runs\<close>: from a document in which the list shows \<open>xs\<close> the effect succeeds and leaves it
  showing \<open>ys\<close>), the effect of each change in it, and the theorems about the four ways the mirror
  brings a list to a new value: by position, by identifier, as a movable list, and by replacing a
  root list.
\<close>

section \<open>Effects on one list\<close>

text \<open>What is read back of a value that was written.\<close>

definition kept :: "json \<Rightarrow> json" where
  "kept x = loro_to_json (json_to_loro x)"

lemma kept_equal: "json_ok x \<Longrightarrow> deep_equal (kept x) x"
  by (simp add: kept_def loro_json_equal)

definition plain_list :: "('d, 'c) loro_api \<Rightarrow> 'c \<Rightarrow> 'd \<Rightarrow> bool" where
  "plain_list api c d \<longleftrightarrow> (\<forall>s\<in>set (lo_list api d c). \<exists>v. s = Plain v)"

definition shows_list :: "('d, 'c) loro_api \<Rightarrow> 'c \<Rightarrow> json list \<Rightarrow> ('d, 'c) world \<Rightarrow> bool" where
  "shows_list api c xs w \<longleftrightarrow> plain_list api c (w_doc w) \<and> shown api c w = xs"

definition runs :: "('d, 'c) loro_api \<Rightarrow> 'c \<Rightarrow> ('d, 'c, unit) eff \<Rightarrow> json list \<Rightarrow> json list \<Rightarrow> bool" where
  "runs api c m xs ys \<longleftrightarrow>
     (\<forall>w. shows_list api c xs w \<longrightarrow> (\<exists>w'. m w = (Inr (), w') \<and> shows_list api c ys w'))"

definition fails :: "('d, 'c) loro_api \<Rightarrow> 'c \<Rightarrow> ('d, 'c, unit) eff \<Rightarrow> json list \<Rightarrow> mirror_error \<Rightarrow> bool" where
  "fails api c m xs e \<longleftrightarrow> (\<forall>w. shows_list api c xs w \<longrightarrow> (\<exists>w'. m w = (Inl e, w')))"

lemma runs_ok: "runs api c (ok ()) xs xs"
  by (simp add: runs_def ok_def)

lemma runs_bind: "runs api c m xs ys \<Longrightarrow> runs api c (f ()) ys zs \<Longrightarrow> runs api c (bind m f) xs zs"
  unfolding runs_def by (metis bind_step)

lemma fails_bind: "runs api c m xs ys \<Longrightarrow> fails api c (f ()) ys e \<Longrightarrow> fails api c (bind m f) xs e"
  unfolding runs_def fails_def by (metis bind_step)

lemma fails_now: "fails api c m xs e \<Longrightarrow> fails api c (bind m f) xs e"
  unfolding fails_def by (metis bind_fail)

lemma runs_append:
  "runs api c (for_each f as) xs ys \<Longrightarrow> runs api c (for_each f bs) ys zs \<Longrightarrow> runs api c (for_each f (as @ bs)) xs zs"
  by (simp add: runs_def for_each_append) (metis bind_step)

lemma fails_append:
  "runs api c (for_each f as) xs ys \<Longrightarrow> fails api c (for_each f bs) ys e \<Longrightarrow> fails api c (for_each f (as @ bs)) xs e"
  by (simp add: runs_def fails_def for_each_append) (metis bind_step)

lemma runs_one: "runs api c (f a) xs ys \<Longrightarrow> runs api c (for_each f [a]) xs ys"
  by (auto intro: runs_bind runs_ok)

lemma runs_snoc:
  "runs api c (for_each f as) xs ys \<Longrightarrow> runs api c (f a) ys zs \<Longrightarrow> runs api c (for_each f (as @ [a])) xs zs"
  by (rule runs_append [OF _ runs_one])

definition plain_value :: "'c slot \<Rightarrow> json" where
  "plain_value s = loro_to_json (case s of Plain v \<Rightarrow> v | Child _ \<Rightarrow> LNull)"

lemma shows_list_iff:
  "shows_list api c xs w \<longleftrightarrow> plain_list api c (w_doc w) \<and> map plain_value (lo_list api (w_doc w) c) = xs"
proof -
  have "value_or_container_to_json api (w_doc w) s = plain_value s"
    if "plain_list api c (w_doc w)" "s \<in> set (lo_list api (w_doc w) c)" for s
    using that by (auto simp: plain_list_def value_or_container_to_json_def plain_value_def)
  then have "plain_list api c (w_doc w) \<Longrightarrow> shown api c w = map plain_value (lo_list api (w_doc w) c)"
    by (simp add: shown_def)
  then show ?thesis by (auto simp: shows_list_def)
qed

lemma shows_listD: "shows_list api c xs w \<Longrightarrow> length (lo_list api (w_doc w) c) = length xs"
  by (auto simp: shows_list_def shown_def)

lemma shows_list_at:
  assumes "shows_list api c xs w" "i < length xs"
  shows "item_at api c i w = Some (xs ! i)"
  using assms by (auto simp: shows_list_def shown_def item_at_def handle_get_def)

lemma plain_no_child: "plain_list api c d \<Longrightarrow> ld_list_child (doc_view api d) c i = None"
  and plain_no_movable: "plain_list api c d \<Longrightarrow> ld_movable_child (doc_view api d) c i = None"
  by (auto simp: plain_list_def doc_view_def child_of_def split: slot.splits dest!: nth_mem)

context loro_document
begin

lemma runs_handle_insert:
  assumes "listy api c" "i \<le> length xs"
  shows "runs api c (handle_insert api c i (json_to_loro x)) xs (insert_at i (kept x) xs)"
  unfolding runs_def
proof (intro allI impI)
  fix w
  assume w: "shows_list api c xs w"
  obtain d' where d': "lo_list_insert api (w_doc w) c i (json_to_loro x) = Some d'"
      "lo_list api d' c = insert_at i (Plain (json_to_loro x)) (lo_list api (w_doc w) c)"
    using list_insert [OF assms(1), of i "w_doc w" "json_to_loro x"] assms(2) shows_listD [OF w] by auto
  have "shows_list api c (insert_at i (kept x) xs) (w\<lparr>w_doc := d'\<rparr>)"
    using w d'(2) by (auto simp: shows_list_iff plain_list_def map_insert_at kept_def plain_value_def)
  then show "\<exists>w'. handle_insert api c i (json_to_loro x) w = (Inr (), w') \<and>
      shows_list api c (insert_at i (kept x) xs) w'"
    using d'(1) by (auto simp: handle_insert_def doc_op_def)
qed

lemma runs_handle_delete:
  assumes "listy api c" "i + n \<le> length xs"
  shows "runs api c (handle_delete api c i n) xs (take i xs @ drop (i + n) xs)"
  unfolding runs_def
proof (intro allI impI)
  fix w
  assume w: "shows_list api c xs w"
  obtain d' where d': "lo_list_delete api (w_doc w) c i n = Some d'"
      "lo_list api d' c = take i (lo_list api (w_doc w) c) @ drop (i + n) (lo_list api (w_doc w) c)"
    using list_delete [OF assms(1), of i n "w_doc w"] assms(2) shows_listD [OF w] by auto
  have "shows_list api c (take i xs @ drop (i + n) xs) (w\<lparr>w_doc := d'\<rparr>)"
    using w d'(2) by (auto simp: shows_list_iff plain_list_def take_map drop_map dest: in_set_takeD in_set_dropD)
  then show "\<exists>w'. handle_delete api c i n w = (Inr (), w') \<and> shows_list api c (take i xs @ drop (i + n) xs) w'"
    using d'(1) by (auto simp: handle_delete_def doc_op_def)
qed

lemma fails_handle_delete:
  assumes "listy api c" "length xs < i + n"
  shows "fails api c (handle_delete api c i n) xs ContainerInsertFailed"
  unfolding fails_def
proof (intro allI impI)
  fix w
  assume w: "shows_list api c xs w"
  have "lo_list_delete api (w_doc w) c i n = None"
    by (rule list_delete_out [OF assms(1)]) (use assms(2) shows_listD [OF w] in simp)
  then show "\<exists>w'. handle_delete api c i n w = (Inl ContainerInsertFailed, w')"
    by (simp add: handle_delete_def doc_op_def)
qed


text \<open>Changes of one list.\<close>

lemma runs_delete_change:
  assumes "me_api env = api" "listy api c" "i < length xs"
  shows "runs api c (apply_list_change env mv c (change k (Index i) v Delete)) xs (delete_at i xs)"
  using runs_handle_delete [OF assms(2), of i 1 xs] assms(1,3)
  by (simp add: runs_def apply_list_change_def change_def delete_at_def)

lemma fails_delete_change:
  assumes "me_api env = api" "listy api c" "length xs \<le> i"
  shows "fails api c (apply_list_change env mv c (change k (Index i) v Delete)) xs ContainerInsertFailed"
  using fails_handle_delete [OF assms(2), of xs i 1] assms(1,3)
  by (simp add: fails_def apply_list_change_def change_def)

lemma runs_insert_change:
  assumes "me_api env = api" "listy api c" "i \<le> length xs"
  shows "runs api c (apply_list_change env mv c (insert_item k i x None)) xs (insert_at i (kept x) xs)"
  using runs_handle_insert [OF assms(2,3), of x] assms(1)
  by (simp add: runs_def apply_list_change_def insert_item_def try_update_to_insert_container_def change_def
      change_value_def)

lemma runs_replace:
  assumes "me_api env = api" "listy api c" "i < length xs"
  shows "runs api c (for_each (apply_list_change env mv c) (replace_item k i x None)) xs (xs[i := kept x])"
proof -
  have "replace_item k i x None = [change (Some k) (Index i) None Delete, insert_item k i x None]"
    by (simp add: replace_item_def insert_item_def)
  moreover have "insert_at i (kept x) (delete_at i xs) = xs[i := kept x]"
    using assms(3) by (simp add: insert_at_def delete_at_def upd_conv_take_nth_drop)
  moreover have "runs api c (for_each (apply_list_change env mv c) [insert_item k i x None]) (delete_at i xs)
      (insert_at i (kept x) (delete_at i xs))"
    by (rule runs_one, rule runs_insert_change [OF assms(1,2)]) (use assms(3) in simp)
  ultimately show ?thesis
    using runs_bind [of api c "apply_list_change env mv c (change (Some k) (Index i) None Delete)" xs "delete_at i xs"]
      runs_delete_change [OF assms] by simp
qed

end

lemma replace_prefix:
  assumes "loro_document api live" "me_api env = api" "listy api c" "k \<le> length xs" "k \<le> length new"
  shows "\<exists>ys. runs api c (for_each (apply_list_change env mv c)
      (concat (map (\<lambda>i. if deep_equal (xs ! i) (new ! i) then [] else replace_item c i (new ! i) None) [0..<k]))) xs ys \<and>
    length ys = length xs \<and>
    (\<forall>i<length xs. ys ! i = (if i < k \<and> \<not> deep_equal (xs ! i) (new ! i) then kept (new ! i) else xs ! i))"
  using assms(4,5)
proof (induction k)
  case 0
  then show ?case by (auto intro: runs_ok)
next
  case (Suc k)
  obtain ys where ys: "runs api c (for_each (apply_list_change env mv c)
      (concat (map (\<lambda>i. if deep_equal (xs ! i) (new ! i) then [] else replace_item c i (new ! i) None) [0..<k]))) xs ys"
    "length ys = length xs"
    "\<forall>i<length xs. ys ! i = (if i < k \<and> \<not> deep_equal (xs ! i) (new ! i) then kept (new ! i) else xs ! i)"
    using Suc by auto
  show ?case
  proof (cases "deep_equal (xs ! k) (new ! k)")
    case True
    then show ?thesis using ys by (intro exI [of _ ys]) (auto simp: less_Suc_eq)
  next
    case False
    have "runs api c (for_each (apply_list_change env mv c) (replace_item c k (new ! k) None)) ys (ys[k := kept (new ! k)])"
      by (rule loro_document.runs_replace [OF assms(1-3)]) (use Suc.prems ys(2) in simp)
    then show ?thesis
      using runs_append [OF ys(1)] ys(2,3) False Suc.prems
      by (intro exI [of _ "ys[k := kept (new ! k)]"]) (auto simp: nth_list_update less_Suc_eq)
  qed
qed

lemma append_rest:
  assumes "loro_document api live" "me_api env = api" "listy api c"
  shows "runs api c (for_each (apply_list_change env mv c) (map (\<lambda>i. insert_item c i (new ! i) None) [length xs..<length xs + k]))
    xs (xs @ map (\<lambda>i. kept (new ! i)) [length xs..<length xs + k])"
proof (induction k)
  case (Suc k)
  let ?ys = "xs @ map (\<lambda>i. kept (new ! i)) [length xs..<length xs + k]"
  have "runs api c (apply_list_change env mv c (insert_item c (length xs + k) (new ! (length xs + k)) None)) ?ys
      (?ys @ [kept (new ! (length xs + k))])"
    using loro_document.runs_insert_change [OF assms, of "length xs + k" ?ys mv c "new ! (length xs + k)"]
    by (simp add: insert_at_def)
  then show ?case using runs_snoc [OF Suc.IH] by simp
qed (simp add: runs_ok)

text \<open>Deleting at ascending indexes soon runs out of range, when there are two or more.\<close>

lemma late_deletes_fail:
  assumes "loro_document api live" "me_api env = api" "listy api c" "length xs < m + k" "0 < k"
  shows "fails api c (for_each (apply_list_change env mv c)
    (map (\<lambda>i. change (Some c) (Index i) None Delete) [m..<m + k])) xs ContainerInsertFailed"
  using assms(4,5)
proof (induction k arbitrary: m xs)
  case (Suc k)
  let ?d = "\<lambda>i. change (Some c) (Index i) None Delete"
  have all: "[m..<m + Suc k] = m # [Suc m..<Suc m + k]" by (simp add: upt_conv_Cons)
  show ?case
  proof (cases "length xs \<le> m")
    case True
    then show ?thesis
      unfolding all using fails_now [OF loro_document.fails_delete_change [OF assms(1-3) True]] by simp
  next
    case False
    then have "runs api c (apply_list_change env mv c (?d m)) xs (delete_at m xs)"
      by (intro loro_document.runs_delete_change [OF assms(1-3)]) simp
    moreover have "fails api c (for_each (apply_list_change env mv c) (map ?d [Suc m..<Suc m + k])) (delete_at m xs)
        ContainerInsertFailed"
      by (rule Suc.IH) (use Suc.prems False in auto)
    ultimately show ?thesis unfolding all by (auto intro: fails_bind)
  qed
qed simp

lemma ascending_deletes_fail:
  assumes "loro_document api live" "me_api env = api" "listy api c" "length xs = m + k" "2 \<le> k"
  shows "fails api c (for_each (apply_list_change env mv c)
    (map (\<lambda>i. change (Some c) (Index i) None Delete) [m..<m + k])) xs ContainerInsertFailed"
proof -
  define j where "j = k - 1"
  have k: "k = Suc j" "0 < j" using assms(5) by (simp_all add: j_def)
  let ?d = "\<lambda>i. change (Some c) (Index i) None Delete"
  have all: "[m..<m + k] = m # [Suc m..<Suc m + j]" using k(2) by (simp add: upt_conv_Cons k(1))
  have "runs api c (apply_list_change env mv c (?d m)) xs (delete_at m xs)"
    by (rule loro_document.runs_delete_change [OF assms(1-3)]) (use assms(4) k in simp)
  moreover have "fails api c (for_each (apply_list_change env mv c) (map ?d [Suc m..<Suc m + j])) (delete_at m xs)
      ContainerInsertFailed"
    by (rule late_deletes_fail [OF assms(1-3)]) (use assms(4) k in auto)
  ultimately show ?thesis unfolding all by (auto intro: fails_bind)
qed

section \<open>Differences by position\<close>

lemma diff_each_ok: "(\<And>x. x \<in> set xs \<Longrightarrow> f x = Inr (g x)) \<Longrightarrow> diff_each f xs = Inr (concat (map g xs))"
  by (induction xs) auto

lemma diff_list_plain:
  assumes "\<And>i. ld_list_child d c i = None"
  shows "diff_list dc d old new c None = Inr
    (concat (map (\<lambda>i. if deep_equal (old ! i) (new ! i) then [] else replace_item c i (new ! i) None)
       [0..<min (length old) (length new)]) @
     map (\<lambda>i. change (Some c) (Index i) None Delete) [length new..<length old] @
     map (\<lambda>i. insert_item c i (new ! i) None) [length old..<length new])"
proof -
  have "diff_each (\<lambda>i. if deep_equal (old ! i) (new ! i) then Inr []
      else (case ld_list_child d c i of Some child \<Rightarrow> dc (old ! i) (new ! i) child None
             | None \<Rightarrow> Inr (replace_item c i (new ! i) None))) [0..<min (length old) (length new)] =
    Inr (concat (map (\<lambda>i. if deep_equal (old ! i) (new ! i) then [] else replace_item c i (new ! i) None)
       [0..<min (length old) (length new)]))"
    by (rule diff_each_ok) (simp add: assms)
  then show ?thesis by (simp add: diff_list_def)
qed

text \<open>C38: The positional list difference, applied. For a list of plain values without item schema
  the difference succeeds. If the new value is at most one item shorter, applying the changes leaves
  the list showing it, up to \<^verbatim>\<open>deep_equal\<close>. If it is shorter by two items or more, the application
  stops with an error: the surplus items are deleted at ascending indexes, although each deletion
  moves the items behind it forward.\<close>

theorem diff_list_applied:
  assumes "loro_document (me_api env) live" "listy (me_api env) c"
    and "shows_list (me_api env) c old w" "\<forall>x\<in>set new. json_ok x"
  shows "\<exists>changes. diff_list dc (doc_view (me_api env) (w_doc w)) old new c None = Inr changes \<and>
    (if length old \<le> length new + 1
     then \<exists>w' ys. for_each (apply_list_change env mv c) changes w = (Inr (), w') \<and>
       shows_list (me_api env) c ys w' \<and> list_all2 deep_equal ys new
     else \<exists>w'. for_each (apply_list_change env mv c) changes w = (Inl ContainerInsertFailed, w'))"
proof -
  let ?api = "me_api env" and ?k = "min (length old) (length new)"
  let ?update = "concat (map (\<lambda>i. if deep_equal (old ! i) (new ! i) then [] else replace_item c i (new ! i) None) [0..<?k])"
  let ?delete = "map (\<lambda>i. change (Some c) (Index i) None Delete) [length new..<length old]"
  let ?insert = "map (\<lambda>i. insert_item c i (new ! i) None) [length old..<length new]"
  have diff: "diff_list dc (doc_view ?api (w_doc w)) old new c None = Inr (?update @ ?delete @ ?insert)"
    by (rule diff_list_plain) (use assms(3) plain_no_child in \<open>auto simp: shows_list_def\<close>)
  obtain ys where ys: "runs ?api c (for_each (apply_list_change env mv c) ?update) old ys" "length ys = length old"
    "\<forall>i<length old. ys ! i = (if i < ?k \<and> \<not> deep_equal (old ! i) (new ! i) then kept (new ! i) else old ! i)"
    using replace_prefix [OF assms(1) refl assms(2), of ?k old new mv] by auto
  have same: "deep_equal (ys ! i) (new ! i)" if "i < ?k" for i
    using ys(3) that assms(4) kept_equal by auto
  have applied_runs: "\<exists>w' ys. for_each (apply_list_change env mv c) (?update @ ?delete @ ?insert) w = (Inr (), w') \<and>
      shows_list ?api c ys w' \<and> list_all2 deep_equal ys new"
    if "runs ?api c (for_each (apply_list_change env mv c) (?update @ ?delete @ ?insert)) old ys" "list_all2 deep_equal ys new" for ys
    using that assms(3) unfolding runs_def by blast
  show ?thesis
  proof (cases "length new < length old")
    case True
    show ?thesis
    proof (cases "length old = length new + 1")
      case one: True
      have "runs ?api c (for_each (apply_list_change env mv c) (?delete @ ?insert)) ys (delete_at (length new) ys)"
        using loro_document.runs_delete_change [OF assms(1) refl assms(2), of "length new" ys] one ys(2)
        by (auto intro!: runs_bind runs_ok)
      then have "runs ?api c (for_each (apply_list_change env mv c) (?update @ ?delete @ ?insert)) old
          (delete_at (length new) ys)"
        by (rule runs_append [OF ys(1)])
      moreover have "list_all2 deep_equal (delete_at (length new) ys) new"
        using same one ys(2) by (auto simp: list_all2_conv_all_nth delete_at_def nth_append)
      ultimately show ?thesis using diff applied_runs assms(3) one by auto
    next
      case False
      then obtain k where k: "length old = length new + k" "2 \<le> k"
        using True that [of "length old - length new"] by simp
      have "fails ?api c (for_each (apply_list_change env mv c) ?delete) ys ContainerInsertFailed"
        unfolding k(1) by (rule ascending_deletes_fail [OF assms(1) refl assms(2)]) (use k ys(2) in auto)
      then have "fails ?api c (for_each (apply_list_change env mv c) (?update @ ?delete @ ?insert)) old ContainerInsertFailed"
        using True by (intro fails_append [OF ys(1)]) simp
      then show ?thesis using diff k assms(3) by (auto simp: fails_def)
    qed
  next
    case False
    then obtain k where k: "length new = length old + k" by (metis le_iff_add not_le)
    have "runs ?api c (for_each (apply_list_change env mv c) (?delete @ ?insert)) ys
        (ys @ map (\<lambda>i. kept (new ! i)) [length ys..<length ys + k])"
      using append_rest [OF assms(1) refl assms(2), of mv new ys k] k ys(2) by simp
    then have "runs ?api c (for_each (apply_list_change env mv c) (?update @ ?delete @ ?insert)) old
        (ys @ map (\<lambda>i. kept (new ! i)) [length ys..<length ys + k])"
      by (rule runs_append [OF ys(1)])
    moreover have "list_all2 deep_equal (ys @ map (\<lambda>i. kept (new ! i)) [length ys..<length ys + k]) new"
      using same k ys(2) assms(4) by (auto simp: list_all2_conv_all_nth nth_append kept_equal)
    ultimately show ?thesis using diff applied_runs assms(3) False by auto
  qed
qed

section \<open>Replacing a root list\<close>

definition plain_item :: "json \<Rightarrow> bool" where
  "plain_item x \<longleftrightarrow> json_ok x \<and> \<not> is_object x \<and> \<not> is_array x"

lemma runs_insert_item:
  assumes "loro_document (me_api env) live" "listy (me_api env) c" "i \<le> length xs" "plain_item x"
  shows "runs (me_api env) c (insert_item_into_list env c i x s) xs (insert_at i (kept x) xs)"
  using loro_document.runs_handle_insert [OF assms(1-3)] assms(4)
  by (simp add: insert_item_into_list_def plain_item_def Let_def)

lemma runs_put_item:
  assumes "loro_document (me_api env) live" "listy (me_api env) c" "i < length xs" "plain_item x"
  shows "runs (me_api env) c (put_item env c i x s) xs (xs[i := kept x])"
proof -
  have "insert_at i (kept x) (delete_at i xs) = xs[i := kept x]"
    using assms(3) by (simp add: insert_at_def delete_at_def upd_conv_take_nth_drop)
  moreover have "runs (me_api env) c (handle_delete (me_api env) c i 1) xs (delete_at i xs)"
    using loro_document.runs_handle_delete [OF assms(1,2), of i 1 xs] assms(3) by (simp add: delete_at_def)
  moreover have "runs (me_api env) c (insert_item_into_list env c i x s) (delete_at i xs)
      (insert_at i (kept x) (delete_at i xs))"
    by (rule runs_insert_item [OF assms(1,2) _ assms(4)]) (use assms(3) in simp)
  ultimately show ?thesis unfolding put_item_def by (auto intro: runs_bind)
qed

lemma item_equals_shown:
  "shows_list api c xs w \<Longrightarrow> i < length xs \<Longrightarrow> item_equals api c i x w = deep_equal (xs ! i) x"
  by (simp add: item_equals_def shows_list_at)

lemma runs_update_by_index:
  assumes "loro_document (me_api env) live" "listy (me_api env) c" "\<forall>x\<in>set new. plain_item x"
    and "i \<le> length new" "length xs = max n i" "\<forall>j<i. deep_equal (xs ! j) (new ! j)"
  shows "\<exists>ys. runs (me_api env) c (update_by_index env c new s n i) xs ys \<and> list_all2 deep_equal ys new"
  using assms(4-6)
proof (induction "length new - i" arbitrary: i xs)
  case 0
  then have i: "i = length new" by simp
  show ?case
  proof (cases "n \<le> i")
    case True
    then have "update_by_index env c new s n i = ok ()"
      using i by (intro ext) (simp add: update_by_index.simps ok_def)
    then show ?thesis
      using "0.prems" i True by (intro exI [of _ xs]) (simp add: runs_ok list_all2_conv_all_nth)
  next
    case False
    then have "update_by_index env c new s n i = handle_delete (me_api env) c (length new) (n - length new)"
      using i by (intro ext) (simp add: update_by_index.simps)
    moreover have "runs (me_api env) c (handle_delete (me_api env) c (length new) (n - length new)) xs (take (length new) xs)"
      using loro_document.runs_handle_delete [OF assms(1,2), of "length new" "n - length new" xs] "0.prems" i False by simp
    ultimately show ?thesis
      using "0.prems" i False by (auto simp: list_all2_conv_all_nth)
  qed
next
  case (Suc k)
  then have i: "i < length new" "k = length new - Suc i" by auto
  note x = assms(3) [rule_format, OF nth_mem [OF i(1)]]
  show ?case
  proof (cases "n \<le> i")
    case True
    then have eq: "update_by_index env c new s n i =
        bind (insert_item_into_list env c i (new ! i) s) (\<lambda>_. update_by_index env c new s n (Suc i))"
      using i by (intro ext) (simp add: update_by_index.simps [of env c new s n i])
    have "runs (me_api env) c (insert_item_into_list env c i (new ! i) s) xs (xs @ [kept (new ! i)])"
      using runs_insert_item [OF assms(1,2) _ x, of i xs s] Suc.prems(2) True by (simp add: insert_at_def)
    moreover obtain ys where "runs (me_api env) c (update_by_index env c new s n (Suc i)) (xs @ [kept (new ! i)]) ys"
        "list_all2 deep_equal ys new"
      using Suc.hyps(1) [OF i(2), of "xs @ [kept (new ! i)]"] i(1) Suc.prems True x
      by (auto simp: nth_append less_Suc_eq plain_item_def kept_equal)
    ultimately show ?thesis unfolding eq by (auto intro: runs_bind)
  next
    case False
    then have len: "i < length xs" "length xs = max n (Suc i)" using Suc.prems by auto
    show ?thesis
    proof (cases "deep_equal (xs ! i) (new ! i)")
      case True
      obtain ys where ys: "runs (me_api env) c (update_by_index env c new s n (Suc i)) xs ys" "list_all2 deep_equal ys new"
        using Suc.hyps(1) [OF i(2), of xs] i(1) Suc.prems len True by (auto simp: less_Suc_eq)
      have "update_by_index env c new s n i w = update_by_index env c new s n (Suc i) w"
        if "shows_list (me_api env) c xs w" for w
        using item_equals_shown [OF that len(1), of "new ! i"] i False True
        by (simp add: update_by_index.simps [of env c new s n i] less_max_iff_disj)
      then show ?thesis using ys unfolding runs_def by metis
    next
      case differ: False
      obtain ys where ys: "runs (me_api env) c (update_by_index env c new s n (Suc i)) (xs[i := kept (new ! i)]) ys"
          "list_all2 deep_equal ys new"
        using Suc.hyps(1) [OF i(2), of "xs[i := kept (new ! i)]"] i(1) Suc.prems len x
        by (auto simp: less_Suc_eq nth_list_update plain_item_def kept_equal)
      have "update_by_index env c new s n i w =
          bind (put_item env c i (new ! i) s) (\<lambda>_. update_by_index env c new s n (Suc i)) w"
        if "shows_list (me_api env) c xs w" for w
        using item_equals_shown [OF that len(1), of "new ! i"] i False differ
        by (simp add: update_by_index.simps [of env c new s n i] less_max_iff_disj)
      moreover have "runs (me_api env) c (bind (put_item env c i (new ! i) s) (\<lambda>_. update_by_index env c new s n (Suc i))) xs ys"
        by (rule runs_bind [OF runs_put_item [OF assms(1,2) len(1) x] ys(1)])
      ultimately show ?thesis using ys(2) unfolding runs_def by metis
    qed
  qed
qed

text \<open>Deleting from the back keeps every index in range.\<close>

lemma runs_descending_deletes:
  assumes "loro_document api live" "listy api c" "sorted (rev is)" "distinct is" "\<forall>i\<in>set is. i < length xs"
  shows "\<exists>ys. runs api c (for_each (\<lambda>i. handle_delete api c i 1) is) xs ys \<and> length ys + length is = length xs"
  using assms(3-5)
proof (induction "is" arbitrary: xs)
  case (Cons i js)
  have "runs api c (handle_delete api c i 1) xs (delete_at i xs)"
    using loro_document.runs_handle_delete [OF assms(1,2), of i 1 xs] Cons.prems(3) by (simp add: delete_at_def)
  moreover have "\<forall>j\<in>set js. j < i"
    using Cons.prems(1,2) by (auto simp: sorted_append less_le)
  then obtain ys where "runs api c (for_each (\<lambda>i. handle_delete api c i 1) js) (delete_at i xs) ys"
      "length ys + length js = length (delete_at i xs)"
  proof -
    assume below: "\<forall>j\<in>set js. j < i"
    have "\<forall>j\<in>set js. j < length (delete_at i xs)" using below Cons.prems(3) by fastforce
    then show thesis using that Cons.IH [of "delete_at i xs"] Cons.prems by (auto simp: sorted_append)
  qed
  ultimately show ?case using Cons.prems(3) by (auto intro: runs_bind)
qed (auto intro: runs_ok)

definition known_items :: "(ustring \<times> nat) list \<Rightarrow> id_selector \<Rightarrow> json list \<Rightarrow> json list" where
  "known_items ids sel items = filter (\<lambda>x. bt_get ids (the (select_id sel x)) \<noteq> None) items"

lemma align_items_shown:
  assumes "loro_document (me_api env) live" "listy (me_api env) c" "\<forall>x\<in>set items. plain_item x \<and> select_id sel x \<noteq> None"
    and "length old + length (known_items ids sel items) \<le> length xs"
    and "list_all2 deep_equal (take (length old) xs) old"
    and "shows_list (me_api env) c xs w"
  shows "\<exists>w' ys. align_items env c ids sel s (length old) items w = (Inr (length (old @ items)), w') \<and>
    shows_list (me_api env) c ys w' \<and> list_all2 deep_equal (take (length (old @ items)) ys) (old @ items)"
  using assms(3-6)
proof (induction items arbitrary: old xs w)
  case (Cons x items)
  obtain ident where ident: "select_id sel x = Some ident" using Cons.prems(1) by auto
  note x = Cons.prems(1) [rule_format, of x, simplified, THEN conjunct1]
  have len: "length old \<le> length xs" using Cons.prems(2) by simp
  have next_items: "\<forall>x\<in>set items. plain_item x \<and> select_id sel x \<noteq> None" using Cons.prems(1) by simp
  have go_on: "\<exists>w' ys. align_items env c ids sel s (Suc (length old)) items w1 = (Inr (length (old @ x # items)), w') \<and>
      shows_list (me_api env) c ys w' \<and> list_all2 deep_equal (take (length (old @ x # items)) ys) (old @ x # items)"
    if "shows_list (me_api env) c ys w1" "length old < length ys" "deep_equal (ys ! length old) x"
      "take (length old) ys = take (length old) xs" "Suc (length old) + length (known_items ids sel items) \<le> length ys" for ys w1
  proof -
    have "list_all2 deep_equal (take (Suc (length old)) ys) (old @ [x])"
      using that(2,3,4) Cons.prems(3) len by (simp add: take_Suc_conv_app_nth list_all2_append)
    then show ?thesis
      using Cons.IH [OF next_items, of "old @ [x]" ys w1] that by simp
  qed
  show ?case
  proof (cases "bt_get ids ident = None")
    case True
    have "runs (me_api env) c (insert_item_into_list env c (length old) x s) xs (insert_at (length old) (kept x) xs)"
      by (rule runs_insert_item [OF assms(1,2) len x])
    then obtain w1 where w1: "insert_item_into_list env c (length old) x s w = (Inr (), w1)"
        "shows_list (me_api env) c (insert_at (length old) (kept x) xs) w1"
      using Cons.prems(4) unfolding runs_def by blast
    show ?thesis
      using go_on [OF w1(2)] w1(1) ident True len x Cons.prems(2)
      by (simp add: bind_step known_items_def insert_at_def nth_append plain_item_def kept_equal)
  next
    case False
    then have "Suc (length old) + length (known_items ids sel items) \<le> length xs"
      using Cons.prems(2) ident by (simp add: known_items_def)
    then have at: "length old < length xs" "Suc (length old) + length (known_items ids sel items) \<le> length xs" by auto
    have "item_at (me_api env) c (length old) w = Some (xs ! length old)"
        "item_equals (me_api env) c (length old) x w = deep_equal (xs ! length old) x"
      using shows_list_at [OF Cons.prems(4) at(1)] item_equals_shown [OF Cons.prems(4) at(1)] by auto
    moreover have "deep_equal x x" using x by (simp add: plain_item_def json_ok_def deep_equal_refl)
    ultimately have same: "item_at (me_api env) c (length old) w = Some x \<or> item_equals (me_api env) c (length old) x w \<longleftrightarrow>
        deep_equal (xs ! length old) x" by auto
    show ?thesis
    proof (cases "deep_equal (xs ! length old) x")
      case True
      then show ?thesis using go_on [OF Cons.prems(4) at(1)] at ident False same by simp
    next
      case differ: False
      obtain w1 where w1: "put_item env c (length old) x s w = (Inr (), w1)"
          "shows_list (me_api env) c (xs[length old := kept x]) w1"
        using runs_put_item [OF assms(1,2) at(1) x, of s] Cons.prems(4) unfolding runs_def by blast
      show ?thesis
        using go_on [OF w1(2)] w1(1) ident False differ same at x
        by (simp add: bind_step plain_item_def kept_equal)
    qed
  qed
qed auto

lemma current_ids_entries:
  "bt_wf (current_ids sel items) \<and>
   (\<forall>(ident, i)\<in>set (current_ids sel items). i < length items \<and> select_id sel (items ! i) = Some ident)"
proof -
  have "bt_wf (fold (\<lambda>i m. case select_id sel (items ! i) of None \<Rightarrow> m | Some ident \<Rightarrow> bt_insert ident i m) [0..<n] []) \<and>
    (\<forall>(ident, i)\<in>set (fold (\<lambda>i m. case select_id sel (items ! i) of None \<Rightarrow> m | Some ident \<Rightarrow> bt_insert ident i m) [0..<n] []).
       i < n \<and> select_id sel (items ! i) = Some ident)" for n
  proof (induction n)
    case (Suc n)
    then show ?case
      using set_bt_insert_subset [of "the (select_id sel (items ! n))" n]
      by (fastforce split: option.splits)
  qed simp
  then show ?thesis unfolding current_ids_def .
qed

lemma current_ids_distinct: "distinct (map snd (current_ids sel items))"
proof -
  have "inj_on snd (set (current_ids sel items))"
  proof (rule inj_onI)
    fix e e'
    assume "e \<in> set (current_ids sel items)" "e' \<in> set (current_ids sel items)" "snd e = snd e'"
    then have "Some (fst e) = Some (fst e')"
      using current_ids_entries [of sel items] by (metis (mono_tags, lifting) case_prodD prod.collapse)
    then show "e = e'" using \<open>snd e = snd e'\<close> by (simp add: prod_eq_iff)
  qed
  moreover have "distinct (current_ids sel items)"
    using current_ids_entries [of sel items] bt_wf_distinct distinct_map by blast
  ultimately show ?thesis by (simp add: distinct_map)
qed

lemma length_partition: "length xs = length (filter P xs) + length (filter (\<lambda>x. \<not> P x) xs)"
  using sum_length_filter_compl [of P xs] by simp

lemma known_items_fit:
  assumes "distinct (map (select_id sel) new)" "\<forall>x\<in>set new. select_id sel x \<noteq> None"
  shows "length (known_items (current_ids sel items) sel new) + length (ids_to_remove (current_ids sel items) sel new)
    \<le> length items"
proof -
  define ids where "ids = current_ids sel items"
  define new_ids where "new_ids = set (List.map_filter (select_id sel) new)"
  have "distinct (map (\<lambda>x. the (select_id sel x)) (known_items ids sel new))"
  proof -
    have "inj_on (\<lambda>x. the (select_id sel x)) (set new)"
      using assms unfolding distinct_map inj_on_def by (metis option.expand)
    then show ?thesis
      using assms(1) by (auto simp: known_items_def distinct_map intro: inj_on_subset)
  qed
  moreover have "(\<lambda>x. the (select_id sel x)) ` set (known_items ids sel new) \<subseteq> fst ` set (filter (\<lambda>e. fst e \<in> new_ids) ids)"
  proof
    fix k
    assume "k \<in> (\<lambda>x. the (select_id sel x)) ` set (known_items ids sel new)"
    then obtain x where x: "x \<in> set new" "bt_get ids k \<noteq> None" "k = the (select_id sel x)"
      by (auto simp: known_items_def)
    then have "k \<in> new_ids" using assms(2) by (auto simp: new_ids_def in_map_filter)
    then show "k \<in> fst ` set (filter (\<lambda>e. fst e \<in> new_ids) ids)"
      using x(2) by (auto simp: bt_get_None_iff image_iff)
  qed
  ultimately have "length (known_items ids sel new) \<le> card (fst ` set (filter (\<lambda>e. fst e \<in> new_ids) ids))"
    by (metis card_mono distinct_card finite_imageI finite_set length_map set_map)
  also have "\<dots> \<le> length (filter (\<lambda>e. fst e \<in> new_ids) ids)"
    by (rule order_trans [OF card_image_le card_length]) simp
  finally have "length (known_items ids sel new) + length (ids_to_remove ids sel new) \<le> length ids"
    using length_partition [of ids "\<lambda>e. fst e \<in> new_ids"]
    by (simp add: ids_to_remove_def Let_def new_ids_def case_prod_unfold)
  moreover have "length ids \<le> length items"
  proof -
    have "set (map snd ids) \<subseteq> {..<length items}" using current_ids_entries [of sel items] by (auto simp: ids_def)
    then have "card (set (map snd ids)) \<le> length items" using card_mono [of "{..<length items}"] by simp
    then show ?thesis using distinct_card [OF current_ids_distinct [of sel items]] by (simp add: ids_def)
  qed
  ultimately show ?thesis by (simp add: ids_def)
qed

lemma runs_update_with_ids:
  assumes "loro_document (me_api env) live" "listy (me_api env) c" "\<forall>x\<in>set new. plain_item x \<and> select_id sel x \<noteq> None"
    and "distinct (map (select_id sel) new)"
  shows "\<exists>w' ys. shows_list (me_api env) c xs w \<longrightarrow>
    update_list_with_id_selector env c new sel s w = (Inr (), w') \<and>
    shows_list (me_api env) c ys w' \<and> list_all2 deep_equal ys new"
proof (cases "shows_list (me_api env) c xs w")
  case True
  define ids where "ids = current_ids sel xs"
  let ?gone = "ids_to_remove ids sel new"
  have ids: "current_ids sel (shown (me_api env) c w) = ids" using True by (simp add: shows_list_def ids_def)
  have "distinct (map snd (filter (\<lambda>(ident, _). ident \<notin> N) ids))" for N
    using current_ids_distinct [of sel xs] by (simp add: ids_def distinct_map_filter)
  moreover have "\<forall>i\<in>set ?gone. i < length xs"
    using current_ids_entries [of sel xs] by (auto simp: ids_to_remove_def Let_def ids_def)
  ultimately obtain ys where ys: "runs (me_api env) c (for_each (\<lambda>i. handle_delete (me_api env) c i 1) ?gone) xs ys"
      "length ys + length ?gone = length xs"
    using runs_descending_deletes [OF assms(1,2), of ?gone xs] by (auto simp: ids_to_remove_def Let_def)
  obtain w1 where w1: "for_each (\<lambda>i. handle_delete (me_api env) c i 1) ?gone w = (Inr (), w1)" "shows_list (me_api env) c ys w1"
    using ys(1) True unfolding runs_def by blast
  have "length (known_items ids sel new) \<le> length ys"
    using known_items_fit [OF assms(4), of xs] assms(3) ys(2) by (simp add: ids_def)
  then obtain w2 zs where w2: "align_items env c ids sel s 0 new w1 = (Inr (length new), w2)"
      "shows_list (me_api env) c zs w2" "list_all2 deep_equal (take (length new) zs) new"
    using align_items_shown [OF assms(1-3), of "[]" ids ys w1 s] w1(2) by auto
  have len: "handle_len (me_api env) c w2 = length zs" using shows_listD [OF w2(2)] by (simp add: handle_len_def)
  have "\<exists>w3. cut_off env c (length new) w2 = (Inr (), w3) \<and> shows_list (me_api env) c (take (length new) zs) w3"
  proof (cases "length new < length zs")
    case True
    then have "runs (me_api env) c (handle_delete (me_api env) c (length new) (length zs - length new)) zs (take (length new) zs)"
      using loro_document.runs_handle_delete [OF assms(1,2), of "length new" "length zs - length new" zs] by simp
    then show ?thesis using w2(2) len True unfolding runs_def cut_off_def by simp
  qed (use w2(2) len in \<open>simp add: cut_off_def\<close>)
  then show ?thesis
    using w1(1) w2(1,3) ids by (fastforce simp: update_list_with_id_selector_def bind_step)
qed simp

text \<open>Replacing a root list. Whatever a list of plain values shows before, replacing its content by
  new plain items succeeds, and then it shows the new items in order, up to \<^verbatim>\<open>deep_equal\<close>: without an
  identifier selector always, with one when every new item has an identifier and no two have the
  same. In particular the deletions that precede the alignment never leave the cursor behind the
  end of the list.\<close>

theorem root_list_replaced:
  assumes "loro_document (me_api env) live" "listy (me_api env) c" "plain_list (me_api env) c (w_doc w)"
    and "\<forall>x\<in>set new. plain_item x"
    and "\<forall>sel. id_selector_of (get_container_schema w c) = Some sel \<longrightarrow>
      distinct (map (select_id sel) new) \<and> None \<notin> set (map (select_id sel) new)"
  shows "\<exists>w' ys. update_list_container env c (JArray new) w = (Inr (), w') \<and>
    shows_list (me_api env) c ys w' \<and> list_all2 deep_equal ys new"
proof -
  define xs where "xs = shown (me_api env) c w"
  have xs: "shows_list (me_api env) c xs w" using assms(3) by (simp add: shows_list_def xs_def)
  define s where "s = item_schema_of (me_slots env) (get_container_schema w c)"
  show ?thesis
  proof (cases "id_selector_of (get_container_schema w c)")
    case None
    obtain ys where "runs (me_api env) c (update_by_index env c new s (length xs) 0) xs ys" "list_all2 deep_equal ys new"
      using runs_update_by_index [OF assms(1,2,4), of 0 xs "length xs" s] by auto
    then obtain w' where "update_by_index env c new s (length xs) 0 w = (Inr (), w')"
        "shows_list (me_api env) c ys w'" "list_all2 deep_equal ys new"
      using xs unfolding runs_def by blast
    then show ?thesis
      using None shows_listD [OF xs]
      by (auto simp: update_list_container_def update_list_by_index_def handle_len_def s_def [symmetric])
  next
    case (Some sel)
    have "\<forall>x\<in>set new. plain_item x \<and> select_id sel x \<noteq> None" "distinct (map (select_id sel) new)"
      using assms(4,5) Some by force+
    then show ?thesis
      using runs_update_with_ids [OF assms(1,2), of new sel xs w s] xs Some
      by (auto simp: update_list_container_def s_def [symmetric] Let_def)
  qed
qed

definition list_world :: "container_id \<Rightarrow> loro_value list \<Rightarrow> (mem_doc, container_id) world" where
  "list_world c vs = \<lparr>w_doc = mem_set_list c (map Plain vs) (mem_empty []), w_registry = (\<lambda>_. None)\<rparr>"

lemma list_world_shows: "shows_list mem_api c (map loro_to_json vs) (list_world c vs)"
  by (auto simp: shows_list_iff list_world_def mem_set_list_def plain_list_def plain_value_def)

abbreviation "plain_env \<equiv> demo_env (SRoot [] default_options) (\<lambda>_. None)"

lemma plain_env_api [simp]: "me_api plain_env = mem_api"
  by (simp add: demo_env_def)

theorem diff_list_applied_witness:
  "\<exists>changes. diff_list (\<lambda>_ _ _ _. Inr []) (doc_view mem_api (w_doc (list_world (RootId [1] CList) [LString [1], LString [2], LString [3]])))
      [JString [1], JString [2], JString [3]] [JString [1]] (RootId [1] CList) None = Inr changes \<and>
    (\<exists>w'. for_each (apply_list_change plain_env False (RootId [1] CList)) changes
       (list_world (RootId [1] CList) [LString [1], LString [2], LString [3]]) = (Inl ContainerInsertFailed, w'))"
  using diff_list_applied [of plain_env mem_live "RootId [1] CList" "[JString [1], JString [2], JString [3]]"
      "list_world (RootId [1] CList) [LString [1], LString [2], LString [3]]" "[JString [1]]" "\<lambda>_ _ _ _. Inr []" False]
    list_world_shows [of "RootId [1] CList" "[LString [1], LString [2], LString [3]]"]
    mem.loro_document_axioms by simp

theorem root_list_replaced_witness:
  "\<exists>w' ys. update_list_container plain_env (RootId [1] CList) (JArray [JString [2], JString [3]])
      (list_world (RootId [1] CList) [LString [1], LString [2], LString [4]]) = (Inr (), w') \<and>
    shows_list mem_api (RootId [1] CList) ys w' \<and> list_all2 deep_equal ys [JString [2], JString [3]]"
proof -
  have "get_container_schema (list_world c vs) c' = None" for c c' vs
    by (simp add: get_container_schema_def list_world_def)
  then show ?thesis
    using root_list_replaced [of plain_env mem_live "RootId [1] CList"
        "list_world (RootId [1] CList) [LString [1], LString [2], LString [4]]" "[JString [2], JString [3]]"]
      list_world_shows [of "RootId [1] CList" "[LString [1], LString [2], LString [4]]"] mem.loro_document_axioms
    by (simp add: shows_list_iff plain_item_def is_object_def is_array_def id_selector_of_def)
qed

end
