(* ===== verification/Mirror_Lists.thy ===== *)
theory Mirror_Lists
  imports Mirror_Laws "HOL-Library.Sublist"
begin

text \<open>
  The two differences that match items by identifier, applied: \<^verbatim>\<open>diff_list_with_id_selector\<close>, for
  which the scan is followed step by step with the list it acts on, and \<^verbatim>\<open>diff_movable_list\<close>.
\<close>

section \<open>The scan of a list with identifiers\<close>

definition all_ids :: "id_selector \<Rightarrow> json list \<Rightarrow> bool" where
  "all_ids sel xs \<longleftrightarrow> (\<forall>x\<in>set xs. select_id sel x \<noteq> None)"

lemma all_ids_at: "all_ids sel xs \<Longrightarrow> i < length xs \<Longrightarrow> \<exists>ident. select_id sel (xs ! i) = Some ident"
  by (auto simp: all_ids_def)

text \<open>The last old item is kept: its identifier occurs once in the old list and in the new list from
  \<open>n\<close> on, and equal items have the same identifier.\<close>

definition last_kept :: "id_selector \<Rightarrow> json list \<Rightarrow> json list \<Rightarrow> bool" where
  "last_kept sel old new \<longleftrightarrow> old \<noteq> [] \<and>
     (\<forall>x\<in>set (butlast old). select_id sel x \<noteq> select_id sel (last old)) \<and>
     select_id sel (last old) \<in> select_id sel ` set new \<and>
     (\<forall>x\<in>set old. \<forall>y\<in>set new. deep_equal x y \<longrightarrow> select_id sel x = select_id sel y)"

lemma last_kept_not:
  assumes "last_kept sel old new" "Suc i < length old"
  shows "select_id sel (old ! i) \<noteq> select_id sel (last old)"
proof -
  have "old ! i \<in> set (butlast old)" using assms(2) by (metis butlast_conv_take diff_Suc_1 in_set_conv_nth length_butlast nth_butlast Suc_lessD less_diff_conv Suc_eq_plus1)
  then show ?thesis using assms(1) by (simp add: last_kept_def)
qed

lemma last_kept_in: "last_kept sel old new \<Longrightarrow> select_id sel (last old) \<in> set (map (select_id sel) old)"
  by (auto simp: last_kept_def)

lemma in_drop_step:
  "v \<in> f ` set (drop n xs) \<Longrightarrow> n < length xs \<Longrightarrow> f (xs ! n) \<noteq> v \<Longrightarrow> v \<in> f ` set (drop (Suc n) xs)"
  by (auto simp: Cons_nth_drop_Suc [symmetric])

lemma signed_index_nat: "int i + off = int n \<Longrightarrow> signed_index i off = n"
  by (simp add: signed_index_def)

lemma scan_stop: "length old \<le> i \<Longrightarrow> scan_list dc d old new c s sel i n off = Inr ([], i, n, off)"
  by (simp add: scan_list.simps)

lemma scan_equal:
  "i < length old \<Longrightarrow> n < length new \<Longrightarrow> deep_equal (old ! i) (new ! n) \<Longrightarrow>
   scan_list dc d old new c s sel i n off = scan_list dc d old new c s sel (Suc i) (Suc n) off"
  by (simp add: scan_list.simps [of dc d old new c s sel i])

lemma scan_past:
  "i < length old \<Longrightarrow> length new \<le> n \<Longrightarrow>
   scan_list dc d old new c s sel i n off = scan_list dc d old new c s sel (Suc i) n off"
  by (cases "select_id sel (old ! i)") (simp_all add: scan_list.simps [of dc d old new c s sel i])

lemma scan_tail:
  assumes "length new \<le> n" "j \<le> length old"
  shows "scan_list dc d old new c s sel j n off = Inr ([], length old, n, off)"
  using assms(2)
proof (induction "length old - j" arbitrary: j)
  case 0
  then show ?case by (simp add: scan_stop)
next
  case (Suc k)
  then have "scan_list dc d old new c s sel (Suc j) n off = Inr ([], length old, n, off)" by auto
  then show ?case using scan_past [of j old new n dc d c s sel off] Suc.hyps(2) assms(1) by simp
qed

lemma scan_other:
  assumes "i < length old" "n < length new" "\<not> deep_equal (old ! i) (new ! n)"
    and "select_id sel (old ! i) = Some a" "select_id sel (new ! n) = Some b" "ld_list_child d c i = None"
  shows "scan_list dc d old new c s sel i n off =
    (if a = b then and_then (scan_list dc d old new c s sel (Suc i) (Suc n) off)
       (\<lambda>(cs, st). Inr (replace_item c (signed_index i off) (new ! n) s @ cs, st))
     else if Some b \<notin> select_id sel ` set old
     then and_then (scan_list dc d old new c s sel i (Suc n) (off + 1))
       (\<lambda>(cs, st). Inr ([insert_item c (signed_index i off) (new ! n) s] @ cs, st))
     else and_then (scan_list dc d old new c s sel (Suc i) n (off - 1))
       (\<lambda>(cs, st). Inr ([change (Some c) (Index (signed_index i off)) None Delete] @ cs, st)))"
proof -
  have "b \<in> set (List.map_filter (select_id sel) old) \<longleftrightarrow> Some b \<in> select_id sel ` set old"
    unfolding in_map_filter by force
  then show ?thesis
    using assms by (simp add: scan_list.simps [of dc d old new c s sel i])
qed

definition scanned ::
    "('d, 'c) mirror_env \<Rightarrow> bool \<Rightarrow> 'c \<Rightarrow> id_selector \<Rightarrow> json list \<Rightarrow> json list \<Rightarrow> nat \<Rightarrow> nat \<Rightarrow> json list
     \<Rightarrow> diff_error + ('c change list \<times> nat \<times> nat \<times> int) \<Rightarrow> bool" where
  "scanned env mv c sel old new i n xs r \<longleftrightarrow>
     (\<exists>cs m off k dn. r = Inr (cs, length old, m, off) \<and> m \<le> length new \<and> i \<le> k \<and> k \<le> length old \<and>
        runs (me_api env) c (for_each (apply_list_change env mv c) cs) xs (dn @ drop k old) \<and>
        list_all2 deep_equal dn (take m new) \<and>
        (m < length new \<longrightarrow> k = length old \<and> int (length old) + off = int m) \<and>
        (last_kept sel old new \<and> i < length old \<and> select_id sel (last old) \<in> select_id sel ` set (drop n new)
           \<longrightarrow> k = length old))"

lemma scanned_step:
  assumes "scanned env mv c sel old new i' n' ys r"
    and "runs (me_api env) c (for_each (apply_list_change env mv c) cs) xs ys" "i \<le> i'" "i' \<le> length old"
    and "last_kept sel old new \<Longrightarrow> i' < length old \<Longrightarrow> select_id sel (last old) \<in> select_id sel ` set (drop n new) \<Longrightarrow>
      select_id sel (last old) \<in> select_id sel ` set (drop n' new)"
  shows "scanned env mv c sel old new i n xs (and_then r (\<lambda>(cs', st). Inr (cs @ cs', st)))"
proof -
  obtain cs' m off k dn where r: "r = Inr (cs', length old, m, off)" "m \<le> length new" "i' \<le> k" "k \<le> length old"
      "runs (me_api env) c (for_each (apply_list_change env mv c) cs') ys (dn @ drop k old)"
      "list_all2 deep_equal dn (take m new)"
      "m < length new \<longrightarrow> k = length old \<and> int (length old) + off = int m"
    and last: "last_kept sel old new \<and> i' < length old \<and> select_id sel (last old) \<in> select_id sel ` set (drop n' new)
      \<longrightarrow> k = length old"
    using assms(1) unfolding scanned_def by blast
  have "last_kept sel old new \<and> i < length old \<and> select_id sel (last old) \<in> select_id sel ` set (drop n new)
      \<longrightarrow> k = length old"
    using last assms(5) r(3,4) by (cases "i' < length old") auto
  then show ?thesis
    unfolding scanned_def
    using r runs_append [OF assms(2) r(5)] assms(3)
    by (intro exI [of _ "cs @ cs'"] exI [of _ m] exI [of _ off] exI [of _ k] exI [of _ dn]) auto
qed

lemma scan_runs:
  assumes "loro_document (me_api env) live" "listy (me_api env) c" "\<And>i. ld_list_child d c i = None"
    and "all_ids sel old" "all_ids sel new" "\<forall>x\<in>set new. json_ok x"
    and "i \<le> length old" "n \<le> length new" "n < length new \<longrightarrow> int i + off = int n" "list_all2 deep_equal dn (take n new)"
  shows "scanned env mv c sel old new i n (dn @ drop i old) (scan_list dc d old new c None sel i n off)"
  using assms(7-10)
proof (induction "(length old - i) + (length new - n)" arbitrary: i n off dn rule: less_induct)
  case less
  note apply_runs = loro_document.runs_delete_change [OF assms(1) refl assms(2)]
    loro_document.runs_insert_change [OF assms(1) refl assms(2)] loro_document.runs_replace [OF assms(1) refl assms(2)]
  have dn: "length dn = n" using less.prems(2,4) by (simp add: list_all2_lengthD)
  have more: "list_all2 deep_equal (dn @ [y]) (take (Suc n) new)" if "n < length new" "deep_equal y (new ! n)" for y
    using that less.prems(4) dn by (simp add: take_Suc_conv_app_nth list_all2_append)
  have none: "runs (me_api env) c (for_each (apply_list_change env mv c) []) xs xs" for xs by (simp add: runs_ok)
  show ?case
  proof (cases "length old \<le> i")
    case True
    then show ?thesis
      using less.prems none unfolding scanned_def scan_stop [OF True]
      by (intro exI [of _ "[]"] exI [of _ n] exI [of _ off] exI [of _ i] exI [of _ dn]) auto
  next
    case i: False
    then have old: "drop i old = old ! i # drop (Suc i) old" by (simp add: Cons_nth_drop_Suc)
    show ?thesis
    proof (cases "n < length new")
      case False
      show ?thesis
        unfolding scanned_def scan_tail [OF leI [OF False] less.prems(1)]
        using none less.prems False
        by (intro exI [of _ "[]"] exI [of _ n] exI [of _ off] exI [of _ i] exI [of _ dn]) auto
    next
      case n: True
      have at: "signed_index i off = n" using signed_index_nat less.prems(3) n by blast
      have idx: "int (Suc i) + off = int (Suc n)" "int i + (off + 1) = int (Suc n)" "int (Suc i) + (off - 1) = int n"
        using less.prems(3) n by auto
      obtain a b where ab: "select_id sel (old ! i) = Some a" "select_id sel (new ! n) = Some b"
        using all_ids_at [OF assms(4)] all_ids_at [OF assms(5) n] i by (meson not_le)
      have ok: "deep_equal (kept (new ! n)) (new ! n)" using assms(6) n by (simp add: kept_equal)
      have next_match: "select_id sel (last old) \<in> select_id sel ` set (drop (Suc n) new)"
        if "last_kept sel old new" "Suc i < length old" "select_id sel (last old) \<in> select_id sel ` set (drop n new)"
          "select_id sel (old ! i) = select_id sel (new ! n)"
        using in_drop_step [OF that(3) n] last_kept_not [OF that(1,2)] that(4) by simp
      show ?thesis
      proof (cases "deep_equal (old ! i) (new ! n)")
        case True
        have "scanned env mv c sel old new (Suc i) (Suc n) ((dn @ [old ! i]) @ drop (Suc i) old)
            (scan_list dc d old new c None sel (Suc i) (Suc n) off)"
          by (rule less.hyps) (use i n less.prems idx more [OF n True] in auto)
        then have "scanned env mv c sel old new i n (dn @ drop i old)
            (and_then (scan_list dc d old new c None sel (Suc i) (Suc n) off) (\<lambda>(cs', st). Inr ([] @ cs', st)))"
        proof (rule scanned_step)
          show "runs (me_api env) c (for_each (apply_list_change env mv c) []) (dn @ drop i old)
              ((dn @ [old ! i]) @ drop (Suc i) old)"
            unfolding old using none by simp
          show "select_id sel (last old) \<in> select_id sel ` set (drop (Suc n) new)"
            if "last_kept sel old new" "Suc i < length old" "select_id sel (last old) \<in> select_id sel ` set (drop n new)"
            using that next_match True i n by (auto simp: last_kept_def)
        qed (use i in auto)
        then show ?thesis
          using True i n
          by (cases "scan_list dc d old new c None sel (Suc i) (Suc n) off") (auto simp: scan_equal)
      next
        case differ: False
        note scan = scan_other [OF _ n differ ab assms(3), of dc None off]
        show ?thesis
        proof (cases "a = b")
          case True
          have "scanned env mv c sel old new (Suc i) (Suc n) ((dn @ [kept (new ! n)]) @ drop (Suc i) old)
              (scan_list dc d old new c None sel (Suc i) (Suc n) off)"
            by (rule less.hyps) (use i n less.prems idx more [OF n ok] in auto)
          then have "scanned env mv c sel old new i n (dn @ drop i old)
              (and_then (scan_list dc d old new c None sel (Suc i) (Suc n) off)
                 (\<lambda>(cs', st). Inr (replace_item c n (new ! n) None @ cs', st)))"
          proof (rule scanned_step)
            show "runs (me_api env) c (for_each (apply_list_change env mv c) (replace_item c n (new ! n) None)) (dn @ drop i old)
                ((dn @ [kept (new ! n)]) @ drop (Suc i) old)"
            proof -
              have "(dn @ drop i old)[n := kept (new ! n)] = (dn @ [kept (new ! n)]) @ drop (Suc i) old"
                unfolding old by (simp add: dn [symmetric])
              moreover have "n < length (dn @ drop i old)" using dn i by simp
              ultimately show ?thesis using apply_runs(3) [of n "dn @ drop i old" mv c "new ! n"] by simp
            qed
            show "select_id sel (last old) \<in> select_id sel ` set (drop (Suc n) new)"
              if "last_kept sel old new" "Suc i < length old" "select_id sel (last old) \<in> select_id sel ` set (drop n new)"
              using that next_match True ab by simp
          qed (use i in auto)
          then show ?thesis using scan True at i by simp
        next
          case ne: False
          show ?thesis
          proof (cases "Some b \<in> select_id sel ` set old")
            case False
            have "scanned env mv c sel old new i (Suc n) ((dn @ [kept (new ! n)]) @ drop i old)
                (scan_list dc d old new c None sel i (Suc n) (off + 1))"
              by (rule less.hyps) (use i n less.prems idx more [OF n ok] in auto)
            then have "scanned env mv c sel old new i n (dn @ drop i old)
                (and_then (scan_list dc d old new c None sel i (Suc n) (off + 1))
                   (\<lambda>(cs', st). Inr ([insert_item c n (new ! n) None] @ cs', st)))"
            proof (rule scanned_step)
              show "runs (me_api env) c (for_each (apply_list_change env mv c) [insert_item c n (new ! n) None]) (dn @ drop i old)
                  ((dn @ [kept (new ! n)]) @ drop i old)"
                using apply_runs(2) [of n "dn @ drop i old" mv c "new ! n"] dn
                by (intro runs_one) (simp add: insert_at_def)
              show "select_id sel (last old) \<in> select_id sel ` set (drop (Suc n) new)"
                if "last_kept sel old new" "i < length old" "select_id sel (last old) \<in> select_id sel ` set (drop n new)"
              proof (rule in_drop_step [OF that(3) n])
                have "select_id sel (last old) \<in> select_id sel ` set old" using last_kept_in [OF that(1)] by simp
                then show "select_id sel (new ! n) \<noteq> select_id sel (last old)" using ab(2) False by metis
              qed
            qed (use i in auto)
            then show ?thesis using scan ne at i False by simp
          next
            case True
            have "scanned env mv c sel old new (Suc i) n (dn @ drop (Suc i) old)
                (scan_list dc d old new c None sel (Suc i) n (off - 1))"
              by (rule less.hyps) (use i n less.prems idx in auto)
            then have "scanned env mv c sel old new i n (dn @ drop i old)
                (and_then (scan_list dc d old new c None sel (Suc i) n (off - 1))
                   (\<lambda>(cs', st). Inr ([change (Some c) (Index n) None Delete] @ cs', st)))"
            proof (rule scanned_step)
              show "runs (me_api env) c (for_each (apply_list_change env mv c) [change (Some c) (Index n) None Delete])
                  (dn @ drop i old) (dn @ drop (Suc i) old)"
                using apply_runs(1) [of n "dn @ drop i old" mv "Some c" None] dn i
                by (intro runs_one) (simp add: delete_at_def old)
            qed (use i in auto)
            then show ?thesis using scan ne at i True by simp
          qed
        qed
      qed
    qed
  qed
qed

text \<open>The list difference by identifier, applied. For a list of plain values in which every old and
  new item has an identifier, the difference succeeds and so does applying it; the list then shows
  the new items, up to \<^verbatim>\<open>deep_equal\<close>, possibly followed by a tail of the old ones. The tail is empty
  when the identifier of the last old item is still in the new list.\<close>

theorem list_with_ids_applied:
  assumes "loro_document (me_api env) live" "listy (me_api env) c"
    and "shows_list (me_api env) c old w" "\<forall>x\<in>set new. json_ok x" "all_ids sel old" "all_ids sel new"
  shows "\<exists>changes w' dn tail.
    diff_list_with_id_selector dc (doc_view (me_api env) (w_doc w)) old new c None sel = Inr changes \<and>
    for_each (apply_list_change env mv c) changes w = (Inr (), w') \<and>
    shows_list (me_api env) c (dn @ tail) w' \<and> list_all2 deep_equal dn new \<and> suffix tail old \<and>
    (last_kept sel old new \<longrightarrow> tail = [])"
proof -
  let ?d = "doc_view (me_api env) (w_doc w)"
  have child: "ld_list_child ?d c i = None" for i
    using plain_no_child assms(3) by (auto simp: shows_list_def)
  have "scanned env mv c sel old new 0 0 ([] @ drop 0 old) (scan_list dc ?d old new c None sel 0 0 0)"
    by (rule scan_runs [OF assms(1,2) child assms(5,6,4)]) auto
  then obtain cs m off k dn where scan: "scan_list dc ?d old new c None sel 0 0 0 = Inr (cs, length old, m, off)"
      "m \<le> length new" "k \<le> length old"
      "runs (me_api env) c (for_each (apply_list_change env mv c) cs) old (dn @ drop k old)"
      "list_all2 deep_equal dn (take m new)"
      "m < length new \<longrightarrow> k = length old \<and> int (length old) + off = int m"
      "last_kept sel old new \<and> 0 < length old \<and> select_id sel (last old) \<in> select_id sel ` set new \<longrightarrow> k = length old"
    unfolding scanned_def append_Nil drop_0 by blast
  have dn: "length dn = m" using scan(2,5) by (simp add: list_all2_lengthD)
  define rest where "rest = map (\<lambda>j. insert_item c (signed_index (length old) (off + int (j - m))) (new ! j) None) [m..<length new]"
  have rest: "rest = map (\<lambda>j. insert_item c j (new ! j) None) [m..<length new]"
  proof -
    have "signed_index (length old) (off + int (j - m)) = j" if "m \<le> j" "j < length new" for j
      using scan(6) that by (intro signed_index_nat) auto
    then show ?thesis unfolding rest_def by (intro map_cong refl) simp
  qed
  have diff: "diff_list_with_id_selector dc ?d old new c None sel = Inr (cs @ rest)"
    by (simp add: diff_list_with_id_selector_def scan(1) rest_def)
  have last: "last_kept sel old new \<longrightarrow> drop k old = []"
    using scan(7) by (auto simp: last_kept_def)
  define more where "more = map (\<lambda>i. kept (new ! i)) [m..<length new]"
  have "runs (me_api env) c (for_each (apply_list_change env mv c) rest) (dn @ drop k old) ((dn @ more) @ drop k old)"
  proof (cases "m < length new")
    case True
    then show ?thesis
      using append_rest [OF assms(1) refl assms(2), of mv new dn "length new - m"] scan(2,6) dn
      by (simp add: rest more_def)
  next
    case False
    then show ?thesis by (simp add: rest more_def runs_ok)
  qed
  then have "runs (me_api env) c (for_each (apply_list_change env mv c) (cs @ rest)) old ((dn @ more) @ drop k old)"
    by (rule runs_append [OF scan(4)])
  then obtain w' where "for_each (apply_list_change env mv c) (cs @ rest) w = (Inr (), w')"
      "shows_list (me_api env) c ((dn @ more) @ drop k old) w'"
    using assms(3) unfolding runs_def by blast
  moreover have "list_all2 deep_equal (dn @ more) new"
  proof -
    have "list_all2 deep_equal more (drop m new)"
      using assms(4) by (auto simp: more_def list_all2_conv_all_nth kept_equal)
    then have "list_all2 deep_equal (dn @ more) (take m new @ drop m new)"
      using scan(5) by (rule list_all2_appendI [rotated])
    then show ?thesis by simp
  qed
  ultimately show ?thesis using diff last suffix_drop by blast
qed

definition word_id :: id_selector where
  "word_id v = (case v of JString s \<Rightarrow> Some s | _ \<Rightarrow> None)"

text \<open>Items that are dropped from the end of a list are not deleted: there is no change at all.\<close>

lemma trailing_removals_lost:
  assumes "\<forall>x\<in>set xs. json_wf x"
  shows "diff_list_with_id_selector dc d (xs @ ys) xs c s sel = Inr []"
proof -
  have "scan_list dc d (xs @ ys) xs c s sel i i 0 = Inr ([], length (xs @ ys), length xs, 0)" if "i \<le> length xs" for i
    using that
  proof (induction "length xs - i" arbitrary: i)
    case 0
    then show ?case by (intro trans [OF scan_tail]) auto
  next
    case (Suc k)
    then have i: "i < length xs" by simp
    then have "deep_equal ((xs @ ys) ! i) (xs ! i)"
      using assms by (simp add: nth_append deep_equal_refl)
    then show ?case using Suc.hyps i scan_equal [of i "xs @ ys" i xs dc d c s sel 0] by simp
  qed
  from this [of 0] show ?thesis by (simp add: diff_list_with_id_selector_def)
qed

theorem list_with_ids_applied_witness:
  "last_kept word_id [JString [1], JString [2]] [JString [3], JString [2]] \<and>
   (\<exists>changes w' dn tail.
     diff_list_with_id_selector (\<lambda>_ _ _ _. Inr []) (doc_view mem_api (w_doc (list_world (RootId [1] CList) [LString [1], LString [2]])))
       [JString [1], JString [2]] [JString [3], JString [2]] (RootId [1] CList) None word_id = Inr changes \<and>
     for_each (apply_list_change plain_env False (RootId [1] CList)) changes
       (list_world (RootId [1] CList) [LString [1], LString [2]]) = (Inr (), w') \<and>
     list_all2 deep_equal (dn @ tail) [JString [3], JString [2]])"
proof -
  have kept: "last_kept word_id [JString [1], JString [2]] [JString [3], JString [2]]"
    by (simp add: last_kept_def select_id_def word_id_def deep_equal.simps)
  have "all_ids word_id [JString [1], JString [2]]" "all_ids word_id [JString [3], JString [2]]"
    by (simp_all add: all_ids_def select_id_def word_id_def)
  then obtain changes w' dn tail where
    "diff_list_with_id_selector (\<lambda>_ _ _ _. Inr []) (doc_view mem_api (w_doc (list_world (RootId [1] CList) [LString [1], LString [2]])))
       [JString [1], JString [2]] [JString [3], JString [2]] (RootId [1] CList) None word_id = Inr changes"
    "for_each (apply_list_change plain_env False (RootId [1] CList)) changes
       (list_world (RootId [1] CList) [LString [1], LString [2]]) = (Inr (), w')"
    "list_all2 deep_equal dn [JString [3], JString [2]]" "last_kept word_id [JString [1], JString [2]] [JString [3], JString [2]] \<longrightarrow> tail = []"
    using list_with_ids_applied [of plain_env mem_live "RootId [1] CList" "[JString [1], JString [2]]"
        "list_world (RootId [1] CList) [LString [1], LString [2]]" "[JString [3], JString [2]]" word_id "\<lambda>_ _ _ _. Inr []" False]
      list_world_shows [of "RootId [1] CList" "[LString [1], LString [2]]"] mem.loro_document_axioms
    by auto
  then show ?thesis using kept by (metis append_Nil2)
qed

end
