(* ===== verification/Mirror_Movable.thy ===== *)
theory Mirror_Movable
  imports Mirror_Lists
begin

text \<open>
  \<^verbatim>\<open>diff_movable_list\<close>, applied: the deletions from the back, the insertions at their new indexes and
  the replacements bring a movable list of plain values to the new value, when the items that stay
  keep their order. When they do not, the moves of the source are not enough; the last lemma shows
  the shortest such case.
\<close>

section \<open>The items that stay\<close>

definition ids_distinct :: "id_selector \<Rightarrow> json list \<Rightarrow> bool" where
  "ids_distinct sel xs \<longleftrightarrow> all_ids sel xs \<and> distinct (map (select_id sel) xs)"

lemma ids_distinct_at:
  "ids_distinct sel xs \<Longrightarrow> i < length xs \<Longrightarrow> j < length xs \<Longrightarrow> select_id sel (xs ! i) = select_id sel (xs ! j) \<Longrightarrow> i = j"
  by (simp add: ids_distinct_def distinct_conv_nth) (metis)

lemma old_map_run:
  assumes "ids_distinct sel old" "n \<le> length old"
  shows "bt_wf (fold (\<lambda>i m. case select_id sel (old ! i) of None \<Rightarrow> m | Some ident \<Rightarrow> bt_insert ident (i, old ! i) m) [0..<n] []) \<and>
    (\<forall>ident. bt_get (fold (\<lambda>i m. case select_id sel (old ! i) of None \<Rightarrow> m | Some ident \<Rightarrow> bt_insert ident (i, old ! i) m) [0..<n] []) ident =
      map_option (\<lambda>i. (i, old ! i)) (position (\<lambda>x. select_id sel x = Some ident) (take n old)))"
  using assms(2)
proof (induction n)
  case (Suc n)
  let ?m = "fold (\<lambda>i m. case select_id sel (old ! i) of None \<Rightarrow> m | Some ident \<Rightarrow> bt_insert ident (i, old ! i) m) [0..<n] []"
  obtain ident where ident: "select_id sel (old ! n) = Some ident"
    using all_ids_at [of sel old n] assms(1) Suc.prems by (auto simp: ids_distinct_def)
  have "position (\<lambda>x. select_id sel x = Some ident) (take n old) = None"
    unfolding position_None_iff
  proof
    fix x
    assume "x \<in> set (take n old)"
    then obtain k where "k < n" "x = old ! k" by (auto simp: in_set_conv_nth)
    then show "select_id sel x \<noteq> Some ident"
      using ids_distinct_at [OF assms(1), of k n] ident Suc.prems by auto
  qed
  then show ?case
    using Suc ident
    by (auto simp: bt_simps take_Suc_conv_app_nth position_append split: option.splits)
qed simp

lemma old_map_get:
  assumes "ids_distinct sel old"
  shows "bt_get (old_map sel old) ident =
    map_option (\<lambda>i. (i, old ! i)) (position (\<lambda>x. select_id sel x = Some ident) old)"
  using old_map_run [OF assms order_refl] by (simp add: old_map_def)

lemma old_map_wf: "ids_distinct sel old \<Longrightarrow> bt_wf (old_map sel old)"
  using old_map_run [OF _ order_refl, of sel old] by (simp add: old_map_def)

text \<open>Where the item of the new list at \<open>j\<close> was before, if it was there.\<close>

definition was_at :: "id_selector \<Rightarrow> json list \<Rightarrow> json list \<Rightarrow> nat \<Rightarrow> nat option" where
  "was_at sel old new j = position (\<lambda>x. select_id sel x = select_id sel (new ! j)) old"

lemma was_atD: "was_at sel old new j = Some i \<Longrightarrow> i < length old \<and> select_id sel (old ! i) = select_id sel (new ! j)"
  using position_SomeD by (fastforce simp: was_at_def)

lemma was_at_iff:
  assumes "ids_distinct sel old" "i < length old"
  shows "was_at sel old new j = Some i \<longleftrightarrow> select_id sel (old ! i) = select_id sel (new ! j)"
proof
  assume same: "select_id sel (old ! i) = select_id sel (new ! j)"
  have "was_at sel old new j \<noteq> None"
    using same assms(2) by (auto simp: was_at_def position_None_iff)
  then obtain k where k: "was_at sel old new j = Some k" by blast
  then have "k = i" using was_atD [OF k] ids_distinct_at [OF assms(1), of k i] assms(2) same by simp
  then show "was_at sel old new j = Some i" using k by simp
qed (use was_atD in blast)

definition stays :: "id_selector \<Rightarrow> json list \<Rightarrow> json list \<Rightarrow> nat list" where
  "stays sel old new = filter (\<lambda>j. was_at sel old new j \<noteq> None) [0..<length new]"

lemma common_item_at_eq:
  assumes "ids_distinct sel old" "all_ids sel new" "j < length new"
  shows "common_item_at sel old new j =
    map_option (\<lambda>i. \<lparr>ci_old_index = i, ci_new_index = j, ci_old_item = old ! i, ci_new_item = new ! j\<rparr>)
      (was_at sel old new j)"
proof -
  obtain ident where ident: "select_id sel (new ! j) = Some ident" using all_ids_at [OF assms(2,3)] by blast
  then have w: "was_at sel old new j = position (\<lambda>x. select_id sel x = Some ident) old" by (simp add: was_at_def)
  show ?thesis
    using ident by (cases "was_at sel old new j") (auto simp: common_item_at_def old_map_get [OF assms(1)] w [symmetric])
qed

definition stay_item :: "id_selector \<Rightarrow> json list \<Rightarrow> json list \<Rightarrow> nat \<Rightarrow> common_item" where
  "stay_item sel old new j =
     \<lparr>ci_old_index = the (was_at sel old new j), ci_new_index = j, ci_old_item = old ! the (was_at sel old new j),
      ci_new_item = new ! j\<rparr>"

lemma map_filter_cong: "(\<And>x. x \<in> set xs \<Longrightarrow> f x = g x) \<Longrightarrow> List.map_filter f xs = List.map_filter g xs"
  by (induction xs) (auto simp: List.map_filter_simps split: option.splits)

lemma map_filter_eq: "List.map_filter (\<lambda>x. map_option (h x) (f x)) xs = map (\<lambda>x. h x (the (f x))) (filter (\<lambda>x. f x \<noteq> None) xs)"
  by (induction xs) (auto simp: List.map_filter_simps)

lemma common_items_eq:
  assumes "ids_distinct sel old" "all_ids sel new"
  shows "common_items sel old new = map (stay_item sel old new) (stays sel old new)"
proof -
  have "common_items sel old new = List.map_filter (\<lambda>j. map_option
      (\<lambda>i. \<lparr>ci_old_index = i, ci_new_index = j, ci_old_item = old ! i, ci_new_item = new ! j\<rparr>) (was_at sel old new j))
      [0..<length new]"
    unfolding common_items_def by (rule map_filter_cong) (simp add: common_item_at_eq [OF assms])
  then show ?thesis by (simp add: map_filter_eq stays_def stay_item_def)
qed

section \<open>Deletions\<close>

lemma sorted_filter_upt: "sorted (filter P [0..<n])" "distinct (filter P [0..<n])"
  by (auto intro: sorted_wrt_filter)

lemma deletion_indexes_eq:
  assumes "ids_distinct sel old" "all_ids sel new"
  shows "deletion_indexes sel old new =
    rev (filter (\<lambda>i. select_id sel (old ! i) \<notin> select_id sel ` set new) [0..<length old])"
proof -
  define N where "N = set (List.map_filter (select_id sel) new)"
  let ?gone = "map (\<lambda>(ident, i, _). i) (filter (\<lambda>(ident, _). ident \<notin> N) (old_map sel old))"
  have N: "ident \<in> N \<longleftrightarrow> Some ident \<in> select_id sel ` set new" for ident
    unfolding N_def in_map_filter by force
  have entry: "(ident, i, x) \<in> set (old_map sel old) \<longleftrightarrow> i < length old \<and> x = old ! i \<and> select_id sel (old ! i) = Some ident"
    for ident i x
  proof -
    have "(ident, i, x) \<in> set (old_map sel old) \<longleftrightarrow> bt_get (old_map sel old) ident = Some (i, x)"
      using bt_get_Some_in [OF old_map_wf [OF assms(1)]] by blast
    also have "\<dots> \<longleftrightarrow> position (\<lambda>x. select_id sel x = Some ident) old = Some i \<and> x = old ! i"
      by (auto simp: old_map_get [OF assms(1)])
    also have "\<dots> \<longleftrightarrow> i < length old \<and> x = old ! i \<and> select_id sel (old ! i) = Some ident"
    proof -
      have "position (\<lambda>x. select_id sel x = Some ident) old = Some i"
        if i: "i < length old" "select_id sel (old ! i) = Some ident"
      proof -
        have "position (\<lambda>x. select_id sel x = Some ident) old \<noteq> None" using i by (auto simp: position_None_iff)
        then obtain k where k: "position (\<lambda>x. select_id sel x = Some ident) old = Some k" by blast
        then have "k = i" using position_SomeD [OF k] ids_distinct_at [OF assms(1), of k i] i by simp
        then show ?thesis using k by simp
      qed
      then show ?thesis using position_SomeD by fastforce
    qed
    finally show ?thesis .
  qed
  have "set ?gone = {i. i < length old \<and> select_id sel (old ! i) \<notin> select_id sel ` set new}"
  proof (rule set_eqI)
    fix i
    have "i \<in> set ?gone \<longleftrightarrow> (\<exists>ident x. (ident, i, x) \<in> set (old_map sel old) \<and> ident \<notin> N)"
      by force
    also have "\<dots> \<longleftrightarrow> i < length old \<and> select_id sel (old ! i) \<notin> select_id sel ` set new"
      using all_ids_at [of sel old i] assms(1) by (auto simp: entry N ids_distinct_def image_iff)
    finally show "i \<in> set ?gone \<longleftrightarrow> i \<in> {i. i < length old \<and> select_id sel (old ! i) \<notin> select_id sel ` set new}"
      by simp
  qed
  moreover have "distinct ?gone"
  proof -
    have "distinct (old_map sel old)" using bt_wf_distinct [OF old_map_wf [OF assms(1)]] distinct_map by blast
    moreover have "inj_on (\<lambda>(ident, i, _). i) (set (old_map sel old))"
      by (rule inj_onI) (auto simp: entry)
    ultimately show ?thesis by (auto simp: distinct_map intro: inj_on_subset)
  qed
  ultimately have "sort ?gone = filter (\<lambda>i. select_id sel (old ! i) \<notin> select_id sel ` set new) [0..<length old]"
    by (intro sorted_distinct_set_unique) (auto simp: sorted_filter_upt)
  then show ?thesis by (simp add: deletion_indexes_def Let_def N_def)
qed

lemma runs_deletions:
  assumes "loro_document api live" "me_api env = api" "listy api c" "k \<le> length xs"
  shows "runs api c (for_each (apply_list_change env mv c)
      (map (\<lambda>i. change (Some c) (Index i) None Delete) (rev (filter P [0..<k])))) (take k xs @ zs)
    (map ((!) xs) (filter (\<lambda>i. \<not> P i) [0..<k]) @ zs)"
  using assms(4)
proof (induction k arbitrary: zs)
  case (Suc k)
  have xs: "take (Suc k) xs @ zs = take k xs @ xs ! k # zs" using Suc.prems by (simp add: take_Suc_conv_app_nth)
  show ?case
  proof (cases "P k")
    case True
    have "runs api c (apply_list_change env mv c (change (Some c) (Index k) None Delete)) (take k xs @ xs ! k # zs)
        (delete_at k (take k xs @ xs ! k # zs))"
      by (rule loro_document.runs_delete_change [OF assms(1-3)]) (use Suc.prems in simp)
    moreover have "delete_at k (take k xs @ xs ! k # zs) = take k xs @ zs"
      using Suc.prems by (simp add: delete_at_def)
    ultimately show ?thesis using Suc True unfolding xs by (auto intro: runs_bind)
  next
    case False
    then show ?thesis using Suc.IH [of "xs ! k # zs"] Suc.prems unfolding xs by simp
  qed
qed (simp add: runs_ok)

section \<open>Insertions and replacements\<close>

lemma runs_insertions:
  assumes "loro_document api live" "me_api env = api" "listy api c" "k \<le> m"
  shows "runs api c (for_each (apply_list_change env mv c)
      (map (\<lambda>j. insert_item c j (new ! j) None) (filter (\<lambda>j. \<not> C j) [0..<k])))
      (map f (filter C [0..<m]))
      (map (\<lambda>j. if C j then f j else kept (new ! j)) [0..<k] @ map f (filter C [k..<m]))"
  using assms(4)
proof (induction k)
  case (Suc k)
  let ?t = "\<lambda>k. map (\<lambda>j. if C j then f j else kept (new ! j)) [0..<k]"
  have rest: "[k..<m] = k # [Suc k..<m]" using Suc.prems by (simp add: upt_conv_Cons)
  show ?case
  proof (cases "C k")
    case True
    then show ?thesis using Suc rest by simp
  next
    case False
    have "runs api c (apply_list_change env mv c (insert_item c k (new ! k) None)) (?t k @ map f (filter C [k..<m]))
        (insert_at k (kept (new ! k)) (?t k @ map f (filter C [k..<m])))"
      by (rule loro_document.runs_insert_change [OF assms(1-3)]) simp
    moreover have "insert_at k (kept (new ! k)) (?t k @ map f (filter C [k..<m])) =
        ?t (Suc k) @ map f (filter C [Suc k..<m])"
      using False rest by (simp add: insert_at_def)
    ultimately show ?thesis using runs_snoc [OF Suc.IH] False Suc.prems by simp
  qed
qed (simp add: runs_ok)

section \<open>Applying the difference\<close>

text \<open>The items that stay keep their order.\<close>

definition order_kept :: "id_selector \<Rightarrow> json list \<Rightarrow> json list \<Rightarrow> bool" where
  "order_kept sel old new \<longleftrightarrow> sorted_wrt (<) (map (\<lambda>j. the (was_at sel old new j)) (stays sel old new))"

lemma stays_items:
  assumes "ids_distinct sel old" "order_kept sel old new"
  shows "map ((!) old) (filter (\<lambda>i. select_id sel (old ! i) \<in> select_id sel ` set new) [0..<length old]) =
    map (\<lambda>j. old ! the (was_at sel old new j)) (stays sel old new)"
proof -
  have "set (map (\<lambda>j. the (was_at sel old new j)) (stays sel old new)) =
      set (filter (\<lambda>i. select_id sel (old ! i) \<in> select_id sel ` set new) [0..<length old])"
  proof (rule set_eqI)
    fix i
    have "i \<in> set (map (\<lambda>j. the (was_at sel old new j)) (stays sel old new)) \<longleftrightarrow>
        (\<exists>j<length new. was_at sel old new j = Some i)"
      by (force simp: stays_def)
    also have "\<dots> \<longleftrightarrow> i < length old \<and> (\<exists>j<length new. select_id sel (old ! i) = select_id sel (new ! j))"
      using was_at_iff [OF assms(1)] was_atD by metis
    also have "\<dots> \<longleftrightarrow> i \<in> set (filter (\<lambda>i. select_id sel (old ! i) \<in> select_id sel ` set new) [0..<length old])"
      by (auto simp: in_set_conv_nth image_iff) (metis nth_mem)
    finally show "i \<in> set (map (\<lambda>j. the (was_at sel old new j)) (stays sel old new)) \<longleftrightarrow>
      i \<in> set (filter (\<lambda>i. select_id sel (old ! i) \<in> select_id sel ` set new) [0..<length old])" .
  qed
  then have "map (\<lambda>j. the (was_at sel old new j)) (stays sel old new) =
      filter (\<lambda>i. select_id sel (old ! i) \<in> select_id sel ` set new) [0..<length old]"
    using assms(2) by (intro sorted_distinct_set_unique) (auto simp: order_kept_def strict_sorted_iff sorted_filter_upt)
  then show ?thesis by (metis (no_types, lifting) map_map comp_apply map_eq_conv)
qed

lemma no_moves:
  assumes "ids_distinct sel old" "all_ids sel new" "order_kept sel old new"
  shows "movable_moves c (common_items sel old new) = []"
proof -
  let ?common = "common_items sel old new"
  have "map ci_old_index ?common = map (\<lambda>j. the (was_at sel old new j)) (stays sel old new)"
    by (simp add: common_items_eq [OF assms(1,2)] stay_item_def)
  then have "set (longest_increasing_subsequence (map ci_old_index ?common)) = {..<length ?common}"
    using lis_of_increasing [of "map ci_old_index ?common"] assms(3)
    by (metis length_map order_kept_def)
  then have "List.map_filter (\<lambda>i. if i \<notin> set (longest_increasing_subsequence (map ci_old_index ?common)) \<and>
      ci_old_index (?common ! i) \<noteq> ci_new_index (?common ! i)
      then Some (change (Some c) (Index (ci_old_index (?common ! i))) (Some (ci_new_item (?common ! i)))
        (Move (ci_old_index (?common ! i)) (ci_new_index (?common ! i)))) else None) [0..<length ?common] =
    List.map_filter (\<lambda>i. None) [0..<length ?common]"
    by (intro map_filter_cong) simp
  moreover have "List.map_filter (\<lambda>i. None) xs = []" for xs :: "nat list"
    by (induction xs) (auto simp: List.map_filter_simps)
  ultimately show ?thesis by (simp add: movable_moves_def Let_def)
qed

lemma movable_inserts_eq:
  assumes "ids_distinct sel old" "all_ids sel new"
  shows "movable_inserts c sel old new s =
    map (\<lambda>j. insert_item c j (new ! j) s) (filter (\<lambda>j. was_at sel old new j = None) [0..<length new])"
proof -
  have "(case select_id sel (new ! j) of None \<Rightarrow> False | Some ident \<Rightarrow> bt_get (old_map sel old) ident \<noteq> None) \<longleftrightarrow>
      was_at sel old new j \<noteq> None" if "j < length new" for j
    using all_ids_at [OF assms(2) that] by (auto simp: old_map_get [OF assms(1)] was_at_def)
  then have "movable_inserts c sel old new s = List.map_filter
      (\<lambda>j. if was_at sel old new j \<noteq> None then None else Some (insert_item c j (new ! j) s)) [0..<length new]"
    unfolding movable_inserts_def by (intro map_filter_cong) simp
  moreover have "List.map_filter (\<lambda>j. if was_at sel old new j \<noteq> None then None else Some (h j)) js =
      map h (filter (\<lambda>j. was_at sel old new j = None) js)" for h :: "nat \<Rightarrow> 'a change" and js
    by (induction js) (auto simp: List.map_filter_simps)
  ultimately show ?thesis by simp
qed

lemma concat_filter: "concat (map f (filter P xs)) = concat (map (\<lambda>x. if P x then f x else []) xs)"
  by (induction xs) auto

lemma try_update_container [simp]: "ch_container (try_update_to_insert_container ch b s) = ch_container ch"
  by (simp add: try_update_to_insert_container_def split: option.splits)

lemma insert_item_container: "ch_container (insert_item c i x s) = Some c"
  by (simp add: insert_item_def change_def)

lemma replace_item_container: "ch \<in> set (replace_item c i x s) \<Longrightarrow> ch_container ch = Some c"
  by (auto simp: replace_item_def change_def)

lemma movable_list_run:
  assumes "loro_document (me_api env) live" "lo_kind (me_api env) c = CMovableList"
    and "shows_list (me_api env) c old w" "\<forall>x\<in>set new. json_ok x"
    and "ids_distinct sel old" "ids_distinct sel new" "order_kept sel old new"
  shows "\<exists>changes w' ys.
    diff_movable_list dc (doc_view (me_api env) (w_doc w)) old new c None sel = Inr changes \<and>
    apply_container_changes env c changes w = (Inr (), w') \<and>
    shows_list (me_api env) c ys w' \<and> list_all2 deep_equal ys new \<and>
    (\<forall>ch\<in>set changes. ch_container ch = Some c)"
proof -
  let ?d = "doc_view (me_api env) (w_doc w)" and ?api = "me_api env" and ?C = "\<lambda>j. was_at sel old new j \<noteq> None"
  have listy: "listy ?api c" using assms(2) by simp
  have child: "ld_movable_child ?d c i = None" for i
    using plain_no_movable assms(3) by (auto simp: shows_list_def)
  have new: "all_ids sel new" using assms(6) by (simp add: ids_distinct_def)
  define target where "target = map (\<lambda>j. if ?C j then old ! the (was_at sel old new j) else kept (new ! j)) [0..<length new]"
  let ?update = "concat (map (\<lambda>i. if deep_equal (target ! i) (new ! i) then [] else replace_item c i (new ! i) None) [0..<length new])"
  let ?delete = "map (\<lambda>i. change (Some c) (Index i) None Delete) (deletion_indexes sel old new)"
  let ?insert = "movable_inserts c sel old new None"
  have updates: "diff_each (\<lambda>info. if deep_equal (ci_old_item info) (ci_new_item info) then Inr []
        else (case ld_movable_child ?d c (ci_old_index info) of
               Some child \<Rightarrow> dc (ci_old_item info) (ci_new_item info) child None
             | None \<Rightarrow> Inr (replace_item c (ci_new_index info) (ci_new_item info) None))) (common_items sel old new) =
      Inr ?update"
  proof -
    have "diff_each (\<lambda>info. if deep_equal (ci_old_item info) (ci_new_item info) then Inr []
        else (case ld_movable_child ?d c (ci_old_index info) of
               Some child \<Rightarrow> dc (ci_old_item info) (ci_new_item info) child None
             | None \<Rightarrow> Inr (replace_item c (ci_new_index info) (ci_new_item info) None))) (common_items sel old new) =
      Inr (concat (map (\<lambda>info. if deep_equal (ci_old_item info) (ci_new_item info) then []
        else replace_item c (ci_new_index info) (ci_new_item info) None) (common_items sel old new)))"
      by (rule diff_each_ok) (simp add: child)
    also have "map (\<lambda>info. if deep_equal (ci_old_item info) (ci_new_item info) then []
        else replace_item c (ci_new_index info) (ci_new_item info) None) (common_items sel old new) =
      map (\<lambda>j. if deep_equal (old ! the (was_at sel old new j)) (new ! j) then [] else replace_item c j (new ! j) None)
        (stays sel old new)"
      by (simp add: common_items_eq [OF assms(5) new] stay_item_def)
    also have "concat \<dots> = ?update"
      unfolding stays_def concat_filter
      using assms(4) by (intro arg_cong [where f = concat] map_cong refl) (auto simp: target_def kept_equal)
    finally show ?thesis .
  qed
  have diff: "diff_movable_list dc ?d old new c None sel = Inr (?delete @ ?insert @ ?update)"
    using updates no_moves [OF assms(5) new assms(7), of c] by (simp add: diff_movable_list_def Let_def)
  have "runs ?api c (for_each (apply_list_change env True c) ?delete) old
      (map ((!) old) (filter (\<lambda>i. select_id sel (old ! i) \<in> select_id sel ` set new) [0..<length old]))"
    using runs_deletions [OF assms(1) refl listy order_refl, where xs = old and mv = True and
        P = "\<lambda>i. select_id sel (old ! i) \<notin> select_id sel ` set new" and zs = "[]"]
    by (simp add: deletion_indexes_eq [OF assms(5) new])
  then have deleted: "runs ?api c (for_each (apply_list_change env True c) ?delete) old
      (map (\<lambda>j. old ! the (was_at sel old new j)) (filter ?C [0..<length new]))"
    unfolding stays_items [OF assms(5,7)] stays_def .
  have inserted: "runs ?api c (for_each (apply_list_change env True c) ?insert)
      (map (\<lambda>j. old ! the (was_at sel old new j)) (filter ?C [0..<length new])) target"
    using runs_insertions [OF assms(1) refl listy order_refl [of "length new"], where mv = True and new = new and C = ?C and
        f = "\<lambda>j. old ! the (was_at sel old new j)"]
    by (simp add: movable_inserts_eq [OF assms(5) new] target_def)
  obtain ys where updated: "runs ?api c (for_each (apply_list_change env True c) ?update) target ys" "length ys = length target"
      "\<forall>i<length target. ys ! i = (if i < length new \<and> \<not> deep_equal (target ! i) (new ! i) then kept (new ! i) else target ! i)"
    using replace_prefix [OF assms(1) refl listy, of "length new" target new True] by (auto simp: target_def)
  have "runs ?api c (for_each (apply_list_change env True c) (?delete @ ?insert @ ?update)) old ys"
    by (rule runs_append [OF deleted runs_append [OF inserted updated(1)]])
  have containers: "\<forall>ch\<in>set (?delete @ ?insert @ ?update). ch_container ch = Some c"
    by (auto simp: movable_inserts_eq [OF assms(5) new] insert_item_container replace_item_container change_def)
  from \<open>runs ?api c (for_each (apply_list_change env True c) (?delete @ ?insert @ ?update)) old ys\<close>
  obtain w' where "for_each (apply_list_change env True c) (?delete @ ?insert @ ?update) w = (Inr (), w')"
      "shows_list ?api c ys w'"
    using assms(3) unfolding runs_def by blast
  moreover from this(1) have "apply_container_changes env c (?delete @ ?insert @ ?update) w = (Inr (), w')"
    by (simp add: apply_container_changes_def assms(2))
  moreover have "list_all2 deep_equal ys new"
    using updated(2,3) assms(4) by (auto simp: list_all2_conv_all_nth target_def kept_equal)
  ultimately show ?thesis using diff containers by blast
qed

text \<open>The movable list difference, applied. For a movable list of plain values in which old and new
  identifiers are present and distinct and the items that stay keep their order, the difference
  succeeds, consists of deletions, insertions and replacements only, and applying it leaves the list
  showing the new items in order, up to \<^verbatim>\<open>deep_equal\<close>.\<close>

theorem movable_list_applied:
  assumes "loro_document (me_api env) live" "lo_kind (me_api env) c = CMovableList"
    and "shows_list (me_api env) c old w" "\<forall>x\<in>set new. json_ok x"
    and "ids_distinct sel old" "ids_distinct sel new" "order_kept sel old new"
  shows "\<exists>changes w' ys.
    diff_movable_list dc (doc_view (me_api env) (w_doc w)) old new c None sel = Inr changes \<and>
    apply_container_changes env c changes w = (Inr (), w') \<and>
    shows_list (me_api env) c ys w' \<and> list_all2 deep_equal ys new"
  using movable_list_run [OF assms] by blast

theorem movable_list_applied_witness:
  "\<exists>changes w' ys.
    diff_movable_list (\<lambda>_ _ _ _. Inr []) (doc_view mem_api (w_doc (list_world (RootId [1] CMovableList) [LString [1], LString [2], LString [4]])))
      [JString [1], JString [2], JString [4]] [JString [3], JString [1], JString [4]] (RootId [1] CMovableList) None word_id = Inr changes \<and>
    apply_container_changes plain_env (RootId [1] CMovableList) changes
      (list_world (RootId [1] CMovableList) [LString [1], LString [2], LString [4]]) = (Inr (), w') \<and>
    shows_list mem_api (RootId [1] CMovableList) ys w' \<and>
    list_all2 deep_equal ys [JString [3], JString [1], JString [4]]"
proof -
  have "order_kept word_id [JString [1], JString [2], JString [4]] [JString [3], JString [1], JString [4]]"
    by (simp add: order_kept_def stays_def was_at_def select_id_def word_id_def upt_rec)
  then show ?thesis
    using movable_list_applied [of plain_env mem_live "RootId [1] CMovableList" "[JString [1], JString [2], JString [4]]"
        "list_world (RootId [1] CMovableList) [LString [1], LString [2], LString [4]]"
        "[JString [3], JString [1], JString [4]]" word_id "\<lambda>_ _ _ _. Inr []"]
      list_world_shows [of "RootId [1] CMovableList" "[LString [1], LString [2], LString [4]]"] mem.loro_document_axioms
    by (simp add: ids_distinct_def all_ids_def select_id_def word_id_def)
qed

text \<open>Reversing three items: the middle one is already at its index, the last is the longest
  increasing subsequence, so the only change moves the last old item to the front, which leaves the
  other two in their old order.\<close>

lemma movable_reversal_lost:
  "diff_movable_list dc d [JString [1], JString [2], JString [3]] [JString [3], JString [2], JString [1]] c None word_id =
   Inr [change (Some c) (Index 2) (Some (JString [3])) (Move 2 0)]"
  by (simp add: diff_movable_list_def common_items_def common_item_at_def old_map_def select_id_def word_id_def
      upt_rec List.map_filter_simps bt_get_def deletion_indexes_def movable_moves_def movable_inserts_def
      longest_increasing_subsequence_def lis_step_def lis_search.simps Let_def deep_equal.simps numeral_2_eq_2)

end
