(* ===== verification/Mirror_Sync.thy ===== *)
theory Mirror_Sync
  imports Mirror_Movable
begin

text \<open>
  \<^verbatim>\<open>crates/vt-mirror/src/mirror.rs\<close>, third part: the \<^verbatim>\<open>Mirror\<close> object. Its state is the application
  state, the fence \<^verbatim>\<open>syncing\<close>, the subscribers, and the world of document and registry; its
  calls return a result and the new state. A call of a subscriber is an entry of \<open>mi_notified\<close>,
  with the state and the metadata it is given. The commit of \<^verbatim>\<open>apply_changes_to_loro\<close> fires events
  whose origin is \<^verbatim>\<open>to-loro\<close>, which both event handlers ignore.
\<close>

section \<open>State\<close>

datatype sync_direction = FromLoro | ToLoro | Bidirectional

record update_metadata =
  um_direction :: sync_direction
  um_tags :: "ustring list option"

record ('d, 'c) mirror =
  mi_world :: "('d, 'c) world"
  mi_state :: json
  mi_syncing :: bool
  mi_subscribers :: "nat list"
  mi_next_subscriber_id :: nat
  mi_notified :: "(nat \<times> json \<times> update_metadata) list"

definition shallow_assign :: "json \<Rightarrow> json \<Rightarrow> json" where
  "shallow_assign target source =
     (case source of
        JObject sm \<Rightarrow>
          JObject (fold (\<lambda>(k, v) m. bt_insert k v m) sm (case target of JObject tm \<Rightarrow> tm | _ \<Rightarrow> []))
      | _ \<Rightarrow> target)"

definition notify_subscribers :: "sync_direction \<Rightarrow> ustring list option \<Rightarrow> ('d, 'c) mirror \<Rightarrow> ('d, 'c) mirror" where
  "notify_subscribers direction tags m =
     m\<lparr>mi_notified := mi_notified m @
         map (\<lambda>s. (s, mi_state m, \<lparr>um_direction = direction, um_tags = tags\<rparr>)) (mi_subscribers m)\<rparr>"

section \<open>Registering containers\<close>

text \<open>The recursion of \<^verbatim>\<open>register_container\<close> follows the nesting of the document; \<open>depth\<close> bounds it.\<close>

definition nested_children :: "('d, 'c) mirror_env \<Rightarrow> ('d, 'c) world \<Rightarrow> 'c \<Rightarrow> schema option \<Rightarrow> ('c \<times> schema option) list" where
  "nested_children env w c s =
     (case lo_kind (me_api env) c of
        CMap \<Rightarrow> List.map_filter (\<lambda>e. map_option (\<lambda>x. (x, field_of s (fst e))) (child_of (Some (snd e))))
                 (lo_map (me_api env) (w_doc w) c)
      | CList \<Rightarrow> List.map_filter (\<lambda>e. map_option (\<lambda>x. (x, item_schema_of (me_slots env) s)) (child_of (Some e)))
                 (lo_list (me_api env) (w_doc w) c)
      | CMovableList \<Rightarrow> List.map_filter (\<lambda>e. map_option (\<lambda>x. (x, item_schema_of (me_slots env) s)) (child_of (Some e)))
                 (lo_list (me_api env) (w_doc w) c)
      | _ \<Rightarrow> [])"

definition register :: "'c \<Rightarrow> schema option \<Rightarrow> ('d, 'c) world \<Rightarrow> ('d, 'c) world" where
  "register c s w = w\<lparr>w_registry := (w_registry w)(c \<mapsto> s)\<rparr>"

fun register_container :: "('d, 'c) mirror_env \<Rightarrow> nat \<Rightarrow> 'c \<times> schema option \<Rightarrow> ('d, 'c) world \<Rightarrow> ('d, 'c) world" where
  "register_container env 0 e w = register (fst e) (snd e) w"
| "register_container env (Suc depth) e w =
     fold (register_container env depth) (nested_children env w (fst e) (snd e)) (register (fst e) (snd e) w)"

lemma register_doc [simp]: "w_doc (register c s w) = w_doc w"
  by (simp add: register_def)

lemma register_container_doc [simp]: "w_doc (register_container env depth e w) = w_doc w"
proof (induction depth arbitrary: e w)
  case (Suc depth)
  have "w_doc (fold (register_container env depth) es w) = w_doc w" for es w
    using Suc by (induction es arbitrary: w) auto
  then show ?case by simp
qed simp

lemma nested_children_doc: "w_doc w = w_doc w' \<Longrightarrow> nested_children env w = nested_children env w'"
  by (intro ext) (simp add: nested_children_def split: container_type.splits)

text \<open>When containers nest less than \<open>depth\<close> deep, a larger bound changes nothing.\<close>

lemma register_container_depth:
  assumes "\<And>c s e. e \<in> set (nested_children env w c s) \<Longrightarrow> rank (fst e) < rank c" "rank (fst e) \<le> depth" "depth \<le> depth'"
  shows "register_container env depth e w = register_container env depth' e w"
  using assms
proof (induction depth arbitrary: depth' e w)
  case 0
  then have "nested_children env w (fst e) (snd e) = []"
    by (metis gr_implies_not0 le_0_eq list.set_intros(1) neq_Nil_conv)
  then show ?case by (cases depth') auto
next
  case (Suc depth)
  obtain n where n: "depth' = Suc n" "depth \<le> n" using Suc.prems(3) by (cases depth') auto
  have "fold (register_container env depth) es w' = fold (register_container env n) es w'"
    if "set es \<subseteq> set (nested_children env w (fst e) (snd e))" "w_doc w' = w_doc w" for es w'
    using that
  proof (induction es arbitrary: w')
    case (Cons x es)
    have "register_container env depth x w' = register_container env n x w'"
    proof (rule Suc.IH)
      show "rank (fst e') < rank c" if "e' \<in> set (nested_children env w' c s)" for c s e'
        using Suc.prems(1) that nested_children_doc [OF Cons.prems(2)] by metis
      show "rank (fst x) \<le> depth" using Suc.prems(1) [of x "fst e" "snd e"] Suc.prems(2) Cons.prems(1) by auto
    qed (rule n(2))
    then show ?case using Cons by simp
  qed simp
  then show ?case by (simp add: n(1))
qed

section \<open>Creation\<close>

definition initialize_containers :: "('d, 'c) mirror_env \<Rightarrow> nat \<Rightarrow> ('d, 'c) mirror \<Rightarrow> ('d, 'c) mirror" where
  "initialize_containers env depth m =
     (let doc_state = loro_to_json (lo_doc_value (me_api env) (w_doc (mi_world m)));
          roots = (case me_schema env of
                     Some (SRoot fs _) \<Rightarrow>
                       List.map_filter (\<lambda>(key, f).
                         case schema_container_type f of
                           None \<Rightarrow> None
                         | Some t \<Rightarrow>
                             map_option (\<lambda>c. (c, Some f))
                               (root_container_id (doc_view (me_api env) (w_doc (mi_world m))) key t)) fs
                   | _ \<Rightarrow> [])
      in m\<lparr>mi_state := shallow_assign (mi_state m) doc_state,
           mi_world := fold (register_container env depth) roots (mi_world m)\<rparr>)"

definition mirror_new :: "('d, 'c) mirror_env \<Rightarrow> nat \<Rightarrow> 'd \<Rightarrow> json option \<Rightarrow> mirror_error + ('d, 'c) mirror" where
  "mirror_new env depth doc initial_state =
     (if (case me_schema env of None \<Rightarrow> False | Some (SRoot _ _) \<Rightarrow> False | _ \<Rightarrow> True) then Inl RootSchemaNotRoot
      else
        (let defaults = (case (case me_schema env of None \<Rightarrow> None | Some s \<Rightarrow> get_default_value s) of
                           None \<Rightarrow> JObject [] | Some d \<Rightarrow> d);
             state = (case initial_state of None \<Rightarrow> defaults | Some i \<Rightarrow> shallow_assign defaults i)
         in Inr (initialize_containers env depth
              \<lparr>mi_world = \<lparr>w_doc = doc, w_registry = (\<lambda>_. None)\<rparr>, mi_state = state, mi_syncing = False,
               mi_subscribers = [], mi_next_subscriber_id = 0, mi_notified = []\<rparr>)))"

section \<open>From the document to the state\<close>

definition pull :: "('d, 'c) mirror_env \<Rightarrow> ('d, 'c) mirror \<Rightarrow> ('d, 'c) mirror" where
  "pull env m =
     m\<lparr>mi_state := shallow_assign (mi_state m) (loro_to_json (lo_doc_value (me_api env) (w_doc (mi_world m))))\<rparr>"

text \<open>An event: where it comes from, and what was inserted in which container. Only insertions matter
  to the mirror; anything else a list or map reports is \<open>None\<close>.\<close>

datatype trigger = LocalEvent | ImportEvent | CheckoutEvent

datatype 'c container_diff =
    ListDiff 'c "'c slot option list"
  | MapDiff 'c "(ustring \<times> 'c slot option) list"
  | OtherDiff

record 'c diff_event =
  de_origin :: ustring
  de_triggered_by :: trigger
  de_events :: "'c container_diff list"

definition register_from_diff :: "('d, 'c) mirror_env \<Rightarrow> nat \<Rightarrow> 'c container_diff \<Rightarrow> ('d, 'c) world \<Rightarrow> ('d, 'c) world" where
  "register_from_diff env depth diff w =
     (case diff of
        ListDiff c inserted \<Rightarrow>
          (let s = item_schema_of (me_slots env) (get_container_schema w c)
           in fold (\<lambda>x. register_container env depth (x, s)) (List.map_filter child_of inserted) w)
      | MapDiff c updated \<Rightarrow>
          fold (\<lambda>(x, key) w. register_container env depth (x, get_schema_for_child_container (me_slots env) w c key) w)
            (List.map_filter (\<lambda>(key, s). map_option (\<lambda>x. (x, key)) (child_of s)) updated) w
      | OtherDiff \<Rightarrow> w)"

definition register_containers_from_loro_event ::
    "('d, 'c) mirror_env \<Rightarrow> nat \<Rightarrow> 'c diff_event \<Rightarrow> ('d, 'c) mirror \<Rightarrow> ('d, 'c) mirror" where
  "register_containers_from_loro_event env depth e m =
     m\<lparr>mi_world := fold (register_from_diff env depth) (de_events e) (mi_world m)\<rparr>"

definition handle_loro_event ::
    "('d, 'c) mirror_env \<Rightarrow> nat \<Rightarrow> 'c diff_event \<Rightarrow> ('d, 'c) mirror \<Rightarrow> ('d, 'c) mirror" where
  "handle_loro_event env depth e m =
     (if mi_syncing m \<or> de_origin e = lit ''to-loro'' then m
      else
        (register_containers_from_loro_event env depth e
           (notify_subscribers FromLoro None (pull env (m\<lparr>mi_syncing := True\<rparr>))))\<lparr>mi_syncing := False\<rparr>)"

definition handle_container_event :: "('d, 'c) mirror_env \<Rightarrow> 'c diff_event \<Rightarrow> ('d, 'c) mirror \<Rightarrow> ('d, 'c) mirror" where
  "handle_container_event env e m =
     (if mi_syncing m \<or> de_origin e = lit ''to-loro'' then m
      else
        (let m' = pull env (m\<lparr>mi_syncing := True\<rparr>)
         in (if de_triggered_by e \<noteq> ImportEvent then notify_subscribers FromLoro None m' else m')\<lparr>mi_syncing := False\<rparr>))"

definition sync_from_loro :: "('d, 'c) mirror_env \<Rightarrow> ('d, 'c) mirror \<Rightarrow> json \<times> ('d, 'c) mirror" where
  "sync_from_loro env m =
     (if mi_syncing m then (mi_state m, m)
      else
        (let m' = (notify_subscribers FromLoro None (pull env (m\<lparr>mi_syncing := True\<rparr>)))\<lparr>mi_syncing := False\<rparr>
         in (mi_state m', m')))"

section \<open>From the state to the document\<close>

definition update_loro :: "('d, 'c) mirror_env \<Rightarrow> json \<Rightarrow> ('d, 'c) mirror \<Rightarrow> (mirror_error + unit) \<times> ('d, 'c) mirror" where
  "update_loro env new_state m =
     (case diff_container (doc_view (me_api env) (w_doc (mi_world m))) (me_slots env) (Some (me_infer env))
             (mi_state m) new_state None (me_schema env) of
        Inl e \<Rightarrow> (Inl (MirrorDiff e), m)
      | Inr changes \<Rightarrow>
          (case apply_changes_to_loro env changes (mi_world m) of (r, w) \<Rightarrow> (r, m\<lparr>mi_world := w\<rparr>)))"

definition join :: "ustring \<Rightarrow> ustring list \<Rightarrow> ustring" where
  "join sep ss = (case ss of [] \<Rightarrow> [] | s # r \<Rightarrow> s @ concat (map (\<lambda>x. sep @ x) r))"

text \<open>The update of the document between the two switches of the fence.\<close>

definition fenced_update :: "('d, 'c) mirror_env \<Rightarrow> json \<Rightarrow> ('d, 'c) mirror \<Rightarrow> (mirror_error + unit) \<times> ('d, 'c) mirror" where
  "fenced_update env new_state m =
     (case update_loro env new_state (m\<lparr>mi_syncing := True\<rparr>) of (r, m') \<Rightarrow> (r, m'\<lparr>mi_syncing := False\<rparr>))"

definition set_state ::
    "('d, 'c) mirror_env \<Rightarrow> (json \<Rightarrow> json) \<Rightarrow> ustring list option \<Rightarrow> ('d, 'c) mirror
     \<Rightarrow> (mirror_error + unit) \<times> ('d, 'c) mirror" where
  "set_state env updater tags m =
     (if mi_syncing m then (Inr (), m)
      else
        (let new_state = updater (mi_state m) in
         case (if me_validate_updates env
               then (case me_schema env of
                       None \<Rightarrow> Inr () | Some s \<Rightarrow> validate_schema (me_slots env) s (Some new_state))
               else Inr ()) of
           Inl errors \<Rightarrow> (Inl (MirrorValidationFailed (join (lit '', '') errors)), m)
         | Inr _ \<Rightarrow>
             (case fenced_update env new_state m of
                (Inl e, m') \<Rightarrow> (Inl e, m')
              | (Inr _, m') \<Rightarrow> (Inr (), notify_subscribers ToLoro tags (m'\<lparr>mi_state := new_state\<rparr>)))))"

definition set_state_merge ::
    "('d, 'c) mirror_env \<Rightarrow> json \<Rightarrow> ('d, 'c) mirror \<Rightarrow> (mirror_error + unit) \<times> ('d, 'c) mirror" where
  "set_state_merge env partial = set_state env (\<lambda>state. shallow_assign state partial) None"

definition sync_to_loro :: "('d, 'c) mirror_env \<Rightarrow> ('d, 'c) mirror \<Rightarrow> (mirror_error + unit) \<times> ('d, 'c) mirror" where
  "sync_to_loro env m =
     (if mi_syncing m then (Inr (), m)
      else
        (case fenced_update env (mi_state m) m of
           (Inl e, m') \<Rightarrow> (Inl e, m')
         | (Inr _, m') \<Rightarrow> (Inr (), notify_subscribers ToLoro None m')))"

definition sync :: "('d, 'c) mirror_env \<Rightarrow> ('d, 'c) mirror \<Rightarrow> (mirror_error + json) \<times> ('d, 'c) mirror" where
  "sync env m =
     (case sync_to_loro env (snd (sync_from_loro env m)) of
        (Inl e, m') \<Rightarrow> (Inl e, m')
      | (Inr _, m') \<Rightarrow> (Inr (mi_state m'), m'))"

section \<open>Subscribers\<close>

definition subscribe :: "('d, 'c) mirror \<Rightarrow> nat \<times> ('d, 'c) mirror" where
  "subscribe m =
     (mi_next_subscriber_id m,
      m\<lparr>mi_subscribers := mi_subscribers m @ [mi_next_subscriber_id m],
        mi_next_subscriber_id := mi_next_subscriber_id m + 1\<rparr>)"

text \<open>Dropping the receipt of a subscription.\<close>

definition unsubscribe :: "nat \<Rightarrow> ('d, 'c) mirror \<Rightarrow> ('d, 'c) mirror" where
  "unsubscribe ident m = m\<lparr>mi_subscribers := filter (\<lambda>s. s \<noteq> ident) (mi_subscribers m)\<rparr>"

definition container_ids :: "('d, 'c) mirror \<Rightarrow> 'c set" where
  "container_ids m = dom (w_registry (mi_world m))"

end
