(* ===== verification/Mirror_Sync_Laws.thy ===== *)
theory Mirror_Sync_Laws
  imports Mirror_Sync
begin

text \<open>
  What the calls of the \<^verbatim>\<open>Mirror\<close> object guarantee: the outcome of \<^verbatim>\<open>set_state\<close>, the invariant of
  all sequences of calls and events (an interpretation of the \<open>state_machine\<close> contract), and the
  composition of validation, difference, grouping and application for a root with a movable list.
\<close>

section \<open>The outcome of a call\<close>

lemma update_loro_frame:
  "update_loro env new m = (r, m') \<Longrightarrow>
   mi_state m' = mi_state m \<and> mi_syncing m' = mi_syncing m \<and> mi_subscribers m' = mi_subscribers m \<and>
   mi_next_subscriber_id m' = mi_next_subscriber_id m \<and> mi_notified m' = mi_notified m"
  by (auto simp: update_loro_def split: sum.splits prod.splits)

lemma fenced_update_frame:
  "fenced_update env new m = (r, m') \<Longrightarrow>
   mi_state m' = mi_state m \<and> \<not> mi_syncing m' \<and> mi_subscribers m' = mi_subscribers m \<and>
   mi_next_subscriber_id m' = mi_next_subscriber_id m \<and> mi_notified m' = mi_notified m"
  using update_loro_frame [of env new "m\<lparr>mi_syncing := True\<rparr>"]
  by (cases "update_loro env new (m\<lparr>mi_syncing := True\<rparr>)") (auto simp: fenced_update_def)

lemma notify_fields [simp]:
  "mi_state (notify_subscribers d t m) = mi_state m" "mi_syncing (notify_subscribers d t m) = mi_syncing m"
  "mi_subscribers (notify_subscribers d t m) = mi_subscribers m" "mi_world (notify_subscribers d t m) = mi_world m"
  "mi_next_subscriber_id (notify_subscribers d t m) = mi_next_subscriber_id m"
  "mi_notified (notify_subscribers d t m) =
     mi_notified m @ map (\<lambda>s. (s, mi_state m, \<lparr>um_direction = d, um_tags = t\<rparr>)) (mi_subscribers m)"
  by (simp_all add: notify_subscribers_def)

definition accepts :: "('d, 'c) mirror_env \<Rightarrow> json \<Rightarrow> bool" where
  "accepts env v \<longleftrightarrow>
     (me_validate_updates env \<longrightarrow>
        (case me_schema env of None \<Rightarrow> True | Some s \<Rightarrow> validate_schema (me_slots env) s (Some v) = Inr ()))"

lemma set_state_accepted:
  "\<not> mi_syncing m \<Longrightarrow> accepts env (updater (mi_state m)) \<Longrightarrow>
   set_state env updater tags m =
     (case fenced_update env (updater (mi_state m)) m of
        (Inl e, m') \<Rightarrow> (Inl e, m')
      | (Inr _, m') \<Rightarrow> (Inr (), notify_subscribers ToLoro tags (m'\<lparr>mi_state := updater (mi_state m)\<rparr>)))"
  by (auto simp: set_state_def accepts_def Let_def split: option.splits)

lemma set_state_refused:
  "\<not> mi_syncing m \<Longrightarrow> \<not> accepts env (updater (mi_state m)) \<Longrightarrow>
   \<exists>msg. set_state env updater tags m = (Inl (MirrorValidationFailed msg), m)"
  by (auto simp: set_state_def accepts_def Let_def split: option.splits sum.splits)

lemma set_state_cases:
  assumes "\<not> mi_syncing m" "set_state env updater tags m = (r, m')"
  shows "\<not> mi_syncing m' \<and> mi_subscribers m' = mi_subscribers m \<and>
    mi_next_subscriber_id m' = mi_next_subscriber_id m \<and>
    (accepts env (updater (mi_state m)) \<or> (\<exists>msg. r = Inl (MirrorValidationFailed msg) \<and> m' = m)) \<and>
    (case r of
       Inl e \<Rightarrow> mi_state m' = mi_state m \<and> mi_notified m' = mi_notified m
     | Inr _ \<Rightarrow> accepts env (updater (mi_state m)) \<and> mi_state m' = updater (mi_state m) \<and>
         mi_notified m' = mi_notified m @
           map (\<lambda>i. (i, updater (mi_state m), \<lparr>um_direction = ToLoro, um_tags = tags\<rparr>)) (mi_subscribers m))"
proof (cases "accepts env (updater (mi_state m))")
  case True
  obtain r1 m1 where run: "fenced_update env (updater (mi_state m)) m = (r1, m1)" by fastforce
  show ?thesis
    using assms(2) set_state_accepted [of m env updater tags, OF assms(1) True] fenced_update_frame [OF run] run True
    by (cases r1) auto
next
  case False
  then show ?thesis using set_state_refused [of m env updater tags, OF assms(1) False] assms by auto
qed

text \<open>C29: All or nothing for the application state. A \<^verbatim>\<open>set_state\<close> that is not re-entrant lets the fence
  down again. When it succeeds, the new state has passed the schema (if updates are validated),
  it is the state, and every subscriber is told once, in order, with that state. When it fails, the
  state is the old one and nobody is told; a refusal by the schema leaves the document untouched.\<close>

theorem set_state_outcome:
  assumes "\<not> mi_syncing m" "set_state env updater tags m = (r, m')"
  shows "\<not> mi_syncing m' \<and> mi_subscribers m' = mi_subscribers m \<and>
    (accepts env (updater (mi_state m)) \<or> (\<exists>msg. r = Inl (MirrorValidationFailed msg) \<and> m' = m)) \<and>
    (case r of
       Inl e \<Rightarrow> mi_state m' = mi_state m \<and> mi_notified m' = mi_notified m
     | Inr _ \<Rightarrow> accepts env (updater (mi_state m)) \<and> mi_state m' = updater (mi_state m) \<and>
         mi_notified m' = mi_notified m @
           map (\<lambda>i. (i, updater (mi_state m), \<lparr>um_direction = ToLoro, um_tags = tags\<rparr>)) (mi_subscribers m))"
  using set_state_cases [OF assms] by blast

definition demo_mirror :: "schema \<Rightarrow> json \<Rightarrow> (mem_doc, container_id) mirror" where
  "demo_mirror s state =
     \<lparr>mi_world = demo_world, mi_state = state, mi_syncing = False, mi_subscribers = [0], mi_next_subscriber_id = 1,
      mi_notified = []\<rparr>"

text \<open>A root field that is declared \<^verbatim>\<open>Ignore\<close> cannot be set to a number: the change has no container.\<close>

lemma root_ignore_field_refused:
  "fst (set_state (demo_env (SRoot [([1], SIgnore default_options)] default_options) (\<lambda>_. None))
     (\<lambda>_. JObject [([1], JNumber (PosInt 5))]) None
     (demo_mirror (SRoot [([1], SIgnore default_options)] default_options) (JObject []))) =
   Inl UnknownRootContainerType"
  by (simp add: set_state_def demo_env_def demo_mirror_def validate_schema.simps default_options_def custom_errors_def
      prefixed_errors_def bt_get_def bt_keys_def fenced_update_def update_loro_def diff_container.simps is_object_like_def
      diff_map_def object_entries_def diff_map_entry_def object_get_def field_container_type_def field_schema_def
      schema_fields_def try_infer_container_type_def is_object_def is_array_def is_string_def
      apply_changes_to_loro_def group_changes_def add_to_bucket_def change_def apply_root_changes_def
      apply_root_change_def bind_def Let_def)

theorem set_state_outcome_witness:
  "fst (set_state (demo_env (SRoot [([1], SIgnore default_options)] default_options) (\<lambda>_. None))
     (\<lambda>_. JObject [([1], JNumber (PosInt 5))]) None
     (demo_mirror (SRoot [([1], SIgnore default_options)] default_options) (JObject []))) \<noteq> Inr () \<and>
   mi_state (snd (set_state (demo_env (SRoot [([1], SIgnore default_options)] default_options) (\<lambda>_. None))
     (\<lambda>_. JObject [([1], JNumber (PosInt 5))]) None
     (demo_mirror (SRoot [([1], SIgnore default_options)] default_options) (JObject [])))) = JObject []"
proof -
  let ?run = "set_state (demo_env (SRoot [([1], SIgnore default_options)] default_options) (\<lambda>_. None))
     (\<lambda>_. JObject [([1], JNumber (PosInt 5))]) None
     (demo_mirror (SRoot [([1], SIgnore default_options)] default_options) (JObject []))"
  have "\<not> mi_syncing (demo_mirror (SRoot [([1], SIgnore default_options)] default_options) (JObject []))"
    by (simp add: demo_mirror_def)
  from set_state_outcome [of _ _ "\<lambda>_. JObject [([1], JNumber (PosInt 5))]" None "fst ?run" "snd ?run", OF this] show ?thesis
    using root_ignore_field_refused by (simp add: demo_mirror_def)
qed

section \<open>All sequences of calls\<close>

datatype 'c mirror_call =
    CallSetState "json \<Rightarrow> json" "ustring list option"
  | CallMerge json
  | CallSyncFromLoro
  | CallSyncToLoro
  | CallSync
  | CallSubscribe
  | CallUnsubscribe nat
  | LoroEvent "'c diff_event"
  | ContainerEvent "'c diff_event"

fun mirror_step :: "('d, 'c) mirror_env \<Rightarrow> nat \<Rightarrow> ('d, 'c) mirror \<Rightarrow> 'c mirror_call \<Rightarrow> ('d, 'c) mirror" where
  "mirror_step env depth m (CallSetState f tags) = snd (set_state env f tags m)"
| "mirror_step env depth m (CallMerge v) = snd (set_state_merge env v m)"
| "mirror_step env depth m CallSyncFromLoro = snd (sync_from_loro env m)"
| "mirror_step env depth m CallSyncToLoro = snd (sync_to_loro env m)"
| "mirror_step env depth m CallSync = snd (sync env m)"
| "mirror_step env depth m CallSubscribe = snd (subscribe m)"
| "mirror_step env depth m (CallUnsubscribe i) = unsubscribe i m"
| "mirror_step env depth m (LoroEvent e) = handle_loro_event env depth e m"
| "mirror_step env depth m (ContainerEvent e) = handle_container_event env e m"

definition mirror_inv :: "('d, 'c) mirror \<Rightarrow> bool" where
  "mirror_inv m \<longleftrightarrow>
     \<not> mi_syncing m \<and> distinct (mi_subscribers m) \<and> (\<forall>i\<in>set (mi_subscribers m). i < mi_next_subscriber_id m) \<and>
     (\<forall>n\<in>set (mi_notified m). fst n < mi_next_subscriber_id m)"

lemma mirror_inv_notify:
  "distinct (mi_subscribers m) \<Longrightarrow> \<forall>i\<in>set (mi_subscribers m). i < mi_next_subscriber_id m \<Longrightarrow>
   \<forall>n\<in>set (mi_notified m). fst n < mi_next_subscriber_id m \<Longrightarrow>
   \<forall>n\<in>set (mi_notified (notify_subscribers d t m)). fst n < mi_next_subscriber_id m"
  by auto

lemma pull_fields [simp]:
  "mi_syncing (pull env m) = mi_syncing m" "mi_subscribers (pull env m) = mi_subscribers m"
  "mi_next_subscriber_id (pull env m) = mi_next_subscriber_id m" "mi_notified (pull env m) = mi_notified m"
  by (simp_all add: pull_def)

lemma mirror_inv_set_state:
  assumes "mirror_inv m"
  shows "mirror_inv (snd (set_state env f tags m))"
proof -
  obtain r m' where run: "set_state env f tags m = (r, m')" by fastforce
  show ?thesis
    using set_state_cases [OF _ run] assms run by (cases r) (auto simp: mirror_inv_def)
qed

lemma mirror_inv_sync_to:
  assumes "mirror_inv m"
  shows "mirror_inv (snd (sync_to_loro env m))"
proof -
  obtain r m' where run: "fenced_update env (mi_state m) m = (r, m')" by fastforce
  show ?thesis
    using fenced_update_frame [OF run] assms run by (cases r) (auto simp: mirror_inv_def sync_to_loro_def)
qed

lemma mirror_inv_sync_from: "mirror_inv m \<Longrightarrow> mirror_inv (snd (sync_from_loro env m))"
  by (auto simp: mirror_inv_def sync_from_loro_def Let_def)

lemma mirror_inv_step: "mirror_inv m \<Longrightarrow> mirror_inv (mirror_step env depth m call)"
proof (cases call)
  case (CallMerge v)
  then show "mirror_inv m \<Longrightarrow> ?thesis" by (simp add: set_state_merge_def mirror_inv_set_state)
next
  case CallSync
  assume m: "mirror_inv m"
  obtain r m' where run: "sync_to_loro env (snd (sync_from_loro env m)) = (r, m')" by fastforce
  have "mirror_inv m'" using mirror_inv_sync_to [OF mirror_inv_sync_from [OF m], of env env] run by simp
  then show ?thesis using CallSync run by (cases r) (simp_all add: sync_def)
next
  case CallSubscribe
  assume "mirror_inv m"
  then show ?thesis using CallSubscribe by (fastforce simp: mirror_inv_def subscribe_def)
next
  case (LoroEvent e)
  assume "mirror_inv m"
  then show ?thesis using LoroEvent
    by (auto simp: mirror_inv_def handle_loro_event_def register_containers_from_loro_event_def)
next
  case (ContainerEvent e)
  assume "mirror_inv m"
  then show ?thesis using ContainerEvent by (auto simp: mirror_inv_def handle_container_event_def Let_def)
qed (auto simp: mirror_inv_set_state mirror_inv_sync_to mirror_inv_sync_from, auto simp: mirror_inv_def unsubscribe_def)

interpretation mirror_machine: state_machine
  "\<lambda>m. \<exists>env depth doc initial. mirror_new env depth doc initial = Inr m" "\<lambda>m (env, depth, call). mirror_step env depth m call"
  mirror_inv
proof
  show "mirror_inv m" if "\<exists>env depth doc initial. mirror_new env depth doc initial = Inr m" for m :: "('d, 'c) mirror"
    using that by (auto simp: mirror_new_def mirror_inv_def initialize_containers_def Let_def split: if_splits)
  show "mirror_inv (case e of (env, depth, call) \<Rightarrow> mirror_step env depth m call)" if "mirror_inv m"
    for m :: "('d, 'c) mirror" and e
    using mirror_inv_step [OF that] by (cases e) auto
qed

text \<open>The numbers that a sequence of calls gives out, in order.\<close>

primrec handed_numbers :: "('d, 'c) mirror_env \<Rightarrow> nat \<Rightarrow> ('d, 'c) mirror \<Rightarrow> 'c mirror_call list \<Rightarrow> nat list" where
  "handed_numbers env depth m [] = []"
| "handed_numbers env depth m (c # cs) =
     (case c of CallSubscribe \<Rightarrow> [fst (subscribe m)] | _ \<Rightarrow> []) @ handed_numbers env depth (mirror_step env depth m c) cs"

lemma set_state_next: "\<not> mi_syncing m \<Longrightarrow> mi_next_subscriber_id (snd (set_state env f tags m)) = mi_next_subscriber_id m"
proof -
  assume m: "\<not> mi_syncing m"
  obtain r m' where run: "set_state env f tags m = (r, m')" by fastforce
  show ?thesis using set_state_cases [OF m run] run by (cases r) auto
qed

lemma sync_to_next: "mi_next_subscriber_id (snd (sync_to_loro env m)) = mi_next_subscriber_id m"
proof -
  obtain r m' where run: "fenced_update env (mi_state m) m = (r, m')" by fastforce
  show ?thesis using fenced_update_frame [OF run] run by (cases r) (auto simp: sync_to_loro_def)
qed

lemma sync_from_next: "mi_next_subscriber_id (snd (sync_from_loro env m)) = mi_next_subscriber_id m"
  by (simp add: sync_from_loro_def Let_def)

lemma sync_next: "mi_next_subscriber_id (snd (sync env m)) = mi_next_subscriber_id m"
proof -
  obtain r m' where run: "sync_to_loro env (snd (sync_from_loro env m)) = (r, m')" by fastforce
  then have "mi_next_subscriber_id m' = mi_next_subscriber_id m" using sync_to_next sync_from_next by (metis snd_conv)
  then show ?thesis using run by (cases r) (simp_all add: sync_def)
qed

lemma step_next:
  assumes "mirror_inv m"
  shows "mi_next_subscriber_id (mirror_step env depth m c) =
    (case c of CallSubscribe \<Rightarrow> Suc (mi_next_subscriber_id m) | _ \<Rightarrow> mi_next_subscriber_id m)"
  using assms
  by (cases c)
     (auto simp: mirror_inv_def set_state_next set_state_merge_def sync_to_next sync_from_next sync_next subscribe_def unsubscribe_def
       handle_loro_event_def handle_container_event_def register_containers_from_loro_event_def Let_def)

lemma handed_numbers_upt:
  assumes "mirror_inv m"
  shows "handed_numbers env depth m calls =
      [mi_next_subscriber_id m ..< mi_next_subscriber_id (foldl (mirror_step env depth) m calls)] \<and>
    mi_next_subscriber_id m \<le> mi_next_subscriber_id (foldl (mirror_step env depth) m calls)"
  using assms
proof (induction calls arbitrary: m)
  case (Cons c calls)
  have "mirror_inv (mirror_step env depth m c)" by (rule mirror_inv_step [OF Cons.prems])
  from Cons.IH [OF this] show ?case
    using step_next [OF Cons.prems, of env depth c]
    by (cases c) (auto simp: subscribe_def upt_conv_Cons)
qed simp

text \<open>C31: Over every sequence of calls and events from a new mirror, whether the single calls succeed
  or fail: the fence is down between them, subscribers have distinct numbers below the next one, no number
  is ever given out twice (not even after it was dropped), and only numbers that were given out subscribe
  or are notified.\<close>

theorem mirror_calls_safe:
  assumes "mirror_new env depth doc initial = Inr m"
  shows "mirror_inv (foldl (mirror_step env depth) m calls) \<and>
    distinct (handed_numbers env depth m calls) \<and>
    set (mi_subscribers (foldl (mirror_step env depth) m calls)) \<subseteq> set (handed_numbers env depth m calls) \<and>
    fst ` set (mi_notified (foldl (mirror_step env depth) m calls)) \<subseteq> set (handed_numbers env depth m calls)"
proof -
  have "foldl (\<lambda>m (env, depth, call). mirror_step env depth m call) m (map (\<lambda>c. (env, depth, c)) calls) =
      foldl (mirror_step env depth) m calls"
    by (induction calls arbitrary: m) auto
  then have inv: "mirror_inv (foldl (mirror_step env depth) m calls)"
    using mirror_machine.inv_reachable [of m "map (\<lambda>c. (env, depth, c)) calls"] assms by (metis (no_types, lifting))
  have "mirror_inv m" "mi_next_subscriber_id m = 0"
    using assms by (auto simp: mirror_new_def mirror_inv_def initialize_containers_def Let_def split: if_splits)
  then show ?thesis using inv handed_numbers_upt [of m env depth calls] by (auto simp: mirror_inv_def)
qed

theorem mirror_calls_safe_witness:
  "\<exists>m. mirror_new plain_env 3 (mem_empty []) None = Inr m \<and>
     distinct (handed_numbers plain_env 3 m [CallSubscribe, CallMerge (JObject []), CallUnsubscribe 0, CallSubscribe])"
proof -
  have "\<exists>m. mirror_new plain_env 3 (mem_empty []) None = Inr m" by (simp add: mirror_new_def demo_env_def Let_def)
  then obtain m where m: "mirror_new plain_env 3 (mem_empty []) None = Inr m" ..
  show ?thesis by (rule exI [of _ m]) (simp only: m mirror_calls_safe [OF m] simp_thms)
qed

section \<open>A root with a movable list\<close>

lemma group_same:
  assumes "chs \<noteq> []" "\<forall>ch\<in>set chs. ch_container ch = x"
  shows "group_changes chs = [(x, chs)]"
  using assms
proof (induction chs rule: rev_induct)
  case (snoc ch chs)
  then show ?case by (cases "chs = []") (auto simp: group_changes_def add_to_bucket_def)
qed simp

lemma apply_one_container:
  assumes "\<forall>ch\<in>set changes. ch_container ch = Some c" "apply_container_changes env c changes w = (Inr (), w')"
  shows "apply_changes_to_loro env changes w = (Inr (), w')"
proof (cases "changes = []")
  case True
  then have "w' = w"
    using assms(2) by (auto simp: apply_container_changes_def ok_def split: container_type.splits)
  then show ?thesis using True by (simp add: apply_changes_to_loro_def group_changes_def ok_def)
next
  case False
  then show ?thesis
    using assms by (simp add: apply_changes_to_loro_def group_same [OF False assms(1)] bind_step ok_def)
qed

text \<open>For plain items, an item schema that is no container makes no difference to the changes.\<close>

lemma plain_insert:
  assumes "plain_item x" "case s of None \<Rightarrow> True | Some f \<Rightarrow> schema_container_type f = None"
  shows "insert_item c i x s = insert_item c i x None" "replace_item c i x s = replace_item c i x None"
  using assms
  by (auto simp: insert_item_def replace_item_def try_update_to_insert_container_def change_def plain_item_def
      try_infer_container_type_def no_infer_def Let_def split: option.splits)

lemma common_item_new: "info \<in> set (common_items sel old new) \<Longrightarrow> ci_new_item info \<in> set new"
  unfolding common_items_def in_map_filter by (fastforce dest: common_item_atD)

lemma diff_movable_item_schema:
  assumes "\<forall>x\<in>set new. plain_item x" "case s of None \<Rightarrow> True | Some f \<Rightarrow> schema_container_type f = None"
    and "\<And>i. ld_movable_child d c i = None"
  shows "diff_movable_list dc d old new c s sel = diff_movable_list dc d old new c None sel"
proof -
  have "diff_each (\<lambda>info. if deep_equal (ci_old_item info) (ci_new_item info) then Inr []
        else (case ld_movable_child d c (ci_old_index info) of
               Some child \<Rightarrow> dc (ci_old_item info) (ci_new_item info) child s
             | None \<Rightarrow> Inr (replace_item c (ci_new_index info) (ci_new_item info) s))) (common_items sel old new) =
    diff_each (\<lambda>info. if deep_equal (ci_old_item info) (ci_new_item info) then Inr []
        else (case ld_movable_child d c (ci_old_index info) of
               Some child \<Rightarrow> dc (ci_old_item info) (ci_new_item info) child None
             | None \<Rightarrow> Inr (replace_item c (ci_new_index info) (ci_new_item info) None))) (common_items sel old new)"
    by (rule diff_each_cong) (auto simp: assms(3) plain_insert(2) [OF _ assms(2)] common_item_new assms(1))
  moreover have "movable_inserts c sel old new s = movable_inserts c sel old new None"
    unfolding movable_inserts_def by (rule map_filter_cong) (simp add: plain_insert(1) [OF _ assms(2)] assms(1))
  ultimately show ?thesis by (simp add: diff_movable_list_def Let_def)
qed

text \<open>C32: \<^verbatim>\<open>set_state\<close> writes a movable list through. For a root with one movable list of plain items,
  whose items have distinct identifiers and keep their order, a new state that the schema accepts is
  taken over: the call succeeds, the state is the new one, and the list in the document shows the
  new items, up to \<^verbatim>\<open>deep_equal\<close>.\<close>

theorem set_state_writes_list:
  assumes "loro_document (me_api env) live" "me_schema env = Some (SRoot [(key, SMovableList slot (Some sel) lo)] ro)"
    and "case me_slots env slot of None \<Rightarrow> True | Some f \<Rightarrow> schema_container_type f = None"
    and "\<not> mi_syncing m" "mi_state m = JObject [(key, JArray old)]" "accepts env (JObject [(key, JArray new)])"
    and "shows_list (me_api env) (lo_root (me_api env) key CMovableList) old (mi_world m)"
    and "\<forall>x\<in>set new. plain_item x" "ids_distinct sel old" "ids_distinct sel new" "order_kept sel old new"
  shows "\<exists>m' ys. set_state env (\<lambda>_. JObject [(key, JArray new)]) tags m = (Inr (), m') \<and>
    mi_state m' = JObject [(key, JArray new)] \<and>
    shows_list (me_api env) (lo_root (me_api env) key CMovableList) ys (mi_world m') \<and> list_all2 deep_equal ys new"
proof -
  let ?c = "lo_root (me_api env) key CMovableList" and ?w = "mi_world m"
  let ?d = "doc_view (me_api env) (w_doc ?w)"
  define s where "s = Some (SMovableList slot (Some sel) lo)"
  have kind: "lo_kind (me_api env) ?c = CMovableList" by (rule loro_document.root_kind [OF assms(1)])
  have child: "ld_movable_child ?d ?c i = None" for i
    using plain_no_movable assms(7) by (auto simp: shows_list_def)
  define dc where "dc = (\<lambda>x y e. diff_container ?d (me_slots env) (Some (me_infer env)) x y (Some e))"
  have ok: "\<forall>x\<in>set new. json_ok x" using assms(8) by (simp add: plain_item_def)
  have view: "ld_type ?d = lo_kind (me_api env)" "ld_root ?d = lo_root (me_api env)" by (simp_all add: doc_view_def)
  have inner: "diff_container ?d (me_slots env) (Some (me_infer env)) (JArray old) (JArray new) (Some ?c) s =
      diff_movable_list dc ?d old new ?c None sel"
    using diff_movable_item_schema [OF assms(8), of "me_slots env slot" ?d ?c dc old sel] assms(3) child
    unfolding diff_container.simps [of ?d "me_slots env" "Some (me_infer env)" "JArray old" "JArray new" "Some ?c" s]
    by (simp add: container_id_to_container_type_def view kind s_def id_selector_of_def item_schema_of_def dc_def Let_def)
  have diff: "diff_container ?d (me_slots env) (Some (me_infer env)) (JObject [(key, JArray old)])
      (JObject [(key, JArray new)]) None (me_schema env) =
    (if deep_equal (JArray old) (JArray new) then Inr [] else diff_movable_list dc ?d old new ?c None sel)"
    using inner
    by (simp add: diff_container.simps [of ?d "me_slots env" "Some (me_infer env)" "JObject [(key, JArray old)]"] assms(2)
        is_object_like_def diff_map_def object_entries_def diff_map_entry_def object_get_def bt_get_def
        field_container_type_def field_schema_def schema_fields_def is_value_of_container_type_def is_array_def
        is_object_def root_container_id_def view s_def and_then_def Let_def split: sum.splits)
  obtain changes w' ys where run: "diff_movable_list dc ?d old new ?c None sel = Inr changes"
      "apply_container_changes env ?c changes ?w = (Inr (), w')" "shows_list (me_api env) ?c ys w'"
      "list_all2 deep_equal ys new" "\<forall>ch\<in>set changes. ch_container ch = Some ?c"
    using movable_list_run [OF assms(1) kind assms(7) ok assms(9-11), of dc] by blast
  have "\<exists>w' ys. update_loro env (JObject [(key, JArray new)]) (m\<lparr>mi_syncing := True\<rparr>) =
      (Inr (), m\<lparr>mi_syncing := True, mi_world := w'\<rparr>) \<and> shows_list (me_api env) ?c ys w' \<and> list_all2 deep_equal ys new"
  proof (cases "deep_equal (JArray old) (JArray new)")
    case True
    then have "list_all2 deep_equal old new" by (auto simp: list_all2_iff list_all_iff)
    moreover have "apply_changes_to_loro env [] ?w = (Inr (), ?w)"
      by (simp add: apply_changes_to_loro_def group_changes_def ok_def)
    ultimately show ?thesis
      using True diff assms(5,7) by (intro exI [of _ ?w] exI [of _ old]) (simp add: update_loro_def)
  next
    case False
    then have changes: "diff_container ?d (me_slots env) (Some (me_infer env)) (JObject [(key, JArray old)])
        (JObject [(key, JArray new)]) None (me_schema env) = Inr changes"
      by (simp only: diff False run(1) if_False)
    have "update_loro env (JObject [(key, JArray new)]) (m\<lparr>mi_syncing := True\<rparr>) =
        (Inr (), m\<lparr>mi_syncing := True, mi_world := w'\<rparr>)"
      using changes apply_one_container [OF run(5,2)] by (simp add: update_loro_def assms(5))
    then show ?thesis using run(3,4) by blast
  qed
  then show ?thesis
    using set_state_accepted [of m env "\<lambda>_. JObject [(key, JArray new)]" tags, OF assms(4,6)]
    by (auto simp: fenced_update_def)
qed

theorem set_state_writes_list_witness:
  "\<exists>m' ys. set_state (demo_env (SRoot [([1], SMovableList 0 (Some word_id) default_options)] default_options) (\<lambda>_. None))
      (\<lambda>_. JObject [([1], JArray [JString [7], JString [8]])]) None
      \<lparr>mi_world = list_world (RootId [1] CMovableList) [LString [5], LString [7]],
       mi_state = JObject [([1], JArray [JString [5], JString [7]])], mi_syncing = False, mi_subscribers = [],
       mi_next_subscriber_id = 0, mi_notified = []\<rparr> = (Inr (), m') \<and>
    shows_list mem_api (RootId [1] CMovableList) ys (mi_world m') \<and> list_all2 deep_equal ys [JString [7], JString [8]]"
proof -
  let ?env = "demo_env (SRoot [([1], SMovableList 0 (Some word_id) default_options)] default_options) (\<lambda>_. None)"
  let ?m = "\<lparr>mi_world = list_world (RootId [1] CMovableList) [LString [5], LString [7]],
       mi_state = JObject [([1], JArray [JString [5], JString [7]])], mi_syncing = False, mi_subscribers = [],
       mi_next_subscriber_id = 0, mi_notified = []\<rparr>"
  have "order_kept word_id [JString [5], JString [7]] [JString [7], JString [8]]"
    by (simp add: order_kept_def stays_def was_at_def select_id_def word_id_def upt_rec)
  moreover have "accepts ?env (JObject [([1], JArray [JString [7], JString [8]])])"
    by (simp add: accepts_def demo_env_def validate_schema.simps default_options_def custom_errors_def prefixed_errors_def
        bt_get_def bt_keys_def unless_error_def is_array_def)
  ultimately show ?thesis
    using set_state_writes_list [of ?env mem_live "[1]" 0 word_id default_options default_options ?m
        "[JString [5], JString [7]]" "[JString [7], JString [8]]" None]
      list_world_shows [of "RootId [1] CMovableList" "[LString [5], LString [7]]"] mem.loro_document_axioms
    by (simp add: demo_env_def plain_item_def is_object_def is_array_def ids_distinct_def all_ids_def select_id_def word_id_def)
      blast
qed

end
