(* ===== verification/Document_Schema.thy ===== *)
theory Document_Schema
  imports Mirror_Sync
begin

text \<open>
  \<^verbatim>\<open>crates/vt-store/src/document_schema.rs\<close>: the two kinds of block documents, their schemas, and the
  golden ancestor from which every document of a kind starts; with the schema epoch of a document,
  from \<^verbatim>\<open>editor_bridge.rs\<close>. The accessors of \<^verbatim>\<open>serde_json::Value\<close> that the block documents use are at
  the start. A panic (\<^verbatim>\<open>expect\<close>, or writing through an index that does not fit) is \<open>None\<close>.
\<close>

section \<open>Access to JSON values\<close>

definition member :: "ustring \<Rightarrow> json \<Rightarrow> json option" where
  "member key v = (case v of JObject m \<Rightarrow> bt_get m key | _ \<Rightarrow> None)"

definition as_str :: "json \<Rightarrow> ustring option" where
  "as_str v = (case v of JString s \<Rightarrow> Some s | _ \<Rightarrow> None)"

definition as_array :: "json \<Rightarrow> json list option" where
  "as_array v = (case v of JArray xs \<Rightarrow> Some xs | _ \<Rightarrow> None)"

definition as_object :: "json \<Rightarrow> (ustring \<times> json) list option" where
  "as_object v = (case v of JObject m \<Rightarrow> Some m | _ \<Rightarrow> None)"

definition as_bool :: "json \<Rightarrow> bool option" where
  "as_bool v = (case v of JBool b \<Rightarrow> Some b | _ \<Rightarrow> None)"

definition str_member :: "ustring \<Rightarrow> json \<Rightarrow> ustring option" where
  "str_member key v = Option.bind (member key v) as_str"

text \<open>\<^verbatim>\<open>v[key]\<close> as a place: an absent key is \<^verbatim>\<open>null\<close>; \<open>assign\<close> is \<^verbatim>\<open>v[key] = x\<close>.\<close>

definition place :: "ustring \<Rightarrow> json \<Rightarrow> json" where
  "place key v = (case member key v of None \<Rightarrow> JNull | Some x \<Rightarrow> x)"

definition assign :: "ustring \<Rightarrow> json \<Rightarrow> json \<Rightarrow> json option" where
  "assign key x v =
     (case v of
        JObject m \<Rightarrow> Some (JObject (bt_insert key x m))
      | JNull \<Rightarrow> Some (JObject [(key, x)])
      | _ \<Rightarrow> None)"

definition object :: "(ustring \<times> json) list \<Rightarrow> json" where
  "object entries = JObject (bt_collect entries)"

lemma accessor_simps [simp]:
  "as_str (JString s) = Some s" "as_array (JArray xs) = Some xs" "as_object (JObject m) = Some m"
  "as_bool (JBool b) = Some b" "member key (JObject m) = bt_get m key"
  by (simp_all add: as_str_def as_array_def as_object_def as_bool_def member_def)

lemma as_str_Some [simp]: "as_str v = Some s \<longleftrightarrow> v = JString s"
  by (auto simp: as_str_def split: json.splits)

lemma as_object_Some [simp]: "as_object v = Some m \<longleftrightarrow> v = JObject m"
  by (auto simp: as_object_def split: json.splits)

lemma as_array_Some [simp]: "as_array v = Some xs \<longleftrightarrow> v = JArray xs"
  by (auto simp: as_array_def split: json.splits)

lemma str_member_Some: "str_member key v = Some s \<longleftrightarrow> member key v = Some (JString s)"
  by (auto simp: str_member_def bind_eq_Some_conv)

lemma str_member_object: "str_member key (JObject m) = Option.bind (bt_get m key) as_str"
  by (simp add: str_member_def)

section \<open>Kinds\<close>

datatype document_kind = Transcript | Note

definition kind_as_str :: "document_kind \<Rightarrow> ustring" where
  "kind_as_str k = (case k of Transcript \<Rightarrow> lit ''transcript'' | Note \<Rightarrow> lit ''note'')"

definition kind_parse :: "ustring \<Rightarrow> document_kind option" where
  "kind_parse v =
     (if v = lit ''transcript'' then Some Transcript else if v = lit ''note'' then Some Note else None)"

lemma kind_parse_as_str: "kind_parse (kind_as_str k) = Some k"
  by (cases k) (simp_all add: kind_as_str_def kind_parse_def)

definition block_schema_epoch :: int where "block_schema_epoch = 2"
definition current_schema_epoch :: nat where "current_schema_epoch = 1"
definition pre_epoch_field :: nat where "pre_epoch_field = 1"

definition document_meta :: ustring where "document_meta = lit ''zulangue_document_meta''"
definition purge_receipts :: ustring where "purge_receipts = lit ''zulangue_session_purge_receipts''"
definition schema_epoch_key :: ustring where "schema_epoch_key = lit ''schema_epoch''"
definition document_kind_key :: ustring where "document_kind_key = lit ''kind''"
definition transcript_utterances :: ustring where "transcript_utterances = lit ''utterances''"
definition note_root :: ustring where "note_root = lit ''root''"

definition supported_lanes :: "ustring list" where
  "supported_lanes = map lit [''en'', ''th'', ''ja'', ''ko'', ''fr'', ''es'', ''de'', ''zh'']"

section \<open>Schemas\<close>

text \<open>Both schemas have one slot, number 0: the utterance of the transcript's list, and the node of
  the note's children, which is the recursive reference.\<close>

definition schema_fields_of :: "(ustring \<times> schema) list \<Rightarrow> schema" where
  "schema_fields_of entries = SMap (bt_collect entries) default_options"

definition shared_root_fields :: "(ustring \<times> schema) list" where
  "shared_root_fields = [(document_meta, schema_fields_of []), (purge_receipts, schema_fields_of [])]"

definition utterance_schema :: schema where
  "utterance_schema =
     schema_fields_of
       [(lit ''id'', SString required_options), (lit ''owner'', SString required_options),
        (lit ''text'', SText default_options),
        (lit ''lanes'', schema_fields_of (map (\<lambda>lane. (lane, SText default_options)) supported_lanes))]"

definition utterance_id :: id_selector where
  "utterance_id item = str_member (lit ''id'') item"

definition transcript_schema :: schema where
  "transcript_schema =
     SRoot (bt_collect (shared_root_fields @ [(transcript_utterances, SList 0 (Some utterance_id) default_options)]))
       default_options"

definition transcript_slots :: slots where
  "transcript_slots = [0 \<mapsto> utterance_schema]"

definition node_id :: id_selector where
  "node_id item = Option.bind (member (lit ''$'') item) (str_member (lit ''id''))"

definition note_node_schema :: schema where
  "note_node_schema =
     schema_fields_of
       [(lit ''$'', schema_fields_of []), (lit ''text'', SText default_options),
        (lit ''children'', SMovableList 0 (Some node_id) default_options)]"

definition note_schema :: schema where
  "note_schema = SRoot (bt_collect (shared_root_fields @ [(note_root, note_node_schema)])) default_options"

definition note_slots :: "slots option" where
  "note_slots = slot_fill (\<lambda>_. None) 0 note_node_schema"

section \<open>The golden ancestor\<close>

definition slot_deep :: "('d, 'c) loro_api \<Rightarrow> 'd \<Rightarrow> 'c slot \<Rightarrow> loro_value" where
  "slot_deep api d s = (case s of Plain v \<Rightarrow> v | Child c \<Rightarrow> lo_deep api d c)"

definition meta_container :: "('d, 'c) loro_api \<Rightarrow> 'c" where
  "meta_container api = lo_root api document_meta CMap"

text \<open>The content of \<^verbatim>\<open>build_golden_bytes\<close>; \<open>fresh\<close> is \<^verbatim>\<open>LoroDoc::new()\<close>.\<close>

definition golden_document :: "('d, 'c) loro_api \<Rightarrow> 'd \<Rightarrow> document_kind \<Rightarrow> 'd option" where
  "golden_document api fresh kind =
     Option.bind (lo_map_insert api fresh (meta_container api) schema_epoch_key (LI64 block_schema_epoch)) (\<lambda>d.
     Option.bind (lo_map_insert api d (meta_container api) document_kind_key (LString (kind_as_str kind))) (\<lambda>d.
     if kind \<noteq> Note then Some d
     else
       (let root = lo_root api note_root CMap in
        Option.bind (lo_map_insert_container api d root (lit ''$'') CMap) (\<lambda>(d, node_meta).
        Option.bind (lo_map_insert api d node_meta (lit ''id'') (LString (lit ''root''))) (\<lambda>d.
        map_option fst (lo_map_insert_container api d root (lit ''children'') CMovableList))))))"

definition document_kind_of :: "('d, 'c) loro_api \<Rightarrow> 'd \<Rightarrow> document_kind option" where
  "document_kind_of api d =
     (case bt_get (lo_map api d (meta_container api)) document_kind_key of
        None \<Rightarrow> None
      | Some s \<Rightarrow> (case slot_deep api d s of LString k \<Rightarrow> kind_parse k | _ \<Rightarrow> None))"

section \<open>The epoch of a document\<close>

definition schema_epoch_of :: "('d, 'c) loro_api \<Rightarrow> 'd \<Rightarrow> nat" where
  "schema_epoch_of api d =
     (case bt_get (lo_map api d (meta_container api)) schema_epoch_key of
        None \<Rightarrow> pre_epoch_field
      | Some s \<Rightarrow>
          (case slot_deep api d s of
             LI64 epoch \<Rightarrow> if 0 \<le> epoch then nat epoch else pre_epoch_field
           | _ \<Rightarrow> pre_epoch_field))"

definition stamp_schema_epoch :: "('d, 'c) loro_api \<Rightarrow> 'd \<Rightarrow> 'd" where
  "stamp_schema_epoch api d =
     (if bt_get (lo_map api d (meta_container api)) schema_epoch_key \<noteq> None then d
      else
        (case lo_map_insert api d (meta_container api) schema_epoch_key (LI64 (int current_schema_epoch)) of
           None \<Rightarrow> d | Some d' \<Rightarrow> d'))"

lemma lit_keys_differ [simp]:
  "schema_epoch_key \<noteq> document_kind_key" "document_kind_key \<noteq> schema_epoch_key"
  by (simp_all add: schema_epoch_key_def document_kind_key_def)

text \<open>What a new document declares. Whatever the document store (any \<open>loro_document\<close> whose named
  root maps are there from the start, empty and separate), building the golden ancestor of a kind succeeds;
  the document then declares that kind and the block epoch, which stamping the epoch of the flat
  documents does not overwrite, and a note has its root node in place: the stable identifier
  \<^verbatim>\<open>root\<close> and an empty movable list of children, both new containers of their own.\<close>

theorem golden_document_declares:
  assumes "loro_document api live"
    and "\<forall>name. lo_root api name CMap \<in> live fresh \<and> lo_map api fresh (lo_root api name CMap) = []"
    and "lo_root api note_root CMap \<noteq> meta_container api"
  shows "\<exists>d. golden_document api fresh kind = Some d \<and> document_kind_of api d = Some kind \<and>
    schema_epoch_of api d = 2 \<and> stamp_schema_epoch api d = d \<and>
    (kind = Note \<longrightarrow>
       (\<exists>m ch. lo_map api d (lo_root api note_root CMap) = [(lit ''$'', Child m), (lit ''children'', Child ch)] \<and>
          m \<noteq> ch \<and> lo_kind api m = CMap \<and> lo_kind api ch = CMovableList \<and>
          lo_map api d m = [(lit ''id'', Plain (LString (lit ''root'')))] \<and> lo_list api d ch = []))"
proof -
  let ?meta = "meta_container api" and ?root = "lo_root api note_root CMap"
  have kinds: "lo_kind api ?meta = CMap" "lo_kind api ?root = CMap"
    using loro_document.root_kind [OF assms(1)] by (simp_all add: meta_container_def)
  have creatable: "creatable CMap" "creatable CMovableList" by (simp_all add: creatable_def)
  obtain d1 where d1: "lo_map_insert api fresh ?meta schema_epoch_key (LI64 block_schema_epoch) = Some d1"
      "only_changes api live fresh d1 ?meta"
      "lo_map api d1 ?meta = bt_insert schema_epoch_key (Plain (LI64 block_schema_epoch)) (lo_map api fresh ?meta)"
    using loro_document.map_insert [OF assms(1) kinds(1)] by blast
  obtain d2 where d2: "lo_map_insert api d1 ?meta document_kind_key (LString (kind_as_str kind)) = Some d2"
      "only_changes api live d1 d2 ?meta"
      "lo_map api d2 ?meta = bt_insert document_kind_key (Plain (LString (kind_as_str kind))) (lo_map api d1 ?meta)"
    using loro_document.map_insert [OF assms(1) kinds(1)] by blast
  have fresh: "lo_map api fresh ?meta = []" "lo_map api fresh ?root = []" "?meta \<in> live fresh" "?root \<in> live fresh"
    using assms(2) by (simp_all add: meta_container_def)
  have declares: "document_kind_of api d = Some kind \<and> schema_epoch_of api d = 2 \<and> stamp_schema_epoch api d = d"
    if "lo_map api d ?meta = lo_map api d2 ?meta" for d
    using that d1(3) d2(3) fresh(1)
    by (auto simp: document_kind_of_def schema_epoch_of_def stamp_schema_epoch_def slot_deep_def kind_parse_as_str
        block_schema_epoch_def)
  show ?thesis
  proof (cases "kind = Note")
    case False
    then show ?thesis using declares [of d2] d1(1) d2(1) by (simp add: golden_document_def)
  next
    case True
    have live2: "live d2 = live fresh" "lo_map api d2 ?root = []"
      using d1(2) d2(2) fresh(2) assms(3) by (auto simp: only_changes_def same_content_def)
    obtain d3 m where d3: "lo_map_insert_container api d2 ?root (lit ''$'') CMap = Some (d3, m)"
        "creates api live d2 d3 ?root CMap m" "lo_map api d3 ?root = bt_insert (lit ''$'') (Child m) (lo_map api d2 ?root)"
      using loro_document.map_insert_container [OF assms(1) kinds(2) creatable(1), of d2 "lit ''$''"] live2(1) fresh(4) by auto
    have m: "lo_kind api m = CMap" "m \<in> live d3" "m \<noteq> ?meta" "m \<noteq> ?root" "lo_map api d3 m = []"
      using d3(2) live2(1) fresh(3,4) by (auto simp: creates_def)
    obtain d4 where d4: "lo_map_insert api d3 m (lit ''id'') (LString (lit ''root'')) = Some d4"
        "only_changes api live d3 d4 m" "lo_map api d4 m = bt_insert (lit ''id'') (Plain (LString (lit ''root''))) (lo_map api d3 m)"
      using loro_document.map_insert [OF assms(1) m(1)] by blast
    have live4: "live d4 = live d3" "?root \<in> live d4" "?meta \<in> live d4"
      using d4(2) d3(2) live2(1) fresh(3,4) by (auto simp: only_changes_def creates_def)
    obtain d5 ch where d5: "lo_map_insert_container api d4 ?root (lit ''children'') CMovableList = Some (d5, ch)"
        "creates api live d4 d5 ?root CMovableList ch"
        "lo_map api d5 ?root = bt_insert (lit ''children'') (Child ch) (lo_map api d4 ?root)"
      using loro_document.map_insert_container [OF assms(1) kinds(2) creatable(2) live4(2)] by blast
    have ch: "ch \<noteq> m" "ch \<noteq> ?meta" "ch \<noteq> ?root"
      using d5(2) live4 m(2) by (auto simp: creates_def)
    have "lo_map api d5 ?meta = lo_map api d2 ?meta"
      using d5(2) d4(2) d3(2) assms(3) ch m by (auto simp: creates_def only_changes_def same_content_def)
    moreover have "lo_map api d5 m = [(lit ''id'', Plain (LString (lit ''root'')))]"
      using d5(2) d4(3) m ch by (auto simp: creates_def same_content_def)
    moreover have "lo_map api d4 ?root = [(lit ''$'', Child m)]"
      using d4(2) d3(3) live2(2) m(4) by (auto simp: only_changes_def same_content_def)
    then have "lo_map api d5 ?root = [(lit ''$'', Child m), (lit ''children'', Child ch)]"
      using d5(3) by (simp add: lit_def)
    ultimately show ?thesis
      using declares [of d5] d1(1) d2(1) d3(1) d4(1) d5(1,2) m(1) ch(1) True
      by (auto simp: golden_document_def Let_def creates_def)
  qed
qed

theorem golden_document_declares_witness:
  "\<exists>d. golden_document mem_api (mem_empty []) Note = Some d \<and> document_kind_of mem_api d = Some Note \<and>
     schema_epoch_of mem_api d = 2"
proof -
  have "\<exists>d. golden_document mem_api (mem_empty []) Note = Some d \<and> document_kind_of mem_api d = Some Note \<and>
    schema_epoch_of mem_api d = 2 \<and> stamp_schema_epoch mem_api d = d \<and>
    (Note = Note \<longrightarrow>
       (\<exists>m ch. lo_map mem_api d (lo_root mem_api note_root CMap) = [(lit ''$'', Child m), (lit ''children'', Child ch)] \<and>
          m \<noteq> ch \<and> lo_kind mem_api m = CMap \<and> lo_kind mem_api ch = CMovableList \<and>
          lo_map mem_api d m = [(lit ''id'', Plain (LString (lit ''root'')))] \<and> lo_list mem_api d ch = []))"
    by (rule golden_document_declares [OF mem.loro_document_axioms])
      (simp_all add: mem_live_root mem_empty_def meta_container_def note_root_def document_meta_def)
  then show ?thesis by blast
qed

end
