(* ===== verification/Transcript_Projection.thy ===== *)
theory Transcript_Projection
  imports Document_Schema
begin

text \<open>
  \<^verbatim>\<open>crates/vt-store/src/transcript_projection.rs\<close>: the only calls through which the machine and the
  user write a transcript. Each call edits a copy of the application state of the mirror and hands it
  to \<^verbatim>\<open>set_state\<close>; \<open>None\<close> is a panic (\<^verbatim>\<open>expect\<close>, an index that does not fit, a slice out of range).
  A failure of the mirror carries the error itself instead of its text.
\<close>

section \<open>Data\<close>

datatype projection_error =
    LaneOutOfScope ustring
  | BlockNotFound ustring
  | EmptyBlockId
  | SessionSliceInterleaved ustring
  | ProjectionMirror mirror_error

record utterance_block =
  ub_id :: ustring
  ub_owner :: ustring
  ub_text :: ustring
  ub_lanes :: "(ustring \<times> ustring) list"

record machine_block_write =
  mw_id :: ustring
  mw_owner :: ustring
  mw_text :: ustring
  mw_lanes :: "(ustring \<times> ustring) list"

type_synonym ('d, 'c, 'a) call = "((projection_error + 'a) \<times> ('d, 'c) mirror) option"

definition user_owner :: ustring where "user_owner = lit ''user''"

definition capture_owner :: "ustring \<Rightarrow> ustring" where
  "capture_owner session = lit ''capture:'' @ session"

definition has_id :: "ustring \<Rightarrow> json \<Rightarrow> bool" where
  "has_id ident item \<longleftrightarrow> str_member (lit ''id'') item = Some ident"

definition str_or_empty :: "ustring option \<Rightarrow> ustring" where
  "str_or_empty s = (case s of None \<Rightarrow> [] | Some x \<Rightarrow> x)"

definition block_owner :: "json \<Rightarrow> ustring" where
  "block_owner item = str_or_empty (str_member (lit ''owner'') item)"

text \<open>\<^verbatim>\<open>json!({"id": ..., "owner": ..., "text": ..., "lanes": ...})\<close>.\<close>

definition lanes_json :: "(ustring \<times> ustring) list \<Rightarrow> json" where
  "lanes_json lanes = JObject (map (\<lambda>e. (fst e, JString (snd e))) lanes)"

definition block_json :: "ustring \<Rightarrow> ustring \<Rightarrow> ustring \<Rightarrow> (ustring \<times> ustring) list \<Rightarrow> json" where
  "block_json ident owner txt lanes =
     object [(lit ''id'', JString ident), (lit ''owner'', JString owner), (lit ''text'', JString txt),
             (lit ''lanes'', lanes_json lanes)]"

section \<open>Reading\<close>

definition lane_view :: "(ustring \<times> json) list \<Rightarrow> (ustring \<times> ustring) list" where
  "lane_view lanes = bt_collect (List.map_filter (\<lambda>(k, v). map_option (\<lambda>s. (k, s)) (as_str v)) lanes)"

definition block_view :: "json \<Rightarrow> utterance_block option" where
  "block_view item =
     map_option
       (\<lambda>ident. \<lparr>ub_id = ident, ub_owner = block_owner item,
                 ub_text = str_or_empty (str_member (lit ''text'') item),
                 ub_lanes = (case Option.bind (member (lit ''lanes'') item) as_object of
                               None \<Rightarrow> [] | Some lanes \<Rightarrow> lane_view lanes)\<rparr>)
       (str_member (lit ''id'') item)"

definition items_of :: "json \<Rightarrow> json list" where
  "items_of state = (case Option.bind (member transcript_utterances state) as_array of None \<Rightarrow> [] | Some xs \<Rightarrow> xs)"

definition blocks :: "('d, 'c) mirror \<Rightarrow> utterance_block list" where
  "blocks m = List.map_filter block_view (items_of (mi_state m))"

definition refresh :: "('d, 'c) mirror_env \<Rightarrow> ('d, 'c) mirror \<Rightarrow> utterance_block list \<times> ('d, 'c) mirror" where
  "refresh env m = (let m' = snd (sync_from_loro env m) in (blocks m', m'))"

section \<open>The state that is edited\<close>

text \<open>\<^verbatim>\<open>ensure_items\<close> gives the items to be edited; \<open>put_items\<close> is the edited state.\<close>

definition ensure_items :: "json \<Rightarrow> ((ustring \<times> json) list \<times> json list) option" where
  "ensure_items state =
     (case Option.bind (member transcript_utterances state) as_array of
        Some items \<Rightarrow> map_option (\<lambda>m. (m, items)) (as_object state)
      | None \<Rightarrow>
          Option.bind (assign transcript_utterances (JArray []) state)
            (\<lambda>s. map_option (\<lambda>m. (m, [])) (as_object s)))"

definition put_items :: "(ustring \<times> json) list \<Rightarrow> json list \<Rightarrow> json" where
  "put_items m items = JObject (bt_insert transcript_utterances (JArray items) m)"

definition validate_lanes :: "ustring list \<Rightarrow> projection_error + unit" where
  "validate_lanes lanes =
     (case filter (\<lambda>l. l \<notin> set supported_lanes) lanes of [] \<Rightarrow> Inr () | l # _ \<Rightarrow> Inl (LaneOutOfScope l))"

definition commit ::
    "('d, 'c) mirror_env \<Rightarrow> json \<Rightarrow> ustring \<Rightarrow> ('d, 'c) mirror \<Rightarrow> (projection_error + unit) \<times> ('d, 'c) mirror" where
  "commit env state origin m =
     (case set_state env (\<lambda>_. state) (Some [origin]) m of
        (Inl e, m') \<Rightarrow> (Inl (ProjectionMirror e), m')
      | (Inr _, m') \<Rightarrow> (Inr (), m'))"

text \<open>\<^verbatim>\<open>self.commit(..)?; Ok(n)\<close>.\<close>

definition commit_count ::
    "('d, 'c) mirror_env \<Rightarrow> json \<Rightarrow> ustring \<Rightarrow> 'a \<Rightarrow> ('d, 'c) mirror \<Rightarrow> (projection_error + 'a) \<times> ('d, 'c) mirror" where
  "commit_count env state origin n m =
     (case commit env state origin m of (r, m') \<Rightarrow> (and_then r (\<lambda>_. Inr n), m'))"

text \<open>An edited list, committed; the edit may panic or refuse.\<close>

definition committed ::
    "('d, 'c) mirror_env \<Rightarrow> (ustring \<times> json) list \<Rightarrow> ustring \<Rightarrow> ('d, 'c) mirror
     \<Rightarrow> (projection_error + json list) option \<Rightarrow> ('d, 'c, unit) call" where
  "committed env obj origin m edited =
     (case edited of
        None \<Rightarrow> None
      | Some (Inl e) \<Rightarrow> Some (Inl e, m)
      | Some (Inr items) \<Rightarrow> Some (commit env (put_items obj items) origin m))"

text \<open>\<^verbatim>\<open>iter_mut().find(..)\<close> and a change of what it finds.\<close>

fun update_first :: "('a \<Rightarrow> bool) \<Rightarrow> ('a \<Rightarrow> 'a) \<Rightarrow> 'a list \<Rightarrow> 'a list" where
  "update_first p f [] = []"
| "update_first p f (x # xs) = (if p x then f x # xs else x # update_first p f xs)"

definition change_first :: "(json \<Rightarrow> bool) \<Rightarrow> (json \<Rightarrow> json option) \<Rightarrow> json list \<Rightarrow> json list option" where
  "change_first p f items =
     (case find p items of
        None \<Rightarrow> Some items
      | Some item \<Rightarrow> map_option (\<lambda>new. update_first p (\<lambda>_. new) items) (f item))"

section \<open>Machine and user\<close>

definition update_existing :: "machine_block_write \<Rightarrow> ustring list \<Rightarrow> json \<Rightarrow> json option" where
  "update_existing w frozen item =
     Option.bind (assign (lit ''text'') (JString (mw_text w)) item) (\<lambda>item.
     Option.bind (as_object (place (lit ''lanes'') item)) (\<lambda>lanes.
       assign (lit ''lanes'')
         (JObject (fold (\<lambda>(lane, txt) l. if lane \<in> set frozen then l else bt_insert lane (JString txt) l)
                     (mw_lanes w) lanes)) item))"

definition upsert_items ::
    "machine_block_write \<Rightarrow> ustring list \<Rightarrow> ustring option \<Rightarrow> json list \<Rightarrow> (projection_error + json list) option" where
  "upsert_items w frozen insert_before items =
     (if find (has_id (mw_id w)) items \<noteq> None
      then map_option Inr (change_first (has_id (mw_id w)) (update_existing w frozen) items)
      else
        (let block = block_json (mw_id w) (mw_owner w) (mw_text w) (mw_lanes w) in
         case insert_before of
           None \<Rightarrow> Some (Inr (items @ [block]))
         | Some anchor \<Rightarrow>
             (case position (has_id anchor) items of
                None \<Rightarrow> Some (Inl (BlockNotFound anchor))
              | Some i \<Rightarrow> Some (Inr (insert_at i block items)))))"

definition machine_upsert_block ::
    "('d, 'c) mirror_env \<Rightarrow> machine_block_write \<Rightarrow> ustring list \<Rightarrow> ustring option \<Rightarrow> ('d, 'c) mirror
     \<Rightarrow> ('d, 'c, unit) call" where
  "machine_upsert_block env w frozen insert_before m =
     (if mw_id w = [] then Some (Inl EmptyBlockId, m)
      else
        (case validate_lanes (bt_keys (mw_lanes w)) of
           Inl e \<Rightarrow> Some (Inl e, m)
         | Inr _ \<Rightarrow>
             Option.bind (ensure_items (mi_state m)) (\<lambda>(obj, items).
               committed env obj (lit ''machine'') m (upsert_items w frozen insert_before items))))"

definition mutate_items :: "ustring \<Rightarrow> (json \<Rightarrow> json option) \<Rightarrow> json list \<Rightarrow> (projection_error + json list) option" where
  "mutate_items block_id mutate items =
     (if find (has_id block_id) items = None then Some (Inl (BlockNotFound block_id))
      else map_option Inr (change_first (has_id block_id) mutate items))"

definition mutate_block ::
    "('d, 'c) mirror_env \<Rightarrow> ustring \<Rightarrow> ustring \<Rightarrow> (json \<Rightarrow> json option) \<Rightarrow> ('d, 'c) mirror \<Rightarrow> ('d, 'c, unit) call" where
  "mutate_block env block_id origin mutate m =
     Option.bind (ensure_items (mi_state m)) (\<lambda>(obj, items).
       committed env obj origin m (mutate_items block_id mutate items))"

definition set_lane :: "ustring \<Rightarrow> ustring \<Rightarrow> json \<Rightarrow> json option" where
  "set_lane lane txt item =
     Option.bind (assign lane (JString txt) (place (lit ''lanes'') item)) (\<lambda>lanes. assign (lit ''lanes'') lanes item)"

definition user_replace_lane ::
    "('d, 'c) mirror_env \<Rightarrow> ustring \<Rightarrow> ustring \<Rightarrow> ustring \<Rightarrow> ('d, 'c) mirror \<Rightarrow> ('d, 'c, unit) call" where
  "user_replace_lane env block_id lane txt m =
     (case validate_lanes [lane] of
        Inl e \<Rightarrow> Some (Inl e, m)
      | Inr _ \<Rightarrow> mutate_block env block_id (lit ''user'') (set_lane lane txt) m)"

definition user_replace_text ::
    "('d, 'c) mirror_env \<Rightarrow> ustring \<Rightarrow> ustring \<Rightarrow> ('d, 'c) mirror \<Rightarrow> ('d, 'c, unit) call" where
  "user_replace_text env block_id txt m =
     mutate_block env block_id (lit ''user'') (assign (lit ''text'') (JString txt)) m"

definition insert_annotation ::
    "('d, 'c) mirror_env \<Rightarrow> nat \<Rightarrow> ustring \<Rightarrow> ustring \<Rightarrow> ('d, 'c) mirror \<Rightarrow> ('d, 'c, unit) call" where
  "insert_annotation env index ident txt m =
     (if ident = [] then Some (Inl EmptyBlockId, m)
      else
        Option.bind (ensure_items (mi_state m)) (\<lambda>(obj, items).
          committed env obj (lit ''user'') m
            (Some (Inr (insert_at (min index (length items)) (block_json ident user_owner txt []) items)))))"

section \<open>Erasure and moves\<close>

definition purge_session_blocks ::
    "('d, 'c) mirror_env \<Rightarrow> ustring \<Rightarrow> ('d, 'c) mirror \<Rightarrow> ('d, 'c, nat) call" where
  "purge_session_blocks env session m =
     Option.bind (ensure_items (mi_state m)) (\<lambda>(obj, items).
       let kept = filter (\<lambda>item. str_member (lit ''owner'') item \<noteq> Some (capture_owner session)) items;
           removed = length items - length kept
       in if removed = 0 then Some (Inr 0, m)
          else Some (commit_count env (put_items obj kept) (lit ''purge'') removed m))"

text \<open>The loop over the trailing annotations.\<close>

function extend_end :: "json list \<Rightarrow> nat \<Rightarrow> nat" where
  "extend_end items e =
     (if e + 1 < length items \<and> block_owner (items ! (e + 1)) = user_owner then extend_end items (e + 1) else e)"
  by pat_completeness auto

termination extend_end
  by (relation "measure (\<lambda>(items, e). length items - e)") auto

declare extend_end.simps [simp del]

definition session_slice_range :: "json list \<Rightarrow> ustring \<Rightarrow> projection_error + (nat \<times> nat) option" where
  "session_slice_range items session =
     (let owner = capture_owner session in
      case filter (\<lambda>i. block_owner (items ! i) = owner) [0..<length items] of
        [] \<Rightarrow> Inr None
      | start # later \<Rightarrow>
          (let last_capture = (if later = [] then start else last later) in
           if \<exists>item\<in>set (drop start (take (last_capture + 1) items)).
                block_owner item \<noteq> owner \<and> block_owner item \<noteq> user_owner
           then Inl (SessionSliceInterleaved session)
           else Inr (Some (start, extend_end items last_capture + 1))))"

definition session_slice :: "ustring \<Rightarrow> ('d, 'c) mirror \<Rightarrow> (projection_error + utterance_block list) option" where
  "session_slice session m =
     (case Option.bind (member transcript_utterances (mi_state m)) as_array of
        None \<Rightarrow> Some (Inr [])
      | Some items \<Rightarrow>
          (case session_slice_range items session of
             Inl e \<Rightarrow> Some (Inl e)
           | Inr None \<Rightarrow> Some (Inr [])
           | Inr (Some (a, b)) \<Rightarrow>
               (if length (blocks m) < b then None else Some (Inr (drop a (take b (blocks m)))))))"

fun splice_blocks :: "utterance_block list \<Rightarrow> nat \<Rightarrow> nat \<Rightarrow> json list \<Rightarrow> nat \<times> json list" where
  "splice_blocks [] cursor inserted items = (inserted, items)"
| "splice_blocks (b # bs) cursor inserted items =
     (if \<exists>item\<in>set items. has_id (ub_id b) item then splice_blocks bs cursor inserted items
      else splice_blocks bs (cursor + 1) (inserted + 1)
             (insert_at cursor (block_json (ub_id b) (ub_owner b) (ub_text b) (ub_lanes b)) items))"

definition splice_session_slice ::
    "('d, 'c) mirror_env \<Rightarrow> utterance_block list \<Rightarrow> ustring option \<Rightarrow> ('d, 'c) mirror \<Rightarrow> ('d, 'c, nat) call" where
  "splice_session_slice env bs before_block_id m =
     (if \<exists>b\<in>set bs. ub_id b = [] then Some (Inl EmptyBlockId, m)
      else
        (case validate_lanes (concat (map (\<lambda>b. bt_keys (ub_lanes b)) bs)) of
           Inl e \<Rightarrow> Some (Inl e, m)
         | Inr _ \<Rightarrow>
             Option.bind (ensure_items (mi_state m)) (\<lambda>(obj, items).
               case (case before_block_id of
                       None \<Rightarrow> Inr (length items)
                     | Some anchor \<Rightarrow> ok_or (BlockNotFound anchor) (position (has_id anchor) items)) of
                 Inl e \<Rightarrow> Some (Inl e, m)
               | Inr cursor \<Rightarrow>
                   (case splice_blocks bs cursor 0 items of
                      (inserted, items') \<Rightarrow>
                        if inserted = 0 then Some (Inr 0, m)
                        else Some (commit_count env (put_items obj items') (lit ''move'') inserted m)))))"

definition remove_session_slice ::
    "('d, 'c) mirror_env \<Rightarrow> ustring \<Rightarrow> ('d, 'c) mirror \<Rightarrow> ('d, 'c, nat) call" where
  "remove_session_slice env session m =
     Option.bind (ensure_items (mi_state m)) (\<lambda>(obj, items).
       case session_slice_range items session of
         Inl e \<Rightarrow> Some (Inl e, m)
       | Inr None \<Rightarrow> Some (Inr 0, m)
       | Inr (Some (a, b)) \<Rightarrow>
           Some (commit_count env (put_items obj (take a items @ drop b items)) (lit ''move'') (b - a) m))"

text \<open>\<^verbatim>\<open>TranscriptProjection::open\<close>.\<close>

definition transcript_env :: "('d, 'c) loro_api \<Rightarrow> ('d, 'c) mirror_env" where
  "transcript_env api =
     \<lparr>me_api = api, me_slots = transcript_slots, me_schema = Some transcript_schema, me_validate_updates = True,
      me_infer = no_infer\<rparr>"

definition open_transcript :: "('d, 'c) loro_api \<Rightarrow> nat \<Rightarrow> 'd \<Rightarrow> projection_error + ('d, 'c) mirror" where
  "open_transcript api depth doc = map_err ProjectionMirror (mirror_new (transcript_env api) depth doc None)"

end
