(* ===== verification/Transcript_Laws.thy ===== *)
theory Transcript_Laws
  imports Transcript_Projection
begin

text \<open>
  The transcript facade against an abstract transcript, a list of typed blocks. \<open>block_view\<close> is the
  abstraction; under the invariant \<open>state_ok\<close> every call of the facade refines the operation of the
  same name on blocks, keeps the invariant, does not panic and is not refused by the schema.
\<close>

section \<open>Well-formed items\<close>

definition lanes_ok :: "(ustring \<times> json) list \<Rightarrow> bool" where
  "lanes_ok l \<longleftrightarrow> bt_wf l \<and> (\<forall>lane\<in>set supported_lanes. case bt_get l lane of
     None \<Rightarrow> True | Some v \<Rightarrow> v = JNull \<or> is_string v)"

definition item_ok :: "json \<Rightarrow> bool" where
  "item_ok j \<longleftrightarrow>
     (\<exists>m i owner l. j = JObject m \<and> bt_wf m \<and> bt_get m (lit ''id'') = Some (JString i) \<and>
        bt_get m (lit ''owner'') = Some (JString owner) \<and> bt_get m (lit ''lanes'') = Some (JObject l) \<and> lanes_ok l \<and>
        (case bt_get m (lit ''text'') of None \<Rightarrow> True | Some v \<Rightarrow> v = JNull \<or> is_string v))"

lemma item_okE:
  assumes "item_ok j"
  obtains m i owner l where "j = JObject m" "bt_wf m" "bt_get m (lit ''id'') = Some (JString i)"
    "bt_get m (lit ''owner'') = Some (JString owner)" "bt_get m (lit ''lanes'') = Some (JObject l)" "lanes_ok l"
    "case bt_get m (lit ''text'') of None \<Rightarrow> True | Some v \<Rightarrow> v = JNull \<or> is_string v"
  using assms unfolding item_ok_def by blast

definition the_view :: "json \<Rightarrow> utterance_block" where
  "the_view j = the (block_view j)"

lemma block_view_ok: "item_ok j \<Longrightarrow> block_view j = Some (the_view j)"
  by (auto simp: item_ok_def the_view_def block_view_def str_member_object)

lemma view_id: "item_ok j \<Longrightarrow> has_id i j \<longleftrightarrow> ub_id (the_view j) = i"
  by (auto simp: item_ok_def the_view_def block_view_def str_member_object has_id_def)

lemma view_owner: "item_ok j \<Longrightarrow> block_owner j = ub_owner (the_view j)"
  by (auto simp: item_ok_def the_view_def block_view_def str_member_object)

lemma view_owner_str: "item_ok j \<Longrightarrow> str_member (lit ''owner'') j = Some (ub_owner (the_view j))"
  by (auto simp: item_ok_def the_view_def block_view_def str_member_object block_owner_def str_or_empty_def)

lemma map_filter_view: "\<forall>x\<in>set xs. item_ok x \<Longrightarrow> List.map_filter block_view xs = map the_view xs"
  by (induction xs) (simp_all add: List.map_filter_simps block_view_ok)

section \<open>Lanes\<close>

lemma lane_view_run:
  assumes "bt_wf acc" "distinct (map fst l)" "\<forall>k\<in>fst ` set l. bt_get acc k = None"
  shows "bt_wf (fold (\<lambda>(k, v) m. bt_insert k v m) (List.map_filter (\<lambda>(k, v). map_option (\<lambda>s. (k, s)) (as_str v)) l) acc) \<and>
    bt_get (fold (\<lambda>(k, v) m. bt_insert k v m) (List.map_filter (\<lambda>(k, v). map_option (\<lambda>s. (k, s)) (as_str v)) l) acc) k =
      (case bt_get l k of None \<Rightarrow> bt_get acc k | Some v \<Rightarrow> as_str v)"
  using assms
proof (induction l arbitrary: acc)
  case (Cons e l)
  obtain key v where e: "e = (key, v)" by fastforce
  define acc' where "acc' = (case as_str v of None \<Rightarrow> acc | Some s \<Rightarrow> bt_insert key s acc)"
  have acc': "bt_wf acc'" "\<forall>k\<in>fst ` set l. bt_get acc' k = None" "bt_get acc' k = (if k = key then as_str v else bt_get acc k)"
    using Cons.prems e by (auto simp: acc'_def bt_simps split: option.splits)
  have other: "bt_get l key = None" using Cons.prems(2) e by (auto simp: bt_get_None_iff)
  have "fold (\<lambda>(k, v) m. bt_insert k v m) (List.map_filter (\<lambda>(k, v). map_option (\<lambda>s. (k, s)) (as_str v)) (e # l)) acc =
      fold (\<lambda>(k, v) m. bt_insert k v m) (List.map_filter (\<lambda>(k, v). map_option (\<lambda>s. (k, s)) (as_str v)) l) acc'"
    by (simp add: e acc'_def List.map_filter_simps split: option.splits)
  then show ?case
    using Cons.IH [OF acc'(1) _ acc'(2)] Cons.prems(2) acc'(3) other e by (auto split: option.splits)
qed (simp add: List.map_filter_simps)

lemma lane_view_wf: "bt_wf l \<Longrightarrow> bt_wf (lane_view l)"
  using lane_view_run [of "[]" l] bt_wf_distinct [of l] by (simp add: lane_view_def bt_collect_def)

lemma lane_view_get: "bt_wf l \<Longrightarrow> bt_get (lane_view l) k = Option.bind (bt_get l k) as_str"
  using lane_view_run [of "[]" l k] bt_wf_distinct [of l]
  by (simp add: lane_view_def bt_collect_def split: option.splits)

lemma lane_view_insert: "bt_wf l \<Longrightarrow> lane_view (bt_insert k (JString t) l) = bt_insert k t (lane_view l)"
  by (rule bt_ext) (auto simp: lane_view_wf lane_view_get bt_simps fun_eq_iff)

lemma lane_view_json: "bt_wf l \<Longrightarrow> lane_view (map (\<lambda>e. (fst e, JString (snd e))) l) = l"
proof (rule bt_ext)
  assume l: "bt_wf l"
  then have l': "bt_wf (map (\<lambda>e. (fst e, JString (snd e))) l)" by (simp add: bt_wf_map)
  then show "bt_wf (lane_view (map (\<lambda>e. (fst e, JString (snd e))) l))" by (rule lane_view_wf)
  show "bt_get (lane_view (map (\<lambda>e. (fst e, JString (snd e))) l)) = bt_get l"
  proof
    fix k
    show "bt_get (lane_view (map (\<lambda>e. (fst e, JString (snd e))) l)) k = bt_get l k"
      by (cases "bt_get l k") (simp_all add: lane_view_get [OF l'] bt_get_map)
  qed
qed

lemma lanes_ok_insert: "lanes_ok l \<Longrightarrow> lanes_ok (bt_insert lane (JString t) l)"
  by (auto simp: lanes_ok_def bt_simps is_string_def split: option.splits)

definition write_lanes :: "ustring list \<Rightarrow> (ustring \<times> ustring) list \<Rightarrow> (ustring \<times> ustring) list \<Rightarrow> (ustring \<times> ustring) list" where
  "write_lanes frozen new lanes = fold (\<lambda>(lane, txt) l. if lane \<in> set frozen then l else bt_insert lane txt l) new lanes"

lemma fold_lanes:
  assumes "lanes_ok l"
  shows "lanes_ok (fold (\<lambda>(lane, txt) l. if lane \<in> set frozen then l else bt_insert lane (JString txt) l) new l) \<and>
    lane_view (fold (\<lambda>(lane, txt) l. if lane \<in> set frozen then l else bt_insert lane (JString txt) l) new l) =
      write_lanes frozen new (lane_view l)"
  using assms
proof (induction new arbitrary: l)
  case (Cons e new)
  obtain lane t where e: "e = (lane, t)" by fastforce
  have "lanes_ok (if lane \<in> set frozen then l else bt_insert lane (JString t) l)"
    using Cons.prems by (simp add: lanes_ok_insert)
  from Cons.IH [OF this] show ?case
    using Cons.prems e by (auto simp: write_lanes_def lane_view_insert lanes_ok_def)
qed (simp add: write_lanes_def)

text \<open>Lanes that are frozen, or absent from the write, keep what they had; the others are written.\<close>

lemma write_lanes_get:
  "bt_wf lanes \<Longrightarrow> bt_wf new \<Longrightarrow> bt_wf (write_lanes frozen new lanes) \<and>
   bt_get (write_lanes frozen new lanes) k =
     (case bt_get new k of Some t \<Rightarrow> if k \<in> set frozen then bt_get lanes k else Some t | None \<Rightarrow> bt_get lanes k)"
proof (induction new arbitrary: lanes)
  case (Cons e new)
  obtain lane t where e: "e = (lane, t)" by fastforce
  have new: "bt_wf new" "bt_get new lane = None"
    using Cons.prems(2) e by (auto simp: bt_wf_Cons bt_get_None_iff)
  let ?l = "if lane \<in> set frozen then lanes else bt_insert lane t lanes"
  have l: "bt_wf ?l" using Cons.prems(1) by simp
  show ?case
    using Cons.IH [OF l new(1)] new(2) Cons.prems(1) e
    by (auto simp: write_lanes_def bt_simps split: option.splits)
qed (simp add: write_lanes_def)

section \<open>The edits of one item\<close>

lemma block_json_object:
  "block_json ident owner txt lanes =
     JObject [(lit ''id'', JString ident), (lit ''lanes'', lanes_json lanes), (lit ''owner'', JString owner),
              (lit ''text'', JString txt)]"
  by (simp add: block_json_def object_def bt_collect_def lit_def)

lemma lanes_json_ok: "bt_wf lanes \<Longrightarrow> \<exists>l. lanes_json lanes = JObject l \<and> lanes_ok l \<and> lane_view l = lanes"
  by (auto simp: lanes_json_def lanes_ok_def bt_wf_map bt_get_map is_string_def lane_view_json split: option.splits)

lemma lit_get [simp]: "lit a = lit b \<longleftrightarrow> a = b"
  by (rule lit_inj)

lemma block_json_ok:
  assumes "bt_wf lanes"
  shows "item_ok (block_json ident owner txt lanes) \<and>
    the_view (block_json ident owner txt lanes) =
      \<lparr>ub_id = ident, ub_owner = owner, ub_text = txt, ub_lanes = lanes\<rparr>"
proof -
  obtain l where l: "lanes_json lanes = JObject l" "lanes_ok l" "lane_view l = lanes"
    using lanes_json_ok [OF assms] by blast
  have wf: "bt_wf [(lit ''id'', JString ident), (lit ''lanes'', lanes_json lanes), (lit ''owner'', JString owner),
      (lit ''text'', JString txt)]"
    by (simp add: bt_wf_def lit_def)
  show ?thesis
    using l wf by (simp add: item_ok_def block_json_object the_view_def block_view_def str_member_object block_owner_def
        str_or_empty_def is_string_def)
qed

lemma object_item_ok:
  assumes "bt_wf m" "bt_get m (lit ''id'') = Some (JString i)" "bt_get m (lit ''owner'') = Some (JString owner)"
    "bt_get m (lit ''lanes'') = Some (JObject l)" "lanes_ok l"
    "bt_get m (lit ''text'') = None \<or> bt_get m (lit ''text'') = Some JNull \<or> (\<exists>t. bt_get m (lit ''text'') = Some (JString t))"
  shows "item_ok (JObject m) \<and> the_view (JObject m) =
    \<lparr>ub_id = i, ub_owner = owner, ub_text = str_or_empty (str_member (lit ''text'') (JObject m)), ub_lanes = lane_view l\<rparr>"
  using assms by (auto simp: item_ok_def the_view_def block_view_def str_member_object block_owner_def str_or_empty_def is_string_def)

lemma is_string_iff: "is_string v \<longleftrightarrow> (\<exists>s. v = JString s)"
  by (auto simp: is_string_def split: json.splits)

lemma set_text_ok:
  assumes "item_ok j"
  shows "\<exists>j'. assign (lit ''text'') (JString t) j = Some j' \<and> item_ok j' \<and> the_view j' = (the_view j)\<lparr>ub_text := t\<rparr>"
proof -
  obtain m i owner l where j: "j = JObject m" "bt_wf m" "bt_get m (lit ''id'') = Some (JString i)"
    "bt_get m (lit ''owner'') = Some (JString owner)" "bt_get m (lit ''lanes'') = Some (JObject l)" "lanes_ok l"
    "case bt_get m (lit ''text'') of None \<Rightarrow> True | Some v \<Rightarrow> v = JNull \<or> is_string v"
    using assms by (rule item_okE)
  have old: "the_view j = \<lparr>ub_id = i, ub_owner = owner, ub_text = str_or_empty (str_member (lit ''text'') j), ub_lanes = lane_view l\<rparr>"
    unfolding j(1) using j by (intro object_item_ok [THEN conjunct2]) (auto simp: is_string_iff split: option.splits)
  have "item_ok (JObject (bt_insert (lit ''text'') (JString t) m)) \<and> the_view (JObject (bt_insert (lit ''text'') (JString t) m)) =
    \<lparr>ub_id = i, ub_owner = owner, ub_text = str_or_empty (str_member (lit ''text'') (JObject (bt_insert (lit ''text'') (JString t) m))), ub_lanes = lane_view l\<rparr>"
    using j by (intro object_item_ok) (simp_all add: bt_simps)
  then show ?thesis using j(1,2) by (simp add: assign_def old [unfolded j(1)] bt_simps str_member_object str_or_empty_def)
qed

lemma set_lanes_ok:
  assumes "item_ok j" "lanes_ok l'"
  shows "\<exists>j'. assign (lit ''lanes'') (JObject l') j = Some j' \<and> item_ok j' \<and> the_view j' = (the_view j)\<lparr>ub_lanes := lane_view l'\<rparr>"
proof -
  obtain m i owner l where j: "j = JObject m" "bt_wf m" "bt_get m (lit ''id'') = Some (JString i)"
    "bt_get m (lit ''owner'') = Some (JString owner)" "bt_get m (lit ''lanes'') = Some (JObject l)" "lanes_ok l"
    "case bt_get m (lit ''text'') of None \<Rightarrow> True | Some v \<Rightarrow> v = JNull \<or> is_string v"
    using assms(1) by (rule item_okE)
  have old: "the_view j = \<lparr>ub_id = i, ub_owner = owner, ub_text = str_or_empty (str_member (lit ''text'') j), ub_lanes = lane_view l\<rparr>"
    unfolding j(1) using j by (intro object_item_ok [THEN conjunct2]) (auto simp: is_string_iff split: option.splits)
  have "item_ok (JObject (bt_insert (lit ''lanes'') (JObject l') m)) \<and> the_view (JObject (bt_insert (lit ''lanes'') (JObject l') m)) =
    \<lparr>ub_id = i, ub_owner = owner, ub_text = str_or_empty (str_member (lit ''text'') (JObject (bt_insert (lit ''lanes'') (JObject l') m))), ub_lanes = lane_view l'\<rparr>"
    using j assms(2) by (intro object_item_ok) (auto simp: bt_simps is_string_iff split: option.splits)
  then show ?thesis using j(1,2) by (simp add: assign_def old [unfolded j(1)] bt_simps str_member_object)
qed

lemma lanes_place:
  assumes "item_ok j"
  shows "\<exists>l. place (lit ''lanes'') j = JObject l \<and> lanes_ok l \<and> ub_lanes (the_view j) = lane_view l"
  using assms by (auto simp: item_ok_def place_def the_view_def block_view_def str_member_object)

lemma set_lane_ok:
  assumes "item_ok j"
  shows "\<exists>j'. set_lane lane t j = Some j' \<and> item_ok j' \<and>
    the_view j' = (the_view j)\<lparr>ub_lanes := bt_insert lane t (ub_lanes (the_view j))\<rparr>"
proof -
  obtain l where l: "place (lit ''lanes'') j = JObject l" "lanes_ok l" "ub_lanes (the_view j) = lane_view l"
    using lanes_place [OF assms] by blast
  then have "lane_view (bt_insert lane (JString t) l) = bt_insert lane t (lane_view l)"
    by (simp add: lane_view_insert lanes_ok_def)
  then show ?thesis
    using set_lanes_ok [OF assms lanes_ok_insert [OF l(2), of lane t]] l by (auto simp: set_lane_def assign_def)
qed

lemma update_existing_ok:
  assumes "item_ok j"
  shows "\<exists>j'. update_existing w frozen j = Some j' \<and> item_ok j' \<and>
    the_view j' = (the_view j)\<lparr>ub_text := mw_text w, ub_lanes := write_lanes frozen (mw_lanes w) (ub_lanes (the_view j))\<rparr>"
proof -
  obtain j1 where j1: "assign (lit ''text'') (JString (mw_text w)) j = Some j1" "item_ok j1"
      "the_view j1 = (the_view j)\<lparr>ub_text := mw_text w\<rparr>"
    using set_text_ok [OF assms] by blast
  obtain l where l: "place (lit ''lanes'') j1 = JObject l" "lanes_ok l" "ub_lanes (the_view j1) = lane_view l"
    using lanes_place [OF j1(2)] by blast
  show ?thesis
    using set_lanes_ok [OF j1(2), OF fold_lanes [THEN conjunct1, OF l(2)], of frozen "mw_lanes w"]
      fold_lanes [THEN conjunct2, OF l(2), of frozen "mw_lanes w"] j1 l
    by (auto simp: update_existing_def)
qed

end
