(* ===== verification/Transcript_Refinement.thy ===== *)
theory Transcript_Refinement
  imports Transcript_Laws
begin

text \<open>
  The abstract transcript: a list of blocks with the operations of the facade, and the proof that the
  facade refines it. The section of a session is given here by cutting the list, where the code
  computes indexes.
\<close>

section \<open>Lists\<close>

lemma map_update_first:
  assumes "\<forall>x\<in>set xs. p x \<longleftrightarrow> q (v x)" "find p xs = Some y" "v z = f (v y)"
  shows "map v (update_first p (\<lambda>_. z) xs) = update_first q f (map v xs)"
  using assms by (induction xs) (auto split: if_splits)

lemma set_update_first: "set (update_first p f xs) \<subseteq> set xs \<union> f ` set xs"
  by (induction xs) auto

lemma update_first_split:
  "find p xs = Some y \<Longrightarrow> \<exists>us vs. xs = us @ y # vs \<and> p y \<and> (\<forall>x\<in>set us. \<not> p x) \<and> update_first p f xs = us @ f y # vs"
proof (induction xs)
  case (Cons x xs)
  show ?case
  proof (cases "p x")
    case False
    then obtain us vs where "xs = us @ y # vs" "p y" "\<forall>x\<in>set us. \<not> p x" "update_first p f xs = us @ f y # vs"
      using Cons by auto
    then show ?thesis using False by (intro exI [of _ "x # us"] exI [of _ vs]) simp
  qed (use Cons in \<open>auto intro: exI [of _ "[]"]\<close>)
qed simp

lemma find_map_key: "\<forall>x\<in>set xs. p x \<longleftrightarrow> q (v x) \<Longrightarrow> find q (map v xs) = map_option v (find p xs)"
  by (induction xs) auto

lemma position_map: "\<forall>x\<in>set xs. p x \<longleftrightarrow> q (v x) \<Longrightarrow> position q (map v xs) = position p xs"
  by (induction xs) (auto simp: option.map_comp)

lemma find_in: "find p xs = Some y \<Longrightarrow> y \<in> set xs \<and> p y"
  by (induction xs) (auto split: if_splits)

section \<open>The section of a session\<close>

text \<open>The blocks before the first capture block of the owner, the blocks from there to its last one,
  the annotations that follow, and the rest.\<close>

definition section_parts :: "('a \<Rightarrow> ustring) \<Rightarrow> ustring \<Rightarrow> 'a list \<Rightarrow> 'a list \<times> 'a list \<times> 'a list \<times> 'a list" where
  "section_parts owner_of owner xs =
     (let before = takeWhile (\<lambda>x. owner_of x \<noteq> owner) xs;
          from_first = dropWhile (\<lambda>x. owner_of x \<noteq> owner) xs;
          core = rev (dropWhile (\<lambda>x. owner_of x \<noteq> owner) (rev from_first));
          after = rev (takeWhile (\<lambda>x. owner_of x \<noteq> owner) (rev from_first))
      in (before, core, takeWhile (\<lambda>x. owner_of x = user_owner) after,
          dropWhile (\<lambda>x. owner_of x = user_owner) after))"

definition spec_section ::
    "ustring \<Rightarrow> utterance_block list
     \<Rightarrow> projection_error + utterance_block list \<times> utterance_block list \<times> utterance_block list" where
  "spec_section session bs =
     (case section_parts ub_owner (capture_owner session) bs of
        (before, core, notes, rest) \<Rightarrow>
          if core = [] then Inr (bs, [], [])
          else if \<exists>b\<in>set core. ub_owner b \<noteq> capture_owner session \<and> ub_owner b \<noteq> user_owner
          then Inl (SessionSliceInterleaved session)
          else Inr (before, core @ notes, rest))"

lemma section_parts_split:
  assumes "section_parts owner_of owner xs = (before, core, notes, rest)"
  shows "xs = before @ core @ notes @ rest" "\<forall>x\<in>set before. owner_of x \<noteq> owner"
    "\<forall>x\<in>set (notes @ rest). owner_of x \<noteq> owner"
    "core \<noteq> [] \<Longrightarrow> owner_of (hd core) = owner" "core \<noteq> [] \<Longrightarrow> owner_of (last core) = owner"
    "\<forall>x\<in>set notes. owner_of x = user_owner" "rest \<noteq> [] \<Longrightarrow> owner_of (hd rest) \<noteq> user_owner"
    "core = [] \<longleftrightarrow> (\<forall>x\<in>set xs. owner_of x \<noteq> owner)"
proof -
  let ?p = "\<lambda>x. owner_of x \<noteq> owner"
  define from_first where "from_first = dropWhile ?p xs"
  define after where "after = rev (takeWhile ?p (rev from_first))"
  have parts: "before = takeWhile ?p xs" "core = rev (dropWhile ?p (rev from_first))"
      "notes = takeWhile (\<lambda>x. owner_of x = user_owner) after" "rest = dropWhile (\<lambda>x. owner_of x = user_owner) after"
    using assms by (simp_all add: section_parts_def from_first_def after_def Let_def)
  have ff: "core @ after = from_first"
    unfolding parts(2) after_def by (simp only: rev_append [symmetric] takeWhile_dropWhile_id rev_rev_ident)
  have na: "notes @ rest = after" by (simp add: parts)
  show "xs = before @ core @ notes @ rest" unfolding na ff by (simp add: from_first_def parts(1))
  show "\<forall>x\<in>set before. ?p x" by (auto simp: parts(1) dest: set_takeWhileD)
  show "\<forall>x\<in>set (notes @ rest). ?p x" unfolding na after_def by (auto dest: set_takeWhileD)
  show "\<forall>x\<in>set notes. owner_of x = user_owner" by (auto simp: parts(3) dest: set_takeWhileD)
  show "rest \<noteq> [] \<Longrightarrow> owner_of (hd rest) \<noteq> user_owner" unfolding parts(4) using hd_dropWhile by blast
  show "core \<noteq> [] \<Longrightarrow> owner_of (last core) = owner"
    unfolding parts(2) using hd_dropWhile [of ?p "rev from_first"] by (simp add: last_rev)
  show "core = [] \<longleftrightarrow> (\<forall>x\<in>set xs. ?p x)"
  proof -
    have "core = [] \<longleftrightarrow> (\<forall>x\<in>set from_first. ?p x)" unfolding parts(2) by (simp add: dropWhile_eq_Nil_conv)
    also have "\<dots> \<longleftrightarrow> from_first = []"
      using hd_dropWhile [of ?p xs] hd_in_set [of from_first] unfolding from_first_def [symmetric] by (metis empty_iff list.set(1))
    also have "\<dots> \<longleftrightarrow> (\<forall>x\<in>set xs. ?p x)" unfolding from_first_def by (simp add: dropWhile_eq_Nil_conv)
    finally show ?thesis .
  qed
  show "owner_of (hd core) = owner" if "core \<noteq> []"
  proof -
    have "hd core = hd from_first" using that ff by (metis hd_append2)
    moreover have "from_first \<noteq> []" using that ff by auto
    ultimately show ?thesis using hd_dropWhile [of ?p xs] unfolding from_first_def by simp
  qed
qed

lemma index_hits:
  assumes "xs = b @ c @ t" "\<forall>x\<in>set b. \<not> P x" "\<forall>x\<in>set t. \<not> P x" "c \<noteq> []" "P (hd c)" "P (last c)"
  shows "\<exists>later. filter (\<lambda>i. P (xs ! i)) [0..<length xs] = length b # later \<and>
    (if later = [] then length b else last later) + 1 = length b + length c"
proof -
  let ?l = "filter (\<lambda>i. P (xs ! i)) [0..<length xs]"
  have inside: "length b \<le> i \<and> i + 1 \<le> length b + length c" if "i \<in> set ?l" for i
  proof -
    have i: "i < length xs" "P (xs ! i)" using that by auto
    have "\<not> i < length b" using i assms(1,2) by (auto simp: nth_append)
    moreover have "i < length b + length c"
    proof (rule ccontr)
      assume "\<not> i < length b + length c"
      then have "xs ! i \<in> set t" using i(1) assms(1) by (auto simp: nth_append)
      then show False using i(2) assms(3) by blast
    qed
    ultimately show ?thesis by simp
  qed
  have first: "length b \<in> set ?l" using assms(1,4,5) by (cases c) (auto simp: nth_append)
  have "xs ! (length b + length c - 1) = last c"
    using assms(1,4) by (cases c rule: rev_cases) (auto simp: nth_append)
  then have final: "length b + length c - 1 \<in> set ?l" using assms(1,4,6) by (cases c) auto
  have sorted: "sorted ?l" by (rule sorted_wrt_filter) simp
  obtain i later where l: "?l = i # later" using first by (cases ?l) auto
  have "i = length b"
    using sorted inside [of i] first unfolding l by auto
  moreover have "(if later = [] then i else last later) = last ?l" by (simp add: l)
  moreover have "last ?l + 1 = length b + length c"
  proof -
    have "last ?l \<in> set ?l" using l by simp
    then have "last ?l + 1 \<le> length b + length c" using inside by blast
    moreover have "length b + length c - 1 \<le> last ?l"
    proof -
      have split: "?l = butlast ?l @ [last ?l]" using l by (metis append_butlast_last_id list.distinct(1))
      have "length b + length c - 1 \<in> set (butlast ?l @ [last ?l])" using final split by metis
      moreover have "sorted (butlast ?l @ [last ?l])" using sorted split by metis
      ultimately show ?thesis by (auto simp: sorted_append)
    qed
    ultimately show ?thesis using assms(4) by (cases c) auto
  qed
  ultimately show ?thesis using l by (intro exI [of _ later]) simp
qed

lemma extend_end_takeWhile:
  "extend_end items e = e + length (takeWhile (\<lambda>x. block_owner x = user_owner) (drop (Suc e) items))"
proof (induction items e rule: extend_end.induct)
  case (1 items e)
  show ?case
  proof (cases "e + 1 < length items \<and> block_owner (items ! (e + 1)) = user_owner")
    case True
    then have "drop (Suc e) items = items ! (Suc e) # drop (Suc (Suc e)) items" by (simp add: Cons_nth_drop_Suc)
    then show ?thesis using 1 [OF True] True by (simp add: extend_end.simps [of items e])
  next
    case False
    then have "takeWhile (\<lambda>x. block_owner x = user_owner) (drop (Suc e) items) = []"
      by (cases "Suc e < length items") (auto simp: Cons_nth_drop_Suc [symmetric])
    moreover have "extend_end items e = e" using False by (subst extend_end.simps) auto
    ultimately show ?thesis by simp
  qed
qed

lemma slice_range_parts:
  assumes "section_parts block_owner (capture_owner session) items = (before, core, notes, rest)"
  shows "session_slice_range items session =
    (if core = [] then Inr None
     else if \<exists>x\<in>set core. block_owner x \<noteq> capture_owner session \<and> block_owner x \<noteq> user_owner
     then Inl (SessionSliceInterleaved session)
     else Inr (Some (length before, length before + length core + length notes)))"
proof (cases "core = []")
  case True
  then have "\<forall>x\<in>set items. block_owner x \<noteq> capture_owner session" using section_parts_split(8) [OF assms] by blast
  then show ?thesis using True by (auto simp: session_slice_range_def filter_empty_conv)
next
  case False
  note split = section_parts_split [OF assms]
  obtain later where later:
      "filter (\<lambda>i. block_owner (items ! i) = capture_owner session) [0..<length items] = length before # later"
      "(if later = [] then length before else last later) + 1 = length before + length core"
    using index_hits [of items before core "notes @ rest" "\<lambda>x. block_owner x = capture_owner session"] split False by blast
  have core: "drop (length before) (take (length before + length core) items) = core" by (simp add: split(1))
  have "takeWhile (\<lambda>x. block_owner x = user_owner) (notes @ rest) = notes"
    using split(6,7) by (cases rest) (auto simp: takeWhile_append2)
  moreover have "drop (length before + length core) items = notes @ rest" by (simp add: split(1))
  moreover have "extend_end items (if later = [] then length before else last later) + 1 =
      (if later = [] then length before else last later) + 1 +
      length (takeWhile (\<lambda>x. block_owner x = user_owner) (drop ((if later = [] then length before else last later) + 1) items))"
    by (simp add: extend_end_takeWhile)
  ultimately have "extend_end items (if later = [] then length before else last later) + 1 =
      length before + length core + length notes"
    by (simp only: later(2))
  then show ?thesis using False later(2) core by (simp add: session_slice_range_def later(1) Let_def)
qed

lemma section_parts_map:
  "\<forall>x\<in>set xs. owner_of x = owner_of' (v x) \<Longrightarrow>
   section_parts owner_of' owner (map v xs) =
     (case section_parts owner_of owner xs of (a, b, c, d) \<Rightarrow> (map v a, map v b, map v c, map v d))"
proof -
  assume v: "\<forall>x\<in>set xs. owner_of x = owner_of' (v x)"
  have tw: "takeWhile (\<lambda>x. P (owner_of' x)) (map v ys) = map v (takeWhile (\<lambda>x. P (owner_of x)) ys)"
      "dropWhile (\<lambda>x. P (owner_of' x)) (map v ys) = map v (dropWhile (\<lambda>x. P (owner_of x)) ys)"
    if "set ys \<subseteq> set xs" for P ys
    using that v by (auto simp: takeWhile_map dropWhile_map comp_def intro!: arg_cong [of _ _ "map v"] takeWhile_cong dropWhile_cong)
  let ?ff = "dropWhile (\<lambda>x. owner_of x \<noteq> owner) xs"
  let ?af = "rev (takeWhile (\<lambda>x. owner_of x \<noteq> owner) (rev ?ff))"
  have sub: "set (rev ?ff) \<subseteq> set xs" "set ?af \<subseteq> set xs"
    by (auto dest: set_dropWhileD) (metis set_dropWhileD set_rev set_takeWhileD)
  show ?thesis
    using tw(1) [of xs "\<lambda>o'. o' \<noteq> owner"] tw(2) [of xs "\<lambda>o'. o' \<noteq> owner"]
      tw [OF sub(1), of "\<lambda>o'. o' \<noteq> owner"] tw [OF sub(2), of "\<lambda>o'. o' = user_owner"]
    by (simp add: section_parts_def Let_def rev_map)
qed

section \<open>The abstract transcript\<close>

datatype projection_call =
    Upsert machine_block_write "ustring list" "ustring option"
  | ReplaceLane ustring ustring ustring
  | ReplaceText ustring ustring
  | Annotate nat ustring ustring
  | Purge ustring
  | Splice "utterance_block list" "ustring option"
  | RemoveSlice ustring

definition new_block :: "machine_block_write \<Rightarrow> utterance_block" where
  "new_block w = \<lparr>ub_id = mw_id w, ub_owner = mw_owner w, ub_text = mw_text w, ub_lanes = mw_lanes w\<rparr>"

definition spec_upsert ::
    "machine_block_write \<Rightarrow> ustring list \<Rightarrow> ustring option \<Rightarrow> utterance_block list
     \<Rightarrow> projection_error + utterance_block list" where
  "spec_upsert w frozen insert_before bs =
     (if \<exists>b\<in>set bs. ub_id b = mw_id w
      then Inr (update_first (\<lambda>b. ub_id b = mw_id w)
             (\<lambda>b. b\<lparr>ub_text := mw_text w, ub_lanes := write_lanes frozen (mw_lanes w) (ub_lanes b)\<rparr>) bs)
      else
        (case insert_before of
           None \<Rightarrow> Inr (bs @ [new_block w])
         | Some anchor \<Rightarrow>
             (case position (\<lambda>b. ub_id b = anchor) bs of
                None \<Rightarrow> Inl (BlockNotFound anchor)
              | Some i \<Rightarrow> Inr (insert_at i (new_block w) bs))))"

definition spec_mutate ::
    "ustring \<Rightarrow> (utterance_block \<Rightarrow> utterance_block) \<Rightarrow> utterance_block list
     \<Rightarrow> projection_error + utterance_block list" where
  "spec_mutate ident f bs =
     (if \<exists>b\<in>set bs. ub_id b = ident then Inr (update_first (\<lambda>b. ub_id b = ident) f bs)
      else Inl (BlockNotFound ident))"

fun spec_splice :: "utterance_block list \<Rightarrow> nat \<Rightarrow> nat \<Rightarrow> utterance_block list \<Rightarrow> nat \<times> utterance_block list" where
  "spec_splice [] cursor n bs = (n, bs)"
| "spec_splice (b # new) cursor n bs =
     (if \<exists>x\<in>set bs. ub_id x = ub_id b then spec_splice new cursor n bs
      else spec_splice new (cursor + 1) (n + 1) (insert_at cursor b bs))"

definition changed :: "projection_error + utterance_block list \<Rightarrow> projection_error + utterance_block list \<times> nat" where
  "changed r = and_then r (\<lambda>bs. Inr (bs, 0))"

fun spec_step :: "projection_call \<Rightarrow> utterance_block list \<Rightarrow> projection_error + utterance_block list \<times> nat" where
  "spec_step (Upsert w frozen insert_before) bs =
     (if mw_id w = [] then Inl EmptyBlockId
      else and_then (validate_lanes (bt_keys (mw_lanes w))) (\<lambda>_. changed (spec_upsert w frozen insert_before bs)))"
| "spec_step (ReplaceLane ident lane txt) bs =
     and_then (validate_lanes [lane])
       (\<lambda>_. changed (spec_mutate ident (\<lambda>b. b\<lparr>ub_lanes := bt_insert lane txt (ub_lanes b)\<rparr>) bs))"
| "spec_step (ReplaceText ident txt) bs = changed (spec_mutate ident (\<lambda>b. b\<lparr>ub_text := txt\<rparr>) bs)"
| "spec_step (Annotate i ident txt) bs =
     (if ident = [] then Inl EmptyBlockId
      else Inr (insert_at (min i (length bs)) \<lparr>ub_id = ident, ub_owner = user_owner, ub_text = txt, ub_lanes = []\<rparr> bs, 0))"
| "spec_step (Purge session) bs =
     Inr (filter (\<lambda>b. ub_owner b \<noteq> capture_owner session) bs,
          length (filter (\<lambda>b. ub_owner b = capture_owner session) bs))"
| "spec_step (Splice new before) bs =
     (if \<exists>b\<in>set new. ub_id b = [] then Inl EmptyBlockId
      else
        and_then (validate_lanes (concat (map (\<lambda>b. bt_keys (ub_lanes b)) new))) (\<lambda>_.
        and_then (case before of None \<Rightarrow> Inr (length bs)
                  | Some anchor \<Rightarrow> ok_or (BlockNotFound anchor) (position (\<lambda>b. ub_id b = anchor) bs)) (\<lambda>cursor.
        case spec_splice new cursor 0 bs of (n, bs') \<Rightarrow> Inr (bs', n))))"
| "spec_step (RemoveSlice session) bs =
     and_then (spec_section session bs) (\<lambda>(before, section, rest). Inr (before @ rest, length section))"

definition counted :: "('d, 'c, unit) call \<Rightarrow> ('d, 'c, nat) call" where
  "counted r = map_option (\<lambda>(x, m). (and_then x (\<lambda>_. Inr 0), m)) r"

fun projection_step :: "('d, 'c) mirror_env \<Rightarrow> projection_call \<Rightarrow> ('d, 'c) mirror \<Rightarrow> ('d, 'c, nat) call" where
  "projection_step env (Upsert w frozen insert_before) m = counted (machine_upsert_block env w frozen insert_before m)"
| "projection_step env (ReplaceLane ident lane txt) m = counted (user_replace_lane env ident lane txt m)"
| "projection_step env (ReplaceText ident txt) m = counted (user_replace_text env ident txt m)"
| "projection_step env (Annotate i ident txt) m = counted (insert_annotation env i ident txt m)"
| "projection_step env (Purge session) m = purge_session_blocks env session m"
| "projection_step env (Splice new before) m = splice_session_slice env new before m"
| "projection_step env (RemoveSlice session) m = remove_session_slice env session m"

text \<open>The lanes of a call are \<^verbatim>\<open>BTreeMap\<close>s.\<close>

fun call_ok :: "projection_call \<Rightarrow> bool" where
  "call_ok (Upsert w _ _) \<longleftrightarrow> bt_wf (mw_lanes w)"
| "call_ok (Splice new _) \<longleftrightarrow> (\<forall>b\<in>set new. bt_wf (ub_lanes b))"
| "call_ok _ \<longleftrightarrow> True"

section \<open>The invariant of the state\<close>

definition object_or_null :: "json option \<Rightarrow> bool" where
  "object_or_null v = (case v of None \<Rightarrow> True | Some x \<Rightarrow> x = JNull \<or> is_object x)"

definition state_ok :: "json \<Rightarrow> bool" where
  "state_ok s \<longleftrightarrow>
     (\<exists>m. s = JObject m \<and> bt_wf m \<and> fst ` set m \<subseteq> {document_meta, purge_receipts, transcript_utterances} \<and>
        object_or_null (bt_get m document_meta) \<and> object_or_null (bt_get m purge_receipts) \<and>
        (case bt_get m transcript_utterances of
           None \<Rightarrow> True | Some v \<Rightarrow> v = JNull \<or> (\<exists>xs. v = JArray xs \<and> (\<forall>x\<in>set xs. item_ok x))))"

lemma key_names [simp]:
  "document_meta \<noteq> purge_receipts" "document_meta \<noteq> transcript_utterances" "purge_receipts \<noteq> transcript_utterances"
  "purge_receipts \<noteq> document_meta" "transcript_utterances \<noteq> document_meta" "transcript_utterances \<noteq> purge_receipts"
  by (simp_all add: document_meta_def purge_receipts_def transcript_utterances_def)

lemma ensure_items_ok:
  assumes "state_ok s"
  shows "\<exists>obj. ensure_items s = Some (obj, items_of s) \<and> (\<forall>x\<in>set (items_of s). item_ok x) \<and>
    (\<forall>items. (\<forall>x\<in>set items. item_ok x) \<longrightarrow> state_ok (put_items obj items)) \<and>
    (\<forall>items. items_of (put_items obj items) = items)"
proof -
  obtain m where m: "s = JObject m" "bt_wf m" "fst ` set m \<subseteq> {document_meta, purge_receipts, transcript_utterances}"
      "object_or_null (bt_get m document_meta)" "object_or_null (bt_get m purge_receipts)"
      "case bt_get m transcript_utterances of None \<Rightarrow> True
       | Some v \<Rightarrow> v = JNull \<or> (\<exists>xs. v = JArray xs \<and> (\<forall>x\<in>set xs. item_ok x))"
    using assms unfolding state_ok_def by blast
  have put: "state_ok (put_items m' items) \<and> items_of (put_items m' items) = items"
    if "m' = m \<or> m' = bt_insert transcript_utterances (JArray []) m" "\<forall>x\<in>set items. item_ok x" for m' items
  proof -
    have m': "bt_wf m'" "fst ` set m' \<subseteq> {document_meta, purge_receipts, transcript_utterances}"
        "bt_get m' document_meta = bt_get m document_meta" "bt_get m' purge_receipts = bt_get m purge_receipts"
      using that(1) m(2,3) fst_set_bt_insert [of transcript_utterances "JArray []" m]
      by (elim disjE; simp add: bt_simps)+
    have "fst ` set (bt_insert transcript_utterances (JArray items) m') \<subseteq> {document_meta, purge_receipts, transcript_utterances}"
      using m'(2) by (simp add: fst_set_bt_insert)
    then show ?thesis
      using m' m(4,5) that(2) by (simp add: put_items_def state_ok_def items_of_def bt_simps)
  qed
  have items: "items_of (put_items m' items) = items"
    if "m' = m \<or> m' = bt_insert transcript_utterances (JArray []) m" for m' items
    using that m(2) by (auto simp: put_items_def items_of_def bt_simps)
  show ?thesis
  proof (cases "Option.bind (bt_get m transcript_utterances) as_array")
    case None
    then show ?thesis
      using put items m(1,6) by (intro exI [of _ "bt_insert transcript_utterances (JArray []) m"])
        (simp add: ensure_items_def items_of_def assign_def)
  next
    case (Some xs)
    then have "bt_get m transcript_utterances = Some (JArray xs)" by (auto simp: bind_eq_Some_conv)
    then show ?thesis
      using Some put items m(1,6) by (intro exI [of _ m]) (auto simp: ensure_items_def items_of_def)
  qed
qed

lemma blocks_ok: "\<forall>x\<in>set (items_of (mi_state m)). item_ok x \<Longrightarrow> blocks m = map the_view (items_of (mi_state m))"
  by (simp add: blocks_def map_filter_view)

text \<open>A state that keeps the invariant passes the schema of transcripts.\<close>

lemma transcript_schema_eq:
  "transcript_schema =
     SRoot [(transcript_utterances, SList 0 (Some utterance_id) default_options),
            (document_meta, schema_fields_of []), (purge_receipts, schema_fields_of [])] default_options"
  by (simp add: transcript_schema_def shared_root_fields_def bt_collect_def document_meta_def purge_receipts_def
      transcript_utterances_def lit_def)

lemma default_opts [simp]:
  "so_required default_options = False" "so_validate default_options = None" "so_default_value default_options = None"
  "so_required required_options = True" "so_validate required_options = None"
  by (simp_all add: default_options_def required_options_def)

lemma empty_map_valid: "object_or_null v \<Longrightarrow> validate_schema slots (schema_fields_of []) v = Inr ()"
  by (auto simp: object_or_null_def validate_schema.simps [of slots _ v] schema_fields_of_def bt_collect_def
      custom_errors_def is_object_def split: option.splits json.splits)

lemma text_valid:
  "(case v of None \<Rightarrow> True | Some x \<Rightarrow> x = JNull \<or> is_string x) \<Longrightarrow>
   validate_schema slots (SText default_options) v = Inr ()"
  by (auto simp: validate_schema.simps [of slots _ v] custom_errors_def unless_error_def split: option.splits)

lemma set_bt_collect_lanes: "bt_collect (map (\<lambda>lane. (lane, s)) lanes) = map (\<lambda>lane. (lane, s)) (fold bs_insert lanes [])"
proof -
  have ins: "bt_insert l s (map (\<lambda>lane. (lane, s)) x) = map (\<lambda>lane. (lane, s)) (bs_insert l x)" for l x
    by (induction x) auto
  have "fold (\<lambda>(k, v) m. bt_insert k v m) (map (\<lambda>lane. (lane, s)) lanes) (map (\<lambda>lane. (lane, s)) x) =
      map (\<lambda>lane. (lane, s)) (fold bs_insert lanes x)" for x
    by (induction lanes arbitrary: x) (simp_all add: ins)
  from this [of "[]"] show ?thesis by (simp add: bt_collect_def)
qed

lemma set_fold_bs_insert: "set (fold bs_insert xs s) = set xs \<union> set s"
  by (induction xs arbitrary: s) auto

lemma lanes_valid:
  assumes "lanes_ok l"
  shows "validate_schema slots (schema_fields_of (map (\<lambda>lane. (lane, SText default_options)) supported_lanes)) (Some (JObject l)) = Inr ()"
proof -
  have "prefixed_errors lane (validate_schema slots (SText default_options) (bt_get l lane)) = []"
    if "lane \<in> set supported_lanes" for lane
    using assms that text_valid [of "bt_get l lane" slots] by (auto simp: lanes_ok_def prefixed_errors_def)
  then show ?thesis
    by (simp add: validate_schema.simps [of slots _ "Some (JObject l)"] schema_fields_of_def set_bt_collect_lanes
        custom_errors_def set_fold_bs_insert)
qed

lemma utterance_schema_eq:
  "utterance_schema =
     SMap [(lit ''id'', SString required_options),
           (lit ''lanes'', schema_fields_of (map (\<lambda>lane. (lane, SText default_options)) supported_lanes)),
           (lit ''owner'', SString required_options), (lit ''text'', SText default_options)] default_options"
  by (simp add: utterance_schema_def schema_fields_of_def bt_collect_def lit_def)

lemma string_valid: "validate_schema slots (SString required_options) (Some (JString s)) = Inr ()"
  by (simp add: validate_schema.simps custom_errors_def unless_error_def is_string_def)

lemma item_valid:
  assumes "item_ok j"
  shows "validate_schema transcript_slots utterance_schema (Some j) = Inr ()"
proof -
  obtain m i owner l where j: "j = JObject m" "bt_wf m" "bt_get m (lit ''id'') = Some (JString i)"
    "bt_get m (lit ''owner'') = Some (JString owner)" "bt_get m (lit ''lanes'') = Some (JObject l)" "lanes_ok l"
    "case bt_get m (lit ''text'') of None \<Rightarrow> True | Some v \<Rightarrow> v = JNull \<or> is_string v"
    using assms by (rule item_okE)
  then show ?thesis
    by (simp add: validate_schema.simps [of transcript_slots _ "Some (JObject m)"] utterance_schema_eq prefixed_errors_def
        string_valid lanes_valid text_valid custom_errors_def)
qed

lemma no_unknown_keys:
  "\<forall>key\<in>set ks. bt_get fs key \<noteq> None \<Longrightarrow>
   concat (map (\<lambda>key. if bt_get fs key = None then [p @ key] else []) ks) = []"
  by (induction ks) auto

lemma transcript_list_valid:
  assumes "v = JNull \<or> (\<exists>xs. v = JArray xs \<and> (\<forall>x\<in>set xs. item_ok x))"
  shows "validate_schema transcript_slots (SList 0 (Some utterance_id) default_options) (Some v) = Inr ()"
  using assms
proof
  assume "v = JNull"
  then show ?thesis by (simp add: validate_schema.simps [of _ _ "Some JNull"])
next
  assume "\<exists>xs. v = JArray xs \<and> (\<forall>x\<in>set xs. item_ok x)"
  then obtain xs where xs: "v = JArray xs" "\<forall>x\<in>set xs. item_ok x" by blast
  have "prefixed_errors p (validate_schema transcript_slots utterance_schema (Some (xs ! i))) = []" if "i < length xs" for p i
    using xs(2) that item_valid by (simp add: prefixed_errors_def)
  moreover have "transcript_slots 0 = Some utterance_schema" by (simp add: transcript_slots_def)
  ultimately show ?thesis
    using xs(1) validate_schema.simps [of transcript_slots "SList 0 (Some utterance_id) default_options" "Some (JArray xs)"]
    by (simp add: custom_errors_def)
qed

lemma state_valid:
  assumes "state_ok s"
  shows "validate_schema transcript_slots transcript_schema (Some s) = Inr ()"
proof -
  obtain m where m: "s = JObject m" "bt_wf m" "fst ` set m \<subseteq> {document_meta, purge_receipts, transcript_utterances}"
      "object_or_null (bt_get m document_meta)" "object_or_null (bt_get m purge_receipts)"
      "case bt_get m transcript_utterances of None \<Rightarrow> True
       | Some v \<Rightarrow> v = JNull \<or> (\<exists>xs. v = JArray xs \<and> (\<forall>x\<in>set xs. item_ok x))"
    using assms unfolding state_ok_def by blast
  let ?fs = "[(transcript_utterances, SList 0 (Some utterance_id) default_options),
      (document_meta, schema_fields_of []), (purge_receipts, schema_fields_of [])]"
  have items: "validate_schema transcript_slots (SList 0 (Some utterance_id) default_options) (bt_get m transcript_utterances) = Inr ()"
    using m(6) transcript_list_valid
    by (cases "bt_get m transcript_utterances") (simp_all add: validate_schema.simps [of _ _ None])
  have "\<forall>key\<in>set (bt_keys m). bt_get ?fs key \<noteq> None"
  proof
    fix key assume "key \<in> set (bt_keys m)"
    then have "key = document_meta \<or> key = purge_receipts \<or> key = transcript_utterances"
      using m(3) unfolding bt_keys_def by auto
    then show "bt_get ?fs key \<noteq> None" by (elim disjE) simp_all
  qed
  then have unknown: "concat (map (\<lambda>key. if bt_get ?fs key = None then [lit ''Unknown property: '' @ key] else []) (bt_keys m)) = []"
    by (rule no_unknown_keys)
  have known: "concat (map (\<lambda>(key, f). prefixed_errors key (validate_schema transcript_slots f (bt_get m key))) ?fs) = []"
    using items m(4,5) by (simp add: prefixed_errors_def empty_map_valid)
  have custom: "custom_errors (SRoot fs default_options) x = []" for fs x by (simp add: custom_errors_def)
  show ?thesis
    unfolding m(1) transcript_schema_eq
    by (subst validate_schema.simps)
      (simp only: known unknown custom Let_def option.case json.case schema.case json.distinct option.inject
        option.distinct HOL.simp_thms if_False if_True append_Nil option.sel)
qed

end
