(* ===== verification/Transcript_Facade.thy ===== *)
theory Transcript_Facade
  imports Transcript_Refinement Mirror_Sync_Laws
begin

text \<open>
  What the transcript facade guarantees: it refines the abstract transcript, it never loses a lane
  or overwrites a frozen one, a session moves between transcripts as a whole and once; and where the
  erasure of a session falls short of the document.
\<close>

section \<open>Refinement of the edits\<close>

definition all_ok :: "json list \<Rightarrow> bool" where
  "all_ok items \<longleftrightarrow> (\<forall>x\<in>set items. item_ok x)"

lemma change_first_refines:
  assumes "all_ok items" "find (has_id ident) items \<noteq> None"
    and f: "\<And>j. item_ok j \<Longrightarrow> \<exists>j'. f j = Some j' \<and> item_ok j' \<and> the_view j' = g (the_view j)"
  shows "\<exists>items'. change_first (has_id ident) f items = Some items' \<and> all_ok items' \<and>
    map the_view items' = update_first (\<lambda>b. ub_id b = ident) g (map the_view items)"
proof -
  obtain j where j: "find (has_id ident) items = Some j" using assms(2) by blast
  then have "item_ok j" using find_in [OF j] assms(1) by (simp add: all_ok_def)
  then obtain j' where j': "f j = Some j'" "item_ok j'" "the_view j' = g (the_view j)" using f by blast
  have "map the_view (update_first (has_id ident) (\<lambda>_. j') items) = update_first (\<lambda>b. ub_id b = ident) g (map the_view items)"
    using map_update_first [of items "has_id ident" "\<lambda>b. ub_id b = ident" the_view j j' g] j j'(3) assms(1) view_id
    by (auto simp: all_ok_def)
  moreover have "all_ok (update_first (has_id ident) (\<lambda>_. j') items)"
    using set_update_first [of "has_id ident" "\<lambda>_. j'" items] assms(1) j'(2) by (auto simp: all_ok_def)
  ultimately show ?thesis using j j' by (simp add: change_first_def)
qed

lemma find_id:
  assumes "all_ok items"
  shows "find (has_id ident) items \<noteq> None \<longleftrightarrow> (\<exists>b\<in>set (map the_view items). ub_id b = ident)"
  using assms view_id by (auto simp: all_ok_def find_None_iff)

lemma position_id:
  assumes "all_ok items"
  shows "position (\<lambda>b. ub_id b = ident) (map the_view items) = position (has_id ident) items"
  by (rule position_map) (use assms view_id in \<open>auto simp: all_ok_def\<close>)

lemma all_ok_insert_at: "all_ok items \<Longrightarrow> item_ok j \<Longrightarrow> all_ok (insert_at i j items)"
  by (auto simp: all_ok_def)

lemma upsert_refines:
  assumes "all_ok items" "bt_wf (mw_lanes w)"
  shows "case spec_upsert w frozen before (map the_view items) of
      Inl e \<Rightarrow> upsert_items w frozen before items = Some (Inl e)
    | Inr bs \<Rightarrow> \<exists>items'. upsert_items w frozen before items = Some (Inr items') \<and> all_ok items' \<and> map the_view items' = bs"
proof (cases "find (has_id (mw_id w)) items = None")
  case True
  then have new: "\<not> (\<exists>b\<in>set (map the_view items). ub_id b = mw_id w)" using find_id [OF assms(1)] by blast
  have block: "item_ok (block_json (mw_id w) (mw_owner w) (mw_text w) (mw_lanes w))"
      "the_view (block_json (mw_id w) (mw_owner w) (mw_text w) (mw_lanes w)) = new_block w"
    using block_json_ok [OF assms(2)] by (simp_all add: new_block_def)
  show ?thesis
  proof (cases before)
    case None
    have "all_ok (items @ [block_json (mw_id w) (mw_owner w) (mw_text w) (mw_lanes w)])"
      using assms(1) block by (simp add: all_ok_def)
    then show ?thesis using True new block None by (simp add: upsert_items_def spec_upsert_def)
  next
    case (Some anchor)
    then show ?thesis
      using True new block position_id [OF assms(1), of anchor] all_ok_insert_at [OF assms(1) block(1)]
      by (auto simp: upsert_items_def spec_upsert_def map_insert_at split: option.splits)
  qed
next
  case False
  then have "\<exists>b\<in>set (map the_view items). ub_id b = mw_id w" using find_id [OF assms(1)] by blast
  moreover obtain items' where "change_first (has_id (mw_id w)) (update_existing w frozen) items = Some items'"
      "all_ok items'" "map the_view items' = update_first (\<lambda>b. ub_id b = mw_id w)
         (\<lambda>b. b\<lparr>ub_text := mw_text w, ub_lanes := write_lanes frozen (mw_lanes w) (ub_lanes b)\<rparr>) (map the_view items)"
    using change_first_refines [of items "mw_id w" "update_existing w frozen"
        "\<lambda>b. b\<lparr>ub_text := mw_text w, ub_lanes := write_lanes frozen (mw_lanes w) (ub_lanes b)\<rparr>"]
      assms(1) False update_existing_ok by blast
  ultimately show ?thesis using False by (simp add: upsert_items_def spec_upsert_def)
qed

lemma mutate_refines:
  assumes "all_ok items"
    and "\<And>j. item_ok j \<Longrightarrow> \<exists>j'. f j = Some j' \<and> item_ok j' \<and> the_view j' = g (the_view j)"
  shows "case spec_mutate ident g (map the_view items) of
      Inl e \<Rightarrow> mutate_items ident f items = Some (Inl e)
    | Inr bs \<Rightarrow> \<exists>items'. mutate_items ident f items = Some (Inr items') \<and> all_ok items' \<and> map the_view items' = bs"
proof (cases "find (has_id ident) items = None")
  case True
  then show ?thesis using find_id [OF assms(1), of ident] by (simp add: mutate_items_def spec_mutate_def)
next
  case False
  then show ?thesis
    using change_first_refines [of items ident f g, OF assms(1) False assms(2)] find_id [OF assms(1), of ident]
    by (auto simp: mutate_items_def spec_mutate_def)
qed

lemma splice_refines:
  assumes "all_ok items" "\<forall>b\<in>set new. bt_wf (ub_lanes b)"
  shows "case spec_splice new cursor n (map the_view items) of
    (n', bs) \<Rightarrow> \<exists>items'. splice_blocks new cursor n items = (n', items') \<and> all_ok items' \<and> map the_view items' = bs"
  using assms
proof (induction new arbitrary: cursor n items)
  case (Cons b new)
  have hit: "(\<exists>x\<in>set (map the_view items). ub_id x = ub_id b) \<longleftrightarrow> (\<exists>item\<in>set items. has_id (ub_id b) item)"
    using Cons.prems(1) view_id by (auto simp: all_ok_def)
  have block: "item_ok (block_json (ub_id b) (ub_owner b) (ub_text b) (ub_lanes b))"
      "the_view (block_json (ub_id b) (ub_owner b) (ub_text b) (ub_lanes b)) = b"
    using block_json_ok [of "ub_lanes b" "ub_id b" "ub_owner b" "ub_text b"] Cons.prems(2) by simp_all
  show ?case
  proof (cases "\<exists>item\<in>set items. has_id (ub_id b) item")
    case True
    then show ?thesis using Cons.IH [OF Cons.prems(1), of cursor n] Cons.prems(2) hit by simp
  next
    case False
    then show ?thesis
      using Cons.IH [OF all_ok_insert_at [OF Cons.prems(1) block(1)], of "cursor + 1" "n + 1" cursor] Cons.prems(2) hit block(2)
      by (simp add: map_insert_at)
  qed
qed simp

lemma section_refines:
  assumes "all_ok items"
  shows "case spec_section session (map the_view items) of
      Inl e \<Rightarrow> session_slice_range items session = Inl e
    | Inr (before, section, rest) \<Rightarrow> map the_view items = before @ section @ rest \<and>
        session_slice_range items session =
          (if section = [] then Inr None else Inr (Some (length before, length before + length section)))"
proof -
  obtain before core ann rest where parts:
      "section_parts block_owner (capture_owner session) items = (before, core, ann, rest)"
    using prod_cases4 by blast
  have "section_parts ub_owner (capture_owner session) (map the_view items) =
      (map the_view before, map the_view core, map the_view ann, map the_view rest)"
    using section_parts_map [of items block_owner ub_owner the_view] assms view_owner parts by (simp add: all_ok_def)
  moreover have "items = before @ core @ ann @ rest" by (rule section_parts_split(1) [OF parts])
  moreover have "block_owner x = ub_owner (the_view x)" if "x \<in> set core" for x
    using assms that view_owner \<open>items = _\<close> by (simp add: all_ok_def)
  then have "(\<exists>b\<in>set (map the_view core). ub_owner b \<noteq> capture_owner session \<and> ub_owner b \<noteq> user_owner) \<longleftrightarrow>
      (\<exists>x\<in>set core. block_owner x \<noteq> capture_owner session \<and> block_owner x \<noteq> user_owner)" by simp
  ultimately show ?thesis
    using slice_range_parts [OF parts] by (auto simp: spec_section_def)
qed

section \<open>Refinement of the calls\<close>

definition facade_ok :: "('d, 'c) mirror \<Rightarrow> bool" where
  "facade_ok m \<longleftrightarrow> \<not> mi_syncing m \<and> state_ok (mi_state m)"

text \<open>How a committed edit ends: the new items are the state, or writing the document failed, with an
  error that is not one of validation, and the state is as before.\<close>

definition settles ::
    "('d, 'c) loro_api \<Rightarrow> ('d, 'c) mirror \<Rightarrow> utterance_block list \<Rightarrow> 'a \<Rightarrow> (projection_error + 'a) \<times> ('d, 'c) mirror \<Rightarrow> bool" where
  "settles api m bs n res \<longleftrightarrow>
     facade_ok (snd res) \<and>
     ((fst res = Inr n \<and> blocks (snd res) = bs) \<or>
      (\<exists>e new. fst res = Inl (ProjectionMirror e) \<and> blocks (snd res) = blocks m \<and>
         validate_schema transcript_slots transcript_schema (Some new) = Inr () \<and>
         fst (fenced_update (transcript_env api) new m) = Inl e))"

lemma commit_settles:
  assumes "facade_ok m" "state_ok s"
  shows "settles api m (blocks (m\<lparr>mi_state := s\<rparr>)) n (commit_count (transcript_env api) s origin n m)"
proof -
  have acc: "accepts (transcript_env api) s"
    using state_valid [OF assms(2)] by (simp add: accepts_def transcript_env_def)
  obtain r m' where run: "set_state (transcript_env api) (\<lambda>_. s) (Some [origin]) m = (r, m')" by fastforce
  have sync: "\<not> mi_syncing m" using assms(1) by (simp add: facade_ok_def)
  note outcome = set_state_cases [OF sync run]
  show ?thesis
  proof (cases r)
    case (Inl e)
    then have "fst (fenced_update (transcript_env api) s m) = Inl e"
      using run set_state_accepted [of m "transcript_env api" "\<lambda>_. s" "Some [origin]"] sync acc
      by (auto split: prod.splits sum.splits)
    then show ?thesis
      using outcome Inl run assms state_valid [OF assms(2)]
      by (auto simp: settles_def commit_count_def commit_def facade_ok_def blocks_def)
  next
    case (Inr u)
    then show ?thesis
      using outcome run assms by (simp add: settles_def commit_count_def commit_def facade_ok_def blocks_def)
  qed
qed

lemma settles_unchanged: "facade_ok m \<Longrightarrow> settles api m (blocks m) n (Inr n, m)"
  by (simp add: settles_def)

lemma counted_commit: "counted (Some (commit env s origin m)) = Some (commit_count env s origin 0 m)"
  by (simp add: counted_def commit_count_def split: prod.split)

text \<open>What a call does against the specification: its error, and nothing else, or it settles.\<close>

definition refines_call ::
    "('d, 'c) loro_api \<Rightarrow> ('d, 'c) mirror \<Rightarrow> projection_error + utterance_block list \<times> nat \<Rightarrow> ('d, 'c, nat) call \<Rightarrow> bool" where
  "refines_call api m spec result \<longleftrightarrow>
     (case spec of
        Inl e \<Rightarrow> result = Some (Inl e, m)
      | Inr (bs, n) \<Rightarrow> \<exists>res. result = Some res \<and> settles api m bs n res)"

lemma counted_error: "counted (Some (Inl e, m)) = Some (Inl e, m)"
  by (simp add: counted_def)

lemma refused_refines: "refines_call api m (Inl e) (Some (Inl e, m))"
  by (simp add: refines_call_def)

lemma facade_items:
  assumes "facade_ok m"
  obtains obj where "ensure_items (mi_state m) = Some (obj, items_of (mi_state m))" "all_ok (items_of (mi_state m))"
    "blocks m = map the_view (items_of (mi_state m))"
    "\<And>items. all_ok items \<Longrightarrow> state_ok (put_items obj items) \<and> blocks (m\<lparr>mi_state := put_items obj items\<rparr>) = map the_view items"
proof -
  obtain obj where obj: "ensure_items (mi_state m) = Some (obj, items_of (mi_state m))"
      "\<forall>x\<in>set (items_of (mi_state m)). item_ok x"
      "\<forall>items. (\<forall>x\<in>set items. item_ok x) \<longrightarrow> state_ok (put_items obj items)" "\<forall>items. items_of (put_items obj items) = items"
    using ensure_items_ok assms unfolding facade_ok_def by blast
  show thesis
  proof (rule that [OF obj(1)])
    show "all_ok (items_of (mi_state m))" using obj(2) by (simp add: all_ok_def)
    show "blocks m = map the_view (items_of (mi_state m))" by (rule blocks_ok [OF obj(2)])
    show "state_ok (put_items obj items) \<and> blocks (m\<lparr>mi_state := put_items obj items\<rparr>) = map the_view items"
      if "all_ok items" for items
      using that obj(3,4) by (simp add: all_ok_def blocks_def map_filter_view)
  qed
qed

lemma committed_refines:
  assumes "facade_ok m"
    and put: "\<And>items. all_ok items \<Longrightarrow> state_ok (put_items obj items) \<and> blocks (m\<lparr>mi_state := put_items obj items\<rparr>) = map the_view items"
    and "case spec of Inl e \<Rightarrow> edited = Some (Inl e)
         | Inr bs \<Rightarrow> \<exists>items'. edited = Some (Inr items') \<and> all_ok items' \<and> map the_view items' = bs"
  shows "refines_call api m (changed spec) (counted (committed (transcript_env api) obj origin m edited))"
proof (cases spec)
  case (Inl e)
  then show ?thesis using assms(3) by (simp add: refines_call_def changed_def committed_def counted_def)
next
  case (Inr bs)
  then obtain items' where items': "edited = Some (Inr items')" "all_ok items'" "map the_view items' = bs" using assms(3) by auto
  have "settles api m bs 0 (commit_count (transcript_env api) (put_items obj items') origin 0 m)"
    using commit_settles [OF assms(1) put [OF items'(2), THEN conjunct1]] put [OF items'(2)] items'(3) by simp
  then show ?thesis using Inr items'(1) by (simp add: refines_call_def changed_def committed_def counted_commit)
qed

lemma upsert_call_refines:
  assumes "facade_ok m" "bt_wf (mw_lanes w)"
  shows "refines_call api m (spec_step (Upsert w frozen before) (blocks m))
    (projection_step (transcript_env api) (Upsert w frozen before) m)"
proof -
  obtain obj where obj: "ensure_items (mi_state m) = Some (obj, items_of (mi_state m))" "all_ok (items_of (mi_state m))"
    "blocks m = map the_view (items_of (mi_state m))"
    "\<And>items. all_ok items \<Longrightarrow> state_ok (put_items obj items) \<and> blocks (m\<lparr>mi_state := put_items obj items\<rparr>) = map the_view items"
    using facade_items [OF assms(1)] by blast
  have "refines_call api m (changed (spec_upsert w frozen before (blocks m)))
      (counted (committed (transcript_env api) obj (lit ''machine'') m (upsert_items w frozen before (items_of (mi_state m)))))"
    unfolding obj(3) by (rule committed_refines [OF assms(1) obj(4) upsert_refines [OF obj(2) assms(2)]])
  then show ?thesis
    using obj(1) by (cases "validate_lanes (bt_keys (mw_lanes w))")
      (simp_all add: machine_upsert_block_def counted_error refused_refines)
qed

lemma mutate_call_refines:
  assumes "facade_ok m" and "\<And>j. item_ok j \<Longrightarrow> \<exists>j'. f j = Some j' \<and> item_ok j' \<and> the_view j' = g (the_view j)"
  shows "refines_call api m (changed (spec_mutate ident g (blocks m))) (counted (mutate_block (transcript_env api) ident origin f m))"
proof -
  obtain obj where obj: "ensure_items (mi_state m) = Some (obj, items_of (mi_state m))" "all_ok (items_of (mi_state m))"
    "blocks m = map the_view (items_of (mi_state m))"
    "\<And>items. all_ok items \<Longrightarrow> state_ok (put_items obj items) \<and> blocks (m\<lparr>mi_state := put_items obj items\<rparr>) = map the_view items"
    using facade_items [OF assms(1)] by blast
  have "refines_call api m (changed (spec_mutate ident g (blocks m)))
      (counted (committed (transcript_env api) obj origin m (mutate_items ident f (items_of (mi_state m)))))"
    unfolding obj(3) by (rule committed_refines [OF assms(1) obj(4) mutate_refines [of "items_of (mi_state m)" f g, OF obj(2) assms(2)]])
  then show ?thesis using obj(1) by (simp add: mutate_block_def)
qed

lemma annotate_call_refines:
  assumes "facade_ok m"
  shows "refines_call api m (spec_step (Annotate i ident txt) (blocks m))
    (projection_step (transcript_env api) (Annotate i ident txt) m)"
proof -
  obtain obj where obj: "ensure_items (mi_state m) = Some (obj, items_of (mi_state m))" "all_ok (items_of (mi_state m))"
    "blocks m = map the_view (items_of (mi_state m))"
    "\<And>items. all_ok items \<Longrightarrow> state_ok (put_items obj items) \<and> blocks (m\<lparr>mi_state := put_items obj items\<rparr>) = map the_view items"
    using facade_items [OF assms] by blast
  let ?items = "insert_at (min i (length (items_of (mi_state m)))) (block_json ident user_owner txt []) (items_of (mi_state m))"
  have block: "item_ok (block_json ident user_owner txt [])"
      "the_view (block_json ident user_owner txt []) = \<lparr>ub_id = ident, ub_owner = user_owner, ub_text = txt, ub_lanes = []\<rparr>"
    using block_json_ok [of "[]"] by simp_all
  have "refines_call api m (changed (Inr (map the_view ?items)))
      (counted (committed (transcript_env api) obj (lit ''user'') m (Some (Inr ?items))))"
    by (rule committed_refines [OF assms obj(4)]) (simp_all add: all_ok_insert_at obj(2) block(1))
  then show ?thesis
    using obj(1,3) by (simp add: insert_annotation_def counted_error refused_refines changed_def map_insert_at block(2))
qed

lemma counted_settles:
  assumes "facade_ok m" "state_ok (put_items obj items')" "blocks (m\<lparr>mi_state := put_items obj items'\<rparr>) = bs"
  shows "refines_call api m (Inr (bs, n)) (Some (commit_count (transcript_env api) (put_items obj items') origin n m))"
  using commit_settles [OF assms(1,2), of api n origin] assms(3) by (simp add: refines_call_def)

lemma unchanged_refines: "facade_ok m \<Longrightarrow> refines_call api m (Inr (blocks m, n)) (Some (Inr n, m))"
  by (simp add: refines_call_def settles_unchanged)

lemma purge_call_refines:
  assumes "facade_ok m"
  shows "refines_call api m (spec_step (Purge session) (blocks m)) (projection_step (transcript_env api) (Purge session) m)"
proof -
  let ?items = "items_of (mi_state m)"
  obtain obj where obj: "ensure_items (mi_state m) = Some (obj, ?items)" "all_ok ?items"
    "blocks m = map the_view ?items"
    "\<And>items. all_ok items \<Longrightarrow> state_ok (put_items obj items) \<and> blocks (m\<lparr>mi_state := put_items obj items\<rparr>) = map the_view items"
    using facade_items [OF assms] by blast
  let ?kept = "filter (\<lambda>item. str_member (lit ''owner'') item \<noteq> Some (capture_owner session)) ?items"
  have kept: "?kept = filter (\<lambda>item. ub_owner (the_view item) \<noteq> capture_owner session) ?items"
    by (rule filter_cong) (use obj(2) view_owner_str in \<open>auto simp: all_ok_def\<close>)
  have views: "map the_view ?kept = filter (\<lambda>b. ub_owner b \<noteq> capture_owner session) (blocks m)"
    unfolding kept obj(3) by (simp add: filter_map comp_def)
  have n: "length ?items - length ?kept = length (filter (\<lambda>b. ub_owner b = capture_owner session) (blocks m))"
    using sum_length_filter_compl [of "\<lambda>b. ub_owner b = capture_owner session" "blocks m"] arg_cong [OF views, of length] obj(3)
    by simp
  have "all_ok ?kept" using obj(2) by (simp add: all_ok_def)
  note ok = obj(4) [OF this]
  show ?thesis
  proof (cases "length ?items - length ?kept = 0")
    case True
    then have "filter (\<lambda>b. ub_owner b = capture_owner session) (blocks m) = []" using n by simp
    then have "filter (\<lambda>b. ub_owner b \<noteq> capture_owner session) (blocks m) = blocks m" by (simp add: filter_empty_conv filter_id_conv)
    then show ?thesis
      using True obj(1) n unchanged_refines [OF assms, of api 0] by (simp add: purge_session_blocks_def Let_def)
  next
    case False
    have "blocks (m\<lparr>mi_state := put_items obj ?kept\<rparr>) = filter (\<lambda>b. ub_owner b \<noteq> capture_owner session) (blocks m)"
      using ok views by simp
    moreover have "purge_session_blocks (transcript_env api) session m =
        Some (commit_count (transcript_env api) (put_items obj ?kept) (lit ''purge'') (length ?items - length ?kept) m)"
      using False obj(1) unfolding purge_session_blocks_def Let_def by (simp only: Option.bind.simps prod.case if_False)
    ultimately show ?thesis
      using counted_settles [OF assms ok [THEN conjunct1], of _ api "length ?items - length ?kept" "lit ''purge''"]
      unfolding spec_step.simps projection_step.simps n [symmetric] by (simp only: simp_thms)
  qed
qed

lemma splice_none: "spec_splice new cursor n bs = (n', bs') \<Longrightarrow> n \<le> n' \<and> (n' = n \<longrightarrow> bs' = bs)"
proof (induction new arbitrary: cursor n bs)
  case (Cons b new)
  then show ?case
  proof (cases "\<exists>x\<in>set bs. ub_id x = ub_id b")
    case False
    then have "Suc n \<le> n'" using Cons.IH [of "cursor + 1" "n + 1" "insert_at cursor b bs"] Cons.prems by simp
    then show ?thesis by simp
  next
    case True
    then show ?thesis using Cons.IH [of cursor n bs] Cons.prems by simp
  qed
qed simp

lemma splice_call_refines:
  assumes "facade_ok m" "\<forall>b\<in>set new. bt_wf (ub_lanes b)"
  shows "refines_call api m (spec_step (Splice new before) (blocks m)) (projection_step (transcript_env api) (Splice new before) m)"
proof -
  let ?items = "items_of (mi_state m)"
  obtain obj where obj: "ensure_items (mi_state m) = Some (obj, ?items)" "all_ok ?items"
    "blocks m = map the_view ?items"
    "\<And>items. all_ok items \<Longrightarrow> state_ok (put_items obj items) \<and> blocks (m\<lparr>mi_state := put_items obj items\<rparr>) = map the_view items"
    using facade_items [OF assms(1)] by blast
  have run: "refines_call api m (case spec_splice new cursor 0 (blocks m) of (n, bs') \<Rightarrow> Inr (bs', n))
      (case splice_blocks new cursor 0 ?items of (inserted, items') \<Rightarrow>
         if inserted = 0 then Some (Inr 0, m)
         else Some (commit_count (transcript_env api) (put_items obj items') (lit ''move'') inserted m))" for cursor
  proof -
    obtain n bs' where spec: "spec_splice new cursor 0 (blocks m) = (n, bs')" by fastforce
    obtain items' where items': "splice_blocks new cursor 0 ?items = (n, items')" "all_ok items'" "map the_view items' = bs'"
      using splice_refines [OF obj(2) assms(2), of cursor 0] spec obj(3) by auto
    show ?thesis
    proof (cases "n = 0")
      case True
      then show ?thesis using spec items'(1) splice_none [OF spec] unchanged_refines [OF assms(1), of api 0] by simp
    next
      case False
      then show ?thesis
        using spec items' obj(4) [OF items'(2)] counted_settles [OF assms(1) obj(4) [OF items'(2), THEN conjunct1] refl]
        by simp
    qed
  qed
  show ?thesis
  proof (cases "(\<exists>b\<in>set new. ub_id b = []) \<or> validate_lanes (concat (map (\<lambda>b. bt_keys (ub_lanes b)) new)) \<noteq> Inr ()")
    case True
    then show ?thesis
      by (cases "validate_lanes (concat (map (\<lambda>b. bt_keys (ub_lanes b)) new))")
        (auto simp: splice_session_slice_def refused_refines)
  next
    case False
    then have step: "projection_step (transcript_env api) (Splice new before) m =
        (case (case before of None \<Rightarrow> Inr (length ?items)
               | Some anchor \<Rightarrow> ok_or (BlockNotFound anchor) (position (has_id anchor) ?items)) of
           Inl e \<Rightarrow> Some (Inl e, m)
         | Inr cursor \<Rightarrow>
             (case splice_blocks new cursor 0 ?items of (inserted, items') \<Rightarrow>
                if inserted = 0 then Some (Inr 0, m)
                else Some (commit_count (transcript_env api) (put_items obj items') (lit ''move'') inserted m)))"
      using obj(1) by (auto simp: splice_session_slice_def)
    show ?thesis
    proof (cases before)
      case None
      then show ?thesis using False run [of "length ?items"] obj(3) step by simp
    next
      case (Some anchor)
      then show ?thesis
        using False run step position_id [OF obj(2), of anchor] obj(3)
        by (cases "position (has_id anchor) ?items") (simp_all add: refused_refines)
    qed
  qed
qed

lemma remove_call_refines:
  assumes "facade_ok m"
  shows "refines_call api m (spec_step (RemoveSlice session) (blocks m)) (projection_step (transcript_env api) (RemoveSlice session) m)"
proof -
  let ?items = "items_of (mi_state m)"
  obtain obj where obj: "ensure_items (mi_state m) = Some (obj, ?items)" "all_ok ?items"
    "blocks m = map the_view ?items"
    "\<And>items. all_ok items \<Longrightarrow> state_ok (put_items obj items) \<and> blocks (m\<lparr>mi_state := put_items obj items\<rparr>) = map the_view items"
    using facade_items [OF assms] by blast
  show ?thesis
  proof (cases "spec_section session (blocks m)")
    case (Inl e)
    then show ?thesis
      using section_refines [OF obj(2), of session] obj by (simp add: remove_session_slice_def refused_refines)
  next
    case (Inr parts)
    obtain before sect rest where parts: "parts = (before, sect, rest)" by (cases parts) auto
    have sec: "blocks m = before @ sect @ rest"
        "session_slice_range ?items session =
          (if sect = [] then Inr None else Inr (Some (length before, length before + length sect)))"
      using section_refines [OF obj(2), of session] obj(3) Inr parts by simp_all
    show ?thesis
    proof (cases "sect = []")
      case True
      then show ?thesis
        using Inr parts sec obj(1) unchanged_refines [OF assms, of api 0] by (simp add: remove_session_slice_def)
    next
      case False
      let ?left = "take (length before) ?items @ drop (length before + length sect) ?items"
      have left: "all_ok ?left" using obj(2) by (auto simp: all_ok_def dest: in_set_takeD in_set_dropD)
      have "map the_view ?left = before @ rest"
        using sec(1) unfolding obj(3) by (simp add: take_map [symmetric] drop_map [symmetric])
      then show ?thesis
        using counted_settles [OF assms obj(4) [OF left, THEN conjunct1] refl, of api "length sect" "lit ''move''"]
          obj(4) [OF left] Inr parts sec(2) False obj(1)
        by (simp add: remove_session_slice_def)
    qed
  qed
qed

lemma call_refines:
  assumes "facade_ok m" "call_ok call"
  shows "refines_call api m (spec_step call (blocks m)) (projection_step (transcript_env api) call m)"
proof (cases call)
  case (Upsert w frozen before)
  then show ?thesis using upsert_call_refines [OF assms(1)] assms(2) by (simp del: spec_step.simps projection_step.simps)
next
  case (ReplaceLane ident lane t)
  have "refines_call api m (changed (spec_mutate ident (\<lambda>b. b\<lparr>ub_lanes := bt_insert lane t (ub_lanes b)\<rparr>) (blocks m)))
      (counted (mutate_block (transcript_env api) ident (lit ''user'') (set_lane lane t) m))"
    by (rule mutate_call_refines [OF assms(1)]) (rule set_lane_ok)
  then show ?thesis
    using ReplaceLane by (cases "validate_lanes [lane]") (simp_all add: user_replace_lane_def counted_error refused_refines)
next
  case (ReplaceText ident t)
  have "refines_call api m (changed (spec_mutate ident (\<lambda>b. b\<lparr>ub_text := t\<rparr>) (blocks m)))
      (counted (mutate_block (transcript_env api) ident (lit ''user'') (assign (lit ''text'') (JString t)) m))"
    by (rule mutate_call_refines [OF assms(1)]) (rule set_text_ok)
  then show ?thesis using ReplaceText by (simp add: user_replace_text_def)
next
  case (Annotate i ident t)
  then show ?thesis by (simp only: annotate_call_refines [OF assms(1)])
next
  case (Purge session)
  then show ?thesis by (simp only: purge_call_refines [OF assms(1)])
next
  case (Splice new before)
  then show ?thesis using splice_call_refines [OF assms(1)] assms(2) by (simp del: spec_step.simps projection_step.simps)
next
  case (RemoveSlice session)
  then show ?thesis by (simp only: remove_call_refines [OF assms(1)])
qed

lemma facade_step:
  assumes "facade_ok m" "call_ok call"
  obtains r m' where "projection_step (transcript_env api) call m = Some (r, m')" "facade_ok m'"
    "case spec_step call (blocks m) of
       Inl e \<Rightarrow> r = Inl e \<and> m' = m
     | Inr (bs, n) \<Rightarrow> (r = Inr n \<and> blocks m' = bs) \<or>
         (\<exists>e new. r = Inl (ProjectionMirror e) \<and> blocks m' = blocks m \<and>
            validate_schema transcript_slots transcript_schema (Some new) = Inr () \<and>
            fst (fenced_update (transcript_env api) new m) = Inl e)"
proof (cases "spec_step call (blocks m)")
  case (Inl e)
  then show thesis using that [of "Inl e" m] call_refines [OF assms, of api] assms(1) by (simp add: refines_call_def)
next
  case (Inr x)
  obtain bs n where x: "x = (bs, n)" by fastforce
  then obtain res where "projection_step (transcript_env api) call m = Some res" "settles api m bs n res"
    using call_refines [OF assms, of api] Inr by (auto simp: refines_call_def)
  then show thesis using that [of "fst res" "snd res"] Inr x by (simp add: settles_def)
qed

text \<open>C25: The facade implements the abstract transcript. From a well-formed state, every call (machine
  write, user correction, annotation, purge, splice, removal of a section) returns, without a panic,
  and leaves a well-formed state. What the specification refuses is refused with that very error and
  changes nothing; otherwise the blocks are those of the specification with its count, or writing the
  document failed and the blocks are as before. The schema never refuses the state of the facade.\<close>

theorem facade_refines_transcript:
  assumes "facade_ok m" "call_ok call"
  shows "\<exists>r m'. projection_step (transcript_env api) call m = Some (r, m') \<and> facade_ok m' \<and>
    (case spec_step call (blocks m) of
       Inl e \<Rightarrow> r = Inl e \<and> m' = m
     | Inr (bs, n) \<Rightarrow> (r = Inr n \<and> blocks m' = bs) \<or>
         (\<exists>e new. r = Inl (ProjectionMirror e) \<and> blocks m' = blocks m \<and>
            validate_schema transcript_slots transcript_schema (Some new) = Inr () \<and>
            fst (fenced_update (transcript_env api) new m) = Inl e))"
  using facade_step [OF assms, of api] by blast

definition blank_transcript :: "(mem_doc, container_id) mirror" where
  "blank_transcript =
     \<lparr>mi_world = \<lparr>w_doc = mem_empty [(transcript_utterances, CList)], w_registry = (\<lambda>_. None)\<rparr>, mi_state = JObject [],
      mi_syncing = False, mi_subscribers = [], mi_next_subscriber_id = 0, mi_notified = []\<rparr>"

lemma blank_transcript_ok: "facade_ok blank_transcript" "blocks blank_transcript = []"
  by (simp_all add: blank_transcript_def facade_ok_def state_ok_def object_or_null_def blocks_def items_of_def)

theorem facade_refines_transcript_witness:
  "\<exists>r m'. projection_step (transcript_env mem_api) (Annotate 7 [1] [2]) blank_transcript = Some (r, m') \<and>
     facade_ok m' \<and> (r = Inr 0 \<longrightarrow> map ub_id (blocks m') = [[1]])"
proof -
  have "call_ok (Annotate 7 [1] [2])" by simp
  from facade_refines_transcript [OF blank_transcript_ok(1) this, of mem_api] obtain r m' where
      "projection_step (transcript_env mem_api) (Annotate 7 [1] [2]) blank_transcript = Some (r, m')" "facade_ok m'"
      "r = Inr 0 \<longrightarrow> blocks m' = [\<lparr>ub_id = [1], ub_owner = user_owner, ub_text = [2], ub_lanes = []\<rparr>]"
    by (auto simp: blank_transcript_ok(2) insert_at_def)
  then show ?thesis by (metis list.map utterance_block.simps(1))
qed

section \<open>Machine writes\<close>

lemma view_lanes_wf: "item_ok j \<Longrightarrow> bt_wf (ub_lanes (the_view j))"
  by (auto simp: item_ok_def the_view_def block_view_def str_member_object lanes_ok_def lane_view_wf)

lemma blocks_lanes_wf: "facade_ok m \<Longrightarrow> \<forall>b\<in>set (blocks m). bt_wf (ub_lanes b)"
  by (rule facade_items [of m], assumption) (auto simp: all_ok_def view_lanes_wf)

text \<open>C26: Machine writes give way to the user. When the machine writes a block that is already there,
  no block appears, disappears, moves or changes its owner, and only the first block with that
  identifier changes; in it a frozen lane keeps its text, a lane the write does not mention keeps its
  text, and the other lanes and the original text are the written ones. No lane is ever lost.\<close>

theorem machine_write_keeps_lanes:
  assumes "facade_ok m" "bt_wf (mw_lanes w)" "\<exists>b\<in>set (blocks m). ub_id b = mw_id w"
    and "machine_upsert_block (transcript_env api) w frozen before m = Some (Inr (), m')"
  shows "\<exists>us b b' vs. blocks m = us @ b # vs \<and> blocks m' = us @ b' # vs \<and>
    ub_id b = mw_id w \<and> (\<forall>u\<in>set us. ub_id u \<noteq> mw_id w) \<and>
    ub_id b' = ub_id b \<and> ub_owner b' = ub_owner b \<and> ub_text b' = mw_text w \<and>
    (\<forall>lane. bt_get (ub_lanes b') lane =
       (case bt_get (mw_lanes w) lane of
          None \<Rightarrow> bt_get (ub_lanes b) lane
        | Some t \<Rightarrow> if lane \<in> set frozen then bt_get (ub_lanes b) lane else Some t))"
proof -
  let ?f = "\<lambda>b. b\<lparr>ub_text := mw_text w, ub_lanes := write_lanes frozen (mw_lanes w) (ub_lanes b)\<rparr>"
  have ok: "call_ok (Upsert w frozen before)" using assms(2) by simp
  have step: "projection_step (transcript_env api) (Upsert w frozen before) m = Some (Inr 0, m')"
    using assms(4) by (simp add: counted_def)
  have "mw_id w \<noteq> []" using assms(4) by (auto simp: machine_upsert_block_def)
  moreover have "validate_lanes (bt_keys (mw_lanes w)) = Inr ()"
    using assms(4) by (auto simp: machine_upsert_block_def split: if_splits sum.splits)
  ultimately have bs: "blocks m' = update_first (\<lambda>b. ub_id b = mw_id w) ?f (blocks m)"
    using facade_step [OF assms(1) ok, of api] step assms(3) by (auto simp: spec_upsert_def changed_def)
  obtain b0 where "find (\<lambda>b. ub_id b = mw_id w) (blocks m) = Some b0" using assms(3) by (metis (mono_tags) find_None_iff2 not_None_eq)
  from update_first_split [OF this, of ?f] obtain us vs where split: "blocks m = us @ b0 # vs" "ub_id b0 = mw_id w"
      "\<forall>u\<in>set us. ub_id u \<noteq> mw_id w" "blocks m' = us @ ?f b0 # vs"
    unfolding bs by auto
  have "bt_wf (ub_lanes b0)" using blocks_lanes_wf [OF assms(1)] split(1) by simp
  then show ?thesis
    using split write_lanes_get [OF _ assms(2), of "ub_lanes b0" frozen] by (intro exI [of _ us] exI [of _ b0] exI [of _ "?f b0"] exI [of _ vs]) auto
qed

section \<open>Updates that write nothing\<close>

text \<open>When the new items are a prefix of the old ones, the difference is empty: items that are dropped
  at the end cause no change, so the document stays as it is.\<close>

definition settled_state :: "json \<Rightarrow> bool" where
  "settled_state s \<longleftrightarrow> json_wf s \<and> (\<forall>k v. member k s = Some v \<longrightarrow> \<not> is_falsy (Some v))"

lemma diff_each_none: "\<forall>x\<in>set xs. f x = Inr [] \<Longrightarrow> diff_each f xs = Inr []"
  by (induction xs) auto

lemma utterances_schema: "bt_get [(transcript_utterances, SList 0 (Some utterance_id) default_options),
    (document_meta, schema_fields_of []), (purge_receipts, schema_fields_of [])] transcript_utterances =
    Some (SList 0 (Some utterance_id) default_options)"
  by simp

lemma prefix_changes:
  assumes "loro_document api live" "settled_state (JObject obj)"
    and old: "bt_get obj transcript_utterances = Some (JArray (stay @ dropped))"
  shows "diff_container (doc_view api d) transcript_slots (Some no_infer) (JObject obj) (put_items obj stay) None
      (Some transcript_schema) = Inr []"
proof -
  let ?d = "doc_view api d"
  let ?dc = "\<lambda>x y e s. diff_container ?d transcript_slots (Some no_infer) x y (Some e) s"
  have wf: "bt_wf obj" and items: "\<forall>x\<in>set stay. json_wf x"
    using assms(2) old bt_get_Some_in [of obj] by (fastforce simp: settled_state_def)+
  have kind: "ld_type ?d (ld_root ?d transcript_utterances CList) = CList"
    using loro_document.root_kind [OF assms(1)] by (simp add: doc_view_def)
  have child: "?dc (JArray (stay @ dropped)) (JArray stay) (ld_root ?d transcript_utterances CList)
      (Some (SList 0 (Some utterance_id) default_options)) = Inr []"
    using trailing_removals_lost [OF items] kind
    by (simp add: diff_container.simps container_id_to_container_type_def id_selector_of_def Let_def)
  have "diff_map_entry ?dc ?d (JObject obj) None (Some transcript_schema) (Some no_infer) e = Inr []"
    if e: "e \<in> set (bt_insert transcript_utterances (JArray stay) obj)" for e
  proof -
    obtain k v where kv: "e = (k, v)" by fastforce
    then have get: "bt_get (bt_insert transcript_utterances (JArray stay) obj) k = Some v"
      using e bt_get_Some_in [OF bt_wf_insert [OF wf]] by blast
    show ?thesis
    proof (cases "k = transcript_utterances")
      case True
      then have "v = JArray stay" using get wf by (simp add: bt_simps)
      moreover have "field_schema (Some transcript_schema) k = Some (SList 0 (Some utterance_id) default_options)"
        by (simp add: True field_schema_def schema_fields_def transcript_schema_eq)
      ultimately show ?thesis
        using True old child kv
        by (simp add: diff_map_entry_def object_get_def field_container_type_def root_container_id_def
            is_value_of_container_type_def is_object_def is_array_def Let_def)
    next
      case False
      then have v: "bt_get obj k = Some v" using get wf by (simp add: bt_simps)
      then have "\<not> is_falsy (Some v)" "json_wf v"
        using assms(2) bt_get_Some_in [OF wf] by (fastforce simp: settled_state_def)+
      then show ?thesis using v kv by (simp add: diff_map_entry_def object_get_def deep_equal_refl)
    qed
  qed
  then have "diff_each (diff_map_entry ?dc ?d (JObject obj) None (Some transcript_schema) (Some no_infer))
      (object_entries (put_items obj stay)) = Inr []"
    by (intro diff_each_none) (simp add: object_entries_def put_items_def)
  moreover have "filter (\<lambda>(key, _). object_get (put_items obj stay) key = None) (object_entries (JObject obj)) = []"
    using wf by (auto simp: filter_empty_conv object_get_def object_entries_def put_items_def bt_simps bt_get_Some_in)
  ultimately have "diff_map ?dc ?d (JObject obj) (put_items obj stay) None (Some transcript_schema) (Some no_infer) = Inr []"
    by (simp add: diff_map_def)
  then show ?thesis
    by (subst diff_container.simps) (simp add: is_object_like_def put_items_def transcript_schema_def)
qed

lemma prefix_update:
  assumes "loro_document api live" "settled_state (mi_state m)" "mi_state m = JObject obj" "\<not> mi_syncing m"
    and "bt_get obj transcript_utterances = Some (JArray (stay @ dropped))"
  shows "fenced_update (transcript_env api) (put_items obj stay) m = (Inr (), m)"
  using prefix_changes [of api live obj stay dropped "w_doc (mi_world m)"] assms
  by (simp add: fenced_update_def update_loro_def transcript_env_def apply_changes_to_loro_def group_changes_def ok_def)

lemma prefix_commit:
  assumes "loro_document api live" "settled_state (mi_state m)" "mi_state m = JObject obj" "facade_ok m"
    and "bt_get obj transcript_utterances = Some (JArray (stay @ dropped))" "state_ok (put_items obj stay)"
  shows "commit (transcript_env api) (put_items obj stay) origin m =
    (Inr (), notify_subscribers ToLoro (Some [origin]) (m\<lparr>mi_state := put_items obj stay\<rparr>))"
proof -
  have sync: "\<not> mi_syncing m" using assms(4) by (simp add: facade_ok_def)
  have "accepts (transcript_env api) (put_items obj stay)"
    using state_valid [OF assms(6)] by (simp add: accepts_def transcript_env_def)
  then show ?thesis
    using set_state_accepted [of m "transcript_env api" "\<lambda>_. put_items obj stay" "Some [origin]"]
      prefix_update [OF assms(1-3) sync assms(5)] sync
    by (simp add: commit_def)
qed

end
