(* ===== verification/Transcript_Moves.thy ===== *)
theory Transcript_Moves
  imports Transcript_Facade
begin

text \<open>
  Concrete runs of the facade, the move of a session between two transcripts, and the erasure of a
  session: what it does to the state, and the case where the document keeps the erased blocks.
\<close>

section \<open>A transcript in memory\<close>

definition stored :: "utterance_block \<Rightarrow> json" where
  "stored b = block_json (ub_id b) (ub_owner b) (ub_text b) (ub_lanes b)"

text \<open>A mirror whose state and document show the same blocks.\<close>

definition transcript_with :: "utterance_block list \<Rightarrow> (mem_doc, container_id) mirror" where
  "transcript_with bs =
     \<lparr>mi_world =
        \<lparr>w_doc = (mem_empty [(transcript_utterances, CList)])
           \<lparr>md_list := (\<lambda>_. map (\<lambda>b. Plain (json_to_loro (stored b))) bs)\<rparr>,
         w_registry = (\<lambda>_. None)\<rparr>,
      mi_state = JObject [(transcript_utterances, JArray (map stored bs))],
      mi_syncing = False, mi_subscribers = [], mi_next_subscriber_id = 0, mi_notified = []\<rparr>"

lemma stored_ok: "bt_wf (ub_lanes b) \<Longrightarrow> item_ok (stored b) \<and> the_view (stored b) = b"
  using block_json_ok [of "ub_lanes b"] by (simp add: stored_def)

lemma stored_wf: "bt_wf (ub_lanes b) \<Longrightarrow> json_wf (stored b)"
  by (auto simp: stored_def block_json_object lanes_json_def bt_wf_map) (simp add: bt_wf_def lit_def)

lemma transcript_with_ok:
  assumes "\<forall>b\<in>set bs. bt_wf (ub_lanes b)"
  shows "facade_ok (transcript_with bs)" "settled_state (mi_state (transcript_with bs))" "blocks (transcript_with bs) = bs"
proof -
  have items: "\<forall>x\<in>set (items_of (mi_state (transcript_with bs))). item_ok x" "items_of (mi_state (transcript_with bs)) = map stored bs"
    using assms stored_ok by (auto simp: transcript_with_def items_of_def)
  show "facade_ok (transcript_with bs)"
    using assms stored_ok by (auto simp: transcript_with_def facade_ok_def state_ok_def object_or_null_def bt_wf_def)
  show "settled_state (mi_state (transcript_with bs))"
    using assms stored_wf by (auto simp: transcript_with_def settled_state_def bt_wf_def split: if_splits)
  show "blocks (transcript_with bs) = bs"
    using blocks_ok [OF items(1)] assms stored_ok by (simp add: items(2) comp_def map_idI)
qed

theorem machine_write_keeps_lanes_witness:
  "\<exists>m' b'. machine_upsert_block (transcript_env mem_api)
       \<lparr>mw_id = [1], mw_owner = [2], mw_text = [3], mw_lanes = [(lit ''en'', [9])]\<rparr> [lit ''en''] None
       (transcript_with [\<lparr>ub_id = [1], ub_owner = [2], ub_text = [3], ub_lanes = [(lit ''en'', [4])]\<rparr>]) = Some (Inr (), m') \<and>
     blocks m' = [b'] \<and> bt_get (ub_lanes b') (lit ''en'') = Some [4]"
proof -
  let ?b = "\<lparr>ub_id = [1], ub_owner = [2], ub_text = [3], ub_lanes = [(lit ''en'', [4])]\<rparr>"
  let ?w = "\<lparr>mw_id = [1], mw_owner = [2], mw_text = [3], mw_lanes = [(lit ''en'', [9])]\<rparr>"
  let ?m = "transcript_with [?b]"
  let ?obj = "[(transcript_utterances, JArray [stored ?b])]"
  have wf: "\<forall>b\<in>set [?b]. bt_wf (ub_lanes b)" by (simp add: bt_wf_def)
  note ok = transcript_with_ok [OF wf]
  have state: "mi_state ?m = JObject ?obj" by (simp add: transcript_with_def)
  have put: "put_items ?obj [stored ?b] = JObject ?obj" by (simp add: put_items_def)
  have edit: "upsert_items ?w [lit ''en''] None [stored ?b] = Some (Inr [stored ?b])"
    by (simp add: upsert_items_def has_id_def stored_def block_json_object str_member_object change_first_def
        update_existing_def assign_def place_def lanes_json_def) (simp add: lit_def)
  have "state_ok (put_items ?obj [stored ?b])" using ok(1) by (simp only: put facade_ok_def state)
  then have "commit (transcript_env mem_api) (put_items ?obj [stored ?b]) (lit ''machine'') ?m =
      (Inr (), notify_subscribers ToLoro (Some [lit ''machine'']) (?m\<lparr>mi_state := put_items ?obj [stored ?b]\<rparr>))"
    by (intro prefix_commit [OF mem.loro_document_axioms ok(2) state ok(1), of _ "[]"]) simp_all
  moreover have "ensure_items (mi_state ?m) = Some (?obj, [stored ?b])" by (simp add: ensure_items_def transcript_with_def)
  moreover have "validate_lanes [lit ''en''] = Inr ()" by (simp add: validate_lanes_def supported_lanes_def)
  ultimately have run: "machine_upsert_block (transcript_env mem_api) ?w [lit ''en''] None ?m =
      Some (Inr (), notify_subscribers ToLoro (Some [lit ''machine'']) (?m\<lparr>mi_state := put_items ?obj [stored ?b]\<rparr>))"
    using edit by (simp add: machine_upsert_block_def committed_def bt_keys_def)
  have "bt_wf (mw_lanes ?w)" "\<exists>b\<in>set (blocks ?m). ub_id b = mw_id ?w" unfolding ok(3) by (simp_all add: bt_wf_def)
  from machine_write_keeps_lanes [OF ok(1) this run] obtain us b b' vs where
      "blocks ?m = us @ b # vs" "blocks (notify_subscribers ToLoro (Some [lit ''machine'']) (?m\<lparr>mi_state := put_items ?obj [stored ?b]\<rparr>)) = us @ b' # vs"
      "bt_get (ub_lanes b') (lit ''en'') = bt_get (ub_lanes b) (lit ''en'')"
    by auto
  moreover from this(1) have "us = [] \<and> b = ?b \<and> vs = []" unfolding ok(3) by (cases us) auto
  ultimately show ?thesis using run by auto
qed

section \<open>Erasing a session\<close>

text \<open>The document shows the items of the state.\<close>

definition in_step :: "('d, 'c) loro_api \<Rightarrow> ('d, 'c) mirror \<Rightarrow> bool" where
  "in_step api m \<longleftrightarrow>
     (let v = loro_to_json (lo_doc_value api (w_doc (mi_world m)))
      in json_wf v \<and> member transcript_utterances v = Some (JArray (items_of (mi_state m))))"

lemma shallow_assign_get:
  assumes "bt_wf tm" "bt_wf sm" "bt_get sm k = Some v"
  shows "member k (shallow_assign (JObject tm) (JObject sm)) = Some v"
proof -
  have "bt_get (bt.insert_all sm tm) k = Some v"
  proof -
    have "map_of (rev sm) k = Some v"
      using bt_wf_distinct [OF assms(2)] assms(2,3) by (intro map_of_is_SomeI) (simp_all add: rev_map [symmetric] bt_get_Some_in)
    then show ?thesis by (simp add: bt.get_insert_all [OF assms(1)])
  qed
  then show ?thesis by (simp add: shallow_assign_def bt.insert_all_def)
qed

lemma refresh_in_step:
  assumes "\<not> mi_syncing m" "mi_state m = JObject tm" "bt_wf tm" "json_wf v" "member transcript_utterances v = Some (JArray items)"
    and "v = loro_to_json (lo_doc_value (me_api env) (w_doc (mi_world m)))"
  shows "fst (refresh env m) = List.map_filter block_view items"
proof -
  obtain dm where dm: "v = JObject dm" "bt_get dm transcript_utterances = Some (JArray items)"
    using assms(5) by (auto simp: member_def split: json.splits)
  have "member transcript_utterances (shallow_assign (JObject tm) (JObject dm)) = Some (JArray items)"
    using shallow_assign_get [OF assms(3) _ dm(2)] assms(4) dm(1) by simp
  then show ?thesis
    using assms(1,2,6) dm(1) by (simp add: refresh_def sync_from_loro_def pull_def Let_def blocks_def items_of_def)
qed

lemma ensure_items_array:
  assumes "ensure_items s = Some (obj, items_of s)" "items_of s \<noteq> []"
  shows "s = JObject obj \<and> bt_get obj transcript_utterances = Some (JArray (items_of s))"
proof -
  obtain xs where "Option.bind (member transcript_utterances s) as_array = Some xs" "items_of s = xs"
    using assms(2) by (auto simp: items_of_def split: option.splits)
  then show ?thesis using assms(1) by (cases s) (auto simp: ensure_items_def bind_eq_Some_conv member_def)
qed

text \<open>C28: Erasing the last session of a transcript does not reach the document. When the blocks of the
  session are the last ones of the transcript (in particular when it is the only session), the call
  reports how many blocks it removed and the state no longer has them; but the difference between the
  two states is empty, so the document, which is what is saved and shared, still has every one of
  them, and reading the document again brings them back.\<close>

theorem last_session_erased_only_in_state:
  assumes "loro_document api live" "facade_ok m" "settled_state (mi_state m)"
    and "blocks m = others @ erased" "erased \<noteq> []"
    and "\<forall>b\<in>set others. ub_owner b \<noteq> capture_owner session" "\<forall>b\<in>set erased. ub_owner b = capture_owner session"
  shows "\<exists>m'. purge_session_blocks (transcript_env api) session m = Some (Inr (length erased), m') \<and>
    blocks m' = others \<and> mi_world m' = mi_world m \<and>
    (in_step api m \<longrightarrow> fst (refresh (transcript_env api) m') = others @ erased)"
proof -
  let ?items = "items_of (mi_state m)" and ?p = "\<lambda>item. str_member (lit ''owner'') item \<noteq> Some (capture_owner session)"
  obtain obj where obj: "ensure_items (mi_state m) = Some (obj, ?items)" "all_ok ?items"
    "blocks m = map the_view ?items"
    "\<And>items. all_ok items \<Longrightarrow> state_ok (put_items obj items) \<and> blocks (m\<lparr>mi_state := put_items obj items\<rparr>) = map the_view items"
    using facade_items [OF assms(2)] by blast
  obtain stay gone where split: "?items = stay @ gone" "map the_view stay = others" "map the_view gone = erased"
  proof -
    have "map the_view ?items = others @ erased" using obj(3) assms(4) by (simp only:)
    then show thesis unfolding map_eq_append_conv using that by blast
  qed
  have owner: "str_member (lit ''owner'') x = Some (ub_owner (the_view x))" if "x \<in> set ?items" for x
    by (rule view_owner_str) (use obj(2) that in \<open>simp add: all_ok_def\<close>)
  have kept: "filter ?p ?items = stay"
  proof -
    have "?p x" if "x \<in> set stay" for x
    proof -
      have "ub_owner (the_view x) \<noteq> capture_owner session" using assms(6) that unfolding split(2) [symmetric] by simp
      then show ?thesis using owner [of x] that unfolding split(1) by simp
    qed
    moreover have "\<not> ?p x" if "x \<in> set gone" for x
    proof -
      have "ub_owner (the_view x) = capture_owner session" using assms(7) that unfolding split(3) [symmetric] by simp
      then show ?thesis using owner [of x] that unfolding split(1) by simp
    qed
    ultimately have "filter ?p stay = stay" "filter ?p gone = []"
      by (simp_all add: filter_id_conv filter_empty_conv)
    then show ?thesis unfolding split(1) filter_append by simp
  qed
  have ne: "?items \<noteq> []" using split assms(5) by auto
  have state: "mi_state m = JObject obj" "bt_get obj transcript_utterances = Some (JArray ?items)"
    using ensure_items_array [OF obj(1) ne] by blast+
  have "all_ok stay" using obj(2) split(1) by (simp add: all_ok_def)
  note ok = obj(4) [OF this]
  let ?m' = "notify_subscribers ToLoro (Some [lit ''purge'']) (m\<lparr>mi_state := put_items obj stay\<rparr>)"
  have "bt_get obj transcript_utterances = Some (JArray (stay @ gone))" using state(2) by (simp only: split(1))
  from prefix_commit [OF assms(1,3) state(1) assms(2) this ok [THEN conjunct1]]
  have "commit (transcript_env api) (put_items obj stay) (lit ''purge'') m = (Inr (), ?m')" .
  moreover have "length ?items - length stay = length erased" "length erased \<noteq> 0"
    using assms(5) unfolding split(1) split(3) [symmetric] by simp_all
  ultimately have run: "purge_session_blocks (transcript_env api) session m = Some (Inr (length erased), ?m')"
    unfolding purge_session_blocks_def obj(1) Option.bind.simps prod.case kept Let_def commit_count_def
    by (simp only: if_False prod.case and_then_simps)
  have bs: "blocks ?m' = others" using ok split(2) by (simp add: blocks_def)
  have world: "mi_world ?m' = mi_world m" by simp
  have "fst (refresh (transcript_env api) ?m') = others @ erased"
    if "in_step api m"
  proof -
    have "\<not> mi_syncing ?m'" "mi_state ?m' = JObject (bt_insert transcript_utterances (JArray stay) obj)"
      using assms(2) by (simp_all add: facade_ok_def put_items_def)
    moreover have "bt_wf (bt_insert transcript_utterances (JArray stay) obj)"
      using assms(3) state(1) by (simp add: settled_state_def)
    ultimately show ?thesis
      using refresh_in_step [of ?m' _ _ ?items "transcript_env api"] that obj(2,3) assms(4)
      by (simp add: in_step_def Let_def transcript_env_def map_filter_view all_ok_def)
  qed
  then show ?thesis using run bs world by blast
qed

theorem last_session_erased_only_in_state_witness:
  "\<exists>m'. purge_session_blocks (transcript_env mem_api) [115]
       (transcript_with [\<lparr>ub_id = [1], ub_owner = capture_owner [115], ub_text = [3], ub_lanes = []\<rparr>]) = Some (Inr 1, m') \<and>
     blocks m' = [] \<and>
     mi_world m' = mi_world (transcript_with [\<lparr>ub_id = [1], ub_owner = capture_owner [115], ub_text = [3], ub_lanes = []\<rparr>])"
proof -
  let ?b = "\<lparr>ub_id = [1], ub_owner = capture_owner [115], ub_text = [3], ub_lanes = []\<rparr>"
  have "\<forall>b\<in>set [?b]. bt_wf (ub_lanes b)" by simp
  note ok = transcript_with_ok [OF this]
  have "blocks (transcript_with [?b]) = [] @ [?b]" using ok(3) by simp
  from last_session_erased_only_in_state [OF mem.loro_document_axioms ok(1,2) this, of "[115]"] show ?thesis by auto
qed

section \<open>Moving a session\<close>

lemma session_slice_spec:
  assumes "facade_ok m"
  shows "session_slice session m =
    Some (case spec_section session (blocks m) of Inl e \<Rightarrow> Inl e | Inr (_, sect, _) \<Rightarrow> Inr sect)"
proof -
  let ?items = "items_of (mi_state m)"
  obtain obj where obj: "all_ok ?items" "blocks m = map the_view ?items" using facade_items [OF assms] by blast
  show ?thesis
  proof (cases "Option.bind (member transcript_utterances (mi_state m)) as_array")
    case None
    then have "?items = []" by (simp add: items_of_def)
    then show ?thesis using None obj(2) by (simp add: session_slice_def spec_section_def section_parts_def)
  next
    case (Some items)
    then have items: "items = ?items" by (simp add: items_of_def)
    show ?thesis
    proof (cases "spec_section session (blocks m)")
      case (Inl e)
      then show ?thesis using section_refines [OF obj(1), of session] Some items obj(2) by (simp add: session_slice_def)
    next
      case (Inr x)
      obtain before sect rest where x: "x = (before, sect, rest)" by (cases x) auto
      then have "blocks m = before @ sect @ rest"
          "session_slice_range ?items session = (if sect = [] then Inr None else Inr (Some (length before, length before + length sect)))"
        using section_refines [OF obj(1), of session] Inr obj(2) by simp_all
      then show ?thesis using Some Inr x unfolding items by (simp add: session_slice_def)
    qed
  qed
qed

lemma splice_fresh:
  assumes "distinct (map ub_id new)" "ub_id ` set new \<inter> ub_id ` set bs = {}" "cursor \<le> length bs"
  shows "spec_splice new cursor n bs = (n + length new, take cursor bs @ new @ drop cursor bs)"
  using assms
proof (induction new arbitrary: cursor n bs)
  case (Cons b new)
  have "ub_id b \<notin> ub_id ` set bs" using Cons.prems(2) by auto
  then have "\<not> (\<exists>x\<in>set bs. ub_id x = ub_id b)" by (metis imageI)
  moreover have "ub_id ` set new \<inter> ub_id ` set (insert_at cursor b bs) = {}" using Cons.prems(1,2) by auto
  ultimately show ?case
    using Cons.IH [of "insert_at cursor b bs" "cursor + 1" "n + 1"] Cons.prems(1,3) by (simp add: insert_at_def)
qed simp

lemma splice_present: "ub_id ` set new \<subseteq> ub_id ` set bs \<Longrightarrow> spec_splice new cursor n bs = (n, bs)"
proof (induction new)
  case (Cons b new)
  then have "\<exists>x\<in>set bs. ub_id x = ub_id b" by force
  then show ?case using Cons by simp
qed simp

lemma position_take_drop: "position p xs = Some i \<Longrightarrow> i < length xs \<and> p (xs ! i)"
  using position_SomeD by blast

lemma section_removed:
  assumes "spec_section session bs = Inr (before, sect, rest)"
  shows "bs = before @ sect @ rest \<and> spec_section session (before @ rest) = Inr (before @ rest, [], [])"
proof -
  obtain b c ann r where parts: "section_parts ub_owner (capture_owner session) bs = (b, c, ann, r)"
    using prod_cases4 by blast
  note split = section_parts_split [OF parts]
  have eq: "bs = before @ sect @ rest" "\<forall>x\<in>set (before @ rest). ub_owner x \<noteq> capture_owner session"
  proof -
    consider "c = []" "before = bs" "sect = []" "rest = []" | "c \<noteq> []" "before = b" "sect = c @ ann" "rest = r"
      using assms parts by (auto simp: spec_section_def split: if_splits)
    then show "bs = before @ sect @ rest" "\<forall>x\<in>set (before @ rest). ub_owner x \<noteq> capture_owner session"
      using split(1,2,3,8) by (cases; auto)+
  qed
  obtain b' c' ann' r' where parts': "section_parts ub_owner (capture_owner session) (before @ rest) = (b', c', ann', r')"
    using prod_cases4 by blast
  have "c' = []" using section_parts_split(8) [OF parts'] eq(2) by blast
  then show ?thesis using eq(1) parts' by (simp add: spec_section_def)
qed

text \<open>The blocks that belong to a session: they start with one of its captured blocks, hold all of them and the annotations
  between them, and run on over every annotation that follows.\<close>

definition section_of :: "ustring \<Rightarrow> utterance_block list \<Rightarrow> utterance_block list \<Rightarrow> utterance_block list \<Rightarrow> bool" where
  "section_of session before sect rest \<longleftrightarrow>
     sect \<noteq> [] \<and> ub_owner (hd sect) = capture_owner session \<and>
     (\<forall>b\<in>set sect. ub_owner b = capture_owner session \<or> ub_owner b = user_owner) \<and>
     (\<forall>b\<in>set before \<union> set rest. ub_owner b \<noteq> capture_owner session) \<and>
     (rest = [] \<or> ub_owner (hd rest) \<noteq> user_owner)"

lemma spec_section_of:
  assumes "spec_section session bs = Inr (before, sect, rest)" "sect \<noteq> []"
  shows "section_of session before sect rest"
proof -
  obtain core ann r b where parts: "section_parts ub_owner (capture_owner session) bs = (b, core, ann, r)"
    using prod_cases4 by blast
  note split = section_parts_split [OF parts]
  have c: "core \<noteq> []" "before = b" "sect = core @ ann" "rest = r"
      "\<forall>x\<in>set core. ub_owner x = capture_owner session \<or> ub_owner x = user_owner"
    using assms parts by (auto simp: spec_section_def split: if_splits)
  then show ?thesis using split(2-7) by (auto simp: section_of_def)
qed

text \<open>C27: A session moves as a whole, and only once. Let the section of a session be cut out of one
  transcript and spliced into another that has none of its blocks, and let both writes succeed. Then
  the section is what belongs to the session: from its first captured block over all the others to the
  last annotation that follows them, and nothing else. The target has exactly the section, contiguous and
  in order, in front of the anchor (or at the end), and every other block as before; the source has lost
  exactly the section, annotations included.
  Doing the splice or the removal again changes nothing and counts nothing, so a replay after a
  crash is safe.\<close>

theorem session_moves_as_a_whole:
  assumes "facade_ok src" "facade_ok dst" "session_slice session src = Some (Inr sect)"
    and "distinct (map ub_id sect)" "ub_id ` set sect \<inter> ub_id ` set (blocks dst) = {}" "sect \<noteq> []"
    and "splice_session_slice (transcript_env api) sect anchor dst = Some (Inr n, dst')"
    and "remove_session_slice (transcript_env api) session src = Some (Inr k, src')"
  shows "\<exists>before rest pre post. blocks src = before @ sect @ rest \<and> section_of session before sect rest \<and>
    blocks src' = before @ rest \<and>
    blocks dst = pre @ post \<and> blocks dst' = pre @ sect @ post \<and> n = length sect \<and> k = length sect \<and>
    (case anchor of None \<Rightarrow> post = [] | Some a \<Rightarrow> post \<noteq> [] \<and> ub_id (hd post) = a) \<and>
    splice_session_slice (transcript_env api) sect anchor dst' = Some (Inr 0, dst') \<and>
    remove_session_slice (transcript_env api) session src' = Some (Inr 0, src')"
proof -
  obtain before rest where sec: "spec_section session (blocks src) = Inr (before, sect, rest)"
    using assms(3) session_slice_spec [OF assms(1), of session] by (auto split: sum.splits)
  note removed = section_removed [OF sec]
  have sect_wf: "\<forall>b\<in>set sect. bt_wf (ub_lanes b)" using blocks_lanes_wf [OF assms(1)] removed by auto
  have ok: "call_ok (Splice sect anchor)" "call_ok (RemoveSlice session)" using sect_wf by simp_all
  obtain r m' where rm: "projection_step (transcript_env api) (RemoveSlice session) src = Some (r, m')" "facade_ok m'"
      "r = Inr (length sect) \<and> blocks m' = before @ rest \<or> (\<exists>e. r = Inl (ProjectionMirror e))"
    by (rule facade_step [OF assms(1) ok(2), of api]) (auto simp: sec)
  have src': "blocks src' = before @ rest" "k = length sect" "facade_ok src'" using rm assms(8) by auto
  have again: "remove_session_slice (transcript_env api) session src' = Some (Inr 0, src')"
  proof -
    let ?items = "items_of (mi_state src')"
    obtain obj where "ensure_items (mi_state src') = Some (obj, ?items)" "all_ok ?items" "blocks src' = map the_view ?items"
      using facade_items [OF src'(3)] by blast
    then show ?thesis
      using section_refines [of ?items session] removed src'(1) by (simp add: remove_session_slice_def)
  qed
  let ?cursor = "case anchor of None \<Rightarrow> Inr (length (blocks dst))
      | Some a \<Rightarrow> ok_or (BlockNotFound a) (position (\<lambda>b. ub_id b = a) (blocks dst))"
  obtain r2 m2 where sp: "projection_step (transcript_env api) (Splice sect anchor) dst = Some (r2, m2)" "facade_ok m2"
      "case spec_step (Splice sect anchor) (blocks dst) of Inl e \<Rightarrow> r2 = Inl e \<and> m2 = dst
       | Inr (bs, n) \<Rightarrow> (r2 = Inr n \<and> blocks m2 = bs) \<or> (\<exists>e new. r2 = Inl (ProjectionMirror e) \<and> blocks m2 = blocks dst \<and>
            validate_schema transcript_slots transcript_schema (Some new) = Inr () \<and>
            fst (fenced_update (transcript_env api) new dst) = Inl e)"
    using facade_step [OF assms(2) ok(1), of api] by blast
  have run: "r2 = Inr n" "m2 = dst'" using sp(1) assms(7) by auto
  then obtain bs where bs: "spec_step (Splice sect anchor) (blocks dst) = Inr (bs, n)" "blocks dst' = bs"
    using sp(3) by (cases "spec_step (Splice sect anchor) (blocks dst)") auto
  have checks: "\<not> (\<exists>b\<in>set sect. ub_id b = [])" "validate_lanes (concat (map (\<lambda>b. bt_keys (ub_lanes b)) sect)) = Inr ()"
    using bs(1) by (auto simp: and_then_eq_Inr split: if_splits)
  obtain cursor where cursor: "?cursor = Inr cursor" "spec_splice sect cursor 0 (blocks dst) = (n, bs)"
  proof -
    obtain c where c: "?cursor = Inr c" "(case spec_splice sect c 0 (blocks dst) of (n, bs') \<Rightarrow> Inr (bs', n)) =
        (Inr (bs, n) :: projection_error + utterance_block list \<times> nat)"
      using bs(1) checks by (auto simp: and_then_eq_Inr)
    then show thesis by (intro that [OF c(1)]) (auto split: prod.splits)
  qed
  have at: "cursor \<le> length (blocks dst)"
      "case anchor of None \<Rightarrow> cursor = length (blocks dst) | Some a \<Rightarrow> cursor < length (blocks dst) \<and> ub_id (blocks dst ! cursor) = a"
    using cursor(1) position_take_drop [of _ "blocks dst"] by (auto simp: ok_or_eq_Inr less_imp_le split: option.splits)
  have spliced: "n = length sect" "bs = take cursor (blocks dst) @ sect @ drop cursor (blocks dst)"
    using cursor(2) splice_fresh [OF assms(4,5) at(1), of 0] by auto
  have replay: "splice_session_slice (transcript_env api) sect anchor dst' = Some (Inr 0, dst')"
  proof -
    have ids: "ub_id ` set sect \<subseteq> ub_id ` set (blocks dst')" unfolding bs(2) spliced(2) by auto
    have dst': "facade_ok dst'" using sp(2) run(2) by simp
    let ?items = "items_of (mi_state dst')"
    obtain obj where obj: "ensure_items (mi_state dst') = Some (obj, ?items)" "all_ok ?items" "blocks dst' = map the_view ?items"
      using facade_items [OF dst'] by blast
    have "\<exists>c. (case anchor of None \<Rightarrow> Inr (length ?items)
        | Some a \<Rightarrow> ok_or (BlockNotFound a) (position (has_id a) ?items)) = Inr c"
    proof (cases anchor)
      case (Some a)
      then have "blocks dst ! cursor \<in> set (blocks dst')" "ub_id (blocks dst ! cursor) = a"
        using at by (auto simp: bs(2) spliced(2) Cons_nth_drop_Suc [symmetric])
      then have "position (\<lambda>b. ub_id b = a) (blocks dst') \<noteq> None" unfolding position_None_iff by blast
      then show ?thesis using Some position_id [OF obj(2), of a] obj(3) by auto
    qed simp
    then obtain c where c: "(case anchor of None \<Rightarrow> Inr (length ?items)
        | Some a \<Rightarrow> ok_or (BlockNotFound a) (position (has_id a) ?items)) = Inr c" by blast
    obtain items' where "splice_blocks sect c 0 ?items = (0, items')"
      using splice_refines [OF obj(2) sect_wf, of c 0] splice_present [OF ids, of c 0] obj(3) by auto
    then show ?thesis using obj(1) checks c by (simp add: splice_session_slice_def)
  qed
  have "(case anchor of None \<Rightarrow> drop cursor (blocks dst) = []
      | Some a \<Rightarrow> drop cursor (blocks dst) \<noteq> [] \<and> ub_id (hd (drop cursor (blocks dst))) = a)"
    using at by (auto simp: hd_drop_conv_nth split: option.splits)
  then show ?thesis
    using removed spec_section_of [OF sec assms(6)] src' again replay spliced bs(2)
    by (intro exI [of _ before] exI [of _ rest] exI [of _ "take cursor (blocks dst)"] exI [of _ "drop cursor (blocks dst)"]) simp
qed

definition demo_block :: utterance_block where
  "demo_block = \<lparr>ub_id = [1], ub_owner = capture_owner [115], ub_text = [3], ub_lanes = []\<rparr>"

lemma demo_splice:
  "map_option fst (splice_session_slice (transcript_env mem_api) [demo_block] None (transcript_with [])) = Some (Inr 1)"
  by code_simp

lemma demo_slice: "session_slice [115] (transcript_with [demo_block]) = Some (Inr [demo_block])"
  by code_simp

lemma demo_remove:
  "map_option fst (remove_session_slice (transcript_env mem_api) [115] (transcript_with [demo_block])) = Some (Inr 1)"
  by code_simp

theorem session_moves_as_a_whole_witness:
  "\<exists>dst' src'. splice_session_slice (transcript_env mem_api) [demo_block] None (transcript_with []) = Some (Inr 1, dst') \<and>
     remove_session_slice (transcript_env mem_api) [115] (transcript_with [demo_block]) = Some (Inr 1, src') \<and>
     blocks dst' = [demo_block] \<and> blocks src' = [] \<and>
     splice_session_slice (transcript_env mem_api) [demo_block] None dst' = Some (Inr 0, dst')"
proof -
  obtain dst' where dst': "splice_session_slice (transcript_env mem_api) [demo_block] None (transcript_with []) = Some (Inr 1, dst')"
    using demo_splice by auto
  obtain src' where src': "remove_session_slice (transcript_env mem_api) [115] (transcript_with [demo_block]) = Some (Inr 1, src')"
    using demo_remove by auto
  have slice: "session_slice [115] (transcript_with [demo_block]) = Some (Inr [demo_block])" by (rule demo_slice)
  have wf: "\<forall>b\<in>set [demo_block]. bt_wf (ub_lanes b)" "\<forall>b\<in>set []. bt_wf (ub_lanes b)" by (simp_all add: demo_block_def)
  note src = transcript_with_ok [OF wf(1)] and dst = transcript_with_ok [OF wf(2)]
  have hyps: "distinct (map ub_id [demo_block])" "ub_id ` set [demo_block] \<inter> ub_id ` set (blocks (transcript_with [])) = {}" "[demo_block] \<noteq> []"
    by (simp_all add: dst(3))
  from session_moves_as_a_whole [OF src(1) dst(1) slice hyps dst' src'] obtain before rest pre post where
      m: "[demo_block] = before @ [demo_block] @ rest" "blocks src' = before @ rest"
      "[] = pre @ post" "blocks dst' = pre @ [demo_block] @ post"
      "splice_session_slice (transcript_env mem_api) [demo_block] None dst' = Some (Inr 0, dst')"
    unfolding src(3) dst(3) by (elim exE conjE)
  have "before = [] \<and> rest = []" using m(1) by (cases before) auto
  moreover have "pre = [] \<and> post = []" using m(3) by simp
  ultimately show ?thesis using dst' src' m(2,4,5) by (intro exI [of _ dst'] exI [of _ src'] conjI) simp_all
qed

end
