(* ===== verification/Note_Outline.thy ===== *)
theory Note_Outline
  imports Document_Schema
begin

text \<open>
  \<^verbatim>\<open>crates/vt-store/src/note_outline.rs\<close>: the note, a tree, as a sequence of outline rows and back.
  \<open>rebuild_note\<close> keeps the tree built so far, the path of child indexes to the last row, and the
  depth of that row; \<open>None\<close> is a panic of an index or of \<^verbatim>\<open>expect\<close>. The proofs go through trees as a
  datatype: a row is added at the right edge, so the path is always that edge.
\<close>

section \<open>Rows\<close>

datatype outline_kind = Paragraph | Heading1 | Heading2 | Heading3 | Quote | Task | Divider

definition as_meta_str :: "outline_kind \<Rightarrow> ustring option" where
  "as_meta_str k =
     (case k of
        Paragraph \<Rightarrow> None
      | Heading1 \<Rightarrow> Some (lit ''heading1'')
      | Heading2 \<Rightarrow> Some (lit ''heading2'')
      | Heading3 \<Rightarrow> Some (lit ''heading3'')
      | Quote \<Rightarrow> Some (lit ''quote'')
      | Task \<Rightarrow> Some (lit ''task'')
      | Divider \<Rightarrow> Some (lit ''divider''))"

definition from_meta :: "ustring option \<Rightarrow> outline_kind" where
  "from_meta v =
     (if v = Some (lit ''heading1'') then Heading1
      else if v = Some (lit ''heading2'') then Heading2
      else if v = Some (lit ''heading3'') then Heading3
      else if v = Some (lit ''quote'') then Quote
      else if v = Some (lit ''task'') then Task
      else if v = Some (lit ''divider'') then Divider
      else Paragraph)"

lemma from_meta_as_meta_str [simp]: "from_meta (as_meta_str k) = k"
  by (cases k) (simp_all add: from_meta_def as_meta_str_def)

record outline_row =
  or_id :: ustring
  or_depth :: nat
  or_text :: ustring
  or_kind :: outline_kind
  or_checked :: bool

section \<open>From the tree to rows\<close>

definition row_of :: "ustring \<Rightarrow> nat \<Rightarrow> json \<Rightarrow> outline_row" where
  "row_of ident depth node =
     (let meta = member (lit ''$'') node in
      \<lparr>or_id = ident, or_depth = depth,
       or_text = (case str_member (lit ''text'') node of None \<Rightarrow> [] | Some t \<Rightarrow> t),
       or_kind = from_meta (Option.bind meta (str_member (lit ''kind''))),
       or_checked = (case Option.bind (Option.bind meta (member (lit ''checked''))) as_bool of None \<Rightarrow> False | Some b \<Rightarrow> b)\<rparr>)"

lemma member_size: "member k v = Some x \<Longrightarrow> size x < size v"
  by (cases v) (auto simp: member_def bt_get_def dest!: map_of_SomeD size_json_object)

lemma array_member_size:
  "member k v = Some (JArray xs) \<Longrightarrow> x \<in> set xs \<Longrightarrow> size x < size v"
  using member_size size_json_array by (meson order.strict_trans)

function flatten_node :: "json \<Rightarrow> nat \<Rightarrow> outline_row list" where
  "flatten_node node depth =
     (case node_id node of
        None \<Rightarrow> []
      | Some ident \<Rightarrow>
          row_of ident depth node #
          (case member (lit ''children'') node of
             Some (JArray cs) \<Rightarrow> concat (map (\<lambda>child. flatten_node child (depth + 1)) cs)
           | _ \<Rightarrow> []))"
  by pat_completeness auto

termination flatten_node
  by (relation "measure (\<lambda>(node, depth). size node)") (auto dest: array_member_size)

declare flatten_node.simps [simp del]

definition flatten_note :: "json \<Rightarrow> outline_row list" where
  "flatten_note base =
     (case Option.bind (member (lit ''children'') base) as_array of
        None \<Rightarrow> [] | Some cs \<Rightarrow> concat (map (\<lambda>child. flatten_node child 0) cs))"

section \<open>From rows to the tree\<close>

definition row_node :: "outline_row \<Rightarrow> json" where
  "row_node row =
     object
       [(lit ''$'',
         object
           ([(lit ''id'', JString (or_id row))] @
            (case as_meta_str (or_kind row) of None \<Rightarrow> [] | Some k \<Rightarrow> [(lit ''kind'', JString k)]) @
            (if or_checked row then [(lit ''checked'', JBool True)] else []))),
        (lit ''text'', JString (or_text row)),
        (lit ''children'', JArray [])]"

text \<open>Following the path to the parent and pushing there; with the number of children the parent had.\<close>

fun push_child :: "nat list \<Rightarrow> json \<Rightarrow> json \<Rightarrow> (json \<times> nat) option" where
  "push_child [] node current =
     (case place (lit ''children'') current of
        JArray xs \<Rightarrow> map_option (\<lambda>v. (v, length xs)) (assign (lit ''children'') (JArray (xs @ [node])) current)
      | _ \<Rightarrow> None)"
| "push_child (i # path) node current =
     (case place (lit ''children'') current of
        JArray xs \<Rightarrow>
          if i < length xs then
            Option.bind (push_child path node (xs ! i)) (\<lambda>(child, n).
              map_option (\<lambda>v. (v, n)) (assign (lit ''children'') (JArray (xs[i := child])) current))
          else None
      | _ \<Rightarrow> None)"

definition rebuild_row :: "outline_row \<Rightarrow> json \<times> nat list \<times> nat \<Rightarrow> (json \<times> nat list \<times> nat) option" where
  "rebuild_row row st =
     (case st of (base, path, previous_depth) \<Rightarrow>
        let depth = (if path = [] then 0 else min (or_depth row) (previous_depth + 1));
            path = take depth path
        in map_option (\<lambda>(base, n). (base, path @ [n], depth)) (push_child path (row_node row) base))"

fun rebuild_rows :: "outline_row list \<Rightarrow> json \<times> nat list \<times> nat \<Rightarrow> (json \<times> nat list \<times> nat) option" where
  "rebuild_rows [] st = Some st"
| "rebuild_rows (row # rows) st = Option.bind (rebuild_row row st) (rebuild_rows rows)"

definition empty_root :: "ustring \<Rightarrow> json" where
  "empty_root root_id =
     object [(lit ''$'', object [(lit ''id'', JString root_id)]), (lit ''children'', JArray [])]"

definition rebuild_note :: "ustring \<Rightarrow> outline_row list \<Rightarrow> json option" where
  "rebuild_note root_id rows = map_option fst (rebuild_rows rows (empty_root root_id, [], 0))"

section \<open>Trees\<close>

datatype tree = Node (row: outline_row) (kids: "tree list")

text \<open>What the code builds for a tree; the depth of the rows in it plays no role.\<close>

fun tree_json :: "tree \<Rightarrow> json" where
  "tree_json (Node r ks) =
     JObject [(lit ''$'', the (member (lit ''$'') (row_node r))), (lit ''children'', JArray (map tree_json ks)),
              (lit ''text'', JString (or_text r))]"

definition forest_json :: "ustring \<Rightarrow> tree list \<Rightarrow> json" where
  "forest_json root_id ts =
     JObject [(lit ''$'', object [(lit ''id'', JString root_id)]), (lit ''children'', JArray (map tree_json ts))]"

definition at_depth :: "nat \<Rightarrow> outline_row \<Rightarrow> outline_row" where
  "at_depth d r = r\<lparr>or_depth := d\<rparr>"

fun rows_of :: "nat \<Rightarrow> tree \<Rightarrow> outline_row list" where
  "rows_of d (Node r ks) = at_depth d r # concat (map (rows_of (Suc d)) ks)"

fun add_at :: "nat \<Rightarrow> outline_row \<Rightarrow> tree list \<Rightarrow> tree list" where
  "add_at 0 r ts = ts @ [Node r []]"
| "add_at (Suc d) r ts =
     (if ts = [] then [Node r []] else butlast ts @ [Node (row (last ts)) (add_at d r (kids (last ts)))])"

text \<open>The right edge: the index of the last tree, and so on in it.\<close>

lemma last_kids_size: "ts \<noteq> [] \<Longrightarrow> size_list size (kids (last ts)) < size_list size ts"
  by (induction ts) (auto, metis tree.exhaust_sel tree.size(2) less_add_Suc1 add.commute)

function edge :: "tree list \<Rightarrow> nat list" where
  "edge ts = (if ts = [] then [] else (length ts - 1) # edge (kids (last ts)))"
  by pat_completeness auto

termination edge
  by (relation "measure (size_list size)") (auto simp: last_kids_size)

declare edge.simps [simp del]

lemma edge_Nil [simp]: "edge [] = []"
  by (simp add: edge.simps)

lemma edge_snoc [simp]: "edge (ts @ [t]) = length ts # edge (kids t)"
  by (simp add: edge.simps)

lemma edge_add_at: "d \<le> length (edge ts) \<Longrightarrow>
    \<exists>n. edge (add_at d r ts) = take d (edge ts) @ [n]"
proof (induction d r ts rule: add_at.induct)
  case (2 d r ts)
  show ?case
  proof (cases ts rule: rev_cases)
    case (snoc us t)
    then show ?thesis using 2 by simp
  qed (use 2 in simp)
qed simp

lemma length_edge_add_at: "d \<le> length (edge ts) \<Longrightarrow> length (edge (add_at d r ts)) = Suc d"
  using edge_add_at [of d ts r] by auto

section \<open>The code on trees\<close>

definition meta_json :: "outline_row \<Rightarrow> json" where
  "meta_json r = the (member (lit ''$'') (row_node r))"

lemma row_node_eq: "row_node r = tree_json (Node r [])"
  by (simp add: row_node_def object_def bt_collect_def) (simp add: lit_def)

lemma tree_json_meta: "tree_json (Node r ks) =
    JObject [(lit ''$'', meta_json r), (lit ''children'', JArray (map tree_json ks)), (lit ''text'', JString (or_text r))]"
  by (simp add: meta_json_def)

lemma meta_json_eq: "meta_json r =
    JObject ((if or_checked r then [(lit ''checked'', JBool True)] else []) @ [(lit ''id'', JString (or_id r))] @
      (case as_meta_str (or_kind r) of None \<Rightarrow> [] | Some k \<Rightarrow> [(lit ''kind'', JString k)]))"
proof -
  have "row_node r = JObject [(lit ''$'', object
           ([(lit ''id'', JString (or_id r))] @
            (case as_meta_str (or_kind r) of None \<Rightarrow> [] | Some k \<Rightarrow> [(lit ''kind'', JString k)]) @
            (if or_checked r then [(lit ''checked'', JBool True)] else []))),
        (lit ''children'', JArray []), (lit ''text'', JString (or_text r))]"
    unfolding row_node_def by (subst object_def) (simp add: bt_collect_def lit_def)
  then show ?thesis
    by (cases "as_meta_str (or_kind r)") (simp_all add: meta_json_def object_def bt_collect_def lit_def)
qed

lemma bind_as_str_None [simp]: "Option.bind None f = None"
  by simp

lemma meta_members:
  "str_member (lit ''id'') (meta_json r) = Some (or_id r)"
  "str_member (lit ''kind'') (meta_json r) = as_meta_str (or_kind r)"
  "member (lit ''checked'') (meta_json r) = (if or_checked r then Some (JBool True) else None)"
  by (cases "as_meta_str (or_kind r)"; simp add: meta_json_eq str_member_object)+

lemma tree_members:
  "member (lit ''$'') (tree_json (Node r ks)) = Some (meta_json r)"
  "member (lit ''children'') (tree_json (Node r ks)) = Some (JArray (map tree_json ks))"
  "str_member (lit ''text'') (tree_json (Node r ks)) = Some (or_text r)"
  by (simp_all add: tree_json_meta str_member_object del: tree_json.simps)

lemma flatten_tree: "flatten_node (tree_json t) d = rows_of d t"
proof (induction t arbitrary: d)
  case (Node r ks)
  have "row_of (or_id r) d (tree_json (Node r ks)) = at_depth d r"
    by (simp add: row_of_def tree_members meta_members at_depth_def Let_def del: tree_json.simps)
  moreover have "concat (map (\<lambda>x. flatten_node (tree_json x) (Suc d)) ks) = concat (map (rows_of (Suc d)) ks)"
    using Node.IH by (simp cong: map_cong)
  ultimately show ?case
    by (subst flatten_node.simps) (simp add: node_id_def tree_members meta_members comp_def del: tree_json.simps)
qed

lemma flatten_forest: "flatten_note (forest_json ident ts) = concat (map (rows_of 0) ts)"
  by (simp add: flatten_note_def forest_json_def flatten_tree comp_def)

lemma rows_add_at:
  "d \<le> length (edge ts) \<Longrightarrow>
   concat (map (rows_of k) (add_at d r ts)) = concat (map (rows_of k) ts) @ [at_depth (k + d) r]"
proof (induction d r ts arbitrary: k rule: add_at.induct)
  case (2 d r ts)
  show ?case
  proof (cases ts rule: rev_cases)
    case (snoc us t)
    moreover obtain x ks where "t = Node x ks" by (cases t)
    ultimately show ?thesis using 2 by simp
  qed (use 2 in simp)
qed simp

lemma push_edge:
  assumes "d \<le> length (edge ts)" "bt_get m (lit ''children'') = Some (JArray (map tree_json ts))"
  shows "\<exists>n. push_child (take d (edge ts)) (row_node r) (JObject m) =
      Some (JObject (bt_insert (lit ''children'') (JArray (map tree_json (add_at d r ts))) m), n) \<and>
    edge (add_at d r ts) = take d (edge ts) @ [n]"
  using assms
proof (induction d r ts arbitrary: m rule: add_at.induct)
  case (1 r ts)
  then have "place (lit ''children'') (JObject m) = JArray (map tree_json ts)" by (simp add: place_def)
  moreover have "map tree_json ts @ [row_node r] = map tree_json (ts @ [Node r []])" unfolding row_node_eq by simp
  ultimately show ?case by (simp add: assign_def del: map_append tree_json.simps)
next
  case (2 d r ts)
  show ?case
  proof (cases ts rule: rev_cases)
    case Nil
    then show ?thesis using 2 by simp
  next
    case (snoc us t)
    obtain x ks where t: "t = Node x ks" by (cases t)
    let ?m = "[(lit ''$'', meta_json x), (lit ''children'', JArray (map tree_json ks)), (lit ''text'', JString (or_text x))]"
    have "ts \<noteq> []" "d \<le> length (edge (kids (last ts)))"
        "bt_get ?m (lit ''children'') = Some (JArray (map tree_json (kids (last ts))))"
      using 2(2) snoc t by simp_all
    note ih = 2(1) [OF this, unfolded snoc t last_snoc tree.sel]
    obtain n where n:
        "push_child (take d (edge ks)) (row_node r) (JObject ?m) =
           Some (JObject (bt_insert (lit ''children'') (JArray (map tree_json (add_at d r ks))) ?m), n)"
        "edge (add_at d r ks) = take d (edge ks) @ [n]"
      using ih by (elim exE conjE)
    have "bt_insert (lit ''children'') (JArray (map tree_json (add_at d r ks))) ?m =
        [(lit ''$'', meta_json x), (lit ''children'', JArray (map tree_json (add_at d r ks))), (lit ''text'', JString (or_text x))]"
      by (simp add: lit_def)
    then have "push_child (take d (edge ks)) (row_node r) (tree_json (Node x ks)) = Some (tree_json (Node x (add_at d r ks)), n)"
      using n(1) by (simp only: tree_json_meta)
    note pushed = this
    let ?xs = "map tree_json us @ [tree_json (Node x ks)]"
    have ts: "map tree_json ts = ?xs" "edge ts = length us # edge ks" unfolding snoc t by simp_all
    have new: "add_at (Suc d) r ts = us @ [Node x (add_at d r ks)]" unfolding snoc t by simp
    have at: "?xs ! length us = tree_json (Node x ks)"
        "?xs[length us := tree_json (Node x (add_at d r ks))] = map tree_json (us @ [Node x (add_at d r ks)])"
      by (simp_all add: nth_append list_update_append del: tree_json.simps)
    have "place (lit ''children'') (JObject m) = JArray ?xs" using 2(3) ts(1) by (simp add: place_def)
    then have "push_child (length us # take d (edge ks)) (row_node r) (JObject m) =
        Some (JObject (bt_insert (lit ''children'') (JArray (map tree_json (us @ [Node x (add_at d r ks)]))) m), n)"
      using pushed at by (simp add: assign_def del: tree_json.simps map_append)
    moreover have "edge (us @ [Node x (add_at d r ks)]) = length us # take d (edge ks) @ [n]" using n(2) by simp
    ultimately show ?thesis unfolding new ts(2) by (intro exI [of _ n] conjI) simp_all
  qed
qed

section \<open>Round trips\<close>

fun fix_depths :: "nat option \<Rightarrow> outline_row list \<Rightarrow> outline_row list" where
  "fix_depths p [] = []"
| "fix_depths p (r # rs) =
     (let d = (case p of None \<Rightarrow> 0 | Some q \<Rightarrow> min (or_depth r) (q + 1)) in at_depth d r # fix_depths (Some d) rs)"

text \<open>Legal rows: the first at depth 0, every other at most one deeper than the row before.\<close>

fun legal_rows :: "nat option \<Rightarrow> outline_row list \<Rightarrow> bool" where
  "legal_rows p [] \<longleftrightarrow> True"
| "legal_rows p (r # rs) \<longleftrightarrow>
     (case p of None \<Rightarrow> or_depth r = 0 | Some q \<Rightarrow> or_depth r \<le> q + 1) \<and> legal_rows (Some (or_depth r)) rs"

lemma at_depth_same [simp]: "or_depth r = d \<Longrightarrow> at_depth d r = r"
  by (auto simp: at_depth_def)

lemma fix_legal: "legal_rows p rs \<Longrightarrow> fix_depths p rs = rs"
  by (induction rs arbitrary: p) (auto split: option.splits)

lemma fix_depths_legal: "legal_rows p (fix_depths p rs)"
  by (induction rs arbitrary: p) (auto simp: at_depth_def Let_def split: option.splits)

definition last_depth :: "tree list \<Rightarrow> nat option" where
  "last_depth ts = (if ts = [] then None else Some (length (edge ts) - 1))"

lemma rebuild_forest:
  "\<exists>us path d. rebuild_rows rs (forest_json ident ts, edge ts, length (edge ts) - 1) = Some (forest_json ident us, path, d) \<and>
     concat (map (rows_of 0) us) = concat (map (rows_of 0) ts) @ fix_depths (last_depth ts) rs"
proof (induction rs arbitrary: ts)
  case Nil
  then show ?case by auto
next
  case (Cons r rs)
  define d where "d = (if edge ts = [] then 0 else min (or_depth r) (length (edge ts) - 1 + 1))"
  have len: "edge ts = [] \<longleftrightarrow> ts = []" by (subst edge.simps) simp
  have d: "d \<le> length (edge ts)" by (simp add: d_def)
  let ?m = "[(lit ''$'', object [(lit ''id'', JString ident)]), (lit ''children'', JArray (map tree_json ts))]"
  have "bt_get ?m (lit ''children'') = Some (JArray (map tree_json ts))" by simp
  from push_edge [OF d this, of r] obtain n where n:
      "push_child (take d (edge ts)) (row_node r) (forest_json ident ts) =
         Some (JObject (bt_insert (lit ''children'') (JArray (map tree_json (add_at d r ts))) ?m), n)"
      "edge (add_at d r ts) = take d (edge ts) @ [n]"
    by (auto simp: forest_json_def)
  have forest: "JObject (bt_insert (lit ''children'') (JArray (map tree_json (add_at d r ts))) ?m) = forest_json ident (add_at d r ts)"
    by (simp add: forest_json_def lit_def)
  have step: "rebuild_row r (forest_json ident ts, edge ts, length (edge ts) - 1) =
      Some (forest_json ident (add_at d r ts), edge (add_at d r ts), length (edge (add_at d r ts)) - 1)"
    using n unfolding forest rebuild_row_def prod.case Let_def d_def [symmetric]
    using d by (simp add: length_edge_add_at [OF d])
  have ne: "add_at d r ts \<noteq> []" using len length_edge_add_at [OF d, of r] by (metis edge_Nil length_0_conv nat.distinct(1))
  then have "last_depth (add_at d r ts) = Some d" using length_edge_add_at [OF d, of r] by (simp add: last_depth_def)
  moreover have "fix_depths (last_depth ts) (r # rs) = at_depth d r # fix_depths (Some d) rs"
    using len by (simp add: last_depth_def d_def Let_def)
  ultimately show ?case
    using Cons [of "add_at d r ts"] step rows_add_at [OF d, of 0 r] by simp
qed

text \<open>C39: An outline survives the tree. Rebuilding never panics, whatever the depths of the rows (a paste
  or a drag may leave any), and flattening the result gives the rows back, in order, with identifier,
  text, kind and check mark, each depth cut to at most one more than the row before and the first to
  zero; rows whose depths are legal come back unchanged.\<close>

theorem rebuild_then_flatten:
  "\<exists>t. rebuild_note ident rs = Some t \<and> flatten_note t = fix_depths None rs \<and> legal_rows None (flatten_note t) \<and>
     (legal_rows None rs \<longrightarrow> flatten_note t = rs)"
proof -
  have "empty_root ident = forest_json ident []" by (simp add: empty_root_def forest_json_def object_def bt_collect_def lit_def)
  then show ?thesis
    using rebuild_forest [of rs ident "[]"] fix_legal fix_depths_legal
    by (auto simp: rebuild_note_def last_depth_def flatten_forest)
qed

theorem rebuild_then_flatten_witness:
  "\<exists>t. rebuild_note [9] [\<lparr>or_id = [1], or_depth = 3, or_text = [], or_kind = Quote, or_checked = False\<rparr>] = Some t \<and>
     map or_depth (flatten_note t) = [0]"
  using rebuild_then_flatten [of "[9]" "[\<lparr>or_id = [1], or_depth = 3, or_text = [], or_kind = Quote, or_checked = False\<rparr>]"]
  by (auto simp: at_depth_def)

text \<open>Rows determine the trees they come from.\<close>

lemma rows_of_depth: "x \<in> set (rows_of d t) \<Longrightarrow> d \<le> or_depth x"
  by (induction t arbitrary: d) (fastforce simp: at_depth_def dest: Suc_leD)

lemma rows_take:
  "concat (map (rows_of (Suc d)) ks) = takeWhile (\<lambda>x. d < or_depth x) (concat (map (rows_of (Suc d)) ks) @ concat (map (rows_of d) ts))"
proof -
  have "takeWhile (\<lambda>x. d < or_depth x) (concat (map (rows_of (Suc d)) ks) @ concat (map (rows_of d) ts)) =
      concat (map (rows_of (Suc d)) ks) @ takeWhile (\<lambda>x. d < or_depth x) (concat (map (rows_of d) ts))"
    by (rule takeWhile_append2) (auto dest: rows_of_depth)
  moreover have "takeWhile (\<lambda>x. d < or_depth x) (concat (map (rows_of d) ts)) = []"
  proof (cases ts)
    case (Cons t us)
    then show ?thesis by (cases t) (simp add: at_depth_def)
  qed simp
  ultimately show ?thesis by simp
qed

lemma at_depth_node:
  assumes "at_depth d r = at_depth d r'"
  shows "meta_json r = meta_json r' \<and> or_text r = or_text r'"
proof -
  have "or_id r = or_id r'" "or_text r = or_text r'" "or_kind r = or_kind r'" "or_checked r = or_checked r'"
    using arg_cong [OF assms, of or_id] arg_cong [OF assms, of or_text] arg_cong [OF assms, of or_kind]
      arg_cong [OF assms, of or_checked] by (simp_all add: at_depth_def)
  then show ?thesis by (simp add: meta_json_eq)
qed

lemma rows_determine:
  "concat (map (rows_of d) ts) = concat (map (rows_of d) us) \<Longrightarrow> map tree_json ts = map tree_json us"
proof (induction "size_list size ts" arbitrary: ts us d rule: less_induct)
  case less
  show ?case
  proof (cases ts)
    case Nil
    then have "us = []" using less.prems by (cases us) (auto, metis rows_of.simps tree.exhaust list.distinct(1))
    then show ?thesis using Nil by simp
  next
    case (Cons t ts')
    obtain r ks where t: "t = Node r ks" by (cases t)
    then obtain u us' where us: "us = u # us'" using less.prems Cons by (cases us) auto
    obtain r' ks' where u: "u = Node r' ks'" by (cases u)
    have eq: "at_depth d r = at_depth d r'"
        "concat (map (rows_of (Suc d)) ks) @ concat (map (rows_of d) ts') = concat (map (rows_of (Suc d)) ks') @ concat (map (rows_of d) us')"
      using less.prems Cons t us u by simp_all
    have ks: "concat (map (rows_of (Suc d)) ks) = concat (map (rows_of (Suc d)) ks')"
      using rows_take [of d ks ts'] rows_take [of d ks' us'] eq(2) by simp
    then have ts': "concat (map (rows_of d) ts') = concat (map (rows_of d) us')" using eq(2) by simp
    have "map tree_json ks = map tree_json ks'" by (rule less.hyps [OF _ ks]) (simp add: Cons t)
    moreover have "map tree_json ts' = map tree_json us'" by (rule less.hyps [OF _ ts']) (simp add: Cons)
    ultimately show ?thesis
      using at_depth_node [OF eq(1)] Cons us t u by (simp add: tree_json_meta del: tree_json.simps)
  qed
qed

lemma tree_legal:
  "case p of None \<Rightarrow> d = 0 | Some q \<Rightarrow> d \<le> q + 1 \<Longrightarrow> (\<And>q. d \<le> q \<Longrightarrow> legal_rows (Some q) rest) \<Longrightarrow>
   legal_rows p (rows_of d t @ rest)"
proof (induction t arbitrary: p d rest)
  case (Node r ks)
  have "legal_rows (Some q) (concat (map (rows_of (Suc d)) us) @ rest)" if "d \<le> q" "set us \<subseteq> set ks" for us q
    using that
  proof (induction us arbitrary: q)
    case Nil
    then show ?case using Node.prems(2) by simp
  next
    case (Cons u us)
    have "legal_rows (Some q') (concat (map (rows_of (Suc d)) us) @ rest)" if "Suc d \<le> q'" for q'
      using Cons.IH [of q'] Cons.prems(2) that by simp
    then have "legal_rows (Some q) (rows_of (Suc d) u @ concat (map (rows_of (Suc d)) us) @ rest)"
      using Node.IH [of u "Suc d" "Some q"] Cons.prems by simp
    then show ?case by simp
  qed
  from this [of d ks] show ?case using Node.prems(1) by (simp add: at_depth_def split: option.splits)
qed

lemma forest_legal: "legal_rows None (concat (map (rows_of 0) ts))"
proof -
  have rest: "legal_rows (Some q) (concat (map (rows_of 0) us))" for us q
  proof (induction us arbitrary: q)
    case (Cons u us)
    then show ?case using tree_legal [of 0 "Some q"] by simp
  qed simp
  show ?thesis
  proof (cases ts)
    case (Cons t us)
    then show ?thesis using tree_legal [of 0 None "concat (map (rows_of 0) us)" t] rest by simp
  qed simp
qed

text \<open>A note survives the outline. Flattening a note whose nodes have the shape this code writes
  (identifier, kind unless it is a paragraph, check mark when set, text and children) and rebuilding it
  from the rows gives the very same note.\<close>

theorem flatten_then_rebuild:
  "rebuild_note ident (flatten_note (forest_json ident ts)) = Some (forest_json ident ts)"
proof -
  have "empty_root ident = forest_json ident []" by (simp add: empty_root_def forest_json_def object_def bt_collect_def lit_def)
  then obtain us where us: "rebuild_note ident (flatten_note (forest_json ident ts)) = Some (forest_json ident us)"
      "concat (map (rows_of 0) us) = fix_depths None (concat (map (rows_of 0) ts))"
    using rebuild_forest [of "concat (map (rows_of 0) ts)" ident "[]"]
    by (auto simp: rebuild_note_def last_depth_def flatten_forest)
  have "fix_depths None (concat (map (rows_of 0) ts)) = concat (map (rows_of 0) ts)"
    by (rule fix_legal) (rule forest_legal)
  with us(2) have "map tree_json us = map tree_json ts" by (intro rows_determine) simp
  then show ?thesis using us(1) by (simp add: forest_json_def)
qed

end
