(* ===== verification/Block_Guard.thy ===== *)
theory Block_Guard
  imports Document_Schema "HOL-Library.Sublist" "HOL-Library.Multiset"
begin

text \<open>
  \<^verbatim>\<open>crates/vt-store/src/block_guard.rs\<close>: whether a remote update may be merged into a block document.
  The update is imported into a fork; the guard judges the events of that import. The fork and its
  events are an argument (\<open>None\<close> when the import fails), and so are the two questions the code asks of
  Loro beside the content of maps: the name of a root container, and whether a document knows a
  container. The loop stops at the first event that is refused.
\<close>

section \<open>Events\<close>

datatype block_admission_denial =
    MoveRefused
  | BlockDeleted
  | NonUserBlockInserted
  | ForeignBlockTouched ustring
  | FoundationTouched
  | Undecidable

datatype list_diff_item = DiffDelete nat | DiffInsert "loro_value list" bool | DiffRetain nat

text \<open>One \<^verbatim>\<open>ContainerDiff\<close>: its target, the containers of its path, and the items of a list diff.\<close>

record 'c guard_diff =
  gd_target :: 'c
  gd_path :: "'c list"
  gd_items :: "list_diff_item list option"

record 'c touched_container =
  tc_target :: 'c
  tc_ancestors :: "'c list"
  tc_list_deletes :: nat
  tc_has_move_insert :: bool
  tc_list_inserted :: "json list"

definition note_item :: "list_diff_item \<Rightarrow> 'c touched_container \<Rightarrow> 'c touched_container" where
  "note_item item t =
     (case item of
        DiffDelete n \<Rightarrow> t\<lparr>tc_list_deletes := tc_list_deletes t + n\<rparr>
      | DiffInsert values is_move \<Rightarrow>
          t\<lparr>tc_has_move_insert := tc_has_move_insert t \<or> is_move,
            tc_list_inserted := tc_list_inserted t @ map loro_to_json values\<rparr>
      | DiffRetain _ \<Rightarrow> t)"

definition summarise :: "'c guard_diff \<Rightarrow> 'c touched_container" where
  "summarise d =
     fold note_item (case gd_items d of None \<Rightarrow> [] | Some items \<Rightarrow> items)
       \<lparr>tc_target = gd_target d, tc_ancestors = gd_path d, tc_list_deletes = 0, tc_has_move_insert = False,
        tc_list_inserted = []\<rparr>"

text \<open>From the root to the target, whether or not the path ends with the target.\<close>

definition event_chain :: "'c touched_container \<Rightarrow> 'c list" where
  "event_chain t =
     (if tc_ancestors t \<noteq> [] \<and> last (tc_ancestors t) = tc_target t then tc_ancestors t
      else tc_ancestors t @ [tc_target t])"

section \<open>The rules\<close>

definition user_mark :: ustring where "user_mark = lit ''user''"

definition insertion_denial :: "json list \<Rightarrow> block_admission_denial option" where
  "insertion_denial inserted =
     (if \<exists>v\<in>set inserted. str_member (lit ''owner'') v \<noteq> Some user_mark then Some NonUserBlockInserted else None)"

text \<open>A change inside a block: the owner is read from the document before the import, when it knows
  the block.\<close>

definition block_denial ::
    "('d, 'c) loro_api \<Rightarrow> ('d \<Rightarrow> 'c \<Rightarrow> bool) \<Rightarrow> 'd \<Rightarrow> 'd \<Rightarrow> 'c list \<Rightarrow> block_admission_denial option" where
  "block_denial api has_container current fork chain =
     (let block_cid = chain ! 1;
          block = (if has_container current block_cid then lo_map api current block_cid else lo_map api fork block_cid)
      in
      case map_option (slot_deep api (if has_container current block_cid then current else fork))
             (bt_get block (lit ''owner'')) of
        Some (LString owner) \<Rightarrow>
          if owner = user_mark then None
          else if 2 < length chain \<and>
              (\<exists>key\<in>set [lit ''text'', lit ''lanes'']. bt_get block key = Some (Child (chain ! 2)))
          then None
          else Some (ForeignBlockTouched owner)
      | _ \<Rightarrow> Some Undecidable)"

definition transcript_denial ::
    "('d, 'c) loro_api \<Rightarrow> ('d \<Rightarrow> 'c \<Rightarrow> bool) \<Rightarrow> 'd \<Rightarrow> 'd \<Rightarrow> ustring \<Rightarrow> 'c touched_container \<Rightarrow> block_admission_denial option" where
  "transcript_denial api has_container current fork name t =
     (let chain = event_chain t in
      if name \<noteq> transcript_utterances then Some Undecidable
      else if tc_has_move_insert t then Some MoveRefused
      else if length chain = 1 then
        (if 0 < tc_list_deletes t then Some BlockDeleted else insertion_denial (tc_list_inserted t))
      else block_denial api has_container current fork chain)"

definition event_denial ::
    "('d, 'c) loro_api \<Rightarrow> ('d \<Rightarrow> 'c \<Rightarrow> bool) \<Rightarrow> ('c \<Rightarrow> ustring option) \<Rightarrow> 'd \<Rightarrow> 'd \<Rightarrow> document_kind
     \<Rightarrow> 'c touched_container \<Rightarrow> block_admission_denial option" where
  "event_denial api has_container root_name current fork kind t =
     (case root_name (hd (event_chain t)) of
        None \<Rightarrow> Some Undecidable
      | Some name \<Rightarrow>
          if name = document_meta \<or> name = purge_receipts then Some FoundationTouched
          else
            (case kind of
               Note \<Rightarrow> if name \<noteq> note_root then Some Undecidable else None
             | Transcript \<Rightarrow> transcript_denial api has_container current fork name t))"

fun first_denial :: "('a \<Rightarrow> 'e option) \<Rightarrow> 'a list \<Rightarrow> 'e + unit" where
  "first_denial f [] = Inr ()"
| "first_denial f (x # xs) = (case f x of Some e \<Rightarrow> Inl e | None \<Rightarrow> first_denial f xs)"

definition admit_block_update ::
    "('d, 'c) loro_api \<Rightarrow> ('d \<Rightarrow> 'c \<Rightarrow> bool) \<Rightarrow> ('c \<Rightarrow> ustring option) \<Rightarrow> 'd \<Rightarrow> document_kind
     \<Rightarrow> ('d \<times> 'c guard_diff list) option \<Rightarrow> block_admission_denial + unit" where
  "admit_block_update api has_container root_name current kind imported =
     (case imported of
        None \<Rightarrow> Inl Undecidable
      | Some (fork, events) \<Rightarrow>
          first_denial (event_denial api has_container root_name current fork kind) (map summarise events))"

section \<open>What an admitted update can do\<close>

lemma first_denial_ok: "first_denial f xs = Inr () \<longleftrightarrow> (\<forall>x\<in>set xs. f x = None)"
  by (induction xs) (auto split: option.splits)

text \<open>The list after a list diff.\<close>

fun replay :: "list_diff_item list \<Rightarrow> json list \<Rightarrow> json list" where
  "replay [] xs = xs"
| "replay (DiffRetain n # items) xs = take n xs @ replay items (drop n xs)"
| "replay (DiffDelete n # items) xs = replay items (drop n xs)"
| "replay (DiffInsert values m # items) xs = map loro_to_json values @ replay items xs"

fun inserted_by :: "list_diff_item list \<Rightarrow> json list" where
  "inserted_by [] = []"
| "inserted_by (DiffInsert values m # items) = map loro_to_json values @ inserted_by items"
| "inserted_by (_ # items) = inserted_by items"

fun deleted_by :: "list_diff_item list \<Rightarrow> nat" where
  "deleted_by [] = 0"
| "deleted_by (DiffDelete n # items) = n + deleted_by items"
| "deleted_by (_ # items) = deleted_by items"

lemma fold_note_item:
  "tc_list_inserted (fold note_item items t) = tc_list_inserted t @ inserted_by items \<and>
   tc_list_deletes (fold note_item items t) = tc_list_deletes t + deleted_by items \<and>
   tc_target (fold note_item items t) = tc_target t \<and> tc_ancestors (fold note_item items t) = tc_ancestors t"
proof (induction items arbitrary: t)
  case (Cons item items)
  then show ?case by (cases item) (simp_all add: note_item_def)
qed simp

lemma fold_note_move:
  "tc_has_move_insert (fold note_item items t) \<longleftrightarrow> tc_has_move_insert t \<or> (\<exists>vs. DiffInsert vs True \<in> set items)"
proof (induction items arbitrary: t)
  case (Cons item items)
  then show ?case by (cases item) (auto simp: note_item_def)
qed simp

lemma replay_keeps:
  "deleted_by items = 0 \<Longrightarrow> subseq xs (replay items xs) \<and> mset (replay items xs) = mset xs + mset (inserted_by items)"
proof (induction items xs rule: replay.induct)
  case (2 n items xs)
  have "subseq (take n xs @ drop n xs) (take n xs @ replay items (drop n xs))"
    using 2 by (intro list_emb_append_mono) simp_all
  moreover have "mset xs = mset (take n xs) + mset (drop n xs)" by (metis append_take_drop_id mset_append)
  ultimately show ?case using 2 by (simp add: add.assoc)
next
  case (4 vs m items xs)
  then show ?case by (simp add: list_emb_append2 add.commute add.left_commute)
qed auto

text \<open>C30: An admitted update leaves the evidence alone. Every event of an admitted update lies in the one
  root container of the document's kind, never in the foundation (epoch, kind and purge receipts). In a
  transcript no event moves a block. A diff of the block list keeps every block that was there, in the
  same order, and adds only blocks owned by the user. An event inside a block that the local document
  knows as a block of another owner touches only the container of its text or of its lanes: never the
  block itself, so not its identifier, its owner or which containers it has.\<close>

theorem admitted_update_keeps_evidence:
  assumes "admit_block_update api has_container root_name current kind (Some (fork, events)) = Inr ()" "d \<in> set events"
  shows "(let chain = event_chain (summarise d); items = (case gd_items d of None \<Rightarrow> [] | Some i \<Rightarrow> i) in
    root_name (hd chain) = Some (case kind of Note \<Rightarrow> note_root | Transcript \<Rightarrow> transcript_utterances) \<and>
    (kind = Transcript \<longrightarrow>
       (\<forall>vs. DiffInsert vs True \<notin> set items) \<and>
       (length chain = 1 \<longrightarrow>
          (\<forall>old. subseq old (replay items old) \<and> mset (replay items old) = mset old + mset (inserted_by items)) \<and>
          (\<forall>v\<in>set (inserted_by items). str_member (lit ''owner'') v = Some user_mark)) \<and>
       (1 < length chain \<and> has_container current (chain ! 1) \<longrightarrow>
          (\<exists>owner s. bt_get (lo_map api current (chain ! 1)) (lit ''owner'') = Some s \<and>
             slot_deep api current s = LString owner \<and>
             (owner \<noteq> user_mark \<longrightarrow> 2 < length chain \<and>
                (\<exists>key\<in>{lit ''text'', lit ''lanes''}.
                   bt_get (lo_map api current (chain ! 1)) key = Some (Child (chain ! 2))))))))"
proof -
  let ?t = "summarise d" and ?items = "case gd_items d of None \<Rightarrow> [] | Some i \<Rightarrow> i"
  have none: "event_denial api has_container root_name current fork kind ?t = None"
    using assms by (simp add: admit_block_update_def first_denial_ok)
  have t: "tc_list_inserted ?t = inserted_by ?items" "tc_list_deletes ?t = deleted_by ?items"
    "tc_has_move_insert ?t \<longleftrightarrow> (\<exists>vs. DiffInsert vs True \<in> set ?items)"
    by (simp_all add: summarise_def fold_note_item fold_note_move)
  obtain name where name: "root_name (hd (event_chain ?t)) = Some name" "name \<noteq> document_meta" "name \<noteq> purge_receipts"
    using none by (auto simp: event_denial_def split: option.splits if_splits)
  show ?thesis
  proof (cases kind)
    case Note
    then show ?thesis using none name by (auto simp: event_denial_def Let_def split: if_splits)
  next
    case Transcript
    then have tr: "transcript_denial api has_container current fork name ?t = None"
      using none name by (simp add: event_denial_def)
    have basic: "name = transcript_utterances" "\<not> tc_has_move_insert ?t"
      using tr by (auto simp: transcript_denial_def Let_def split: if_splits)
    have listing: "deleted_by ?items = 0 \<and> (\<forall>v\<in>set (inserted_by ?items). str_member (lit ''owner'') v = Some user_mark)"
      if "length (event_chain ?t) = 1"
      using tr basic that t by (auto simp: transcript_denial_def Let_def insertion_denial_def split: if_splits)
    have inside: "\<exists>owner s. bt_get (lo_map api current (event_chain ?t ! 1)) (lit ''owner'') = Some s \<and>
        slot_deep api current s = LString owner \<and>
        (owner \<noteq> user_mark \<longrightarrow> 2 < length (event_chain ?t) \<and>
           (\<exists>key\<in>{lit ''text'', lit ''lanes''}. bt_get (lo_map api current (event_chain ?t ! 1)) key = Some (Child (event_chain ?t ! 2))))"
      if "1 < length (event_chain ?t)" "has_container current (event_chain ?t ! 1)"
    proof -
      have "block_denial api has_container current fork (event_chain ?t) = None"
        using tr basic that(1) by (simp add: transcript_denial_def Let_def)
      then show ?thesis
        using that(2) by (auto simp: block_denial_def Let_def split: option.splits loro_value.splits if_splits)
    qed
    show ?thesis
      unfolding Let_def
      using Transcript name(1) basic t(3) listing replay_keeps inside by simp
  qed
qed

text \<open>A document with one block of a user, one of a session with a text, and the root list.\<close>

definition guard_doc :: mem_doc where
  "guard_doc =
     (mem_empty [(transcript_utterances, CList)])
       \<lparr>md_map := (\<lambda>c. if c = NormalId 0 CMap then [(lit ''owner'', Plain (LString user_mark))]
                        else if c = NormalId 1 CMap
                        then [(lit ''owner'', Plain (LString (lit ''capture:s''))), (lit ''text'', Child (NormalId 2 CText))]
                        else []),
        md_next := 3\<rparr>"

definition name_of_root :: "container_id \<Rightarrow> ustring option" where
  "name_of_root c = (case c of RootId n _ \<Rightarrow> Some n | _ \<Rightarrow> None)"

definition guard_list :: container_id where "guard_list = RootId transcript_utterances CList"

theorem admitted_update_keeps_evidence_witness:
  "admit_block_update mem_api (\<lambda>d c. c \<in> {NormalId 0 CMap, NormalId 1 CMap}) name_of_root guard_doc Transcript
     (Some (guard_doc,
       [\<lparr>gd_target = NormalId 2 CText, gd_path = [guard_list, NormalId 1 CMap], gd_items = None\<rparr>])) = Inr () \<and>
   bt_get (md_map guard_doc (NormalId 1 CMap)) (lit ''text'') = Some (Child (NormalId 2 CText))"
proof -
  let ?known = "\<lambda>(d :: mem_doc) c. c \<in> {NormalId 0 CMap, NormalId 1 CMap}"
  let ?d = "\<lparr>gd_target = NormalId 2 CText, gd_path = [guard_list, NormalId 1 CMap], gd_items = None\<rparr>"
  have chain: "event_chain (summarise ?d) = [guard_list, NormalId 1 CMap, NormalId 2 CText]"
    by (simp add: event_chain_def summarise_def)
  have admit: "admit_block_update mem_api ?known name_of_root guard_doc Transcript (Some (guard_doc, [?d])) = Inr ()"
    by code_simp
  from admitted_update_keeps_evidence [OF admit, of ?d]
  have "\<exists>key\<in>{lit ''text'', lit ''lanes''}. bt_get (md_map guard_doc (NormalId 1 CMap)) key = Some (Child (NormalId 2 CText))"
    by (auto simp: chain Let_def guard_doc_def slot_deep_def user_mark_def lit_def)
  then show ?thesis using admit by (auto simp: guard_doc_def)
qed

text \<open>Whatever a remote update writes into the map of a block that the user owns is admitted: its owner
  may become \<^verbatim>\<open>capture:<session>\<close>, and the block then counts as evidence of that session.\<close>

lemma annotation_may_become_evidence:
  assumes "root_name r = Some transcript_utterances" "has_container current b"
    and "bt_get (lo_map api current b) (lit ''owner'') = Some (Plain (LString user_mark))" "b \<noteq> r"
  shows "admit_block_update api has_container root_name current Transcript
    (Some (fork, [\<lparr>gd_target = b, gd_path = [r], gd_items = None\<rparr>])) = Inr ()"
  using assms
  by (simp add: admit_block_update_def event_denial_def summarise_def event_chain_def transcript_denial_def
      block_denial_def Let_def slot_deep_def document_meta_def transcript_utterances_def purge_receipts_def)

end
