(* ===== verification/Erasure_Meter.thy ===== *)
theory Erasure_Meter
  imports Prelude
begin

text \<open>
  \<^verbatim>\<open>crates/vt-ffi/src/capture_erasure.rs\<close>: the meter of how many presented caption characters later
  updates erase. A hash map is a map with finite domain; the log line of \<^verbatim>\<open>finish_session\<close> is returned
  as a list. Counters are natural numbers (\<^verbatim>\<open>u64\<close> in the source, far from overflow).
\<close>

section \<open>State\<close>

record lane_totals =
  lt_updates :: nat
  lt_erased :: nat
  lt_appended :: nat
  lt_presented :: nat

type_synonym lane_key = "nat \<times> ustring"

record erasure_meter =
  em_session :: "ustring option"
  em_presented :: "lane_key \<Rightarrow> ustring option"
  em_language :: "lane_key \<Rightarrow> ustring option"
  em_totals :: "ustring \<Rightarrow> lane_totals option"
  em_languages :: "ustring list"

record language_variant =
  lv_language :: ustring
  lv_role :: ustring
  lv_text :: "ustring option"

record ffi_utterance =
  fu_sequence :: nat
  fu_source_language :: ustring
  fu_provisional_source_language :: "ustring option"
  fu_source_text :: ustring
  fu_translated_language :: "ustring option"
  fu_translated_text :: "ustring option"
  fu_language_variants :: "language_variant list"

definition no_totals :: lane_totals where
  "no_totals = \<lparr>lt_updates = 0, lt_erased = 0, lt_appended = 0, lt_presented = 0\<rparr>"

definition new_meter :: erasure_meter where
  "new_meter =
     \<lparr>em_session = None, em_presented = (\<lambda>_. None), em_language = (\<lambda>_. None), em_totals = (\<lambda>_. None), em_languages = []\<rparr>"

definition source_role_key :: ustring where "source_role_key = lit ''#source''"

text \<open>\<^verbatim>\<open>totals.entry(language).or_default()\<close> and a change of the entry; \<open>em_languages\<close> are the keys in use,
  in order.\<close>

definition totals_of :: "erasure_meter \<Rightarrow> ustring \<Rightarrow> lane_totals" where
  "totals_of m language = (case em_totals m language of None \<Rightarrow> no_totals | Some t \<Rightarrow> t)"

definition with_totals :: "ustring \<Rightarrow> lane_totals \<Rightarrow> erasure_meter \<Rightarrow> erasure_meter" where
  "with_totals language t m =
     m\<lparr>em_totals := (em_totals m)(language \<mapsto> t), em_languages := bs_insert language (em_languages m)\<rparr>"

section \<open>Recording\<close>

fun common_prefix_chars :: "ustring \<Rightarrow> ustring \<Rightarrow> nat" where
  "common_prefix_chars (a # as) (b # bs) = (if a = b then Suc (common_prefix_chars as bs) else 0)"
| "common_prefix_chars _ _ = 0"

definition migrate_lane_language :: "lane_key \<Rightarrow> ustring \<Rightarrow> nat \<Rightarrow> erasure_meter \<Rightarrow> erasure_meter" where
  "migrate_lane_language key language lane_chars m =
     (case em_language m key of
        None \<Rightarrow> m
      | Some previous_language \<Rightarrow>
          if previous_language = language then m
          else
            (let moved = (case em_totals m previous_language of
                            None \<Rightarrow> 0 | Some t \<Rightarrow> min (lt_presented t) lane_chars);
                 m1 = (case em_totals m previous_language of
                         None \<Rightarrow> m
                       | Some t \<Rightarrow> with_totals previous_language (t\<lparr>lt_presented := lt_presented t - moved\<rparr>) m);
                 t = totals_of m1 language;
                 m2 = with_totals language (t\<lparr>lt_presented := lt_presented t + moved\<rparr>) m1
             in m2\<lparr>em_language := (em_language m2)(key \<mapsto> language)\<rparr>))"

definition record_text :: "nat \<Rightarrow> ustring \<Rightarrow> ustring \<Rightarrow> ustring \<Rightarrow> erasure_meter \<Rightarrow> erasure_meter" where
  "record_text sequence role language body m =
     (let key = (sequence, role);
          previous = (case em_presented m key of None \<Rightarrow> [] | Some p \<Rightarrow> p);
          m = migrate_lane_language key language (length previous) m
      in
      if previous = body then m
      else
        (let common = common_prefix_chars previous body;
             erased = length previous - common;
             appended = length body - common;
             t = totals_of m language;
             m = with_totals language
               (t\<lparr>lt_updates := lt_updates t + 1, lt_erased := lt_erased t + erased, lt_appended := lt_appended t + appended,
                  lt_presented := lt_presented t - length previous + length body\<rparr>) m
         in m\<lparr>em_presented := (em_presented m)(key \<mapsto> body), em_language := (em_language m)(key \<mapsto> language)\<rparr>))"

definition absorb_variant :: "ffi_utterance \<Rightarrow> language_variant \<Rightarrow> erasure_meter \<Rightarrow> erasure_meter" where
  "absorb_variant u v m =
     (case lv_text v of
        None \<Rightarrow> m
      | Some body \<Rightarrow>
          if body = [] then m
          else if lv_role v = lit ''source'' then
            record_text (fu_sequence u) source_role_key
              (case fu_provisional_source_language u of None \<Rightarrow> lv_language v | Some l \<Rightarrow> l) body m
          else record_text (fu_sequence u) (lv_language v) (lv_language v) body m)"

definition absorb_shadow :: "ffi_utterance \<Rightarrow> erasure_meter \<Rightarrow> erasure_meter" where
  "absorb_shadow u m =
     (let source_language = (case fu_provisional_source_language u of None \<Rightarrow> fu_source_language u | Some l \<Rightarrow> l);
          m = (if fu_source_text u \<noteq> []
               then record_text (fu_sequence u) source_role_key source_language (fu_source_text u) m else m)
      in
      case (fu_translated_language u, fu_translated_text u) of
        (Some language, Some body) \<Rightarrow> if body \<noteq> [] then record_text (fu_sequence u) language language body m else m
      | _ \<Rightarrow> m)"

definition absorb_utterance :: "ffi_utterance \<Rightarrow> erasure_meter \<Rightarrow> erasure_meter" where
  "absorb_utterance u m =
     (if fu_language_variants u = [] then absorb_shadow u m
      else fold (absorb_variant u) (fu_language_variants u) m)"

section \<open>Sessions\<close>

text \<open>The log lines of a session, sorted by language, and the cleared meter.\<close>

definition finish_session :: "erasure_meter \<Rightarrow> (ustring \<times> ustring \<times> lane_totals) list \<times> erasure_meter" where
  "finish_session m =
     (case em_session m of
        None \<Rightarrow> ([], m)
      | Some session \<Rightarrow>
          (map (\<lambda>l. (session, l, totals_of m l)) (em_languages m), new_meter))"

definition roll_session :: "ustring \<Rightarrow> erasure_meter \<Rightarrow> erasure_meter" where
  "roll_session session m =
     (if em_session m \<noteq> Some session then (snd (finish_session m))\<lparr>em_session := Some session\<rparr> else m)"

definition absorb_event_utterances :: "ustring \<Rightarrow> ffi_utterance list \<Rightarrow> erasure_meter \<Rightarrow> erasure_meter" where
  "absorb_event_utterances session us m = fold absorb_utterance us (roll_session session m)"

text \<open>A preview carries its session and its utterances.\<close>

definition absorb_preview :: "ustring \<times> ffi_utterance list \<Rightarrow> erasure_meter \<Rightarrow> erasure_meter" where
  "absorb_preview preview m = fold absorb_utterance (snd preview) (roll_session (fst preview) m)"

section \<open>Accounting\<close>

lemma common_prefix_le: "common_prefix_chars a b \<le> length a" "common_prefix_chars a b \<le> length b"
  by (induction a b rule: common_prefix_chars.induct) auto

text \<open>The characters of a lane on screen; of all the lanes attributed to a language; and the sum of a
  counter over the languages.\<close>

definition lane_chars_of :: "erasure_meter \<Rightarrow> lane_key \<Rightarrow> nat" where
  "lane_chars_of m key = length (case em_presented m key of None \<Rightarrow> [] | Some p \<Rightarrow> p)"

definition shown_chars :: "erasure_meter \<Rightarrow> ustring \<Rightarrow> nat" where
  "shown_chars m language = (\<Sum>key | em_language m key = Some language. lane_chars_of m key)"

definition overall :: "(lane_totals \<Rightarrow> nat) \<Rightarrow> erasure_meter \<Rightarrow> nat" where
  "overall f m = (\<Sum>l\<in>set (em_languages m). f (totals_of m l))"

definition meter_ok :: "erasure_meter \<Rightarrow> bool" where
  "meter_ok m \<longleftrightarrow>
     finite (dom (em_language m)) \<and> dom (em_presented m) = dom (em_language m) \<and>
     set (em_languages m) = dom (em_totals m) \<and> bs_wf (em_languages m) \<and> ran (em_language m) \<subseteq> dom (em_totals m) \<and>
     (\<forall>l. lt_presented (totals_of m l) = shown_chars m l) \<and>
     overall lt_appended m = overall lt_erased m + overall lt_presented m"

lemma shown_update:
  assumes "finite (dom g)"
  shows "(\<Sum>k | (g(key \<mapsto> L)) k = Some l. (c(key := n)) k) + (if g key = Some l then c key else 0) =
    (\<Sum>k | g k = Some l. c k) + (if l = L then n else (0 :: nat))"
proof -
  let ?S = "{k. g k = Some l}"
  have fin: "finite ?S" by (rule finite_subset [OF _ assms]) auto
  have rest: "(\<Sum>k\<in>?S - {key}. (c(key := n)) k) = (\<Sum>k\<in>?S - {key}. c k)" by (rule sum.cong) auto
  have old: "(\<Sum>k\<in>?S. c k) = (\<Sum>k\<in>?S - {key}. c k) + (if g key = Some l then c key else 0)"
    using sum.remove [OF fin, of key c] by (cases "g key = Some l") auto
  have new: "{k. (g(key \<mapsto> L)) k = Some l} = (if l = L then insert key (?S - {key}) else ?S - {key})" by auto
  have "(\<Sum>k | (g(key \<mapsto> L)) k = Some l. (c(key := n)) k) = (\<Sum>k\<in>?S - {key}. c k) + (if l = L then n else 0)"
    unfolding new using rest fin by (auto simp: sum.insert_remove)
  then show ?thesis using old by simp
qed

lemma with_totals_fields [simp]:
  "em_language (with_totals l t m) = em_language m" "em_presented (with_totals l t m) = em_presented m"
  "em_session (with_totals l t m) = em_session m" "totals_of (with_totals l t m) k = (if k = l then t else totals_of m k)"
  "em_languages (with_totals l t m) = bs_insert l (em_languages m)"
  "em_totals (with_totals l t m) = (em_totals m)(l \<mapsto> t)"
  by (simp_all add: with_totals_def totals_of_def)

lemma totals_of_language [simp]:
  "totals_of (m\<lparr>em_language := g\<rparr>) = totals_of m" "totals_of (m\<lparr>em_presented := p\<rparr>) = totals_of m"
  by (simp_all add: totals_of_def fun_eq_iff)

lemma overall_language [simp]:
  "overall f (m\<lparr>em_language := g\<rparr>) = overall f m" "overall f (m\<lparr>em_presented := p\<rparr>) = overall f m"
  by (simp_all add: overall_def)

lemma overall_with:
  assumes "set (em_languages m) = dom (em_totals m)" "f no_totals = 0"
  shows "overall f (with_totals l t m) + f (totals_of m l) = overall f m + f t"
proof -
  have fin: "finite (set (em_languages m))" by simp
  have rest: "(\<Sum>k\<in>set (em_languages m) - {l}. f (if k = l then t else totals_of m k)) = (\<Sum>k\<in>set (em_languages m) - {l}. f (totals_of m k))"
    by (rule sum.cong) auto
  have new: "overall f (with_totals l t m) = f t + (\<Sum>k\<in>set (em_languages m) - {l}. f (totals_of m k))"
    using rest by (simp add: overall_def sum.insert_remove)
  show ?thesis
  proof (cases "l \<in> set (em_languages m)")
    case True
    then show ?thesis using new sum.remove [OF fin True, of "\<lambda>k. f (totals_of m k)"] by (simp add: overall_def)
  next
    case False
    then have "totals_of m l = no_totals" using assms(1) by (auto simp: totals_of_def split: option.splits)
    then show ?thesis using new False assms(2) by (simp add: overall_def)
  qed
qed

lemma shown_after:
  assumes "finite (dom (em_language m))"
  shows "shown_chars (m'\<lparr>em_presented := (em_presented m)(key \<mapsto> body), em_language := (em_language m)(key \<mapsto> L)\<rparr>) l +
      (if em_language m key = Some l then lane_chars_of m key else 0) =
    shown_chars m l + (if l = L then length body else 0)"
proof -
  have "lane_chars_of (m'\<lparr>em_presented := (em_presented m)(key \<mapsto> body), em_language := (em_language m)(key \<mapsto> L)\<rparr>) =
      (lane_chars_of m)(key := length body)"
    by (rule ext) (simp add: lane_chars_of_def)
  then show ?thesis using shown_update [OF assms, where key = key and L = L and l = l and c = "lane_chars_of m" and n = "length body"] by (simp add: shown_chars_def)
qed

lemma shown_le: "finite (dom (em_language m)) \<Longrightarrow> em_language m key = Some l \<Longrightarrow> lane_chars_of m key \<le> shown_chars m l"
  unfolding shown_chars_def
  by (rule member_le_sum) (auto intro: finite_subset [of _ "dom (em_language m)"])

lemma migrate_ok:
  assumes "meter_ok m" "em_presented m key = Some p"
  shows "meter_ok (migrate_lane_language key language (length p) m) \<and>
    em_language (migrate_lane_language key language (length p) m) key = Some language \<and>
    em_presented (migrate_lane_language key language (length p) m) = em_presented m"
proof -
  have m: "finite (dom (em_language m))" "dom (em_presented m) = dom (em_language m)"
      "set (em_languages m) = dom (em_totals m)" "bs_wf (em_languages m)" "ran (em_language m) \<subseteq> dom (em_totals m)"
      "\<And>l. lt_presented (totals_of m l) = shown_chars m l"
      "overall lt_appended m = overall lt_erased m + overall lt_presented m"
    using assms(1) by (auto simp: meter_ok_def)
  obtain prev where prev: "em_language m key = Some prev" using m(2) assms(2) by blast
  have chars: "lane_chars_of m key = length p" using assms(2) by (simp add: lane_chars_of_def)
  show ?thesis
  proof (cases "prev = language")
    case True
    then show ?thesis using assms(1) prev by (simp add: migrate_lane_language_def)
  next
    case False
    obtain t where t: "em_totals m prev = Some t" using m(5) ranI [of "em_language m" key prev] prev by blast
    then have t': "totals_of m prev = t" by (simp add: totals_of_def)
    have le: "length p \<le> lt_presented t" using shown_le [OF m(1) prev] chars m(6) [of prev] t' by simp
    define m1 where "m1 = with_totals prev (t\<lparr>lt_presented := lt_presented t - length p\<rparr>) m"
    define u where "u = totals_of m language"
    define m2 where "m2 = with_totals language (u\<lparr>lt_presented := lt_presented u + length p\<rparr>) m1"
    have u1: "totals_of m1 language = u" using False by (simp add: m1_def u_def)
    have run: "migrate_lane_language key language (length p) m = m2\<lparr>em_language := (em_language m)(key \<mapsto> language)\<rparr>"
      using prev False t le u1 by (simp add: migrate_lane_language_def min_absorb2 Let_def m1_def [symmetric] m2_def [symmetric])
        (simp add: m2_def m1_def)
    have dom1: "set (em_languages m1) = dom (em_totals m1)" using m(3) by (simp add: m1_def)
    have sums: "overall f m2 + f t + f u = overall f m + f (t\<lparr>lt_presented := lt_presented t - length p\<rparr>) +
        f (u\<lparr>lt_presented := lt_presented u + length p\<rparr>)" if "f no_totals = 0" for f
      using overall_with [of m f prev "t\<lparr>lt_presented := lt_presented t - length p\<rparr>", OF m(3) that]
        overall_with [of m1 f language "u\<lparr>lt_presented := lt_presented u + length p\<rparr>", OF dom1 that] u1 t'
      by (simp add: m1_def [symmetric] m2_def [symmetric])
    have m2: "overall lt_presented m2 = overall lt_presented m" "overall lt_appended m2 = overall lt_appended m"
        "overall lt_erased m2 = overall lt_erased m"
      using sums [of lt_presented] sums [of lt_appended] sums [of lt_erased] le by (simp_all add: no_totals_def)
    have shown: "shown_chars (m2\<lparr>em_language := (em_language m)(key \<mapsto> language)\<rparr>) l +
        (if prev = l then length p else 0) = shown_chars m l + (if l = language then length p else 0)" for l
    proof -
      have "(em_presented m)(key \<mapsto> p) = em_presented m" using assms(2) by auto
      then have "m2\<lparr>em_language := (em_language m)(key \<mapsto> language)\<rparr> =
          m2\<lparr>em_presented := (em_presented m)(key \<mapsto> p), em_language := (em_language m)(key \<mapsto> language)\<rparr>"
        by (simp add: m2_def m1_def)
      note eq = this
      show ?thesis
        unfolding eq using shown_after [OF m(1), where m' = m2 and key = key and body = p and L = language and l = l]
        by (simp only: prev chars option.inject)
    qed
    have pres: "lt_presented (totals_of m2 l) = shown_chars (m2\<lparr>em_language := (em_language m)(key \<mapsto> language)\<rparr>) l" for l
      using shown [of l] m(6) [of l] t' False le by (auto simp: m2_def m1_def u_def)
    have "ran ((em_language m)(key \<mapsto> language)) \<subseteq> dom (em_totals m2)"
      using m(5) by (auto simp: m2_def m1_def ran_def split: if_splits)
    then show ?thesis
      unfolding run using m(1-4,7) m2 pres prev by (auto simp: meter_ok_def m2_def m1_def)
  qed
qed

lemma record_ok:
  assumes "meter_ok m"
  shows "meter_ok (record_text sequence role language body m)"
proof -
  let ?key = "(sequence, role)"
  define previous where "previous = (case em_presented m ?key of None \<Rightarrow> [] | Some p \<Rightarrow> p)"
  define m1 where "m1 = migrate_lane_language ?key language (length previous) m"
  have m1: "meter_ok m1" "em_presented m1 = em_presented m" "em_language m1 ?key = (if em_presented m ?key = None then None else Some language)"
  proof (atomize (full), cases "em_presented m ?key")
    case None
    then have "em_language m ?key = None" using assms by (auto simp: meter_ok_def)
    then show "meter_ok m1 \<and> em_presented m1 = em_presented m \<and>
        em_language m1 ?key = (if em_presented m ?key = None then None else Some language)"
      using assms None by (simp add: m1_def migrate_lane_language_def)
  next
    case (Some p)
    then show "meter_ok m1 \<and> em_presented m1 = em_presented m \<and>
        em_language m1 ?key = (if em_presented m ?key = None then None else Some language)"
      using migrate_ok [OF assms Some, of language] by (simp add: m1_def previous_def)
  qed
  show ?thesis
  proof (cases "previous = body")
    case True
    then show ?thesis using m1(1) by (simp add: record_text_def previous_def m1_def Let_def)
  next
    case False
    define common where "common = common_prefix_chars previous body"
    define t where "t = totals_of m1 language"
    define t' where "t' = t\<lparr>lt_updates := lt_updates t + 1, lt_erased := lt_erased t + (length previous - common),
        lt_appended := lt_appended t + (length body - common), lt_presented := lt_presented t - length previous + length body\<rparr>"
    define m2 where "m2 = with_totals language t' m1"
    have run: "record_text sequence role language body m =
        m2\<lparr>em_presented := (em_presented m1)(?key \<mapsto> body), em_language := (em_language m1)(?key \<mapsto> language)\<rparr>"
      using False by (simp add: record_text_def previous_def [symmetric] m1_def [symmetric] Let_def m2_def t'_def t_def common_def)
    have m: "finite (dom (em_language m1))" "dom (em_presented m1) = dom (em_language m1)"
      "set (em_languages m1) = dom (em_totals m1)" "bs_wf (em_languages m1)" "ran (em_language m1) \<subseteq> dom (em_totals m1)"
      "\<And>l. lt_presented (totals_of m1 l) = shown_chars m1 l"
      "overall lt_appended m1 = overall lt_erased m1 + overall lt_presented m1"
      using m1(1) by (auto simp: meter_ok_def)
    have chars: "lane_chars_of m1 ?key = length previous" by (simp add: lane_chars_of_def previous_def m1(2))
    have le: "length previous \<le> lt_presented t"
    proof (cases "em_presented m ?key")
      case (Some p)
      then show ?thesis using shown_le [OF m(1), of ?key language] m1(3) chars m(6) [of language] by (simp add: t_def)
    qed (simp add: previous_def)
    have shown: "shown_chars (m2\<lparr>em_presented := (em_presented m1)(?key \<mapsto> body), em_language := (em_language m1)(?key \<mapsto> language)\<rparr>) l +
        (if l = language then length previous else 0) = shown_chars m1 l + (if l = language then length body else 0)" for l
      using shown_after [OF m(1), where m' = m2 and key = ?key and body = body and L = language and l = l] m1(3) chars previous_def by (auto split: option.splits)
    have pres: "lt_presented (totals_of m2 l) =
        shown_chars (m2\<lparr>em_presented := (em_presented m1)(?key \<mapsto> body), em_language := (em_language m1)(?key \<mapsto> language)\<rparr>) l" for l
      using shown [of l] m(6) [of l] le by (auto simp: m2_def t'_def t_def split: if_splits)
    have sums: "overall f m2 + f t = overall f m1 + f t'" if "f no_totals = 0" for f
      using overall_with [of m1 f language t', OF m(3) that] by (simp add: m2_def t_def)
    have "overall lt_appended m2 = overall lt_erased m2 + overall lt_presented m2"
      using sums [of lt_presented] sums [of lt_appended] sums [of lt_erased] le m(7)
        common_prefix_le [where a = previous and b = body]
      by (simp add: no_totals_def t'_def common_def)
    moreover have "ran ((em_language m1)(?key \<mapsto> language)) \<subseteq> dom (em_totals m2)"
      using m(5) by (auto simp: m2_def ran_def split: if_splits)
    ultimately show ?thesis
      unfolding run using m(1-4) pres by (auto simp: meter_ok_def m2_def)
  qed
qed

lemma absorb_utterance_ok: "meter_ok m \<Longrightarrow> meter_ok (absorb_utterance u m)"
proof -
  have variants: "meter_ok m \<Longrightarrow> meter_ok (fold (absorb_variant u) vs m)" for vs m
    by (induction vs arbitrary: m) (auto simp: absorb_variant_def record_ok split: option.splits)
  show "meter_ok m \<Longrightarrow> meter_ok (absorb_utterance u m)"
    by (auto simp: absorb_utterance_def absorb_shadow_def record_ok variants Let_def split: option.splits)
qed

lemma new_meter_ok: "meter_ok new_meter"
  by (simp add: meter_ok_def new_meter_def totals_of_def no_totals_def shown_chars_def overall_def)

lemma meter_ok_session [simp]: "meter_ok (m\<lparr>em_session := s\<rparr>) = meter_ok m"
proof -
  have "totals_of (m\<lparr>em_session := s\<rparr>) = totals_of m" by (simp add: totals_of_def fun_eq_iff)
  then show ?thesis by (simp add: meter_ok_def shown_chars_def lane_chars_of_def overall_def)
qed

lemma roll_ok: "meter_ok m \<Longrightarrow> meter_ok (roll_session session m)"
  by (auto simp: roll_session_def finish_session_def new_meter_ok split: option.splits)

datatype delivery = Event ustring "ffi_utterance list" | Preview ustring "ffi_utterance list" | Finish

fun deliver :: "erasure_meter \<Rightarrow> delivery \<Rightarrow> erasure_meter" where
  "deliver m (Event session us) = absorb_event_utterances session us m"
| "deliver m (Preview session us) = absorb_preview (session, us) m"
| "deliver m Finish = snd (finish_session m)"

lemma deliver_ok: "meter_ok m \<Longrightarrow> meter_ok (deliver m e)"
proof -
  have all: "meter_ok m \<Longrightarrow> meter_ok (fold absorb_utterance us m)" for us m
    by (induction us arbitrary: m) (simp_all add: absorb_utterance_ok)
  show "meter_ok m \<Longrightarrow> meter_ok (deliver m e)"
    by (cases e) (auto simp: absorb_event_utterances_def absorb_preview_def all roll_ok finish_session_def new_meter_ok
        split: option.splits)
qed

interpretation meter: state_machine "\<lambda>m. m = new_meter" deliver meter_ok
  by unfold_locales (auto intro: new_meter_ok deliver_ok)

text \<open>C40: The meter's books balance. After any sequence of caption events, previews and ends of sessions,
  the characters a language is said to present are exactly those of the latest text of the lanes now
  attributed to it, also for lanes that changed language on the way; and over all languages the
  characters ever appended are those erased plus those presented.\<close>

theorem erasure_accounting:
  "let m = foldl deliver new_meter ds in
    (\<forall>l. lt_presented (totals_of m l) = shown_chars m l) \<and>
    overall lt_appended m = overall lt_erased m + overall lt_presented m"
  using meter.inv_reachable [of new_meter ds] by (simp add: meter_ok_def Let_def)

end
