(* ===== verification/Str_Ops.thy ===== *)
theory Str_Ops
  imports Prelude
begin

text \<open>
  The operations of \<^verbatim>\<open>str\<close> that the classification, the formatting and the parsing code uses: prefixes,
  \<^verbatim>\<open>contains\<close>, \<^verbatim>\<open>replace\<close>, \<^verbatim>\<open>split\<close>, the ASCII classes and \<^verbatim>\<open>to_ascii_lowercase\<close>.
\<close>

definition starts_with :: "ustring \<Rightarrow> ustring \<Rightarrow> bool" where
  "starts_with pat s \<longleftrightarrow> take (length pat) s = pat"

fun str_contains :: "ustring \<Rightarrow> ustring \<Rightarrow> bool" where
  "str_contains pat [] \<longleftrightarrow> pat = []"
| "str_contains pat (c # s) \<longleftrightarrow> starts_with pat (c # s) \<or> str_contains pat s"

definition to_ascii_lowercase :: "ustring \<Rightarrow> ustring" where
  "to_ascii_lowercase s = map ascii_lower s"

definition is_ascii_digit :: "uchar \<Rightarrow> bool" where
  "is_ascii_digit c \<longleftrightarrow> 48 \<le> c \<and> c \<le> 57"

definition is_ascii_alphanumeric :: "uchar \<Rightarrow> bool" where
  "is_ascii_alphanumeric c \<longleftrightarrow> is_ascii_digit c \<or> (65 \<le> c \<and> c \<le> 90) \<or> (97 \<le> c \<and> c \<le> 122)"

definition is_ascii_hexdigit :: "uchar \<Rightarrow> bool" where
  "is_ascii_hexdigit c \<longleftrightarrow> is_ascii_digit c \<or> (65 \<le> c \<and> c \<le> 70) \<or> (97 \<le> c \<and> c \<le> 102)"

definition is_ascii_punctuation :: "uchar \<Rightarrow> bool" where
  "is_ascii_punctuation c \<longleftrightarrow>
     (33 \<le> c \<and> c \<le> 47) \<or> (58 \<le> c \<and> c \<le> 64) \<or> (91 \<le> c \<and> c \<le> 96) \<or> (123 \<le> c \<and> c \<le> 126)"

text \<open>\<^verbatim>\<open>s.split(c)\<close>: the pieces between the separators, at least one.\<close>

fun split_on :: "uchar \<Rightarrow> ustring \<Rightarrow> ustring list" where
  "split_on sep [] = [[]]"
| "split_on sep (c # s) =
     (if c = sep then [] # split_on sep s
      else (case split_on sep s of [] \<Rightarrow> [[c]] | p # ps \<Rightarrow> (c # p) # ps))"

text \<open>\<^verbatim>\<open>s.replace(pat, rep)\<close> for a pattern that is not empty: from left to right, without overlaps.\<close>

function str_replace :: "ustring \<Rightarrow> ustring \<Rightarrow> ustring \<Rightarrow> ustring" where
  "str_replace pat rep s =
     (case s of
        [] \<Rightarrow> []
      | c # s' \<Rightarrow>
          if pat \<noteq> [] \<and> starts_with pat s then rep @ str_replace pat rep (drop (length pat) s)
          else c # str_replace pat rep s')"
  by pat_completeness auto

termination str_replace
  by (relation "measure (\<lambda>(pat, rep, s). length s)") auto

declare str_replace.simps [simp del]

section \<open>Facts\<close>

lemma starts_with_iff: "starts_with pat s \<longleftrightarrow> (\<exists>r. s = pat @ r)"
proof
  assume "starts_with pat s"
  then have "s = pat @ drop (length pat) s" by (metis starts_with_def append_take_drop_id)
  then show "\<exists>r. s = pat @ r" ..
qed (auto simp: starts_with_def)

lemma str_contains_iff: "str_contains pat s \<longleftrightarrow> (\<exists>l r. s = l @ pat @ r)"
proof (induction s)
  case (Cons c s)
  have "(\<exists>l r. c # s = l @ pat @ r) \<longleftrightarrow> (\<exists>r. c # s = pat @ r) \<or> (\<exists>l r. s = l @ pat @ r)"
    by (auto simp: Cons_eq_append_conv)
  then show ?case by (simp add: Cons.IH starts_with_iff)
qed auto

lemma str_contains_append: "str_contains pat s \<Longrightarrow> str_contains pat (l @ s @ r)"
  unfolding str_contains_iff by (metis append.assoc)

lemma length_to_ascii_lowercase [simp]: "length (to_ascii_lowercase s) = length s"
  by (simp add: to_ascii_lowercase_def)

lemma to_ascii_lowercase_append [simp]: "to_ascii_lowercase (s @ t) = to_ascii_lowercase s @ to_ascii_lowercase t"
  by (simp add: to_ascii_lowercase_def)

lemma ascii_lower_idem [simp]: "ascii_lower (ascii_lower c) = ascii_lower c"
  by (simp add: ascii_lower_def)

lemma split_on_not_Nil [simp]: "split_on sep s \<noteq> []"
  by (induction s) (auto split: list.splits)

lemma split_on_no_sep: "p \<in> set (split_on sep s) \<Longrightarrow> sep \<notin> set p"
proof (induction s arbitrary: p)
  case (Cons c s)
  then show ?case by (auto split: if_splits list.splits)
qed simp

lemma split_on_join: "concat (map (\<lambda>p. sep # p) (split_on sep s)) = sep # s"
proof (induction s)
  case (Cons c s)
  then show ?case by (auto split: list.splits)
qed simp

text \<open>Text without the first character of the pattern is left as it is.\<close>

lemma str_replace_Nil [simp]: "str_replace pat rep [] = []"
  by (subst str_replace.simps) simp

lemma str_replace_absent: "\<not> str_contains pat s \<Longrightarrow> str_replace pat rep s = s"
proof (induction s)
  case (Cons c s)
  then show ?case by (subst str_replace.simps) auto
qed simp

lemma str_replace_skip:
  assumes "\<forall>c\<in>set s. c \<noteq> p"
  shows "str_replace (p # ps) rep (s @ t) = s @ str_replace (p # ps) rep t"
  using assms
proof (induction s)
  case (Cons c s)
  then have "\<not> starts_with (p # ps) (c # s @ t)" by (auto simp: starts_with_def)
  with Cons show ?case by (subst str_replace.simps) simp
qed simp

lemma str_replace_hit: "pat \<noteq> [] \<Longrightarrow> str_replace pat rep (pat @ t) = rep @ str_replace pat rep t"
  by (cases pat; subst str_replace.simps) (simp_all add: starts_with_def)

end
