(* ===== verification/Stt_Errors.thy ===== *)
theory Stt_Errors
  imports Str_Ops
begin

text \<open>
  \<^verbatim>\<open>crates/vt-stt/src/error.rs\<close> and the classification of provider errors in \<^verbatim>\<open>soniox_rt.rs\<close>: raw
  strings of the provider are looked at to choose an error, and none of them becomes part of it,
  except a request identifier that passes \<open>safe_soniox_request_id\<close>. A duration is its number of
  nanoseconds.
\<close>

section \<open>Errors\<close>

datatype soniox_quota_kind = OrganizationBalance | OrganizationMonthlyBudget | ProjectMonthlyBudget | OtherQuota

definition quota_from_error_type :: "ustring option \<Rightarrow> soniox_quota_kind" where
  "quota_from_error_type error_type =
     (let t = to_ascii_lowercase (case error_type of None \<Rightarrow> [] | Some x \<Rightarrow> x) in
      if t = lit ''organization_balance_exhausted'' then OrganizationBalance
      else if t = lit ''organization_monthly_budget_exhausted'' then OrganizationMonthlyBudget
      else if t = lit ''project_monthly_budget_exhausted'' then ProjectMonthlyBudget
      else OtherQuota)"

type_synonym duration = nat

definition as_millis :: "duration \<Rightarrow> nat" where "as_millis d = d div 1000000"
definition from_millis :: "nat \<Rightarrow> duration" where "from_millis n = n * 1000000"
definition from_secs :: "nat \<Rightarrow> duration" where "from_secs n = n * 1000000000"

datatype stt_error =
    ConnectionFailed ustring
  | ReadTimeout duration
  | ServerClosed nat ustring
  | AuthFailed ustring
  | QuotaExhausted soniox_quota_kind ustring
  | RateLimited
  | ParseError ustring
  | ServerError nat ustring
  | ApiError nat ustring ustring
  | TranscriptionFailed ustring ustring
  | HttpError ustring
  | SttTimeout ustring duration
  | SttCancelled
  | UploadFailed ustring

definition error_is_retryable :: "stt_error \<Rightarrow> bool" where
  "error_is_retryable e =
     (case e of ReadTimeout _ \<Rightarrow> True | ConnectionFailed _ \<Rightarrow> True | RateLimited \<Rightarrow> True | ServerError _ _ \<Rightarrow> True | _ \<Rightarrow> False)"

definition is_auth_error :: "stt_error \<Rightarrow> bool" where
  "is_auth_error e = (case e of AuthFailed _ \<Rightarrow> True | QuotaExhausted _ _ \<Rightarrow> True | _ \<Rightarrow> False)"

section \<open>Request identifiers\<close>

definition max_safe_provider_request_id_bytes :: nat where "max_safe_provider_request_id_bytes = 64"

definition request_id_char :: "uchar \<Rightarrow> bool" where
  "request_id_char c \<longleftrightarrow> is_ascii_alphanumeric c \<or> c \<in> set (lit ''-_.'')"

definition credential_markers :: "ustring list" where
  "credential_markers = map lit [''api_key'', ''apikey'', ''credential'', ''secret'', ''bearer'', ''token'']"

text \<open>The loop over the bytes: \<open>True\<close> when a run of 24 hexadecimal digits is met.\<close>

fun long_hex_run :: "nat \<Rightarrow> ustring \<Rightarrow> bool" where
  "long_hex_run consecutive_hex [] = False"
| "long_hex_run consecutive_hex (c # s) =
     (if is_ascii_hexdigit c then 24 \<le> consecutive_hex + 1 \<or> long_hex_run (consecutive_hex + 1) s
      else long_hex_run 0 s)"

definition conventional_prefix :: "ustring \<Rightarrow> bool" where
  "conventional_prefix lower \<longleftrightarrow>
     (\<exists>p\<in>set (map lit [''req-'', ''req_'', ''request-'', ''request_'']). starts_with p lower)"

definition uuid_shape :: "ustring \<Rightarrow> bool" where
  "uuid_shape s \<longleftrightarrow>
     str_len s = 36 \<and>
     (\<forall>(i, c)\<in>set (enumerate 0 s). if i \<in> {8, 13, 18, 23} then c = 45 else is_ascii_hexdigit c)"

definition safe_soniox_request_id :: "ustring option \<Rightarrow> ustring option" where
  "safe_soniox_request_id raw =
     Option.bind (map_option trim raw) (\<lambda>v.
       if \<not> (4 \<le> str_len v \<and> str_len v \<le> max_safe_provider_request_id_bytes) \<or> \<not> (\<forall>c\<in>set v. request_id_char c) then None
       else
         (let lower = to_ascii_lowercase v in
          if \<exists>m\<in>set credential_markers. str_contains m lower then None
          else if long_hex_run 0 v then None
          else if conventional_prefix lower \<or> uuid_shape v then Some v else None))"

section \<open>Classification\<close>

definition hits :: "string list \<Rightarrow> ustring \<Rightarrow> bool" where
  "hits pats s \<longleftrightarrow> (\<exists>p\<in>set pats. str_contains (lit p) s)"

definition canonical_soniox_error_type :: "nat \<Rightarrow> ustring option \<Rightarrow> ustring" where
  "canonical_soniox_error_type status raw =
     (let normalized = to_ascii_lowercase (case raw of None \<Rightarrow> [] | Some r \<Rightarrow> r) in
      if status \<in> {401, 403} \<or> hits [''auth'', ''api_key'', ''unauthor'', ''credential''] normalized
      then lit ''authentication_error''
      else if status = 402 \<or> hits [''quota'', ''balance_exhausted'', ''budget_exhausted''] normalized
      then lit ''quota_exhausted''
      else if status = 429 \<or> hits [''rate'', ''limit_exceeded''] normalized then lit ''rate_limited''
      else if status = 400 \<or> hits [''invalid_request''] normalized then lit ''invalid_request''
      else if 500 \<le> status \<or> hits [''service_unavailable''] normalized then lit ''service_unavailable''
      else lit ''provider_error'')"

definition safe_soniox_provider_detail :: "nat \<Rightarrow> ustring \<Rightarrow> ustring option \<Rightarrow> ustring" where
  "safe_soniox_provider_detail status error_type request_id =
     (let status_label = (if status = 0 then lit ''unknown'' else show_nat status);
          request_suffix = (case safe_soniox_request_id request_id of
                              None \<Rightarrow> [] | Some v \<Rightarrow> lit '' request_id='' @ v)
      in error_type @ lit '' (status='' @ status_label @ lit '')'' @ request_suffix)"

datatype soniox_error_code = Numeric nat | CodeText ustring

definition code_status :: "soniox_error_code \<Rightarrow> nat" where
  "code_status c = (case c of Numeric v \<Rightarrow> v | CodeText _ \<Rightarrow> 0)"

definition code_label :: "soniox_error_code \<Rightarrow> ustring" where
  "code_label c = (case c of Numeric v \<Rightarrow> show_nat v | CodeText v \<Rightarrow> v)"

definition provider_error :: "soniox_error_code \<Rightarrow> ustring option \<Rightarrow> ustring option \<Rightarrow> stt_error" where
  "provider_error code error_type request_id =
     (let status = code_status code;
          quota_kind = quota_from_error_type error_type;
          classification_input =
            (case error_type of Some t \<Rightarrow> code_label code @ lit '' '' @ t | None \<Rightarrow> code_label code);
          error_type = canonical_soniox_error_type status (Some classification_input);
          detail = safe_soniox_provider_detail status error_type request_id;
          normalized = to_ascii_lowercase classification_input
      in
      if hits [''auth'', ''api_key'', ''unauthor''] normalized \<or> status \<in> {401, 403} then AuthFailed detail
      else if status = 402 \<or> hits [''quota'', ''balance_exhausted'', ''budget_exhausted''] normalized
      then QuotaExhausted quota_kind detail
      else if status = 429 \<or> hits [''rate'', ''limit_exceeded''] normalized then RateLimited
      else ApiError status error_type detail)"

definition close_frame_error :: "(nat \<times> ustring) option \<Rightarrow> stt_error" where
  "close_frame_error frame =
     (case frame of
        Some (code, reason) \<Rightarrow>
          (let normalized = to_ascii_lowercase reason in
           if code \<in> {1008, 4001, 4003} \<or> hits [''auth'', ''api_key''] normalized
           then AuthFailed (lit ''authentication_error (close_status='' @ show_nat code @ lit '')'')
           else ServerClosed code (lit ''provider closed the connection''))
      | None \<Rightarrow> ConnectionFailed (lit ''Soniox WebSocket closed before finished without a close frame''))"

section \<open>Nothing of the provider's text gets through\<close>

definition canonical_types :: "ustring list" where
  "canonical_types =
     map lit [''authentication_error'', ''quota_exhausted'', ''rate_limited'', ''invalid_request'',
              ''service_unavailable'', ''provider_error'']"

lemma canonical_in_types: "canonical_soniox_error_type status raw \<in> set canonical_types"
  by (simp add: canonical_soniox_error_type_def canonical_types_def Let_def)

lemma hits_iff: "hits pats s \<longleftrightarrow> (\<exists>p\<in>set pats. \<exists>l r. s = l @ lit p @ r)"
  by (simp add: hits_def str_contains_iff)

lemma hex_run_iff:
  "long_hex_run n s \<longleftrightarrow>
     (\<exists>l h r. s = l @ h @ r \<and> (\<forall>c\<in>set h. is_ascii_hexdigit c) \<and> h \<noteq> [] \<and>
        (24 \<le> length h \<or> l = [] \<and> 24 \<le> n + length h))"
  (is "_ \<longleftrightarrow> ?R n s")
proof (induction n s rule: long_hex_run.induct)
  case (1 n)
  then show ?case by simp
next
  case (2 n c s)
  show ?case
  proof (cases "is_ascii_hexdigit c")
    case True
    have "?R n (c # s) \<longleftrightarrow> 24 \<le> n + 1 \<or> ?R (n + 1) s"
    proof
      assume "?R n (c # s)"
      then obtain l h r where *: "c # s = l @ h @ r" "\<forall>c\<in>set h. is_ascii_hexdigit c" "h \<noteq> []"
        "24 \<le> length h \<or> l = [] \<and> 24 \<le> n + length h" by blast
      show "24 \<le> n + 1 \<or> ?R (n + 1) s"
      proof (cases l)
        case Nil
        then obtain h' where h: "h = c # h'" "s = h' @ r" using * by (cases h) auto
        show ?thesis
        proof (cases "h' = []")
          case True
          then show ?thesis using * h by auto
        next
          case False
          have "\<exists>l h r. s = l @ h @ r \<and> (\<forall>c\<in>set h. is_ascii_hexdigit c) \<and> h \<noteq> [] \<and>
            (24 \<le> length h \<or> l = [] \<and> 24 \<le> n + 1 + length h)"
            by (rule exI [of _ "[]"], rule exI [of _ h'], rule exI [of _ r]) (use * h False in auto)
          then show ?thesis ..
        qed
      next
        case (Cons a l')
        have "\<exists>l h r. s = l @ h @ r \<and> (\<forall>c\<in>set h. is_ascii_hexdigit c) \<and> h \<noteq> [] \<and>
            (24 \<le> length h \<or> l = [] \<and> 24 \<le> n + 1 + length h)"
          by (rule exI [of _ l'], rule exI [of _ h], rule exI [of _ r]) (use * Cons in auto)
        then show ?thesis ..
      qed
    next
      assume "24 \<le> n + 1 \<or> ?R (n + 1) s"
      then show "?R n (c # s)"
      proof
        assume "24 \<le> n + 1"
        then show ?thesis
          by (intro exI [of _ "[]"] exI [of _ "[c]"] exI [of _ s]) (use True in auto)
      next
        assume "?R (n + 1) s"
        then obtain l h r where *: "s = l @ h @ r" "\<forall>c\<in>set h. is_ascii_hexdigit c" "h \<noteq> []"
          "24 \<le> length h \<or> l = [] \<and> 24 \<le> n + 1 + length h" by blast
        show ?thesis
        proof (cases "24 \<le> length h")
          case True
          then show ?thesis
            by (intro exI [of _ "c # l"] exI [of _ h] exI [of _ r]) (use * in auto)
        next
          case False
          then show ?thesis
            by (intro exI [of _ "[]"] exI [of _ "c # h"] exI [of _ r]) (use * True in auto)
        qed
      qed
    qed
    then show ?thesis using 2 True by simp
  next
    case False
    have "?R n (c # s) \<longleftrightarrow> ?R 0 s"
    proof
      assume "?R n (c # s)"
      then obtain l h r where *: "c # s = l @ h @ r" "\<forall>c\<in>set h. is_ascii_hexdigit c" "h \<noteq> []"
        "24 \<le> length h \<or> l = [] \<and> 24 \<le> n + length h" by blast
      then obtain l' where "l = c # l'" "s = l' @ h @ r" using False by (cases l; cases h) auto
      then show "?R 0 s" by (intro exI [of _ l'] exI [of _ h] exI [of _ r]) (use * in auto)
    next
      assume "?R 0 s"
      then obtain l h r where *: "s = l @ h @ r" "\<forall>c\<in>set h. is_ascii_hexdigit c" "h \<noteq> []"
        "24 \<le> length h" by auto
      then show "?R n (c # s)" by (intro exI [of _ "c # l"] exI [of _ h] exI [of _ r]) auto
    qed
    then show ?thesis using 2 False by simp
  qed
qed

text \<open>What an accepted identifier looks like.\<close>

definition harmless_id :: "ustring \<Rightarrow> bool" where
  "harmless_id v \<longleftrightarrow>
     length v \<le> 64 \<and> (\<forall>c\<in>set v. request_id_char c) \<and>
     (\<forall>m\<in>set credential_markers. \<not> (\<exists>l r. to_ascii_lowercase v = l @ m @ r)) \<and>
     \<not> (\<exists>l h r. v = l @ h @ r \<and> length h = 24 \<and> (\<forall>c\<in>set h. is_ascii_hexdigit c))"

lemma length_le_str_len: "length s \<le> str_len s"
proof (induction s)
  case (Cons c s)
  then show ?case using len_utf8_bounds(1) [of c] by simp
qed simp

lemma safe_id_harmless:
  assumes "safe_soniox_request_id raw = Some v"
  shows "harmless_id v \<and> (\<exists>r. raw = Some r \<and> v = trim r)"
proof -
  obtain r where r: "raw = Some r" "v = trim r" "str_len v \<le> 64" "\<forall>c\<in>set v. request_id_char c"
    "\<forall>m\<in>set credential_markers. \<not> str_contains m (to_ascii_lowercase v)" "\<not> long_hex_run 0 v"
    using assms
    by (auto simp: safe_soniox_request_id_def bind_eq_Some_conv Let_def max_safe_provider_request_id_bytes_def split: if_splits)
  have "\<not> (\<exists>l h r. v = l @ h @ r \<and> length h = 24 \<and> (\<forall>c\<in>set h. is_ascii_hexdigit c))"
  proof
    assume "\<exists>l h r. v = l @ h @ r \<and> length h = 24 \<and> (\<forall>c\<in>set h. is_ascii_hexdigit c)"
    then have "long_hex_run 0 v" unfolding hex_run_iff by force
    with r(6) show False ..
  qed
  then show ?thesis
    using r length_le_str_len [of v] by (auto simp: harmless_id_def str_contains_iff)
qed

text \<open>The text an error shows.\<close>

definition error_texts :: "stt_error \<Rightarrow> ustring list" where
  "error_texts e =
     (case e of
        ConnectionFailed m \<Rightarrow> [m] | ReadTimeout _ \<Rightarrow> [] | ServerClosed _ m \<Rightarrow> [m] | AuthFailed m \<Rightarrow> [m]
      | QuotaExhausted _ m \<Rightarrow> [m] | RateLimited \<Rightarrow> [] | ParseError m \<Rightarrow> [m] | ServerError _ m \<Rightarrow> [m]
      | ApiError _ t m \<Rightarrow> [t, m] | TranscriptionFailed t m \<Rightarrow> [t, m] | HttpError m \<Rightarrow> [m] | SttTimeout m _ \<Rightarrow> [m]
      | SttCancelled \<Rightarrow> [] | UploadFailed m \<Rightarrow> [m])"

definition detail_text :: "ustring \<Rightarrow> ustring \<Rightarrow> bool" where
  "detail_text t s \<longleftrightarrow>
     (\<exists>label suffix. s = t @ lit '' (status='' @ label @ lit '')'' @ suffix \<and>
        (label = lit ''unknown'' \<or> (\<exists>n. label = show_nat n)) \<and>
        (suffix = [] \<or> (\<exists>v. suffix = lit '' request_id='' @ v \<and> harmless_id v)))"

lemma provider_detail_text: "detail_text t (safe_soniox_provider_detail status t request_id)"
proof -
  have "\<exists>label. (if status = 0 then lit ''unknown'' else show_nat status) = label \<and>
      (label = lit ''unknown'' \<or> (\<exists>n. label = show_nat n))" by auto
  moreover have "\<exists>suffix. (case safe_soniox_request_id request_id of None \<Rightarrow> [] | Some v \<Rightarrow> lit '' request_id='' @ v) = suffix \<and>
      (suffix = [] \<or> (\<exists>v. suffix = lit '' request_id='' @ v \<and> harmless_id v))"
    using safe_id_harmless by (cases "safe_soniox_request_id request_id") (simp, fastforce)
  ultimately show ?thesis unfolding detail_text_def safe_soniox_provider_detail_def Let_def by blast
qed

text \<open>C18: No text of the provider reaches an error. Whatever strings a provider sends as its code, its
  error type and its request identifier, every text of the error made from them is one of six fixed
  names, or such a name with the numeric status and, at most, a request identifier; and a request
  identifier only gets there when it has at most 64 characters out of letters, digits, dash, underscore
  and dot, contains none of the markers of a credential and no 24 hexadecimal digits in a row.\<close>

theorem provider_text_is_contained:
  "set (error_texts (provider_error code error_type request_id)) \<subseteq>
     set canonical_types \<union> {s. \<exists>t. t \<in> set canonical_types \<and> detail_text t s}"
proof -
  define ty where "ty = canonical_soniox_error_type (code_status code)
    (Some (case error_type of Some t \<Rightarrow> code_label code @ lit '' '' @ t | None \<Rightarrow> code_label code))"
  define detail where "detail = safe_soniox_provider_detail (code_status code) ty request_id"
  have "set (error_texts (provider_error code error_type request_id)) \<subseteq> {ty, detail}"
    unfolding provider_error_def Let_def ty_def [symmetric] detail_def [symmetric]
    by (simp add: error_texts_def)
  moreover have "ty \<in> set canonical_types" unfolding ty_def by (rule canonical_in_types)
  moreover have "detail_text ty detail" unfolding detail_def by (rule provider_detail_text)
  ultimately show ?thesis by blast
qed

end
