(* ===== verification/Stt_Recovery.thy ===== *)
theory Stt_Recovery
  imports Stt_Errors "HOL-Library.Sublist"
begin

text \<open>
  \<^verbatim>\<open>StreamRecoveryState\<close> of \<^verbatim>\<open>crates/vt-stt/src/soniox_stream.rs\<close>: the audio sent to the provider that may
  have to be sent again on a new connection. Positions are milliseconds on the timeline of the
  capture; additions saturate at the largest \<^verbatim>\<open>u64\<close>. The specification is the list of everything ever
  recorded, with one cut, \<open>gone\<close>: what ends at or before it is forgotten.
\<close>

definition sat_u64_add :: "nat \<Rightarrow> nat \<Rightarrow> nat" where
  "sat_u64_add a b = min u64_max (a + b)"

definition continuity_window :: duration where "continuity_window = from_secs 15"
definition fast_reconnect_window :: duration where "fast_reconnect_window = from_secs 5"
definition replay_overlap :: duration where "replay_overlap = from_secs 2"
definition pcm_bytes_per_millisecond :: nat where "pcm_bytes_per_millisecond = 32"

record replay_frame =
  rf_end :: nat
  rf_pcm :: bytes

record recovery =
  rc_next_audio :: nat
  rc_acknowledged :: nat
  rc_origin :: nat
  rc_frames :: "replay_frame list"

definition new_recovery :: recovery where
  "new_recovery = \<lparr>rc_next_audio = 0, rc_acknowledged = 0, rc_origin = 0, rc_frames = []\<rparr>"

definition frame_duration :: "bytes \<Rightarrow> nat" where
  "frame_duration pcm = max 1 ((length pcm + pcm_bytes_per_millisecond - 1) div pcm_bytes_per_millisecond)"

definition record_sent :: "bytes \<Rightarrow> recovery \<Rightarrow> recovery" where
  "record_sent pcm r =
     (let frame = \<lparr>rf_end = sat_u64_add (rc_next_audio r) (frame_duration pcm), rf_pcm = pcm\<rparr>
      in r\<lparr>rc_next_audio := rf_end frame, rc_frames := rc_frames r @ [frame]\<rparr>)"

definition acknowledge :: "nat \<Rightarrow> recovery \<Rightarrow> (nat \<times> nat) \<times> recovery" where
  "acknowledge provider_total_ms r =
     (let acknowledged = min (sat_u64_add (rc_origin r) provider_total_ms) (rc_next_audio r);
          ack = max (rc_acknowledged r) acknowledged;
          retain_from = ack - as_millis replay_overlap
      in ((ack, rc_next_audio r - ack),
          r\<lparr>rc_acknowledged := ack, rc_frames := dropWhile (\<lambda>f. rf_end f \<le> retain_from) (rc_frames r)\<rparr>))"

definition prepare_replay :: "duration \<Rightarrow> recovery \<Rightarrow> replay_frame list \<times> recovery" where
  "prepare_replay outage r =
     (if continuity_window < outage
      then ([], r\<lparr>rc_frames := [], rc_acknowledged := rc_next_audio r, rc_origin := rc_next_audio r\<rparr>)
      else
        (let replay_from = rc_acknowledged r - as_millis replay_overlap
         in (filter (\<lambda>f. replay_from < rf_end f) (rc_frames r), r\<lparr>rc_origin := replay_from\<rparr>)))"

definition replay_duplicate_until_provider_ms :: "recovery \<Rightarrow> nat" where
  "replay_duplicate_until_provider_ms r = rc_acknowledged r - rc_origin r"

section \<open>Specification\<close>

datatype recovery_op = RecordSent bytes | Acknowledge nat | PrepareReplay duration

fun recovery_step :: "recovery \<Rightarrow> recovery_op \<Rightarrow> recovery" where
  "recovery_step r (RecordSent pcm) = record_sent pcm r"
| "recovery_step r (Acknowledge n) = snd (acknowledge n r)"
| "recovery_step r (PrepareReplay outage) = snd (prepare_replay outage r)"

text \<open>Everything recorded, with the positions where the frames end.\<close>

fun timeline :: "nat \<Rightarrow> bytes list \<Rightarrow> replay_frame list" where
  "timeline start [] = []"
| "timeline start (pcm # pcms) =
     (let e = sat_u64_add start (frame_duration pcm) in \<lparr>rf_end = e, rf_pcm = pcm\<rparr> # timeline e pcms)"

definition timeline_end :: "bytes list \<Rightarrow> nat" where
  "timeline_end pcms = (case timeline 0 pcms of [] \<Rightarrow> 0 | t \<Rightarrow> rf_end (last t))"

fun recorded :: "recovery_op list \<Rightarrow> bytes list" where
  "recorded [] = []"
| "recorded (RecordSent pcm # ops) = pcm # recorded ops"
| "recorded (_ # ops) = recorded ops"

definition kept_after :: "nat \<Rightarrow> replay_frame list \<Rightarrow> replay_frame list" where
  "kept_after gone t = filter (\<lambda>f. gone < rf_end f) t"

definition recovery_inv :: "bytes list \<Rightarrow> nat \<Rightarrow> recovery \<Rightarrow> bool" where
  "recovery_inv pcms gone r \<longleftrightarrow>
     rc_next_audio r = timeline_end pcms \<and> rc_frames r = kept_after gone (timeline 0 pcms) \<and>
     gone \<le> rc_acknowledged r \<and> rc_origin r \<le> rc_acknowledged r \<and> rc_acknowledged r \<le> rc_next_audio r"

lemma timeline_ends: "f \<in> set (timeline start pcms) \<Longrightarrow> start \<le> u64_max \<Longrightarrow> start \<le> rf_end f \<and> rf_end f \<le> u64_max"
proof (induction pcms arbitrary: start)
  case (Cons p ps)
  then show ?case by (force simp: Let_def sat_u64_add_def)
qed simp

lemma timeline_sorted: "start \<le> u64_max \<Longrightarrow> sorted (map rf_end (timeline start pcms))"
proof (induction pcms arbitrary: start)
  case (Cons p ps)
  have "sat_u64_add start (frame_duration p) \<le> u64_max" by (simp add: sat_u64_add_def)
  then show ?case using Cons timeline_ends by (auto simp: Let_def)
qed simp

lemma timeline_snoc:
  "timeline start (pcms @ [p]) =
     timeline start pcms @ [\<lparr>rf_end = sat_u64_add (case timeline start pcms of [] \<Rightarrow> start | t \<Rightarrow> rf_end (last t)) (frame_duration p),
                             rf_pcm = p\<rparr>]"
proof (induction pcms arbitrary: start)
  case (Cons q qs)
  then show ?case by (cases "timeline (sat_u64_add start (frame_duration q)) qs") (simp_all add: Let_def)
qed (simp add: Let_def)

lemma timeline_zero:
  "timeline 0 (pcms @ [p]) =
     timeline 0 pcms @ [\<lparr>rf_end = sat_u64_add (timeline_end pcms) (frame_duration p), rf_pcm = p\<rparr>]"
  by (simp add: timeline_snoc timeline_end_def)

lemma timeline_end_bound: "timeline_end pcms \<le> u64_max"
  using timeline_ends [of _ 0 pcms] by (auto simp: timeline_end_def split: list.splits)

lemma timeline_end_snoc: "timeline_end (pcms @ [p]) = sat_u64_add (timeline_end pcms) (frame_duration p)"
  by (simp add: timeline_end_def timeline_zero split: list.splits)

lemma timeline_le_end: "f \<in> set (timeline 0 pcms) \<Longrightarrow> rf_end f \<le> timeline_end pcms"
proof (induction pcms rule: rev_induct)
  case (snoc p ps)
  moreover have "timeline_end ps \<le> sat_u64_add (timeline_end ps) (frame_duration p)"
    using timeline_end_bound [of ps] by (simp add: sat_u64_add_def)
  ultimately show ?case by (auto simp: timeline_zero timeline_end_snoc)
qed simp

lemma timeline_end_mono: "timeline_end pcms \<le> timeline_end (pcms @ [p])"
  using timeline_end_bound [of pcms] by (simp add: timeline_end_snoc sat_u64_add_def)

lemma frame_duration_pos: "0 < frame_duration pcm"
  by (simp add: frame_duration_def)

text \<open>The frames are sorted, so dropping from the front is a filter.\<close>

lemma dropWhile_sorted:
  "sorted (map rf_end t) \<Longrightarrow> dropWhile (\<lambda>f. rf_end f \<le> c) t = filter (\<lambda>f. c < rf_end f) t"
proof (induction t)
  case (Cons f t)
  show ?case
  proof (cases "rf_end f \<le> c")
    case False
    then have "\<forall>g\<in>set t. c < rf_end g" using Cons.prems by force
    with False show ?thesis by (simp add: filter_id_conv)
  qed (use Cons in simp)
qed simp

lemma kept_sorted: "sorted (map rf_end (kept_after gone (timeline 0 pcms)))"
  using timeline_sorted [of 0 pcms] by (simp add: kept_after_def sorted_filter)

lemma kept_kept: "filter (\<lambda>f. c < rf_end f) (kept_after gone t) = kept_after (max gone c) t"
  by (simp add: kept_after_def conj_commute)

lemma kept_suffix: "suffix (kept_after c (timeline 0 pcms)) (timeline 0 pcms)"
  unfolding kept_after_def using timeline_sorted [of 0 pcms]
  by (simp add: dropWhile_sorted [symmetric] suffix_dropWhile)

lemma new_recovery_inv: "recovery_inv [] 0 new_recovery"
  by (simp add: recovery_inv_def new_recovery_def timeline_end_def kept_after_def)

lemma timeline_end_less: "timeline_end (pcms @ [p]) < u64_max \<Longrightarrow> timeline_end pcms < timeline_end (pcms @ [p])"
  using frame_duration_pos [of p] timeline_end_bound [of pcms] by (auto simp: timeline_end_snoc sat_u64_add_def)

lemma record_sent_inv:
  assumes "recovery_inv pcms gone r" "timeline_end (pcms @ [pcm]) < u64_max"
  shows "recovery_inv (pcms @ [pcm]) gone (record_sent pcm r)"
  using assms timeline_end_less [OF assms(2)]
  by (simp add: recovery_inv_def record_sent_def Let_def timeline_zero timeline_end_snoc kept_after_def)

lemma acknowledge_inv:
  assumes "recovery_inv pcms gone r"
  shows "recovery_inv pcms (max gone (rc_acknowledged (snd (acknowledge n r)) - as_millis replay_overlap)) (snd (acknowledge n r))"
proof -
  have "dropWhile (\<lambda>f. rf_end f \<le> c) (rc_frames r) = kept_after (max gone c) (timeline 0 pcms)" for c
    using assms kept_sorted [of gone pcms] by (simp add: recovery_inv_def dropWhile_sorted kept_kept)
  then show ?thesis using assms by (auto simp: recovery_inv_def acknowledge_def Let_def)
qed

lemma prepare_replay_inv:
  assumes "recovery_inv pcms gone r"
  shows "recovery_inv pcms (if continuity_window < outage then rc_next_audio r else gone) (snd (prepare_replay outage r))"
proof -
  have "kept_after (timeline_end pcms) (timeline 0 pcms) = []"
    using timeline_le_end [of _ pcms] by (force simp: kept_after_def filter_empty_conv)
  then show ?thesis using assms by (auto simp: recovery_inv_def prepare_replay_def Let_def)
qed

lemma recovery_reachable:
  "recovery_inv pcms gone r \<Longrightarrow> timeline_end (pcms @ recorded ops) < u64_max \<Longrightarrow>
     \<exists>gone'. recovery_inv (pcms @ recorded ops) gone' (foldl recovery_step r ops)"
proof (induction ops arbitrary: pcms gone r)
  case (Cons op ops)
  show ?case
  proof (cases op)
    case (RecordSent pcm)
    have "timeline_end (pcms @ [pcm]) \<le> timeline_end ((pcms @ [pcm]) @ xs)" for xs
    proof (induction xs rule: rev_induct)
      case (snoc x xs)
      then show ?case using timeline_end_mono [of "(pcms @ [pcm]) @ xs" x] by simp
    qed simp
    from this [of "recorded ops"] have "timeline_end (pcms @ [pcm]) < u64_max" using Cons.prems(2) RecordSent by simp
    from Cons.IH [OF record_sent_inv [OF Cons.prems(1) this]] show ?thesis using Cons.prems(2) RecordSent by simp
  next
    case (Acknowledge n)
    then show ?thesis using Cons.IH [OF acknowledge_inv [OF Cons.prems(1)]] Cons.prems(2) by simp
  next
    case (PrepareReplay outage)
    then show ?thesis using Cons.IH [OF prepare_replay_inv [OF Cons.prems(1)]] Cons.prems(2) by simp
  qed
qed auto

lemma step_acknowledged_mono:
  "recovery_inv pcms gone r \<Longrightarrow> rc_acknowledged r \<le> rc_acknowledged (recovery_step r op)"
  by (cases op) (auto simp: recovery_inv_def record_sent_def acknowledge_def prepare_replay_def Let_def)

text \<open>C13: A short outage loses no recorded audio. After any history of recording, acknowledgements and
  reconnections: the positions are in order (origin of the connection, acknowledged, recorded); and
  what is replayed after an outage of at most 15 seconds is an end piece of everything ever recorded,
  in order, such that every frame left out ends at or before the acknowledged position. The provider
  position below which results count as repeated is at most the overlap of 2000 ms. After a longer
  outage nothing is replayed, and the position jumps to the end of what was recorded.\<close>

theorem replay_covers_unacknowledged:
  assumes "timeline_end (recorded ops) < u64_max"
  shows "let r = foldl recovery_step new_recovery ops; (replay, r') = prepare_replay outage r in
    rc_origin r \<le> rc_acknowledged r \<and> rc_acknowledged r \<le> rc_next_audio r \<and> rc_next_audio r = timeline_end (recorded ops) \<and>
    (if continuity_window < outage then replay = [] \<and> rc_acknowledged r' = timeline_end (recorded ops)
     else \<exists>left_out. timeline 0 (recorded ops) = left_out @ replay \<and>
       (\<forall>f\<in>set left_out. rf_end f \<le> rc_acknowledged r) \<and> rc_acknowledged r' = rc_acknowledged r \<and>
       replay_duplicate_until_provider_ms r' \<le> 2000)"
proof -
  let ?r = "foldl recovery_step new_recovery ops" and ?t = "timeline 0 (recorded ops)"
  obtain gone where inv: "recovery_inv (recorded ops) gone ?r"
    using recovery_reachable [OF new_recovery_inv, of ops] assms by auto
  show ?thesis
  proof (cases "continuity_window < outage")
    case True
    then show ?thesis using inv by (simp add: prepare_replay_def recovery_inv_def)
  next
    case False
    let ?c = "max gone (rc_acknowledged ?r - 2000)"
    have two: "as_millis replay_overlap = 2000" by (simp add: as_millis_def replay_overlap_def from_secs_def)
    have replay: "fst (prepare_replay outage ?r) = kept_after ?c ?t"
      using inv False by (simp add: prepare_replay_def recovery_inv_def Let_def kept_kept two)
    obtain left where left: "?t = left @ kept_after ?c ?t"
      using kept_suffix [of ?c "recorded ops"] by (auto simp: suffix_def)
    have "rf_end f \<le> rc_acknowledged ?r" if "f \<in> set left" for f
    proof -
      have "length (kept_after ?c left) = 0"
      proof -
        have "kept_after ?c ?t = kept_after ?c left @ kept_after ?c (kept_after ?c ?t)"
          using left by (metis filter_append kept_after_def)
        then have "length (kept_after ?c ?t) = length (kept_after ?c left) + length (kept_after ?c ?t)"
          by (metis kept_after_def length_append filter_filter [of "\<lambda>f. ?c < rf_end f" "\<lambda>f. ?c < rf_end f"] conj_absorb)
        then show ?thesis by simp
      qed
      then have "\<not> ?c < rf_end f" using that by (auto simp: kept_after_def filter_empty_conv)
      then show ?thesis using inv by (auto simp: recovery_inv_def)
    qed
    then show ?thesis
      using inv False left replay
      by (auto simp: prepare_replay_def recovery_inv_def Let_def two replay_duplicate_until_provider_ms_def)
  qed
qed

theorem replay_covers_unacknowledged_witness:
  "map rf_pcm (fst (prepare_replay (from_secs 3) (foldl recovery_step new_recovery [RecordSent (replicate 32 1), Acknowledge 0])))
     = [replicate 32 (1 :: u8)]"
proof -
  let ?ops = "[RecordSent (replicate 32 1), Acknowledge 0]"
  define r where "r = foldl recovery_step new_recovery ?ops"
  have end1: "timeline_end (recorded ?ops) < u64_max"
    by (simp add: timeline_end_def Let_def frame_duration_def pcm_bytes_per_millisecond_def sat_u64_add_def u64_max_def)
  have ack: "rc_acknowledged r = 0"
    by (simp add: r_def acknowledge_def record_sent_def new_recovery_def Let_def sat_u64_add_def)
  obtain replay r' where p: "prepare_replay (from_secs 3) r = (replay, r')" by fastforce
  have "\<not> continuity_window < from_secs 3" by (simp add: continuity_window_def from_secs_def)
  with replay_covers_unacknowledged [OF end1, of "from_secs 3", folded r_def] obtain left where
      "timeline 0 (recorded ?ops) = left @ replay" "\<forall>f\<in>set left. rf_end f \<le> 0"
    by (auto simp: p ack Let_def)
  then have "replay = timeline 0 (recorded ?ops)"
    by (cases left) (auto simp: Let_def frame_duration_def pcm_bytes_per_millisecond_def sat_u64_add_def u64_max_def)
  then show ?thesis unfolding r_def [symmetric] p by (simp add: Let_def)
qed

section \<open>After a long outage\<close>

lemma fold_record_sent:
  "rc_frames (foldl (\<lambda>r p. record_sent p r) r pcms) = rc_frames r @ timeline (rc_next_audio r) pcms \<and>
   rc_acknowledged (foldl (\<lambda>r p. record_sent p r) r pcms) = rc_acknowledged r"
  by (induction pcms arbitrary: r) (simp_all add: record_sent_def Let_def)

text \<open>C22: A second interruption after a long outage drops fresh results. After an outage of more than 15
  seconds at a position of at least 2000 ms, frames are sent on the new connection, which breaks again
  before anything is acknowledged. The second, short outage replays exactly these frames, none of which
  was ever processed; but the new connection is placed 2000 ms before the position where they start,
  and results for its first 2000 ms count as repeated and are dropped.\<close>

theorem fresh_results_dropped_after_long_outage:
  assumes "continuity_window < long_outage" "short_outage \<le> continuity_window" "2000 \<le> rc_next_audio r" "rc_next_audio r \<le> u64_max"
  shows "let r1 = snd (prepare_replay long_outage r); r2 = foldl (\<lambda>r p. record_sent p r) r1 pcms;
      (replay, r3) = prepare_replay short_outage r2
    in map rf_pcm replay = pcms \<and> (\<forall>f\<in>set replay. rc_next_audio r1 \<le> rf_end f) \<and>
       rc_origin r3 + 2000 = rc_next_audio r1 \<and> replay_duplicate_until_provider_ms r3 = 2000"
proof -
  let ?r1 = "snd (prepare_replay long_outage r)"
  have two: "as_millis replay_overlap = 2000" by (simp add: as_millis_def replay_overlap_def from_secs_def)
  have pcms: "map rf_pcm (timeline s pcms) = pcms" for s
    by (induction pcms arbitrary: s) (simp_all add: Let_def)
  have r1: "rc_frames ?r1 = []" "rc_acknowledged ?r1 = rc_next_audio r" "rc_next_audio ?r1 = rc_next_audio r"
    using assms(1) by (simp_all add: prepare_replay_def)
  have "rc_next_audio r \<le> rf_end f" if "f \<in> set (timeline (rc_next_audio r) pcms)" for f
    using timeline_ends [OF that] assms(4) by simp
  then have "filter (\<lambda>f. rc_next_audio r - 2000 < rf_end f) (timeline (rc_next_audio r) pcms) = timeline (rc_next_audio r) pcms"
    using assms(3) by (force simp: filter_id_conv)
  then show ?thesis
    using assms fold_record_sent [of ?r1 pcms] r1 timeline_ends [of _ "rc_next_audio r" pcms]
    by (auto simp: prepare_replay_def [of short_outage] Let_def two replay_duplicate_until_provider_ms_def pcms)
qed

theorem fresh_results_dropped_after_long_outage_witness:
  "let r = record_sent (replicate 96000 0) new_recovery; r1 = snd (prepare_replay (from_secs 20) r)
   in replay_duplicate_until_provider_ms (snd (prepare_replay (from_secs 1) (record_sent [1] r1))) = 2000"
proof -
  let ?r = "record_sent (replicate 96000 0) new_recovery"
  have "rc_next_audio ?r = 3000"
    by (simp add: record_sent_def new_recovery_def Let_def frame_duration_def pcm_bytes_per_millisecond_def sat_u64_add_def u64_max_def)
  then have "2000 \<le> rc_next_audio ?r" "rc_next_audio ?r \<le> u64_max" by (simp_all add: u64_max_def)
  from fresh_results_dropped_after_long_outage [OF _ _ this, of "from_secs 20" "from_secs 1" "[[1]]"]
  show ?thesis by (simp add: continuity_window_def from_secs_def Let_def case_prod_beta)
qed

end
