(* ===== verification/Stt_Stream.thy ===== *)
theory Stt_Stream
  imports Stt_Recovery
begin

text \<open>
  \<^verbatim>\<open>crates/vt-stt/src/soniox_stream.rs\<close>: one live recognition stream. A session is one websocket
  connection; its \<^verbatim>\<open>select!\<close> loop is \<open>session_turn\<close>, which takes the first ready branch in the order of
  the source. The stream reconnects around sessions. The environment is data: what the channels, the
  socket, the clock and the provider do, as turns of a session and attempts of a stream; time is a
  clock in nanoseconds. Lists of turns and attempts end where the observation ends (\<open>Waiting\<close>).
  A float is its bit pattern. Decoding and encoding of JSON is serde's: a message is the decoded
  response or the text of the error, and the configuration is encoded by the argument \<open>encode\<close>.
\<close>

section \<open>Data\<close>

type_synonym f32 = "32 word"

datatype stream_translation_status = TsNone | TsOriginal | TsTranslation | TsUnknown ustring

definition status_from_provider :: "ustring option \<Rightarrow> stream_translation_status" where
  "status_from_provider v =
     (case v of
        None \<Rightarrow> TsNone
      | Some s \<Rightarrow>
          if s = lit ''none'' then TsNone
          else if s = lit ''original'' then TsOriginal
          else if s = lit ''translation'' then TsTranslation
          else TsUnknown s)"

record stream_token =
  tk_text :: ustring
  tk_start_ms :: "nat option"
  tk_end_ms :: "nat option"
  tk_is_final :: bool
  tk_confidence :: "f32 option"
  tk_status :: stream_translation_status
  tk_language :: "ustring option"
  tk_source_language :: "ustring option"
  tk_speaker :: "ustring option"

record token_wire =
  tw_text :: ustring
  tw_start_ms :: "nat option"
  tw_end_ms :: "nat option"
  tw_is_final :: bool
  tw_confidence :: "f32 option"
  tw_translation_status :: "ustring option"
  tw_language :: "ustring option"
  tw_source_language :: "ustring option"
  tw_speaker :: "ustring option"

definition token_of_wire :: "token_wire \<Rightarrow> stream_token" where
  "token_of_wire w =
     \<lparr>tk_text = tw_text w, tk_start_ms = tw_start_ms w, tk_end_ms = tw_end_ms w, tk_is_final = tw_is_final w,
      tk_confidence = tw_confidence w, tk_status = status_from_provider (tw_translation_status w),
      tk_language = tw_language w, tk_source_language = tw_source_language w, tk_speaker = tw_speaker w\<rparr>"

record stream_response =
  sr_tokens :: "token_wire list"
  sr_finished :: bool
  sr_error_code :: "nat option"
  sr_error_type :: "ustring option"
  sr_request_id :: "ustring option"
  sr_final_audio_proc_ms :: "nat option"
  sr_total_audio_proc_ms :: "nat option"

section \<open>Failures\<close>

record provider_failure =
  pf_error_code :: nat
  pf_error_type :: ustring
  pf_error_message :: ustring
  pf_request_id :: "ustring option"

datatype stream_error =
    StreamProvider provider_failure
  | Transport ustring ustring
  | Protocol ustring
  | StreamTimeout ustring nat
  | Closed "nat option" ustring

record stream_failure =
  sf_task_error :: stt_error
  sf_event_error :: stream_error

definition millis_u64 :: "duration \<Rightarrow> nat" where
  "millis_u64 d = (if as_millis d \<le> u64_max then as_millis d else u64_max)"

definition failure_transport :: "ustring \<Rightarrow> ustring \<Rightarrow> stream_failure" where
  "failure_transport operation message =
     \<lparr>sf_task_error = ConnectionFailed (operation @ lit '': '' @ message), sf_event_error = Transport operation message\<rparr>"

definition failure_protocol :: "ustring \<Rightarrow> stream_failure" where
  "failure_protocol message = \<lparr>sf_task_error = ParseError message, sf_event_error = Protocol message\<rparr>"

definition failure_timeout :: "ustring \<Rightarrow> duration \<Rightarrow> stream_failure" where
  "failure_timeout operation elapsed =
     \<lparr>sf_task_error = SttTimeout operation elapsed, sf_event_error = StreamTimeout operation (millis_u64 elapsed)\<rparr>"

definition auth_close_codes :: "nat list" where "auth_close_codes = [1008, 4001, 4003]"

definition failure_closed :: "nat option \<Rightarrow> stream_failure" where
  "failure_closed code =
     (let reason = (if code \<noteq> None then lit ''provider closed the stream before finished''
                    else lit ''provider stream ended before finished'');
          task_error =
            (case code of
               Some c \<Rightarrow>
                 if c \<in> set auth_close_codes
                 then AuthFailed (lit ''authentication_error (close_status='' @ show_nat c @ lit '')'')
                 else ServerClosed c reason
             | None \<Rightarrow> ConnectionFailed reason)
      in \<lparr>sf_task_error = task_error, sf_event_error = Closed code reason\<rparr>)"

definition provider_task_error :: "provider_failure \<Rightarrow> stt_error" where
  "provider_task_error e =
     (let error_type = canonical_soniox_error_type (pf_error_code e) (Some (pf_error_type e));
          detail = safe_soniox_provider_detail (pf_error_code e) error_type (pf_request_id e)
      in
      if pf_error_code e \<in> {401, 403} then AuthFailed detail
      else if pf_error_code e = 402 then QuotaExhausted (quota_from_error_type (Some (pf_error_type e))) detail
      else if pf_error_code e = 429 then RateLimited
      else ApiError (pf_error_code e) error_type detail)"

definition failure_provider :: "provider_failure \<Rightarrow> stream_failure" where
  "failure_provider e = \<lparr>sf_task_error = provider_task_error e, sf_event_error = StreamProvider e\<rparr>"

text \<open>\<open>show\<close> is the text of an error in the current locale.\<close>

definition failure_credential :: "(stt_error \<Rightarrow> ustring) \<Rightarrow> stt_error \<Rightarrow> stream_failure" where
  "failure_credential show error =
     (let message = lit ''Soniox lane credential: '' @ show error in
      if is_auth_error error
      then \<lparr>sf_task_error = error,
            sf_event_error = StreamProvider
              \<lparr>pf_error_code = 401, pf_error_type = lit ''unauthenticated'', pf_error_message = message, pf_request_id = None\<rparr>\<rparr>
      else \<lparr>sf_task_error = error, sf_event_error = Transport (lit ''Soniox lane credential'') message\<rparr>)"

definition retryable_types :: "ustring list" where
  "retryable_types = map lit [''max_duration_reached'', ''rate_limited'', ''service_unavailable'']"

definition failure_is_retryable :: "stream_failure \<Rightarrow> bool" where
  "failure_is_retryable f =
     (case sf_event_error f of
        Transport _ _ \<Rightarrow> True
      | StreamTimeout operation _ \<Rightarrow> operation \<noteq> lit ''Soniox stream drain''
      | Closed code _ \<Rightarrow> \<not> (\<exists>c. code = Some c \<and> c \<in> set auth_close_codes)
      | StreamProvider e \<Rightarrow> pf_error_code e \<in> {413, 429, 503} \<or> pf_error_type e \<in> set retryable_types
      | Protocol _ \<Rightarrow> False)"

section \<open>Configuration\<close>

datatype translation_config = OneWay ustring | TwoWay ustring ustring

record context_config =
  cx_general :: "(ustring \<times> ustring) list"
  cx_text :: "ustring option"
  cx_terms :: "ustring list"
  cx_translation_terms :: "(ustring \<times> ustring) list"

record stt_config =
  sc_language_hints :: "ustring list"
  sc_language_hints_strict :: bool
  sc_enable_language_identification :: bool
  sc_enable_speaker_diarization :: bool
  sc_endpoint_latency_adjustment_level :: nat
  sc_endpoint_sensitivity :: f32
  sc_endpoint_delay_ms :: "nat option"
  sc_translation :: "translation_config option"
  sc_context :: "context_config option"
  sc_client_reference_id :: "ustring option"

definition balanced_max_endpoint_delay_ms :: nat where "balanced_max_endpoint_delay_ms = 2000"

definition resolved_max_endpoint_delay_ms :: "stt_config \<Rightarrow> nat" where
  "resolved_max_endpoint_delay_ms c =
     (case sc_endpoint_delay_ms c of None \<Rightarrow> balanced_max_endpoint_delay_ms | Some d \<Rightarrow> d)"

definition default_config :: stt_config where
  "default_config =
     \<lparr>sc_language_hints = [], sc_language_hints_strict = False, sc_enable_language_identification = False,
      sc_enable_speaker_diarization = False, sc_endpoint_latency_adjustment_level = 0, sc_endpoint_sensitivity = 0,
      sc_endpoint_delay_ms = None, sc_translation = None, sc_context = None, sc_client_reference_id = None\<rparr>"

datatype post_stop_execution = AsyncFileApi

record capture_engine =
  en_provider_id :: ustring
  en_provider_display_name :: ustring
  en_credential_scope :: ustring
  en_realtime_model_id :: ustring
  en_post_stop_model_id :: ustring
  en_realtime_endpoint :: ustring
  en_async_api_base_url :: ustring
  en_audio_format :: ustring
  en_sample_rate :: nat
  en_channels :: nat
  en_supports_realtime_transcription :: bool
  en_supports_two_way_translation :: bool
  en_supports_context :: bool
  en_supports_post_stop_transcription :: bool
  en_post_stop_execution :: post_stop_execution

definition current_capture_engine :: capture_engine where
  "current_capture_engine =
     \<lparr>en_provider_id = lit ''soniox'', en_provider_display_name = lit ''Soniox'', en_credential_scope = lit ''soniox'',
      en_realtime_model_id = lit ''stt-rt-v5'', en_post_stop_model_id = lit ''stt-async-v5'',
      en_realtime_endpoint = lit ''wss://stt-rt.soniox.com/transcribe-websocket'',
      en_async_api_base_url = lit ''https://api.soniox.com'', en_audio_format = lit ''pcm_s16le'', en_sample_rate = 16000,
      en_channels = 1, en_supports_realtime_transcription = True, en_supports_two_way_translation = True,
      en_supports_context = True, en_supports_post_stop_transcription = True, en_post_stop_execution = AsyncFileApi\<rparr>"

record stream_config =
  wc_api_key :: ustring
  wc_model :: ustring
  wc_audio_format :: ustring
  wc_sample_rate :: nat
  wc_num_channels :: nat
  wc_language_hints :: "ustring list"
  wc_language_hints_strict :: "bool option"
  wc_enable_language_identification :: "bool option"
  wc_enable_speaker_diarization :: "bool option"
  wc_enable_endpoint_detection :: "bool option"
  wc_endpoint_latency_adjustment_level :: "nat option"
  wc_endpoint_sensitivity :: "f32 option"
  wc_max_endpoint_delay_ms :: "nat option"
  wc_context :: "context_config option"
  wc_translation :: "translation_config option"
  wc_client_reference_id :: "ustring option"

definition then_some :: "bool \<Rightarrow> 'a \<Rightarrow> 'a option" where
  "then_some b x = (if b then Some x else None)"

definition build_stream_context :: "context_config option \<Rightarrow> context_config option" where
  "build_stream_context context =
     Option.bind context (\<lambda>c.
       let body = (case cx_text c of None \<Rightarrow> None | Some t \<Rightarrow> if t = [] then None else Some t) in
       if cx_general c = [] \<and> body = None \<and> cx_terms c = [] \<and> cx_translation_terms c = [] then None
       else Some (c\<lparr>cx_text := body\<rparr>))"

definition build_stream_config :: "ustring \<Rightarrow> stt_config \<Rightarrow> stream_config" where
  "build_stream_config api_key c =
     \<lparr>wc_api_key = api_key, wc_model = en_realtime_model_id current_capture_engine,
      wc_audio_format = en_audio_format current_capture_engine, wc_sample_rate = en_sample_rate current_capture_engine,
      wc_num_channels = en_channels current_capture_engine, wc_language_hints = sc_language_hints c,
      wc_language_hints_strict = then_some (sc_language_hints_strict c) True,
      wc_enable_language_identification =
        then_some (sc_enable_language_identification c \<or> sc_language_hints c = []) True,
      wc_enable_speaker_diarization = then_some (sc_enable_speaker_diarization c) True,
      wc_enable_endpoint_detection = Some True,
      wc_endpoint_latency_adjustment_level = Some (sc_endpoint_latency_adjustment_level c),
      wc_endpoint_sensitivity = Some (sc_endpoint_sensitivity c),
      wc_max_endpoint_delay_ms = Some (resolved_max_endpoint_delay_ms c),
      wc_context = build_stream_context (sc_context c), wc_translation = sc_translation c,
      wc_client_reference_id = sc_client_reference_id c\<rparr>"

section \<open>State\<close>

record stream_timeouts =
  to_connect :: duration
  to_write :: duration
  to_receive_idle :: duration
  to_keepalive :: duration
  to_drain :: duration
  to_reconnect_base_delay :: duration
  to_reconnect_max_attempts :: nat

definition default_timeouts :: stream_timeouts where
  "default_timeouts =
     \<lparr>to_connect = from_secs 10, to_write = from_secs 10, to_receive_idle = from_secs (5 * 60), to_keepalive = from_secs 10,
      to_drain = from_secs 5, to_reconnect_base_delay = from_secs 1, to_reconnect_max_attempts = 3\<rparr>"

datatype stream_event =
    Connected
  | Reconnecting nat nat
  | RecoveryStarted nat
  | AudioProgress nat nat nat
  | Tokens "stream_token list"
  | Endpoint
  | Finalized
  | Finished
  | InputDiscontinuity
  | StreamFailed stream_error

datatype stream_control = Finalize | Pause | Resume | Keepalive | Finish

datatype ws_message = TextMessage ustring | BinaryMessage bytes

datatype incoming =
    IncomingText "ustring + stream_response"
  | IncomingClose "nat option"
  | IncomingOther
  | IncomingError ustring
  | IncomingEnd

datatype write_result = Wrote duration | WriteTimedOut | WriteFailed duration ustring

text \<open>The channels, the socket and the variables of the session. \<open>st_script\<close> says how the next writes end
  (when it is used up they succeed at once); \<open>st_listens\<close> how many more events the receiver takes before
  it is dropped (\<open>None\<close>: it stays); \<open>st_stalls\<close> how long the next events wait for a place in their channel, which is
  bounded (when it is used up there is room at once). The task does nothing else while it waits.\<close>

record stream_state =
  st_now :: nat
  st_cancelled :: bool
  st_audio :: "bytes list"
  st_audio_closed :: bool
  st_controls :: "stream_control list"
  st_controls_closed :: bool
  st_inbox :: "incoming list"
  st_script :: "write_result list"
  st_sent :: "ws_message list"
  st_events :: "stream_event list"
  st_listens :: "nat option"
  st_stalls :: "duration list"
  st_recovery :: recovery
  st_paused :: bool
  st_connected :: bool
  st_suppress :: nat
  st_draining :: bool
  st_audio_open :: bool
  st_control_open :: bool
  st_keepalive_at :: nat
  st_drain_at :: nat
  st_idle_at :: nat

type_synonym 'a action = "stream_state \<Rightarrow> (stream_failure + 'a) \<times> stream_state"

definition and_do :: "'a action \<Rightarrow> ('a \<Rightarrow> 'b action) \<Rightarrow> 'b action" where
  "and_do m f st = (case m st of (Inl e, st') \<Rightarrow> (Inl e, st') | (Inr a, st') \<Rightarrow> f a st')"

definition fine :: "'a \<Rightarrow> 'a action" where "fine a st = (Inr a, st)"
definition refuse :: "stream_failure \<Rightarrow> 'a action" where "refuse e st = (Inl e, st)"
definition change :: "(stream_state \<Rightarrow> stream_state) \<Rightarrow> unit action" where "change f st = (Inr (), f st)"

definition event_room :: "stream_state \<Rightarrow> stream_state" where
  "event_room st =
     st\<lparr>st_now := st_now st + (case st_stalls st of [] \<Rightarrow> 0 | d # _ \<Rightarrow> d), st_stalls := tl (st_stalls st)\<rparr>"

definition send_event :: "stream_event \<Rightarrow> unit action" where
  "send_event e st =
     (case st_listens st of
        Some 0 \<Rightarrow>
          (Inl \<lparr>sf_task_error = SttCancelled,
                sf_event_error = Transport (lit ''Soniox stream event delivery'') (lit ''event receiver closed'')\<rparr>, event_room st)
      | Some (Suc n) \<Rightarrow> (Inr (), (event_room st)\<lparr>st_events := st_events st @ [e], st_listens := Some n\<rparr>)
      | None \<Rightarrow> (Inr (), (event_room st)\<lparr>st_events := st_events st @ [e]\<rparr>))"

definition send_message :: "stream_timeouts \<Rightarrow> ws_message \<Rightarrow> ustring \<Rightarrow> unit action" where
  "send_message tm msg operation st =
     (case st_script st of
        [] \<Rightarrow> (Inr (), st\<lparr>st_sent := st_sent st @ [msg]\<rparr>)
      | w # script \<Rightarrow>
          (case w of
             Wrote d \<Rightarrow> (Inr (), st\<lparr>st_script := script, st_now := st_now st + d, st_sent := st_sent st @ [msg]\<rparr>)
           | WriteTimedOut \<Rightarrow>
               (Inl (failure_timeout operation (to_write tm)), st\<lparr>st_script := script, st_now := st_now st + to_write tm\<rparr>)
           | WriteFailed d m \<Rightarrow>
               (Inl (failure_transport operation m), st\<lparr>st_script := script, st_now := st_now st + d\<rparr>)))"

definition send_control :: "stream_timeouts \<Rightarrow> ustring \<Rightarrow> unit action" where
  "send_control tm control_type =
     send_message tm (TextMessage (lit ''{\"type\":\"'' @ control_type @ lit ''\"}'')) (lit ''Soniox stream control send'')"

text \<open>\<^verbatim>\<open>while let Ok(pcm) = audio_rx.try_recv()\<close>: a frame leaves the channel before it is sent.\<close>

fun drain_frames :: "stream_timeouts \<Rightarrow> bytes list \<Rightarrow> unit action" where
  "drain_frames tm [] st = (Inr (), st)"
| "drain_frames tm (pcm # pcms) st =
     and_do (send_message tm (BinaryMessage pcm) (lit ''Soniox stream queued audio fence''))
       (\<lambda>_. drain_frames tm pcms) (st\<lparr>st_audio := pcms\<rparr>)"

definition drain_queued_audio :: "stream_timeouts \<Rightarrow> unit action" where
  "drain_queued_audio tm st = drain_frames tm (st_audio st) st"

definition begin_drain :: "stream_timeouts \<Rightarrow> unit action" where
  "begin_drain tm st =
     (if st_draining st then (Inr (), st)
      else
        and_do (send_message tm (TextMessage []) (lit ''Soniox stream finish send''))
          (\<lambda>_. change (\<lambda>st. st\<lparr>st_draining := True, st_drain_at := st_now st + to_drain tm\<rparr>)) st)"

section \<open>Responses\<close>

definition is_translation :: "token_wire \<Rightarrow> bool" where
  "is_translation w \<longleftrightarrow> tw_translation_status w = Some (lit ''translation'')"

text \<open>The filter on results that are repeated after a replay: what is left of the tokens, and the limit from
  then on.\<close>

definition suppress_replayed :: "nat \<Rightarrow> stream_response \<Rightarrow> token_wire list \<times> nat" where
  "suppress_replayed suppress response =
     (if 0 < suppress then
        (let entirely = (case sr_total_audio_proc_ms response of None \<Rightarrow> False | Some p \<Rightarrow> p \<le> suppress);
             after = (\<lambda>token. case tw_end_ms token of None \<Rightarrow> None | Some e \<Rightarrow> Some (suppress < e));
             has_new_timed_source =
               (\<exists>token\<in>set (sr_tokens response). \<not> is_translation token \<and> after token = Some True);
             tokens =
               (if entirely then []
                else filter (\<lambda>token. if is_translation token then has_new_timed_source else after token \<noteq> Some False)
                       (sr_tokens response));
             done = (case sr_total_audio_proc_ms response of None \<Rightarrow> False | Some p \<Rightarrow> suppress \<le> p)
         in (tokens, if done then 0 else suppress))
      else (sr_tokens response, suppress))"

definition project_token :: "nat \<Rightarrow> token_wire \<Rightarrow> token_wire" where
  "project_token origin w =
     w\<lparr>tw_start_ms := map_option (\<lambda>t. sat_u64_add t origin) (tw_start_ms w),
       tw_end_ms := map_option (\<lambda>t. sat_u64_add t origin) (tw_end_ms w)\<rparr>"

definition control_event :: "token_wire \<Rightarrow> stream_event option" where
  "control_event w =
     (if tw_text w = lit ''<end>'' then Some Endpoint else if tw_text w = lit ''<fin>'' then Some Finalized else None)"

fun send_events :: "stream_event list \<Rightarrow> unit action" where
  "send_events [] st = (Inr (), st)"
| "send_events (e # es) st = and_do (send_event e) (\<lambda>_. send_events es) st"

definition emit_response_events :: "token_wire list \<Rightarrow> nat \<Rightarrow> unit action" where
  "emit_response_events tokens origin =
     (let projected = map (project_token origin) tokens;
          batch = map token_of_wire (filter (\<lambda>w. control_event w = None) projected);
          control_events = List.map_filter control_event projected
      in and_do (if batch \<noteq> [] then send_event (Tokens batch) else fine ()) (\<lambda>_. send_events control_events))"

datatype progress = Waiting | Returned

definition report_progress :: "stream_response \<Rightarrow> unit action" where
  "report_progress response st =
     (case sr_total_audio_proc_ms response of
        None \<Rightarrow> (Inr (), st)
      | Some total_audio_proc_ms \<Rightarrow>
          (let final_audio_proc_ms = (case sr_final_audio_proc_ms response of None \<Rightarrow> 0 | Some f \<Rightarrow> f)
           in case acknowledge total_audio_proc_ms (st_recovery st) of
                ((acknowledged_ms, sent_lag_ms), recovery) \<Rightarrow>
                  (let queued_lag_ms = min u64_max (length (st_audio st) * 100);
                       lag_ms = sat_u64_add sent_lag_ms queued_lag_ms;
                       final_ms = min (sat_u64_add (rc_origin recovery) final_audio_proc_ms) acknowledged_ms
                   in send_event (AudioProgress final_ms acknowledged_ms lag_ms) (st\<lparr>st_recovery := recovery\<rparr>))))"

definition handle_response :: "stream_response \<Rightarrow> progress action" where
  "handle_response response =
     (case sr_error_code response of
        Some error_code \<Rightarrow>
          refuse (failure_provider
            \<lparr>pf_error_code = error_code, pf_error_type = canonical_soniox_error_type error_code (sr_error_type response),
             pf_error_message = lit ''provider request failed'',
             pf_request_id = safe_soniox_request_id (sr_request_id response)\<rparr>)
      | None \<Rightarrow>
          and_do (report_progress response) (\<lambda>_ st.
            case suppress_replayed (st_suppress st) response of
              (tokens, suppress) \<Rightarrow>
                and_do (emit_response_events tokens (rc_origin (st_recovery st))) (\<lambda>_.
                  if sr_finished response then and_do (send_event Finished) (\<lambda>_. fine Returned) else fine Waiting)
                  (st\<lparr>st_suppress := suppress\<rparr>)))"

definition handle_incoming :: "stream_timeouts \<Rightarrow> incoming \<Rightarrow> progress action" where
  "handle_incoming tm msg st =
     (let st = st\<lparr>st_idle_at := st_now st + to_receive_idle tm\<rparr> in
      case msg of
        IncomingText (Inr response) \<Rightarrow> handle_response response st
      | IncomingText (Inl message) \<Rightarrow> refuse (failure_protocol message) st
      | IncomingClose code \<Rightarrow> refuse (failure_closed code) st
      | IncomingOther \<Rightarrow> fine Waiting st
      | IncomingError message \<Rightarrow> refuse (failure_transport (lit ''Soniox stream response receive'') message) st
      | IncomingEnd \<Rightarrow> refuse (failure_closed None) st)"

section \<open>One turn of a session\<close>

definition handle_control :: "stream_timeouts \<Rightarrow> stream_control option \<Rightarrow> unit action" where
  "handle_control tm control =
     (case control of
        Some Finalize \<Rightarrow> and_do (drain_queued_audio tm) (\<lambda>_. send_control tm (lit ''finalize''))
      | Some Pause \<Rightarrow>
          and_do (drain_queued_audio tm) (\<lambda>_. and_do (send_control tm (lit ''finalize''))
            (\<lambda>_. change (\<lambda>st. st\<lparr>st_paused := True, st_keepalive_at := st_now st + to_keepalive tm\<rparr>)))
      | Some Resume \<Rightarrow> change (\<lambda>st. st\<lparr>st_paused := False, st_idle_at := st_now st + to_receive_idle tm\<rparr>)
      | Some Keepalive \<Rightarrow> send_control tm (lit ''keepalive'')
      | _ \<Rightarrow>
          and_do (change (\<lambda>st. if control = None then st\<lparr>st_control_open := False\<rparr> else st))
            (\<lambda>_. and_do (drain_queued_audio tm) (\<lambda>_. begin_drain tm)))"

definition handle_audio :: "stream_timeouts \<Rightarrow> bytes option \<Rightarrow> unit action" where
  "handle_audio tm audio st =
     (case audio of
        Some pcm \<Rightarrow>
          if \<not> st_paused st
          then and_do (send_message tm (BinaryMessage pcm) (lit ''Soniox stream audio send''))
                 (\<lambda>_. change (\<lambda>st. st\<lparr>st_recovery := record_sent pcm (st_recovery st)\<rparr>)) st
          else (Inr (), st)
      | None \<Rightarrow> (Inr (), st\<lparr>st_audio_open := False\<rparr>))"

text \<open>What arrives before a turn.\<close>

record turn =
  tu_wait :: duration
  tu_cancelled :: bool
  tu_audio :: "bytes list"
  tu_audio_closed :: bool
  tu_controls :: "stream_control list"
  tu_controls_closed :: bool
  tu_inbox :: "incoming list"

definition arrive :: "turn \<Rightarrow> stream_state \<Rightarrow> stream_state" where
  "arrive t st =
     st\<lparr>st_now := st_now st + tu_wait t, st_cancelled := st_cancelled st \<or> tu_cancelled t,
        st_audio := st_audio st @ tu_audio t, st_audio_closed := st_audio_closed st \<or> tu_audio_closed t,
        st_controls := st_controls st @ tu_controls t, st_controls_closed := st_controls_closed st \<or> tu_controls_closed t,
        st_inbox := st_inbox st @ tu_inbox t\<rparr>"

definition still_waiting :: "unit action \<Rightarrow> progress action" where
  "still_waiting m = and_do m (\<lambda>_. fine Waiting)"

definition select_branch :: "stream_timeouts \<Rightarrow> progress action" where
  "select_branch tm st =
     (if st_cancelled st then (Inr Returned, st)
      else if st_control_open st \<and> \<not> st_draining st \<and> st_controls st \<noteq> [] then
        still_waiting (handle_control tm (Some (hd (st_controls st)))) (st\<lparr>st_controls := tl (st_controls st)\<rparr>)
      else if st_control_open st \<and> \<not> st_draining st \<and> st_controls_closed st then
        still_waiting (handle_control tm None) st
      else if st_audio_open st \<and> \<not> st_draining st \<and> st_audio st \<noteq> [] then
        still_waiting (handle_audio tm (Some (hd (st_audio st)))) (st\<lparr>st_audio := tl (st_audio st)\<rparr>)
      else if st_audio_open st \<and> \<not> st_draining st \<and> st_audio_closed st then
        still_waiting (handle_audio tm None) st
      else if st_paused st \<and> \<not> st_draining st \<and> st_keepalive_at st \<le> st_now st then
        still_waiting (and_do (send_control tm (lit ''keepalive''))
          (\<lambda>_. change (\<lambda>st. st\<lparr>st_keepalive_at := st_now st + to_keepalive tm\<rparr>))) st
      else if st_draining st \<and> st_drain_at st \<le> st_now st then
        refuse (failure_timeout (lit ''Soniox stream drain'') (to_drain tm)) st
      else if \<not> st_draining st \<and> \<not> st_paused st \<and> st_idle_at st \<le> st_now st then
        refuse (failure_timeout (lit ''Soniox stream response receive'') (to_receive_idle tm)) st
      else if st_inbox st \<noteq> [] then
        handle_incoming tm (hd (st_inbox st)) (st\<lparr>st_inbox := tl (st_inbox st)\<rparr>)
      else (Inr Waiting, st))"

definition session_turn :: "stream_timeouts \<Rightarrow> turn \<Rightarrow> progress action" where
  "session_turn tm t st = select_branch tm (arrive t st)"

fun run_turns :: "stream_timeouts \<Rightarrow> turn list \<Rightarrow> progress action" where
  "run_turns tm [] st = (Inr Waiting, st)"
| "run_turns tm (t # ts) st =
     and_do (session_turn tm t) (\<lambda>p. case p of Returned \<Rightarrow> fine Returned | Waiting \<Rightarrow> run_turns tm ts) st"

section \<open>A session\<close>

datatype connect_result = ConnectOk duration | ConnectTimedOut | ConnectFailed duration ustring

datatype wait_event = WaitCancelled | WaitControl stream_control | WaitClosed

text \<open>The credential of a connection (\<^verbatim>\<open>LaneCredentialSource\<close>): the saved key, at once, or an answer of the app, which the
  broker of \<^verbatim>\<open>crates/vt-ffi/src/lane_credential_api.rs\<close> waits for. An answer that comes after the timeout is ignored.\<close>

datatype lane_credential = StaticKey ustring | Brokered duration

datatype credential_answer =
    Fulfilled duration ustring
  | CredentialFailed duration ustring bool
  | RequestAbandoned duration
  | Unanswered

definition credential_request_timeout :: duration where "credential_request_timeout = from_secs 15"

definition broker_result :: "credential_answer \<Rightarrow> (duration \<times> (stt_error + ustring)) option" where
  "broker_result answer =
     (case answer of
        Fulfilled d key \<Rightarrow> Some (d, Inr key)
      | CredentialFailed d message terminal \<Rightarrow> Some (d, Inl (if terminal then AuthFailed message else ConnectionFailed message))
      | RequestAbandoned d \<Rightarrow> Some (d, Inl (ConnectionFailed (lit ''lane credential request was abandoned'')))
      | Unanswered \<Rightarrow> None)"

definition broker_credential :: "duration \<Rightarrow> credential_answer \<Rightarrow> duration \<times> (stt_error + ustring)" where
  "broker_credential timeout answer =
     (let timed_out = (timeout, Inl (ConnectionFailed (lit ''lane credential request timed out after '' @
            show_nat (timeout div from_secs 1) @ lit ''s'')))
      in case broker_result answer of
           Some (d, r) \<Rightarrow> if d \<le> timeout then (d, r) else timed_out
         | None \<Rightarrow> timed_out)"

definition credential_for_connection :: "lane_credential \<Rightarrow> credential_answer \<Rightarrow> duration \<times> (stt_error + ustring)" where
  "credential_for_connection source answer =
     (case source of StaticKey key \<Rightarrow> (0, Inr key) | Brokered timeout \<Rightarrow> broker_credential timeout answer)"

lemma broker_waits: "fst (broker_credential timeout answer) \<le> timeout"
  by (auto simp: broker_credential_def Let_def split: option.split)

text \<open>One attempt: what the credential source and the network answer, the audio and controls accepted before
  the loop of the session starts, its turns, and what arrives during the wait that may follow it.\<close>

record attempt =
  at_credential :: credential_answer
  at_connect :: connect_result
  at_audio :: "bytes list"
  at_controls :: "stream_control list"
  at_turns :: "turn list"
  at_wait :: "wait_event list"

definition replay_interval :: duration where "replay_interval = from_millis 80"
definition far_future :: duration where "far_future = from_secs (365 * 24 * 60 * 60)"

fun send_replay :: "stream_timeouts \<Rightarrow> duration option \<Rightarrow> replay_frame list \<Rightarrow> unit action" where
  "send_replay tm interval [] st = (Inr (), st)"
| "send_replay tm interval (frame # frames) st =
     and_do (send_message tm (BinaryMessage (rf_pcm frame)) (lit ''Soniox stream recovery audio send''))
       (\<lambda>_. and_do (change (\<lambda>st. case interval of None \<Rightarrow> st | Some d \<Rightarrow> st\<lparr>st_now := st_now st + d\<rparr>))
         (\<lambda>_. send_replay tm interval frames)) st"

fun catch_up :: "stream_timeouts \<Rightarrow> bytes list \<Rightarrow> unit action" where
  "catch_up tm [] st = (Inr (), st)"
| "catch_up tm (pcm # pcms) st =
     and_do (send_message tm (BinaryMessage pcm) (lit ''Soniox stream catch-up audio send''))
       (\<lambda>_. and_do (change (\<lambda>st. st\<lparr>st_recovery := record_sent pcm (st_recovery st), st_now := st_now st + replay_interval\<rparr>))
         (\<lambda>_. catch_up tm pcms)) (st\<lparr>st_audio := pcms\<rparr>)"

definition recover :: "stream_timeouts \<Rightarrow> duration \<Rightarrow> unit action" where
  "recover tm outage =
     and_do (send_event (RecoveryStarted (millis_u64 outage))) (\<lambda>_ st.
     and_do (send_event (AudioProgress (rc_acknowledged (st_recovery st)) (rc_acknowledged (st_recovery st)) (millis_u64 outage)))
       (\<lambda>_ st. case prepare_replay outage (st_recovery st) of
          (replay, recovery) \<Rightarrow>
            and_do (send_replay tm (if fast_reconnect_window < outage then Some replay_interval else None) replay)
              (\<lambda>_ st.
                 if fast_reconnect_window < outage \<and> outage \<le> continuity_window then catch_up tm (st_audio st) st
                 else if continuity_window < outage then (Inr (), st\<lparr>st_audio := []\<rparr>)
                 else (Inr (), st))
              (st\<lparr>st_recovery := recovery, st_suppress := replay_duplicate_until_provider_ms recovery\<rparr>)) st)"

definition new_connection :: "stream_state \<Rightarrow> stream_state" where
  "new_connection st = st\<lparr>st_inbox := [], st_sent := [], st_connected := False\<rparr>"

definition enter_loop :: "stream_timeouts \<Rightarrow> stream_state \<Rightarrow> stream_state" where
  "enter_loop tm st =
     st\<lparr>st_draining := False, st_audio_open := True, st_control_open := True,
        st_keepalive_at := st_now st + (if st_paused st then to_keepalive tm else far_future),
        st_drain_at := st_now st + far_future, st_idle_at := st_now st + to_receive_idle tm\<rparr>"

definition connect_action :: "stream_timeouts \<Rightarrow> connect_result \<Rightarrow> unit action" where
  "connect_action tm r st =
     (case r of
        ConnectOk d \<Rightarrow> (Inr (), st\<lparr>st_now := st_now st + d\<rparr>)
      | ConnectTimedOut \<Rightarrow>
          (Inl (failure_timeout (lit ''Soniox stream connect'') (to_connect tm)), st\<lparr>st_now := st_now st + to_connect tm\<rparr>)
      | ConnectFailed d m \<Rightarrow>
          (Inl (failure_transport (lit ''Soniox stream connect'') m), st\<lparr>st_now := st_now st + d\<rparr>))"

text \<open>The arguments that stay the same: the credential source, the text of an error, the encoder of the configuration, the
  configuration and the timeouts.\<close>

record stream_env =
  se_credential :: lane_credential
  se_show :: "stt_error \<Rightarrow> ustring"
  se_encode :: "stream_config \<Rightarrow> ustring + ustring"
  se_config :: stt_config
  se_timeouts :: stream_timeouts

definition opened :: "attempt \<Rightarrow> stream_state \<Rightarrow> stream_state" where
  "opened a st =
     st\<lparr>st_connected := True, st_suppress := 0, st_audio := st_audio st @ at_audio a, st_controls := st_controls st @ at_controls a\<rparr>"

definition begin_recovery :: "stream_timeouts \<Rightarrow> duration option \<Rightarrow> unit action" where
  "begin_recovery tm reconnect_outage =
     (case reconnect_outage of
        Some outage \<Rightarrow> recover tm outage
      | None \<Rightarrow> change (\<lambda>st. st\<lparr>st_recovery := (st_recovery st)\<lparr>rc_origin := rc_next_audio (st_recovery st)\<rparr>\<rparr>))"

definition session_loop :: "stream_timeouts \<Rightarrow> attempt \<Rightarrow> duration option \<Rightarrow> progress action" where
  "session_loop tm a reconnect_outage =
     and_do (begin_recovery tm reconnect_outage) (\<lambda>_.
     and_do (send_event Connected) (\<lambda>_.
     and_do (change (enter_loop tm)) (\<lambda>_. run_turns tm (at_turns a))))"

definition configure :: "stream_env \<Rightarrow> attempt \<Rightarrow> duration option \<Rightarrow> ustring \<Rightarrow> progress action" where
  "configure env a reconnect_outage api_key =
     (case se_encode env (build_stream_config api_key (se_config env)) of
        Inl message \<Rightarrow> refuse (failure_protocol message)
      | Inr config_json \<Rightarrow>
          and_do (send_message (se_timeouts env) (TextMessage config_json) (lit ''Soniox stream configuration send''))
            (\<lambda>_. and_do (change (opened a)) (\<lambda>_. session_loop (se_timeouts env) a reconnect_outage)))"

definition await_credential :: "duration \<Rightarrow> stream_state \<Rightarrow> stream_state" where
  "await_credential d st = (new_connection st)\<lparr>st_now := st_now st + d\<rparr>"

definition run_stream_session :: "stream_env \<Rightarrow> attempt \<Rightarrow> duration option \<Rightarrow> progress action" where
  "run_stream_session env a reconnect_outage st =
     (case credential_for_connection (se_credential env) (at_credential a) of
        (d, Inl e) \<Rightarrow> refuse (failure_credential (se_show env) e) (await_credential d st)
      | (d, Inr api_key) \<Rightarrow>
          and_do (connect_action (se_timeouts env) (at_connect a)) (\<lambda>_. configure env a reconnect_outage api_key)
            (await_credential d st))"

section \<open>The stream\<close>

datatype reconnect_wait = Retry | WaitWasCancelled | WaitFinish

fun wait_for_reconnect :: "wait_event list \<Rightarrow> bool \<Rightarrow> reconnect_wait \<times> bool" where
  "wait_for_reconnect [] paused = (Retry, paused)"
| "wait_for_reconnect (e # es) paused =
     (case e of
        WaitCancelled \<Rightarrow> (WaitWasCancelled, paused)
      | WaitControl Pause \<Rightarrow> wait_for_reconnect es True
      | WaitControl Resume \<Rightarrow> wait_for_reconnect es False
      | WaitControl Finish \<Rightarrow> (WaitFinish, paused)
      | WaitClosed \<Rightarrow> (WaitFinish, paused)
      | WaitControl _ \<Rightarrow> wait_for_reconnect es paused)"

text \<open>What the wait finds at its start: the cancellation, and the controls that are still in the channel.\<close>

definition pending_wait :: "stream_state \<Rightarrow> wait_event list" where
  "pending_wait st =
     (if st_cancelled st then [WaitCancelled] else []) @ map WaitControl (st_controls st) @
     (if st_controls_closed st then [WaitClosed] else [])"

definition reconnect_delay :: "duration \<Rightarrow> nat \<Rightarrow> duration" where
  "reconnect_delay base attempt = base * 2 ^ (attempt - 1)"

fun run_stream :: "stream_env \<Rightarrow> attempt list \<Rightarrow> nat \<Rightarrow> nat option \<Rightarrow> progress action" where
  "run_stream env [] reconnect_attempt disconnected_at st = (Inr Waiting, st)"
| "run_stream env (a # attempts) reconnect_attempt disconnected_at st =
     (let tm = se_timeouts env in
      case run_stream_session env a (map_option (\<lambda>t. st_now st - t) disconnected_at) st of
        (Inr p, st) \<Rightarrow> (Inr p, st)
      | (Inl failure, st) \<Rightarrow>
          if \<not> failure_is_retryable failure then (Inl failure, st)
          else
            (let disconnected_at =
                   (if st_connected st \<or> disconnected_at = None then Some (st_now st) else disconnected_at);
                 reconnect_attempt = (if st_connected st then 0 else reconnect_attempt)
             in
             if to_reconnect_max_attempts tm \<le> reconnect_attempt then (Inl failure, st)
             else
               (let reconnect_attempt = reconnect_attempt + 1;
                    delay = reconnect_delay (to_reconnect_base_delay tm) reconnect_attempt
                in
                and_do (send_event (Reconnecting reconnect_attempt (millis_u64 delay))) (\<lambda>_ st.
                  case wait_for_reconnect (pending_wait st @ at_wait a) (st_paused st) of
                    (Retry, paused) \<Rightarrow>
                      run_stream env attempts reconnect_attempt disconnected_at
                        (st\<lparr>st_paused := paused, st_controls := [], st_now := st_now st + delay\<rparr>)
                  | (WaitWasCancelled, paused) \<Rightarrow> (Inr Returned, st\<lparr>st_paused := paused\<rparr>)
                  | (WaitFinish, paused) \<Rightarrow> (Inl failure, st\<lparr>st_paused := paused\<rparr>)) st)))"

definition new_stream :: "write_result list \<Rightarrow> stream_state" where
  "new_stream script =
     \<lparr>st_now = 0, st_cancelled = False, st_audio = [], st_audio_closed = False, st_controls = [], st_controls_closed = False,
      st_inbox = [], st_script = script, st_sent = [], st_events = [], st_listens = None, st_stalls = [], st_recovery = new_recovery,
      st_paused = False, st_connected = False, st_suppress = 0, st_draining = False, st_audio_open = True,
      st_control_open = True, st_keepalive_at = 0, st_drain_at = 0, st_idle_at = 0\<rparr>"

text \<open>The task that \<^verbatim>\<open>start\<close> spawns: a failure is also sent as the last event, if anybody listens.\<close>

definition stream_task :: "stream_env \<Rightarrow> attempt list \<Rightarrow> stream_state \<Rightarrow> (stt_error + progress) \<times> stream_state" where
  "stream_task env attempts st =
     (case run_stream env attempts 0 None st of
        (Inr p, st) \<Rightarrow> (Inr p, st)
      | (Inl failure, st) \<Rightarrow> (Inl (sf_task_error failure), snd (send_event (StreamFailed (sf_event_error failure)) st)))"

end
