(* ===== verification/Stt_Stream_Laws.thy ===== *)
theory Stt_Stream_Laws
  imports Stt_Stream
begin

text \<open>
  What the recognition stream guarantees. \<open>keeps P m\<close> says that an action keeps a predicate of the state,
  whatever it returns; its rules follow the way the actions are put together.
\<close>

section \<open>Predicates that actions keep\<close>

named_theorems keeps_intros "how keeping a predicate composes"

definition keeps :: "(stream_state \<Rightarrow> bool) \<Rightarrow> 'a action \<Rightarrow> bool" where
  "keeps P m \<longleftrightarrow> (\<forall>st. P st \<longrightarrow> P (snd (m st)))"

lemma keepsD: "keeps P m \<Longrightarrow> P st \<Longrightarrow> P (snd (m st))"
  by (simp add: keeps_def)

lemma keeps_and_do [keeps_intros]: "keeps P m \<Longrightarrow> (\<And>a. keeps P (f a)) \<Longrightarrow> keeps P (and_do m f)"
  by (auto simp: keeps_def and_do_def split: prod.splits sum.splits)

lemma keeps_fine [keeps_intros]: "keeps P (fine a)"
  by (simp add: keeps_def fine_def)

lemma keeps_refuse [keeps_intros]: "keeps P (refuse e)"
  by (simp add: keeps_def refuse_def)

lemma keeps_change [keeps_intros]: "(\<And>st. P st \<Longrightarrow> P (f st)) \<Longrightarrow> keeps P (change f)"
  by (simp add: keeps_def change_def)

lemma keeps_still_waiting [keeps_intros]: "keeps P m \<Longrightarrow> keeps P (still_waiting m)"
  by (simp add: still_waiting_def keeps_intros)

lemma keeps_after: "(P st \<Longrightarrow> P (f st)) \<Longrightarrow> keeps P m \<Longrightarrow> P st \<Longrightarrow> P (snd (m (f st)))"
  by (simp add: keeps_def)

lemma keeps_send_events: "(\<And>e. e \<in> set es \<Longrightarrow> keeps P (send_event e)) \<Longrightarrow> keeps P (send_events es)"
proof (induction es)
  case Nil
  then show ?case by (simp add: keeps_def)
next
  case (Cons e es)
  then have "keeps P (and_do (send_event e) (\<lambda>_. send_events es))" by (auto intro!: keeps_intros)
  then show ?case by (simp add: keeps_def)
qed

section \<open>Progress\<close>

definition progress_pairs :: "stream_event list \<Rightarrow> (nat \<times> nat) list" where
  "progress_pairs es = List.map_filter (\<lambda>e. case e of AudioProgress f t _ \<Rightarrow> Some (f, t) | _ \<Rightarrow> None) es"

lemma progress_pairs_append: "progress_pairs (es @ es') = progress_pairs es @ progress_pairs es'"
  by (simp add: progress_pairs_def List.map_filter_def)

definition progress_ok :: "stream_state \<Rightarrow> bool" where
  "progress_ok st \<longleftrightarrow>
     (let r = st_recovery st; ps = progress_pairs (st_events st) in
      rc_origin r \<le> rc_acknowledged r \<and> rc_acknowledged r \<le> rc_next_audio r \<and> rc_next_audio r \<le> u64_max \<and>
      sorted (map snd ps) \<and> (\<forall>(f, t)\<in>set ps. f \<le> t \<and> t \<le> rc_acknowledged r))"

text \<open>The other variables do not matter.\<close>

lemma progress_ok_frame [simp]:
  "progress_ok (st\<lparr>st_now := x0\<rparr>) = progress_ok st"
  "progress_ok (st\<lparr>st_cancelled := x1\<rparr>) = progress_ok st"
  "progress_ok (st\<lparr>st_audio := x2\<rparr>) = progress_ok st"
  "progress_ok (st\<lparr>st_audio_closed := x3\<rparr>) = progress_ok st"
  "progress_ok (st\<lparr>st_controls := x4\<rparr>) = progress_ok st"
  "progress_ok (st\<lparr>st_controls_closed := x5\<rparr>) = progress_ok st"
  "progress_ok (st\<lparr>st_inbox := x6\<rparr>) = progress_ok st"
  "progress_ok (st\<lparr>st_script := x7\<rparr>) = progress_ok st"
  "progress_ok (st\<lparr>st_sent := x8\<rparr>) = progress_ok st"
  "progress_ok (st\<lparr>st_listens := x9\<rparr>) = progress_ok st"
  "progress_ok (st\<lparr>st_stalls := x9b\<rparr>) = progress_ok st"
  "progress_ok (st\<lparr>st_paused := x10\<rparr>) = progress_ok st"
  "progress_ok (st\<lparr>st_connected := x11\<rparr>) = progress_ok st"
  "progress_ok (st\<lparr>st_suppress := x12\<rparr>) = progress_ok st"
  "progress_ok (st\<lparr>st_draining := x13\<rparr>) = progress_ok st"
  "progress_ok (st\<lparr>st_audio_open := x14\<rparr>) = progress_ok st"
  "progress_ok (st\<lparr>st_control_open := x15\<rparr>) = progress_ok st"
  "progress_ok (st\<lparr>st_keepalive_at := x16\<rparr>) = progress_ok st"
  "progress_ok (st\<lparr>st_drain_at := x17\<rparr>) = progress_ok st"
  "progress_ok (st\<lparr>st_idle_at := x18\<rparr>) = progress_ok st"
  by (simp_all add: progress_ok_def)

lemma keeps_send_plain:
  assumes "\<And>f t l. e \<noteq> AudioProgress f t l"
  shows "keeps progress_ok (send_event e)"
proof -
  have "progress_pairs [e] = []" using assms by (cases e) (auto simp: progress_pairs_def List.map_filter_def)
  then show ?thesis
    by (auto simp: keeps_def send_event_def event_room_def progress_ok_def progress_pairs_append split: option.splits nat.splits)
qed

lemma progress_sent:
  assumes "progress_ok st" "f \<le> rc_acknowledged (st_recovery st)"
  shows "progress_ok (snd (send_event (AudioProgress f (rc_acknowledged (st_recovery st)) l) st))"
proof -
  have "progress_pairs [AudioProgress f t l] = [(f, t)]" for t by (simp add: progress_pairs_def List.map_filter_def)
  then show ?thesis
    using assms
    by (force simp: send_event_def event_room_def progress_ok_def progress_pairs_append Let_def sorted_append split: option.splits nat.splits)
qed

lemma progress_recovery:
  assumes "progress_ok st" "rc_origin r \<le> rc_acknowledged r" "rc_acknowledged r \<le> rc_next_audio r" "rc_next_audio r \<le> u64_max"
    "rc_acknowledged (st_recovery st) \<le> rc_acknowledged r"
  shows "progress_ok (st\<lparr>st_recovery := r\<rparr>)"
  using assms by (fastforce simp: progress_ok_def Let_def)

lemma progress_recorded: "progress_ok st \<Longrightarrow> progress_ok (st\<lparr>st_recovery := record_sent pcm (st_recovery st)\<rparr>)"
  by (rule progress_recovery) (auto simp: progress_ok_def Let_def record_sent_def sat_u64_add_def)

lemma progress_acknowledged:
  "progress_ok st \<Longrightarrow> progress_ok (st\<lparr>st_recovery := snd (acknowledge n (st_recovery st))\<rparr>)"
  by (rule progress_recovery) (auto simp: progress_ok_def Let_def acknowledge_def)

lemma progress_replayed:
  "progress_ok st \<Longrightarrow> progress_ok (st\<lparr>st_recovery := snd (prepare_replay outage (st_recovery st))\<rparr>)"
  by (rule progress_recovery) (auto simp: progress_ok_def Let_def prepare_replay_def)

lemma keeps_send_message: "keeps progress_ok (send_message tm msg op)"
  by (auto simp: keeps_def send_message_def split: list.splits write_result.splits)

lemma keeps_send_control: "keeps progress_ok (send_control tm t)"
  by (simp add: send_control_def keeps_send_message)

lemma keeps_unfold: "(\<And>st. m st = m' st) \<Longrightarrow> keeps P m' \<Longrightarrow> keeps P m"
  by (simp add: keeps_def)

lemma keeps_begin_drain: "keeps progress_ok (begin_drain tm)"
proof -
  have "keeps progress_ok (and_do (send_message tm (TextMessage []) op)
      (\<lambda>_. change (\<lambda>st. st\<lparr>st_draining := True, st_drain_at := st_now st + to_drain tm\<rparr>)))" for op
    by (intro keeps_intros keeps_send_message) (simp)
  then show ?thesis by (auto simp: keeps_def begin_drain_def)
qed

lemma keeps_drain_frames: "keeps progress_ok (drain_frames tm pcms)"
proof (induction pcms)
  case Nil
  then show ?case by (simp add: keeps_def)
next
  case (Cons p ps)
  have "keeps progress_ok (and_do (send_message tm (BinaryMessage p) op) (\<lambda>_. drain_frames tm ps))" for op
    by (intro keeps_intros keeps_send_message Cons)
  then show ?case by (simp add: keeps_def)
qed

lemma keeps_drain_queued: "keeps progress_ok (drain_queued_audio tm)"
  using keeps_drain_frames by (simp add: keeps_def drain_queued_audio_def)

lemma keeps_handle_control: "keeps progress_ok (handle_control tm c)"
  unfolding handle_control_def
  by (auto split: option.split stream_control.split
      intro!: keeps_intros keeps_drain_queued keeps_send_control keeps_begin_drain)

lemma keeps_handle_audio: "keeps progress_ok (handle_audio tm a)"
proof -
  have "keeps progress_ok (and_do (send_message tm (BinaryMessage p) op)
      (\<lambda>_. change (\<lambda>st. st\<lparr>st_recovery := record_sent p (st_recovery st)\<rparr>)))" for p op
    by (intro keeps_intros keeps_send_message progress_recorded)
  then show ?thesis by (auto simp: keeps_def handle_audio_def split: option.splits)
qed

lemma keeps_report_progress: "keeps progress_ok (report_progress response)"
proof -
  have "progress_ok (snd (report_progress response st))" if "progress_ok st" for st
  proof (cases "sr_total_audio_proc_ms response")
    case (Some n)
    let ?r = "snd (acknowledge n (st_recovery st))"
    have fst_ack: "fst (fst (acknowledge n (st_recovery st))) = rc_acknowledged ?r" by (simp add: acknowledge_def Let_def)
    show ?thesis
      using Some progress_sent [OF progress_acknowledged [OF that, of n]] fst_ack
      by (simp add: report_progress_def Let_def case_prod_beta)
  qed (simp add: report_progress_def that)
  then show ?thesis by (simp add: keeps_def)
qed

lemma keeps_emit: "keeps progress_ok (emit_response_events tokens origin)"
proof -
  have "keeps progress_ok (send_event e)" if "e \<in> set (List.map_filter control_event ws)" for e ws
    using that by (auto simp: in_map_filter control_event_def split: if_splits intro!: keeps_send_plain)
  moreover have "keeps progress_ok (send_event (Tokens b))" for b by (rule keeps_send_plain) simp
  ultimately show ?thesis
    unfolding emit_response_events_def Let_def
    by (intro keeps_intros keeps_send_events) (auto intro: keeps_intros)
qed

lemma keeps_handle_response: "keeps progress_ok (handle_response response)"
proof (cases "sr_error_code response")
  case None
  have "keeps progress_ok (\<lambda>st. case suppress_replayed (st_suppress st) response of (tokens, suppress) \<Rightarrow>
      and_do (emit_response_events tokens (rc_origin (st_recovery st)))
        (\<lambda>_. if sr_finished response then and_do (send_event Finished) (\<lambda>_. fine Returned) else fine Waiting)
        (st\<lparr>st_suppress := suppress\<rparr>))"
  proof -
    have "keeps progress_ok (and_do (emit_response_events tokens origin)
        (\<lambda>_. if sr_finished response then and_do (send_event Finished) (\<lambda>_. fine Returned) else fine Waiting))" for tokens origin
      by (auto intro!: keeps_intros keeps_emit keeps_send_plain)
    then show ?thesis by (auto simp: keeps_def split: prod.splits)
  qed
  then show ?thesis unfolding handle_response_def None option.case by (intro keeps_intros keeps_report_progress)
qed (simp add: handle_response_def keeps_intros)

lemma keeps_handle_incoming: "keeps progress_ok (handle_incoming tm msg)"
  using keeps_handle_response
  by (auto simp: keeps_def handle_incoming_def Let_def fine_def refuse_def split: incoming.splits sum.splits)

lemma progress_select: "progress_ok st \<Longrightarrow> progress_ok (snd (select_branch tm st))"
proof -
  assume ok: "progress_ok st"
  have upd: "progress_ok (st\<lparr>st_controls := cs\<rparr>)" "progress_ok (st\<lparr>st_audio := xs\<rparr>)" "progress_ok (st\<lparr>st_inbox := is\<rparr>)" for cs xs "is"
    using ok by (simp_all)
  have keepalive: "keeps progress_ok (still_waiting (and_do (send_control tm t)
      (\<lambda>_. change (\<lambda>st. st\<lparr>st_keepalive_at := st_now st + to_keepalive tm\<rparr>))))" for t
    by (intro keeps_intros keeps_send_control) (simp)
  show ?thesis
    unfolding select_branch_def
    by (simp add: ok upd keepsD [OF keepalive ok] refuse_def
        keepsD [OF keeps_still_waiting [OF keeps_handle_control]] keepsD [OF keeps_still_waiting [OF keeps_handle_audio]]
        keepsD [OF keeps_handle_incoming])
qed

lemma keeps_session_turn: "keeps progress_ok (session_turn tm t)"
  by (simp add: keeps_def session_turn_def progress_select arrive_def)

lemma keeps_run_turns: "keeps progress_ok (run_turns tm ts)"
proof (induction ts)
  case Nil
  then show ?case by (simp add: keeps_def)
next
  case (Cons t ts)
  have "keeps progress_ok (and_do (session_turn tm t) (\<lambda>p. case p of Returned \<Rightarrow> fine Returned | Waiting \<Rightarrow> run_turns tm ts))"
    by (auto intro!: keeps_intros keeps_session_turn Cons split: progress.split)
  then show ?case by (simp add: keeps_def)
qed

lemma keeps_send_replay: "keeps progress_ok (send_replay tm interval frames)"
proof (induction frames)
  case Nil
  then show ?case by (simp add: keeps_def)
next
  case (Cons f fs)
  have "keeps progress_ok (and_do (send_message tm (BinaryMessage (rf_pcm f)) op)
      (\<lambda>_. and_do (change (\<lambda>st. case interval of None \<Rightarrow> st | Some d \<Rightarrow> st\<lparr>st_now := st_now st + d\<rparr>))
         (\<lambda>_. send_replay tm interval fs)))" for op
    by (intro keeps_intros keeps_send_message Cons) (simp split: option.split)
  then show ?case by (simp add: keeps_def)
qed

lemma keeps_catch_up: "keeps progress_ok (catch_up tm pcms)"
proof (induction pcms)
  case Nil
  then show ?case by (simp add: keeps_def)
next
  case (Cons p ps)
  have "keeps progress_ok (and_do (send_message tm (BinaryMessage p) op)
      (\<lambda>_. and_do (change (\<lambda>st. st\<lparr>st_recovery := record_sent p (st_recovery st), st_now := st_now st + replay_interval\<rparr>))
         (\<lambda>_. catch_up tm ps)))" for op
  proof (intro keeps_intros keeps_send_message Cons)
    fix st assume "progress_ok st"
    from progress_recorded [OF this, of p]
    show "progress_ok (st\<lparr>st_recovery := record_sent p (st_recovery st), st_now := st_now st + replay_interval\<rparr>)"
      by (simp add: progress_ok_def)
  qed
  then show ?case by (simp add: keeps_def)
qed

lemma and_do_snd: "P (snd (m st)) \<Longrightarrow> (\<And>a st'. P st' \<Longrightarrow> P (snd (f a st'))) \<Longrightarrow> P (snd (and_do m f st))"
  by (cases "m st"; cases "fst (m st)") (simp_all add: and_do_def)

lemmas and_do_progress = and_do_snd [of progress_ok]

lemma keeps_recover_if:
  assumes started: "\<And>n. keeps P (send_event (RecoveryStarted n))"
    and reported: "\<And>st l. P st \<Longrightarrow>
      P (snd (send_event (AudioProgress (rc_acknowledged (st_recovery st)) (rc_acknowledged (st_recovery st)) l) st))"
    and replayed: "\<And>st x. P st \<Longrightarrow> P (st\<lparr>st_recovery := snd (prepare_replay outage (st_recovery st)), st_suppress := x\<rparr>)"
    and resent: "\<And>i fs. keeps P (send_replay tm i fs)" and caught_up: "\<And>ps. keeps P (catch_up tm ps)"
    and dropped: "\<And>st. P st \<Longrightarrow> P (st\<lparr>st_audio := []\<rparr>)"
  shows "keeps P (recover tm outage)"
proof -
  note into = and_do_snd [of P]
  have last: "P (snd (if fast_reconnect_window < outage \<and> outage \<le> continuity_window then catch_up tm (st_audio st) st
      else if continuity_window < outage then (Inr (), st\<lparr>st_audio := []\<rparr>) else (Inr (), st)))" if "P st" for st
    using that keepsD [OF caught_up] dropped by simp
  have inner: "P (snd (case prepare_replay outage (st_recovery st) of (replay, recovery) \<Rightarrow>
      and_do (send_replay tm (if fast_reconnect_window < outage then Some replay_interval else None) replay)
        (\<lambda>_ st. if fast_reconnect_window < outage \<and> outage \<le> continuity_window then catch_up tm (st_audio st) st
           else if continuity_window < outage then (Inr (), st\<lparr>st_audio := []\<rparr>) else (Inr (), st))
        (st\<lparr>st_recovery := recovery, st_suppress := replay_duplicate_until_provider_ms recovery\<rparr>)))"
    if "P st" for st
  proof -
    obtain replay recovery where p: "prepare_replay outage (st_recovery st) = (replay, recovery)"
      by (cases "prepare_replay outage (st_recovery st)")
    have "P (st\<lparr>st_recovery := recovery, st_suppress := replay_duplicate_until_provider_ms recovery\<rparr>)"
      using replayed [OF that] p by simp
    then show ?thesis
      unfolding p prod.case by (intro into last keepsD [OF resent])
  qed
  have "P (snd (recover tm outage st))" if ok: "P st" for st
    unfolding recover_def
    by (rule into, rule keepsD [OF started ok], rule into, erule reported, erule inner)
  then show ?thesis by (simp add: keeps_def)
qed

lemma keeps_recover: "keeps progress_ok (recover tm outage)"
proof (rule keeps_recover_if)
  show "keeps progress_ok (send_event (RecoveryStarted n))" for n by (rule keeps_send_plain) simp
  show "progress_ok (st\<lparr>st_recovery := snd (prepare_replay outage (st_recovery st)), st_suppress := x\<rparr>)" if "progress_ok st" for st x
    using progress_replayed [OF that] by simp
qed (simp_all add: progress_sent keeps_send_replay keeps_catch_up)

lemma keeps_connect: "keeps progress_ok (connect_action tm r)"
  by (auto simp: keeps_def connect_action_def split: connect_result.split)

text \<open>The first connection starts at the end of what was recorded, which is nothing: everything recorded has
  been acknowledged.\<close>

definition all_acknowledged :: "stream_state \<Rightarrow> bool" where
  "all_acknowledged st \<longleftrightarrow> progress_ok st \<and> rc_next_audio (st_recovery st) = rc_acknowledged (st_recovery st)"

lemma and_do_acknowledged:
  assumes "all_acknowledged (snd (m st))" "\<And>a st'. all_acknowledged st' \<Longrightarrow> progress_ok (snd (f a st'))"
  shows "progress_ok (snd (and_do m f st))"
  using assms by (cases "m st"; cases "fst (m st)") (auto simp: and_do_def all_acknowledged_def)

lemma all_acknowledged_io:
  assumes "all_acknowledged st"
  shows "all_acknowledged (snd (connect_action tm c st))" "all_acknowledged (snd (send_message tm msg op st))"
  using assms
  by (auto simp: all_acknowledged_def connect_action_def send_message_def split: connect_result.splits list.splits write_result.splits)

lemma keeps_loop: "keeps progress_ok (and_do (send_event Connected) (\<lambda>_. and_do (change (enter_loop tm)) (\<lambda>_. run_turns tm ts)))"
  by (intro keeps_intros keeps_send_plain keeps_run_turns) (simp_all add: enter_loop_def)

lemma keeps_configure: "keeps progress_ok (configure env a (Some d) api_key)"
  unfolding configure_def session_loop_def begin_recovery_def option.case
  by (auto simp: opened_def enter_loop_def split: sum.split
      intro!: keeps_intros keeps_send_message keeps_recover keeps_send_plain keeps_run_turns)

lemma acknowledged_configure:
  assumes "all_acknowledged st"
  shows "progress_ok (snd (configure env a None api_key st))"
proof (cases "se_encode env (build_stream_config api_key (se_config env))")
  case (Inl m)
  then show ?thesis using assms by (simp add: configure_def refuse_def all_acknowledged_def)
next
  case (Inr json)
  have loop: "progress_ok (snd (and_do (change (opened a)) (\<lambda>_. session_loop tm a None) st'))" if "all_acknowledged st'" for st' tm
  proof -
    have "progress_ok ((opened a st')\<lparr>st_recovery := (st_recovery (opened a st'))\<lparr>rc_origin := rc_next_audio (st_recovery (opened a st'))\<rparr>\<rparr>)"
      using that by (intro progress_recovery) (auto simp: all_acknowledged_def opened_def progress_ok_def Let_def)
    from keepsD [OF keeps_loop this] show ?thesis
      by (simp add: session_loop_def begin_recovery_def and_do_def change_def)
  qed
  show ?thesis
    unfolding configure_def Inr sum.case
    by (rule and_do_acknowledged) (simp_all add: all_acknowledged_io(2) [OF assms] loop)
qed

lemma progress_session:
  assumes "progress_ok st" "outage = None \<Longrightarrow> all_acknowledged st"
  shows "progress_ok (snd (run_stream_session env a outage st))"
proof -
  obtain d c where c: "credential_for_connection (se_credential env) (at_credential a) = (d, c)" by fastforce
  show ?thesis
  proof (cases c)
    case (Inl e)
    then show ?thesis using assms(1) c by (simp add: run_stream_session_def refuse_def await_credential_def new_connection_def)
  next
    case (Inr k)
    show ?thesis
    proof (cases outage)
      case (Some x)
      have "keeps progress_ok (and_do (connect_action (se_timeouts env) (at_connect a)) (\<lambda>_. configure env a outage k))"
        unfolding Some by (intro keeps_intros keeps_connect keeps_configure)
      from keepsD [OF this, of "await_credential d st"] show ?thesis
        using assms(1) Inr c by (simp add: run_stream_session_def await_credential_def new_connection_def)
    next
      case None
      have start: "all_acknowledged (await_credential d st)"
        using assms(2) None by (simp add: all_acknowledged_def await_credential_def new_connection_def)
      show ?thesis
        unfolding run_stream_session_def c Inr prod.case sum.case None
        by (intro and_do_acknowledged all_acknowledged_io(1) acknowledged_configure start)
    qed
  qed
qed

lemma progress_run:
  "progress_ok st \<Longrightarrow> (disconnected_at = None \<Longrightarrow> all_acknowledged st) \<Longrightarrow>
     progress_ok (snd (run_stream env attempts n disconnected_at st))"
proof (induction attempts arbitrary: n disconnected_at st)
  case (Cons a attempts)
  obtain r st1 where s: "run_stream_session env a (map_option (\<lambda>t. st_now st - t) disconnected_at) st = (r, st1)"
    by (cases "run_stream_session env a (map_option (\<lambda>t. st_now st - t) disconnected_at) st")
  have ok: "progress_ok st1"
    using progress_session [OF Cons.prems(1), of "map_option (\<lambda>t. st_now st - t) disconnected_at" env a] Cons.prems(2) s by simp
  show ?case
  proof (cases r)
    case (Inl failure)
    have again: "progress_ok (snd (case wait_for_reconnect w p of
        (Retry, paused) \<Rightarrow> run_stream env attempts k (Some d) (st'\<lparr>st_paused := paused, st_controls := [], st_now := t\<rparr>)
      | (WaitWasCancelled, paused) \<Rightarrow> (Inr Returned, st'\<lparr>st_paused := paused\<rparr>)
      | (WaitFinish, paused) \<Rightarrow> (Inl failure, st'\<lparr>st_paused := paused\<rparr>)))"
      if "progress_ok st'" for st' w p k d t
      using that by (auto intro!: Cons.IH split: prod.split reconnect_wait.split)
    have "keeps progress_ok (send_event (Reconnecting k d))" for k d by (rule keeps_send_plain) simp
    note sent = keepsD [OF this ok]
    obtain d where d: "(if st_connected st1 \<or> disconnected_at = None then Some (st_now st1) else disconnected_at) = Some d"
      by (cases "st_connected st1"; cases disconnected_at) auto
    show ?thesis
      unfolding run_stream.simps s Inl Let_def prod.case sum.case d
      by (auto intro!: ok and_do_progress sent again)
  qed (use s ok in simp)
qed simp

text \<open>C14: The reported progress never runs backwards. However the sessions, the network and the provider
  behave, the positions reported as processed never decrease over the whole life of a stream,
  reconnections included; the final position of a report never exceeds its total; and no report
  exceeds the audio that was recorded as sent.\<close>

theorem progress_never_steps_back:
  "let st = snd (run_stream env attempts 0 None ((new_stream script)\<lparr>st_listens := listens, st_stalls := stalls\<rparr>)); ps = progress_pairs (st_events st) in
     sorted (map snd ps) \<and> list_all (\<lambda>(f, t). f \<le> t \<and> t \<le> rc_next_audio (st_recovery st)) ps"
proof -
  have "all_acknowledged ((new_stream script)\<lparr>st_listens := listens, st_stalls := stalls\<rparr>)"
    by (simp add: all_acknowledged_def progress_ok_def new_stream_def new_recovery_def progress_pairs_def)
  then have "progress_ok (snd (run_stream env attempts 0 None ((new_stream script)\<lparr>st_listens := listens, st_stalls := stalls\<rparr>)))"
    by (intro progress_run) (auto simp: all_acknowledged_def)
  then show ?thesis by (fastforce simp: progress_ok_def Let_def list_all_iff)
qed

end
