(* ===== verification/Stt_Stream_Faults.thy ===== *)
theory Stt_Stream_Faults
  imports Stt_Stream_Laws
begin

text \<open>
  How the recognition stream ends, what its controls do to the audio in front of them, and what it loses:
  the budget of reconnections, the bounded drain, the retry rule, a frame whose write fails, and a
  finish that a reconnection forgets.
\<close>

section \<open>Giving up\<close>






lemma pending_new: "pending_wait ((new_connection st)\<lparr>st_now := t\<rparr>) = pending_wait st"
  by (simp add: pending_wait_def new_connection_def)



section \<open>Which failures are retried\<close>

text \<open>C17: What the provider refuses for good is never retried. An error response ends the session with a
  failure that is retried exactly when its code is 413, 429 or 503 or its type is classified as a rate
  limit or an unavailable service; so a refused, unpaid or forbidden request never is, whatever type it
  carries, and neither is a credential that was refused or a close frame that says so. The type
  \<^verbatim>\<open>max_duration_reached\<close>, which the retry rule names, is no classification and never comes up.\<close>

theorem provider_retry_rule:
  assumes "sr_error_code response = Some code"
  shows "(\<exists>f. handle_response response st = (Inl f, st) \<and>
      (failure_is_retryable f \<longleftrightarrow> code \<in> {413, 429, 503} \<or>
         canonical_soniox_error_type code (sr_error_type response) \<in> {lit ''rate_limited'', lit ''service_unavailable''}) \<and>
      (code \<in> {401, 402, 403} \<longrightarrow> \<not> failure_is_retryable f)) \<and>
    (is_auth_error e \<longrightarrow> \<not> failure_is_retryable (failure_credential show_text e)) \<and>
    (c \<in> {1008, 4001, 4003} \<longrightarrow> \<not> failure_is_retryable (failure_closed (Some c)))"
proof -
  let ?t = "canonical_soniox_error_type code (sr_error_type response)"
  have types: "lit ''max_duration_reached'' \<notin> set canonical_types" by (simp add: canonical_types_def)
  have not_max: "?t \<noteq> lit ''max_duration_reached''"
    using canonical_in_types [of code "sr_error_type response"] types by metis
  have refused: "?t \<noteq> lit ''rate_limited'' \<and> ?t \<noteq> lit ''service_unavailable''" if "code \<in> {401, 402, 403}"
    using that by (auto simp: canonical_soniox_error_type_def Let_def)
  have "\<exists>f. handle_response response st = (Inl f, st) \<and>
      (failure_is_retryable f \<longleftrightarrow> code \<in> {413, 429, 503} \<or> ?t \<in> {lit ''rate_limited'', lit ''service_unavailable''}) \<and>
      (code \<in> {401, 402, 403} \<longrightarrow> \<not> failure_is_retryable f)"
    using assms not_max refused
    by (auto simp: handle_response_def refuse_def failure_provider_def failure_is_retryable_def retryable_types_def)
  moreover have "is_auth_error e \<longrightarrow> \<not> failure_is_retryable (failure_credential show_text e)"
    by (simp add: failure_credential_def failure_is_retryable_def retryable_types_def)
  moreover have "c \<in> {1008, 4001, 4003} \<longrightarrow> \<not> failure_is_retryable (failure_closed (Some c))"
    by (auto simp: failure_closed_def failure_is_retryable_def auth_close_codes_def)
  ultimately show ?thesis by blast
qed

definition error_response :: "nat \<Rightarrow> ustring option \<Rightarrow> stream_response" where
  "error_response code error_type =
     \<lparr>sr_tokens = [], sr_finished = False, sr_error_code = Some code, sr_error_type = error_type, sr_request_id = None,
      sr_final_audio_proc_ms = None, sr_total_audio_proc_ms = None\<rparr>"

theorem provider_retry_rule_witness:
  "\<exists>f. handle_response (error_response 402 (Some (lit ''rate'')))  (new_stream []) = (Inl f, new_stream []) \<and>
     \<not> failure_is_retryable f"
  using provider_retry_rule [of "error_response 402 (Some (lit ''rate''))" 402 "new_stream []" SttCancelled "\<lambda>_. []" 1000]
  by (auto simp: error_response_def)

text \<open>A session that has reached its maximal duration is not resumed when the error comes with status 400.\<close>

lemma max_duration_not_retried:
  "\<exists>f. handle_response (error_response 400 (Some (lit ''max_duration_reached''))) st = (Inl f, st) \<and> \<not> failure_is_retryable f"
proof -
  have "canonical_soniox_error_type 400 (Some (lit ''max_duration_reached'')) = lit ''invalid_request''"
    by (simp add: canonical_soniox_error_type_def Let_def hits_def lit_def to_ascii_lowercase_def ascii_lower_def starts_with_def)
  then show ?thesis
    by (simp add: handle_response_def refuse_def failure_provider_def failure_is_retryable_def retryable_types_def error_response_def)
qed

section \<open>Controls and the audio in front of them\<close>

lemma send_message_ok: "st_script st = [] \<Longrightarrow> send_message tm msg op st = (Inr (), st\<lparr>st_sent := st_sent st @ [msg]\<rparr>)"
  by (simp add: send_message_def)

lemma drain_frames_ok:
  "st_script st = [] \<Longrightarrow>
     drain_frames tm pcms st =
       (Inr (), st\<lparr>st_sent := st_sent st @ map BinaryMessage pcms, st_audio := (if pcms = [] then st_audio st else [])\<rparr>)"
proof (induction pcms arbitrary: st)
  case (Cons p ps)
  show ?case by (simp add: and_do_def send_message_ok Cons.prems Cons.IH)
qed simp

definition fence_marker :: "stream_control \<Rightarrow> ws_message" where
  "fence_marker c = TextMessage (if c = Finish then [] else lit ''{\"type\":\"finalize\"}'')"

text \<open>C20: A control does not overtake audio, but hides it from recovery. While the socket takes writes, a
  finalize, a pause or a finish first sends every queued frame, in order, and then its own message. None of
  these frames enters the recovery buffer: it is the same as before, and so is every replay made from it.\<close>

theorem controls_fence_audio:
  assumes "st_script st = []" "\<not> st_draining st" "c \<in> {Finalize, Pause, Finish}"
  shows "\<exists>st'. handle_control tm (Some c) st = (Inr (), st') \<and>
    st_sent st' = st_sent st @ map BinaryMessage (st_audio st) @ [fence_marker c] \<and> st_audio st' = [] \<and>
    st_recovery st' = st_recovery st \<and> (c = Pause \<longrightarrow> st_paused st') \<and> (c = Finish \<longrightarrow> st_draining st')"
  using assms
  by (cases c)
    (auto simp: handle_control_def drain_queued_audio_def drain_frames_ok and_do_def send_control_def send_message_ok
       change_def begin_drain_def fence_marker_def lit_def)

theorem controls_fence_audio_witness:
  "\<exists>st'. handle_control default_timeouts (Some Pause) ((new_stream [])\<lparr>st_audio := [[1], [2]]\<rparr>) = (Inr (), st') \<and>
     length (st_sent st') = 3 \<and> rc_frames (st_recovery st') = []"
  using controls_fence_audio [of "(new_stream [])\<lparr>st_audio := [[1], [2]]\<rparr>" Pause default_timeouts]
  by (fastforce simp: new_stream_def new_recovery_def)

text \<open>The position then runs ahead: the provider's clock counts the hidden frames. A frame recorded after them
  counts as processed as soon as the provider has got as far as the hidden frames.\<close>

lemma acknowledge_runs_ahead:
  assumes "rc_origin r \<le> rc_next_audio r" "frame_duration pcm \<le> hidden" "rc_next_audio r + hidden \<le> u64_max"
  shows "rc_acknowledged (snd (acknowledge (rc_next_audio r - rc_origin r + hidden) (record_sent pcm r))) =
    max (rc_acknowledged r) (rc_next_audio (record_sent pcm r))"
  using assms by (auto simp: acknowledge_def record_sent_def Let_def sat_u64_add_def)

section \<open>A frame whose write fails\<close>

text \<open>C21: A frame whose write fails is lost. In a running session with nothing more urgent to do, the next
  frame is taken from the channel and sent; when that write times out or fails, the session ends with a
  failure that is retried, but the frame is neither in the channel nor in the recovery buffer, and it
  was not sent: the session that follows has no way to send it.\<close>

theorem failed_frame_is_lost:
  assumes "\<not> st_cancelled st" "st_controls st = []" "\<not> st_controls_closed st" "st_audio_open st" "\<not> st_draining st"
    "\<not> st_paused st" "st_audio st = pcm # queued" "st_script st = w # script" "\<forall>d. w \<noteq> Wrote d"
  shows "\<exists>f st'. select_branch tm st = (Inl f, st') \<and> failure_is_retryable f \<and>
    st_audio st' = queued \<and> st_sent st' = st_sent st \<and> st_recovery st' = st_recovery st"
  using assms
  by (cases w)
    (auto simp: select_branch_def still_waiting_def handle_audio_def and_do_def send_message_def
       failure_is_retryable_def failure_timeout_def failure_transport_def)

theorem failed_frame_is_lost_witness:
  "\<exists>f st'. select_branch default_timeouts ((new_stream [WriteTimedOut])\<lparr>st_audio := [[7]]\<rparr>) = (Inl f, st') \<and>
     st_audio st' = [] \<and> rc_frames (st_recovery st') = []"
  using failed_frame_is_lost [of "(new_stream [WriteTimedOut])\<lparr>st_audio := [[7]]\<rparr>" "[7]" "[]" WriteTimedOut "[]" default_timeouts]
  by (fastforce simp: new_stream_def new_recovery_def)

section \<open>The drain ends\<close>









definition idle_turn :: "duration \<Rightarrow> turn" where
  "idle_turn d =
     \<lparr>tu_wait = d, tu_cancelled = False, tu_audio = [], tu_audio_closed = False, tu_controls = [], tu_controls_closed = False,
      tu_inbox = []\<rparr>"


section \<open>A finish that is forgotten\<close>

text \<open>No control is waiting, and the empty frame that asks for the end was not sent on this connection.\<close>

definition unfinished :: "stream_state \<Rightarrow> bool" where
  "unfinished st \<longleftrightarrow> st_controls st = [] \<and> \<not> st_controls_closed st \<and> TextMessage [] \<notin> set (st_sent st)"

definition looping :: "stream_state \<Rightarrow> bool" where
  "looping st \<longleftrightarrow> unfinished st \<and> \<not> st_draining st"

definition quiet_turn :: "turn \<Rightarrow> bool" where
  "quiet_turn t \<longleftrightarrow> tu_controls t = [] \<and> \<not> tu_controls_closed t"

lemma unfinished_event: "keeps unfinished (send_event e)" "keeps looping (send_event e)"
  by (auto simp: keeps_def send_event_def event_room_def unfinished_def looping_def split: option.splits nat.splits)

lemma unfinished_message:
  "msg \<noteq> TextMessage [] \<Longrightarrow> keeps unfinished (send_message tm msg op)"
  "msg \<noteq> TextMessage [] \<Longrightarrow> keeps looping (send_message tm msg op)"
  by (auto simp: keeps_def send_message_def unfinished_def looping_def split: list.splits write_result.splits)

lemma looping_response: "keeps looping (handle_response response)"
proof (cases "sr_error_code response")
  case None
  have report: "keeps looping (report_progress response)"
    using unfinished_event(2)
    by (auto simp: keeps_def report_progress_def Let_def looping_def unfinished_def split: option.splits prod.splits)
  have emit: "keeps looping (emit_response_events tokens origin)" for tokens origin
    unfolding emit_response_events_def Let_def by (auto intro!: keeps_intros keeps_send_events unfinished_event)
  have "keeps looping (and_do (emit_response_events tokens origin)
      (\<lambda>_. if sr_finished response then and_do (send_event Finished) (\<lambda>_. fine Returned) else fine Waiting))" for tokens origin
    by (auto intro!: keeps_intros emit unfinished_event)
  then have "keeps looping (\<lambda>st. case suppress_replayed (st_suppress st) response of (tokens, suppress) \<Rightarrow>
      and_do (emit_response_events tokens (rc_origin (st_recovery st)))
        (\<lambda>_. if sr_finished response then and_do (send_event Finished) (\<lambda>_. fine Returned) else fine Waiting)
        (st\<lparr>st_suppress := suppress\<rparr>))"
    by (auto simp: keeps_def looping_def unfinished_def split: prod.splits)
  then show ?thesis unfolding handle_response_def None option.case by (intro keeps_intros report)
qed (simp add: handle_response_def keeps_intros)

lemma looping_incoming: "keeps looping (handle_incoming tm msg)"
  using looping_response
  by (auto simp: keeps_def handle_incoming_def Let_def fine_def refuse_def looping_def unfinished_def split: incoming.splits sum.splits)

lemma looping_audio: "keeps looping (handle_audio tm a)"
proof -
  have "keeps looping (and_do (send_message tm (BinaryMessage p) op)
      (\<lambda>_. change (\<lambda>st. st\<lparr>st_recovery := record_sent p (st_recovery st)\<rparr>)))" for p op
    by (intro keeps_intros unfinished_message) (simp_all add: looping_def unfinished_def)
  then show ?thesis by (auto simp: keeps_def handle_audio_def looping_def unfinished_def split: option.splits)
qed

lemma looping_keepalive:
  "keeps looping (still_waiting (and_do (send_control tm t) (\<lambda>_. change (\<lambda>st. st\<lparr>st_keepalive_at := st_now st + to_keepalive tm\<rparr>))))"
  unfolding send_control_def
  by (intro keeps_intros unfinished_message) (simp_all add: looping_def unfinished_def lit_def)

lemma looping_select:
  assumes ok: "looping st"
  shows "looping (snd (select_branch tm st))"
proof -
  have upd: "looping (st\<lparr>st_audio := xs\<rparr>)" "looping (st\<lparr>st_inbox := ms\<rparr>)" for xs ms
    using ok by (simp_all add: looping_def unfinished_def)
  have none: "st_controls st = []" "\<not> st_controls_closed st" using ok by (simp_all add: looping_def unfinished_def)
  show ?thesis
    unfolding select_branch_def
    by (simp add: ok upd none refuse_def keepsD [OF looping_keepalive ok]
        keepsD [OF keeps_still_waiting [OF looping_audio]] keepsD [OF looping_incoming])
qed

lemma looping_turns: "\<forall>t\<in>set ts. quiet_turn t \<Longrightarrow> keeps looping (run_turns tm ts)"
proof (induction ts)
  case Nil
  then show ?case by (simp add: keeps_def)
next
  case (Cons t ts)
  have "looping st \<Longrightarrow> looping (arrive t st)" for st
    using Cons.prems by (simp add: looping_def unfinished_def arrive_def quiet_turn_def)
  then have "keeps looping (session_turn tm t)" by (simp add: keeps_def session_turn_def looping_select)
  then have "keeps looping (and_do (session_turn tm t) (\<lambda>p. case p of Returned \<Rightarrow> fine Returned | Waiting \<Rightarrow> run_turns tm ts))"
    using Cons by (auto intro!: keeps_intros split: progress.split)
  then show ?case by (simp add: keeps_def)
qed

lemma unfinished_replay: "keeps unfinished (send_replay tm interval frames)"
proof (induction frames)
  case Nil
  then show ?case by (simp add: keeps_def)
next
  case (Cons f fs)
  have "keeps unfinished (and_do (send_message tm (BinaryMessage (rf_pcm f)) op)
      (\<lambda>_. and_do (change (\<lambda>st. case interval of None \<Rightarrow> st | Some d \<Rightarrow> st\<lparr>st_now := st_now st + d\<rparr>))
         (\<lambda>_. send_replay tm interval fs)))" for op
    by (intro keeps_intros unfinished_message Cons) (simp_all add: unfinished_def split: option.split)
  then show ?case by (simp add: keeps_def)
qed

lemma unfinished_catch_up: "keeps unfinished (catch_up tm pcms)"
proof (induction pcms)
  case Nil
  then show ?case by (simp add: keeps_def)
next
  case (Cons p ps)
  have "keeps unfinished (and_do (send_message tm (BinaryMessage p) op)
      (\<lambda>_. and_do (change (\<lambda>st. st\<lparr>st_recovery := record_sent p (st_recovery st), st_now := st_now st + replay_interval\<rparr>))
         (\<lambda>_. catch_up tm ps)))" for op
    by (intro keeps_intros unfinished_message Cons) (simp_all add: unfinished_def)
  then show ?case by (simp add: keeps_def unfinished_def)
qed

lemma unfinished_recover: "keeps unfinished (recover tm outage)"
proof (rule keeps_recover_if)
  show "keeps unfinished (send_event (RecoveryStarted n))" for n by (rule unfinished_event)
  show "unfinished (snd (send_event e st))" if "unfinished st" for e st by (rule keepsD [OF unfinished_event(1) that])
qed (simp_all add: unfinished_replay unfinished_catch_up, simp_all add: unfinished_def)

lemma unfinished_session:
  assumes "st_controls st = []" "\<not> st_controls_closed st" "\<forall>t\<in>set (at_turns a). quiet_turn t" "at_controls a = []"
    "\<And>c j. se_encode env c = Inr j \<Longrightarrow> j \<noteq> []"
  shows "unfinished (snd (run_stream_session env a (Some outage) st))"
proof -
  obtain d c where c: "credential_for_connection (se_credential env) (at_credential a) = (d, c)" by fastforce
  have start: "unfinished (await_credential d st)" using assms(1,2) by (simp add: await_credential_def new_connection_def unfinished_def)
  show ?thesis
  proof (cases c)
    case (Inl e)
    then show ?thesis using start c by (simp add: run_stream_session_def refuse_def)
  next
    case (Inr k)
    have enter: "unfinished (snd (and_do (change (enter_loop tm)) (\<lambda>_. run_turns tm (at_turns a)) s))" if "unfinished s" for tm s
    proof -
      have "looping (enter_loop tm s)" using that by (simp add: looping_def unfinished_def enter_loop_def)
      from keepsD [OF looping_turns [OF assms(3)] this] show ?thesis by (simp add: and_do_def change_def looping_def)
    qed
    have "keeps unfinished (session_loop tm a (Some outage))" for tm
      unfolding session_loop_def begin_recovery_def option.case
      by (rule keeps_and_do, rule unfinished_recover, rule keeps_and_do, rule unfinished_event) (simp add: keeps_def enter)
    then have "keeps unfinished (configure env a (Some outage) k)"
      unfolding configure_def
      by (auto simp: assms(4) opened_def unfinished_def dest: assms(5) split: sum.split intro!: keeps_intros unfinished_message)
    moreover have "keeps unfinished (connect_action tm c)" for tm c
      by (auto simp: keeps_def connect_action_def unfinished_def split: connect_result.split)
    ultimately have "keeps unfinished (and_do (connect_action (se_timeouts env) (at_connect a)) (\<lambda>_. configure env a (Some outage) k))"
      by (intro keeps_intros)
    from keepsD [OF this start] show ?thesis using Inr c by (simp add: run_stream_session_def)
  qed
qed

lemma unfinished_run:
  assumes "st_controls st = []" "\<not> st_controls_closed st" "bs \<noteq> []"
    "\<forall>b\<in>set bs. at_controls b = [] \<and> (\<forall>t\<in>set (at_turns b). quiet_turn t)" "\<And>c j. se_encode env c = Inr j \<Longrightarrow> j \<noteq> []"
  shows "unfinished (snd (run_stream env bs n (Some d) st))"
  using assms(1-4)
proof (induction bs arbitrary: n d st)
  case (Cons b bs)
  obtain r st1 where s: "run_stream_session env b (Some (st_now st - d)) st = (r, st1)" by fastforce
  have ok: "unfinished st1"
    using unfinished_session [of st b env "st_now st - d"] Cons.prems assms(5) s by simp
  have onward: "unfinished (snd (run_stream env bs k (Some x) (st'\<lparr>st_paused := p, st_controls := [], st_now := t\<rparr>)))"
    if "unfinished st'" for st' k x p t
  proof (cases "bs = []")
    case False
    then show ?thesis using Cons.IH [of "st'\<lparr>st_paused := p, st_controls := [], st_now := t\<rparr>"] Cons.prems(4) that by (simp add: unfinished_def)
  qed (use that in \<open>simp add: unfinished_def\<close>)
  show ?case
  proof (cases r)
    case (Inl failure)
    have again: "unfinished (snd (case wait_for_reconnect w p of
        (Retry, paused) \<Rightarrow> run_stream env bs k (Some x) (st'\<lparr>st_paused := paused, st_controls := [], st_now := t\<rparr>)
      | (WaitWasCancelled, paused) \<Rightarrow> (Inr Returned, st'\<lparr>st_paused := paused\<rparr>)
      | (WaitFinish, paused) \<Rightarrow> (Inl failure, st'\<lparr>st_paused := paused\<rparr>)))"
      if "unfinished st'" for st' w p k x t
      using that onward [OF that] by (auto simp: unfinished_def split: prod.split reconnect_wait.split)
    obtain x where x: "(if st_connected st1 \<or> Some d = None then Some (st_now st1) else Some d) = Some x"
      by (cases "st_connected st1") auto
    have "keeps unfinished (\<lambda>st. and_do (send_event e) (\<lambda>_ st. case wait_for_reconnect (pending_wait st @ at_wait b) (st_paused st) of
        (Retry, paused) \<Rightarrow> run_stream env bs k (Some x) (st\<lparr>st_paused := paused, st_controls := [], st_now := st_now st + t\<rparr>)
      | (WaitWasCancelled, paused) \<Rightarrow> (Inr Returned, st\<lparr>st_paused := paused\<rparr>)
      | (WaitFinish, paused) \<Rightarrow> (Inl failure, st\<lparr>st_paused := paused\<rparr>)) st)" for e k t
    proof -
      have "keeps unfinished (and_do (send_event e) (\<lambda>_ st. case wait_for_reconnect (pending_wait st @ at_wait b) (st_paused st) of
          (Retry, paused) \<Rightarrow> run_stream env bs k (Some x) (st\<lparr>st_paused := paused, st_controls := [], st_now := st_now st + t\<rparr>)
        | (WaitWasCancelled, paused) \<Rightarrow> (Inr Returned, st\<lparr>st_paused := paused\<rparr>)
        | (WaitFinish, paused) \<Rightarrow> (Inl failure, st\<lparr>st_paused := paused\<rparr>)))"
        by (intro keeps_and_do unfinished_event) (simp add: keeps_def again)
      then show ?thesis by (simp add: keeps_def)
    qed
    from keepsD [OF this ok] show ?thesis
      unfolding run_stream.simps option.map s Inl Let_def prod.case sum.case x using ok by simp
  qed (use s ok in simp)
qed simp

text \<open>C19: A reconnection forgets a finish. Let a session be draining after a finish when its connection ends. This
  failure counts as retryable, so the loop of the stream announces a reconnection and goes on with the next session.
  Neither the finish, which the broken session took from its channel, nor the draining survives: on none of the
  sessions that follow is the empty frame sent that asks the provider for the end, as long as the user does not send
  another finish or drop the channel.\<close>

theorem reconnection_forgets_finish:
  assumes "run_stream_session env a (map_option (\<lambda>t. st_now st - t) disconnected_at) st = select_branch (se_timeouts env) s"
    and "st_draining s" "st_now s < st_drain_at s" "st_inbox s = IncomingEnd # later" "st_connected s"
    and "pending_wait s = []" "at_wait a = []" "st_listens s = None" "0 < to_reconnect_max_attempts (se_timeouts env)"
    and "bs \<noteq> []" "\<forall>b\<in>set bs. at_controls b = [] \<and> (\<forall>t\<in>set (at_turns b). quiet_turn t)"
    and "\<forall>c j. se_encode env c = Inr j \<longrightarrow> j \<noteq> []"
  shows "\<exists>st2. run_stream env (a # bs) n disconnected_at st = run_stream env bs 1 (Some (st_now s)) st2 \<and>
    st_events st2 = st_events s @ [Reconnecting 1 (millis_u64 (reconnect_delay (to_reconnect_base_delay (se_timeouts env)) 1))] \<and>
    TextMessage [] \<notin> set (st_sent (snd (run_stream env (a # bs) n disconnected_at st)))"
proof -
  let ?tm = "se_timeouts env"
  let ?s = "s\<lparr>st_inbox := later, st_idle_at := st_now s + to_receive_idle ?tm\<rparr>"
  have quiet: "\<not> st_cancelled s" "st_controls s = []" "\<not> st_controls_closed s"
    using assms(6) by (auto simp: pending_wait_def split: if_splits)
  have broken: "run_stream_session env a (map_option (\<lambda>t. st_now st - t) disconnected_at) st = (Inl (failure_closed None), ?s)"
    unfolding assms(1) using assms(2-4) quiet by (simp add: select_branch_def handle_incoming_def Let_def refuse_def)
  have retryable: "failure_is_retryable (failure_closed None)"
    by (simp add: failure_closed_def failure_is_retryable_def Let_def)
  let ?delay = "reconnect_delay (to_reconnect_base_delay ?tm) 1"
  let ?sent = "(event_room ?s)\<lparr>st_events := st_events s @ [Reconnecting 1 (millis_u64 ?delay)]\<rparr>"
  define st2 where "st2 = ?sent\<lparr>st_controls := [], st_now := st_now ?sent + ?delay\<rparr>"
  have "send_event (Reconnecting 1 (millis_u64 ?delay)) ?s = (Inr (), ?sent)" using assms(8) by (simp add: send_event_def)
  moreover have "pending_wait ?sent = []" using quiet by (simp add: pending_wait_def event_room_def)
  moreover have "?sent\<lparr>st_paused := st_paused ?sent, st_controls := [], st_now := st_now ?sent + ?delay\<rparr> = st2" by (simp add: st2_def)
  ultimately have run: "run_stream env (a # bs) n disconnected_at st = run_stream env bs 1 (Some (st_now s)) st2"
    using broken retryable assms(5,7,9) by (simp add: Let_def and_do_def)
  have "unfinished (snd (run_stream env bs 1 (Some (st_now s)) st2))"
    by (rule unfinished_run) (use quiet assms(10-12) in \<open>simp_all add: st2_def event_room_def\<close>)
  then show ?thesis using run by (intro exI [of _ st2]) (simp add: unfinished_def, simp add: st2_def)
qed

definition finish_turn :: turn where
  "finish_turn = (idle_turn 1)\<lparr>tu_controls := [Finish]\<rparr>"

definition demo_stream_env :: stream_env where
  "demo_stream_env =
     \<lparr>se_credential = StaticKey [], se_show = (\<lambda>_. []), se_encode = (\<lambda>_. Inr [1]), se_config = default_config,
      se_timeouts = default_timeouts\<rparr>"

definition demo_attempt :: "turn list \<Rightarrow> attempt" where
  "demo_attempt ts =
     \<lparr>at_credential = Unanswered, at_connect = ConnectOk 1, at_audio = [], at_controls = [], at_turns = ts, at_wait = []\<rparr>"

definition demo_draining :: stream_state where
  "demo_draining =
     snd (run_stream_session demo_stream_env (demo_attempt [finish_turn]) None (new_stream []))\<lparr>st_inbox := [IncomingEnd]\<rparr>"

theorem reconnection_forgets_finish_witness:
  "TextMessage [] \<in> set (st_sent demo_draining) \<and>
   TextMessage [] \<notin> set (st_sent (snd (run_stream demo_stream_env
      [demo_attempt [finish_turn, (idle_turn 0)\<lparr>tu_inbox := [IncomingEnd]\<rparr>], demo_attempt [idle_turn (from_secs 60)]] 0 None (new_stream []))))"
proof -
  note defs = demo_draining_def demo_stream_env_def demo_attempt_def run_stream_session_def credential_for_connection_def
    await_credential_def new_connection_def connect_action_def and_do_def configure_def send_message_def change_def opened_def
    session_loop_def begin_recovery_def send_event_def event_room_def enter_loop_def session_turn_def arrive_def finish_turn_def
    idle_turn_def select_branch_def still_waiting_def handle_control_def drain_queued_audio_def begin_drain_def fine_def
    new_stream_def default_timeouts_def from_secs_def
  have d: "st_draining demo_draining" "st_now demo_draining < st_drain_at demo_draining" "st_inbox demo_draining = [IncomingEnd]"
    "st_connected demo_draining" "pending_wait demo_draining = []" "st_listens demo_draining = None"
    "TextMessage [] \<in> set (st_sent demo_draining)"
    by (simp_all add: defs pending_wait_def)
  have run: "run_stream_session demo_stream_env (demo_attempt [finish_turn, (idle_turn 0)\<lparr>tu_inbox := [IncomingEnd]\<rparr>]) None (new_stream [])
      = select_branch (se_timeouts demo_stream_env) demo_draining"
    by (simp add: defs handle_incoming_def refuse_def)
  have "TextMessage [] \<notin> set (st_sent (snd (run_stream demo_stream_env
      (demo_attempt [finish_turn, (idle_turn 0)\<lparr>tu_inbox := [IncomingEnd]\<rparr>] # [demo_attempt [idle_turn (from_secs 60)]]) 0 None (new_stream []))))"
  proof -
    have "\<exists>st2. run_stream demo_stream_env (demo_attempt [finish_turn, (idle_turn 0)\<lparr>tu_inbox := [IncomingEnd]\<rparr>] #
          [demo_attempt [idle_turn (from_secs 60)]]) 0 None (new_stream []) =
        run_stream demo_stream_env [demo_attempt [idle_turn (from_secs 60)]] 1 (Some (st_now demo_draining)) st2 \<and>
      st_events st2 = st_events demo_draining @
        [Reconnecting 1 (millis_u64 (reconnect_delay (to_reconnect_base_delay (se_timeouts demo_stream_env)) 1))] \<and>
      TextMessage [] \<notin> set (st_sent (snd (run_stream demo_stream_env
        (demo_attempt [finish_turn, (idle_turn 0)\<lparr>tu_inbox := [IncomingEnd]\<rparr>] # [demo_attempt [idle_turn (from_secs 60)]]) 0 None (new_stream []))))"
      by (rule reconnection_forgets_finish [where s = demo_draining and later = "[]"])
        (use d run in \<open>simp_all only: option.map\<close>,
         simp_all add: demo_attempt_def quiet_turn_def idle_turn_def demo_stream_env_def default_timeouts_def)
    then show ?thesis by blast
  qed
  then show ?thesis using d(7) by (simp only: simp_thms)
qed

end
