(* ===== verification/Capture_Domain.thy ===== *)
theory Capture_Domain
  imports Stt_Errors
begin

text \<open>
  The vocabulary of the capture store (\<^verbatim>\<open>crates/vt-store/src/notebook_capture_store.rs\<close>): the states of a
  capture run with the text they are stored as, the transitions that are allowed, the capture profile
  and the machine utterance, and the validation of what is written. Times are text, as in the
  database. Messages of errors are kept.
\<close>

section \<open>States and their stored text\<close>

datatype store_error = StSqlite ustring | StJson ustring | StNotFound ustring | StConflict ustring | StValidation ustring | StCorruptData ustring

datatype capture_mode = TranscriptionOnly | TwoWayMode | MultilingualOneWay
datatype capture_state = Recording | CapPaused | Draining | CapCompleted | Interrupted | CapFailed
datatype remote_health = HealthOff | Connecting | Live | Degraded | Unavailable
datatype projection_state = ProjPending | Projecting | ProjReady | ProjFailed
datatype async_task_state = AtNone | AtPending | AtReserved | AtEnqueued | AtCompleted | AtFailed
datatype async_projection_state = ApNone | ApPending | ApProjecting | ApReady | ApFailed
datatype async_search_state = AsNone | AsPending | AsReady | AsFailed
datatype utterance_completion = PartialFact | CompleteFact
datatype utterance_alignment = Paired | SourceOnly | TranslationPending | OutsideLanguagePair
datatype utterance_lane = SourceLane | TranslatedLane
datatype variant_role = RoleSource | RoleTranslation
datatype variant_state = VarWaiting | VarReady | VarFailed | VarUnavailable

text \<open>The pairs of the \<^verbatim>\<open>match\<close>es in \<^verbatim>\<open>as_str\<close>; \<open>parse_text\<close> is \<^verbatim>\<open>parse\<close>, with the same pairs read backwards.\<close>

definition parse_text :: "string \<Rightarrow> ('a \<times> string) list \<Rightarrow> ustring \<Rightarrow> store_error + 'a" where
  "parse_text what table v =
     (case map_of (map (\<lambda>(a, s). (lit s, a)) table) v of
        Some a \<Rightarrow> Inr a
      | None \<Rightarrow> Inl (StCorruptData (lit ''unknown '' @ lit what @ lit '' '' @ [39] @ v @ [39])))"

definition text_of :: "('a \<times> string) list \<Rightarrow> 'a \<Rightarrow> ustring" where
  "text_of table a = (case map_of table a of Some s \<Rightarrow> lit s | None \<Rightarrow> [])"

definition capture_modes :: "(capture_mode \<times> string) list" where
  "capture_modes = [(TranscriptionOnly, ''transcription_only''), (TwoWayMode, ''two_way''), (MultilingualOneWay, ''multilingual_one_way'')]"

definition capture_states :: "(capture_state \<times> string) list" where
  "capture_states =
     [(Recording, ''recording''), (CapPaused, ''paused''), (Draining, ''draining''), (CapCompleted, ''completed''),
      (Interrupted, ''interrupted''), (CapFailed, ''failed'')]"

definition remote_healths :: "(remote_health \<times> string) list" where
  "remote_healths =
     [(HealthOff, ''off''), (Connecting, ''connecting''), (Live, ''live''), (Degraded, ''degraded''), (Unavailable, ''unavailable'')]"

definition projection_states :: "(projection_state \<times> string) list" where
  "projection_states = [(ProjPending, ''pending''), (Projecting, ''projecting''), (ProjReady, ''ready''), (ProjFailed, ''failed'')]"

definition async_task_states :: "(async_task_state \<times> string) list" where
  "async_task_states =
     [(AtNone, ''none''), (AtPending, ''pending''), (AtReserved, ''reserved''), (AtEnqueued, ''enqueued''),
      (AtCompleted, ''completed''), (AtFailed, ''failed'')]"

definition async_projection_states :: "(async_projection_state \<times> string) list" where
  "async_projection_states =
     [(ApNone, ''none''), (ApPending, ''pending''), (ApProjecting, ''projecting''), (ApReady, ''ready''), (ApFailed, ''failed'')]"

definition async_search_states :: "(async_search_state \<times> string) list" where
  "async_search_states = [(AsNone, ''none''), (AsPending, ''pending''), (AsReady, ''ready''), (AsFailed, ''failed'')]"

definition utterance_completions :: "(utterance_completion \<times> string) list" where
  "utterance_completions = [(PartialFact, ''partial''), (CompleteFact, ''complete'')]"

definition utterance_alignments :: "(utterance_alignment \<times> string) list" where
  "utterance_alignments =
     [(Paired, ''paired''), (SourceOnly, ''source_only''), (TranslationPending, ''translation_pending''),
      (OutsideLanguagePair, ''outside_language_pair'')]"

definition variant_states :: "(variant_state \<times> string) list" where
  "variant_states = [(VarWaiting, ''waiting''), (VarReady, ''ready''), (VarFailed, ''failed''), (VarUnavailable, ''unavailable'')]"

definition utterance_lanes :: "(utterance_lane \<times> string) list" where
  "utterance_lanes = [(SourceLane, ''source''), (TranslatedLane, ''translated'')]"

definition variant_roles :: "(variant_role \<times> string) list" where
  "variant_roles = [(RoleSource, ''source''), (RoleTranslation, ''translation'')]"

lemma parse_text_of:
  assumes "(a, s) \<in> set table" "distinct (map fst table)" "distinct (map snd table)"
  shows "parse_text what table (text_of table a) = Inr a"
proof -
  have "map_of table a = Some s" using assms by (simp add: map_of_eq_Some_iff)
  moreover have "distinct (map fst (map (\<lambda>(a, s). (lit s, a)) table))"
    using assms(3) by (simp add: comp_def case_prod_beta distinct_map inj_on_def)
  then have "map_of (map (\<lambda>(a, s). (lit s, a)) table) (lit s) = Some a"
    using assms(1) by (force simp: map_of_eq_Some_iff)
  ultimately show ?thesis by (simp add: parse_text_def text_of_def)
qed

section \<open>Transitions\<close>

definition is_active :: "capture_state \<Rightarrow> bool" where
  "is_active s \<longleftrightarrow> s \<in> {Recording, CapPaused, Draining}"

definition is_terminal :: "capture_state \<Rightarrow> bool" where
  "is_terminal s \<longleftrightarrow> \<not> is_active s"

definition valid_capture_transition :: "capture_state \<Rightarrow> capture_state \<Rightarrow> bool" where
  "valid_capture_transition a b \<longleftrightarrow>
     (a = Recording \<and> b = CapPaused) \<or> (a = CapPaused \<and> b = Recording) \<or>
     (a \<in> {Recording, CapPaused} \<and> b = Draining) \<or>
     (a \<in> {Recording, CapPaused, Draining} \<and> b \<in> {Interrupted, CapFailed}) \<or>
     (a = Draining \<and> b = CapCompleted)"

definition valid_projection_transition :: "projection_state \<Rightarrow> projection_state \<Rightarrow> bool" where
  "valid_projection_transition a b \<longleftrightarrow>
     (a = ProjPending \<and> b \<in> {Projecting, ProjFailed}) \<or> (a = Projecting \<and> b \<in> {ProjReady, ProjFailed}) \<or>
     (a = ProjFailed \<and> b = ProjPending)"

definition valid_async_projection_transition :: "async_projection_state \<Rightarrow> async_projection_state \<Rightarrow> bool" where
  "valid_async_projection_transition a b \<longleftrightarrow>
     (a = ApPending \<and> b = ApProjecting) \<or> (a = ApProjecting \<and> b \<in> {ApReady, ApFailed}) \<or> (a = ApFailed \<and> b = ApPending)"

section \<open>Languages\<close>

definition is_ascii_alphabetic :: "uchar \<Rightarrow> bool" where
  "is_ascii_alphabetic c \<longleftrightarrow> (65 \<le> c \<and> c \<le> 90) \<or> (97 \<le> c \<and> c \<le> 122)"

text \<open>\<^verbatim>\<open>value.split('-').next()\<close>\<close>

definition before_dash :: "ustring \<Rightarrow> ustring" where
  "before_dash v = (case split_on 45 v of [] \<Rightarrow> v | p # _ \<Rightarrow> p)"

definition canonical_language :: "ustring \<Rightarrow> ustring" where
  "canonical_language v = to_ascii_lowercase (trim (before_dash (trim v)))"

definition invalid_language :: "ustring \<Rightarrow> store_error" where
  "invalid_language v = StValidation (lit ''invalid language code '' @ [39] @ v @ [39])"

definition validate_language :: "ustring \<Rightarrow> store_error + unit" where
  "validate_language raw =
     (let v = trim raw in
      if v = [] \<or> 32 < str_len v \<or> \<not> (\<forall>c\<in>set v. c < 128) then Inl (invalid_language v)
      else
        (let parts = split_on 45 v; primary = hd parts in
         if \<not> (2 \<le> str_len primary \<and> str_len primary \<le> 3) \<or> \<not> (\<forall>c\<in>set primary. is_ascii_alphabetic c)
         then Inl (invalid_language v)
         else if \<exists>p\<in>set (tl parts). \<not> (2 \<le> str_len p \<and> str_len p \<le> 8) \<or> \<not> (\<forall>c\<in>set p. is_ascii_alphanumeric c)
         then Inl (invalid_language v)
         else Inr ()))"

definition require_nonempty :: "string \<Rightarrow> ustring \<Rightarrow> store_error + unit" where
  "require_nonempty field v =
     (if trim v = [] then Inl (StValidation (lit field @ lit '' cannot be empty'')) else Inr ())"

fun each_ok :: "('a \<Rightarrow> store_error + unit) \<Rightarrow> 'a list \<Rightarrow> store_error + unit" where
  "each_ok f [] = Inr ()"
| "each_ok f (x # xs) = and_then (f x) (\<lambda>_. each_ok f xs)"

section \<open>Profile\<close>

definition max_capture_languages :: nat where "max_capture_languages = 3"

record capture_profile =
  cp_notebook_id :: ustring
  cp_remote_realtime_enabled :: bool
  cp_capture_mode :: capture_mode
  cp_language_a :: ustring
  cp_language_b :: ustring
  cp_left_language :: ustring
  cp_right_language :: ustring
  cp_selected_languages :: "ustring list"
  cp_common_caption_language :: "ustring option"
  cp_privacy_level :: ustring
  cp_send_context_to_soniox :: bool
  cp_revision :: nat
  cp_created_at :: ustring
  cp_updated_at :: ustring

record profile_update =
  pu_remote_realtime_enabled :: bool
  pu_capture_mode :: capture_mode
  pu_language_a :: ustring
  pu_language_b :: ustring
  pu_left_language :: ustring
  pu_right_language :: ustring
  pu_selected_languages :: "ustring list"
  pu_common_caption_language :: "ustring option"
  pu_privacy_level :: ustring
  pu_send_context_to_soniox :: bool

definition legacy_capture_language_pair :: "ustring list \<Rightarrow> ustring \<times> ustring" where
  "legacy_capture_language_pair selected =
     (let language_a = (case selected of [] \<Rightarrow> lit ''en'' | a # _ \<Rightarrow> a);
          language_b = (case selected of _ # b # _ \<Rightarrow> b | _ \<Rightarrow> if language_a = lit ''en'' then lit ''zh'' else lit ''en'')
      in (language_a, language_b))"

definition capture_mode_for_selection :: "bool \<Rightarrow> nat \<Rightarrow> capture_mode" where
  "capture_mode_for_selection remote n =
     (if \<not> remote \<or> n \<le> 1 then TranscriptionOnly else if n = 2 then TwoWayMode else MultilingualOneWay)"

text \<open>The loop over the selected languages, with the ones seen so far.\<close>

fun validate_selected :: "ustring list \<Rightarrow> ustring list \<Rightarrow> store_error + unit" where
  "validate_selected seen [] = Inr ()"
| "validate_selected seen (l # ls) =
     and_then (validate_language l) (\<lambda>_.
       if canonical_language l \<noteq> l then
         Inl (StValidation (lit ''capture language '' @ [39] @ l @ [39] @ lit '' must be trimmed lowercase canonical form''))
       else if l \<in> set seen then
         Inl (StValidation (lit ''duplicate selected capture language '' @ [39] @ l @ [39]))
       else validate_selected (l # seen) ls)"

definition validate_profile_update :: "profile_update \<Rightarrow> store_error + unit" where
  "validate_profile_update u =
     (let selected = pu_selected_languages u in
      if selected = [] \<or> max_capture_languages < length selected then
        Inl (StValidation (lit ''selected capture languages must contain 1..='' @ show_nat max_capture_languages @ lit '' entries''))
      else
        and_then (validate_selected [] selected) (\<lambda>_.
          case legacy_capture_language_pair selected of (legacy_a, legacy_b) \<Rightarrow>
            if pu_language_a u \<noteq> legacy_a \<or> pu_language_b u \<noteq> legacy_b \<or> pu_left_language u \<noteq> legacy_a \<or> pu_right_language u \<noteq> legacy_b
            then Inl (StValidation (lit ''legacy capture language fields must mirror the first two selected languages''))
            else
              and_then (each_ok validate_language [pu_language_a u, pu_language_b u, pu_left_language u, pu_right_language u]) (\<lambda>_.
                if pu_common_caption_language u \<noteq> None then
                  Inl (StValidation (lit ''capture profiles must use equal selected-language lanes''))
                else
                  (let expected = capture_mode_for_selection (pu_remote_realtime_enabled u) (length selected) in
                   if pu_capture_mode u \<noteq> expected then
                     Inl (StValidation (lit ''capture mode must be '' @ text_of capture_modes expected @ lit '' for '' @
                       show_nat (length selected) @ lit '' selected language(s) with remote realtime '' @
                       (if pu_remote_realtime_enabled u then lit ''enabled'' else lit ''disabled'')))
                   else if pu_privacy_level u \<notin> set (map lit [''standard'', ''high'', ''maximum'']) then
                     Inl (StValidation (lit ''capture privacy level must be standard, high, or maximum''))
                   else if pu_send_context_to_soniox u \<and> \<not> pu_remote_realtime_enabled u then
                     Inl (StValidation (lit ''sending Context to Soniox requires explicit remote realtime processing''))
                   else Inr ()))))"

section \<open>Runs and utterances\<close>

record new_capture_run =
  nr_id :: ustring
  nr_notebook_id :: ustring
  nr_session_id :: ustring
  nr_remote_health :: remote_health
  nr_audio_journal_path :: ustring
  nr_audio_key_ref :: ustring
  nr_sample_rate :: nat
  nr_channels :: nat

definition validate_new_run :: "new_capture_run \<Rightarrow> store_error + unit" where
  "validate_new_run i =
     and_then (each_ok (\<lambda>(f, v). require_nonempty f v)
       [(''id'', nr_id i), (''notebook_id'', nr_notebook_id i), (''session_id'', nr_session_id i),
        (''audio_journal_path'', nr_audio_journal_path i), (''audio_key_ref'', nr_audio_key_ref i)]) (\<lambda>_.
       if nr_sample_rate i = 0 \<or> nr_channels i = 0
       then Inl (StValidation (lit ''sample_rate and channels must be positive'')) else Inr ())"

definition update_of_profile :: "capture_profile \<Rightarrow> profile_update" where
  "update_of_profile p =
     \<lparr>pu_remote_realtime_enabled = cp_remote_realtime_enabled p, pu_capture_mode = cp_capture_mode p,
      pu_language_a = cp_language_a p, pu_language_b = cp_language_b p, pu_left_language = cp_left_language p,
      pu_right_language = cp_right_language p, pu_selected_languages = cp_selected_languages p,
      pu_common_caption_language = cp_common_caption_language p, pu_privacy_level = cp_privacy_level p,
      pu_send_context_to_soniox = cp_send_context_to_soniox p\<rparr>"

definition validate_authorized_profile_snapshot :: "new_capture_run \<Rightarrow> capture_profile \<Rightarrow> store_error + unit" where
  "validate_authorized_profile_snapshot i p =
     (if cp_notebook_id p \<noteq> nr_notebook_id i then
        Inl (StValidation (lit ''capture profile '' @ cp_notebook_id p @ lit '' does not authorize notebook '' @ nr_notebook_id i))
      else
        and_then (require_nonempty ''profile created_at'' (cp_created_at p)) (\<lambda>_.
        and_then (require_nonempty ''profile updated_at'' (cp_updated_at p)) (\<lambda>_.
        validate_profile_update (update_of_profile p))))"

record new_utterance =
  nu_id :: ustring
  nu_session_id :: ustring
  nu_sequence :: nat
  nu_session_speaker_id :: "ustring option"
  nu_source_language :: ustring
  nu_source_text :: ustring
  nu_source_start_ms :: "nat option"
  nu_source_end_ms :: "nat option"
  nu_translated_language :: "ustring option"
  nu_translated_text :: "ustring option"
  nu_completion :: utterance_completion
  nu_alignment :: utterance_alignment

definition validate_utterance :: "new_utterance \<Rightarrow> store_error + unit" where
  "validate_utterance i =
     and_then (each_ok (\<lambda>(f, v). require_nonempty f v)
       [(''utterance id'', nu_id i), (''session id'', nu_session_id i), (''source language'', nu_source_language i)]) (\<lambda>_.
     and_then (validate_language (nu_source_language i)) (\<lambda>_.
     and_then (case nu_translated_language i of None \<Rightarrow> Inr () | Some l \<Rightarrow> validate_language l) (\<lambda>_.
       if (nu_translated_language i \<noteq> None) \<noteq> (nu_translated_text i \<noteq> None) then
         Inl (StValidation (lit ''translated language and text must be present together''))
       else if (case nu_translated_language i of None \<Rightarrow> False
                | Some l \<Rightarrow> canonical_language l = canonical_language (nu_source_language i)) then
         Inl (StValidation (lit ''translated language must differ from the source language''))
       else if (nu_alignment i = Paired) \<noteq> (nu_translated_text i \<noteq> None) then
         Inl (StValidation (lit ''only paired utterances may contain a translated lane''))
       else if (case (nu_source_start_ms i, nu_source_end_ms i) of (Some s, Some e) \<Rightarrow> e < s | _ \<Rightarrow> False) then
         Inl (StValidation (lit ''source timestamp range is reversed''))
       else Inr ())))"

definition validate_variant_payload ::
    "ustring option \<Rightarrow> variant_state \<Rightarrow> utterance_completion option \<Rightarrow> store_error + unit" where
  "validate_variant_payload body state completion =
     (if (state = VarReady) \<noteq> (body \<noteq> None) \<or> (state = VarReady) \<noteq> (completion \<noteq> None) then
        Inl (StValidation (lit ''ready variants require text and completion; non-ready variants require neither''))
      else Inr ())"

end
