(* ===== verification/Capture_Assembler.thy ===== *)
theory Capture_Assembler
  imports Capture_Domain Stt_Stream
begin

text \<open>
  \<^verbatim>\<open>RealtimeUtteranceAssembler\<close> of \<^verbatim>\<open>crates/vt-ffi/src/notebook_capture_api.rs\<close>: it turns the tokens of one
  recognition stream into utterances. Final tokens are kept; the others are the speculative tail of the
  latest response and are replaced by the next one. Source tokens go to the current segment, which
  is closed when a final token has another language or speaker; translation tokens are attached to a
  segment by identity. Positions in the list of segments are those of the source; that they are in
  range is part of the invariant (\<open>Capture_Assembler_Laws\<close>), so the indexing never panics.
\<close>

section \<open>Identity\<close>

definition normalize_language :: "ustring \<Rightarrow> ustring" where
  "normalize_language v = to_ascii_lowercase (trim (before_dash v))"

definition normalized_optional_language :: "ustring option \<Rightarrow> ustring option" where
  "normalized_optional_language v =
     (case map_option normalize_language v of
        Some l \<Rightarrow> if l \<noteq> [] \<and> l \<noteq> lit ''und'' then Some l else None
      | None \<Rightarrow> None)"

definition normalized_provider_speaker :: "ustring option \<Rightarrow> ustring option" where
  "normalized_provider_speaker v =
     (case map_option trim v of Some s \<Rightarrow> if s \<noteq> [] then Some s else None | None \<Rightarrow> None)"

definition identified :: "ustring option \<Rightarrow> ustring option" where
  "identified v = (case v of Some x \<Rightarrow> if x \<noteq> lit ''und'' then Some x else None | None \<Rightarrow> None)"

definition identity_conflicts :: "ustring option \<Rightarrow> ustring option \<Rightarrow> bool" where
  "identity_conflicts current arriving =
     (case (identified current, identified arriving) of (Some a, Some b) \<Rightarrow> a \<noteq> b | _ \<Rightarrow> False)"

definition optional_identity_compatible :: "ustring option \<Rightarrow> ustring option \<Rightarrow> bool" where
  "optional_identity_compatible current arriving \<longleftrightarrow> \<not> identity_conflicts current arriving"

text \<open>\<^verbatim>\<open>Option::or\<close>\<close>

definition or_else :: "'a option \<Rightarrow> 'a option \<Rightarrow> 'a option" where
  "or_else x y = (case x of None \<Rightarrow> y | Some _ \<Rightarrow> x)"

section \<open>Lanes\<close>

record lane_revision =
  lv_committed :: ustring
  lv_pending :: ustring
  lv_committed_language :: "ustring option"
  lv_pending_language :: "ustring option"
  lv_pending_language_ambiguous :: bool

definition new_lane :: lane_revision where
  "new_lane =
     \<lparr>lv_committed = [], lv_pending = [], lv_committed_language = None, lv_pending_language = None,
      lv_pending_language_ambiguous = False\<rparr>"

definition begin_lane_response :: "lane_revision \<Rightarrow> bool \<times> lane_revision" where
  "begin_lane_response l =
     (lv_pending l \<noteq> [] \<or> lv_pending_language l \<noteq> None \<or> lv_pending_language_ambiguous l,
      l\<lparr>lv_pending := [], lv_pending_language := None, lv_pending_language_ambiguous := False\<rparr>)"

definition push_token :: "stream_token \<Rightarrow> ustring option \<Rightarrow> lane_revision \<Rightarrow> lane_revision" where
  "push_token token language l =
     (if tk_is_final token then
        l\<lparr>lv_committed := lv_committed l @ tk_text token,
          lv_committed_language := (if language \<noteq> None then language else lv_committed_language l)\<rparr>
      else
        (let l = l\<lparr>lv_pending := lv_pending l @ tk_text token\<rparr> in
         case (language, lv_pending_language l) of
           (None, _) \<Rightarrow> l
         | (Some new, Some current) \<Rightarrow> if current \<noteq> new then l\<lparr>lv_pending_language_ambiguous := True\<rparr> else l
         | (Some new, None) \<Rightarrow> l\<lparr>lv_pending_language := Some new\<rparr>))"

definition unambiguous_pending_language :: "lane_revision \<Rightarrow> ustring option" where
  "unambiguous_pending_language l = (if lv_pending_language_ambiguous l then None else lv_pending_language l)"

definition take_pending :: "lane_revision \<Rightarrow> lane_revision \<times> lane_revision" where
  "take_pending l =
     (\<lparr>lv_committed = [], lv_pending = lv_pending l, lv_committed_language = None,
       lv_pending_language = lv_pending_language l, lv_pending_language_ambiguous = lv_pending_language_ambiguous l\<rparr>,
      l\<lparr>lv_pending := [], lv_pending_language := None, lv_pending_language_ambiguous := False\<rparr>)"

definition lane_text :: "bool \<Rightarrow> lane_revision \<Rightarrow> ustring" where
  "lane_text include_pending l = (if include_pending then lv_committed l @ lv_pending l else lv_committed l)"

definition lane_is_empty :: "lane_revision \<Rightarrow> bool" where
  "lane_is_empty l \<longleftrightarrow> lv_committed l = [] \<and> lv_pending l = []"

section \<open>Segments\<close>

record segment =
  sg_id :: ustring
  sg_sequence :: nat
  sg_source :: lane_revision
  sg_translated :: lane_revision
  sg_committed_speaker :: "ustring option"
  sg_pending_speaker :: "ustring option"
  sg_pending_speaker_ambiguous :: bool
  sg_committed_language_hint :: "ustring option"
  sg_pending_language_hint :: "ustring option"
  sg_committed_speaker_hint :: "ustring option"
  sg_pending_speaker_hint :: "ustring option"
  sg_committed_start_ms :: "nat option"
  sg_committed_end_ms :: "nat option"
  sg_pending_start_ms :: "nat option"
  sg_pending_end_ms :: "nat option"
  sg_persisted_translation_language :: "ustring option"
  sg_revision :: "nat option"
  sg_complete :: bool
  sg_source_dirty :: bool
  sg_translation_dirty :: bool

definition segment_id :: "ustring \<Rightarrow> nat \<Rightarrow> ustring" where
  "segment_id session_id sequence = session_id @ lit '':'' @ show_nat sequence"

definition new_segment :: "ustring \<Rightarrow> nat \<Rightarrow> segment" where
  "new_segment session_id sequence =
     \<lparr>sg_id = segment_id session_id sequence, sg_sequence = sequence, sg_source = new_lane, sg_translated = new_lane,
      sg_committed_speaker = None, sg_pending_speaker = None, sg_pending_speaker_ambiguous = False,
      sg_committed_language_hint = None, sg_pending_language_hint = None, sg_committed_speaker_hint = None,
      sg_pending_speaker_hint = None, sg_committed_start_ms = None, sg_committed_end_ms = None,
      sg_pending_start_ms = None, sg_pending_end_ms = None, sg_persisted_translation_language = None,
      sg_revision = None, sg_complete = False, sg_source_dirty = False, sg_translation_dirty = False\<rparr>"

definition lane_of_segment_empty :: "segment \<Rightarrow> bool" where
  "lane_of_segment_empty s \<longleftrightarrow> lane_is_empty (sg_source s) \<and> lane_is_empty (sg_translated s)"

definition begin_segment_response :: "segment \<Rightarrow> segment" where
  "begin_segment_response s =
     (case (begin_lane_response (sg_source s), begin_lane_response (sg_translated s)) of
        ((source_revised, source), (translation_changed, translated)) \<Rightarrow>
          let source_changed = source_revised \<or> sg_pending_start_ms s \<noteq> None \<or> sg_pending_end_ms s \<noteq> None
          in s\<lparr>sg_source := source, sg_translated := translated, sg_pending_start_ms := None, sg_pending_end_ms := None,
              sg_pending_speaker := None, sg_pending_language_hint := None, sg_pending_speaker_hint := None,
              sg_pending_speaker_ambiguous := False, sg_source_dirty := sg_source_dirty s \<or> source_changed,
              sg_translation_dirty :=
                sg_translation_dirty s \<or> translation_changed \<or> source_changed \<and> \<not> lane_is_empty translated\<rparr>)"

definition stable_source_language :: "segment \<Rightarrow> ustring option" where
  "stable_source_language s = or_else (lv_committed_language (sg_source s)) (sg_committed_language_hint s)"

definition matching_source_language :: "segment \<Rightarrow> ustring option" where
  "matching_source_language s =
     or_else (lv_committed_language (sg_source s)) (or_else (sg_committed_language_hint s)
       (or_else (unambiguous_pending_language (sg_source s)) (sg_pending_language_hint s)))"

definition stable_provider_speaker :: "segment \<Rightarrow> ustring option" where
  "stable_provider_speaker s = sg_committed_speaker s"

definition unambiguous_pending_speaker :: "segment \<Rightarrow> ustring option" where
  "unambiguous_pending_speaker s = (if sg_pending_speaker_ambiguous s then None else sg_pending_speaker s)"

definition matching_provider_speaker :: "segment \<Rightarrow> ustring option" where
  "matching_provider_speaker s =
     or_else (sg_committed_speaker s) (or_else (sg_committed_speaker_hint s)
       (or_else (unambiguous_pending_speaker s) (sg_pending_speaker_hint s)))"

definition source_language :: "segment \<Rightarrow> ustring" where
  "source_language s = (case stable_source_language s of None \<Rightarrow> lit ''und'' | Some l \<Rightarrow> l)"

definition pending_source_matches_committed_identity :: "segment \<Rightarrow> bool" where
  "pending_source_matches_committed_identity s =
     (let stable_language = stable_source_language s;
          language_is_safe =
            (stable_language = None \<or>
             \<not> lv_pending_language_ambiguous (sg_source s) \<and>
             \<not> identity_conflicts stable_language (unambiguous_pending_language (sg_source s)));
          stable_speaker = or_else (sg_committed_speaker s) (sg_committed_speaker_hint s);
          speaker_is_safe =
            (stable_speaker = None \<or>
             \<not> sg_pending_speaker_ambiguous s \<and> \<not> identity_conflicts stable_speaker (sg_pending_speaker s))
      in language_is_safe \<and> speaker_is_safe)"

definition has_source_text :: "segment \<Rightarrow> bool" where
  "has_source_text s \<longleftrightarrow> \<not> lane_is_empty (sg_source s)"

section \<open>The assembler\<close>

record assembler =
  as_session_id :: ustring
  as_selected_languages :: "ustring set"
  as_capture_mode :: capture_mode
  as_common_caption_language :: "ustring option"
  as_next_sequence :: nat
  as_segments :: "segment list"
  as_latest_original :: "nat option"
  as_latest_translation :: "nat option"
  as_unattached :: nat

definition new_assembler :: "ustring \<Rightarrow> capture_profile \<Rightarrow> assembler" where
  "new_assembler session_id profile =
     \<lparr>as_session_id = session_id, as_selected_languages = set (map normalize_language (cp_selected_languages profile)),
      as_capture_mode = cp_capture_mode profile,
      as_common_caption_language = map_option normalize_language (cp_common_caption_language profile),
      as_next_sequence = 0, as_segments = [], as_latest_original = None, as_latest_translation = None, as_unattached = 0\<rparr>"

definition create_segment :: "assembler \<Rightarrow> nat \<times> assembler" where
  "create_segment a =
     (length (as_segments a),
      a\<lparr>as_next_sequence := sat_u64_add (as_next_sequence a) 1,
        as_segments := as_segments a @ [new_segment (as_session_id a) (as_next_sequence a)]\<rparr>)"

definition update_segment :: "nat \<Rightarrow> (segment \<Rightarrow> segment) \<Rightarrow> assembler \<Rightarrow> assembler" where
  "update_segment i f a = a\<lparr>as_segments := (as_segments a)[i := f (as_segments a ! i)]\<rparr>"

text \<open>\<^verbatim>\<open>Iterator::rposition\<close>\<close>

fun rposition :: "('a \<Rightarrow> bool) \<Rightarrow> 'a list \<Rightarrow> nat option" where
  "rposition P [] = None"
| "rposition P (x # xs) = (case rposition P xs of Some i \<Rightarrow> Some (Suc i) | None \<Rightarrow> if P x then Some 0 else None)"

definition close_segment :: "segment \<Rightarrow> segment" where
  "close_segment s = s\<lparr>sg_complete := True, sg_source_dirty := True, sg_translation_dirty := True\<rparr>"

definition source_segment_for_token :: "bool \<Rightarrow> ustring option \<Rightarrow> ustring option \<Rightarrow> assembler \<Rightarrow> nat \<times> assembler" where
  "source_segment_for_token is_final language speaker a =
     (case (case as_latest_original a of
              Some i \<Rightarrow> if sg_complete (as_segments a ! i) then None else Some i
            | None \<Rightarrow> None) of
        None \<Rightarrow>
          (case (if speaker = None then None
                 else rposition (\<lambda>s. \<not> sg_complete s \<and> \<not> has_source_text s \<and> matching_provider_speaker s = speaker)
                        (as_segments a)) of
             Some i \<Rightarrow> (i, a)
           | None \<Rightarrow> create_segment a)
      | Some current \<Rightarrow>
          (let s = as_segments a ! current in
           if is_final \<and> has_source_text s \<and>
              (identity_conflicts (stable_source_language s) language \<or> identity_conflicts (stable_provider_speaker s) speaker)
           then create_segment (update_segment current close_segment a)
           else (current, a)))"

definition min_of :: "nat option \<Rightarrow> nat option \<Rightarrow> nat option" where
  "min_of x arriving =
     (case arriving of None \<Rightarrow> x | Some n \<Rightarrow> Some (case x of None \<Rightarrow> n | Some c \<Rightarrow> min c n))"

definition max_of :: "nat option \<Rightarrow> nat option \<Rightarrow> nat option" where
  "max_of x arriving =
     (case arriving of None \<Rightarrow> x | Some n \<Rightarrow> Some (case x of None \<Rightarrow> n | Some c \<Rightarrow> max c n))"

text \<open>What an original token does to its segment.\<close>

definition note_speaker :: "bool \<Rightarrow> ustring option \<Rightarrow> segment \<Rightarrow> segment" where
  "note_speaker is_final speaker s =
     (if is_final then s\<lparr>sg_committed_speaker := (if speaker \<noteq> None then speaker else sg_committed_speaker s)\<rparr>
      else
        (case (speaker, sg_pending_speaker s) of
           (None, _) \<Rightarrow> s
         | (Some new, Some current) \<Rightarrow> if current \<noteq> new then s\<lparr>sg_pending_speaker_ambiguous := True\<rparr> else s
         | (Some new, None) \<Rightarrow> s\<lparr>sg_pending_speaker := Some new\<rparr>))"

definition note_times :: "stream_token \<Rightarrow> segment \<Rightarrow> segment" where
  "note_times token s =
     (if tk_is_final token
      then s\<lparr>sg_committed_start_ms := min_of (sg_committed_start_ms s) (tk_start_ms token),
             sg_committed_end_ms := max_of (sg_committed_end_ms s) (tk_end_ms token)\<rparr>
      else s\<lparr>sg_pending_start_ms := min_of (sg_pending_start_ms s) (tk_start_ms token),
             sg_pending_end_ms := max_of (sg_pending_end_ms s) (tk_end_ms token)\<rparr>)"

definition push_original :: "stream_token \<Rightarrow> ustring option \<Rightarrow> ustring option \<Rightarrow> segment \<Rightarrow> segment" where
  "push_original token language speaker s =
     (note_times token (note_speaker (tk_is_final token) speaker
        (s\<lparr>sg_source := push_token token language (sg_source s)\<rparr>)))\<lparr>sg_source_dirty := True\<rparr>"

definition apply_original_token :: "stream_token \<Rightarrow> assembler \<Rightarrow> assembler" where
  "apply_original_token token a =
     (let language = normalized_optional_language (or_else (tk_language token) (tk_source_language token));
          speaker = normalized_provider_speaker (tk_speaker token)
      in case source_segment_for_token (tk_is_final token) language speaker a of
           (i, a) \<Rightarrow> (update_segment i (push_original token language speaker) a)\<lparr>as_latest_original := Some i\<rparr>)"

definition compatible_segments :: "ustring option \<Rightarrow> ustring option \<Rightarrow> segment list \<Rightarrow> nat list" where
  "compatible_segments speaker language segments =
     map fst (filter (\<lambda>(_, s). has_source_text s \<and> optional_identity_compatible (matching_provider_speaker s) speaker \<and>
                        optional_identity_compatible (matching_source_language s) language) (enumerate 0 segments))"

definition translation_segment :: "ustring option \<Rightarrow> ustring option \<Rightarrow> assembler \<Rightarrow> nat option" where
  "translation_segment speaker language a =
     (case compatible_segments speaker language (as_segments a) of
        [] \<Rightarrow> None
      | [only] \<Rightarrow> Some only
      | first # rest \<Rightarrow>
          if speaker = None \<or> language = None then None
          else
            (case as_latest_translation a of
               Some current \<Rightarrow>
                 if current \<in> set (first # rest) then Some current
                 else (case find (\<lambda>i. current < i) (first # rest) of Some i \<Rightarrow> Some i | None \<Rightarrow> Some first)
             | None \<Rightarrow> Some first))"

text \<open>What a translation token does to its segment.\<close>

definition push_translation :: "stream_token \<Rightarrow> ustring option \<Rightarrow> ustring option \<Rightarrow> segment \<Rightarrow> segment" where
  "push_translation token language speaker s =
     (let s = s\<lparr>sg_translated := push_token token (normalized_optional_language (tk_language token)) (sg_translated s)\<rparr>;
          s = (case language of
                 None \<Rightarrow> s
               | Some l \<Rightarrow>
                   if tk_is_final token then
                     s\<lparr>sg_committed_language_hint := Some l,
                       sg_source_dirty :=
                         sg_source_dirty s \<or>
                         lv_committed_language (sg_source s) = None \<and> sg_committed_language_hint s \<noteq> Some l\<rparr>
                   else s\<lparr>sg_pending_language_hint := Some l\<rparr>);
          s = (case speaker of
                 None \<Rightarrow> s
               | Some p \<Rightarrow>
                   if tk_is_final token then s\<lparr>sg_committed_speaker_hint := Some p\<rparr>
                   else s\<lparr>sg_pending_speaker_hint := Some p\<rparr>)
      in s\<lparr>sg_translation_dirty := True\<rparr>)"

definition apply_translation_token :: "stream_token \<Rightarrow> assembler \<Rightarrow> assembler" where
  "apply_translation_token token a =
     (let speaker = normalized_provider_speaker (tk_speaker token);
          language = normalized_optional_language (tk_source_language token)
      in case translation_segment speaker language a of
           None \<Rightarrow> a\<lparr>as_unattached := sat_u64_add (as_unattached a) 1\<rparr>
         | Some i \<Rightarrow> update_segment i (push_translation token language speaker) (a\<lparr>as_latest_translation := Some i\<rparr>))"

section \<open>What is published\<close>

record assembled_utterance =
  au_utterance :: new_utterance
  au_provisional_source_language :: "ustring option"
  au_source_dirty :: bool
  au_translation_dirty :: bool
  au_translation_completion :: "utterance_completion option"
  au_translation_clear_language :: "ustring option"
  au_remove_partial :: bool
  au_provider_speaker :: "ustring option"
  au_expected_revision :: "nat option"

definition translation_expected :: "assembler \<Rightarrow> ustring \<Rightarrow> bool" where
  "translation_expected a source =
     (let source_is_selected = source \<in> as_selected_languages a; source_is_unknown = source = lit ''und'' in
      case as_capture_mode a of
        TranscriptionOnly \<Rightarrow> False
      | TwoWayMode \<Rightarrow> source_is_selected \<and> \<not> source_is_unknown
      | MultilingualOneWay \<Rightarrow>
          source_is_selected \<and> \<not> source_is_unknown \<and>
          (case as_common_caption_language a of None \<Rightarrow> False | Some target \<Rightarrow> target \<noteq> source))"

definition translation_pairable :: "assembler \<Rightarrow> ustring \<Rightarrow> ustring option \<Rightarrow> bool" where
  "translation_pairable a source candidate =
     (translation_expected a source \<and>
      (case candidate of
         None \<Rightarrow> False
       | Some l \<Rightarrow>
           (case as_capture_mode a of
              TranscriptionOnly \<Rightarrow> False
            | TwoWayMode \<Rightarrow> l \<noteq> source \<and> l \<in> as_selected_languages a
            | MultilingualOneWay \<Rightarrow> as_common_caption_language a = Some l)))"

definition combine :: "(nat \<Rightarrow> nat \<Rightarrow> nat) \<Rightarrow> nat option \<Rightarrow> nat option \<Rightarrow> nat option" where
  "combine f committed pending =
     (case (committed, pending) of (Some c, Some p) \<Rightarrow> Some (f c p) | _ \<Rightarrow> or_else committed pending)"

definition translated_lane_text :: "assembler \<Rightarrow> segment \<Rightarrow> ustring option" where
  "translated_lane_text a s =
     (let include_pending =
            \<not> identity_conflicts (lv_committed_language (sg_translated s)) (unambiguous_pending_language (sg_translated s));
          candidate = or_else (lv_committed_language (sg_translated s)) (unambiguous_pending_language (sg_translated s));
          source_text = lane_text (pending_source_matches_committed_identity s) (sg_source s)
      in if source_text \<noteq> [] \<and> translation_pairable a (source_language s) candidate
         then (let t = lane_text include_pending (sg_translated s) in if t = [] then None else Some t)
         else None)"

definition assemble_segment :: "assembler \<Rightarrow> segment \<Rightarrow> bool \<Rightarrow> bool \<Rightarrow> assembled_utterance" where
  "assemble_segment a s source_dirty translation_dirty =
     (let include_pending_source = pending_source_matches_committed_identity s;
          source_text = lane_text include_pending_source (sg_source s);
          source = source_language s;
          source_is_unknown = source = lit ''und'';
          provisional =
            (if source_is_unknown then normalized_optional_language (matching_source_language s) else None);
          outside_pair = (\<not> source_is_unknown \<and> source \<notin> as_selected_languages a);
          translated_text = translated_lane_text a s;
          candidate = or_else (lv_committed_language (sg_translated s)) (unambiguous_pending_language (sg_translated s));
          translated_language = (if translated_text = None then None else candidate);
          source_completion =
            (if sg_complete s \<and> lv_committed (sg_source s) \<noteq> [] \<and> lv_pending (sg_source s) = []
             then CompleteFact else PartialFact);
          translation_completion =
            (if translated_text = None then None
             else if source_text \<noteq> [] \<and> sg_complete s \<and> lv_committed (sg_translated s) \<noteq> [] \<and>
                     lv_pending (sg_translated s) = []
             then Some CompleteFact else Some PartialFact);
          alignment =
            (if translated_text \<noteq> None then Paired
             else if outside_pair then OutsideLanguagePair
             else if translation_expected a source \<and> \<not> sg_complete s then TranslationPending
             else SourceOnly)
      in \<lparr>au_utterance =
            \<lparr>nu_id = sg_id s, nu_session_id = as_session_id a, nu_sequence = sg_sequence s, nu_session_speaker_id = None,
             nu_source_language = source, nu_source_text = source_text,
             nu_source_start_ms =
               combine min (sg_committed_start_ms s) (if include_pending_source then sg_pending_start_ms s else None),
             nu_source_end_ms =
               combine max (sg_committed_end_ms s) (if include_pending_source then sg_pending_end_ms s else None),
             nu_translated_language = translated_language, nu_translated_text = translated_text,
             nu_completion = source_completion, nu_alignment = alignment\<rparr>,
          au_provisional_source_language = provisional, au_source_dirty = source_dirty,
          au_translation_dirty = translation_dirty, au_translation_completion = translation_completion,
          au_translation_clear_language =
            (if translation_dirty \<and> translated_text = None then sg_persisted_translation_language s else None),
          au_remove_partial = (sg_revision s \<noteq> None \<and> source_text = []),
          au_provider_speaker = sg_committed_speaker s, au_expected_revision = sg_revision s\<rparr>)"

definition withheld :: "segment \<Rightarrow> bool" where
  "withheld s \<longleftrightarrow>
     (\<not> sg_complete s \<and> stable_source_language s = None \<and> sg_persisted_translation_language s = None \<and> sg_revision s = None) \<or>
     (lane_text (pending_source_matches_committed_identity s) (sg_source s) = [] \<and> sg_revision s = None \<and>
      sg_persisted_translation_language s = None)"

definition clean_segment :: "segment \<Rightarrow> segment" where
  "clean_segment s = s\<lparr>sg_source_dirty := False, sg_translation_dirty := False\<rparr>"

definition dirty_update :: "assembler \<Rightarrow> segment \<Rightarrow> assembled_utterance option" where
  "dirty_update a s =
     (if \<not> sg_source_dirty s \<and> \<not> sg_translation_dirty s then None
      else if withheld s then None
      else Some (assemble_segment a (clean_segment s) (sg_source_dirty s) (sg_translation_dirty s)))"

definition take_dirty_updates :: "assembler \<Rightarrow> assembled_utterance list \<times> assembler" where
  "take_dirty_updates a =
     (List.map_filter (dirty_update a) (as_segments a), a\<lparr>as_segments := map clean_segment (as_segments a)\<rparr>)"

definition live_previews :: "assembler \<Rightarrow> assembled_utterance list" where
  "live_previews a =
     map (\<lambda>s. assemble_segment a s False False)
       (filter (\<lambda>s. \<not> sg_complete s \<and> \<not> lane_of_segment_empty s) (as_segments a))"

section \<open>The calls\<close>

definition is_original :: "stream_token \<Rightarrow> bool" where
  "is_original t \<longleftrightarrow> tk_status t \<in> {TsOriginal, TsNone}"

definition apply_tokens :: "stream_token list \<Rightarrow> assembler \<Rightarrow> assembled_utterance list \<times> assembler" where
  "apply_tokens tokens a =
     (let a = a\<lparr>as_segments := map begin_segment_response (as_segments a)\<rparr>;
          a = fold apply_original_token (filter is_original tokens) a;
          a = fold apply_translation_token (filter (\<lambda>t. tk_status t = TsTranslation) tokens) a
      in take_dirty_updates a)"

text \<open>The speculative tail that contradicts the identity of its segment becomes a segment of its own.\<close>

definition must_detach :: "segment \<Rightarrow> bool" where
  "must_detach s \<longleftrightarrow> lv_pending (sg_source s) \<noteq> [] \<and> \<not> pending_source_matches_committed_identity s"

definition without_tail :: "segment \<Rightarrow> segment" where
  "without_tail s =
     s\<lparr>sg_source := snd (take_pending (sg_source s)), sg_translated := snd (take_pending (sg_translated s)),
       sg_pending_speaker := None, sg_pending_speaker_ambiguous := False, sg_pending_language_hint := None,
       sg_pending_speaker_hint := None, sg_pending_start_ms := None, sg_pending_end_ms := None,
       sg_source_dirty := True, sg_translation_dirty := True\<rparr>"

definition with_tail :: "segment \<Rightarrow> segment \<Rightarrow> segment" where
  "with_tail s new =
     new\<lparr>sg_source := fst (take_pending (sg_source s)), sg_translated := fst (take_pending (sg_translated s)),
         sg_pending_speaker := sg_pending_speaker s, sg_pending_speaker_ambiguous := sg_pending_speaker_ambiguous s,
         sg_pending_language_hint := sg_pending_language_hint s, sg_pending_speaker_hint := sg_pending_speaker_hint s,
         sg_pending_start_ms := sg_pending_start_ms s, sg_pending_end_ms := sg_pending_end_ms s,
         sg_complete := True, sg_source_dirty := True, sg_translation_dirty := True\<rparr>"

definition append_tail :: "segment \<Rightarrow> assembler \<Rightarrow> assembler" where
  "append_tail s a = (case create_segment a of (i, a) \<Rightarrow> update_segment i (with_tail s) a)"

definition finish_segment :: "segment \<Rightarrow> segment" where
  "finish_segment s = (if \<not> lane_of_segment_empty s \<and> \<not> sg_complete s then close_segment s else s)"

definition finalize :: "assembler \<Rightarrow> assembled_utterance list \<times> assembler" where
  "finalize a =
     (let detached = filter must_detach (as_segments a);
          a = a\<lparr>as_segments := map (\<lambda>s. if must_detach s then without_tail s else s) (as_segments a)\<rparr>;
          a = fold append_tail detached a
      in take_dirty_updates (a\<lparr>as_segments := map finish_segment (as_segments a)\<rparr>))"

definition advance :: "assembler \<Rightarrow> assembler" where
  "advance a = a\<lparr>as_segments := [], as_latest_original := None, as_latest_translation := None, as_unattached := 0\<rparr>"

text \<open>\<^verbatim>\<open>iter_mut().find(|segment| segment.id == id)\<close> and a change of what is found.\<close>

definition on_segment :: "ustring \<Rightarrow> (segment \<Rightarrow> segment) \<Rightarrow> assembler \<Rightarrow> assembler" where
  "on_segment i f a = (case position (\<lambda>s. sg_id s = i) (as_segments a) of None \<Rightarrow> a | Some k \<Rightarrow> update_segment k f a)"

definition record_persisted :: "ustring \<Rightarrow> nat \<Rightarrow> assembler \<Rightarrow> assembler" where
  "record_persisted i revision = on_segment i (\<lambda>s. s\<lparr>sg_revision := Some revision\<rparr>)"

definition record_translation_persisted :: "ustring \<Rightarrow> ustring option \<Rightarrow> assembler \<Rightarrow> assembler" where
  "record_translation_persisted i language =
     on_segment i (\<lambda>s. s\<lparr>sg_persisted_translation_language := map_option normalize_language language\<rparr>)"

definition relinquish_inline_translation_lane :: "ustring \<Rightarrow> ustring \<Rightarrow> assembler \<Rightarrow> assembler" where
  "relinquish_inline_translation_lane i language =
     on_segment i (\<lambda>s. if sg_persisted_translation_language s = Some (normalize_language language)
                       then s\<lparr>sg_persisted_translation_language := None\<rparr> else s)"

definition record_partial_removed :: "ustring \<Rightarrow> assembler \<Rightarrow> assembler" where
  "record_partial_removed i = on_segment i (\<lambda>s. s\<lparr>sg_revision := None, sg_persisted_translation_language := None\<rparr>)"

definition retired :: "segment \<Rightarrow> segment" where
  "retired s =
     s\<lparr>sg_revision := None, sg_persisted_translation_language := None, sg_complete := True, sg_source_dirty := False,
       sg_translation_dirty := False\<rparr>"

definition retire_source_segment :: "ustring \<Rightarrow> assembler \<Rightarrow> assembler" where
  "retire_source_segment i a =
     (case position (\<lambda>s. sg_id s = i) (as_segments a) of
        None \<Rightarrow> a
      | Some k \<Rightarrow>
          (update_segment k retired a)
            \<lparr>as_latest_original := (if as_latest_original a = Some k then None else as_latest_original a),
             as_latest_translation := (if as_latest_translation a = Some k then None else as_latest_translation a)\<rparr>)"

end
