(* ===== verification/Capture_Routing.thy ===== *)
theory Capture_Routing
  imports Capture_Assembler
begin

text \<open>
  Where tokens go. In every state between two calls at most the last segment is open, and a source token
  always lands in the last segment, an open one or a new one. So the committed texts of the segments,
  read in order, are the final source tokens in the order in which the provider sent them, and the
  pending texts are the speculative tail of the latest response.
\<close>

section \<open>Segments and their numbers\<close>

definition show_digits :: "ustring \<Rightarrow> nat" where
  "show_digits s = foldl (\<lambda>n c. 10 * n + (c - 48)) 0 s"

lemma show_digits_show: "show_digits (show_nat n) = n"
proof (induction n rule: show_nat.induct)
  case (1 n)
  then show ?case by (subst show_nat.simps) (simp add: show_digits_def)
qed

lemma segment_id_inj [simp]: "segment_id sid m = segment_id sid n \<longleftrightarrow> m = n"
proof
  assume "segment_id sid m = segment_id sid n"
  then have "show_digits (show_nat m) = show_digits (show_nat n)" by (simp add: segment_id_def)
  then show "m = n" by (simp only: show_digits_show)
qed simp

definition committed_text :: "assembler \<Rightarrow> ustring" where
  "committed_text a = concat (map (\<lambda>s. lv_committed (sg_source s)) (as_segments a))"

definition pending_text :: "assembler \<Rightarrow> ustring" where
  "pending_text a = concat (map (\<lambda>s. lv_pending (sg_source s)) (as_segments a))"

text \<open>At most the last segment is open, and it is the one that source tokens go to; the translation cursor
  is in range.\<close>

definition open_last :: "assembler \<Rightarrow> bool" where
  "open_last a \<longleftrightarrow>
     (\<forall>k<length (as_segments a). \<not> sg_complete (as_segments a ! k) \<longrightarrow> as_latest_original a = Some k) \<and>
     (\<forall>k. as_latest_original a = Some k \<longrightarrow> Suc k = length (as_segments a)) \<and>
     (\<forall>k. as_latest_translation a = Some k \<longrightarrow> k < length (as_segments a))"

text \<open>The segments carry consecutive numbers and the names made of them.\<close>

definition numbered :: "assembler \<Rightarrow> bool" where
  "numbered a \<longleftrightarrow>
     length (as_segments a) \<le> as_next_sequence a \<and>
     (\<forall>k<length (as_segments a).
        sg_sequence (as_segments a ! k) = as_next_sequence a - length (as_segments a) + k \<and>
        sg_id (as_segments a ! k) = segment_id (as_session_id a) (sg_sequence (as_segments a ! k)))"

lemma rposition_SomeD: "rposition P xs = Some i \<Longrightarrow> i < length xs \<and> P (xs ! i)"
  by (induction xs arbitrary: i) (auto split: option.splits if_splits)

section \<open>What a change of one segment leaves alone\<close>

lemma update_segment_simps [simp]:
  "as_session_id (update_segment i f a) = as_session_id a"
  "as_selected_languages (update_segment i f a) = as_selected_languages a"
  "as_capture_mode (update_segment i f a) = as_capture_mode a"
  "as_common_caption_language (update_segment i f a) = as_common_caption_language a"
  "as_next_sequence (update_segment i f a) = as_next_sequence a"
  "as_latest_original (update_segment i f a) = as_latest_original a"
  "as_latest_translation (update_segment i f a) = as_latest_translation a"
  "as_unattached (update_segment i f a) = as_unattached a"
  "length (as_segments (update_segment i f a)) = length (as_segments a)"
  by (simp_all add: update_segment_def)

lemma update_segment_cursor:
  "update_segment i f (a\<lparr>as_latest_original := x\<rparr>) = (update_segment i f a)\<lparr>as_latest_original := x\<rparr>"
  by (simp add: update_segment_def)

lemma update_segment_nth:
  "k < length (as_segments a) \<Longrightarrow>
   as_segments (update_segment i f a) ! k = (if k = i then f (as_segments a ! k) else as_segments a ! k)"
  by (auto simp: update_segment_def nth_list_update)

lemma new_segment_simps [simp]:
  "sg_id (new_segment sid n) = segment_id sid n" "sg_sequence (new_segment sid n) = n"
  "sg_source (new_segment sid n) = new_lane" "sg_translated (new_segment sid n) = new_lane"
  "sg_complete (new_segment sid n) = False" "sg_revision (new_segment sid n) = None"
  "sg_persisted_translation_language (new_segment sid n) = None"
  "sg_committed_language_hint (new_segment sid n) = None"
  by (simp_all add: new_segment_def)

lemma new_lane_simps [simp]:
  "lv_committed new_lane = []" "lv_pending new_lane = []" "lv_committed_language new_lane = None"
  "lv_pending_language new_lane = None" "lv_pending_language_ambiguous new_lane = False"
  by (simp_all add: new_lane_def)

lemma push_token_text:
  "lv_committed (push_token t l lane) = lv_committed lane @ (if tk_is_final t then tk_text t else [])"
  "lv_pending (push_token t l lane) = lv_pending lane @ (if tk_is_final t then [] else tk_text t)"
  by (auto simp: push_token_def Let_def split: option.splits)

lemma note_simps [simp]:
  "sg_source (note_times t s) = sg_source s" "sg_source (note_speaker f p s) = sg_source s"
  "sg_translated (note_times t s) = sg_translated s" "sg_translated (note_speaker f p s) = sg_translated s"
  "sg_complete (note_times t s) = sg_complete s" "sg_complete (note_speaker f p s) = sg_complete s"
  "sg_id (note_times t s) = sg_id s" "sg_id (note_speaker f p s) = sg_id s"
  "sg_sequence (note_times t s) = sg_sequence s" "sg_sequence (note_speaker f p s) = sg_sequence s"
  "sg_revision (note_times t s) = sg_revision s" "sg_revision (note_speaker f p s) = sg_revision s"
  "sg_translation_dirty (note_times t s) = sg_translation_dirty s" "sg_translation_dirty (note_speaker f p s) = sg_translation_dirty s"
  "sg_persisted_translation_language (note_times t s) = sg_persisted_translation_language s"
  "sg_persisted_translation_language (note_speaker f p s) = sg_persisted_translation_language s"
  by (auto simp: note_times_def note_speaker_def split: option.splits)

lemma push_original_simps [simp]:
  "sg_source (push_original t l p s) = push_token t l (sg_source s)"
  "sg_translated (push_original t l p s) = sg_translated s"
  "sg_complete (push_original t l p s) = sg_complete s" "sg_id (push_original t l p s) = sg_id s"
  "sg_sequence (push_original t l p s) = sg_sequence s" "sg_revision (push_original t l p s) = sg_revision s"
  "sg_persisted_translation_language (push_original t l p s) = sg_persisted_translation_language s"
  "sg_translation_dirty (push_original t l p s) = sg_translation_dirty s" "sg_source_dirty (push_original t l p s)"
  by (simp_all add: push_original_def)

lemma push_translation_simps [simp]:
  "sg_source (push_translation t l p s) = sg_source s"
  "sg_translated (push_translation t l p s) = push_token t (normalized_optional_language (tk_language t)) (sg_translated s)"
  "sg_complete (push_translation t l p s) = sg_complete s" "sg_id (push_translation t l p s) = sg_id s"
  "sg_sequence (push_translation t l p s) = sg_sequence s" "sg_revision (push_translation t l p s) = sg_revision s"
  "sg_persisted_translation_language (push_translation t l p s) = sg_persisted_translation_language s"
  "sg_translation_dirty (push_translation t l p s)"
  by (auto simp: push_translation_def Let_def split: option.splits)

lemma begin_segment_simps [simp]:
  "lv_committed (sg_source (begin_segment_response s)) = lv_committed (sg_source s)"
  "lv_pending (sg_source (begin_segment_response s)) = []"
  "lv_committed_language (sg_source (begin_segment_response s)) = lv_committed_language (sg_source s)"
  "sg_complete (begin_segment_response s) = sg_complete s" "sg_id (begin_segment_response s) = sg_id s"
  "sg_sequence (begin_segment_response s) = sg_sequence s" "sg_revision (begin_segment_response s) = sg_revision s"
  "sg_persisted_translation_language (begin_segment_response s) = sg_persisted_translation_language s"
  "sg_committed_language_hint (begin_segment_response s) = sg_committed_language_hint s"
  by (simp_all add: begin_segment_response_def begin_lane_response_def Let_def)

lemma clean_segment_simps [simp]:
  "sg_source (clean_segment s) = sg_source s" "sg_translated (clean_segment s) = sg_translated s"
  "sg_complete (clean_segment s) = sg_complete s" "sg_id (clean_segment s) = sg_id s"
  "sg_sequence (clean_segment s) = sg_sequence s" "sg_revision (clean_segment s) = sg_revision s"
  "sg_persisted_translation_language (clean_segment s) = sg_persisted_translation_language s"
  "sg_committed_language_hint (clean_segment s) = sg_committed_language_hint s"
  "\<not> sg_source_dirty (clean_segment s)" "\<not> sg_translation_dirty (clean_segment s)"
  by (simp_all add: clean_segment_def)

section \<open>Source tokens\<close>

lemma concat_last_update:
  "xs \<noteq> [] \<Longrightarrow> g (f (last xs)) = g (last xs) @ t \<Longrightarrow>
   concat (map g (xs[length xs - 1 := f (xs ! (length xs - 1))])) = concat (map g xs) @ t"
  by (induction xs rule: rev_induct) (simp_all add: list_update_append nth_append)

text \<open>The position of the last segment, or of the new one.\<close>

lemma source_segment_last:
  assumes "open_last a" "numbered a" "as_next_sequence a < u64_max"
    and "source_segment_for_token is_final language speaker a = (i, a')"
  shows "open_last (a'\<lparr>as_latest_original := Some i\<rparr>)" "numbered a'" "Suc i = length (as_segments a')"
    "committed_text a' = committed_text a" "pending_text a' = pending_text a"
    "as_next_sequence a' = as_next_sequence a + (length (as_segments a') - length (as_segments a))"
    "length (as_segments a) \<le> length (as_segments a')" "length (as_segments a') \<le> Suc (length (as_segments a))"
proof -
  let ?n = "length (as_segments a)"
  have no_open: "rposition (\<lambda>s. \<not> sg_complete s \<and> P s) (as_segments a) = None"
    if "\<forall>k<?n. sg_complete (as_segments a ! k)" for P
    using that rposition_SomeD [of "\<lambda>s. \<not> sg_complete s \<and> P s" "as_segments a"] by (metis not_None_eq)
  have sat: "sat_u64_add (as_next_sequence a) 1 = Suc (as_next_sequence a)" using assms(3) by (simp add: sat_u64_add_def)
  have create: "open_last (b'\<lparr>as_latest_original := Some j\<rparr>) \<and> numbered b' \<and> Suc j = length (as_segments b') \<and>
      committed_text b' = committed_text b \<and> pending_text b' = pending_text b \<and>
      as_next_sequence b' = Suc (as_next_sequence b) \<and> length (as_segments b') = Suc (length (as_segments b))"
    if "create_segment b = (j, b')" "\<forall>k<length (as_segments b). sg_complete (as_segments b ! k)"
      "\<forall>k. as_latest_translation b = Some k \<longrightarrow> k < length (as_segments b)" "numbered b" "as_next_sequence b < u64_max" for b j b'
    using that
    by (fastforce simp: create_segment_def open_last_def numbered_def committed_text_def pending_text_def sat_u64_add_def nth_append
        less_Suc_eq)
  consider (fresh) "\<forall>k<?n. sg_complete (as_segments a ! k)" "source_segment_for_token is_final language speaker a = create_segment a"
    | (switch) c where "as_latest_original a = Some c" "Suc c = ?n"
        "source_segment_for_token is_final language speaker a = create_segment (update_segment c close_segment a)"
    | (same) c where "as_latest_original a = Some c" "Suc c = ?n" "source_segment_for_token is_final language speaker a = (c, a)"
  proof (cases "case as_latest_original a of Some i \<Rightarrow> if sg_complete (as_segments a ! i) then None else Some i | None \<Rightarrow> None")
    case None
    have "\<forall>k<?n. sg_complete (as_segments a ! k)"
    proof (intro allI impI)
      fix k
      assume "k < ?n"
      show "sg_complete (as_segments a ! k)"
      proof (rule ccontr)
        assume "\<not> sg_complete (as_segments a ! k)"
        moreover from this have "as_latest_original a = Some k" using assms(1) \<open>k < ?n\<close> by (auto simp: open_last_def)
        ultimately show False using None by simp
      qed
    qed
    with None no_open have "source_segment_for_token is_final language speaker a = create_segment a"
      by (auto simp: source_segment_for_token_def)
    with \<open>\<forall>k<?n. _\<close> show ?thesis using that(1) by blast
  next
    case (Some c)
    then have "as_latest_original a = Some c" "\<not> sg_complete (as_segments a ! c)" by (auto split: option.splits if_splits)
    moreover from this have "Suc c = ?n" using assms(1) by (auto simp: open_last_def)
    ultimately show ?thesis
      using that(2,3) [of c]
      by (cases "is_final \<and> has_source_text (as_segments a ! c) \<and>
            (identity_conflicts (stable_source_language (as_segments a ! c)) language \<or>
             identity_conflicts (stable_provider_speaker (as_segments a ! c)) speaker)")
        (simp_all add: source_segment_for_token_def Let_def)
  qed
  then have "open_last (a'\<lparr>as_latest_original := Some i\<rparr>) \<and> numbered a' \<and> Suc i = length (as_segments a') \<and>
      committed_text a' = committed_text a \<and> pending_text a' = pending_text a \<and>
      as_next_sequence a' = as_next_sequence a + (length (as_segments a') - length (as_segments a)) \<and>
      length (as_segments a) \<le> length (as_segments a') \<and> length (as_segments a') \<le> Suc (length (as_segments a))"
  proof cases
    case fresh
    with create [of a i a'] assms show ?thesis by (auto simp: open_last_def)
  next
    case (switch c)
    let ?b = "update_segment c close_segment a"
    have all: "\<forall>k<length (as_segments ?b). sg_complete (as_segments ?b ! k)"
      using assms(1) switch(1) by (auto simp: open_last_def update_segment_nth close_segment_def)
    have "map (\<lambda>s. lv_committed (sg_source s)) (as_segments ?b) = map (\<lambda>s. lv_committed (sg_source s)) (as_segments a)"
      "map (\<lambda>s. lv_pending (sg_source s)) (as_segments ?b) = map (\<lambda>s. lv_pending (sg_source s)) (as_segments a)"
      by (auto simp: list_eq_iff_nth_eq update_segment_nth close_segment_def)
    then have "committed_text ?b = committed_text a" "pending_text ?b = pending_text a"
      by (simp_all add: committed_text_def pending_text_def)
    moreover have "numbered ?b" using assms(2) by (auto simp: numbered_def update_segment_nth close_segment_def)
    ultimately show ?thesis using create [of ?b i a'] all switch assms by (auto simp: open_last_def)
  next
    case (same c)
    with assms show ?thesis by (auto simp: open_last_def)
  qed
  then show "open_last (a'\<lparr>as_latest_original := Some i\<rparr>)" "numbered a'" "Suc i = length (as_segments a')"
    "committed_text a' = committed_text a" "pending_text a' = pending_text a"
    "as_next_sequence a' = as_next_sequence a + (length (as_segments a') - length (as_segments a))"
    "length (as_segments a) \<le> length (as_segments a')" "length (as_segments a') \<le> Suc (length (as_segments a))" by simp_all
qed

section \<open>Numbers only grow\<close>

definition grows :: "assembler \<Rightarrow> assembler \<Rightarrow> bool" where
  "grows a b \<longleftrightarrow>
     as_session_id b = as_session_id a \<and> as_selected_languages b = as_selected_languages a \<and>
     as_capture_mode b = as_capture_mode a \<and> as_common_caption_language b = as_common_caption_language a \<and>
     (as_next_sequence a \<le> u64_max \<longrightarrow> as_next_sequence a \<le> as_next_sequence b \<and> as_next_sequence b \<le> u64_max)"

lemma grows_self [simp]: "grows a a"
  by (simp add: grows_def)

lemma grows_then: "grows a b \<Longrightarrow> grows b c \<Longrightarrow> grows a c"
  by (auto simp: grows_def)

lemma grows_create: "grows a (snd (create_segment a))"
  by (simp add: grows_def create_segment_def sat_u64_add_def)

lemma grows_update [simp]: "grows a (update_segment i f a)"
  by (simp add: grows_def)

lemma grows_segments [simp]: "grows a (b\<lparr>as_segments := ss\<rparr>) = grows a b"
  "grows a (b\<lparr>as_latest_original := i\<rparr>) = grows a b" "grows a (b\<lparr>as_latest_translation := j\<rparr>) = grows a b"
  "grows a (b\<lparr>as_unattached := n\<rparr>) = grows a b"
  by (simp_all add: grows_def)

lemma grows_source_segment: "grows a (snd (source_segment_for_token f l p a))"
  using grows_create by (auto simp: source_segment_for_token_def Let_def split: option.splits intro: grows_then [OF grows_update])

lemma grows_original: "grows a (apply_original_token t a)"
proof -
  obtain i b where b: "source_segment_for_token (tk_is_final t)
      (normalized_optional_language (or_else (tk_language t) (tk_source_language t))) (normalized_provider_speaker (tk_speaker t)) a = (i, b)"
    by fastforce
  then have "grows a b" using grows_source_segment by (metis snd_conv)
  then show ?thesis by (simp add: apply_original_token_def b Let_def grows_then [OF _ grows_update])
qed

lemma grows_translation: "grows a (apply_translation_token t a)"
  by (auto simp: apply_translation_token_def Let_def split: option.splits intro!: grows_then [OF _ grows_update])

lemma grows_fold: "(\<And>x a. grows a (f x a)) \<Longrightarrow> grows a (fold f xs a)"
  by (induction xs arbitrary: a) (auto intro: grows_then)

lemma grows_apply: "grows a (snd (apply_tokens ts a))"
proof -
  let ?b = "a\<lparr>as_segments := map begin_segment_response (as_segments a)\<rparr>"
  let ?c = "fold apply_original_token (filter is_original ts) ?b"
  let ?d = "fold apply_translation_token (filter (\<lambda>t. tk_status t = TsTranslation) ts) ?c"
  have "grows a ?b" "grows ?b ?c" "grows ?c ?d" by (auto intro: grows_fold grows_original grows_translation)
  then have "grows a ?d" by (blast intro: grows_then)
  then show ?thesis by (simp add: apply_tokens_def Let_def take_dirty_updates_def)
qed

lemma grows_tail: "grows a (append_tail s a)"
  using grows_create [of a] by (auto simp: append_tail_def split: prod.splits intro: grows_then)

lemma grows_finalize: "grows a (snd (finalize a))"
proof -
  let ?b = "a\<lparr>as_segments := map (\<lambda>s. if must_detach s then without_tail s else s) (as_segments a)\<rparr>"
  have "grows a ?b" "grows ?b (fold append_tail (filter must_detach (as_segments a)) ?b)" by (auto intro: grows_fold grows_tail)
  then have "grows a (fold append_tail (filter must_detach (as_segments a)) ?b)" by (blast intro: grows_then)
  then show ?thesis by (simp add: finalize_def Let_def take_dirty_updates_def)
qed

lemma grows_on_segment: "grows a (on_segment i f a)"
  by (simp add: on_segment_def split: option.splits)

lemma grows_retire: "grows a (retire_source_segment i a)"
  by (simp add: retire_source_segment_def split: option.splits)

section \<open>A response\<close>

text \<open>Everything above, as one invariant.\<close>

definition routed :: "assembler \<Rightarrow> bool" where
  "routed a \<longleftrightarrow> open_last a \<and> numbered a"

lemma routed_new: "routed (new_assembler sid profile)"
  by (simp add: routed_def open_last_def numbered_def new_assembler_def)

text \<open>Changes of single segments that keep number, name and completion.\<close>

lemma routed_map:
  assumes "\<And>s. sg_complete s \<Longrightarrow> sg_complete (f s)" "\<And>s. sg_sequence (f s) = sg_sequence s" "\<And>s. sg_id (f s) = sg_id s"
  shows "routed a \<Longrightarrow> routed (a\<lparr>as_segments := map f (as_segments a)\<rparr>)"
  using assms by (auto simp: routed_def open_last_def numbered_def)

lemma routed_update:
  assumes "\<And>s. sg_complete s \<Longrightarrow> sg_complete (f s)" "\<And>s. sg_sequence (f s) = sg_sequence s" "\<And>s. sg_id (f s) = sg_id s"
  shows "routed a \<Longrightarrow> routed (update_segment i f a)"
  using assms by (auto simp: routed_def open_last_def numbered_def update_segment_nth)

lemma texts_update:
  assumes "\<And>s. lv_committed (sg_source (f s)) = lv_committed (sg_source s)" "\<And>s. lv_pending (sg_source (f s)) = lv_pending (sg_source s)"
  shows "committed_text (update_segment i f a) = committed_text a" "pending_text (update_segment i f a) = pending_text a"
proof -
  have "map (\<lambda>s. lv_committed (sg_source s)) (as_segments (update_segment i f a)) = map (\<lambda>s. lv_committed (sg_source s)) (as_segments a)"
    "map (\<lambda>s. lv_pending (sg_source s)) (as_segments (update_segment i f a)) = map (\<lambda>s. lv_pending (sg_source s)) (as_segments a)"
    using assms by (auto simp: list_eq_iff_nth_eq update_segment_nth)
  then show "committed_text (update_segment i f a) = committed_text a" "pending_text (update_segment i f a) = pending_text a"
    by (simp_all add: committed_text_def pending_text_def)
qed

text \<open>The number of the first segment.\<close>

definition first_sequence :: "assembler \<Rightarrow> nat" where
  "first_sequence a = as_next_sequence a - length (as_segments a)"

lemma routed_original:
  assumes "routed a" "as_next_sequence a < u64_max"
  shows "routed (apply_original_token t a)"
    "first_sequence (apply_original_token t a) = first_sequence a"
    "committed_text (apply_original_token t a) = committed_text a @ (if tk_is_final t then tk_text t else [])"
    "pending_text (apply_original_token t a) = pending_text a @ (if tk_is_final t then [] else tk_text t)"
proof -
  define l where "l = normalized_optional_language (or_else (tk_language t) (tk_source_language t))"
  define p where "p = normalized_provider_speaker (tk_speaker t)"
  obtain i b where b: "source_segment_for_token (tk_is_final t) l p a = (i, b)" by fastforce
  have a: "open_last a" "numbered a" using assms(1) by (simp_all add: routed_def)
  note facts = source_segment_last [OF a assms(2) b]
  have eq: "apply_original_token t a = (update_segment i (push_original t l p) b)\<lparr>as_latest_original := Some i\<rparr>"
    by (simp add: apply_original_token_def Let_def l_def [symmetric] p_def [symmetric] b)
  have "routed (b\<lparr>as_latest_original := Some i\<rparr>)" using facts(1,2) by (simp add: routed_def numbered_def)
  from routed_update [OF _ _ _ this, of "push_original t l p" i]
  show "routed (apply_original_token t a)" by (simp add: eq update_segment_cursor)
  show "first_sequence (apply_original_token t a) = first_sequence a"
    using facts(6,7) a(2) by (auto simp: eq first_sequence_def numbered_def)
  have i: "i = length (as_segments b) - 1" "as_segments b \<noteq> []" using facts(3) by auto
  have upd: "concat (map g (as_segments (update_segment i (push_original t l p) b))) = concat (map g (as_segments b)) @ x"
    if "\<And>s. g (push_original t l p s) = g s @ x" for g x
    using concat_last_update [of "as_segments b" g "push_original t l p" x] i that by (simp add: update_segment_def)
  show "committed_text (apply_original_token t a) = committed_text a @ (if tk_is_final t then tk_text t else [])"
    using upd [of "\<lambda>s. lv_committed (sg_source s)" "if tk_is_final t then tk_text t else []"] facts(4)
    by (simp add: eq committed_text_def push_token_text)
  show "pending_text (apply_original_token t a) = pending_text a @ (if tk_is_final t then [] else tk_text t)"
    using upd [of "\<lambda>s. lv_pending (sg_source s)" "if tk_is_final t then [] else tk_text t"] facts(5)
    by (simp add: eq pending_text_def push_token_text)
qed

definition final_text :: "stream_token list \<Rightarrow> ustring" where
  "final_text ts = concat (map tk_text (filter (\<lambda>t. is_original t \<and> tk_is_final t) ts))"

definition tail_text :: "stream_token list \<Rightarrow> ustring" where
  "tail_text ts = concat (map tk_text (filter (\<lambda>t. is_original t \<and> \<not> tk_is_final t) ts))"

lemma routed_originals:
  assumes "routed a" "as_next_sequence a \<le> u64_max" "as_next_sequence (fold apply_original_token ts a) < u64_max"
  shows "routed (fold apply_original_token ts a) \<and> first_sequence (fold apply_original_token ts a) = first_sequence a \<and>
    committed_text (fold apply_original_token ts a) = committed_text a @ concat (map tk_text (filter tk_is_final ts)) \<and>
    pending_text (fold apply_original_token ts a) = pending_text a @ concat (map tk_text (filter (\<lambda>t. \<not> tk_is_final t) ts))"
  using assms(3)
proof (induction ts rule: rev_induct)
  case (snoc t ts)
  have "grows a (fold apply_original_token ts a)" by (rule grows_fold, rule grows_original)
  then have "as_next_sequence (fold apply_original_token ts a) < u64_max"
    using snoc.prems grows_original [of "fold apply_original_token ts a" t] assms(2) by (auto simp: grows_def)
  with snoc.IH routed_original [of "fold apply_original_token ts a" t] show ?case by simp
qed (simp add: assms)

lemma routed_translation:
  assumes "routed a"
  shows "routed (apply_translation_token t a)" "committed_text (apply_translation_token t a) = committed_text a"
    "pending_text (apply_translation_token t a) = pending_text a"
    "first_sequence (apply_translation_token t a) = first_sequence a"
proof -
  define p where "p = normalized_provider_speaker (tk_speaker t)"
  define l where "l = normalized_optional_language (tk_source_language t)"
  have range: "i < length (as_segments a)" if "translation_segment p l a = Some i" for i
  proof -
    have *: "\<forall>j\<in>set (compatible_segments p l (as_segments a)). j < length (as_segments a)"
      by (auto simp: compatible_segments_def in_set_enumerate_eq)
    then show ?thesis
      using that by (auto simp: translation_segment_def find_Some_iff split: list.splits option.splits if_splits)
  qed
  show "first_sequence (apply_translation_token t a) = first_sequence a"
    by (auto simp: apply_translation_token_def Let_def first_sequence_def split: option.splits)
  have "routed (apply_translation_token t a) \<and> committed_text (apply_translation_token t a) = committed_text a \<and>
    pending_text (apply_translation_token t a) = pending_text a"
  proof (cases "translation_segment p l a")
    case None
    then show ?thesis
      using assms by (simp add: apply_translation_token_def p_def l_def routed_def open_last_def numbered_def committed_text_def pending_text_def)
  next
    case (Some i)
    have "routed (a\<lparr>as_latest_translation := Some i\<rparr>)"
      using assms range [OF Some] by (auto simp: routed_def open_last_def numbered_def)
    from routed_update [OF _ _ _ this, of "push_translation t l p" i]
    have "routed (update_segment i (push_translation t l p) (a\<lparr>as_latest_translation := Some i\<rparr>))" by simp
    moreover have "committed_text (a\<lparr>as_latest_translation := Some i\<rparr>) = committed_text a"
      "pending_text (a\<lparr>as_latest_translation := Some i\<rparr>) = pending_text a"
      by (simp_all add: committed_text_def pending_text_def)
    ultimately show ?thesis
      using texts_update [of "push_translation t l p" i "a\<lparr>as_latest_translation := Some i\<rparr>"] Some
      by (simp add: apply_translation_token_def p_def [symmetric] l_def [symmetric])
  qed
  then show "routed (apply_translation_token t a)" "committed_text (apply_translation_token t a) = committed_text a"
    "pending_text (apply_translation_token t a) = pending_text a" by simp_all
qed

lemma routed_translations:
  "routed a \<Longrightarrow> routed (fold apply_translation_token ts a) \<and>
     first_sequence (fold apply_translation_token ts a) = first_sequence a \<and> committed_text (fold apply_translation_token ts a) = committed_text a \<and>
     pending_text (fold apply_translation_token ts a) = pending_text a"
  by (induction ts arbitrary: a) (simp_all add: routed_translation)

lemma texts_map:
  assumes "\<And>s. lv_committed (sg_source (f s)) = lv_committed (sg_source s)"
  shows "committed_text (a\<lparr>as_segments := map f (as_segments a)\<rparr>) = committed_text a"
  using assms by (simp add: committed_text_def comp_def)

text \<open>The segments after the tokens of a response, before the flags are cleared.\<close>

definition responded :: "stream_token list \<Rightarrow> assembler \<Rightarrow> assembler" where
  "responded ts a =
     fold apply_translation_token (filter (\<lambda>t. tk_status t = TsTranslation) ts)
       (fold apply_original_token (filter is_original ts) (a\<lparr>as_segments := map begin_segment_response (as_segments a)\<rparr>))"

lemma apply_tokens_responded: "apply_tokens ts a = take_dirty_updates (responded ts a)"
  by (simp add: apply_tokens_def responded_def Let_def)

lemma routed_responded:
  assumes "routed a" "as_next_sequence a \<le> u64_max" "as_next_sequence (responded ts a) < u64_max"
  shows "routed (responded ts a)" "committed_text (responded ts a) = committed_text a @ final_text ts"
    "pending_text (responded ts a) = tail_text ts" "first_sequence (responded ts a) = first_sequence a"
proof -
  let ?b = "a\<lparr>as_segments := map begin_segment_response (as_segments a)\<rparr>"
  let ?c = "fold apply_original_token (filter is_original ts) ?b"
  have b: "routed ?b" "committed_text ?b = committed_text a" "pending_text ?b = []"
    using assms(1) by (auto intro: routed_map texts_map simp: pending_text_def)
  have "grows ?c (responded ts a)" unfolding responded_def by (rule grows_fold, rule grows_translation)
  moreover have "grows ?b ?c" by (rule grows_fold, rule grows_original)
  then have "as_next_sequence ?c \<le> u64_max" using assms(2) by (auto simp: grows_def)
  ultimately have "as_next_sequence ?c < u64_max" using assms(3) by (auto simp: grows_def)
  with b assms(2) have c: "routed ?c \<and> first_sequence ?c = first_sequence ?b \<and> committed_text ?c = committed_text a @ concat (map tk_text (filter tk_is_final (filter is_original ts))) \<and>
      pending_text ?c = concat (map tk_text (filter (\<lambda>t. \<not> tk_is_final t) (filter is_original ts)))"
    using routed_originals [of ?b "filter is_original ts"] by simp
  then show "routed (responded ts a)" "committed_text (responded ts a) = committed_text a @ final_text ts"
    "pending_text (responded ts a) = tail_text ts" "first_sequence (responded ts a) = first_sequence a"
    using routed_translations [of ?c] by (simp_all add: responded_def final_text_def tail_text_def conj_commute first_sequence_def)
qed

end
