(* ===== verification/Capture_Tables.thy ===== *)
theory Capture_Tables
  imports Capture_Domain
begin

text \<open>
  The tables of a capture (\<^verbatim>\<open>crates/vt-store/src/notebook_capture_store.rs\<close>, schema in
  \<^verbatim>\<open>crates/vt-store/src/migration.rs\<close>): runs, speakers, utterances with their language variants, the
  translation inbox, the edits of the user and the edits in progress. A statement of SQL is a function
  on the rows; a transaction is a function that returns an error or the new tables. The variants of an
  utterance are kept in its row: their rows are deleted with it (\<^verbatim>\<open>ON DELETE CASCADE\<close>). Revisions are natural
  numbers: that they fit in 64 bits is checked where the code checks it. Times are given by \<open>now\<close>.
\<close>

section \<open>Rows\<close>

record variant =
  vr_language :: ustring
  vr_role :: variant_role
  vr_text :: "ustring option"
  vr_state :: variant_state
  vr_completion :: "utterance_completion option"
  vr_revision :: nat
  vr_created_at :: ustring
  vr_updated_at :: ustring
  vr_projection_revision :: nat
  vr_edit_revision :: nat

record utterance =
  ut_id :: ustring
  ut_session_id :: ustring
  ut_sequence :: nat
  ut_session_speaker_id :: "ustring option"
  ut_source_language :: ustring
  ut_source_text :: ustring
  ut_source_start_ms :: "nat option"
  ut_source_end_ms :: "nat option"
  ut_translated_language :: "ustring option"
  ut_translated_text :: "ustring option"
  ut_revision :: nat
  ut_completion :: utterance_completion
  ut_alignment :: utterance_alignment
  ut_created_at :: ustring
  ut_updated_at :: ustring
  ut_source_projection_revision :: nat
  ut_source_edit_revision :: nat
  ut_variants :: "variant list"

record inbox_key =
  ik_session_id :: ustring
  ik_lane_index :: nat
  ik_group_epoch :: nat
  ik_provider_sequence :: nat
  ik_target_language :: ustring

record new_inbox_item =
  ni_key :: inbox_key
  ni_source_language :: ustring
  ni_source_text :: ustring
  ni_source_start_ms :: "nat option"
  ni_source_end_ms :: "nat option"
  ni_translated_text :: "ustring option"
  ni_completion :: "utterance_completion option"
  ni_withdrawn :: bool

record inbox_item =
  it_key :: inbox_key
  it_source_language :: ustring
  it_source_text :: ustring
  it_source_start_ms :: "nat option"
  it_source_end_ms :: "nat option"
  it_translated_text :: "ustring option"
  it_completion :: "utterance_completion option"
  it_withdrawn :: bool
  it_revision :: nat
  it_bound_utterance_id :: "ustring option"
  it_bound_sequence :: "nat option"
  it_created_at :: ustring
  it_updated_at :: ustring

record edit_override =
  ov_utterance_id :: ustring
  ov_lane :: utterance_lane
  ov_lane_language :: ustring
  ov_text :: ustring
  ov_machine_utterance_revision :: nat
  ov_machine_variant_revision :: nat
  ov_edit_revision :: nat

record projection_mutation =
  pm_id :: ustring
  pm_session_id :: ustring
  pm_utterance_id :: ustring
  pm_lane :: utterance_lane
  pm_lane_language :: ustring
  pm_expected_revision :: nat
  pm_expected_variant_revision :: nat
  pm_target_text :: ustring
  pm_created_at :: ustring

record session_speaker =
  sp_id :: ustring
  sp_session_id :: ustring
  sp_provider_session_epoch :: nat
  sp_provider :: ustring
  sp_provider_label :: ustring

record capture_run =
  rn_id :: ustring
  rn_notebook_id :: ustring
  rn_session_id :: ustring
  rn_realtime_provider_id :: "ustring option"
  rn_realtime_model_id :: "ustring option"
  rn_post_stop_provider_id :: "ustring option"
  rn_post_stop_model_id :: "ustring option"
  rn_capture_state :: capture_state
  rn_remote_health :: remote_health
  rn_projection_state :: projection_state
  rn_async_task_state :: async_task_state
  rn_async_authorized_at_ms :: "int option"
  rn_async_language_hint :: "ustring option"
  rn_async_projection_state :: async_projection_state
  rn_async_task_id :: "ustring option"
  rn_async_task_payload_sha256 :: "ustring option"
  rn_provider_error_type :: "ustring option"
  rn_provider_request_id :: "ustring option"
  rn_audio_journal_path :: "ustring option"
  rn_audio_path :: "ustring option"
  rn_audio_key_ref :: "ustring option"
  rn_sample_rate :: "nat option"
  rn_channels :: "nat option"
  rn_captured_frames :: nat
  rn_created_at :: ustring
  rn_updated_at :: ustring
  rn_completed_at :: "ustring option"
  rn_desired_revision :: nat
  rn_applied_revision :: nat

record capture_db =
  db_runs :: "capture_run list"
  db_speakers :: "session_speaker list"
  db_utterances :: "utterance list"
  db_overrides :: "edit_override list"
  db_mutations :: "projection_mutation list"
  db_inbox :: "inbox_item list"
  db_purge_jobs :: "ustring list"

definition soniox_provider_id :: ustring where "soniox_provider_id = lit ''soniox''"
definition soniox_stt_rt_v5_model_id :: ustring where "soniox_stt_rt_v5_model_id = lit ''stt-rt-v5''"
definition soniox_stt_async_v5_model_id :: ustring where "soniox_stt_async_v5_model_id = lit ''stt-async-v5''"

section \<open>Statements\<close>

text \<open>A loop whose body may fail.\<close>

fun fold_ok :: "('a \<Rightarrow> 'b \<Rightarrow> store_error + 'b) \<Rightarrow> 'a list \<Rightarrow> 'b \<Rightarrow> store_error + 'b" where
  "fold_ok f [] s = Inr s"
| "fold_ok f (x # xs) s = and_then (f x s) (fold_ok f xs)"

text \<open>\<^verbatim>\<open>iter_mut().find(p)\<close> and a change of what is found.\<close>

fun update_first :: "('a \<Rightarrow> bool) \<Rightarrow> ('a \<Rightarrow> 'a) \<Rightarrow> 'a list \<Rightarrow> 'a list" where
  "update_first p f [] = []"
| "update_first p f (x # xs) = (if p x then f x # xs else x # update_first p f xs)"

definition u64_to_i64 :: "string \<Rightarrow> nat \<Rightarrow> store_error + nat" where
  "u64_to_i64 field n = (if int n \<le> i64_max then Inr n else Inl (StValidation (lit field @ lit '' exceeds SQLite integer range'')))"

definition option_u64_to_i64 :: "string \<Rightarrow> nat option \<Rightarrow> store_error + nat option" where
  "option_u64_to_i64 field v = (case v of None \<Rightarrow> Inr None | Some n \<Rightarrow> and_then (u64_to_i64 field n) (\<lambda>n. Inr (Some n)))"

text \<open>\<^verbatim>\<open>lower(trim(language))\<close>, with the ASCII case and the plain spaces of SQL.\<close>

definition sql_language :: "ustring \<Rightarrow> ustring" where
  "sql_language l = to_ascii_lowercase (rev (dropWhile (\<lambda>c. c = 32) (rev (dropWhile (\<lambda>c. c = 32) l))))"

definition row_name :: "ustring \<Rightarrow> nat \<Rightarrow> ustring" where
  "row_name session_id sequence = session_id @ lit '':'' @ show_nat sequence"

definition run_of :: "ustring \<Rightarrow> capture_db \<Rightarrow> capture_run option" where
  "run_of session_id db = find (\<lambda>r. rn_session_id r = session_id) (db_runs db)"

definition update_run :: "ustring \<Rightarrow> (capture_run \<Rightarrow> capture_run) \<Rightarrow> capture_db \<Rightarrow> capture_db" where
  "update_run session_id f db = db\<lparr>db_runs := map (\<lambda>r. if rn_session_id r = session_id then f r else r) (db_runs db)\<rparr>"

definition update_utterances :: "(utterance \<Rightarrow> bool) \<Rightarrow> (utterance \<Rightarrow> utterance) \<Rightarrow> capture_db \<Rightarrow> capture_db" where
  "update_utterances p f db = db\<lparr>db_utterances := map (\<lambda>u. if p u then f u else u) (db_utterances db)\<rparr>"

definition update_inbox :: "(inbox_item \<Rightarrow> bool) \<Rightarrow> (inbox_item \<Rightarrow> inbox_item) \<Rightarrow> capture_db \<Rightarrow> capture_db" where
  "update_inbox p f db = db\<lparr>db_inbox := map (\<lambda>i. if p i then f i else i) (db_inbox db)\<rparr>"

text \<open>\<^verbatim>\<open>DELETE FROM realtime_utterances\<close>: edits go with the row, bindings to it become \<^verbatim>\<open>NULL\<close>.\<close>

definition delete_utterance :: "ustring \<Rightarrow> capture_db \<Rightarrow> capture_db" where
  "delete_utterance i db =
     db\<lparr>db_utterances := filter (\<lambda>u. ut_id u \<noteq> i) (db_utterances db),
        db_overrides := filter (\<lambda>x. ov_utterance_id x \<noteq> i) (db_overrides db),
        db_mutations := filter (\<lambda>m. pm_utterance_id m \<noteq> i) (db_mutations db),
        db_inbox := map (\<lambda>x. if it_bound_utterance_id x = Some i
                             then x\<lparr>it_bound_utterance_id := None, it_bound_sequence := None\<rparr> else x) (db_inbox db)\<rparr>"

definition update_variants :: "ustring \<Rightarrow> (variant list \<Rightarrow> variant list) \<Rightarrow> capture_db \<Rightarrow> capture_db" where
  "update_variants i f = update_utterances (\<lambda>u. ut_id u = i) (\<lambda>u. u\<lparr>ut_variants := f (ut_variants u)\<rparr>)"

text \<open>\<^verbatim>\<open>INSERT INTO realtime_utterance_variants ... ON CONFLICT DO UPDATE\<close>: the language is unique in an utterance.\<close>

definition upsert_variant :: "variant \<Rightarrow> (variant \<Rightarrow> variant) \<Rightarrow> variant list \<Rightarrow> variant list" where
  "upsert_variant new f vs =
     (if \<exists>v\<in>set vs. sql_language (vr_language v) = sql_language (vr_language new)
      then map (\<lambda>v. if sql_language (vr_language v) = sql_language (vr_language new) then f v else v) vs
      else vs @ [new])"

section \<open>Reading utterances\<close>

definition variant_rank :: "variant \<Rightarrow> nat" where
  "variant_rank v = (case vr_role v of RoleSource \<Rightarrow> 0 | RoleTranslation \<Rightarrow> 1)"

definition variant_order :: "variant \<Rightarrow> ustring" where
  "variant_order v = variant_rank v # sql_language (vr_language v)"

definition hydrate_utterance_variants :: "utterance \<Rightarrow> utterance" where
  "hydrate_utterance_variants u = u\<lparr>ut_variants := sort_key variant_order (sort_key vr_language (ut_variants u))\<rparr>"

definition machine_utterance_by_id :: "ustring \<Rightarrow> capture_db \<Rightarrow> utterance option" where
  "machine_utterance_by_id i db = map_option hydrate_utterance_variants (find (\<lambda>u. ut_id u = i) (db_utterances db))"

definition machine_utterance_by_sequence :: "ustring \<Rightarrow> nat \<Rightarrow> capture_db \<Rightarrow> store_error + utterance option" where
  "machine_utterance_by_sequence session_id sequence db =
     and_then (u64_to_i64 ''sequence'' sequence) (\<lambda>n.
       Inr (map_option hydrate_utterance_variants
              (find (\<lambda>u. ut_session_id u = session_id \<and> ut_sequence u = n) (db_utterances db))))"

definition list_machine_utterances :: "ustring \<Rightarrow> capture_db \<Rightarrow> utterance list" where
  "list_machine_utterances session_id db =
     map hydrate_utterance_variants (sort_key ut_sequence (filter (\<lambda>u. ut_session_id u = session_id) (db_utterances db)))"

definition ready_variant :: "variant \<Rightarrow> bool" where
  "ready_variant v \<longleftrightarrow> vr_state v = VarReady \<and> vr_text v \<noteq> None \<and> vr_completion v \<noteq> None"

definition has_source_fact :: "utterance \<Rightarrow> bool" where
  "has_source_fact u \<longleftrightarrow>
     ut_completion u = CompleteFact \<or> ut_source_text u \<noteq> [] \<or> ut_source_start_ms u \<noteq> None \<or> ut_source_end_ms u \<noteq> None \<or>
     (\<exists>v\<in>set (ut_variants u). vr_role v = RoleSource \<and> ready_variant v)"

definition source_fact_is_complete :: "utterance \<Rightarrow> bool" where
  "source_fact_is_complete u \<longleftrightarrow> ut_completion u = CompleteFact"

definition source_variant :: "utterance \<Rightarrow> variant option" where
  "source_variant u = find (\<lambda>v. vr_role v = RoleSource) (ut_variants u)"

definition has_source_lane :: "utterance \<Rightarrow> bool" where
  "has_source_lane u \<longleftrightarrow>
     (case source_variant u of Some v \<Rightarrow> ready_variant v | None \<Rightarrow> ut_variants u = [] \<and> has_source_fact u)"

definition source_lane_is_complete :: "utterance \<Rightarrow> bool" where
  "source_lane_is_complete u \<longleftrightarrow>
     (case source_variant u of
        Some v \<Rightarrow> vr_state v = VarReady \<and> vr_text v \<noteq> None \<and> vr_completion v = Some CompleteFact
      | None \<Rightarrow> ut_variants u = [] \<and> source_fact_is_complete u)"

section \<open>Edits laid over the machine facts\<close>

definition variant_in :: "ustring \<Rightarrow> utterance \<Rightarrow> variant option" where
  "variant_in language u = find (\<lambda>v. canonical_language (vr_language v) = language) (ut_variants u)"

definition put_variant_text :: "ustring \<Rightarrow> ustring \<Rightarrow> nat \<Rightarrow> utterance \<Rightarrow> utterance" where
  "put_variant_text language body edit u =
     u\<lparr>ut_variants :=
         update_first (\<lambda>v. canonical_language (vr_language v) = language)
           (\<lambda>v. v\<lparr>vr_text := Some body, vr_edit_revision := edit\<rparr>) (ut_variants u)\<rparr>"

definition utterance_error :: "ustring \<Rightarrow> string \<Rightarrow> store_error" where
  "utterance_error i what = StCorruptData (lit ''utterance '' @ i @ lit what)"

definition apply_override :: "edit_override \<Rightarrow> utterance \<Rightarrow> store_error + utterance" where
  "apply_override x u =
     (let language = canonical_language (ov_lane_language x) in
      if ov_edit_revision x = 0 then Inl (utterance_error (ut_id u) '' override has zero edit revision'')
      else if ut_revision u < ov_machine_utterance_revision x then
        Inl (utterance_error (ut_id u) '' override is based on a future machine revision'')
      else
        (case variant_in language u of
           None \<Rightarrow> Inl (StCorruptData (lit ''utterance '' @ ut_id u @ lit '' override references missing language '' @ ov_lane_language x))
         | Some v \<Rightarrow>
             if vr_revision v < ov_machine_variant_revision x then
               Inl (utterance_error (ut_id u) '' override is based on a future variant revision'')
             else if ov_lane x = SourceLane \<and> vr_role v = RoleSource \<and> canonical_language (ut_source_language u) = language then
               Inr (put_variant_text language (ov_text x) (ov_edit_revision x)
                      (u\<lparr>ut_source_text := ov_text x, ut_source_edit_revision := ov_edit_revision x\<rparr>))
             else if ov_lane x = TranslatedLane \<and> vr_role v = RoleTranslation then
               Inr (put_variant_text language (ov_text x) (ov_edit_revision x)
                      (if (case ut_translated_language u of Some l \<Rightarrow> canonical_language l = language | None \<Rightarrow> False)
                       then u\<lparr>ut_translated_text := Some (ov_text x)\<rparr> else u))
             else
               Inl (StCorruptData (lit ''utterance '' @ ut_id u @ lit '' override lane '' @ text_of utterance_lanes (ov_lane x) @
                 lit '' does not match machine language '' @ ov_lane_language x))))"

definition apply_utterance_overrides :: "capture_db \<Rightarrow> utterance \<Rightarrow> store_error + utterance" where
  "apply_utterance_overrides db u =
     fold_ok apply_override
       (sort_key (\<lambda>x. sql_language (ov_lane_language x)) (filter (\<lambda>x. ov_utterance_id x = ut_id u) (db_overrides db))) u"

definition list_utterances :: "ustring \<Rightarrow> capture_db \<Rightarrow> store_error + utterance list" where
  "list_utterances session_id db =
     fold_ok (\<lambda>u acc. and_then (apply_utterance_overrides db u) (\<lambda>u. Inr (acc @ [u])))
       (list_machine_utterances session_id db) []"

section \<open>Guards\<close>

definition no_session :: "ustring \<Rightarrow> store_error" where
  "no_session session_id = StNotFound (lit ''capture session '' @ session_id)"

definition provenance_ok :: "capture_run \<Rightarrow> store_error + unit" where
  "provenance_ok r =
     (case (rn_realtime_provider_id r, rn_realtime_model_id r) of
        (Some p, Some m) \<Rightarrow>
          if p = soniox_provider_id \<and> m = soniox_stt_rt_v5_model_id then Inr ()
          else Inl (StCorruptData (lit ''realtime utterance has unsupported provider provenance''))
      | (None, None) \<Rightarrow> Inl (StConflict (lit ''realtime utterance requires claimed provider provenance''))
      | _ \<Rightarrow> Inl (StCorruptData (lit ''realtime utterance has partial provider provenance'')))"

definition ensure_realtime_session_provenance :: "ustring \<Rightarrow> capture_db \<Rightarrow> store_error + unit" where
  "ensure_realtime_session_provenance session_id db =
     and_then (ok_or (no_session session_id) (run_of session_id db)) provenance_ok"

definition ensure_active_realtime_session :: "ustring \<Rightarrow> capture_db \<Rightarrow> store_error + unit" where
  "ensure_active_realtime_session session_id db =
     and_then (ok_or (no_session session_id) (run_of session_id db)) (\<lambda>r.
       if \<not> is_active (rn_capture_state r) then
         Inl (StConflict (lit ''utterances are read-only after capture finalization''))
       else provenance_ok r)"

definition capture_session_is_active :: "ustring \<Rightarrow> capture_db \<Rightarrow> store_error + bool" where
  "capture_session_is_active session_id db =
     and_then (ok_or (no_session session_id) (run_of session_id db)) (\<lambda>r. Inr (is_active (rn_capture_state r)))"

section \<open>Receipts of the projection into Loro\<close>

definition bump_desired_revision :: "ustring \<Rightarrow> capture_db \<Rightarrow> store_error + capture_db \<times> nat" where
  "bump_desired_revision session_id db =
     and_then (ok_or (no_session session_id) (run_of session_id db)) (\<lambda>r.
       Inr (update_run session_id (\<lambda>r. r\<lparr>rn_desired_revision := rn_desired_revision r + 1\<rparr>) db, rn_desired_revision r + 1))"

record loro_projection =
  lp_session_id :: ustring
  lp_desired :: nat
  lp_applied :: nat

definition realtime_loro_projection :: "ustring \<Rightarrow> capture_db \<Rightarrow> loro_projection option" where
  "realtime_loro_projection session_id db =
     map_option (\<lambda>r. \<lparr>lp_session_id = session_id, lp_desired = rn_desired_revision r, lp_applied = rn_applied_revision r\<rparr>)
       (run_of session_id db)"

definition is_pending :: "loro_projection \<Rightarrow> bool" where
  "is_pending p \<longleftrightarrow> lp_applied p < lp_desired p"

definition ack_realtime_loro_projection ::
    "ustring \<Rightarrow> nat \<Rightarrow> capture_db \<Rightarrow> store_error + capture_db \<times> loro_projection \<times> bool" where
  "ack_realtime_loro_projection session_id revision db =
     and_then (require_nonempty ''session_id'' session_id) (\<lambda>_.
     and_then (u64_to_i64 ''realtime Loro projection revision'' revision) (\<lambda>revision.
     and_then (ok_or (no_session session_id) (realtime_loro_projection session_id db)) (\<lambda>current.
       if lp_desired current < revision then
         Inl (StConflict (lit ''realtime Loro projection '' @ session_id @ lit '' cannot acknowledge revision '' @
           show_nat revision @ lit '' beyond desired revision '' @ show_nat (lp_desired current)))
       else
         Inr (update_run session_id (\<lambda>r. r\<lparr>rn_applied_revision := max (rn_applied_revision r) revision\<rparr>) db,
              current\<lparr>lp_applied := max (lp_applied current) revision\<rparr>, lp_applied current < revision))))"

datatype projection_load = UpToDate loro_projection | PendingLoad loro_projection "utterance list"

definition load_realtime_loro_projection_if_pending_visible :: "ustring \<Rightarrow> capture_db \<Rightarrow> store_error + projection_load" where
  "load_realtime_loro_projection_if_pending_visible session_id db =
     and_then (require_nonempty ''session_id'' session_id) (\<lambda>_.
     and_then (ok_or (no_session session_id) (realtime_loro_projection session_id db)) (\<lambda>w.
       if is_pending w then and_then (list_utterances session_id db) (\<lambda>us. Inr (PendingLoad w us))
       else Inr (UpToDate w)))"

definition load_realtime_loro_projection :: "ustring \<Rightarrow> capture_db \<Rightarrow> store_error + loro_projection \<times> utterance list" where
  "load_realtime_loro_projection session_id db =
     and_then (require_nonempty ''session_id'' session_id) (\<lambda>_.
     and_then (ok_or (no_session session_id) (realtime_loro_projection session_id db)) (\<lambda>w.
       Inr (w, list_machine_utterances session_id db)))"

definition list_pending_realtime_loro_projections :: "capture_db \<Rightarrow> loro_projection list" where
  "list_pending_realtime_loro_projections db =
     map (\<lambda>r. \<lparr>lp_session_id = rn_session_id r, lp_desired = rn_desired_revision r, lp_applied = rn_applied_revision r\<rparr>)
       (sort_key rn_created_at (sort_key rn_session_id
          (filter (\<lambda>r. rn_applied_revision r < rn_desired_revision r) (db_runs db))))"

section \<open>Speakers\<close>

definition ensure_session_speaker ::
    "ustring \<Rightarrow> ustring \<Rightarrow> nat \<Rightarrow> ustring \<Rightarrow> ustring \<Rightarrow> capture_db \<Rightarrow> store_error + capture_db \<times> session_speaker" where
  "ensure_session_speaker fresh session_id epoch provider label db =
     and_then (each_ok (\<lambda>(f, v). require_nonempty f v)
       [(''session_id'', session_id), (''speaker provider'', provider), (''provider speaker label'', label)]) (\<lambda>_.
     and_then (u64_to_i64 ''provider_session_epoch'' epoch) (\<lambda>epoch.
       if run_of session_id db = None then Inl (no_session session_id)
       else
         (let same = (\<lambda>s. sp_session_id s = session_id \<and> sp_provider_session_epoch s = epoch \<and> sp_provider s = provider \<and>
                          sp_provider_label s = label)
          in case find same (db_speakers db) of
               Some s \<Rightarrow> Inr (db, s)
             | None \<Rightarrow>
                 let s = \<lparr>sp_id = fresh, sp_session_id = session_id, sp_provider_session_epoch = epoch, sp_provider = provider,
                          sp_provider_label = label\<rparr>
                 in Inr (db\<lparr>db_speakers := db_speakers db @ [s]\<rparr>, s))))"

definition check_speaker :: "new_utterance \<Rightarrow> capture_db \<Rightarrow> store_error + unit" where
  "check_speaker input db =
     (case nu_session_speaker_id input of
        None \<Rightarrow> Inr ()
      | Some i \<Rightarrow>
          (case find (\<lambda>s. sp_id s = i) (db_speakers db) of
             None \<Rightarrow> Inl (StNotFound (lit ''session speaker '' @ i))
           | Some s \<Rightarrow>
               if sp_session_id s = nu_session_id input then Inr ()
               else Inl (StValidation (lit ''session speaker '' @ i @ lit '' belongs to a different capture session''))))"

end
