(* ===== verification/Capture_Alignment.thy ===== *)
theory Capture_Alignment
  imports Capture_Tables Capture_Assembler
begin

text \<open>
  Placing an auxiliary translation on the timeline (\<^verbatim>\<open>align_source_text\<close> of \<^verbatim>\<open>crates/vt-model/src/lib.rs\<close>,
  the alignment score of the store and the one of \<^verbatim>\<open>crates/vt-ffi/src/notebook_capture_api.rs\<close>). The score
  compares words first, then the overlap of the intervals, the language and the distance of the
  midpoints; a fact is bound only when one row alone has the best score. \<open>tbl\<close> is the Unicode table of
  lower case letters beyond ASCII, as in the prelude.
\<close>

section \<open>Words\<close>

definition is_alignment_noise :: "uchar \<Rightarrow> bool" where
  "is_alignment_noise c \<longleftrightarrow>
     is_whitespace c \<or>
     (if c < 128 then is_ascii_punctuation c
      else c \<in> {161, 167, 182, 183, 191} \<or> (8192 \<le> c \<and> c \<le> 8303) \<or> (12288 \<le> c \<and> c \<le> 12351) \<or>
           (65281 \<le> c \<and> c \<le> 65295) \<or> (65306 \<le> c \<and> c \<le> 65312) \<or> (65339 \<le> c \<and> c \<le> 65344) \<or>
           (65371 \<le> c \<and> c \<le> 65381))"

definition normalized_alignment_text :: "(uchar \<Rightarrow> ustring) \<Rightarrow> ustring \<Rightarrow> ustring" where
  "normalized_alignment_text tbl v = concat (map (to_lowercase tbl) (filter (\<lambda>c. \<not> is_alignment_noise c) v))"

definition minimum_contained_alignment_chars :: nat where "minimum_contained_alignment_chars = 2"

datatype source_text_alignment = AlignExact | AlignContained nat | AlignUnrelated

definition align_source_text :: "(uchar \<Rightarrow> ustring) \<Rightarrow> ustring \<Rightarrow> ustring \<Rightarrow> source_text_alignment" where
  "align_source_text tbl auxiliary canonical =
     (let auxiliary = normalized_alignment_text tbl auxiliary;
          canonical = normalized_alignment_text tbl canonical
      in if auxiliary = [] then AlignUnrelated
         else if auxiliary = canonical then AlignExact
         else if minimum_contained_alignment_chars \<le> length auxiliary \<and> str_contains auxiliary canonical
         then AlignContained (length canonical)
         else AlignUnrelated)"

section \<open>The score\<close>

text \<open>\<^verbatim>\<open>TranslationInboxAlignmentScore\<close> and \<^verbatim>\<open>TimelineAlignmentScore\<close> have the same fields.\<close>

record alignment_score =
  sc_exact :: bool
  sc_contained :: bool
  sc_canonical_chars :: nat
  sc_overlap :: nat
  sc_language :: bool
  sc_distance :: nat
  sc_sequence :: nat

definition abs_diff :: "nat \<Rightarrow> nat \<Rightarrow> nat" where
  "abs_diff a b = (if a < b then b - a else a - b)"

definition initial_score :: "source_text_alignment \<Rightarrow> bool \<Rightarrow> nat \<Rightarrow> alignment_score" where
  "initial_score alignment language sequence =
     \<lparr>sc_exact = (alignment = AlignExact),
      sc_contained = (case alignment of AlignContained _ \<Rightarrow> True | _ \<Rightarrow> False),
      sc_canonical_chars = (case alignment of AlignContained n \<Rightarrow> n | _ \<Rightarrow> u64_max),
      sc_overlap = 0, sc_language = language, sc_distance = u64_max, sc_sequence = sequence\<rparr>"

definition timestamp_overlap_per_mille :: "nat \<Rightarrow> nat \<Rightarrow> nat \<Rightarrow> nat \<Rightarrow> nat option" where
  "timestamp_overlap_per_mille left_start left_end right_start right_end =
     (if left_end < left_start \<or> right_end < right_start then None
      else
        (let intersection_start = max left_start right_start;
             intersection_end = min left_end right_end;
             both_have_duration = (left_start < left_end \<and> right_start < right_end)
         in if intersection_end < intersection_start \<or> both_have_duration \<and> intersection_end = intersection_start then None
            else
              (let shorter = min (left_end - left_start) (right_end - right_start)
               in if shorter = 0 then Some 1000 else Some (min ((intersection_end - intersection_start) * 1000 div shorter) 1000))))"

text \<open>The store halves the distance of the sums, the interface the sums.\<close>

definition inbox_midpoint_distance :: "nat \<Rightarrow> nat \<Rightarrow> nat \<Rightarrow> nat \<Rightarrow> nat" where
  "inbox_midpoint_distance ls le rs re = abs_diff (sat_u64_add ls le) (sat_u64_add rs re) div 2"

definition timeline_midpoint_distance :: "nat \<Rightarrow> nat \<Rightarrow> nat \<Rightarrow> nat \<Rightarrow> nat" where
  "timeline_midpoint_distance ls le rs re = abs_diff (sat_u64_add ls le div 2) (sat_u64_add rs re div 2)"

definition score_with ::
    "(nat \<Rightarrow> nat \<Rightarrow> nat \<Rightarrow> nat \<Rightarrow> nat) \<Rightarrow> source_text_alignment \<Rightarrow> bool \<Rightarrow> nat option \<Rightarrow> nat option \<Rightarrow> utterance \<Rightarrow> alignment_score option" where
  "score_with distance alignment language start stop u =
     (let score = initial_score alignment language (ut_sequence u) in
      case (start, stop, ut_source_start_ms u, ut_source_end_ms u) of
        (Some ls, Some le, Some rs, Some re) \<Rightarrow>
          if le < ls \<or> re < rs then None
          else
            (case timestamp_overlap_per_mille ls le rs re of
               None \<Rightarrow> None
             | Some overlap \<Rightarrow> Some (score\<lparr>sc_distance := distance ls le rs re, sc_overlap := overlap\<rparr>))
      | _ \<Rightarrow> if sc_exact score \<or> sc_contained score then Some score else None)"

definition inbox_alignment_score :: "(uchar \<Rightarrow> ustring) \<Rightarrow> inbox_item \<Rightarrow> utterance \<Rightarrow> alignment_score option" where
  "inbox_alignment_score tbl i u =
     score_with inbox_midpoint_distance (align_source_text tbl (it_source_text i) (ut_source_text u))
       (canonical_language (it_source_language i) = canonical_language (ut_source_language u))
       (it_source_start_ms i) (it_source_end_ms i) u"

definition inbox_matches_utterance :: "(uchar \<Rightarrow> ustring) \<Rightarrow> inbox_item \<Rightarrow> utterance \<Rightarrow> bool" where
  "inbox_matches_utterance tbl i u \<longleftrightarrow> inbox_alignment_score tbl i u \<noteq> None"

definition evidence_eq :: "alignment_score \<Rightarrow> alignment_score \<Rightarrow> bool" where
  "evidence_eq l r \<longleftrightarrow>
     sc_exact l = sc_exact r \<and> sc_contained l = sc_contained r \<and> sc_canonical_chars l = sc_canonical_chars r \<and>
     sc_overlap l = sc_overlap r \<and> sc_language l = sc_language r \<and> sc_distance l = sc_distance r"

text \<open>\<^verbatim>\<open>sort_by\<close> with the comparisons chained by \<^verbatim>\<open>then_with\<close>: the key that is compared, larger evidence first.\<close>

definition evidence_key :: "alignment_score \<Rightarrow> nat list" where
  "evidence_key s =
     [of_bool (\<not> sc_exact s), of_bool (\<not> sc_contained s), sc_canonical_chars s, 1000 - sc_overlap s,
      of_bool (\<not> sc_language s), sc_distance s]"

definition ranked :: "('a \<Rightarrow> nat) \<Rightarrow> ('a \<Rightarrow> alignment_score option) \<Rightarrow> 'a list \<Rightarrow> (alignment_score \<times> nat) list" where
  "ranked sequence score us =
     sort_key (\<lambda>(s, _). evidence_key s @ [sc_sequence s])
       (List.map_filter (\<lambda>u. map_option (\<lambda>s. (s, sequence u)) (score u)) us)"

definition equally_supported :: "(alignment_score \<times> nat) list \<Rightarrow> nat set" where
  "equally_supported xs = (case xs of [] \<Rightarrow> {} | (best, _) # _ \<Rightarrow> set (map snd (takeWhile (\<lambda>(s, _). evidence_eq best s) xs)))"

definition unique_inbox_candidate :: "(uchar \<Rightarrow> ustring) \<Rightarrow> inbox_item \<Rightarrow> utterance list \<Rightarrow> nat option" where
  "unique_inbox_candidate tbl i us =
     (let xs = ranked ut_sequence (inbox_alignment_score tbl i) us in
      case xs of
        [] \<Rightarrow> None
      | (_, sequence) # _ \<Rightarrow> if card (equally_supported xs) = 1 then Some sequence else None)"

section \<open>The score of the interface\<close>

record pending_variant =
  pv_session_id :: ustring
  pv_group_epoch :: nat
  pv_source_sequence :: nat
  pv_target_language :: ustring
  pv_source_language :: ustring
  pv_source_text :: ustring
  pv_source_start_ms :: "nat option"
  pv_source_end_ms :: "nat option"
  pv_completion :: utterance_completion

record canonical_match =
  cm_group_epoch :: nat
  cm_utterance :: utterance

definition pending_from_inbox :: "inbox_item \<Rightarrow> pending_variant option" where
  "pending_from_inbox i =
     (if it_withdrawn i \<or> it_bound_sequence i \<noteq> None then None
      else
        (case (it_translated_text i, it_completion i) of
           (Some _, Some completion) \<Rightarrow>
             Some \<lparr>pv_session_id = ik_session_id (it_key i), pv_group_epoch = ik_group_epoch (it_key i),
                   pv_source_sequence = ik_provider_sequence (it_key i),
                   pv_target_language = normalize_language (ik_target_language (it_key i)),
                   pv_source_language = normalize_language (it_source_language i), pv_source_text = it_source_text i,
                   pv_source_start_ms = it_source_start_ms i, pv_source_end_ms = it_source_end_ms i,
                   pv_completion = completion\<rparr>
         | _ \<Rightarrow> None))"

definition timeline_alignment_score :: "(uchar \<Rightarrow> ustring) \<Rightarrow> pending_variant \<Rightarrow> canonical_match \<Rightarrow> alignment_score option" where
  "timeline_alignment_score tbl p c =
     (if cm_group_epoch c \<noteq> pv_group_epoch p then None
      else score_with timeline_midpoint_distance (align_source_text tbl (pv_source_text p) (ut_source_text (cm_utterance c)))
             (normalize_language (ut_source_language (cm_utterance c)) = pv_source_language p)
             (pv_source_start_ms p) (pv_source_end_ms p) (cm_utterance c))"

definition ranked_canonical_sequences :: "(uchar \<Rightarrow> ustring) \<Rightarrow> pending_variant \<Rightarrow> canonical_match list \<Rightarrow> nat list" where
  "ranked_canonical_sequences tbl p cs =
     (let xs = ranked (\<lambda>c. ut_sequence (cm_utterance c)) (timeline_alignment_score tbl p) cs in
      if 1 < card (equally_supported xs) then [] else map snd xs)"

definition cross_row_overlap_warn_per_mille :: nat where "cross_row_overlap_warn_per_mille = 500"

definition cross_row_translation_spans :: "(uchar \<Rightarrow> ustring) \<Rightarrow> pending_variant \<Rightarrow> nat \<Rightarrow> canonical_match list \<Rightarrow> nat list" where
  "cross_row_translation_spans tbl p bound cs =
     remdups_adj (sort (List.map_filter
       (\<lambda>c. if cm_group_epoch c \<noteq> pv_group_epoch p \<or> ut_sequence (cm_utterance c) = bound then None
            else (case timeline_alignment_score tbl p c of
                    Some s \<Rightarrow> if cross_row_overlap_warn_per_mille \<le> sc_overlap s then Some (ut_sequence (cm_utterance c)) else None
                  | None \<Rightarrow> None)) cs))"

end
