(* ===== verification/Capture_Rows.thy ===== *)
theory Capture_Rows
  imports Capture_Alignment
begin

text \<open>
  The rows of a capture as they are written during a recording
  (\<^verbatim>\<open>crates/vt-store/src/notebook_capture_store.rs\<close>): the canonical source (\<open>upsert_utterance\<close>,
  \<open>remove_partial_utterance\<close>), the language lanes of its translations, and the inbox of auxiliary
  translations, which are kept as they come and bound to a row when the evidence is unique. Every
  function is the body of one transaction: on an error nothing is written.
\<close>

section \<open>Helpers\<close>

definition visible :: "capture_db \<Rightarrow> utterance \<Rightarrow> store_error + capture_db \<times> utterance" where
  "visible db u = and_then (apply_utterance_overrides db u) (\<lambda>v. Inr (db, v))"

definition no_utterance :: "ustring \<Rightarrow> store_error" where
  "no_utterance i = StNotFound (lit ''utterance '' @ i)"

definition require_by_id :: "ustring \<Rightarrow> capture_db \<Rightarrow> store_error + utterance" where
  "require_by_id i db = ok_or (no_utterance i) (machine_utterance_by_id i db)"

definition require_by_sequence :: "ustring \<Rightarrow> nat \<Rightarrow> capture_db \<Rightarrow> store_error + utterance" where
  "require_by_sequence session_id sequence db =
     and_then (machine_utterance_by_sequence session_id sequence db) (ok_or (no_utterance (row_name session_id sequence)))"

definition visible_by_id :: "ustring \<Rightarrow> capture_db \<Rightarrow> store_error + capture_db \<times> utterance" where
  "visible_by_id i db = and_then (require_by_id i db) (visible db)"

definition final_variant :: "variant \<Rightarrow> bool" where
  "final_variant v \<longleftrightarrow> vr_state v = VarReady \<and> vr_completion v = Some CompleteFact"

definition translation_fact :: "utterance \<Rightarrow> bool" where
  "translation_fact u \<longleftrightarrow> (\<exists>v\<in>set (ut_variants u). vr_role v = RoleTranslation \<and> ready_variant v)"

definition is_shadow :: "utterance \<Rightarrow> ustring \<Rightarrow> bool" where
  "is_shadow u language \<longleftrightarrow>
     (case ut_translated_language u of None \<Rightarrow> False | Some l \<Rightarrow> canonical_language l = language)"

definition target_is_source :: "utterance \<Rightarrow> ustring \<Rightarrow> bool" where
  "target_is_source u language \<longleftrightarrow> has_source_lane u \<and> canonical_language (ut_source_language u) = language"

section \<open>Language lanes\<close>

datatype lane_write = FinalIsImmutable | DetachDerivedBinding | ComposeAuxiliarySegments

text \<open>Whether a lane may be written: \<open>False\<close> when what is there stays.\<close>

definition admit_lane_write ::
    "ustring \<Rightarrow> lane_write \<Rightarrow> ustring option \<Rightarrow> variant_state \<Rightarrow> utterance_completion option \<Rightarrow> variant option \<Rightarrow> store_error + bool" where
  "admit_lane_write name w body state completion existing =
     (case existing of
        None \<Rightarrow> Inr True
      | Some v \<Rightarrow>
          if vr_role v = RoleTranslation \<and> vr_state v = state \<and> vr_text v = body \<and> vr_completion v = completion then Inr False
          else if vr_role v = RoleTranslation \<and> final_variant v then
            if w = DetachDerivedBinding then
              Inl (StConflict (lit ''cannot detach completed derived translation variant '' @ name))
            else
              (let incoming_is_final = (state = VarReady \<and> completion = Some CompleteFact);
                   extends_final_lane =
                     (w = ComposeAuxiliarySegments \<and> incoming_is_final \<and>
                      (case (vr_text v, body) of
                         (Some settled, Some incoming) \<Rightarrow> str_len settled < str_len incoming \<and> starts_with settled incoming
                       | _ \<Rightarrow> False))
               in if \<not> incoming_is_final \<and> \<not> extends_final_lane then Inr False
                  else if \<not> extends_final_lane then
                    Inl (StConflict (lit ''final machine utterance variant '' @ name @ lit '' is immutable''))
                  else Inr True)
          else Inr True)"

definition lane_row ::
    "ustring \<Rightarrow> ustring \<Rightarrow> ustring option \<Rightarrow> variant_state \<Rightarrow> utterance_completion option \<Rightarrow> variant" where
  "lane_row now language body state completion =
     \<lparr>vr_language = language, vr_role = RoleTranslation, vr_text = body, vr_state = state, vr_completion = completion,
      vr_revision = 0, vr_created_at = now, vr_updated_at = now, vr_projection_revision = 0, vr_edit_revision = 0\<rparr>"

text \<open>The \<^verbatim>\<open>CHECK\<close>s of the table.\<close>

definition lane_row_allowed :: "ustring \<Rightarrow> ustring option \<Rightarrow> variant_state \<Rightarrow> utterance_completion option \<Rightarrow> bool" where
  "lane_row_allowed language body state completion \<longleftrightarrow>
     sql_language language \<noteq> [] \<and>
     (state = VarReady \<and> body \<noteq> None \<and> completion \<noteq> None \<or> state \<noteq> VarReady \<and> body = None \<and> completion = None)"

definition put_lane ::
    "ustring \<Rightarrow> ustring \<Rightarrow> ustring \<Rightarrow> ustring option \<Rightarrow> variant_state \<Rightarrow> utterance_completion option \<Rightarrow> capture_db \<Rightarrow>
     store_error + capture_db" where
  "put_lane now i language body state completion db =
     (if \<not> lane_row_allowed language body state completion then Inl (StSqlite (lit ''CHECK constraint failed''))
      else
        Inr (update_variants i
          (upsert_variant (lane_row now language body state completion)
             (\<lambda>v. v\<lparr>vr_role := RoleTranslation, vr_text := body, vr_state := state, vr_completion := completion,
                    vr_revision := vr_revision v + 1, vr_updated_at := now\<rparr>)) db))"

definition set_shadow :: "ustring \<Rightarrow> ustring \<Rightarrow> ustring option \<Rightarrow> ustring option \<Rightarrow> utterance_alignment \<Rightarrow> capture_db \<Rightarrow> capture_db" where
  "set_shadow now i language body alignment =
     update_utterances (\<lambda>u. ut_id u = i)
       (\<lambda>u. u\<lparr>ut_translated_language := language, ut_translated_text := body, ut_alignment := alignment, ut_updated_at := now\<rparr>)"

definition variants_of :: "ustring \<Rightarrow> capture_db \<Rightarrow> variant list" where
  "variants_of i db = (case find (\<lambda>u. ut_id u = i) (db_utterances db) of None \<Rightarrow> [] | Some u \<Rightarrow> ut_variants u)"

definition first_ready_translation :: "ustring \<Rightarrow> capture_db \<Rightarrow> variant option" where
  "first_ready_translation i db =
     (case sort_key vr_created_at (sort_key (\<lambda>v. sql_language (vr_language v))
             (filter (\<lambda>v. vr_role v = RoleTranslation \<and> vr_state v = VarReady) (variants_of i db))) of
        [] \<Rightarrow> None
      | v # _ \<Rightarrow> Some v)"

definition update_shadow :: "ustring \<Rightarrow> utterance \<Rightarrow> ustring \<Rightarrow> ustring option \<Rightarrow> variant_state \<Rightarrow> capture_db \<Rightarrow> capture_db" where
  "update_shadow now u language body state db =
     (if state = VarReady \<and> (ut_translated_language u = None \<or> is_shadow u language) then
        set_shadow now (ut_id u) (Some language) body Paired db
      else if state \<noteq> VarReady \<and> is_shadow u language then
        (case first_ready_translation (ut_id u) db of
           Some v \<Rightarrow> set_shadow now (ut_id u) (Some (canonical_language (vr_language v))) (vr_text v) Paired db
         | None \<Rightarrow>
             set_shadow now (ut_id u) None None
               (if \<exists>v\<in>set (variants_of (ut_id u) db). vr_role v = RoleTranslation \<and> vr_state v = VarWaiting
                then TranslationPending else SourceOnly) db)
      else db)"

definition stamp_variants :: "(variant \<Rightarrow> bool) \<Rightarrow> nat \<Rightarrow> variant list \<Rightarrow> variant list" where
  "stamp_variants p n = map (\<lambda>v. if p v then v\<lparr>vr_projection_revision := n\<rparr> else v)"

definition stamp_lane :: "ustring \<Rightarrow> ustring \<Rightarrow> ustring \<Rightarrow> capture_db \<Rightarrow> store_error + capture_db" where
  "stamp_lane session_id i language db =
     and_then (bump_desired_revision session_id db) (\<lambda>(db, n).
       Inr (update_variants i
              (stamp_variants (\<lambda>v. sql_language (vr_language v) = language \<and> vr_role v = RoleTranslation) n) db))"

definition upsert_lane ::
    "ustring \<Rightarrow> ustring \<Rightarrow> nat \<Rightarrow> ustring \<Rightarrow> ustring option \<Rightarrow> variant_state \<Rightarrow> utterance_completion option \<Rightarrow> lane_write \<Rightarrow>
     capture_db \<Rightarrow> store_error + capture_db \<times> utterance" where
  "upsert_lane now session_id sequence language body state completion w db =
     (let language = canonical_language language; name = row_name session_id sequence @ lit '':'' @ language in
      and_then (require_by_sequence session_id sequence db) (\<lambda>u.
        if target_is_source u language then
          Inl (StValidation (lit ''translation variant '' @ language @ lit '' duplicates the source language''))
        else
          and_then (admit_lane_write name w body state completion (variant_in language u)) (\<lambda>write.
            if \<not> write then visible db u
            else
              and_then (put_lane now (ut_id u) language body state completion db) (\<lambda>db.
              and_then (if state = VarReady \<and> completion = Some CompleteFact
                        then stamp_lane session_id (ut_id u) language (update_shadow now u language body state db)
                        else Inr (update_shadow now u language body state db)) (\<lambda>db.
                visible_by_id (ut_id u) db)))))"

definition upsert_translation_variant ::
    "ustring \<Rightarrow> ustring \<Rightarrow> nat \<Rightarrow> ustring \<Rightarrow> ustring option \<Rightarrow> variant_state \<Rightarrow> utterance_completion option \<Rightarrow>
     capture_db \<Rightarrow> store_error + capture_db \<times> utterance" where
  "upsert_translation_variant now session_id sequence language body state completion db =
     and_then (require_nonempty ''session_id'' session_id) (\<lambda>_.
     and_then (validate_language language) (\<lambda>_.
     and_then (validate_variant_payload body state completion) (\<lambda>_.
     and_then (ensure_active_realtime_session session_id db) (\<lambda>_.
       upsert_lane now session_id sequence language body state completion FinalIsImmutable db))))"

definition waiting_lanes :: "ustring \<Rightarrow> capture_db \<Rightarrow> (nat \<times> ustring) list" where
  "waiting_lanes session_id db =
     concat (map (\<lambda>u. map (\<lambda>v. (ut_sequence u, vr_language v))
                        (filter (\<lambda>v. vr_role v = RoleTranslation \<and> vr_state v = VarWaiting) (sort_key vr_language (ut_variants u))))
       (sort_key ut_sequence (filter (\<lambda>u. ut_session_id u = session_id) (db_utterances db))))"

definition mark_waiting_translation_variants_unavailable ::
    "ustring \<Rightarrow> ustring \<Rightarrow> capture_db \<Rightarrow> store_error + capture_db \<times> utterance list" where
  "mark_waiting_translation_variants_unavailable now session_id db =
     and_then (require_nonempty ''session_id'' session_id) (\<lambda>_.
     and_then (ensure_realtime_session_provenance session_id db) (\<lambda>_.
       fold_ok (\<lambda>(sequence, language) (db, us).
           and_then (upsert_lane now session_id sequence language None VarUnavailable None FinalIsImmutable db) (\<lambda>(db, u).
             Inr (db, us @ [u])))
         (waiting_lanes session_id db) (db, [])))"

section \<open>The inbox\<close>

definition same_key :: "inbox_key \<Rightarrow> inbox_item \<Rightarrow> bool" where
  "same_key k i \<longleftrightarrow>
     ik_session_id (it_key i) = ik_session_id k \<and> ik_group_epoch (it_key i) = ik_group_epoch k \<and>
     ik_provider_sequence (it_key i) = ik_provider_sequence k \<and>
     ik_target_language (it_key i) = canonical_language (ik_target_language k)"

definition inbox_item_of :: "inbox_key \<Rightarrow> capture_db \<Rightarrow> inbox_item option" where
  "inbox_item_of k db = find (same_key k) (db_inbox db)"

definition key_order :: "inbox_item \<Rightarrow> nat list" where
  "key_order i =
     [ik_group_epoch (it_key i), ik_lane_index (it_key i), ik_provider_sequence (it_key i)] @ ik_target_language (it_key i)"

definition list_translation_inbox :: "ustring \<Rightarrow> capture_db \<Rightarrow> inbox_item list" where
  "list_translation_inbox session_id db =
     sort_key key_order (filter (\<lambda>i. ik_session_id (it_key i) = session_id) (db_inbox db))"

definition key_name :: "inbox_key \<Rightarrow> ustring" where
  "key_name k =
     ik_session_id k @ lit '':'' @ show_nat (ik_lane_index k) @ lit '':'' @ show_nat (ik_group_epoch k) @ lit '':'' @
     show_nat (ik_provider_sequence k) @ lit '':'' @ ik_target_language k"

definition require_item :: "inbox_key \<Rightarrow> capture_db \<Rightarrow> store_error + inbox_item" where
  "require_item k db = ok_or (StNotFound (lit ''translation inbox '' @ key_name k)) (inbox_item_of k db)"

text \<open>The text of a lane is the concatenation of the segments bound to it, in the order of the provider.\<close>

definition append_segment :: "ustring \<Rightarrow> ustring \<Rightarrow> ustring" where
  "append_segment body raw =
     (let s = trim_end raw in
      if s = [] then body
      else body @ (if body \<noteq> [] \<and> \<not> is_whitespace (last body) \<and> \<not> is_whitespace (hd s) then [32] else []) @ s)"

definition lane_segments :: "ustring \<Rightarrow> ustring \<Rightarrow> nat \<Rightarrow> capture_db \<Rightarrow> inbox_item list" where
  "lane_segments i language epoch db =
     sort_key (\<lambda>x. [ik_provider_sequence (it_key x), ik_lane_index (it_key x)])
       (filter (\<lambda>x. it_bound_utterance_id x = Some i \<and> ik_target_language (it_key x) = canonical_language language \<and>
                    ik_group_epoch (it_key x) = epoch \<and> \<not> it_withdrawn x \<and> it_translated_text x \<noteq> None) (db_inbox db))"

definition composed_lane :: "inbox_item list \<Rightarrow> (ustring \<times> utterance_completion option) option" where
  "composed_lane xs =
     (let body = foldl append_segment [] (map (\<lambda>x. case it_translated_text x of Some t \<Rightarrow> t | None \<Rightarrow> []) xs) in
      if xs = [] \<or> body = [] then None
      else Some (body,
        if \<forall>x\<in>set xs. it_completion x = Some CompleteFact then Some CompleteFact
        else if \<exists>x\<in>set xs. it_completion x \<noteq> None then Some PartialFact
        else None))"

definition und :: ustring where "und = lit ''und''"

text \<open>\<^verbatim>\<open>adopt_translation_inbox_source_language\<close>\<close>

definition adopts :: "inbox_item \<Rightarrow> utterance \<Rightarrow> bool" where
  "adopts i u \<longleftrightarrow>
     \<not> it_withdrawn i \<and> canonical_language (it_source_language i) \<noteq> und \<and> canonical_language (ut_source_language u) = und \<and>
     \<not> (\<exists>v\<in>set (ut_variants u). canonical_language (vr_language v) = canonical_language (it_source_language i) \<and>
          vr_role v = RoleTranslation \<and> vr_state v = VarReady)"

definition rename_source :: "ustring \<Rightarrow> ustring \<Rightarrow> variant list \<Rightarrow> variant list" where
  "rename_source now adopted vs =
     map (\<lambda>v. if vr_role v = RoleSource \<and> sql_language (vr_language v) = und
              then v\<lparr>vr_language := adopted, vr_revision := vr_revision v + 1, vr_updated_at := now\<rparr> else v)
       (filter (\<lambda>v. \<not> (vr_role v = RoleTranslation \<and> sql_language (vr_language v) = adopted \<and> vr_state v \<noteq> VarReady)) vs)"

definition stamp_source :: "ustring \<Rightarrow> nat \<Rightarrow> capture_db \<Rightarrow> capture_db" where
  "stamp_source i n =
     update_utterances (\<lambda>u. ut_id u = i)
       (\<lambda>u. u\<lparr>ut_source_projection_revision := n,
              ut_variants := stamp_variants (\<lambda>v. vr_role v = RoleSource) n (ut_variants u)\<rparr>)"

definition adopt_source_language ::
    "ustring \<Rightarrow> inbox_item \<Rightarrow> utterance \<Rightarrow> capture_db \<Rightarrow> store_error + capture_db \<times> utterance" where
  "adopt_source_language now i u db =
     (if \<not> adopts i u then Inr (db, u)
      else
        (let adopted = canonical_language (it_source_language i);
             renamed = (\<exists>v\<in>set (ut_variants u). vr_role v = RoleSource \<and> sql_language (vr_language v) = und);
             db = update_utterances (\<lambda>x. ut_id x = ut_id u)
                    (\<lambda>x. x\<lparr>ut_variants := rename_source now adopted (ut_variants x), ut_source_language := adopted,
                           ut_updated_at := now\<rparr>) db
         in and_then
              (if \<not> renamed then Inr db
               else if source_lane_is_complete u then
                 and_then (bump_desired_revision (ut_session_id u) db) (\<lambda>(db, n). Inr (stamp_source (ut_id u) n db))
               else Inr (stamp_source (ut_id u) 0 db))
              (visible_by_id (ut_id u))))"

text \<open>\<^verbatim>\<open>claim_auxiliary_final_from_provisional_source\<close>\<close>

definition claimable_source :: "ustring \<Rightarrow> variant \<Rightarrow> bool" where
  "claimable_source language v \<longleftrightarrow>
     vr_role v = RoleSource \<and> sql_language (vr_language v) = language \<and> vr_state v = VarReady \<and> vr_completion v = Some PartialFact"

definition claim_lane ::
    "ustring \<Rightarrow> utterance \<Rightarrow> inbox_item \<Rightarrow> ustring option \<Rightarrow> capture_db \<Rightarrow> store_error + capture_db \<times> utterance" where
  "claim_lane now u i composed db =
     (let language = canonical_language (ik_target_language (it_key i)) in
      and_then (ok_or (StCorruptData (lit ''auxiliary Final owner claim has no translated text''))
                  (case composed of Some t \<Rightarrow> Some t | None \<Rightarrow> it_translated_text i)) (\<lambda>body.
        if length (filter (claimable_source language) (variants_of (ut_id u) db)) \<noteq> 1 then
          Inl (StConflict (lit ''provisional source owner '' @ row_name (ut_session_id u) (ut_sequence u) @ lit '':'' @ language @
            lit '' changed before auxiliary Final''))
        else
          (let db = update_utterances (\<lambda>x. ut_id x = ut_id u)
                 (\<lambda>x. x\<lparr>ut_variants :=
                        map (\<lambda>v. if claimable_source language v
                                 then v\<lparr>vr_role := RoleTranslation, vr_text := Some body, vr_state := VarReady,
                                        vr_completion := Some CompleteFact, vr_revision := vr_revision v + 1,
                                        vr_projection_revision := 0, vr_updated_at := now\<rparr>
                                 else v) (ut_variants x),
                        ut_translated_language := Some language, ut_translated_text := Some body, ut_alignment := Paired,
                        ut_source_projection_revision := 0, ut_updated_at := now\<rparr>) db
           in and_then (bump_desired_revision (ut_session_id u) db) (\<lambda>(db, n).
                visible_by_id (ut_id u)
                  (update_variants (ut_id u)
                     (stamp_variants (\<lambda>v. vr_role v = RoleTranslation \<and> sql_language (vr_language v) = language \<and>
                                          vr_completion v = Some CompleteFact) n) db)))))"

definition collect_empty_shell :: "capture_db \<Rightarrow> utterance \<Rightarrow> store_error + capture_db \<times> utterance option" where
  "collect_empty_shell db u =
     (if has_source_fact u \<or> translation_fact u then Inr (db, Some u)
      else if (\<exists>x\<in>set (db_overrides db). ov_utterance_id x = ut_id u) \<or> (\<exists>m\<in>set (db_mutations db). pm_utterance_id m = ut_id u)
      then Inr (db, Some u)
      else if \<not> (\<exists>x\<in>set (db_utterances db). ut_id x = ut_id u) then
        Inl (StConflict (lit ''translation-only shell '' @ ut_id u @ lit '' changed before withdrawal collection''))
      else Inr (delete_utterance (ut_id u) db, None))"

definition some_result :: "store_error + 'a \<times> 'b \<Rightarrow> store_error + 'a \<times> 'b option" where
  "some_result r = and_then r (\<lambda>(a, b). Inr (a, Some b))"

text \<open>\<^verbatim>\<open>apply_translation_inbox_to_bound_utterance\<close>: what a bound fact does to the lane of its row.\<close>

definition withdraw_lane ::
    "ustring \<Rightarrow> inbox_item \<Rightarrow> nat \<Rightarrow> lane_write \<Rightarrow> capture_db \<Rightarrow> store_error + capture_db \<times> utterance option" where
  "withdraw_lane now i sequence w db =
     and_then (upsert_lane now (ik_session_id (it_key i)) sequence (ik_target_language (it_key i)) None VarWaiting None w db)
       (\<lambda>(db, u). collect_empty_shell db u)"

definition apply_withdrawal ::
    "ustring \<Rightarrow> inbox_item \<Rightarrow> nat \<Rightarrow> utterance \<Rightarrow> capture_db \<Rightarrow> store_error + capture_db \<times> utterance option" where
  "apply_withdrawal now i sequence u db =
     (case find (\<lambda>v. vr_role v = RoleTranslation \<and>
                     canonical_language (vr_language v) = canonical_language (ik_target_language (it_key i))) (ut_variants u) of
        Some v \<Rightarrow>
          if vr_completion v = Some CompleteFact then
            Inl (StConflict (lit ''final machine utterance variant '' @ row_name (ik_session_id (it_key i)) sequence @ lit '':'' @
              ik_target_language (it_key i) @ lit '' is immutable''))
          else if vr_state v = VarWaiting then and_then (apply_utterance_overrides db u) (collect_empty_shell db)
          else withdraw_lane now i sequence FinalIsImmutable db
      | None \<Rightarrow> withdraw_lane now i sequence FinalIsImmutable db)"

definition auxiliary_is_final :: "inbox_item \<Rightarrow> bool" where
  "auxiliary_is_final i \<longleftrightarrow> \<not> it_withdrawn i \<and> it_completion i = Some CompleteFact"

definition source_is_mutable :: "inbox_item \<Rightarrow> utterance \<Rightarrow> capture_db \<Rightarrow> store_error + bool" where
  "source_is_mutable i u db =
     (if has_source_lane u \<and> \<not> source_lane_is_complete u \<and> auxiliary_is_final i
      then capture_session_is_active (ik_session_id (it_key i)) db else Inr False)"

definition claims_owner :: "inbox_item \<Rightarrow> utterance \<Rightarrow> bool \<Rightarrow> (ustring \<times> utterance_completion option) option \<Rightarrow> bool" where
  "claims_owner i u mutable composed \<longleftrightarrow>
     target_is_source u (canonical_language (ik_target_language (it_key i))) \<and> \<not> source_lane_is_complete u \<and>
     auxiliary_is_final i \<and> \<not> mutable \<and> (case composed of Some (_, c) \<Rightarrow> c = Some CompleteFact | None \<Rightarrow> False)"

definition place_fact ::
    "ustring \<Rightarrow> inbox_item \<Rightarrow> nat \<Rightarrow> utterance \<Rightarrow> capture_db \<Rightarrow> bool \<Rightarrow> store_error + capture_db \<times> utterance option" where
  "place_fact now i sequence u db mutable =
     (let composed = composed_lane (lane_segments (ut_id u) (ik_target_language (it_key i)) (ik_group_epoch (it_key i)) db);
          (body, completion) = (case composed of Some (t, c) \<Rightarrow> (Some t, c) | None \<Rightarrow> (it_translated_text i, it_completion i))
      in if target_is_source u (canonical_language (ik_target_language (it_key i))) \<and> \<not> claims_owner i u mutable composed
         then Inr (db, None)
         else if it_withdrawn i then apply_withdrawal now i sequence u db
         else if claims_owner i u mutable composed then some_result (claim_lane now u i (map_option fst composed) db)
         else
           some_result (upsert_lane now (ik_session_id (it_key i)) sequence (ik_target_language (it_key i)) body VarReady
             (if mutable \<and> completion = Some CompleteFact then Some PartialFact else completion) ComposeAuxiliarySegments db))"

definition apply_inbox_item ::
    "ustring \<Rightarrow> inbox_item \<Rightarrow> nat \<Rightarrow> capture_db \<Rightarrow> store_error + capture_db \<times> utterance option" where
  "apply_inbox_item now i sequence db =
     and_then (require_by_sequence (ik_session_id (it_key i)) sequence db) (\<lambda>u.
     and_then (adopt_source_language now i u db) (\<lambda>(db, u).
     and_then (source_is_mutable i u db) (place_fact now i sequence u db)))"

text \<open>\<^verbatim>\<open>apply_bound_translation_inbox_items_from_conn\<close>: what is present first, tombstones after. \<open>False\<close> when the
  row is gone.\<close>

fun apply_items :: "ustring \<Rightarrow> ustring \<Rightarrow> nat \<Rightarrow> inbox_item list \<Rightarrow> capture_db \<Rightarrow> store_error + capture_db \<times> bool" where
  "apply_items now i sequence [] db = Inr (db, True)"
| "apply_items now i sequence (x # xs) db =
     and_then (apply_inbox_item now x sequence db) (\<lambda>(db, _).
       if machine_utterance_by_id i db = None then Inr (db, False) else apply_items now i sequence xs db)"

definition bound_to :: "ustring \<Rightarrow> nat \<Rightarrow> inbox_item \<Rightarrow> bool" where
  "bound_to i sequence x \<longleftrightarrow> it_bound_utterance_id x = Some i \<and> it_bound_sequence x = Some sequence"

definition apply_bound_items :: "ustring \<Rightarrow> ustring \<Rightarrow> ustring \<Rightarrow> nat \<Rightarrow> capture_db \<Rightarrow> store_error + capture_db \<times> bool" where
  "apply_bound_items now session_id i sequence db =
     (let xs = filter (bound_to i sequence) (list_translation_inbox session_id db)
      in apply_items now i sequence (filter (\<lambda>x. \<not> it_withdrawn x) xs @ filter it_withdrawn xs) db)"

definition unbind :: "inbox_item \<Rightarrow> inbox_item" where
  "unbind x = x\<lparr>it_bound_utterance_id := None, it_bound_sequence := None\<rparr>"

definition detach_item :: "ustring \<Rightarrow> inbox_item \<Rightarrow> capture_db \<Rightarrow> store_error + capture_db \<times> utterance option" where
  "detach_item now i db =
     and_then (ok_or (StCorruptData (lit ''cannot detach an unbound translation inbox item'')) (it_bound_sequence i)) (\<lambda>sequence.
     and_then (ok_or (StCorruptData (lit ''translation inbox has a partial canonical binding'')) (it_bound_utterance_id i)) (\<lambda>row.
       if length (filter (\<lambda>x. same_key (it_key i) x \<and> bound_to row sequence x) (db_inbox db)) \<noteq> 1 then
         Inl (StConflict (lit ''translation inbox binding changed while revalidating identity''))
       else
         (let db = update_inbox (\<lambda>x. same_key (it_key i) x \<and> bound_to row sequence x) unbind db;
              target = canonical_language (ik_target_language (it_key i))
          in case machine_utterance_by_id row db of
               None \<Rightarrow> Inr (db, None)
             | Some u \<Rightarrow>
                 if target_is_source u target then Inr (db, Some u)
                 else
                   (case find (\<lambda>x. \<not> it_withdrawn x \<and> bound_to row sequence x \<and>
                                   canonical_language (ik_target_language (it_key x)) = target)
                           (list_translation_inbox (ik_session_id (it_key i)) db) of
                      Some x \<Rightarrow> apply_inbox_item now x sequence db
                    | None \<Rightarrow> withdraw_lane now i sequence DetachDerivedBinding db))))"

definition revalidate_bound_items ::
    "ustring \<Rightarrow> (uchar \<Rightarrow> ustring) \<Rightarrow> ustring \<Rightarrow> ustring \<Rightarrow> nat \<Rightarrow> capture_db \<Rightarrow> store_error + capture_db" where
  "revalidate_bound_items now tbl session_id i sequence db =
     and_then (require_by_id i db) (\<lambda>u.
       fold_ok (\<lambda>x db. and_then (detach_item now x db) (\<lambda>(db, _). Inr db))
         (filter (\<lambda>x. bound_to i sequence x \<and> \<not> inbox_matches_utterance tbl x u) (list_translation_inbox session_id db)) db)"

definition bind_item ::
    "ustring \<Rightarrow> (uchar \<Rightarrow> ustring) \<Rightarrow> inbox_key \<Rightarrow> nat \<Rightarrow> capture_db \<Rightarrow> store_error + capture_db \<times> utterance option" where
  "bind_item now tbl k sequence db =
     and_then (require_item k db) (\<lambda>i.
       if it_withdrawn i then Inr (db, None)
       else if (case it_bound_sequence i of Some b \<Rightarrow> b \<noteq> sequence | None \<Rightarrow> False) then
         Inl (StConflict (lit ''translation inbox item is already bound to sequence '' @
           show_nat (case it_bound_sequence i of Some b \<Rightarrow> b | None \<Rightarrow> 0)))
       else
         and_then (require_by_sequence (ik_session_id k) sequence db) (\<lambda>u.
           let target = canonical_language (ik_target_language k);
               claims = (target_is_source u target \<and> \<not> source_lane_is_complete u \<and> it_completion i = Some CompleteFact);
               evidence_only = (target_is_source u target \<and> \<not> claims);
               bindable = (\<lambda>x. same_key k x \<and> (it_bound_utterance_id x = None \<or> it_bound_utterance_id x = Some (ut_id u)))
           in if \<not> inbox_matches_utterance tbl i u then
                Inl (StConflict (lit ''translation inbox identity does not match canonical utterance '' @
                  row_name (ik_session_id k) sequence))
              else if \<exists>x\<in>set (db_inbox db). it_bound_utterance_id x = Some (ut_id u) \<and> ik_target_language (it_key x) = target \<and>
                        ik_group_epoch (it_key x) \<noteq> ik_group_epoch k then
                Inl (StConflict (lit ''canonical translation lane '' @ row_name (ik_session_id k) sequence @ lit '':'' @
                  ik_target_language k @ lit '' is bound to another stream epoch''))
              else if length (filter bindable (db_inbox db)) \<noteq> 1 then
                Inl (StConflict (lit ''translation inbox binding changed concurrently''))
              else
                (let db = update_inbox bindable
                       (\<lambda>x. x\<lparr>it_bound_utterance_id := Some (ut_id u), it_bound_sequence := Some sequence, it_updated_at := now\<rparr>) db
                 in if evidence_only then Inr (db, None) else apply_inbox_item now i sequence db)))"

end
