(* ===== verification/Capture_Writes.thy ===== *)
theory Capture_Writes
  imports Capture_Rows
begin

text \<open>
  The public writes of a recording in \<^verbatim>\<open>crates/vt-store/src/notebook_capture_store.rs\<close>: facts of the
  inbox, their reconciliation with the canonical rows, and the canonical source itself.
\<close>

section \<open>Reconciliation\<close>

record inbox_binding =
  bd_key :: inbox_key
  bd_sequence :: nat
  bd_utterance :: "utterance option"

definition unbound_candidate :: "inbox_item \<Rightarrow> bool" where
  "unbound_candidate i \<longleftrightarrow> \<not> it_withdrawn i \<and> it_bound_sequence i = None \<and> ik_group_epoch (it_key i) = 0"

text \<open>One fact: a conflict leaves it unbound (the savepoint is rolled back), other errors end the pass.\<close>

definition try_bind ::
    "ustring \<Rightarrow> (uchar \<Rightarrow> ustring) \<Rightarrow> inbox_key \<Rightarrow> nat \<Rightarrow> capture_db \<Rightarrow> store_error + capture_db \<times> inbox_binding option" where
  "try_bind now tbl k sequence db =
     (case bind_item now tbl k sequence db of
        Inr (db', u) \<Rightarrow> Inr (db', Some \<lparr>bd_key = k, bd_sequence = sequence, bd_utterance = u\<rparr>)
      | Inl (StConflict _) \<Rightarrow> Inr (db, None)
      | Inl e \<Rightarrow> Inl e)"

definition reconcile_one ::
    "ustring \<Rightarrow> (uchar \<Rightarrow> ustring) \<Rightarrow> utterance list \<Rightarrow> inbox_item \<Rightarrow> capture_db \<times> inbox_binding list \<Rightarrow>
     store_error + capture_db \<times> inbox_binding list" where
  "reconcile_one now tbl candidates i s =
     (case s of (db, bindings) \<Rightarrow>
        (case unique_inbox_candidate tbl i candidates of
           None \<Rightarrow> Inr (db, bindings)
         | Some sequence \<Rightarrow>
             and_then (try_bind now tbl (it_key i) sequence db) (\<lambda>(db, b).
               Inr (db, case b of None \<Rightarrow> bindings | Some b \<Rightarrow> bindings @ [b]))))"

definition reconcile_inbox ::
    "ustring \<Rightarrow> (uchar \<Rightarrow> ustring) \<Rightarrow> ustring \<Rightarrow> capture_db \<Rightarrow> store_error + capture_db \<times> inbox_binding list" where
  "reconcile_inbox now tbl session_id db =
     fold_ok (reconcile_one now tbl (list_machine_utterances session_id db))
       (filter unbound_candidate (list_translation_inbox session_id db)) (db, [])"

definition validate_inbox_key :: "inbox_key \<Rightarrow> store_error + unit" where
  "validate_inbox_key k =
     and_then (require_nonempty ''session_id'' (ik_session_id k)) (\<lambda>_. validate_language (ik_target_language k))"

definition bind_translation_inbox_item ::
    "ustring \<Rightarrow> (uchar \<Rightarrow> ustring) \<Rightarrow> inbox_key \<Rightarrow> nat \<Rightarrow> capture_db \<Rightarrow> store_error + capture_db \<times> utterance option" where
  "bind_translation_inbox_item now tbl k sequence db =
     and_then (validate_inbox_key k) (\<lambda>_.
     and_then (ensure_active_realtime_session (ik_session_id k) db) (\<lambda>_. bind_item now tbl k sequence db))"

definition bind_translation_inbox_item_if_unique ::
    "ustring \<Rightarrow> (uchar \<Rightarrow> ustring) \<Rightarrow> inbox_key \<Rightarrow> capture_db \<Rightarrow> store_error + capture_db \<times> inbox_binding option" where
  "bind_translation_inbox_item_if_unique now tbl k db =
     and_then (validate_inbox_key k) (\<lambda>_.
       if ik_group_epoch k \<noteq> 0 then Inr (db, None)
       else
         and_then (ensure_active_realtime_session (ik_session_id k) db) (\<lambda>_.
         and_then (require_item k db) (\<lambda>i.
           if it_withdrawn i then Inr (db, None)
           else
             (case (case it_bound_sequence i of Some n \<Rightarrow> Some n
                    | None \<Rightarrow> unique_inbox_candidate tbl i (list_machine_utterances (ik_session_id k) db)) of
                None \<Rightarrow> Inr (db, None)
              | Some sequence \<Rightarrow>
                  and_then (try_bind now tbl k sequence db) (\<lambda>(db, b). Inr (db, map_option (bd_key_update (\<lambda>_. it_key i)) b))))))"

definition reconcile_active_translation_inbox ::
    "ustring \<Rightarrow> (uchar \<Rightarrow> ustring) \<Rightarrow> ustring \<Rightarrow> capture_db \<Rightarrow> store_error + capture_db \<times> inbox_binding list" where
  "reconcile_active_translation_inbox now tbl session_id db =
     and_then (require_nonempty ''session_id'' session_id) (\<lambda>_.
     and_then (ensure_active_realtime_session session_id db) (\<lambda>_. reconcile_inbox now tbl session_id db))"

text \<open>\<open>arrange\<close> is the order in which a \<^verbatim>\<open>HashSet\<close> gives the bound rows.\<close>

definition bound_rows :: "ustring \<Rightarrow> capture_db \<Rightarrow> (ustring \<times> nat) list" where
  "bound_rows session_id db =
     remdups (List.map_filter
       (\<lambda>x. case (it_bound_utterance_id x, it_bound_sequence x) of (Some i, Some n) \<Rightarrow> Some (i, n) | _ \<Rightarrow> None)
       (list_translation_inbox session_id db))"

definition reconcile_translation_inbox_after_recovery ::
    "ustring \<Rightarrow> (uchar \<Rightarrow> ustring) \<Rightarrow> ((ustring \<times> nat) list \<Rightarrow> (ustring \<times> nat) list) \<Rightarrow> ustring \<Rightarrow> capture_db \<Rightarrow>
     store_error + capture_db \<times> nat" where
  "reconcile_translation_inbox_after_recovery now tbl arrange session_id db =
     and_then (require_nonempty ''session_id'' session_id) (\<lambda>_.
     and_then (ensure_realtime_session_provenance session_id db) (\<lambda>_.
     and_then (fold_ok (\<lambda>(i, n) db. and_then (apply_bound_items now session_id i n db) (\<lambda>(db, _). Inr db))
                 (arrange (bound_rows session_id db)) db) (\<lambda>db.
     and_then (reconcile_inbox now tbl session_id db) (\<lambda>(db, bs). Inr (db, length bs)))))"

section \<open>Facts of the inbox\<close>

definition validate_inbox_input :: "new_inbox_item \<Rightarrow> store_error + unit" where
  "validate_inbox_input n =
     and_then (validate_inbox_key (ni_key n)) (\<lambda>_.
     and_then (validate_language (ni_source_language n)) (\<lambda>_.
       if (case (ni_source_start_ms n, ni_source_end_ms n) of (Some s, Some e) \<Rightarrow> e < s | _ \<Rightarrow> False) then
         Inl (StValidation (lit ''translation inbox source_end_ms precedes source_start_ms''))
       else if \<not> ni_withdrawn n \<and> ni_translated_text n \<noteq> None \<and> ni_completion n \<noteq> None \<or>
               ni_withdrawn n \<and> ni_translated_text n = None \<and> ni_completion n = None then Inr ()
       else
         Inl (StValidation (lit ''present translation inbox items require text/completion; withdrawn items forbid both''))))"

record inbox_persistence =
  pe_item :: inbox_item
  pe_bound_utterance :: "utterance option"
  pe_removed_sequence :: "nat option"
  pe_removed_id :: "ustring option"
  pe_changed :: bool

definition canonical_key :: "inbox_key \<Rightarrow> inbox_key" where
  "canonical_key k = k\<lparr>ik_target_language := canonical_language (ik_target_language k)\<rparr>"

definition inbox_changed :: "new_inbox_item \<Rightarrow> inbox_item option \<Rightarrow> bool" where
  "inbox_changed n existing \<longleftrightarrow>
     (case existing of
        None \<Rightarrow> True
      | Some i \<Rightarrow>
          it_source_language i \<noteq> canonical_language (ni_source_language n) \<or> it_source_text i \<noteq> ni_source_text n \<or>
          it_source_start_ms i \<noteq> ni_source_start_ms n \<or> it_source_end_ms i \<noteq> ni_source_end_ms n \<or>
          it_translated_text i \<noteq> ni_translated_text n \<or> it_completion i \<noteq> ni_completion n \<or>
          it_withdrawn i \<noteq> ni_withdrawn n)"

definition write_inbox_row :: "ustring \<Rightarrow> new_inbox_item \<Rightarrow> capture_db \<Rightarrow> store_error + capture_db" where
  "write_inbox_row now n db =
     (let k = canonical_key (ni_key n) in
      and_then (u64_to_i64 ''translation lane index'' (ik_lane_index k)) (\<lambda>_.
      and_then (u64_to_i64 ''translation group epoch'' (ik_group_epoch k)) (\<lambda>_.
      and_then (u64_to_i64 ''translation provider sequence'' (ik_provider_sequence k)) (\<lambda>_.
      and_then (option_u64_to_i64 ''translation source start'' (ni_source_start_ms n)) (\<lambda>start.
      and_then (option_u64_to_i64 ''translation source end'' (ni_source_end_ms n)) (\<lambda>stop.
        let write = (\<lambda>i. i\<lparr>it_key := (it_key i)\<lparr>ik_lane_index := ik_lane_index k\<rparr>,
                           it_source_language := canonical_language (ni_source_language n), it_source_text := ni_source_text n,
                           it_source_start_ms := start, it_source_end_ms := stop, it_translated_text := ni_translated_text n,
                           it_completion := ni_completion n, it_withdrawn := ni_withdrawn n,
                           it_revision := it_revision i + 1, it_updated_at := now\<rparr>)
        in if inbox_item_of k db \<noteq> None then Inr (update_inbox (same_key k) write db)
           else
             Inr (db\<lparr>db_inbox := db_inbox db @
               [\<lparr>it_key = k, it_source_language = canonical_language (ni_source_language n), it_source_text = ni_source_text n,
                 it_source_start_ms = start, it_source_end_ms = stop, it_translated_text = ni_translated_text n,
                 it_completion = ni_completion n, it_withdrawn = ni_withdrawn n, it_revision = 0,
                 it_bound_utterance_id = None, it_bound_sequence = None, it_created_at = now, it_updated_at = now\<rparr>]\<rparr>)))))))"

text \<open>What a changed fact does to the row it is bound to.\<close>

definition revise_binding ::
    "ustring \<Rightarrow> (uchar \<Rightarrow> ustring) \<Rightarrow> inbox_key \<Rightarrow> inbox_persistence \<Rightarrow> capture_db \<Rightarrow>
     store_error + capture_db \<times> inbox_persistence" where
  "revise_binding now tbl k p db =
     (let i = pe_item p in
      case (it_bound_utterance_id i, it_bound_sequence i) of
        (None, None) \<Rightarrow> Inr (db, p)
      | (Some row, Some sequence) \<Rightarrow>
          and_then (machine_utterance_by_sequence (ik_session_id k) sequence db) (\<lambda>canonical.
            case canonical of
              None \<Rightarrow>
                (let db = update_inbox (same_key k) unbind db
                 in and_then (require_item k db) (\<lambda>i. Inr (db, p\<lparr>pe_item := i\<rparr>)))
            | Some u \<Rightarrow>
                if \<not> inbox_matches_utterance tbl i u then
                  and_then (detach_item now i db) (\<lambda>(db, v).
                  and_then (require_item k db) (\<lambda>i.
                    Inr (db, p\<lparr>pe_item := i, pe_removed_sequence := Some sequence,
                               pe_removed_id := (if v = None then Some row else None)\<rparr>)))
                else
                  and_then (apply_inbox_item now i sequence db) (\<lambda>(db, v).
                  and_then (if v = None then machine_utterance_by_sequence (ik_session_id k) sequence db else Inr (Some u)) (\<lambda>there.
                    if there = None then
                      and_then (require_item k db) (\<lambda>i'.
                        Inr (db, p\<lparr>pe_item := i', pe_bound_utterance := v, pe_removed_sequence := Some sequence,
                                   pe_removed_id := Some row\<rparr>))
                    else Inr (db, p\<lparr>pe_bound_utterance := v\<rparr>))))
      | _ \<Rightarrow> Inl (StCorruptData (lit ''translation inbox has a partial canonical binding'')))"

definition bind_new_fact ::
    "ustring \<Rightarrow> (uchar \<Rightarrow> ustring) \<Rightarrow> inbox_key \<Rightarrow> inbox_persistence \<Rightarrow> capture_db \<Rightarrow>
     store_error + capture_db \<times> inbox_persistence" where
  "bind_new_fact now tbl k p db =
     (if \<not> unbound_candidate (pe_item p) then Inr (db, p)
      else
        (case unique_inbox_candidate tbl (pe_item p) (list_machine_utterances (ik_session_id k) db) of
           None \<Rightarrow> Inr (db, p)
         | Some sequence \<Rightarrow>
             and_then (try_bind now tbl k sequence db) (\<lambda>(db, b).
               case b of
                 None \<Rightarrow> Inr (db, p)
               | Some b \<Rightarrow>
                   and_then (require_item k db) (\<lambda>i. Inr (db, p\<lparr>pe_item := i, pe_bound_utterance := bd_utterance b\<rparr>)))))"

definition settle_fact ::
    "ustring \<Rightarrow> (uchar \<Rightarrow> ustring) \<Rightarrow> inbox_key \<Rightarrow> bool \<Rightarrow> capture_db \<Rightarrow> store_error + capture_db \<times> inbox_persistence" where
  "settle_fact now tbl k changed db =
     and_then (require_item k db) (\<lambda>i.
       let p = \<lparr>pe_item = i, pe_bound_utterance = None, pe_removed_sequence = None, pe_removed_id = None, pe_changed = changed\<rparr>
       in and_then (if changed then revise_binding now tbl k p db else Inr (db, p)) (\<lambda>(db, p). bind_new_fact now tbl k p db))"

definition write_inbox_item ::
    "ustring \<Rightarrow> (uchar \<Rightarrow> ustring) \<Rightarrow> new_inbox_item \<Rightarrow> capture_db \<Rightarrow> store_error + capture_db \<times> inbox_persistence" where
  "write_inbox_item now tbl n db =
     (let k = canonical_key (ni_key n); existing = inbox_item_of k db; changed = inbox_changed n existing in
      if (case existing of Some i \<Rightarrow> \<not> it_withdrawn i \<and> it_completion i = Some CompleteFact \<and> changed | None \<Rightarrow> False) then
        Inl (StConflict (lit ''final translation inbox fact '' @ key_name k @ lit '' is immutable''))
      else and_then (if changed then write_inbox_row now n db else Inr db) (settle_fact now tbl k changed))"

definition upsert_translation_inbox_item ::
    "ustring \<Rightarrow> (uchar \<Rightarrow> ustring) \<Rightarrow> new_inbox_item \<Rightarrow> capture_db \<Rightarrow> store_error + capture_db \<times> inbox_persistence" where
  "upsert_translation_inbox_item now tbl n db =
     and_then (validate_inbox_input n) (\<lambda>_.
     and_then (ensure_active_realtime_session (ik_session_id (ni_key n)) db) (\<lambda>_. write_inbox_item now tbl n db))"

section \<open>The canonical source\<close>

text \<open>
  \<^verbatim>\<open>upsert_utterance\<close> refuses an input with a translation first; the branches of the code for such an
  input cannot be reached and are left out. What is kept of the translation columns and of a final
  translation in the language of the source is decided before the row is written.
\<close>

definition machine_utterance_matches_input :: "utterance \<Rightarrow> new_utterance \<Rightarrow> bool" where
  "machine_utterance_matches_input u n \<longleftrightarrow>
     (let stored = canonical_language (ut_source_language u); arriving = canonical_language (nu_source_language n) in
      ut_id u = nu_id n \<and> ut_session_id u = nu_session_id n \<and> ut_sequence u = nu_sequence n \<and>
      ut_session_speaker_id u = nu_session_speaker_id n \<and> (stored = arriving \<or> stored = und \<or> arriving = und) \<and>
      ut_source_text u = nu_source_text n \<and> ut_source_start_ms u = nu_source_start_ms n \<and>
      ut_source_end_ms u = nu_source_end_ms n \<and> ut_completion u = nu_completion n)"

record source_write =
  sw_language :: ustring
  sw_translated_language :: "ustring option"
  sw_translated_text :: "ustring option"
  sw_alignment :: utterance_alignment
  sw_coalesces :: bool

definition learned_language :: "ustring \<Rightarrow> utterance option \<Rightarrow> ustring" where
  "learned_language language existing =
     (if language \<noteq> und then language
      else (case existing of
              None \<Rightarrow> language
            | Some u \<Rightarrow> if canonical_language (ut_source_language u) \<noteq> und then canonical_language (ut_source_language u) else language))"

definition keep_shadow :: "utterance \<Rightarrow> source_write \<Rightarrow> source_write" where
  "keep_shadow u w =
     (if ut_translated_text u \<noteq> None \<and> \<not> is_shadow u (sw_language w)
      then w\<lparr>sw_translated_language := map_option canonical_language (ut_translated_language u),
             sw_translated_text := ut_translated_text u, sw_alignment := Paired\<rparr>
      else w)"

definition weigh_final_variant :: "ustring \<Rightarrow> utterance \<Rightarrow> variant \<Rightarrow> source_write \<Rightarrow> store_error + source_write" where
  "weigh_final_variant name u v w =
     (let language = canonical_language (vr_language v) in
      if vr_role v = RoleSource then
        Inl (StConflict (lit ''final machine source variant '' @ name @ lit '' is immutable''))
      else if language = sw_language w then
        Inr (w\<lparr>sw_coalesces := True, sw_translated_language := Some language, sw_translated_text := vr_text v, sw_alignment := Paired\<rparr>)
      else if is_shadow u language then
        Inr (w\<lparr>sw_translated_language := map_option canonical_language (ut_translated_language u),
               sw_translated_text := ut_translated_text u\<rparr>)
      else Inr w)"

definition source_columns :: "ustring \<Rightarrow> new_utterance \<Rightarrow> source_write \<Rightarrow> nat option \<Rightarrow> nat option \<Rightarrow> utterance \<Rightarrow> utterance" where
  "source_columns now n w start stop u =
     u\<lparr>ut_session_speaker_id := nu_session_speaker_id n, ut_source_language := sw_language w, ut_source_text := nu_source_text n,
       ut_source_start_ms := start, ut_source_end_ms := stop, ut_translated_language := sw_translated_language w,
       ut_translated_text := sw_translated_text w, ut_completion := nu_completion n, ut_alignment := sw_alignment w,
       ut_updated_at := now\<rparr>"

definition empty_row :: "ustring \<Rightarrow> new_utterance \<Rightarrow> utterance" where
  "empty_row now n =
     \<lparr>ut_id = nu_id n, ut_session_id = nu_session_id n, ut_sequence = nu_sequence n, ut_session_speaker_id = None,
      ut_source_language = [], ut_source_text = [], ut_source_start_ms = None, ut_source_end_ms = None,
      ut_translated_language = None, ut_translated_text = None, ut_revision = 0, ut_completion = PartialFact,
      ut_alignment = SourceOnly, ut_created_at = now, ut_updated_at = now, ut_source_projection_revision = 0,
      ut_source_edit_revision = 0, ut_variants = []\<rparr>"

definition row_at :: "ustring \<Rightarrow> nat \<Rightarrow> utterance \<Rightarrow> bool" where
  "row_at session_id sequence u \<longleftrightarrow> ut_session_id u = session_id \<and> ut_sequence u = sequence"

definition write_source_row ::
    "ustring \<Rightarrow> new_utterance \<Rightarrow> source_write \<Rightarrow> nat option \<Rightarrow> capture_db \<Rightarrow> store_error + capture_db" where
  "write_source_row now n w expected db =
     and_then (option_u64_to_i64 ''source_start_ms'' (nu_source_start_ms n)) (\<lambda>start.
     and_then (option_u64_to_i64 ''source_end_ms'' (nu_source_end_ms n)) (\<lambda>stop.
     and_then (u64_to_i64 ''sequence'' (nu_sequence n)) (\<lambda>_.
       case expected of
         None \<Rightarrow>
           if \<exists>u\<in>set (db_utterances db). ut_id u = nu_id n \<or> row_at (nu_session_id n) (nu_sequence n) u then
             Inl (StSqlite (lit ''UNIQUE constraint failed''))
           else Inr (db\<lparr>db_utterances := db_utterances db @ [source_columns now n w start stop (empty_row now n)]\<rparr>)
       | Some revision \<Rightarrow>
           and_then (u64_to_i64 ''expected_revision'' revision) (\<lambda>_.
             let hit = (\<lambda>u. row_at (nu_session_id n) (nu_sequence n) u \<and> ut_revision u = revision) in
             if \<not> (\<exists>u\<in>set (db_utterances db). hit u) then
               Inl (StConflict (lit ''utterance '' @ row_name (nu_session_id n) (nu_sequence n) @ lit '' expected revision '' @
                 show_nat revision))
             else
               Inr (update_utterances hit (\<lambda>u. source_columns now n w start stop (u\<lparr>ut_revision := ut_revision u + 1\<rparr>)) db)))))"

definition source_lane_row :: "ustring \<Rightarrow> ustring \<Rightarrow> new_utterance \<Rightarrow> nat \<Rightarrow> ustring \<Rightarrow> variant" where
  "source_lane_row now language n revision created_at =
     \<lparr>vr_language = language, vr_role = RoleSource, vr_text = Some (nu_source_text n), vr_state = VarReady,
      vr_completion = Some (nu_completion n), vr_revision = revision, vr_created_at = created_at, vr_updated_at = now,
      vr_projection_revision = 0, vr_edit_revision = 0\<rparr>"

definition write_source_lane :: "ustring \<Rightarrow> new_utterance \<Rightarrow> source_write \<Rightarrow> utterance \<Rightarrow> utterance" where
  "write_source_lane now n w u =
     (if sw_coalesces w
      then u\<lparr>ut_variants := filter (\<lambda>v. vr_role v \<noteq> RoleSource) (ut_variants u), ut_source_projection_revision := 0\<rparr>
      else u\<lparr>ut_variants :=
               filter (\<lambda>v. vr_role v \<noteq> RoleSource \<and> sql_language (vr_language v) \<noteq> sw_language w) (ut_variants u) @
               [source_lane_row now (sw_language w) n (ut_revision u) (ut_created_at u)]\<rparr>)"

definition settle_source_lane ::
    "ustring \<Rightarrow> new_utterance \<Rightarrow> source_write \<Rightarrow> ustring \<Rightarrow> capture_db \<Rightarrow> store_error + capture_db" where
  "settle_source_lane now n w i db =
     (let db = update_utterances (\<lambda>u. ut_id u = i) (write_source_lane now n w) db in
      if nu_completion n = CompleteFact \<and> \<not> sw_coalesces w
      then and_then (bump_desired_revision (nu_session_id n) db) (\<lambda>(db, rev). Inr (stamp_source i rev db))
      else Inr db)"

definition commit_source ::
    "ustring \<Rightarrow> (uchar \<Rightarrow> ustring) \<Rightarrow> new_utterance \<Rightarrow> source_write \<Rightarrow> nat option \<Rightarrow> capture_db \<Rightarrow>
     store_error + capture_db \<times> utterance" where
  "commit_source now tbl n w expected db =
     (let session_id = nu_session_id n; sequence = nu_sequence n in
      and_then (write_source_row now n w expected db) (\<lambda>db.
      and_then (ok_or (no_utterance (row_name session_id sequence)) (find (row_at session_id sequence) (db_utterances db))) (\<lambda>r.
      and_then (settle_source_lane now n w (ut_id r) db) (\<lambda>db.
      and_then (revalidate_bound_items now tbl session_id (ut_id r) sequence db) (\<lambda>db.
      and_then (apply_bound_items now session_id (ut_id r) sequence db) (\<lambda>(db, there).
        if \<not> there then
          Inl (StCorruptData (lit ''source update unexpectedly collected utterance '' @ row_name session_id sequence))
        else and_then (require_by_sequence session_id sequence db) (visible db)))))))"

definition source_over ::
    "ustring \<Rightarrow> (uchar \<Rightarrow> ustring) \<Rightarrow> new_utterance \<Rightarrow> nat option \<Rightarrow> utterance option \<Rightarrow> capture_db \<Rightarrow>
     store_error + capture_db \<times> utterance" where
  "source_over now tbl n expected existing db =
     (let name = row_name (nu_session_id n) (nu_sequence n);
          w = \<lparr>sw_language = learned_language (canonical_language (nu_source_language n)) existing,
               sw_translated_language = None, sw_translated_text = None, sw_alignment = nu_alignment n, sw_coalesces = False\<rparr>
      in case existing of
           None \<Rightarrow> commit_source now tbl n w expected db
         | Some u \<Rightarrow>
             if source_fact_is_complete u then
               if \<not> machine_utterance_matches_input u n then
                 Inl (StConflict (lit ''final machine source fact '' @ name @ lit '' is immutable''))
               else visible db u
             else
               and_then (fold_ok (weigh_final_variant name u) (filter final_variant (ut_variants u)) (keep_shadow u w))
                 (\<lambda>w. commit_source now tbl n w expected db))"

definition upsert_utterance ::
    "ustring \<Rightarrow> (uchar \<Rightarrow> ustring) \<Rightarrow> new_utterance \<Rightarrow> nat option \<Rightarrow> capture_db \<Rightarrow> store_error + capture_db \<times> utterance" where
  "upsert_utterance now tbl n expected db =
     and_then (validate_utterance n) (\<lambda>_.
       if nu_translated_language n \<noteq> None \<or> nu_translated_text n \<noteq> None then
         Inl (StValidation (lit ''source upsert cannot own a translation lane; use upsert_translation_variant''))
       else
         and_then (ensure_active_realtime_session (nu_session_id n) db) (\<lambda>_.
         and_then (check_speaker n db) (\<lambda>_.
         and_then (machine_utterance_by_sequence (nu_session_id n) (nu_sequence n) db) (\<lambda>existing.
           source_over now tbl n expected existing db))))"

section \<open>Withdrawing a provisional source\<close>

record lane_update =
  lu_language :: ustring
  lu_text :: "ustring option"
  lu_state :: variant_state
  lu_completion :: "utterance_completion option"

definition withdrawn_source :: "ustring \<Rightarrow> utterance \<Rightarrow> utterance" where
  "withdrawn_source now u =
     u\<lparr>ut_source_text := [], ut_source_start_ms := None, ut_source_end_ms := None, ut_completion := PartialFact,
       ut_alignment := (if ut_translated_text u = None then SourceOnly else Paired), ut_source_projection_revision := 0,
       ut_revision := ut_revision u + 1, ut_updated_at := now\<rparr>"

definition clear_source :: "ustring \<Rightarrow> ustring \<Rightarrow> utterance \<Rightarrow> capture_db \<Rightarrow> store_error + capture_db" where
  "clear_source now name u db =
     (if \<not> has_source_fact u then Inr db
      else
        (let sources = length (filter (\<lambda>v. vr_role v = RoleSource) (variants_of (ut_id u) db));
             hit = (\<lambda>x. ut_id x = ut_id u \<and> ut_revision x = ut_revision u \<and> ut_completion x = PartialFact)
         in if has_source_lane u \<and> sources \<noteq> 1 then
              Inl (StCorruptData (lit ''utterance '' @ name @ lit '' has '' @ show_nat sources @ lit '' source variants''))
            else
              (let db = (if has_source_lane u then update_variants (ut_id u) (filter (\<lambda>v. vr_role v \<noteq> RoleSource)) db else db)
               in if \<not> (\<exists>x\<in>set (db_utterances db). hit x) then
                    Inl (StConflict (lit ''utterance '' @ name @ lit '' changed before source withdrawal''))
                  else Inr (update_utterances hit (withdrawn_source now) db))))"

definition drop_or_keep_shell :: "ustring \<Rightarrow> utterance \<Rightarrow> capture_db \<Rightarrow> store_error + capture_db \<times> utterance option" where
  "drop_or_keep_shell name u db =
     (if translation_fact u then some_result (visible db u)
      else if \<not> (\<exists>x\<in>set (db_utterances db).
                  row_at (ut_session_id u) (ut_sequence u) x \<and> ut_revision x = ut_revision u \<and> ut_completion x = PartialFact)
      then Inl (StConflict (lit ''utterance '' @ name @ lit '' changed before partial removal''))
      else Inr (delete_utterance (ut_id u) db, None))"

definition remove_partial_utterance ::
    "ustring \<Rightarrow> (uchar \<Rightarrow> ustring) \<Rightarrow> ustring \<Rightarrow> nat \<Rightarrow> nat \<Rightarrow> lane_update option \<Rightarrow> capture_db \<Rightarrow>
     store_error + capture_db \<times> utterance option" where
  "remove_partial_utterance now tbl session_id sequence expected update db =
     (let name = row_name session_id sequence in
      and_then (require_nonempty ''session_id'' session_id) (\<lambda>_.
      and_then (case update of
                  None \<Rightarrow> Inr ()
                | Some l \<Rightarrow> and_then (validate_language (lu_language l)) (\<lambda>_.
                            validate_variant_payload (lu_text l) (lu_state l) (lu_completion l))) (\<lambda>_.
      and_then (ensure_active_realtime_session session_id db) (\<lambda>_.
      and_then (machine_utterance_by_sequence session_id sequence db) (\<lambda>found.
        case found of
          None \<Rightarrow> Inr (db, None)
        | Some u \<Rightarrow>
            if ut_revision u \<noteq> expected then
              Inl (StConflict (lit ''utterance '' @ name @ lit '' expected revision '' @ show_nat expected))
            else if source_fact_is_complete u then
              Inl (StConflict (lit ''final machine source fact '' @ name @ lit '' is immutable''))
            else
              and_then (clear_source now name u db) (\<lambda>db.
              and_then (case update of
                          Some l \<Rightarrow>
                            and_then (upsert_lane now session_id sequence (lu_language l) (lu_text l) (lu_state l) (lu_completion l)
                                        FinalIsImmutable db) (\<lambda>(db, _). Inr db)
                        | None \<Rightarrow> and_then (require_by_id (ut_id u) db) (\<lambda>_. Inr db)) (\<lambda>db.
              and_then (apply_bound_items now session_id (ut_id u) sequence db) (\<lambda>(db, there).
                if \<not> there then Inr (db, None)
                else
                  and_then (reconcile_inbox now tbl session_id db) (\<lambda>(db, _).
                  and_then (require_by_id (ut_id u) db) (\<lambda>u. drop_or_keep_shell name u db))))))))))"

end
