(* ===== verification/Capture_Ledger.thy ===== *)
theory Capture_Ledger
  imports Capture_Routing Capture_Writes "HOL-Library.Multiset"
begin

text \<open>
  \<^verbatim>\<open>persist_assembled_utterances\<close> of \<^verbatim>\<open>crates/vt-ffi/src/notebook_capture_api.rs\<close> with the calls of the store as
  an argument: each may fail, and an update whose revision is stale may find another complete row, which then
  stays. What it achieves: the ledger of source texts, by sequence number, follows the segments.
\<close>

section \<open>Writing updates to the store\<close>

record remote_failure =
  rf_error_type :: ustring
  rf_request_id :: "ustring option"

definition local_persistence :: remote_failure where
  "local_persistence = \<lparr>rf_error_type = lit ''local_persistence'', rf_request_id = None\<rparr>"

text \<open>The calls of the store that are used; the epoch of the provider session is fixed.\<close>

record store_calls =
  sc_remove_partial :: "ustring \<Rightarrow> nat \<Rightarrow> nat \<Rightarrow> lane_update option \<Rightarrow> store_error + utterance option"
  sc_ensure_speaker :: "ustring \<Rightarrow> ustring \<Rightarrow> store_error + session_speaker"
  sc_upsert :: "new_utterance \<Rightarrow> nat option \<Rightarrow> store_error + utterance"
  sc_by_id :: "ustring \<Rightarrow> store_error + utterance option"
  sc_upsert_variant ::
    "ustring \<Rightarrow> nat \<Rightarrow> ustring \<Rightarrow> ustring option \<Rightarrow> variant_state \<Rightarrow> utterance_completion option \<Rightarrow> store_error + utterance"

definition locally :: "store_error + 'a \<Rightarrow> remote_failure + 'a" where
  "locally r = map_err (\<lambda>_. local_persistence) r"

definition translation_update :: "assembled_utterance \<Rightarrow> lane_update option" where
  "translation_update u =
     (if au_translation_dirty u then
        (case (nu_translated_language (au_utterance u), nu_translated_text (au_utterance u), au_translation_completion u) of
           (Some l, Some t, Some c) \<Rightarrow> Some \<lparr>lu_language = l, lu_text = Some t, lu_state = VarReady, lu_completion = Some c\<rparr>
         | _ \<Rightarrow> map_option (\<lambda>l. \<lparr>lu_language = l, lu_text = None, lu_state = VarWaiting, lu_completion = None\<rparr>)
                 (au_translation_clear_language u))
      else None)"

definition ready_language :: "lane_update \<Rightarrow> ustring option" where
  "ready_language l = (if lu_state l = VarReady then Some (lu_language l) else None)"

definition final_owner :: "utterance \<Rightarrow> bool" where
  "final_owner u \<longleftrightarrow>
     (\<exists>v\<in>set (ut_variants u). vr_role v = RoleTranslation \<and> vr_state v = VarReady \<and> vr_completion v = Some CompleteFact)"

definition removal_answer :: "store_calls \<Rightarrow> assembled_utterance \<Rightarrow> remote_failure + utterance option" where
  "removal_answer sc u =
     and_then (ok_or local_persistence (au_expected_revision u)) (\<lambda>expected.
       locally (sc_remove_partial sc (nu_session_id (au_utterance u)) (nu_sequence (au_utterance u)) expected (translation_update u)))"

definition persist_removal :: "store_calls \<Rightarrow> assembled_utterance \<Rightarrow> assembler \<Rightarrow> remote_failure + assembler" where
  "persist_removal sc u a =
     and_then (removal_answer sc u) (\<lambda>surviving. Inr
       (case surviving of
          None \<Rightarrow> record_partial_removed (nu_id (au_utterance u)) a
        | Some shell \<Rightarrow>
            if final_owner shell then retire_source_segment (ut_id shell) a
            else record_persisted (ut_id shell) (ut_revision shell)
                   (record_translation_persisted (ut_id shell) (Option.bind (translation_update u) ready_language) a)))"

definition with_speaker :: "store_calls \<Rightarrow> assembled_utterance \<Rightarrow> remote_failure + new_utterance" where
  "with_speaker sc u =
     (case au_provider_speaker u of
        None \<Rightarrow> Inr (au_utterance u)
      | Some label \<Rightarrow>
          and_then (locally (sc_ensure_speaker sc (nu_session_id (au_utterance u)) label))
            (\<lambda>speaker. Inr ((au_utterance u)\<lparr>nu_session_speaker_id := Some (sp_id speaker)\<rparr>)))"

text \<open>The row as it is written: without its translation.\<close>

definition source_row :: "new_utterance \<Rightarrow> new_utterance" where
  "source_row n =
     n\<lparr>nu_translated_language := None, nu_translated_text := None,
       nu_alignment :=
         (case nu_alignment n of
            OutsideLanguagePair \<Rightarrow> OutsideLanguagePair
          | TranslationPending \<Rightarrow> TranslationPending
          | _ \<Rightarrow> if nu_translated_text n \<noteq> None then TranslationPending else SourceOnly)\<rparr>"

text \<open>What becomes of the source: it is written, the store keeps another complete row that is newer, or there is
  nothing to write.\<close>

datatype source_answer = Wrote utterance | KeptOther utterance | Reloaded utterance

fun answered_row :: "source_answer \<Rightarrow> utterance" where
  "answered_row (Wrote r) = r"
| "answered_row (KeptOther r) = r"
| "answered_row (Reloaded r) = r"

definition persist_source :: "store_calls \<Rightarrow> assembled_utterance \<Rightarrow> new_utterance \<Rightarrow> remote_failure + source_answer" where
  "persist_source sc u n =
     (if au_source_dirty u \<or> au_expected_revision u = None then
        (case (sc_upsert sc (source_row n) (au_expected_revision u), au_expected_revision u) of
           (Inr r, _) \<Rightarrow> Inr (Wrote r)
         | (Inl (StConflict _), Some expected) \<Rightarrow>
             and_then (locally (sc_by_id sc (nu_id n))) (\<lambda>current.
               case current of
                 Some r \<Rightarrow> if source_fact_is_complete r \<and> expected < ut_revision r then Inr (KeptOther r) else Inl local_persistence
               | None \<Rightarrow> Inl local_persistence)
         | _ \<Rightarrow> Inl local_persistence)
      else
        and_then (locally (sc_by_id sc (nu_id n))) (\<lambda>current.
          and_then (ok_or local_persistence current) (\<lambda>r. Inr (Reloaded r))))"

definition persist_translation ::
    "store_calls \<Rightarrow> assembled_utterance \<Rightarrow> utterance \<Rightarrow> assembler \<Rightarrow> remote_failure + utterance \<times> assembler" where
  "persist_translation sc u r a =
     (case translation_update u of
        None \<Rightarrow> Inr (r, a)
      | Some l \<Rightarrow>
          and_then (locally (sc_upsert_variant sc (nu_session_id (au_utterance u)) (nu_sequence (au_utterance u))
              (lu_language l) (lu_text l) (lu_state l) (lu_completion l)))
            (\<lambda>r. Inr (r, record_translation_persisted (ut_id r) (ready_language l) a)))"

definition persist_update :: "store_calls \<Rightarrow> assembled_utterance \<Rightarrow> assembler \<Rightarrow> remote_failure + assembler" where
  "persist_update sc u a =
     (if au_remove_partial u then persist_removal sc u a
      else
        and_then (with_speaker sc u) (\<lambda>n.
        and_then (persist_source sc u n) (\<lambda>answer.
        and_then (persist_translation sc u (answered_row answer) a) (\<lambda>(r, a).
          Inr (record_persisted (ut_id r) (ut_revision r) a)))))"

section \<open>The ledger and its histories\<close>

text \<open>The source text of the row of a sequence number: the words of the assembler, or those of another complete row
  that the store has kept; \<open>None\<close> when there is no source.\<close>

datatype ledger_row = Words ustring | OtherWords ustring

type_synonym ledger = "nat \<Rightarrow> ledger_row option"

definition ledger_update :: "store_calls \<Rightarrow> assembled_utterance \<Rightarrow> ledger \<Rightarrow> ledger" where
  "ledger_update sc u L =
     (let k = nu_sequence (au_utterance u) in
      if au_remove_partial u then
        (case removal_answer sc u of
           Inl _ \<Rightarrow> L
         | Inr None \<Rightarrow> L(k := None)
         | Inr (Some shell) \<Rightarrow> if final_owner shell then L(k := None) else L(k \<mapsto> Words []))
      else
        (case and_then (with_speaker sc u) (persist_source sc u) of
           Inr (Wrote _) \<Rightarrow> L(k \<mapsto> Words (nu_source_text (au_utterance u)))
         | Inr (KeptOther r) \<Rightarrow> L(k \<mapsto> OtherWords (ut_source_text r))
         | _ \<Rightarrow> L))"

definition ledger_text :: "ledger \<Rightarrow> nat \<Rightarrow> ustring" where
  "ledger_text L n = (case L n of None \<Rightarrow> [] | Some (Words t) \<Rightarrow> t | Some (OtherWords t) \<Rightarrow> t)"

text \<open>A lane is its assembler, its ledger, and the failure that ended it. The first update that fails ends it.\<close>

type_synonym lane_state = "assembler \<times> ledger \<times> remote_failure option"

fun persist_updates :: "store_calls \<Rightarrow> assembled_utterance list \<Rightarrow> assembler \<Rightarrow> ledger \<Rightarrow> lane_state" where
  "persist_updates sc [] a L = (a, L, None)"
| "persist_updates sc (u # us) a L =
     (case persist_update sc u a of
        Inl failure \<Rightarrow> (a, ledger_update sc u L, Some failure)
      | Inr b \<Rightarrow> persist_updates sc us b (ledger_update sc u L))"

text \<open>What happens to a lane: a response, the end of an utterance (\<^verbatim>\<open>Endpoint\<close>, \<^verbatim>\<open>Finalized\<close>, \<^verbatim>\<open>Finished\<close>,
  \<^verbatim>\<open>Reconnecting\<close>, \<^verbatim>\<open>Error\<close> and \<^verbatim>\<open>InputDiscontinuity\<close> all finalize, persist and advance), and another lane
  taking over a translation.\<close>

datatype lane_event = Respond "stream_token list" | EndUtterance | Relinquish ustring ustring

fun lane_step :: "lane_state \<Rightarrow> lane_event \<times> store_calls \<Rightarrow> lane_state" where
  "lane_step (a, L, Some failure) _ = (a, L, Some failure)"
| "lane_step (a, L, None) (Respond ts, sc) = (case apply_tokens ts a of (us, a) \<Rightarrow> persist_updates sc us a L)"
| "lane_step (a, L, None) (EndUtterance, sc) =
     (case finalize a of (us, a) \<Rightarrow>
        case persist_updates sc us a L of
          (a, L, None) \<Rightarrow> (advance a, L, None)
        | failed \<Rightarrow> failed)"
| "lane_step (a, L, None) (Relinquish i l, sc) = (relinquish_inline_translation_lane i l a, L, None)"

text \<open>The store answers with the rows it was asked about.\<close>

definition own_rows :: "store_calls \<Rightarrow> bool" where
  "own_rows sc \<longleftrightarrow>
     (\<forall>n e r. sc_upsert sc n e = Inr r \<longrightarrow> ut_id r = nu_id n) \<and>
     (\<forall>i r. sc_by_id sc i = Inr (Some r) \<longrightarrow> ut_id r = i) \<and>
     (\<forall>s k e l r. sc_remove_partial sc s k e l = Inr (Some r) \<longrightarrow> ut_id r = segment_id s k) \<and>
     (\<forall>s k l t state c r. sc_upsert_variant sc s k l t state c = Inr r \<longrightarrow> ut_id r = segment_id s k)"

section \<open>Updates that do not fail\<close>

text \<open>What of the answers matters to the assembler and to the ledger.\<close>

datatype removal = RowGone | FinalShell | OtherShell nat

record outcome =
  oc_revision :: nat
  oc_removal :: removal
  oc_other :: "ustring option"

type_synonym outcomes = "assembled_utterance \<Rightarrow> outcome"

definition outcome_of :: "store_calls \<Rightarrow> outcomes" where
  "outcome_of sc u =
     (let source = and_then (with_speaker sc u) (persist_source sc u) in
      \<lparr>oc_revision =
         (case and_then source (\<lambda>answer. persist_translation sc u (answered_row answer) undefined) of
            Inr (r, _) \<Rightarrow> ut_revision r | Inl _ \<Rightarrow> 0),
       oc_removal =
         (case removal_answer sc u of
            Inr (Some shell) \<Rightarrow> if final_owner shell then FinalShell else OtherShell (ut_revision shell)
          | _ \<Rightarrow> RowGone),
       oc_other = (case source of Inr (KeptOther r) \<Rightarrow> Some (ut_source_text r) | _ \<Rightarrow> None)\<rparr>)"

definition note_translation :: "assembled_utterance \<Rightarrow> assembler \<Rightarrow> assembler" where
  "note_translation u a =
     (case translation_update u of
        None \<Rightarrow> a
      | Some l \<Rightarrow> record_translation_persisted (nu_id (au_utterance u)) (ready_language l) a)"

definition settle_update :: "outcomes \<Rightarrow> assembled_utterance \<Rightarrow> assembler \<Rightarrow> assembler" where
  "settle_update out u a =
     (let i = nu_id (au_utterance u) in
      if au_remove_partial u then
        (case oc_removal (out u) of
           RowGone \<Rightarrow> record_partial_removed i a
         | FinalShell \<Rightarrow> retire_source_segment i a
         | OtherShell revision \<Rightarrow>
             record_persisted i revision (record_translation_persisted i (Option.bind (translation_update u) ready_language) a))
      else record_persisted i (oc_revision (out u)) (note_translation u a))"

definition settle_updates :: "outcomes \<Rightarrow> assembled_utterance list \<Rightarrow> assembler \<Rightarrow> assembler" where
  "settle_updates out us a = fold (settle_update out) us a"

definition book :: "outcomes \<Rightarrow> assembled_utterance \<Rightarrow> ledger \<Rightarrow> ledger" where
  "book out u L =
     (let k = nu_sequence (au_utterance u) in
      if au_remove_partial u then (case oc_removal (out u) of OtherShell _ \<Rightarrow> L(k \<mapsto> Words []) | _ \<Rightarrow> L(k := None))
      else case oc_other (out u) of
             Some t \<Rightarrow> L(k \<mapsto> OtherWords t)
           | None \<Rightarrow>
               if au_source_dirty u \<or> au_expected_revision u = None then L(k \<mapsto> Words (nu_source_text (au_utterance u))) else L)"

definition own_name :: "assembled_utterance \<Rightarrow> bool" where
  "own_name u \<longleftrightarrow> nu_id (au_utterance u) = segment_id (nu_session_id (au_utterance u)) (nu_sequence (au_utterance u))"

lemma locally_Inr [simp]: "locally r = Inr x \<longleftrightarrow> r = Inr x"
  by (cases r) (simp_all add: locally_def)

lemma with_speaker_Inr: "with_speaker sc u = Inr n \<Longrightarrow> nu_id n = nu_id (au_utterance u)"
  by (auto simp: with_speaker_def and_then_eq_Inr split: option.splits)

lemma persist_source_own:
  assumes "own_rows sc" "persist_source sc u n = Inr answer"
  shows "ut_id (answered_row answer) = nu_id n"
    "(\<exists>r. answer = Reloaded r) \<longleftrightarrow> \<not> (au_source_dirty u \<or> au_expected_revision u = None)"
  using assms
  by (auto simp: persist_source_def own_rows_def source_row_def and_then_eq_Inr ok_or_def
      split: if_splits sum.splits option.splits store_error.splits)

lemma persist_translation_own:
  assumes "own_rows sc" "own_name u" "persist_translation sc u r a = Inr (r', b)" "ut_id r = nu_id (au_utterance u)"
  shows "ut_id r' = nu_id (au_utterance u)" "b = note_translation u a"
    "persist_translation sc u r c = Inr (r', note_translation u c)"
proof -
  have "ut_id r' = nu_id (au_utterance u) \<and> b = note_translation u a \<and> persist_translation sc u r c = Inr (r', note_translation u c)"
    using assms
    by (auto simp: persist_translation_def note_translation_def own_rows_def own_name_def and_then_eq_Inr split: option.splits)
  then show "ut_id r' = nu_id (au_utterance u)" "b = note_translation u a"
    "persist_translation sc u r c = Inr (r', note_translation u c)" by simp_all
qed

lemma persist_update_outcome:
  assumes "own_rows sc" "own_name u" "persist_update sc u a = Inr b"
  shows "b = settle_update (outcome_of sc) u a" "ledger_update sc u L = book (outcome_of sc) u L"
proof -
  have "b = settle_update (outcome_of sc) u a \<and> ledger_update sc u L = book (outcome_of sc) u L"
  proof (cases "au_remove_partial u")
    case True
    then obtain surviving where r: "removal_answer sc u = Inr surviving"
      using assms(3) by (auto simp: persist_update_def persist_removal_def and_then_eq_Inr)
    have "ut_id shell = nu_id (au_utterance u)" if "surviving = Some shell" for shell
      using assms(1,2) r that by (auto simp: removal_answer_def and_then_eq_Inr own_rows_def own_name_def)
    then show ?thesis
      using assms(3) True r
      by (auto simp: persist_update_def persist_removal_def settle_update_def outcome_of_def ledger_update_def book_def Let_def
          split: option.splits)
  next
    case False
    then obtain n answer r c where
      steps: "with_speaker sc u = Inr n" "persist_source sc u n = Inr answer"
        "persist_translation sc u (answered_row answer) a = Inr (r, c)" "b = record_persisted (ut_id r) (ut_revision r) c"
      using assms(3) by (auto simp: persist_update_def and_then_eq_Inr)
    note own = persist_source_own [OF assms(1) steps(2), unfolded with_speaker_Inr [OF steps(1)]]
    note translated = persist_translation_own [OF assms(1,2) steps(3) own(1)]
    have "oc_revision (outcome_of sc u) = ut_revision r" using steps(1,2) translated(3) by (simp add: outcome_of_def)
    moreover have "ledger_update sc u L = book (outcome_of sc) u L"
      using False steps(1,2) own(2) by (cases answer) (auto simp: ledger_update_def book_def outcome_of_def Let_def)
    ultimately show ?thesis using False steps(4) translated(1,2) by (simp add: settle_update_def)
  qed
  then show "b = settle_update (outcome_of sc) u a" "ledger_update sc u L = book (outcome_of sc) u L" by simp_all
qed

lemma persist_updates_outcome:
  "own_rows sc \<Longrightarrow> list_all own_name us \<Longrightarrow> persist_updates sc us a L = (b, M, None) \<Longrightarrow>
   b = settle_updates (outcome_of sc) us a \<and> M = fold (book (outcome_of sc)) us L"
proof (induction us arbitrary: a L)
  case (Cons u us)
  then obtain c where "persist_update sc u a = Inr c" by (auto split: sum.splits)
  with Cons persist_update_outcome [of sc u a c] show ?case by (auto simp: settle_updates_def)
qed (simp add: settle_updates_def)

section \<open>Rows and segments\<close>

text \<open>The final source tokens of a history, the speculative tails at the ends of its utterances, and the
  tail that is still open.\<close>

fun said :: "lane_event list \<Rightarrow> ustring" where
  "said [] = []"
| "said (Respond ts # es) = final_text ts @ said es"
| "said (_ # es) = said es"

definition open_tail :: "ustring \<Rightarrow> lane_event \<Rightarrow> ustring" where
  "open_tail p e = (case e of Respond ts \<Rightarrow> tail_text ts | EndUtterance \<Rightarrow> [] | Relinquish _ _ \<Rightarrow> p)"

fun ended_tails :: "ustring \<Rightarrow> lane_event list \<Rightarrow> ustring" where
  "ended_tails p [] = []"
| "ended_tails p (e # es) = (if e = EndUtterance then p else []) @ ended_tails (open_tail p e) es"

definition source_text :: "segment \<Rightarrow> ustring" where
  "source_text s = lane_text (pending_source_matches_committed_identity s) (sg_source s)"

definition row_ok :: "ledger \<Rightarrow> segment \<Rightarrow> bool" where
  "row_ok L s \<longleftrightarrow>
     (sg_revision s = None \<and> L (sg_sequence s) = None \<and>
        (source_text s = [] \<or> \<not> sg_complete s \<and> stable_source_language s = None)) \<or>
     (sg_revision s \<noteq> None \<and>
        (L (sg_sequence s) = Some (Words (source_text s)) \<or> (\<exists>t. L (sg_sequence s) = Some (OtherWords t))))"

text \<open>A segment that is not flagged shows what it showed before.\<close>

definition quiet :: "segment \<Rightarrow> segment \<Rightarrow> bool" where
  "quiet s0 s \<longleftrightarrow>
     sg_sequence s = sg_sequence s0 \<and> sg_revision s = sg_revision s0 \<and>
     (sg_source_dirty s \<or>
      source_text s = source_text s0 \<and> sg_complete s = sg_complete s0 \<and>
      (stable_source_language s = None \<longleftrightarrow> stable_source_language s0 = None))"

definition follows :: "assembler \<Rightarrow> assembler \<Rightarrow> bool" where
  "follows a0 a \<longleftrightarrow>
     length (as_segments a0) \<le> length (as_segments a) \<and>
     (\<forall>k<length (as_segments a).
        if k < length (as_segments a0) then quiet (as_segments a0 ! k) (as_segments a ! k)
        else sg_revision (as_segments a ! k) = None \<and> sg_source_dirty (as_segments a ! k))"

text \<open>The same during a response, where an unflagged segment has no tail.\<close>

definition hushed :: "segment \<Rightarrow> segment \<Rightarrow> bool" where
  "hushed s0 s \<longleftrightarrow>
     sg_sequence s = sg_sequence s0 \<and> sg_revision s = sg_revision s0 \<and>
     (sg_source_dirty s \<or>
      lv_committed (sg_source s) = lv_committed (sg_source s0) \<and> lv_pending (sg_source s) = [] \<and> lv_pending (sg_source s0) = [] \<and>
      sg_complete s = sg_complete s0 \<and> (stable_source_language s = None \<longleftrightarrow> stable_source_language s0 = None))"

lemma hushed_quiet: "hushed s0 s \<Longrightarrow> quiet s0 s"
  by (auto simp: hushed_def quiet_def source_text_def lane_text_def)

lemma hushed_begin: "hushed s (begin_segment_response s)"
  by (auto simp: hushed_def stable_source_language_def begin_segment_response_def begin_lane_response_def Let_def)

lemma hushed_original: "hushed s0 s \<Longrightarrow> hushed s0 (push_original t l p s)"
  by (simp add: hushed_def)

lemma hushed_close: "hushed s0 s \<Longrightarrow> hushed s0 (close_segment s)"
  by (simp add: hushed_def close_segment_def)

lemma translation_dirty_keep:
  "\<not> sg_source_dirty (push_translation t l p s) \<Longrightarrow>
   \<not> sg_source_dirty s \<and> (stable_source_language (push_translation t l p s) = None \<longleftrightarrow> stable_source_language s = None)"
  by (auto simp: push_translation_def Let_def stable_source_language_def or_else_def split: option.splits if_splits)

lemma hushed_translation: "hushed s0 s \<Longrightarrow> hushed s0 (push_translation t l p s)"
  using translation_dirty_keep [of t l p s] by (auto simp: hushed_def)

lemma dirty_translation: "sg_source_dirty s \<Longrightarrow> sg_source_dirty (push_translation t l p s)"
  using translation_dirty_keep [of t l p s] by auto

definition hushed_follows :: "assembler \<Rightarrow> assembler \<Rightarrow> bool" where
  "hushed_follows a0 a \<longleftrightarrow>
     length (as_segments a0) \<le> length (as_segments a) \<and>
     (\<forall>k<length (as_segments a).
        if k < length (as_segments a0) then hushed (as_segments a0 ! k) (as_segments a ! k)
        else sg_revision (as_segments a ! k) = None \<and> sg_source_dirty (as_segments a ! k))"

lemma source_segment_cases:
  assumes "source_segment_for_token f l p a = (i, b)"
  shows "(\<forall>k<length (as_segments a). as_segments b ! k = as_segments a ! k \<or> as_segments b ! k = close_segment (as_segments a ! k)) \<and>
    (length (as_segments b) = length (as_segments a) \<or>
     length (as_segments b) = Suc (length (as_segments a)) \<and> i = length (as_segments a) \<and>
     as_segments b ! i = new_segment (as_session_id a) (as_next_sequence a))"
proof -
  have "(\<forall>k<length (as_segments c). as_segments d ! k = as_segments c ! k) \<and>
      length (as_segments d) = Suc (length (as_segments c)) \<and> j = length (as_segments c) \<and>
      as_segments d ! j = new_segment (as_session_id c) (as_next_sequence c)"
    if "create_segment c = (j, d)" for c d j
    using that by (auto simp: create_segment_def nth_append)
  note this [of a i b] this [of "update_segment x close_segment a" i b for x]
  with assms show ?thesis
    by (simp add: source_segment_for_token_def Let_def update_segment_nth split: option.splits if_splits)
qed

lemma hushed_follows_original:
  assumes "hushed_follows a0 a"
  shows "hushed_follows a0 (apply_original_token t a)"
proof -
  define l where "l = normalized_optional_language (or_else (tk_language t) (tk_source_language t))"
  define p where "p = normalized_provider_speaker (tk_speaker t)"
  obtain i b where b: "source_segment_for_token (tk_is_final t) l p a = (i, b)" by fastforce
  have eq: "as_segments (apply_original_token t a) = as_segments (update_segment i (push_original t l p) b)"
    by (simp add: apply_original_token_def Let_def l_def [symmetric] p_def [symmetric] b)
  have old: "if k < length (as_segments a0) then hushed (as_segments a0 ! k) (as_segments b ! k)
      else sg_revision (as_segments b ! k) = None \<and> sg_source_dirty (as_segments b ! k)" if "k < length (as_segments a)" for k
  proof -
    have "if k < length (as_segments a0) then hushed (as_segments a0 ! k) (as_segments a ! k)
      else sg_revision (as_segments a ! k) = None \<and> sg_source_dirty (as_segments a ! k)"
      using assms that by (simp add: hushed_follows_def)
    moreover have "as_segments b ! k = as_segments a ! k \<or> as_segments b ! k = close_segment (as_segments a ! k)"
      using source_segment_cases [OF b] that by blast
    moreover have "sg_revision (close_segment s) = sg_revision s" "sg_source_dirty (close_segment s)" for s
      by (simp_all add: close_segment_def)
    ultimately show ?thesis using hushed_close by (metis (full_types))
  qed
  show ?thesis
    unfolding hushed_follows_def eq
  proof (intro conjI allI impI)
    show "length (as_segments a0) \<le> length (as_segments (update_segment i (push_original t l p) b))"
      using assms source_segment_cases [OF b] by (auto simp: hushed_follows_def)
    fix k
    assume k: "k < length (as_segments (update_segment i (push_original t l p) b))"
    show "if k < length (as_segments a0) then hushed (as_segments a0 ! k) (as_segments (update_segment i (push_original t l p) b) ! k)
      else sg_revision (as_segments (update_segment i (push_original t l p) b) ! k) = None \<and>
        sg_source_dirty (as_segments (update_segment i (push_original t l p) b) ! k)"
    proof (cases "k < length (as_segments a)")
      case True
      then show ?thesis using old [OF True] k hushed_original by (auto simp: update_segment_nth)
    next
      case False
      then have "k = i" "as_segments b ! i = new_segment (as_session_id a) (as_next_sequence a)" "\<not> k < length (as_segments a0)"
        using k source_segment_cases [OF b] assms by (auto simp: hushed_follows_def)
      then show ?thesis using k by (simp add: update_segment_nth)
    qed
  qed
qed

lemma hushed_follows_translation:
  assumes "hushed_follows a0 a"
  shows "hushed_follows a0 (apply_translation_token t a)"
proof -
  have "hushed_follows a0 (update_segment i (push_translation t l p) (a\<lparr>as_latest_translation := x\<rparr>))" for i l p x
    using assms hushed_translation dirty_translation
    by (auto simp: hushed_follows_def update_segment_nth)
  moreover have "hushed_follows a0 (a\<lparr>as_unattached := n\<rparr>)" for n using assms by (simp add: hushed_follows_def)
  ultimately show ?thesis by (auto simp: apply_translation_token_def Let_def split: option.splits)
qed

lemma follows_responded: "follows a (responded ts a)"
proof -
  let ?b = "a\<lparr>as_segments := map begin_segment_response (as_segments a)\<rparr>"
  have b: "hushed_follows a ?b" by (simp add: hushed_follows_def hushed_begin)
  have c: "hushed_follows a (fold apply_original_token us c)" if "hushed_follows a c" for us c
    using that by (induction us arbitrary: c) (simp_all add: hushed_follows_original)
  have d: "hushed_follows a (fold apply_translation_token us c)" if "hushed_follows a c" for us c
    using that by (induction us arbitrary: c) (simp_all add: hushed_follows_translation)
  have "hushed_follows a (responded ts a)" unfolding responded_def by (intro b c d)
  then show ?thesis using hushed_quiet unfolding hushed_follows_def follows_def by metis
qed

section \<open>Persisting, segment by segment\<close>

lemma on_segment_at:
  assumes "numbered a" "k < length (as_segments a)" "i = sg_id (as_segments a ! k)"
  shows "position (\<lambda>s. sg_id s = i) (as_segments a) = Some k" "on_segment i f a = update_segment k f a"
proof -
  obtain j where j: "position (\<lambda>s. sg_id s = i) (as_segments a) = Some j"
    using assms position_None_iff [of "\<lambda>s. sg_id s = i" "as_segments a"] by fastforce
  then have "j < length (as_segments a)" "sg_id (as_segments a ! j) = i" using position_SomeD by fast+
  then have "j = k" using assms by (auto simp: numbered_def)
  with j show "position (\<lambda>s. sg_id s = i) (as_segments a) = Some k" by simp
  then show "on_segment i f a = update_segment k f a" by (simp add: on_segment_def)
qed

definition noted :: "assembled_utterance \<Rightarrow> segment \<Rightarrow> segment" where
  "noted u s =
     (case translation_update u of
        None \<Rightarrow> s
      | Some l \<Rightarrow> s\<lparr>sg_persisted_translation_language := map_option normalize_language (ready_language l)\<rparr>)"

definition persisted_segment :: "outcomes \<Rightarrow> assembled_utterance \<Rightarrow> segment \<Rightarrow> segment" where
  "persisted_segment out u s =
     (if au_remove_partial u then
        (case oc_removal (out u) of
           RowGone \<Rightarrow> s\<lparr>sg_revision := None, sg_persisted_translation_language := None\<rparr>
         | FinalShell \<Rightarrow> retired s
         | OtherShell r \<Rightarrow>
             s\<lparr>sg_persisted_translation_language := map_option normalize_language (Option.bind (translation_update u) ready_language),
               sg_revision := Some r\<rparr>)
      else (noted u s)\<lparr>sg_revision := Some (oc_revision (out u))\<rparr>)"

lemma noted_simps [simp]:
  "sg_id (noted u s) = sg_id s" "sg_sequence (noted u s) = sg_sequence s" "sg_source (noted u s) = sg_source s"
  "sg_complete (noted u s) = sg_complete s" "sg_source_dirty (noted u s) = sg_source_dirty s"
  "sg_translation_dirty (noted u s) = sg_translation_dirty s" "sg_committed_language_hint (noted u s) = sg_committed_language_hint s"
  "sg_committed_speaker (noted u s) = sg_committed_speaker s" "sg_committed_speaker_hint (noted u s) = sg_committed_speaker_hint s"
  "sg_pending_speaker (noted u s) = sg_pending_speaker s" "sg_pending_speaker_ambiguous (noted u s) = sg_pending_speaker_ambiguous s"
  by (auto simp: noted_def split: option.splits)

lemma persisted_segment_simps [simp]:
  "sg_id (persisted_segment out u s) = sg_id s" "sg_sequence (persisted_segment out u s) = sg_sequence s"
  "sg_source (persisted_segment out u s) = sg_source s"
  "sg_complete s \<Longrightarrow> sg_complete (persisted_segment out u s)"
  "\<not> sg_source_dirty s \<Longrightarrow> \<not> sg_source_dirty (persisted_segment out u s)"
  "\<not> sg_translation_dirty s \<Longrightarrow> \<not> sg_translation_dirty (persisted_segment out u s)"
  "stable_source_language (persisted_segment out u s) = stable_source_language s"
  "source_text (persisted_segment out u s) = source_text s"
  by (auto simp: persisted_segment_def retired_def stable_source_language_def source_text_def
      pending_source_matches_committed_identity_def Let_def unambiguous_pending_language_def split: removal.splits)

lemma clean_text [simp]: "source_text (clean_segment s) = source_text s" "stable_source_language (clean_segment s) = stable_source_language s"
  "withheld (clean_segment s) = withheld s"
  by (simp_all add: source_text_def clean_segment_def stable_source_language_def withheld_def
      pending_source_matches_committed_identity_def Let_def)

lemma numbered_update:
  "(\<And>s. sg_sequence (f s) = sg_sequence s) \<Longrightarrow> (\<And>s. sg_id (f s) = sg_id s) \<Longrightarrow> numbered a \<Longrightarrow> numbered (update_segment k f a)"
  by (auto simp: numbered_def update_segment_nth)

lemma update_twice: "k < length (as_segments a) \<Longrightarrow> update_segment k f (update_segment k g a) = update_segment k (\<lambda>s. f (g s)) a"
  by (simp add: update_segment_def)

lemma update_same: "k < length (as_segments a) \<Longrightarrow> f (as_segments a ! k) = g (as_segments a ! k) \<Longrightarrow> update_segment k f a = update_segment k g a"
  by (simp add: update_segment_def)

lemma update_none: "k < length (as_segments a) \<Longrightarrow> update_segment k (\<lambda>s. s) a = a"
  by (simp add: update_segment_def)

lemma note_translation_at:
  assumes "numbered a" "k < length (as_segments a)" "nu_id (au_utterance u) = sg_id (as_segments a ! k)"
  shows "note_translation u a = update_segment k (noted u) a"
proof -
  have *: "record_translation_persisted (nu_id (au_utterance u)) l a =
      update_segment k (\<lambda>s. s\<lparr>sg_persisted_translation_language := map_option normalize_language l\<rparr>) a" for l
    unfolding record_translation_persisted_def by (rule on_segment_at(2) [OF assms])
  show ?thesis
    using update_none [OF assms(2)] update_same [OF assms(2), of "noted u"]
    by (auto simp: note_translation_def noted_def * split: option.splits)
qed

lemma settle_update_at:
  assumes "numbered a" "k < length (as_segments a)" "nu_id (au_utterance u) = sg_id (as_segments a ! k)"
  shows "as_segments (settle_update out u a) = (as_segments a)[k := persisted_segment out u (as_segments a ! k)]"
    "numbered (settle_update out u a)" "grows a (settle_update out u a)"
    "as_next_sequence (settle_update out u a) = as_next_sequence a"
    "open_last a \<Longrightarrow> open_last (settle_update out u a)"
proof -
  let ?f = "persisted_segment out u"
  have simple: "settle_update out u a = update_segment k ?f a" if "au_remove_partial u \<longrightarrow> oc_removal (out u) \<noteq> FinalShell"
  proof (cases "au_remove_partial u")
    case False
    let ?b = "update_segment k (noted u) a"
    have "numbered ?b" "nu_id (au_utterance u) = sg_id (as_segments ?b ! k)"
      using assms by (auto intro: numbered_update simp: update_segment_nth)
    note at = on_segment_at(2) [OF this(1) _ this(2)]
    have "?f = (\<lambda>s. (noted u s)\<lparr>sg_revision := Some (oc_revision (out u))\<rparr>)" using False by (simp add: persisted_segment_def fun_eq_iff)
    with at show ?thesis
      using False assms(2) by (simp add: settle_update_def record_persisted_def note_translation_at [OF assms] update_twice)
  next
    case True
    show ?thesis
    proof (cases "oc_removal (out u)")
      case RowGone
      then have "?f = (\<lambda>s. s\<lparr>sg_revision := None, sg_persisted_translation_language := None\<rparr>)"
        using True by (simp add: persisted_segment_def fun_eq_iff)
      then show ?thesis
        using True RowGone by (simp add: settle_update_def record_partial_removed_def on_segment_at(2) [OF assms])
    next
      case FinalShell
      then show ?thesis using that True by simp
    next
      case (OtherShell r)
      let ?b = "update_segment k (\<lambda>s. s\<lparr>sg_persisted_translation_language := map_option normalize_language (Option.bind (translation_update u) ready_language)\<rparr>) a"
      have "record_translation_persisted (nu_id (au_utterance u)) (Option.bind (translation_update u) ready_language) a = ?b"
        unfolding record_translation_persisted_def by (rule on_segment_at(2) [OF assms])
      moreover have "numbered ?b" "nu_id (au_utterance u) = sg_id (as_segments ?b ! k)"
        using assms by (auto intro: numbered_update simp: update_segment_nth)
      note on_segment_at(2) [OF this(1) _ this(2)]
      moreover have "?f = (\<lambda>s. s\<lparr>sg_persisted_translation_language := map_option normalize_language (Option.bind (translation_update u) ready_language), sg_revision := Some r\<rparr>)"
        using True OtherShell by (simp add: persisted_segment_def fun_eq_iff)
      ultimately show ?thesis
        using True OtherShell assms(2) by (simp add: settle_update_def record_persisted_def update_twice)
    qed
  qed
  have shell: "settle_update out u a = (update_segment k ?f a)
      \<lparr>as_latest_original := (if as_latest_original a = Some k then None else as_latest_original a),
       as_latest_translation := (if as_latest_translation a = Some k then None else as_latest_translation a)\<rparr>"
    if "au_remove_partial u" "oc_removal (out u) = FinalShell"
    using that on_segment_at(1) [OF assms] update_same [OF assms(2), of retired ?f]
    by (simp add: settle_update_def retire_source_segment_def persisted_segment_def)
  have upd: "numbered (update_segment k ?f a)" "grows a (update_segment k ?f a)" "open_last a \<Longrightarrow> open_last (update_segment k ?f a)"
    using assms(1,2) by (auto intro: numbered_update simp: open_last_def update_segment_nth)
  have complete: "sg_complete (?f (as_segments a ! k))" if "au_remove_partial u" "oc_removal (out u) = FinalShell"
    using that by (simp add: persisted_segment_def retired_def)
  have segments: "as_segments (update_segment k ?f a) = (as_segments a)[k := ?f (as_segments a ! k)]" by (simp add: update_segment_def)
  have "as_segments (settle_update out u a) = (as_segments a)[k := ?f (as_segments a ! k)] \<and>
    numbered (settle_update out u a) \<and> grows a (settle_update out u a) \<and>
    as_next_sequence (settle_update out u a) = as_next_sequence a \<and>
    (open_last a \<longrightarrow> open_last (settle_update out u a))"
  proof (cases "au_remove_partial u \<and> oc_removal (out u) = FinalShell")
    case False
    then show ?thesis using simple upd segments by auto
  next
    case True
    then have eq: "settle_update out u a = (update_segment k ?f a)
      \<lparr>as_latest_original := (if as_latest_original a = Some k then None else as_latest_original a),
       as_latest_translation := (if as_latest_translation a = Some k then None else as_latest_translation a)\<rparr>" using shell by simp
    have "open_last (settle_update out u a)" if "open_last a"
      unfolding open_last_def eq using upd(3) [OF that] complete True assms(2)
      by (auto simp: open_last_def update_segment_nth)
    then show ?thesis using upd segments by (simp add: eq numbered_def)
  qed
  then show "as_segments (settle_update out u a) = (as_segments a)[k := persisted_segment out u (as_segments a ! k)]"
    "numbered (settle_update out u a)" "grows a (settle_update out u a)"
    "as_next_sequence (settle_update out u a) = as_next_sequence a"
    "open_last a \<Longrightarrow> open_last (settle_update out u a)" by simp_all
qed

text \<open>What becomes of a segment when its update is taken and persisted.\<close>

definition settle :: "outcomes \<Rightarrow> assembler \<Rightarrow> segment \<Rightarrow> segment" where
  "settle out a s =
     (case dirty_update a s of None \<Rightarrow> clean_segment s | Some u \<Rightarrow> persisted_segment out u (clean_segment s))"

lemma dirty_update_Some:
  assumes "dirty_update a s = Some u"
  shows "nu_id (au_utterance u) = sg_id s" "nu_sequence (au_utterance u) = sg_sequence s"
    "nu_source_text (au_utterance u) = source_text s" "au_expected_revision u = sg_revision s"
    "au_remove_partial u \<longleftrightarrow> sg_revision s \<noteq> None \<and> source_text s = []" "au_source_dirty u = sg_source_dirty s"
proof -
  have "u = assemble_segment a (clean_segment s) (sg_source_dirty s) (sg_translation_dirty s)"
    using assms by (simp add: dirty_update_def split: if_splits)
  then show "nu_id (au_utterance u) = sg_id s" "nu_sequence (au_utterance u) = sg_sequence s"
    "nu_source_text (au_utterance u) = source_text s" "au_expected_revision u = sg_revision s"
    "au_remove_partial u \<longleftrightarrow> sg_revision s \<noteq> None \<and> source_text s = []" "au_source_dirty u = sg_source_dirty s"
    using clean_text(1) [of s] by (simp_all add: assemble_segment_def Let_def source_text_def)
qed

lemma dirty_updates_own:
  assumes "numbered a"
  shows "list_all own_name (List.map_filter (dirty_update a) (as_segments a))"
proof -
  have "own_name u" if "s \<in> set (as_segments a)" "dirty_update a s = Some u" for s u
  proof -
    have "nu_session_id (au_utterance u) = as_session_id a"
      using that(2) by (auto simp: dirty_update_def assemble_segment_def Let_def split: if_splits)
    moreover have "sg_id s = segment_id (as_session_id a) (sg_sequence s)" using assms that(1) by (auto simp: numbered_def in_set_conv_nth)
    ultimately show ?thesis by (simp add: own_name_def dirty_update_Some [OF that(2)])
  qed
  then show ?thesis by (auto simp: list_all_iff in_map_filter)
qed

lemma map_filter_snoc: "List.map_filter f (xs @ [x]) = List.map_filter f xs @ (case f x of None \<Rightarrow> [] | Some y \<Rightarrow> [y])"
  by (simp add: List.map_filter_def split: option.splits)

lemma persist_prefix:
  fixes out :: outcomes
  assumes "numbered a"
    and "j \<le> length (as_segments a)"
  defines "c \<equiv> a\<lparr>as_segments := map clean_segment (as_segments a)\<rparr>"
  defines "A \<equiv> \<lambda>j. settle_updates out (List.map_filter (dirty_update a) (take j (as_segments a))) c"
  shows "as_segments (A j) = map (settle out a) (take j (as_segments a)) @ map clean_segment (drop j (as_segments a)) \<and>
    numbered (A j) \<and> (open_last a \<longrightarrow> open_last (A j)) \<and> grows a (A j) \<and> as_next_sequence (A j) = as_next_sequence a"
  using assms(2)
proof (induction j)
  case 0
  have "numbered c" "open_last a \<longrightarrow> open_last c" using assms(1) by (auto simp: c_def numbered_def open_last_def)
  then show ?case by (simp add: A_def settle_updates_def List.map_filter_simps c_def)
next
  case (Suc j)
  let ?ss = "as_segments a" and ?s = "as_segments a ! j"
  from Suc have j: "j < length ?ss" and IH: "as_segments (A j) = map (settle out a) (take j ?ss) @ map clean_segment (drop j ?ss)"
    "numbered (A j)" "open_last a \<longrightarrow> open_last (A j)" "grows a (A j)" "as_next_sequence (A j) = as_next_sequence a" by simp_all
  have seg: "as_segments (A j) ! j = clean_segment ?s" "j < length (as_segments (A j))"
    using j by (simp_all add: IH(1) nth_append)
  have at_j: "(xs @ map clean_segment (drop j ?ss))[j := y] = xs @ y # map clean_segment (drop (Suc j) ?ss)" if "length xs = j" for xs y
    using that j by (simp add: list_update_append flip: Cons_nth_drop_Suc)
  have snoc: "take (Suc j) ?ss = take j ?ss @ [?s]" using j by (simp add: take_Suc_conv_app_nth)
  show ?case
  proof (cases "dirty_update a ?s")
    case None
    then have "A (Suc j) = A j" by (simp add: A_def snoc map_filter_snoc)
    then show ?thesis using IH j None by (simp add: snoc settle_def flip: Cons_nth_drop_Suc)
  next
    case (Some u)
    have step: "A (Suc j) = settle_update out u (A j)" using Some by (simp add: A_def snoc map_filter_snoc settle_updates_def)
    have "nu_id (au_utterance u) = sg_id (as_segments (A j) ! j)" using dirty_update_Some(1) [OF Some] by (simp add: seg)
    note at = settle_update_at [OF IH(2) seg(2) this, of out]
    have "as_segments (A (Suc j)) = map (settle out a) (take (Suc j) ?ss) @ map clean_segment (drop (Suc j) ?ss)"
      using at(1) [unfolded seg(1)] j Some by (simp add: step IH(1) at_j snoc settle_def)
    then show ?thesis using at(2-5) IH(3-5) grows_then by (simp add: step)
  qed
qed

end
