(* ===== verification/Capture_Transcript.thy ===== *)
theory Capture_Transcript
  imports Capture_Ledger
begin

text \<open>
  From tokens to the ledger: after any history of responses, ends of utterances and take-overs the ledger
  agrees with the segments, and when an utterance has ended it holds every final word, in order.
\<close>

section \<open>The ledger follows the segments\<close>

definition pre_row :: "ledger \<Rightarrow> segment \<Rightarrow> bool" where
  "pre_row L s \<longleftrightarrow>
     (\<exists>s0. row_ok L s0 \<and> quiet s0 s) \<or> (sg_revision s = None \<and> sg_source_dirty s \<and> L (sg_sequence s) = None)"

definition ledger_settle :: "outcomes \<Rightarrow> assembler \<Rightarrow> segment \<Rightarrow> ledger \<Rightarrow> ledger" where
  "ledger_settle out a s L = (case dirty_update a s of None \<Rightarrow> L | Some u \<Rightarrow> book out u L)"

lemma ledger_settle_other: "n \<noteq> sg_sequence s \<Longrightarrow> ledger_settle out a s L n = L n"
  by (auto simp: ledger_settle_def book_def Let_def dirty_update_Some(2) split: option.splits removal.splits)

lemma row_ok_cong: "L (sg_sequence s) = L' (sg_sequence s) \<Longrightarrow> row_ok L s = row_ok L' s"
  by (simp add: row_ok_def)

lemma pre_row_cong: "L (sg_sequence s) = L' (sg_sequence s) \<Longrightarrow> pre_row L s = pre_row L' s"
proof -
  assume same: "L (sg_sequence s) = L' (sg_sequence s)"
  have "row_ok L s0 = row_ok L' s0" if "quiet s0 s" for s0
    using that same by (intro row_ok_cong) (simp add: quiet_def)
  then show ?thesis using same unfolding pre_row_def by metis
qed

lemma row_settle:
  assumes "pre_row L s"
  shows "row_ok (ledger_settle out a s L) (settle out a s)"
proof (cases "dirty_update a s")
  case None
  then have "ledger_settle out a s L = L" "settle out a s = clean_segment s" by (simp_all add: ledger_settle_def settle_def)
  moreover have "withheld s \<or> \<not> sg_source_dirty s" using None by (auto simp: dirty_update_def split: if_splits)
  ultimately show ?thesis
    using assms by (auto simp: pre_row_def row_ok_def quiet_def withheld_def simp flip: source_text_def)
next
  case (Some u)
  note u = dirty_update_Some [OF Some]
  have settle: "ledger_settle out a s L = book out u L" "settle out a s = persisted_segment out u (clean_segment s)"
    using Some by (simp_all add: ledger_settle_def settle_def)
  show ?thesis
  proof (cases "au_remove_partial u")
    case True
    then have empty: "source_text (persisted_segment out u (clean_segment s)) = []" using u by simp
    show ?thesis
    proof (cases "oc_removal (out u)")
      case (OtherShell r)
      then have "sg_revision (persisted_segment out u (clean_segment s)) \<noteq> None" using True by (simp add: persisted_segment_def)
      then show ?thesis using True OtherShell u empty unfolding settle by (simp add: row_ok_def book_def Let_def)
    next
      case RowGone
      then have "sg_revision (persisted_segment out u (clean_segment s)) = None" using True by (simp add: persisted_segment_def)
      then show ?thesis using True RowGone u empty unfolding settle by (simp add: row_ok_def book_def Let_def)
    next
      case FinalShell
      then have "sg_revision (persisted_segment out u (clean_segment s)) = None" using True by (simp add: persisted_segment_def retired_def)
      then show ?thesis using True FinalShell u empty unfolding settle by (simp add: row_ok_def book_def Let_def)
    qed
  next
    case False
    have "sg_revision (persisted_segment out u (clean_segment s)) \<noteq> None" using False by (simp add: persisted_segment_def)
    moreover have "book out u L (sg_sequence s) = Some (Words (source_text s)) \<or> (\<exists>t. book out u L (sg_sequence s) = Some (OtherWords t))"
    proof (cases "oc_other (out u) = None \<and> \<not> (sg_source_dirty s \<or> sg_revision s = None)")
      case True
      then have "book out u L = L" using False u by (auto simp: book_def Let_def)
      with True show ?thesis using assms by (auto simp: pre_row_def row_ok_def quiet_def)
    qed (use False u in \<open>auto simp: book_def Let_def split: option.splits\<close>)
    ultimately show ?thesis by (auto simp: row_ok_def settle)
  qed
qed

lemma ledger_fold:
  "fold (book out) (List.map_filter (dirty_update a) ss) L = fold (ledger_settle out a) ss L"
  by (induction ss arbitrary: L) (simp_all add: List.map_filter_simps ledger_settle_def split: option.splits)

lemma rows_settle:
  assumes "distinct (map sg_sequence ss)" "\<And>s. s \<in> set ss \<Longrightarrow> pre_row L s"
  shows "(\<forall>s\<in>set ss. row_ok (fold (ledger_settle out a) ss L) (settle out a s)) \<and>
    (\<forall>n. n \<notin> sg_sequence ` set ss \<longrightarrow> fold (ledger_settle out a) ss L n = L n)"
  using assms
proof (induction ss arbitrary: L)
  case (Cons s ss)
  let ?L = "ledger_settle out a s L"
  have "pre_row ?L t" if "t \<in> set ss" for t
  proof -
    have "sg_sequence t \<in> sg_sequence ` set ss" using that by (rule imageI)
    then have "sg_sequence t \<noteq> sg_sequence s" using Cons.prems(1) by auto
    then show ?thesis using Cons.prems(2) that pre_row_cong [of ?L t L] ledger_settle_other by simp
  qed
  with Cons have IH: "(\<forall>t\<in>set ss. row_ok (fold (ledger_settle out a) ss ?L) (settle out a t)) \<and>
      (\<forall>n. n \<notin> sg_sequence ` set ss \<longrightarrow> fold (ledger_settle out a) ss ?L n = ?L n)" by simp
  have seq: "sg_sequence (settle out a s) = sg_sequence s" by (simp add: settle_def split: option.splits)
  have "row_ok ?L (settle out a s)" using Cons.prems by (intro row_settle) simp
  then have "row_ok (fold (ledger_settle out a) ss ?L) (settle out a s)"
    using IH Cons.prems(1) row_ok_cong [of ?L "settle out a s" "fold (ledger_settle out a) ss ?L"] by (simp add: seq)
  then show ?case using IH ledger_settle_other by simp
qed simp

lemma numbered_distinct: "numbered a \<Longrightarrow> distinct (map sg_sequence (as_segments a))"
  by (auto simp: numbered_def distinct_conv_nth)

section \<open>The end of an utterance\<close>

lemma append_tail_simps:
  assumes "numbered a" "as_next_sequence a < u64_max"
  shows "as_segments (append_tail s a) = as_segments a @ [with_tail s (new_segment (as_session_id a) (as_next_sequence a))]"
    "numbered (append_tail s a)" "as_next_sequence (append_tail s a) = Suc (as_next_sequence a)"
proof -
  show *: "as_segments (append_tail s a) = as_segments a @ [with_tail s (new_segment (as_session_id a) (as_next_sequence a))]"
    by (simp add: append_tail_def create_segment_def update_segment_def)
  show succ: "as_next_sequence (append_tail s a) = Suc (as_next_sequence a)"
    using assms(2) by (simp add: append_tail_def create_segment_def sat_u64_add_def)
  have "as_session_id (append_tail s a) = as_session_id a" using grows_tail [of a s] by (simp add: grows_def)
  then show "numbered (append_tail s a)"
    using assms(1) by (auto simp: numbered_def * succ nth_append with_tail_def less_Suc_eq Suc_diff_le)
qed

lemma append_tails:
  assumes "numbered a" "as_next_sequence a \<le> u64_max" "as_next_sequence (fold append_tail ds a) < u64_max"
  shows "numbered (fold append_tail ds a) \<and> as_next_sequence (fold append_tail ds a) = as_next_sequence a + length ds \<and>
    (\<exists>ns. length ns = length ds \<and>
       as_segments (fold append_tail ds a) = as_segments a @ map2 (\<lambda>d n. with_tail d (new_segment (as_session_id a) n)) ds ns)"
  using assms(3)
proof (induction ds rule: rev_induct)
  case (snoc d ds)
  let ?b = "fold append_tail ds a"
  have g: "grows a ?b" by (rule grows_fold, rule grows_tail)
  then have "as_next_sequence ?b < u64_max"
    using snoc.prems grows_tail [of ?b d] assms(2) by (auto simp: grows_def)
  note room = this
  from snoc.IH [OF room] obtain ns where b: "numbered ?b" "as_next_sequence ?b = as_next_sequence a + length ds" "length ns = length ds"
      "as_segments ?b = as_segments a @ map2 (\<lambda>d n. with_tail d (new_segment (as_session_id a) n)) ds ns" by blast
  have sid: "as_session_id ?b = as_session_id a" using g by (simp add: grows_def)
  have c: "fold append_tail (ds @ [d]) a = append_tail d ?b" by simp
  note tail = append_tail_simps [OF b(1) room, of d, unfolded sid]
  have "as_segments (append_tail d ?b) =
      as_segments a @ map2 (\<lambda>d n. with_tail d (new_segment (as_session_id a) n)) (ds @ [d]) (ns @ [as_next_sequence ?b])"
    unfolding tail(1) b(4) using b(3) by (simp only: zip_append [OF b(3) [symmetric]] map_append) simp
  moreover have "length (ns @ [as_next_sequence ?b]) = length (ds @ [d])" using b(3) by simp
  moreover have "as_next_sequence (append_tail d ?b) = as_next_sequence a + length (ds @ [d])" unfolding tail(3) b(2) by simp
  ultimately show ?case unfolding c using tail(2) by blast
qed (use assms in simp)

text \<open>The segments when an utterance ends, before their updates are taken.\<close>

definition ended :: "assembler \<Rightarrow> assembler" where
  "ended a =
     (let b = fold append_tail (filter must_detach (as_segments a))
                (a\<lparr>as_segments := map (\<lambda>s. if must_detach s then without_tail s else s) (as_segments a)\<rparr>)
      in b\<lparr>as_segments := map finish_segment (as_segments b)\<rparr>)"

lemma finalize_ended: "finalize a = take_dirty_updates (ended a)"
  by (simp add: finalize_def ended_def Let_def)

definition stripped :: "segment \<Rightarrow> segment" where
  "stripped s = finish_segment (if must_detach s then without_tail s else s)"

definition tail_segment :: "ustring \<Rightarrow> segment \<Rightarrow> nat \<Rightarrow> segment" where
  "tail_segment sid d n = finish_segment (with_tail d (new_segment sid n))"

lemma grows_ended: "grows a (ended a)"
  using grows_finalize [of a] by (simp add: finalize_ended take_dirty_updates_def)

lemma ended_segments:
  assumes "numbered a" "as_next_sequence a \<le> u64_max" "as_next_sequence (ended a) < u64_max"
  shows "numbered (ended a)" "length (as_segments a) \<le> length (as_segments (ended a))"
    "as_next_sequence (ended a) = as_next_sequence a + (length (as_segments (ended a)) - length (as_segments a))"
    "\<exists>ns. length ns = length (filter must_detach (as_segments a)) \<and> as_segments (ended a) =
       map stripped (as_segments a) @ map2 (tail_segment (as_session_id a)) (filter must_detach (as_segments a)) ns"
proof -
  let ?b = "a\<lparr>as_segments := map (\<lambda>s. if must_detach s then without_tail s else s) (as_segments a)\<rparr>"
  let ?c = "fold append_tail (filter must_detach (as_segments a)) ?b"
  have b: "numbered ?b" using assms(1) by (auto simp: numbered_def without_tail_def)
  have "as_next_sequence ?c < u64_max" using assms(3) by (simp add: ended_def Let_def)
  with append_tails [OF b, of "filter must_detach (as_segments a)"] assms(2) obtain ns where
    c: "numbered ?c" "as_next_sequence ?c = as_next_sequence a + length ns" "length ns = length (filter must_detach (as_segments a))"
    "as_segments ?c = map (\<lambda>s. if must_detach s then without_tail s else s) (as_segments a) @
       map2 (\<lambda>d n. with_tail d (new_segment (as_session_id a) n)) (filter must_detach (as_segments a)) ns" by auto
  have e: "as_segments (ended a) = map finish_segment (as_segments ?c)" "as_next_sequence (ended a) = as_next_sequence ?c"
    "as_session_id (ended a) = as_session_id ?c"
    by (simp_all add: ended_def Let_def)
  have eq: "as_segments (ended a) =
      map stripped (as_segments a) @ map2 (tail_segment (as_session_id a)) (filter must_detach (as_segments a)) ns"
    by (simp add: e c(4) stripped_def tail_segment_def comp_def case_prod_beta)
  with c(3) show "\<exists>ns. length ns = length (filter must_detach (as_segments a)) \<and> as_segments (ended a) =
       map stripped (as_segments a) @ map2 (tail_segment (as_session_id a)) (filter must_detach (as_segments a)) ns" by blast
  show "length (as_segments a) \<le> length (as_segments (ended a))"
    "as_next_sequence (ended a) = as_next_sequence a + (length (as_segments (ended a)) - length (as_segments a))"
    using eq e(2) c(2,3) by simp_all
  have "sg_sequence (finish_segment s) = sg_sequence s" "sg_id (finish_segment s) = sg_id s" for s
    by (simp_all add: finish_segment_def close_segment_def)
  then show "numbered (ended a)" using c(1) by (auto simp: numbered_def e)
qed

text \<open>A finished segment shows all it has, committed and pending.\<close>

lemma finished_stripped:
  "lv_committed (sg_source (stripped s)) = lv_committed (sg_source s)"
  "lv_pending (sg_source (stripped s)) = (if must_detach s then [] else lv_pending (sg_source s))"
  "source_text (stripped s) = lv_committed (sg_source s) @ (if must_detach s then [] else lv_pending (sg_source s))"
  "sg_complete (stripped s) \<or> source_text (stripped s) = []"
  "\<not> sg_source_dirty s \<Longrightarrow> quiet s (stripped s)"
proof -
  have finish: "lv_committed (sg_source (finish_segment t)) = lv_committed (sg_source t)"
    "lv_pending (sg_source (finish_segment t)) = lv_pending (sg_source t)" "source_text (finish_segment t) = source_text t"
    "sg_complete (finish_segment t) \<or> source_text (finish_segment t) = []" "\<not> sg_source_dirty t \<Longrightarrow> quiet t (finish_segment t)"
    "sg_source_dirty t \<Longrightarrow> sg_source_dirty (finish_segment t)" "sg_sequence (finish_segment t) = sg_sequence t"
    "sg_revision (finish_segment t) = sg_revision t" for t
    by (auto simp: finish_segment_def close_segment_def source_text_def pending_source_matches_committed_identity_def Let_def
        stable_source_language_def lane_of_segment_empty_def lane_is_empty_def lane_text_def quiet_def)
  show "lv_committed (sg_source (stripped s)) = lv_committed (sg_source s)"
    "lv_pending (sg_source (stripped s)) = (if must_detach s then [] else lv_pending (sg_source s))"
    by (simp_all add: stripped_def finish without_tail_def take_pending_def)
  show "source_text (stripped s) = lv_committed (sg_source s) @ (if must_detach s then [] else lv_pending (sg_source s))"
    unfolding stripped_def finish(3) by (auto simp: source_text_def without_tail_def take_pending_def lane_text_def must_detach_def)
  show "sg_complete (stripped s) \<or> source_text (stripped s) = []" unfolding stripped_def by (rule finish(4))
  have "quiet s (finish_segment (without_tail s))"
    using finish(6-8) [of "without_tail s"] by (simp add: quiet_def without_tail_def)
  then show "\<not> sg_source_dirty s \<Longrightarrow> quiet s (stripped s)" using finish(5) [of s] by (simp add: stripped_def)
qed

lemma finished_tail:
  "lv_committed (sg_source (tail_segment sid d n)) = []"
  "lv_pending (sg_source (tail_segment sid d n)) = lv_pending (sg_source d)"
  "source_text (tail_segment sid d n) = lv_pending (sg_source d)" "sg_complete (tail_segment sid d n)"
  "sg_revision (tail_segment sid d n) = None" "sg_source_dirty (tail_segment sid d n)"
  by (simp_all add: tail_segment_def finish_segment_def with_tail_def take_pending_def source_text_def lane_text_def
      pending_source_matches_committed_identity_def stable_source_language_def or_else_def Let_def new_segment_def)

section \<open>Histories\<close>

text \<open>A row holds a text, unless the store keeps other words there.\<close>

definition holds :: "ledger \<Rightarrow> nat \<Rightarrow> ustring \<Rightarrow> bool" where
  "holds L k t \<longleftrightarrow> (\<exists>w. L k = Some (OtherWords w)) \<or> ledger_text L k = t"

definition lane_inv :: "assembler \<times> ledger \<Rightarrow> ustring \<Rightarrow> ustring \<Rightarrow> ustring \<Rightarrow> bool" where
  "lane_inv s spoken tails open_end \<longleftrightarrow>
     (case s of (a, L) \<Rightarrow>
        routed a \<and> as_next_sequence a \<le> u64_max \<and>
        (\<forall>t\<in>set (as_segments a). row_ok L t \<and> \<not> sg_source_dirty t) \<and> (\<forall>n\<ge>as_next_sequence a. L n = None) \<and>
        (\<exists>parts. length parts = first_sequence a \<and> (\<forall>k<length parts. holds L k (fst (parts ! k) @ snd (parts ! k))) \<and>
           concat (map fst parts) @ committed_text a = spoken \<and> mset (concat (map snd parts)) = mset tails) \<and>
        pending_text a = open_end)"

lemma lane_inv_new: "lane_inv (new_assembler sid profile, \<lambda>_. None) [] [] []"
  by (simp add: lane_inv_def routed_new first_sequence_def committed_text_def pending_text_def)
    (simp add: new_assembler_def)

lemma numbered_sequences:
  assumes "numbered a" "s \<in> set (as_segments a)"
  shows "first_sequence a \<le> sg_sequence s" "sg_sequence s < as_next_sequence a"
  using assms by (auto simp: numbered_def first_sequence_def in_set_conv_nth)

text \<open>Updates are taken and persisted: the segments settle, the ledger follows.\<close>

lemma persisted_all:
  assumes "numbered b" "\<forall>s\<in>set (as_segments b). pre_row L s"
    and "take_dirty_updates b = (us, c)" "own_rows sc" "persist_updates sc us c L = (a', L', None)"
  defines "out \<equiv> outcome_of sc"
  shows "as_segments a' = map (settle out b) (as_segments b)" "open_last b \<Longrightarrow> routed a'" "as_next_sequence a' = as_next_sequence b"
    "\<forall>s\<in>set (as_segments b). row_ok L' (settle out b s)" "\<forall>n. n < first_sequence b \<or> as_next_sequence b \<le> n \<longrightarrow> L' n = L n"
proof -
  have us: "us = List.map_filter (dirty_update b) (as_segments b)" "c = b\<lparr>as_segments := map clean_segment (as_segments b)\<rparr>"
    using assms(3) by (simp_all add: take_dirty_updates_def)
  have "list_all own_name us" unfolding us(1) by (rule dirty_updates_own [OF assms(1)])
  then have a': "a' = settle_updates out us c" and fold: "L' = fold (book out) us L"
    using persist_updates_outcome [OF assms(4) _ assms(5)] by (simp_all add: out_def)
  from persist_prefix [OF assms(1) order_refl, of out]
  show "as_segments a' = map (settle out b) (as_segments b)" "open_last b \<Longrightarrow> routed a'" "as_next_sequence a' = as_next_sequence b"
    by (simp_all add: a' us routed_def)
  have L': "L' = fold (ledger_settle out b) (as_segments b) L" by (simp add: fold us ledger_fold)
  have "(\<forall>s\<in>set (as_segments b). row_ok (fold (ledger_settle out b) (as_segments b) L) (settle out b s)) \<and>
      (\<forall>n. n \<notin> sg_sequence ` set (as_segments b) \<longrightarrow> fold (ledger_settle out b) (as_segments b) L n = L n)"
    using assms(2) by (intro rows_settle numbered_distinct [OF assms(1)]) blast
  note rows = this [folded L']
  then show "\<forall>s\<in>set (as_segments b). row_ok L' (settle out b s)" by blast
  have "n \<notin> sg_sequence ` set (as_segments b)" if "n < first_sequence b \<or> as_next_sequence b \<le> n" for n
    using that numbered_sequences [OF assms(1)] by fastforce
  then show "\<forall>n. n < first_sequence b \<or> as_next_sequence b \<le> n \<longrightarrow> L' n = L n" using rows by blast
qed

lemma settle_simps [simp]:
  "sg_source (settle out a s) = sg_source s" "sg_sequence (settle out a s) = sg_sequence s"
  "\<not> sg_source_dirty (settle out a s)" "source_text (settle out a s) = source_text s"
  "sg_complete s \<Longrightarrow> sg_complete (settle out a s)"
  by (simp_all add: settle_def split: option.splits)

lemma pre_row_follows:
  assumes "follows a b" "numbered b" "first_sequence b = first_sequence a" "length (as_segments a) \<le> as_next_sequence a"
    and "\<forall>t\<in>set (as_segments a). row_ok L t" "\<forall>n\<ge>as_next_sequence a. L n = None" "s \<in> set (as_segments b)"
  shows "pre_row L s"
proof -
  obtain k where k: "k < length (as_segments b)" "s = as_segments b ! k" using assms(7) by (auto simp: in_set_conv_nth)
  show ?thesis
  proof (cases "k < length (as_segments a)")
    case True
    then have "row_ok L (as_segments a ! k)" "quiet (as_segments a ! k) s" using assms(1,5) k by (auto simp: follows_def)
    then show ?thesis unfolding pre_row_def by blast
  next
    case False
    then have "as_next_sequence a \<le> sg_sequence s" using assms(2-4) k by (auto simp: numbered_def first_sequence_def)
    then show ?thesis using assms(1,6) k False by (auto simp: follows_def pre_row_def)
  qed
qed

lemma persist_update_keeps:
  assumes "persist_update sc u a = Inr b"
  shows "as_next_sequence b = as_next_sequence a" "as_session_id b = as_session_id a"
proof -
  have on: "as_next_sequence (on_segment i f c) = as_next_sequence c" "as_session_id (on_segment i f c) = as_session_id c" for i f c
    by (simp_all add: on_segment_def split: option.splits)
  have records: "as_next_sequence (record_persisted i r c) = as_next_sequence c" "as_session_id (record_persisted i r c) = as_session_id c"
    "as_next_sequence (record_partial_removed i c) = as_next_sequence c" "as_session_id (record_partial_removed i c) = as_session_id c"
    "as_next_sequence (record_translation_persisted i l c) = as_next_sequence c"
    "as_session_id (record_translation_persisted i l c) = as_session_id c"
    "as_next_sequence (retire_source_segment i c) = as_next_sequence c" "as_session_id (retire_source_segment i c) = as_session_id c" for i r l c
    by (simp_all add: record_persisted_def record_partial_removed_def record_translation_persisted_def retire_source_segment_def on
        split: option.splits)
  have translation: "as_next_sequence c = as_next_sequence a \<and> as_session_id c = as_session_id a"
    if "persist_translation sc u x a = Inr (r, c)" for x r c
    using that by (auto simp: persist_translation_def and_then_eq_Inr records split: option.splits)
  have "as_next_sequence b = as_next_sequence a \<and> as_session_id b = as_session_id a"
  proof (cases "au_remove_partial u")
    case True
    then obtain x where "b = (case x of None \<Rightarrow> record_partial_removed (nu_id (au_utterance u)) a
        | Some shell \<Rightarrow> if final_owner shell then retire_source_segment (ut_id shell) a
            else record_persisted (ut_id shell) (ut_revision shell)
              (record_translation_persisted (ut_id shell) (Option.bind (translation_update u) ready_language) a))"
      using assms by (auto simp: persist_update_def persist_removal_def and_then_eq_Inr)
    then show ?thesis by (simp add: records split: option.splits)
  next
    case False
    then show ?thesis using assms by (auto simp: persist_update_def and_then_eq_Inr records dest: translation)
  qed
  then show "as_next_sequence b = as_next_sequence a" "as_session_id b = as_session_id a" by simp_all
qed

lemma persist_keeps:
  "as_next_sequence (fst (persist_updates sc us a L)) = as_next_sequence a"
  "as_session_id (fst (persist_updates sc us a L)) = as_session_id a"
  by (induction us arbitrary: a L) (auto simp: persist_update_keeps split: sum.splits)

lemma texts_settle:
  assumes "as_segments a' = map (settle out b) (as_segments b)"
  shows "committed_text a' = committed_text b" "pending_text a' = pending_text b"
  by (simp_all add: committed_text_def pending_text_def assms comp_def)

lemma respond_step:
  assumes inv: "lane_inv (a, L) spoken tails open_end"
    and own: "own_rows sc" and step: "lane_step (a, L, None) (Respond ts, sc) = (a', L', None)"
    and room: "as_next_sequence a' < u64_max"
  shows "lane_inv (a', L') (spoken @ final_text ts) tails (tail_text ts)"
proof -
  let ?b = "responded ts a"
  obtain us c where uc: "take_dirty_updates ?b = (us, c)" by fastforce
  have run: "persist_updates sc us c L = (a', L', None)" using step by (simp add: apply_tokens_responded uc)
  let ?out = "outcome_of sc"
  have a: "routed a" "as_next_sequence a \<le> u64_max" "\<forall>t\<in>set (as_segments a). row_ok L t" "\<forall>n\<ge>as_next_sequence a. L n = None"
    using inv by (auto simp: lane_inv_def)
  have len: "length (as_segments a) \<le> as_next_sequence a" using a(1) by (simp add: routed_def numbered_def)
  have "as_next_sequence a' = as_next_sequence c" using persist_keeps(1) [of sc us c L] by (simp add: run)
  with room uc have b: "as_next_sequence ?b < u64_max" by (auto simp: take_dirty_updates_def)
  note facts = routed_responded [OF a(1,2) b]
  have b': "numbered ?b" "open_last ?b" using facts(1) by (simp_all add: routed_def)
  have pre: "\<forall>s\<in>set (as_segments ?b). pre_row L s"
    using pre_row_follows [OF follows_responded b'(1) facts(4) len a(3,4)] by blast
  note all = persisted_all [OF b'(1) pre uc own run]
  have grows: "as_next_sequence a \<le> as_next_sequence ?b"
    using grows_apply [of a ts] a(2) by (simp add: apply_tokens_responded take_dirty_updates_def grows_def)
  have first: "first_sequence a' = first_sequence a" using all(1,3) facts(4) by (simp add: first_sequence_def)
  obtain parts where parts: "length parts = first_sequence a" "\<forall>k<length parts. holds L k (fst (parts ! k) @ snd (parts ! k))"
      "concat (map fst parts) @ committed_text a = spoken" "mset (concat (map snd parts)) = mset tails"
    using inv by (auto simp: lane_inv_def)
  have "holds L' k = holds L k" if "k < length parts" for k
    using all(5) that parts(1) facts(4) by (simp add: holds_def ledger_text_def fun_eq_iff)
  then have "\<exists>parts. length parts = first_sequence a' \<and> (\<forall>k<length parts. holds L' k (fst (parts ! k) @ snd (parts ! k))) \<and>
      concat (map fst parts) @ committed_text a' = spoken @ final_text ts \<and> mset (concat (map snd parts)) = mset tails"
    using parts first texts_settle(1) [OF all(1)] facts(2) by (intro exI [of _ parts]) auto
  moreover have "\<forall>n\<ge>as_next_sequence a'. L' n = None" using all(3,5) a(4) grows by auto
  moreover have "\<forall>t\<in>set (as_segments a'). row_ok L' t \<and> \<not> sg_source_dirty t" using all(1,4) by auto
  ultimately show ?thesis
    using all(2) [OF b'(2)] all(3) b texts_settle(2) [OF all(1)] facts(3) by (simp add: lane_inv_def)
qed

lemma detached_split:
  "mset (concat (map (\<lambda>s. if P s then [] else f s) ss)) + mset (concat (map f (filter P ss))) = mset (concat (map f ss))"
  by (induction ss) auto

text \<open>What the segments of an ended utterance hold.\<close>

lemma ended_texts:
  assumes "numbered a" "as_next_sequence a \<le> u64_max" "as_next_sequence (ended a) < u64_max"
  defines "parts \<equiv> map (\<lambda>s. (lv_committed (sg_source s), lv_pending (sg_source s))) (as_segments (ended a))"
  shows "concat (map fst parts) = committed_text a" "mset (concat (map snd parts)) = mset (pending_text a)"
    "\<forall>s\<in>set (as_segments (ended a)). source_text s = lv_committed (sg_source s) @ lv_pending (sg_source s) \<and>
       (sg_complete s \<or> source_text s = [])"
    "(\<forall>s\<in>set (as_segments a). \<not> sg_source_dirty s) \<Longrightarrow> follows a (ended a)"
proof -
  let ?ds = "filter must_detach (as_segments a)"
  obtain ns where ns: "length ns = length ?ds"
    "as_segments (ended a) = map stripped (as_segments a) @ map2 (tail_segment (as_session_id a)) ?ds ns"
    using ended_segments(4) [OF assms(1-3)] by blast
  have tails: "map g (map2 (tail_segment sid) ds ns) = map h ds" if "length ns = length ds" "\<And>d n. g (tail_segment sid d n) = h d"
    for g :: "segment \<Rightarrow> ustring" and h sid ds and ns :: "nat list"
    using that by (induction ds ns rule: list_induct2') auto
  have "map fst parts = map (\<lambda>s. lv_committed (sg_source s)) (as_segments a) @ map (\<lambda>d. []) ?ds"
    using tails [OF ns(1), of "\<lambda>s. lv_committed (sg_source s)" "as_session_id a" "\<lambda>d. []"]
    by (simp add: parts_def ns(2) finished_stripped finished_tail comp_def)
  then show "concat (map fst parts) = committed_text a" by (simp add: committed_text_def concat_eq_Nil_conv)
  have "map snd parts = map (\<lambda>s. if must_detach s then [] else lv_pending (sg_source s)) (as_segments a) @
      map (\<lambda>d. lv_pending (sg_source d)) ?ds"
    using tails [OF ns(1), of "\<lambda>s. lv_pending (sg_source s)" "as_session_id a" "\<lambda>d. lv_pending (sg_source d)"]
    by (simp add: parts_def ns(2) finished_stripped finished_tail comp_def)
  then show "mset (concat (map snd parts)) = mset (pending_text a)"
    using detached_split [of must_detach "\<lambda>s. lv_pending (sg_source s)" "as_segments a"] by (simp add: pending_text_def)
  have pieces: "source_text s = lv_committed (sg_source s) @ lv_pending (sg_source s) \<and> (sg_complete s \<or> source_text s = [])"
    if "s \<in> set (as_segments (ended a))" for s
  proof -
    from that consider t where "s = stripped t" | sid d n where "s = tail_segment sid d n" unfolding ns(2) by auto
    then show ?thesis
    proof cases
      case (1 t)
      show ?thesis unfolding 1 using finished_stripped(4) [of t] by (simp add: finished_stripped(1-3))
    next
      case 2
      show ?thesis unfolding 2 by (simp add: finished_tail)
    qed
  qed
  then show "\<forall>s\<in>set (as_segments (ended a)). source_text s = lv_committed (sg_source s) @ lv_pending (sg_source s) \<and>
      (sg_complete s \<or> source_text s = [])"
    by blast
  show "follows a (ended a)" if "\<forall>s\<in>set (as_segments a). \<not> sg_source_dirty s"
    using that finished_stripped(5) finished_tail(5,6) ns(1) by (auto simp: follows_def ns(2) nth_append)
qed

lemma end_step:
  assumes inv: "lane_inv (a, L) spoken tails open_end"
    and own: "own_rows sc" and step: "lane_step (a, L, None) (EndUtterance, sc) = (a'', L', None)"
    and room: "as_next_sequence a'' < u64_max"
  shows "lane_inv (a'', L') spoken (tails @ open_end) []"
proof -
  let ?b = "ended a"
  obtain us c where uc: "take_dirty_updates ?b = (us, c)" by fastforce
  obtain a' where run: "persist_updates sc us c L = (a', L', None)" and a'': "a'' = advance a'"
    using step by (auto simp: finalize_ended uc split: prod.splits option.splits)
  have a: "routed a" "as_next_sequence a \<le> u64_max" "\<forall>t\<in>set (as_segments a). row_ok L t" "\<forall>n\<ge>as_next_sequence a. L n = None"
      "\<forall>t\<in>set (as_segments a). \<not> sg_source_dirty t" and P: "pending_text a = open_end"
    using inv by (auto simp: lane_inv_def)
  have na: "numbered a" "length (as_segments a) \<le> as_next_sequence a" using a(1) by (simp_all add: routed_def numbered_def)
  have next_a': "as_next_sequence a' = as_next_sequence ?b" using uc persist_keeps(1) [of sc us c L] by (auto simp: run take_dirty_updates_def)
  with room have b: "as_next_sequence ?b < u64_max" by (simp add: a'' advance_def)
  note seg = ended_segments [OF na(1) a(2) b]
  note texts = ended_texts [OF na(1) a(2) b]
  have first: "first_sequence ?b = first_sequence a" "length (as_segments ?b) \<le> as_next_sequence ?b"
    using seg(1-3) na(2) by (auto simp: first_sequence_def)
  have "\<forall>s\<in>set (as_segments ?b). pre_row L s"
    using pre_row_follows [OF texts(4) [OF a(5)] seg(1) first(1) na(2) a(3,4)] by blast
  note all = persisted_all [OF seg(1) this uc own run]
  let ?out = "outcome_of sc"
  let ?new = "map (\<lambda>s. (lv_committed (sg_source s), lv_pending (sg_source s))) (as_segments ?b)"
  obtain parts where parts: "length parts = first_sequence a" "\<forall>k<length parts. holds L k (fst (parts ! k) @ snd (parts ! k))"
      "concat (map fst parts) @ committed_text a = spoken" "mset (concat (map snd parts)) = mset tails"
    using inv by (auto simp: lane_inv_def)
  have old: "holds L' k = holds L k" if "k < length parts" for k
    using all(5) that parts(1) first(1) by (simp add: holds_def ledger_text_def fun_eq_iff)
  have new: "holds L' (length parts + j) (fst (?new ! j) @ snd (?new ! j))" if "j < length ?new" for j
  proof -
    let ?s = "as_segments ?b ! j"
    have s: "?s \<in> set (as_segments ?b)" using that by simp
    have "sg_sequence ?s = length parts + j" using seg(1) that parts(1) first by (simp add: numbered_def first_sequence_def)
    moreover have "row_ok L' (settle ?out ?b ?s)" using all(4) s by blast
    moreover have "source_text ?s = lv_committed (sg_source ?s) @ lv_pending (sg_source ?s)" "sg_complete ?s \<or> source_text ?s = []"
      using texts(3) s by blast+
    ultimately show ?thesis using that by (auto simp: row_ok_def holds_def ledger_text_def)
  qed
  have nth: "holds L' k (fst ((parts @ ?new) ! k) @ snd ((parts @ ?new) ! k))" if "k < length (parts @ ?new)" for k
  proof (cases "k < length parts")
    case True
    then show ?thesis using old parts(2) by (simp add: nth_append)
  next
    case False
    then show ?thesis using new [of "k - length parts"] that by (simp add: nth_append)
  qed
  have len: "length (parts @ ?new) = as_next_sequence ?b" using parts(1) first seg(2) by (simp add: first_sequence_def)
  have "\<forall>n\<ge>as_next_sequence ?b. L' n = None" using all(5) a(4) seg(3) by auto
  moreover have "\<exists>ps. length ps = as_next_sequence ?b \<and> (\<forall>k<length ps. holds L' k (fst (ps ! k) @ snd (ps ! k))) \<and>
      concat (map fst ps) = spoken \<and> mset (concat (map snd ps)) = mset (tails @ open_end)"
    using nth len parts(3,4) texts(1,2) P by (intro exI [of _ "parts @ ?new"]) simp
  moreover have "routed (advance a')" by (simp add: advance_def routed_def open_last_def numbered_def)
  moreover have "as_next_sequence (advance a') = as_next_sequence ?b" "as_segments (advance a') = []"
    by (simp_all add: advance_def next_a')
  ultimately show ?thesis
    using b unfolding a'' by (simp add: lane_inv_def first_sequence_def committed_text_def pending_text_def)
qed

lemma relinquish_step:
  assumes inv: "lane_inv (a, L) spoken tails open_end"
  shows "lane_inv (relinquish_inline_translation_lane i l a, L) spoken tails open_end"
proof -
  define f :: "segment \<Rightarrow> segment" where "f = (\<lambda>s. if sg_persisted_translation_language s = Some (normalize_language l)
    then s\<lparr>sg_persisted_translation_language := None\<rparr> else s)"
  have f: "sg_source (f s) = sg_source s" "sg_sequence (f s) = sg_sequence s" "sg_id (f s) = sg_id s" "sg_complete (f s) = sg_complete s"
    "sg_source_dirty (f s) = sg_source_dirty s" "row_ok L (f s) = row_ok L s" for s
    by (auto simp: f_def row_ok_def source_text_def stable_source_language_def pending_source_matches_committed_identity_def Let_def)
  have eq: "relinquish_inline_translation_lane i l a = on_segment i f a"
    by (simp add: relinquish_inline_translation_lane_def f_def Let_def)
  have "lane_inv (update_segment k f a, L) spoken tails open_end" for k
  proof -
    have "routed (update_segment k f a)" using inv by (auto intro: routed_update simp: f lane_inv_def)
    moreover have "\<forall>t\<in>set (as_segments (update_segment k f a)). row_ok L t \<and> \<not> sg_source_dirty t"
    proof
      fix t
      assume "t \<in> set (as_segments (update_segment k f a))"
      then obtain j where j: "j < length (as_segments a)" "t = as_segments (update_segment k f a) ! j" by (auto simp: in_set_conv_nth)
      then have "t = as_segments a ! j \<or> t = f (as_segments a ! j)" by (simp add: update_segment_nth)
      moreover have "as_segments a ! j \<in> set (as_segments a)" using j by simp
      ultimately obtain u where "u \<in> set (as_segments a)" "t = u \<or> t = f u" by blast
      then show "row_ok L t \<and> \<not> sg_source_dirty t" using inv by (auto simp: lane_inv_def f)
    qed
    ultimately show ?thesis
      using inv texts_update [of f k a] by (simp add: lane_inv_def f first_sequence_def)
  qed
  then show ?thesis using inv by (simp add: eq on_segment_def split: option.splits)
qed

lemma lane_step_inv:
  assumes "lane_inv (a, L) spoken tails open_end" "own_rows sc" "lane_step (a, L, None) (e, sc) = (a', L', None)"
    and "as_next_sequence a' < u64_max"
  shows "lane_inv (a', L') (spoken @ said [e]) (tails @ (if e = EndUtterance then open_end else [])) (open_tail open_end e)"
proof (cases e)
  case (Respond ts)
  with respond_step [OF assms(1,2)] assms(3,4) show ?thesis by (simp add: open_tail_def del: lane_step.simps)
next
  case EndUtterance
  with end_step [OF assms(1,2)] assms(3,4) show ?thesis by (simp add: open_tail_def del: lane_step.simps)
next
  case (Relinquish i l)
  with relinquish_step [OF assms(1)] assms(3) show ?thesis by (auto simp: open_tail_def)
qed

lemma persist_advance_keeps:
  "as_next_sequence (fst (case persist_updates sc us a L of (a, L, None) \<Rightarrow> (advance a, L, None) | failed \<Rightarrow> failed)) =
   as_next_sequence a"
  using persist_keeps(1) [of sc us a L] by (auto simp: advance_def split: prod.splits option.splits)

lemma lane_step_grows:
  assumes "as_next_sequence (fst s) \<le> u64_max"
  shows "as_next_sequence (fst s) \<le> as_next_sequence (fst (lane_step s e)) \<and> as_next_sequence (fst (lane_step s e)) \<le> u64_max"
proof -
  obtain a L f ev sc where s: "s = (a, L, f)" "e = (ev, sc)" by (cases s, cases e) auto
  show ?thesis
  proof (cases f)
    case None
    show ?thesis
    proof (cases ev)
      case (Respond ts)
      obtain us b where b: "apply_tokens ts a = (us, b)" by fastforce
      then show ?thesis using grows_apply [of a ts] assms by (simp add: s None Respond grows_def persist_keeps)
    next
      case EndUtterance
      obtain us b where b: "finalize a = (us, b)" by fastforce
      then show ?thesis using grows_finalize [of a] assms by (simp add: s None EndUtterance grows_def persist_advance_keeps)
    next
      case (Relinquish i l)
      then show ?thesis using grows_on_segment [of a] assms
        by (auto simp: s None relinquish_inline_translation_lane_def grows_def Let_def)
    qed
  qed (use assms s in auto)
qed

lemma said_append: "said (es @ es') = said es @ said es'"
  by (induction es rule: said.induct) simp_all

lemma ended_tails_snoc:
  "ended_tails p (es @ [e]) = ended_tails p es @ (if e = EndUtterance then foldl open_tail p es else [])"
  by (induction es arbitrary: p) simp_all

definition new_lane_state :: "ustring \<Rightarrow> capture_profile \<Rightarrow> lane_state" where
  "new_lane_state session_id profile = (new_assembler session_id profile, \<lambda>_. None, None)"

lemma lane_run_bound: "as_next_sequence (fst (foldl lane_step (new_lane_state sid profile) es)) \<le> u64_max"
  by (induction es rule: rev_induct) (simp_all add: lane_step_grows, simp add: new_lane_state_def new_assembler_def)

lemma lane_run_inv:
  assumes "foldl lane_step (new_lane_state sid profile) es = (a, L, None)" "as_next_sequence a < u64_max"
    and "list_all (\<lambda>(e, sc). own_rows sc) es"
  shows "lane_inv (a, L) (said (map fst es)) (ended_tails [] (map fst es)) (foldl open_tail [] (map fst es))"
  using assms
proof (induction es arbitrary: a L rule: rev_induct)
  case (snoc e es)
  obtain ev sc where e: "e = (ev, sc)" by fastforce
  obtain b M f where s: "foldl lane_step (new_lane_state sid profile) es = (b, M, f)" by (metis surj_pair)
  then have f: "f = None" and step: "lane_step (b, M, None) (ev, sc) = (a, L, None)"
    using snoc.prems(1) by (cases f; simp add: e)+
  have "as_next_sequence b \<le> u64_max" using lane_run_bound [of sid profile es] by (simp add: s)
  then have "as_next_sequence b < u64_max" using lane_step_grows [of "(b, M, None)" "(ev, sc)"] step snoc.prems(2) by simp
  from lane_step_inv [OF snoc.IH [OF s [unfolded f] this] _ step snoc.prems(2)] snoc.prems(3) show ?case
    by (simp add: e said_append ended_tails_snoc)
qed (simp add: new_lane_state_def lane_inv_new)

section \<open>When other words are kept, and when the lane ends\<close>

text \<open>The store keeps other words of a row: it refuses a stale write, and the row is complete and newer.\<close>

definition keeps_other :: "store_calls \<Rightarrow> nat \<Rightarrow> ustring \<Rightarrow> bool" where
  "keeps_other sc k t \<longleftrightarrow>
     (\<exists>n expected m r. nu_sequence n = k \<and> sc_upsert sc n (Some expected) = Inl (StConflict m) \<and>
        sc_by_id sc (nu_id n) = Inr (Some r) \<and> source_fact_is_complete r \<and> expected < ut_revision r \<and> ut_source_text r = t)"

definition refuses :: "store_calls \<Rightarrow> bool" where
  "refuses sc \<longleftrightarrow>
     (\<exists>s k e l x. sc_remove_partial sc s k e l = Inl x) \<or> (\<exists>s l x. sc_ensure_speaker sc s l = Inl x) \<or>
     (\<exists>n e x. sc_upsert sc n e = Inl x) \<or> (\<exists>i x. sc_by_id sc i = Inl x) \<or> (\<exists>i. sc_by_id sc i = Inr None) \<or>
     (\<exists>s k l t state c x. sc_upsert_variant sc s k l t state c = Inl x)"

lemma ledger_update_other:
  assumes "ledger_update sc u L k = Some (OtherWords t)"
  shows "L k = Some (OtherWords t) \<or> keeps_other sc k t"
proof (cases "ledger_update sc u L k = L k")
  case False
  then obtain r where "and_then (with_speaker sc u) (persist_source sc u) = Inr (KeptOther r)" "ut_source_text r = t"
      "nu_sequence (au_utterance u) = k"
    using assms unfolding ledger_update_def Let_def by (auto split: if_splits sum.splits option.splits source_answer.splits)
  then obtain n where n: "with_speaker sc u = Inr n" "persist_source sc u n = Inr (KeptOther r)" "ut_source_text r = t"
      "nu_sequence (au_utterance u) = k" by (auto simp: and_then_eq_Inr)
  have seq: "nu_sequence (source_row n) = k" "nu_id (source_row n) = nu_id n"
    using n(1,4) by (auto simp: with_speaker_def source_row_def and_then_eq_Inr split: option.splits)
  obtain expected m where kept: "sc_upsert sc (source_row n) (Some expected) = Inl (StConflict m)"
      "sc_by_id sc (nu_id n) = Inr (Some r)" "source_fact_is_complete r" "expected < ut_revision r"
    using n(2) by (auto simp: persist_source_def and_then_eq_Inr ok_or_def split: if_splits sum.splits option.splits store_error.splits)
  show ?thesis
    unfolding keeps_other_def using kept n(3) seq
    by (intro disjI2 exI [of _ "source_row n"] exI [of _ expected] exI [of _ m] exI [of _ r]) simp
qed (use assms in simp)

lemma persist_updates_other:
  "persist_updates sc us a L = (b, M, f) \<Longrightarrow> M k = Some (OtherWords t) \<Longrightarrow> L k = Some (OtherWords t) \<or> keeps_other sc k t"
proof (induction us arbitrary: a L)
  case (Cons u us)
  then show ?case using ledger_update_other [of sc u L k t] by (auto split: sum.splits)
qed simp

lemma persist_update_refused:
  "persist_update sc u a = Inl f \<Longrightarrow> au_remove_partial u \<longrightarrow> au_expected_revision u \<noteq> None \<Longrightarrow> refuses sc"
  unfolding refuses_def
  by (auto simp: persist_update_def persist_removal_def removal_answer_def with_speaker_def persist_source_def persist_translation_def
      and_then_def locally_def map_err_def ok_or_def split: if_splits sum.splits option.splits store_error.splits)

lemma persist_updates_refused:
  "persist_updates sc us a L = (b, M, Some f) \<Longrightarrow> list_all (\<lambda>u. au_remove_partial u \<longrightarrow> au_expected_revision u \<noteq> None) us \<Longrightarrow>
   refuses sc"
  by (induction us arbitrary: a L) (auto dest: persist_update_refused split: sum.splits)

lemma dirty_updates_expected:
  "list_all (\<lambda>u. au_remove_partial u \<longrightarrow> au_expected_revision u \<noteq> None) (List.map_filter (dirty_update a) ss)"
proof -
  have "au_remove_partial u \<longrightarrow> au_expected_revision u \<noteq> None" if "dirty_update a s = Some u" for s u
    using dirty_update_Some(4,5) [OF that] by simp
  then show ?thesis by (auto simp: list_all_iff in_map_filter)
qed

lemma lane_step_other:
  assumes "lane_step (a, L, f) (e, sc) = (b, M, g)"
  shows "M k = Some (OtherWords t) \<Longrightarrow> L k = Some (OtherWords t) \<or> keeps_other sc k t" "f = None \<Longrightarrow> g \<noteq> None \<Longrightarrow> refuses sc"
proof -
  have "(M k = Some (OtherWords t) \<longrightarrow> L k = Some (OtherWords t) \<or> keeps_other sc k t) \<and> (f = None \<and> g \<noteq> None \<longrightarrow> refuses sc)"
  proof (cases f)
    case None
    show ?thesis
    proof (cases e)
      case (Respond ts)
      obtain us c where uc: "take_dirty_updates (responded ts a) = (us, c)" by fastforce
      then have "persist_updates sc us c L = (b, M, g)" using assms by (simp add: None Respond apply_tokens_responded)
      then show ?thesis using persist_updates_other persist_updates_refused uc dirty_updates_expected
        by (auto simp: take_dirty_updates_def)
    next
      case EndUtterance
      obtain us c where uc: "take_dirty_updates (ended a) = (us, c)" by fastforce
      obtain d N h where r: "persist_updates sc us c L = (d, N, h)" by (metis surj_pair)
      then have "M = N" "g = h" using assms uc by (auto simp: None EndUtterance finalize_ended split: option.splits)
      then show ?thesis using persist_updates_other [OF r] persist_updates_refused [of sc us c L d N] r uc dirty_updates_expected
        by (auto simp: take_dirty_updates_def)
    next
      case (Relinquish i l)
      then show ?thesis using assms by (auto simp: None)
    qed
  qed (use assms in auto)
  then show "M k = Some (OtherWords t) \<Longrightarrow> L k = Some (OtherWords t) \<or> keeps_other sc k t" "f = None \<Longrightarrow> g \<noteq> None \<Longrightarrow> refuses sc"
    by blast+
qed

lemma lane_run_other:
  assumes "foldl lane_step (new_lane_state sid profile) es = (a, L, f)"
  shows "(L k = Some (OtherWords t) \<longrightarrow> (\<exists>(e, sc)\<in>set es. keeps_other sc k t)) \<and> (f \<noteq> None \<longrightarrow> (\<exists>(e, sc)\<in>set es. refuses sc))"
  using assms
proof (induction es arbitrary: a L f rule: rev_induct)
  case (snoc e es)
  obtain ev sc where e: "e = (ev, sc)" by fastforce
  obtain b M g where s: "foldl lane_step (new_lane_state sid profile) es = (b, M, g)" by (metis surj_pair)
  have "lane_step (b, M, g) (ev, sc) = (a, L, f)" using snoc.prems by (simp add: s e)
  from lane_step_other [OF this] snoc.IH [OF s] show ?case by (cases g) (auto simp: e)
qed (simp add: new_lane_state_def)

text \<open>C1: Every final word reaches the ledger, once and in order. Take any history of a lane (responses of
  the provider, ends of utterances, translations taken over by other lanes; the store may answer each call as it
  likes, with the rows that it is asked about). When an utterance has just ended and no write has failed, the rows
  in the order of their numbers hold, one after another, exactly the text of all final source tokens, each row possibly
  followed by a speculative tail; the tails together are exactly the speculative text that was open when utterances
  ended, so nothing is made up, lost or shown twice, and numbers of rows are never reused. The only exceptions are rows
  of which the store kept other words: it refused a stale write there, and the row is complete and newer. When a write
  has failed, the store had refused a call.\<close>

theorem every_word_reaches_the_ledger:
  assumes "list_all (\<lambda>(e, sc). own_rows sc) (es @ [(EndUtterance, answers)])"
    and "foldl lane_step (new_lane_state sid profile) (es @ [(EndUtterance, answers)]) = (a, L, failure)" "as_next_sequence a < u64_max"
  shows "case failure of
      None \<Rightarrow> \<exists>parts. length parts = as_next_sequence a \<and>
        (\<forall>k<length parts.
           case L k of
             Some (OtherWords t) \<Rightarrow> \<exists>(e, sc)\<in>set (es @ [(EndUtterance, answers)]). keeps_other sc k t
           | _ \<Rightarrow> ledger_text L k = fst (parts ! k) @ snd (parts ! k)) \<and>
        concat (map fst parts) = said (map fst es) \<and>
        mset (concat (map snd parts)) = mset (ended_tails [] (map fst es @ [EndUtterance]))
    | Some _ \<Rightarrow> \<exists>(e, sc)\<in>set (es @ [(EndUtterance, answers)]). refuses sc"
proof (cases failure)
  case None
  let ?es = "es @ [(EndUtterance, answers)]"
  note s = assms(2) [unfolded None]
  have inv: "lane_inv (a, L) (said (map fst ?es)) (ended_tails [] (map fst ?es)) (foldl open_tail [] (map fst ?es))"
    by (rule lane_run_inv [OF s assms(3,1)])
  obtain b M f where before: "foldl lane_step (new_lane_state sid profile) es = (b, M, f)" by (metis surj_pair)
  with s have "as_segments a = []" by (cases f) (auto simp: advance_def split: prod.splits option.splits)
  with inv obtain parts where parts: "length parts = as_next_sequence a" "\<forall>k<length parts. holds L k (fst (parts ! k) @ snd (parts ! k))"
      "concat (map fst parts) = said (map fst ?es)" "mset (concat (map snd parts)) = mset (ended_tails [] (map fst ?es))"
    by (auto simp: lane_inv_def first_sequence_def committed_text_def)
  have "case L k of Some (OtherWords t) \<Rightarrow> \<exists>(e, sc)\<in>set ?es. keeps_other sc k t | _ \<Rightarrow> ledger_text L k = fst (parts ! k) @ snd (parts ! k)"
    if "k < length parts" for k
    using parts(2) that lane_run_other [OF assms(2)] by (auto simp: holds_def split: option.splits ledger_row.splits)
  then show ?thesis using parts(1,3,4) by (auto simp: None said_append intro!: exI [of _ parts])
next
  case (Some f)
  then show ?thesis using lane_run_other [OF assms(2)] by simp
qed

definition word_token :: "string \<Rightarrow> bool \<Rightarrow> string option \<Rightarrow> stream_token" where
  "word_token w final language =
     \<lparr>tk_text = lit w, tk_start_ms = None, tk_end_ms = None, tk_is_final = final, tk_confidence = None, tk_status = TsOriginal,
      tk_language = map_option lit language, tk_source_language = None, tk_speaker = None\<rparr>"

definition two_way_profile :: capture_profile where
  "two_way_profile =
     \<lparr>cp_notebook_id = lit ''n'', cp_remote_realtime_enabled = True, cp_capture_mode = TwoWayMode, cp_language_a = lit ''en'',
      cp_language_b = lit ''zh'', cp_left_language = lit ''en'', cp_right_language = lit ''zh'',
      cp_selected_languages = [lit ''en'', lit ''zh''], cp_common_caption_language = None, cp_privacy_level = lit ''standard'',
      cp_send_context_to_soniox = False, cp_revision = 1, cp_created_at = lit ''t'', cp_updated_at = lit ''t''\<rparr>"

lemmas assembler_eval =
  apply_tokens_def take_dirty_updates_def is_original_def apply_original_token_def Let_def word_token_def or_else_def
  normalized_optional_language_def normalized_provider_speaker_def source_segment_for_token_def new_assembler_def create_segment_def
  sat_u64_add_def u64_max_def update_segment_def new_segment_def new_lane_def push_original_def note_times_def note_speaker_def
  push_token_def min_of_def max_of_def clean_segment_def dirty_update_def withheld_def stable_source_language_def finalize_def
  must_detach_def pending_source_matches_committed_identity_def List.map_filter_simps
  has_source_text_def lane_is_empty_def finish_segment_def close_segment_def lane_of_segment_empty_def lane_text_def

definition demo_row :: "ustring \<Rightarrow> utterance" where
  "demo_row i =
     \<lparr>ut_id = i, ut_session_id = lit ''s'', ut_sequence = 0, ut_session_speaker_id = None, ut_source_language = lit ''und'',
      ut_source_text = [], ut_source_start_ms = None, ut_source_end_ms = None, ut_translated_language = None,
      ut_translated_text = None, ut_revision = 1, ut_completion = PartialFact, ut_alignment = SourceOnly, ut_created_at = [],
      ut_updated_at = [], ut_source_projection_revision = 0, ut_source_edit_revision = 0, ut_variants = []\<rparr>"

definition demo_calls :: store_calls where
  "demo_calls =
     \<lparr>sc_remove_partial = \<lambda>s k e l. Inr (Some (demo_row (segment_id s k))),
      sc_ensure_speaker = \<lambda>s l. Inr \<lparr>sp_id = l, sp_session_id = s, sp_provider_session_epoch = 0, sp_provider = [], sp_provider_label = l\<rparr>,
      sc_upsert = \<lambda>n e. Inr (demo_row (nu_id n)), sc_by_id = \<lambda>i. Inr (Some (demo_row i)),
      sc_upsert_variant = \<lambda>s k l t state c. Inr (demo_row (segment_id s k))\<rparr>"

lemma demo_calls_answer: "own_rows demo_calls" "\<not> refuses demo_calls" "\<not> keeps_other demo_calls k t"
  by (auto simp: own_rows_def refuses_def keeps_other_def demo_calls_def demo_row_def)

theorem every_word_reaches_the_ledger_witness:
  "\<exists>a L parts. foldl lane_step (new_lane_state (lit ''s'') two_way_profile)
       [(Respond [word_token ''hi'' True None, word_token ''?'' False None], demo_calls), (EndUtterance, demo_calls)] = (a, L, None) \<and>
     map (ledger_text L) [0..<1] = map (\<lambda>(final, tail). final @ tail) parts \<and>
     concat (map fst parts) = lit ''hi'' \<and> mset (concat (map snd parts)) = mset (lit ''?'')"
proof -
  let ?ts = "[word_token ''hi'' True None, word_token ''?'' False None]"
  let ?es = "[(Respond ?ts, demo_calls)]"
  let ?run = "foldl lane_step (new_lane_state (lit ''s'') two_way_profile) (?es @ [(EndUtterance, demo_calls)])"
  obtain a L failure where s: "?run = (a, L, failure)" by (metis surj_pair)
  have "as_next_sequence (fst ?run) = 1"
    by (simp add: assembler_eval new_lane_state_def persist_advance_keeps del: new_segment_simps persist_updates.simps(2))
  then have n: "as_next_sequence a = 1" by (simp only: s fst_conv)
  then have room: "as_next_sequence a < u64_max" by (simp only: u64_max_def)
  have said: "said (map fst ?es) = lit ''hi''" "ended_tails [] (map fst ?es @ [EndUtterance]) = lit ''?''"
    by (simp_all add: final_text_def tail_text_def open_tail_def word_token_def is_original_def)
  have "list_all (\<lambda>(e, sc). own_rows sc) (?es @ [(EndUtterance, demo_calls)])" by (simp add: demo_calls_answer)
  note facts = every_word_reaches_the_ledger [OF this s room, unfolded said]
  then have f: "failure = None" by (auto simp: demo_calls_answer split: option.splits)
  have other: "\<not> (\<exists>(e, sc)\<in>set (?es @ [(EndUtterance, demo_calls)]). keeps_other sc k t)" for k t
    by (simp add: demo_calls_answer)
  obtain parts where parts: "length parts = as_next_sequence a" "concat (map fst parts) = lit ''hi''"
      "mset (concat (map snd parts)) = mset (lit ''?'')"
    and row: "case L 0 of Some (OtherWords t) \<Rightarrow> \<exists>(e, sc)\<in>set (?es @ [(EndUtterance, demo_calls)]). keeps_other sc 0 t
      | _ \<Rightarrow> ledger_text L 0 = fst (parts ! 0) @ snd (parts ! 0)"
    using facts [unfolded f option.case] n by fastforce
  have "ledger_text L 0 = fst (parts ! 0) @ snd (parts ! 0)"
    using row by (simp only: other split: option.splits ledger_row.splits)
  then have "map (ledger_text L) [0..<1] = map (\<lambda>(final, tail). final @ tail) parts"
    using parts(1) n by (cases parts) (simp_all add: case_prod_beta)
  then show ?thesis using s [unfolded f] parts(2,3) by (intro exI [of _ a] exI [of _ L] exI [of _ parts]) simp
qed

end
