(* ===== verification/Capture_Validity.thy ===== *)
theory Capture_Validity
  imports Capture_Transcript
begin

text \<open>
  What the assembler publishes and what the store accepts: the rows made from the tokens of a provider
  that names languages by their codes and gives times in order pass \<^verbatim>\<open>validate_utterance\<close>, so a
  recording is never stopped by its own rows.
\<close>

section \<open>Languages\<close>

definition proper_language :: "ustring \<Rightarrow> bool" where
  "proper_language l \<longleftrightarrow> validate_language l = Inr () \<and> canonical_language l = l"

definition proper :: "ustring option \<Rightarrow> bool" where
  "proper x \<longleftrightarrow> (\<forall>l. x = Some l \<longrightarrow> proper_language l)"

lemma proper_None [simp]: "proper None"
  by (simp add: proper_def)

lemma proper_or_else: "proper x \<Longrightarrow> proper y \<Longrightarrow> proper (or_else x y)"
  by (simp add: proper_def or_else_def split: option.splits)

lemma proper_und: "proper_language (lit ''und'')"
  by (simp add: proper_language_def validate_language_def canonical_language_def Let_def lit_def before_dash_def trim_def trim_start_def
      trim_end_def is_whitespace_def to_ascii_lowercase_def ascii_lower_def is_ascii_alphabetic_def str_len_def len_utf8_def)

lemma whitespace_lower [simp]: "is_whitespace (ascii_lower c) = is_whitespace c"
  by (auto simp: is_whitespace_def ascii_lower_def)

lemma dash_lower: "ascii_lower c = 45 \<longleftrightarrow> c = 45"
  by (auto simp: ascii_lower_def)

lemma trim_lower: "trim (to_ascii_lowercase s) = to_ascii_lowercase (trim s)"
  by (simp add: trim_def trim_start_def trim_end_def to_ascii_lowercase_def dropWhile_map rev_map comp_def)

lemma trim_head_last: "t = trim s \<Longrightarrow> t \<noteq> [] \<Longrightarrow> \<not> is_whitespace (hd t) \<and> \<not> is_whitespace (last t)"
proof -
  assume t: "t = trim s" "t \<noteq> []"
  let ?d = "dropWhile is_whitespace s"
  have rev: "rev t = dropWhile is_whitespace (rev ?d)" using t by (simp add: trim_def trim_end_def trim_start_def)
  then have "\<not> is_whitespace (hd (rev t))" using t(2) by (metis hd_dropWhile rev_is_Nil_conv)
  then have last: "\<not> is_whitespace (last t)" using t(2) by (simp add: hd_rev)
  obtain w where "rev ?d = w @ rev t" by (metis rev takeWhile_dropWhile_id)
  then have "?d = t @ rev w" by (metis rev_append rev_rev_ident)
  moreover have "?d \<noteq> []" using \<open>?d = t @ rev w\<close> t(2) by simp
  then have "\<not> is_whitespace (hd ?d)" by (rule hd_dropWhile)
  ultimately show ?thesis using last t(2) by simp
qed

lemma trim_id: "t = [] \<or> \<not> is_whitespace (hd t) \<and> \<not> is_whitespace (last t) \<Longrightarrow> trim t = t"
proof -
  assume "t = [] \<or> \<not> is_whitespace (hd t) \<and> \<not> is_whitespace (last t)"
  moreover have id: "dropWhile is_whitespace xs = xs" if "xs \<noteq> []" "\<not> is_whitespace (hd xs)" for xs
    using that by (cases xs) simp_all
  ultimately show ?thesis using id [of t] id [of "rev t"] by (cases "t = []") (simp_all add: trim_def trim_start_def trim_end_def hd_rev)
qed

lemma trim_trim [simp]: "trim (trim s) = trim s"
  using trim_head_last [of "trim s" s] by (intro trim_id) blast

lemma split_on_absent: "sep \<notin> set s \<Longrightarrow> split_on sep s = [s]"
  by (induction s) simp_all

lemma before_dash_absent: "45 \<notin> set s \<Longrightarrow> before_dash s = s"
  by (simp add: before_dash_def split_on_absent)

lemma dash_before_dash: "45 \<notin> set (before_dash s)"
  using split_on_no_sep [of _ 45 s] by (auto simp: before_dash_def split: list.splits)

lemma canonical_normalize: "canonical_language (normalize_language v) = normalize_language v"
proof -
  let ?t = "trim (before_dash v)"
  have "45 \<notin> set ?t" using dash_before_dash [of v] set_trim by blast
  then have "45 \<notin> set (to_ascii_lowercase ?t)" by (auto simp: to_ascii_lowercase_def dash_lower) (metis dash_lower)
  then have "before_dash (to_ascii_lowercase ?t) = to_ascii_lowercase ?t" by (rule before_dash_absent)
  moreover have "to_ascii_lowercase (to_ascii_lowercase ?t) = to_ascii_lowercase ?t" by (simp add: to_ascii_lowercase_def)
  ultimately show ?thesis by (simp add: canonical_language_def normalize_language_def trim_lower)
qed

section \<open>Tokens and segments\<close>

text \<open>What is relied on: a language that is given is a code, and times come as a range or not at all.\<close>

definition coded :: "ustring option \<Rightarrow> bool" where
  "coded l \<longleftrightarrow> (case normalized_optional_language l of None \<Rightarrow> True | Some c \<Rightarrow> validate_language c = Inr ())"

definition time_range :: "nat option \<Rightarrow> nat option \<Rightarrow> bool" where
  "time_range s e \<longleftrightarrow> (case (s, e) of (None, None) \<Rightarrow> True | (Some a, Some b) \<Rightarrow> a \<le> b | _ \<Rightarrow> False)"

definition plausible_token :: "stream_token \<Rightarrow> bool" where
  "plausible_token t \<longleftrightarrow> coded (tk_language t) \<and> coded (tk_source_language t) \<and> time_range (tk_start_ms t) (tk_end_ms t)"

lemma proper_normalized: "coded l \<Longrightarrow> proper (normalized_optional_language l)"
  using canonical_normalize by (auto simp: proper_def proper_language_def coded_def normalized_optional_language_def split: option.splits if_splits)

definition lane_proper :: "lane_revision \<Rightarrow> bool" where
  "lane_proper l \<longleftrightarrow> proper (lv_committed_language l) \<and> proper (lv_pending_language l)"

definition segment_proper :: "segment \<Rightarrow> bool" where
  "segment_proper s \<longleftrightarrow>
     lane_proper (sg_source s) \<and> lane_proper (sg_translated s) \<and> proper (sg_committed_language_hint s) \<and>
     time_range (sg_committed_start_ms s) (sg_committed_end_ms s) \<and> time_range (sg_pending_start_ms s) (sg_pending_end_ms s)"

lemma lane_proper_push: "lane_proper l \<Longrightarrow> proper language \<Longrightarrow> lane_proper (push_token t language l)"
  by (auto simp: lane_proper_def push_token_def Let_def split: option.splits)

lemma time_range_extend:
  "time_range s e \<Longrightarrow> time_range s' e' \<Longrightarrow> time_range (min_of s s') (max_of e e')"
  by (auto simp: time_range_def min_of_def max_of_def split: option.splits)

lemma time_range_combine:
  "time_range s e \<Longrightarrow> time_range s' e' \<Longrightarrow> time_range (combine min s s') (combine max e e')"
  by (auto simp: time_range_def combine_def or_else_def split: option.splits)

lemma segment_proper_original:
  assumes "segment_proper s" "proper language" "time_range (tk_start_ms t) (tk_end_ms t)"
  shows "segment_proper (push_original t language speaker s)"
proof -
  have "sg_committed_language_hint (push_original t language speaker s) = sg_committed_language_hint s"
    by (simp add: push_original_def note_times_def note_speaker_def split: option.splits)
  moreover have "sg_committed_start_ms (push_original t language speaker s) =
      (if tk_is_final t then min_of (sg_committed_start_ms s) (tk_start_ms t) else sg_committed_start_ms s)"
    "sg_committed_end_ms (push_original t language speaker s) =
      (if tk_is_final t then max_of (sg_committed_end_ms s) (tk_end_ms t) else sg_committed_end_ms s)"
    "sg_pending_start_ms (push_original t language speaker s) =
      (if tk_is_final t then sg_pending_start_ms s else min_of (sg_pending_start_ms s) (tk_start_ms t))"
    "sg_pending_end_ms (push_original t language speaker s) =
      (if tk_is_final t then sg_pending_end_ms s else max_of (sg_pending_end_ms s) (tk_end_ms t))"
    by (simp_all add: push_original_def note_times_def note_speaker_def split: option.splits)
  ultimately show ?thesis
    using assms by (simp add: segment_proper_def lane_proper_push time_range_extend)
qed

lemma segment_proper_translation:
  assumes "segment_proper s" "proper language" "proper (normalized_optional_language (tk_language t))"
  shows "segment_proper (push_translation t language speaker s)"
  using assms
  by (auto simp: segment_proper_def push_translation_def Let_def lane_proper_push split: option.splits)

definition all_proper :: "assembler \<Rightarrow> bool" where
  "all_proper a \<longleftrightarrow> (\<forall>s\<in>set (as_segments a). segment_proper s \<and> (\<exists>n. sg_id s = segment_id (as_session_id a) n))"

lemma new_segment_proper: "segment_proper (new_segment sid n)"
  by (simp add: segment_proper_def new_segment_def lane_proper_def new_lane_def time_range_def)

lemma all_proper_update:
  assumes "all_proper a" "\<And>s. segment_proper s \<Longrightarrow> segment_proper (f s)" "\<And>s. sg_id (f s) = sg_id s"
  shows "all_proper (update_segment k f a)"
  unfolding all_proper_def
proof
  fix t
  assume "t \<in> set (as_segments (update_segment k f a))"
  then obtain j where j: "j < length (as_segments a)" "t = as_segments (update_segment k f a) ! j" by (auto simp: in_set_conv_nth)
  then have "t = as_segments a ! j \<or> t = f (as_segments a ! j)" by (simp add: update_segment_nth)
  moreover have "as_segments a ! j \<in> set (as_segments a)" using j by simp
  ultimately show "segment_proper t \<and> (\<exists>n. sg_id t = segment_id (as_session_id (update_segment k f a)) n)"
    using assms by (fastforce simp: all_proper_def)
qed

lemma all_proper_map:
  assumes "all_proper a" "\<And>s. segment_proper s \<Longrightarrow> segment_proper (f s)" "\<And>s. sg_id (f s) = sg_id s"
  shows "all_proper (a\<lparr>as_segments := map f (as_segments a)\<rparr>)"
  using assms by (auto simp: all_proper_def)

lemma all_proper_create: "all_proper a \<Longrightarrow> all_proper (snd (create_segment a))"
  using new_segment_proper by (auto simp: all_proper_def create_segment_def)

lemma all_proper_cursor [simp]:
  "all_proper (a\<lparr>as_latest_original := x\<rparr>) = all_proper a" "all_proper (a\<lparr>as_latest_translation := x\<rparr>) = all_proper a"
  "all_proper (a\<lparr>as_unattached := n\<rparr>) = all_proper a"
  by (simp_all add: all_proper_def)

lemma segment_proper_flags [simp]:
  "segment_proper (close_segment s) = segment_proper s" "segment_proper (clean_segment s) = segment_proper s"
  "segment_proper (finish_segment s) = segment_proper s" "segment_proper (persisted_segment answers u s) = segment_proper s"
  by (auto simp: segment_proper_def close_segment_def clean_segment_def finish_segment_def persisted_segment_def noted_def retired_def
      split: option.splits removal.splits)

lemma sg_id_flags [simp]: "sg_id (close_segment s) = sg_id s" "sg_id (finish_segment s) = sg_id s"
  by (simp_all add: finish_segment_def close_segment_def)

section \<open>Every step keeps that\<close>

lemma all_proper_source_segment: "all_proper a \<Longrightarrow> all_proper (snd (source_segment_for_token f l p a))"
proof -
  assume a: "all_proper a"
  have close: "all_proper (update_segment k close_segment a)" for k
    by (rule all_proper_update [OF a]) simp_all
  have "source_segment_for_token f l p a = create_segment a \<or>
      (\<exists>k. source_segment_for_token f l p a = create_segment (update_segment k close_segment a)) \<or>
      (\<exists>k. source_segment_for_token f l p a = (k, a))"
    by (auto simp: source_segment_for_token_def Let_def split: option.splits)
  then show ?thesis using a all_proper_create close by fastforce
qed

lemma all_proper_original:
  assumes "all_proper a" "plausible_token t"
  shows "all_proper (apply_original_token t a)"
proof -
  define l where "l = normalized_optional_language (or_else (tk_language t) (tk_source_language t))"
  define p where "p = normalized_provider_speaker (tk_speaker t)"
  obtain i b where b: "source_segment_for_token (tk_is_final t) l p a = (i, b)" by fastforce
  have "proper l" using assms(2) by (auto simp: l_def plausible_token_def or_else_def intro: proper_normalized split: option.splits)
  moreover have "time_range (tk_start_ms t) (tk_end_ms t)" using assms(2) by (simp add: plausible_token_def)
  moreover have "all_proper b" using all_proper_source_segment [OF assms(1)] b by (metis snd_conv)
  ultimately have "all_proper (update_segment i (push_original t l p) b)"
    by (intro all_proper_update segment_proper_original) simp_all
  then show ?thesis by (simp add: apply_original_token_def l_def [symmetric] p_def [symmetric] b)
qed

lemma all_proper_translation:
  assumes "all_proper a" "plausible_token t"
  shows "all_proper (apply_translation_token t a)"
proof -
  have "proper (normalized_optional_language (tk_source_language t))" "proper (normalized_optional_language (tk_language t))"
    using assms(2) by (auto simp: plausible_token_def intro: proper_normalized)
  then have "all_proper (update_segment i (push_translation t (normalized_optional_language (tk_source_language t)) p) (a\<lparr>as_latest_translation := x\<rparr>))"
    for i p x using assms(1) by (intro all_proper_update segment_proper_translation) simp_all
  then show ?thesis using assms(1) by (simp add: apply_translation_token_def Let_def split: option.splits)
qed

lemma all_proper_fold:
  "(\<And>x a. x \<in> set xs \<Longrightarrow> all_proper a \<Longrightarrow> all_proper (f x a)) \<Longrightarrow> all_proper a \<Longrightarrow> all_proper (fold f xs a)"
  by (induction xs arbitrary: a) simp_all

lemma segment_proper_begin: "segment_proper s \<Longrightarrow> segment_proper (begin_segment_response s)"
  by (simp add: segment_proper_def begin_segment_response_def begin_lane_response_def Let_def lane_proper_def time_range_def split: option.splits)

lemma all_proper_responded:
  assumes "all_proper a" "list_all plausible_token ts"
  shows "all_proper (responded ts a)"
proof -
  have "all_proper (a\<lparr>as_segments := map begin_segment_response (as_segments a)\<rparr>)"
    by (rule all_proper_map [OF assms(1) segment_proper_begin]) simp_all
  then show ?thesis
    using assms(2) unfolding responded_def
    by (intro all_proper_fold all_proper_original all_proper_translation) (auto simp: list_all_iff)
qed

lemma segment_proper_without: "segment_proper s \<Longrightarrow> segment_proper (without_tail s)"
  by (simp add: segment_proper_def without_tail_def take_pending_def lane_proper_def time_range_def split: option.splits)

lemma segment_proper_with: "segment_proper s \<Longrightarrow> segment_proper (with_tail s (new_segment sid n))"
  by (simp add: segment_proper_def with_tail_def take_pending_def lane_proper_def time_range_def new_segment_def split: option.splits)

lemma all_proper_tail:
  assumes "all_proper a" "segment_proper d"
  shows "all_proper (append_tail d a)"
proof -
  have "as_segments (append_tail d a) = as_segments a @ [with_tail d (new_segment (as_session_id a) (as_next_sequence a))]"
    "as_session_id (append_tail d a) = as_session_id a"
    by (simp_all add: append_tail_def create_segment_def update_segment_def)
  moreover have "sg_id (with_tail d (new_segment sid n)) = segment_id sid n" for sid n by (simp add: with_tail_def)
  ultimately show ?thesis using assms segment_proper_with by (auto simp: all_proper_def)
qed

lemma all_proper_ended:
  assumes "all_proper a"
  shows "all_proper (ended a)"
proof -
  let ?b = "a\<lparr>as_segments := map (\<lambda>s. if must_detach s then without_tail s else s) (as_segments a)\<rparr>"
  have "all_proper ?b" by (rule all_proper_map [OF assms]) (simp_all add: segment_proper_without, simp add: without_tail_def)
  then have "all_proper (fold append_tail (filter must_detach (as_segments a)) ?b)"
    using assms by (intro all_proper_fold all_proper_tail) (auto simp: all_proper_def)
  from all_proper_map [OF this, of finish_segment] show ?thesis by (simp add: ended_def Let_def)
qed

lemma all_proper_on_segment:
  "all_proper a \<Longrightarrow> (\<And>s. segment_proper s \<Longrightarrow> segment_proper (f s)) \<Longrightarrow> (\<And>s. sg_id (f s) = sg_id s) \<Longrightarrow> all_proper (on_segment i f a)"
  by (auto simp: on_segment_def intro: all_proper_update split: option.splits)

lemma all_proper_persist:
  assumes a: "all_proper a" and step: "persist_update sc u a = Inr b"
  shows "all_proper b"
proof -
  have translation: "all_proper (record_translation_persisted i l b)" if "all_proper b" for i l b
    unfolding record_translation_persisted_def using that by (intro all_proper_on_segment) (simp_all add: segment_proper_def)
  have persisted: "all_proper (record_persisted i r b)" if "all_proper b" for i r b
    unfolding record_persisted_def using that by (intro all_proper_on_segment) (simp_all add: segment_proper_def)
  have removed: "all_proper (record_partial_removed i b)" if "all_proper b" for i b
    unfolding record_partial_removed_def using that by (intro all_proper_on_segment) (simp_all add: segment_proper_def)
  have "all_proper (update_segment k retired a)" for k
    using a by (intro all_proper_update) (simp_all add: segment_proper_def retired_def)
  then have retire: "all_proper (retire_source_segment i a)" for i
    using a by (simp add: retire_source_segment_def split: option.splits)
  have noted: "all_proper c" if "persist_translation sc u x a = Inr (r, c)" for x r c
    using that a translation by (auto simp: persist_translation_def and_then_eq_Inr split: option.splits)
  show ?thesis
  proof (cases "au_remove_partial u")
    case True
    then show ?thesis using step a translation persisted removed retire
      by (auto simp: persist_update_def persist_removal_def and_then_eq_Inr split: option.splits if_splits)
  next
    case False
    then show ?thesis using step noted persisted by (auto simp: persist_update_def and_then_eq_Inr)
  qed
qed

section \<open>Histories\<close>

fun tokens_of :: "lane_event list \<Rightarrow> stream_token list" where
  "tokens_of [] = []"
| "tokens_of (Respond ts # es) = ts @ tokens_of es"
| "tokens_of (_ # es) = tokens_of es"

definition published :: "assembler \<Rightarrow> lane_event \<Rightarrow> assembled_utterance list" where
  "published a e =
     (case e of Respond ts \<Rightarrow> fst (apply_tokens ts a) | EndUtterance \<Rightarrow> fst (finalize a) | Relinquish _ _ \<Rightarrow> [])"

lemma tokens_of_append: "tokens_of (es @ es') = tokens_of es @ tokens_of es'"
  by (induction es rule: tokens_of.induct) simp_all

lemma all_proper_take: "all_proper a \<Longrightarrow> all_proper (snd (take_dirty_updates a))"
  unfolding take_dirty_updates_def snd_conv by (rule all_proper_map) simp_all

lemma all_proper_persists: "all_proper a \<Longrightarrow> all_proper (fst (persist_updates sc us a L))"
  by (induction us arbitrary: a L) (auto split: sum.splits dest: all_proper_persist)

lemma all_proper_advance: "all_proper (advance a)"
  by (simp add: all_proper_def advance_def)

lemma persist_advance_cases:
  "fst (case persist_updates sc us a L of (a, L, None) \<Rightarrow> (advance a, L, None) | failed \<Rightarrow> failed) \<in>
   {fst (persist_updates sc us a L), advance (fst (persist_updates sc us a L))}"
  by (auto split: prod.splits option.splits)

lemma all_proper_step:
  assumes "all_proper (fst s)" "list_all plausible_token (tokens_of [fst e])"
  shows "all_proper (fst (lane_step s e))"
proof -
  obtain a L f ev sc where s: "s = (a, L, f)" "e = (ev, sc)" by (cases s, cases e) auto
  show ?thesis
  proof (cases f)
    case None
    show ?thesis
    proof (cases ev)
      case (Respond ts)
      then have "all_proper (snd (apply_tokens ts a))"
        using assms by (simp add: s apply_tokens_responded all_proper_take all_proper_responded)
      then show ?thesis using all_proper_persists by (cases "apply_tokens ts a") (simp add: s None Respond)
    next
      case EndUtterance
      then have "all_proper (snd (finalize a))"
        using assms by (simp add: s finalize_ended all_proper_take all_proper_ended)
      moreover obtain us b where b: "finalize a = (us, b)" by fastforce
      ultimately have "all_proper (fst (persist_updates sc us b L))" using all_proper_persists by simp
      then show ?thesis using all_proper_advance persist_advance_cases [of sc us b L] by (auto simp: s None EndUtterance b)
    next
      case (Relinquish i l)
      have "all_proper (relinquish_inline_translation_lane i l a)"
        using assms(1) unfolding s relinquish_inline_translation_lane_def fst_conv
        by (intro all_proper_on_segment) (auto simp: segment_proper_def)
      then show ?thesis by (simp add: s None Relinquish)
    qed
  qed (use assms s in auto)
qed

lemma session_kept: "as_session_id (fst (foldl lane_step (new_lane_state sid profile) es)) = sid"
proof (induction es rule: rev_induct)
  case Nil
  then show ?case by (simp add: new_lane_state_def new_assembler_def)
next
  case (snoc e es)
  have on: "as_session_id (on_segment i f b) = as_session_id b" for i f b by (simp add: on_segment_def split: option.splits)
  obtain a M f ev sc where s: "foldl lane_step (new_lane_state sid profile) es = (a, M, f)" "e = (ev, sc)" by (metis surj_pair)
  have "as_session_id (fst (lane_step (a, M, f) (ev, sc))) = as_session_id a"
  proof (cases f)
    case None
    show ?thesis
    proof (cases ev)
      case (Respond ts)
      obtain us b where "apply_tokens ts a = (us, b)" by fastforce
      with None Respond show ?thesis using grows_apply [of a ts] by (simp add: persist_keeps grows_def)
    next
      case EndUtterance
      obtain us b where b: "finalize a = (us, b)" by fastforce
      have "as_session_id (fst (case persist_updates sc us b M of (a, L, None) \<Rightarrow> (advance a, L, None) | failed \<Rightarrow> failed)) =
          as_session_id b"
      proof -
        have "as_session_id (fst (persist_updates sc us b M)) = as_session_id b" by (rule persist_keeps)
        moreover have "as_session_id (advance c) = as_session_id c" for c by (simp add: advance_def)
        ultimately show ?thesis using persist_advance_cases [of sc us b M] by force
      qed
      with None EndUtterance b show ?thesis using grows_finalize [of a] by (simp add: grows_def)
    next
      case (Relinquish i l)
      then show ?thesis by (simp add: None relinquish_inline_translation_lane_def on)
    qed
  qed simp
  with snoc s show ?case by simp
qed

lemma all_proper_run:
  "list_all plausible_token (tokens_of (map fst es)) \<Longrightarrow> all_proper (fst (foldl lane_step (new_lane_state sid profile) es))"
proof (induction es rule: rev_induct)
  case Nil
  then show ?case by (simp add: all_proper_def new_lane_state_def new_assembler_def)
next
  case (snoc e es)
  then show ?case by (simp add: tokens_of_append all_proper_step)
qed

section \<open>Accepted rows\<close>

definition accepted :: "assembled_utterance \<Rightarrow> bool" where
  "accepted u \<longleftrightarrow>
     validate_utterance (au_utterance u) = Inr () \<and> validate_utterance (source_row (au_utterance u)) = Inr () \<and>
     (\<forall>l. translation_update u = Some l \<and> lu_state l = VarReady \<longrightarrow>
        validate_language (lu_language l) = Inr () \<and> validate_variant_payload (lu_text l) (lu_state l) (lu_completion l) = Inr ())"

lemma segment_id_nonempty: "trim (segment_id sid n) \<noteq> []"
  by (auto simp: trim_eq_Nil_iff segment_id_def lit_def is_whitespace_def)

lemma valid_language_nonempty: "validate_language l = Inr () \<Longrightarrow> trim l \<noteq> []"
  by (auto simp: validate_language_def Let_def)

lemma assembled_accepted:
  assumes "segment_proper s" "sg_id s = segment_id sid n" "as_session_id a = sid" "trim sid \<noteq> []"
  shows "accepted (assemble_segment a s sd td)"
proof -
  let ?u = "assemble_segment a s sd td"
  let ?candidate = "or_else (lv_committed_language (sg_translated s)) (unambiguous_pending_language (sg_translated s))"
  have source: "proper_language (source_language s)"
    using assms(1) proper_und proper_or_else [of "lv_committed_language (sg_source s)" "sg_committed_language_hint s"]
    by (auto simp: source_language_def stable_source_language_def segment_proper_def lane_proper_def proper_def split: option.splits)
  have candidate: "proper ?candidate"
    using assms(1) by (intro proper_or_else) (simp_all add: segment_proper_def lane_proper_def unambiguous_pending_language_def)
  have translated: "\<exists>l. ?candidate = Some l \<and> proper_language l \<and> l \<noteq> source_language s" if "translated_lane_text a s \<noteq> None"
  proof -
    have "translation_pairable a (source_language s) ?candidate"
      using that by (auto simp: translated_lane_text_def Let_def split: if_splits)
    then obtain l where "?candidate = Some l" "l \<noteq> source_language s"
      by (auto simp: translation_pairable_def translation_expected_def Let_def split: option.splits capture_mode.splits)
    then show ?thesis using candidate by (auto simp: proper_def)
  qed
  have times: "time_range (nu_source_start_ms (au_utterance ?u)) (nu_source_end_ms (au_utterance ?u))"
  proof -
    have "time_range (if b then sg_pending_start_ms s else None) (if b then sg_pending_end_ms s else None)" for b
      using assms(1) by (auto simp: segment_proper_def time_range_def)
    then show ?thesis using assms(1) by (simp add: assemble_segment_def Let_def segment_proper_def time_range_combine)
  qed
  have shape: "nu_id (au_utterance ?u) = segment_id sid n" "nu_session_id (au_utterance ?u) = sid"
    "nu_source_language (au_utterance ?u) = source_language s" "nu_translated_text (au_utterance ?u) = translated_lane_text a s"
    "nu_translated_language (au_utterance ?u) = (if translated_lane_text a s = None then None else ?candidate)"
    "nu_alignment (au_utterance ?u) = Paired \<longleftrightarrow> translated_lane_text a s \<noteq> None"
    "au_translation_completion ?u = None \<longleftrightarrow> translated_lane_text a s = None"
    using assms(2,3) by (simp_all add: assemble_segment_def Let_def)
  have ok: "validate_language (source_language s) = Inr ()" "canonical_language (source_language s) = source_language s"
    "trim (source_language s) \<noteq> []"
    using source valid_language_nonempty by (auto simp: proper_language_def)
  have base: "validate_utterance v = Inr ()"
    if "nu_id v = segment_id sid n" "nu_session_id v = sid" "nu_source_language v = source_language s"
      "nu_source_start_ms v = nu_source_start_ms (au_utterance ?u)" "nu_source_end_ms v = nu_source_end_ms (au_utterance ?u)"
      "(nu_alignment v = Paired) = (nu_translated_text v \<noteq> None)"
      "(nu_translated_language v \<noteq> None) = (nu_translated_text v \<noteq> None)"
      "\<And>l. nu_translated_language v = Some l \<Longrightarrow> proper_language l \<and> l \<noteq> source_language s" for v
    using that times ok segment_id_nonempty assms(4)
    by (auto simp: validate_utterance_def require_nonempty_def proper_language_def time_range_def split: option.splits)
  have "validate_utterance (au_utterance ?u) = Inr ()"
    using shape translated by (intro base) (auto split: if_splits)
  moreover have "validate_utterance (source_row (au_utterance ?u)) = Inr ()"
    using shape by (intro base) (auto simp: source_row_def Let_def split: utterance_alignment.splits)
  moreover have "validate_language (lu_language l) = Inr () \<and> validate_variant_payload (lu_text l) (lu_state l) (lu_completion l) = Inr ()"
    if "translation_update ?u = Some l" "lu_state l = VarReady" for l
  proof -
    have t: "translated_lane_text a s \<noteq> None" "nu_translated_language (au_utterance ?u) = Some (lu_language l)"
      "lu_text l = nu_translated_text (au_utterance ?u)" "lu_completion l = au_translation_completion ?u"
      using that shape(4) by (auto simp: translation_update_def split: option.splits if_splits)
    then show ?thesis using translated shape that(2) by (auto simp: validate_variant_payload_def proper_language_def)
  qed
  ultimately show ?thesis by (simp add: accepted_def)
qed

lemma dirty_accepted:
  assumes "all_proper a" "as_session_id a = sid" "trim sid \<noteq> []" "u \<in> set (fst (take_dirty_updates a))"
  shows "accepted u"
proof -
  obtain s where s: "s \<in> set (as_segments a)" "dirty_update a s = Some u"
    using assms(4) by (auto simp: take_dirty_updates_def in_map_filter)
  then have u: "u = assemble_segment a (clean_segment s) (sg_source_dirty s) (sg_translation_dirty s)"
    by (simp add: dirty_update_def split: if_splits)
  obtain n where "segment_proper s" "sg_id s = segment_id sid n" using assms(1,2) s(1) by (auto simp: all_proper_def)
  then show ?thesis unfolding u using assms(2,3) by (intro assembled_accepted [of _ sid n]) simp_all
qed

text \<open>C6: The store accepts every row that is assembled. The session has a name; when the provider names languages by codes of two or
  three letters (or leaves them out) and gives times as ranges, then after any history every row that
  the next response or end of an utterance publishes passes the validation of the store: as it is, in
  the form without the translation in which it is written, and its translation as a variant. So
  names are never empty, a translation is never in the language of its source, and times never run
  backwards, although rows are assembled from tokens that arrive in any order. Nothing in the code holds the
  provider to codes and ranges: a row from other tokens may be refused, which ends the lane.\<close>

theorem assembled_rows_are_accepted:
  assumes "list_all plausible_token (tokens_of (map fst es @ [e]))" "trim sid \<noteq> []"
  shows "list_all accepted (published (fst (foldl lane_step (new_lane_state sid profile) es)) e)"
proof -
  let ?a = "fst (foldl lane_step (new_lane_state sid profile) es)"
  have a: "all_proper ?a" "as_session_id ?a = sid"
    using assms(1) by (auto intro: all_proper_run session_kept simp: tokens_of_append)
  show ?thesis
  proof (cases e)
    case (Respond ts)
    have "all_proper (responded ts ?a)" "as_session_id (responded ts ?a) = sid"
      using a assms(1) Respond grows_apply [of ?a ts]
      by (auto intro: all_proper_responded simp: tokens_of_append apply_tokens_responded take_dirty_updates_def grows_def)
    then show ?thesis
      using dirty_accepted [OF _ _ assms(2)] by (auto simp: published_def Respond apply_tokens_responded list_all_iff)
  next
    case EndUtterance
    have "all_proper (ended ?a)" "as_session_id (ended ?a) = sid"
      using a grows_ended [of ?a] by (auto intro: all_proper_ended simp: grows_def)
    then show ?thesis
      using dirty_accepted [OF _ _ assms(2)] by (auto simp: published_def EndUtterance finalize_ended list_all_iff)
  next
    case (Relinquish i l)
    then show ?thesis by (simp add: published_def)
  qed
qed

theorem assembled_rows_are_accepted_witness:
  "list_all accepted (published (new_assembler (lit ''s'') two_way_profile) (Respond [word_token ''hi'' True None]))"
proof -
  have "normalized_optional_language None = None" by (simp add: normalized_optional_language_def)
  then have "list_all plausible_token (tokens_of (map fst [] @ [Respond [word_token ''hi'' True None]]))"
    by (simp add: plausible_token_def word_token_def coded_def time_range_def)
  moreover have "trim (lit ''s'') \<noteq> []" by (simp add: trim_eq_Nil_iff lit_def is_whitespace_def)
  ultimately show ?thesis using assembled_rows_are_accepted [of "[]" _ _ two_way_profile] by (simp add: new_lane_state_def)
qed

end
