(* ===== verification/Capture_Edits.thy ===== *)
theory Capture_Edits
  imports Capture_Writes
begin

text \<open>
  Edits of the user (\<^verbatim>\<open>crates/vt-store/src/notebook_capture_store.rs\<close>): an edit of a final lane is staged, written to
  the document, and committed as an overlay of the machine fact, with its own revision for each lane.
\<close>

definition ensure_utterance_lane_is_editable ::
    "ustring \<Rightarrow> utterance_completion \<Rightarrow> nat \<Rightarrow> capture_db \<Rightarrow> store_error + unit" where
  "ensure_utterance_lane_is_editable session_id completion projection db =
     (if completion \<noteq> CompleteFact then Inl (StConflict (lit ''provisional utterance lanes remain machine-owned''))
      else
        and_then (ok_or (no_session session_id) (run_of session_id db)) (\<lambda>r.
          if projection = 0 \<or> rn_applied_revision r < projection then
            Inl (StConflict (lit ''Final utterance lanes are editable only after their Loro projection is durable''))
          else Inr ()))"

definition lane_of_role :: "variant_role \<Rightarrow> utterance_lane" where
  "lane_of_role r = (case r of RoleSource \<Rightarrow> SourceLane | RoleTranslation \<Rightarrow> TranslatedLane)"

definition lane_edit_revision :: "ustring \<Rightarrow> ustring \<Rightarrow> capture_db \<Rightarrow> nat" where
  "lane_edit_revision i language db =
     (case find (\<lambda>x. ov_utterance_id x = i \<and> ov_lane_language x = canonical_language language) (db_overrides db) of
        None \<Rightarrow> 0 | Some x \<Rightarrow> ov_edit_revision x)"

definition purge_pending :: "ustring \<Rightarrow> store_error" where
  "purge_pending session_id = StConflict (lit ''session '' @ session_id @ lit '' is pending permanent deletion'')"

definition lane_mutation :: "ustring \<Rightarrow> ustring \<Rightarrow> capture_db \<Rightarrow> projection_mutation option" where
  "lane_mutation i language db =
     find (\<lambda>m. pm_utterance_id m = i \<and> sql_language (pm_lane_language m) = sql_language language) (db_mutations db)"

definition stage_utterance_variant_replacement ::
    "ustring \<Rightarrow> ustring \<Rightarrow> ustring \<Rightarrow> ustring \<Rightarrow> ustring \<Rightarrow> nat \<Rightarrow> capture_db \<Rightarrow> store_error + capture_db \<times> projection_mutation" where
  "stage_utterance_variant_replacement fresh now i language target expected db =
     and_then (require_nonempty ''utterance_id'' i) (\<lambda>_.
     and_then (validate_language language) (\<lambda>_.
     and_then (require_by_id i db) (\<lambda>u.
     and_then (ok_or (StConflict (lit ''utterance '' @ i @ lit '' has no '' @ canonical_language language @ lit '' variant''))
                 (variant_in (canonical_language language) u)) (\<lambda>v.
       if \<not> (final_variant v \<and> vr_text v \<noteq> None) then
         Inl (StConflict (lit ''utterance '' @ i @ lit '' variant '' @ vr_language v @ lit '' is not Final and ready for editing''))
       else
         (let lane = lane_of_role (vr_role v); lane_language = canonical_language (vr_language v);
              current = lane_edit_revision i lane_language db
          in and_then (ensure_utterance_lane_is_editable (ut_session_id u)
                         (case vr_completion v of Some c \<Rightarrow> c | None \<Rightarrow> PartialFact) (vr_projection_revision v) db) (\<lambda>_.
             if ut_session_id u \<in> set (db_purge_jobs db) then Inl (purge_pending (ut_session_id u))
             else if current \<noteq> expected then
               Inl (StConflict (lit ''utterance '' @ i @ lit '' lane '' @ lane_language @ lit '' expected edit revision '' @
                 show_nat expected @ lit '', found '' @ show_nat current))
             else
               (case lane_mutation i lane_language db of
                  Some m \<Rightarrow>
                    if pm_session_id m = ut_session_id u \<and> pm_lane m = lane \<and> pm_lane_language m = lane_language \<and>
                       pm_expected_revision m = expected \<and> pm_expected_variant_revision m = vr_revision v \<and>
                       pm_target_text m = target
                    then Inr (db, m)
                    else Inl (StConflict (lit ''utterance '' @ i @ lit '' already has a pending projection mutation''))
                | None \<Rightarrow>
                    (let m = \<lparr>pm_id = fresh, pm_session_id = ut_session_id u, pm_utterance_id = ut_id u, pm_lane = lane,
                              pm_lane_language = lane_language, pm_expected_revision = expected,
                              pm_expected_variant_revision = vr_revision v, pm_target_text = target, pm_created_at = now\<rparr>
                     in Inr (db\<lparr>db_mutations := db_mutations db @ [m]\<rparr>, m)))))))))"

definition stage_utterance_lane_replacement ::
    "ustring \<Rightarrow> ustring \<Rightarrow> ustring \<Rightarrow> utterance_lane \<Rightarrow> ustring \<Rightarrow> nat \<Rightarrow> capture_db \<Rightarrow>
     store_error + capture_db \<times> projection_mutation" where
  "stage_utterance_lane_replacement fresh now i lane target expected db =
     and_then (require_nonempty ''utterance_id'' i) (\<lambda>_.
     and_then (require_by_id i db) (\<lambda>u.
     and_then (case lane of
                 SourceLane \<Rightarrow> Inr (ut_source_language u)
               | TranslatedLane \<Rightarrow>
                   ok_or (StConflict (lit ''utterance '' @ i @ lit '' has no translated lane'')) (ut_translated_language u)) (\<lambda>language.
       stage_utterance_variant_replacement fresh now i language target expected db)))"

definition role_of_lane :: "utterance_lane \<Rightarrow> variant_role" where
  "role_of_lane l = (case l of SourceLane \<Rightarrow> RoleSource | TranslatedLane \<Rightarrow> RoleTranslation)"

definition put_override :: "edit_override \<Rightarrow> capture_db \<Rightarrow> capture_db" where
  "put_override x db =
     db\<lparr>db_overrides :=
          filter (\<lambda>y. \<not> (ov_utterance_id y = ov_utterance_id x \<and> ov_lane_language y = ov_lane_language x)) (db_overrides db) @ [x]\<rparr>"

definition drop_mutation :: "ustring \<Rightarrow> capture_db \<Rightarrow> capture_db" where
  "drop_mutation m db = db\<lparr>db_mutations := filter (\<lambda>x. pm_id x \<noteq> m) (db_mutations db)\<rparr>"

definition commit_projection_mutation :: "ustring \<Rightarrow> capture_db \<Rightarrow> store_error + capture_db \<times> utterance" where
  "commit_projection_mutation mutation_id db =
     and_then (require_nonempty ''mutation_id'' mutation_id) (\<lambda>_.
     and_then (ok_or (StNotFound (lit ''projection mutation '' @ mutation_id))
                 (find (\<lambda>m. pm_id m = mutation_id) (db_mutations db))) (\<lambda>m.
       if pm_session_id m \<in> set (db_purge_jobs db) then Inl (purge_pending (pm_session_id m))
       else
         and_then (require_by_id (pm_utterance_id m) db) (\<lambda>u.
           if ut_session_id u \<noteq> pm_session_id m then
             Inl (StCorruptData (lit ''projection mutation '' @ mutation_id @ lit '' crosses capture sessions''))
           else
             and_then (ok_or (StConflict (lit ''utterance '' @ pm_utterance_id m @ lit '' has no '' @ pm_lane_language m @ lit '' variant''))
                         (variant_in (canonical_language (pm_lane_language m)) u)) (\<lambda>v.
               if vr_role v \<noteq> role_of_lane (pm_lane m) \<or> \<not> final_variant v \<or> vr_revision v \<noteq> pm_expected_variant_revision m then
                 Inl (StConflict (lit ''utterance '' @ pm_utterance_id m @ lit '' Final variant '' @ pm_lane_language m @
                   lit '' changed before commit''))
               else
                 and_then (ensure_utterance_lane_is_editable (pm_session_id m)
                             (case vr_completion v of Some c \<Rightarrow> c | None \<Rightarrow> PartialFact) (vr_projection_revision v) db) (\<lambda>_.
                   let current = lane_edit_revision (pm_utterance_id m) (pm_lane_language m) db in
                   if current \<noteq> pm_expected_revision m then
                     Inl (StConflict (lit ''utterance '' @ pm_utterance_id m @ lit '' lane '' @ pm_lane_language m @
                       lit '' expected edit revision '' @ show_nat (pm_expected_revision m) @ lit '', found '' @ show_nat current))
                   else if u64_max \<le> current then
                     Inl (StConflict (lit ''utterance '' @ pm_utterance_id m @ lit '' lane '' @ pm_lane_language m @
                       lit '' edit revision overflow''))
                   else
                     and_then (u64_to_i64 ''lane edit revision'' (current + 1)) (\<lambda>next.
                     let x = \<lparr>ov_utterance_id = pm_utterance_id m, ov_lane = pm_lane m,
                              ov_lane_language = canonical_language (pm_lane_language m), ov_text = pm_target_text m,
                              ov_machine_utterance_revision = ut_revision u,
                              ov_machine_variant_revision = pm_expected_variant_revision m, ov_edit_revision = next\<rparr>;
                         db = drop_mutation mutation_id (put_override x db)
                     in visible_by_id (pm_utterance_id m) db))))))"

definition cancel_projection_mutation :: "ustring \<Rightarrow> capture_db \<Rightarrow> store_error + capture_db \<times> bool" where
  "cancel_projection_mutation mutation_id db =
     and_then (require_nonempty ''mutation_id'' mutation_id) (\<lambda>_.
       Inr (drop_mutation mutation_id db, \<exists>m\<in>set (db_mutations db). pm_id m = mutation_id))"

definition get_utterance_by_id :: "ustring \<Rightarrow> capture_db \<Rightarrow> store_error + utterance option" where
  "get_utterance_by_id i db =
     and_then (require_nonempty ''utterance_id'' i) (\<lambda>_.
       case machine_utterance_by_id i db of
         None \<Rightarrow> Inr None
       | Some u \<Rightarrow> and_then (apply_utterance_overrides db u) (\<lambda>u. Inr (Some u)))"

end
