(* ===== verification/Capture_Alignment_Laws.thy ===== *)
theory Capture_Alignment_Laws
  imports Capture_Alignment Capture_Validity "HOL-Library.Multiset"
begin

text \<open>
  The alignment binds a fact to the one row with strictly the best evidence, whatever the order of the
  rows, and the two scores of the store and of the interface differ in nothing but the rounding of a
  distance.
\<close>

section \<open>The order of scores\<close>

lemma snoc_le:
  fixes xs ys :: "'a::linorder list"
  assumes "length xs = length ys" "xs @ [a] \<le> ys @ [b]"
  shows "xs \<le> ys"
  using assms by (induction xs ys rule: list_induct2) (auto simp: Cons_le_Cons)

lemma snoc_less:
  fixes xs ys :: "'a::linorder list"
  assumes "length xs = length ys" "xs < ys"
  shows "xs @ [a] < ys @ [b]"
  using assms by (induction xs ys rule: list_induct2) (auto simp: Cons_less_Cons)

definition bounded :: "alignment_score \<Rightarrow> bool" where
  "bounded s \<longleftrightarrow> sc_overlap s \<le> 1000"

lemma evidence_eq_key:
  assumes "bounded s" "bounded t"
  shows "evidence_eq s t \<longleftrightarrow> evidence_key s = evidence_key t"
  using assms by (auto simp: evidence_eq_def evidence_key_def bounded_def)

lemma overlap_le: "timestamp_overlap_per_mille a b c d = Some x \<Longrightarrow> x \<le> 1000"
  by (auto simp: timestamp_overlap_per_mille_def Let_def split: if_splits)

lemma score_with_facts:
  assumes "score_with distance al language start stop u = Some s"
  shows "bounded s \<and> sc_sequence s = ut_sequence u"
  using assms
  by (auto simp: score_with_def initial_score_def bounded_def Let_def split: option.splits if_splits dest: overlap_le)

lemma inbox_score_facts:
  assumes "inbox_alignment_score tbl i u = Some s"
  shows "bounded s \<and> sc_sequence s = ut_sequence u"
  using assms score_with_facts by (auto simp: inbox_alignment_score_def)

lemma takeWhile_sorted:
  assumes "sorted (map f xs)" "\<And>x y. x \<in> set xs \<Longrightarrow> y \<in> set xs \<Longrightarrow> f x \<le> f y \<Longrightarrow> p y \<Longrightarrow> p x"
  shows "set (takeWhile p xs) = {x \<in> set xs. p x}"
  using assms
proof (induction xs)
  case (Cons x xs)
  have "\<not> p y" if "\<not> p x" "y \<in> set xs" for y
    using that Cons.prems(1) Cons.prems(2) [of x y] by auto
  then show ?case using Cons by (auto simp: list.set(2))
qed simp

lemma set_ranked:
  "set (ranked sequence score us) = {(s, sequence u) | s u. u \<in> set us \<and> score u = Some s}"
  by (auto simp: ranked_def in_map_filter)

lemma ranked_Cons:
  assumes "ranked sequence score us = (best, n) # rest" "\<And>u s. score u = Some s \<Longrightarrow> bounded s"
  shows "equally_supported (ranked sequence score us) =
      {sequence u | u s. u \<in> set us \<and> score u = Some s \<and> evidence_key s = evidence_key best}"
    and "\<And>u s. u \<in> set us \<Longrightarrow> score u = Some s \<Longrightarrow> evidence_key best \<le> evidence_key s"
proof -
  let ?f = "\<lambda>(s, _). evidence_key s @ [sc_sequence s]" and ?xs = "ranked sequence score us"
  have srt: "sorted (map ?f ?xs)" by (simp add: ranked_def)
  have len: "length (evidence_key s) = length (evidence_key t)" for s t by (simp add: evidence_key_def)
  have least: "evidence_key best \<le> evidence_key s" if "(s, q) \<in> set ?xs" for s q
    using srt that assms(1) snoc_le [OF len] by fastforce
  have bnd: "bounded s" if "(s, q) \<in> set ?xs" for s q using that assms(2) by (auto simp: set_ranked)
  have b: "bounded best" using bnd [of best n] assms(1) by simp
  have "set (takeWhile (\<lambda>(s, _). evidence_eq best s) ?xs) = {x \<in> set ?xs. (\<lambda>(s, _). evidence_eq best s) x}"
  proof (rule takeWhile_sorted [OF srt])
    fix x y assume *: "x \<in> set ?xs" "y \<in> set ?xs" "?f x \<le> ?f y" "(\<lambda>(s, _). evidence_eq best s) y"
    obtain s q t r where [simp]: "x = (s, q)" "y = (t, r)" by (metis prod.exhaust)
    have "evidence_key s \<le> evidence_key t" using *(3) snoc_le [OF len] by simp
    moreover have "evidence_key best = evidence_key t" using *(2,4) evidence_eq_key [OF b] bnd by auto
    moreover have "evidence_key best \<le> evidence_key s" using least *(1) by simp
    ultimately have "evidence_key best = evidence_key s" by simp
    then show "(\<lambda>(s, _). evidence_eq best s) x" using evidence_eq_key [OF b] bnd *(1) by simp
  qed
  then have "equally_supported ?xs = snd ` {x \<in> set ?xs. (\<lambda>(s, _). evidence_eq best s) x}"
    by (simp add: equally_supported_def assms(1))
  also have "\<dots> = {sequence u | u s. u \<in> set us \<and> score u = Some s \<and> evidence_key s = evidence_key best}"
    using evidence_eq_key [OF b] assms(2) by (force simp: set_ranked)
  finally show "equally_supported ?xs = {sequence u | u s. u \<in> set us \<and> score u = Some s \<and> evidence_key s = evidence_key best}" .
  show "evidence_key best \<le> evidence_key s" if "u \<in> set us" "score u = Some s" for u s
    using least [of s "sequence u"] that by (auto simp: set_ranked)
qed

text \<open>
  What makes one row better evidence than another, one criterion after the other: words that are the
  same, then words that contain the fact's, then the row with fewer letters around them, then the
  larger overlap in time, then the same language, and last the nearer midpoint. It is stated without
  the key that the sort compares.
\<close>

definition better_evidence :: "alignment_score \<Rightarrow> alignment_score \<Rightarrow> bool" where
  "better_evidence s t \<longleftrightarrow>
     (if sc_exact s \<noteq> sc_exact t then sc_exact s
      else if sc_contained s \<noteq> sc_contained t then sc_contained s
      else if sc_canonical_chars s \<noteq> sc_canonical_chars t then sc_canonical_chars s < sc_canonical_chars t
      else if sc_overlap s \<noteq> sc_overlap t then sc_overlap t < sc_overlap s
      else if sc_language s \<noteq> sc_language t then sc_language s
      else sc_distance s < sc_distance t)"

lemma evidence_key_less:
  assumes "bounded s" "bounded t"
  shows "evidence_key s < evidence_key t \<longleftrightarrow> better_evidence s t"
proof -
  have "1000 - sc_overlap s < 1000 - sc_overlap t \<longleftrightarrow> sc_overlap t < sc_overlap s"
       "1000 - sc_overlap s = 1000 - sc_overlap t \<longleftrightarrow> sc_overlap s = sc_overlap t"
    using assms by (auto simp: bounded_def)
  then show ?thesis by (auto simp: evidence_key_def better_evidence_def Cons_less_Cons of_bool_def)
qed

text \<open>The row that alone has the best evidence.\<close>

definition best_row :: "(utterance \<Rightarrow> alignment_score option) \<Rightarrow> utterance list \<Rightarrow> nat \<Rightarrow> bool" where
  "best_row score us n \<longleftrightarrow>
     (\<exists>u\<in>set us. \<exists>s. ut_sequence u = n \<and> score u = Some s \<and>
        (\<forall>u'\<in>set us. \<forall>s'. ut_sequence u' \<noteq> n \<and> score u' = Some s' \<longrightarrow> better_evidence s s'))"

lemma best_row_key:
  assumes "\<And>u s. score u = Some s \<Longrightarrow> bounded s"
  shows "best_row score us n \<longleftrightarrow>
     (\<exists>u\<in>set us. \<exists>s. ut_sequence u = n \<and> score u = Some s \<and>
        (\<forall>u'\<in>set us. \<forall>s'. ut_sequence u' \<noteq> n \<and> score u' = Some s' \<longrightarrow> evidence_key s < evidence_key s'))"
  unfolding best_row_def using evidence_key_less assms by blast

text \<open>C7: A translation is placed on the row that alone has the best evidence, and on no row when two
  rows have equal claim. The evidence is compared by the words (the same, then containing, then the
  tightest), then by the overlap in time, the language and the distance of the midpoints, in this
  order; the order in which the rows are listed and their numbers play no part.\<close>

theorem fact_goes_to_the_best_row:
  "unique_inbox_candidate tbl i us = Some n \<longleftrightarrow> best_row (inbox_alignment_score tbl i) us n"
proof -
  let ?score = "inbox_alignment_score tbl i" and ?xs = "ranked ut_sequence (inbox_alignment_score tbl i) us"
  have bnd: "\<And>u s. ?score u = Some s \<Longrightarrow> bounded s" using inbox_score_facts by blast
  show ?thesis
  proof (cases ?xs)
    case Nil
    have "?score u = None" if "u \<in> set us" for u
    proof (rule ccontr)
      assume "?score u \<noteq> None"
      then obtain s where "?score u = Some s" by blast
      then have "(s, ut_sequence u) \<in> set ?xs" using that by (auto simp: set_ranked)
      then show False by (simp add: Nil)
    qed
    then have "\<not> best_row ?score us n" by (auto simp: best_row_def)
    then show ?thesis by (simp add: unique_inbox_candidate_def Nil)
  next
    case (Cons x rest)
    obtain best q where x: "x = (best, q)" by fastforce
    have eq: "equally_supported ?xs =
        {ut_sequence u | u s. u \<in> set us \<and> ?score u = Some s \<and> evidence_key s = evidence_key best}"
      by (rule ranked_Cons(1)) (use Cons x bnd in auto)
    have least: "evidence_key best \<le> evidence_key s" if "u \<in> set us" "?score u = Some s" for u s
      by (rule ranked_Cons(2) [of ut_sequence ?score us best q rest]) (use that Cons x bnd in auto)
    have "(best, q) \<in> {(s, ut_sequence u) | s u. u \<in> set us \<and> ?score u = Some s}"
      by (subst set_ranked [symmetric]) (simp add: Cons x)
    then obtain ub where ub: "ub \<in> set us" "?score ub = Some best" "q = ut_sequence ub" by blast
    have q: "q \<in> equally_supported ?xs" unfolding eq using ub by blast
    have "card (equally_supported ?xs) = 1 \<longleftrightarrow> equally_supported ?xs = {q}"
      using q by (metis card_1_singletonE is_singletonI is_singleton_altdef singletonD)
    then have cand: "unique_inbox_candidate tbl i us = Some n \<longleftrightarrow> equally_supported ?xs = {q} \<and> n = q"
      by (auto simp: unique_inbox_candidate_def Cons x)
    show ?thesis unfolding cand
    proof
      assume *: "equally_supported ?xs = {q} \<and> n = q"
      have "evidence_key best < evidence_key s'" if "u' \<in> set us" "ut_sequence u' \<noteq> q" "?score u' = Some s'" for u' s'
        using least [OF that(1,3)] * that unfolding eq by (metis (mono_tags, lifting) mem_Collect_eq order_le_less singletonD)
      then show "best_row ?score us n" using ub * by (auto simp: best_row_key [OF bnd])
    next
      assume "best_row ?score us n"
      then obtain u s where u: "u \<in> set us" "ut_sequence u = n" "?score u = Some s"
          "\<And>u' s'. u' \<in> set us \<Longrightarrow> ut_sequence u' \<noteq> n \<Longrightarrow> ?score u' = Some s' \<Longrightarrow> evidence_key s < evidence_key s'"
        by (auto simp: best_row_key [OF bnd])
      have "ut_sequence u' = n" if "u' \<in> set us" "?score u' = Some s'" "evidence_key s' = evidence_key best" for u' s'
        using u(4) [OF that(1) _ that(2)] least [OF u(1,3)] that(3) by fastforce
      then show "equally_supported ?xs = {q} \<and> n = q" unfolding eq using ub by force
    qed
  qed
qed

section \<open>The two scores\<close>

lemma before_dash_takeWhile: "before_dash v = takeWhile (\<lambda>c. c \<noteq> 45) v"
proof -
  have "hd (split_on 45 v) = takeWhile (\<lambda>c. c \<noteq> 45) v" by (induction v) (auto simp: hd_append split: list.splits)
  then show ?thesis by (cases "split_on 45 v") (simp_all add: before_dash_def)
qed

lemma trim_split:
  obtains a b where "s = a @ trim s @ b" "\<forall>c\<in>set a. is_whitespace c" "\<forall>c\<in>set b. is_whitespace c"
proof
  let ?d = "dropWhile is_whitespace s"
  show "s = takeWhile is_whitespace s @ trim s @ rev (takeWhile is_whitespace (rev ?d))"
    by (metis append_assoc rev_append rev_rev_ident takeWhile_dropWhile_id trim_def trim_end_def trim_start_def)
  show "\<forall>c\<in>set (takeWhile is_whitespace s). is_whitespace c" by (auto dest: set_takeWhileD)
  show "\<forall>c\<in>set (rev (takeWhile is_whitespace (rev ?d))). is_whitespace c" by (auto dest: set_takeWhileD)
qed

lemma trim_pad:
  assumes "\<forall>c\<in>set a. is_whitespace c" "\<forall>c\<in>set b. is_whitespace c"
  shows "trim (a @ t @ b) = trim t"
proof (cases "\<forall>c\<in>set t. is_whitespace c")
  case True
  then have "trim t = []" "trim (a @ t @ b) = []" using assms by (auto simp: trim_eq_Nil_iff)
  then show ?thesis by simp
next
  case False
  have "dropWhile is_whitespace (a @ t @ b) = dropWhile is_whitespace t @ b"
    using assms(1) False by (metis dropWhile_append1 dropWhile_append2 trim_start_def)
  moreover have "dropWhile is_whitespace (rev (dropWhile is_whitespace t @ b)) = dropWhile is_whitespace (rev (dropWhile is_whitespace t))"
    using dropWhile_append2 [of "rev b" is_whitespace "rev (dropWhile is_whitespace t)"] assms(2) by auto
  ultimately show ?thesis by (simp add: trim_def trim_end_def trim_start_def)
qed

lemma trim_takeWhile_pad:
  assumes "\<forall>c\<in>set a. is_whitespace c" "\<forall>c\<in>set b. is_whitespace c"
  shows "trim (takeWhile (\<lambda>c. c \<noteq> 45) (a @ t @ b)) = trim (takeWhile (\<lambda>c. c \<noteq> 45) t)"
proof -
  let ?p = "\<lambda>c. c \<noteq> 45"
  have no: "c \<noteq> 45" if "is_whitespace c" for c using that by (auto simp: is_whitespace_def)
  have a: "\<forall>c\<in>set a. ?p c" and b: "\<forall>c\<in>set b. ?p c" using assms no by blast+
  have "takeWhile ?p (a @ t @ b) = a @ takeWhile ?p (t @ b)" using a by (simp add: takeWhile_append2)
  also have "takeWhile ?p (t @ b) = takeWhile ?p t @ (if 45 \<in> set t then [] else b)"
  proof (cases "45 \<in> set t")
    case True then show ?thesis by (simp add: takeWhile_append1)
  next
    case False
    then have "\<forall>c\<in>set (t @ b). ?p c" "\<forall>c\<in>set t. ?p c" using b by auto
    then have "takeWhile ?p (t @ b) = t @ b" "takeWhile ?p t = t" unfolding takeWhile_eq_all_conv by blast+
    moreover have "(if 45 \<in> set t then [] else b) = b" using False by simp
    ultimately show ?thesis by (simp only:)
  qed
  finally show ?thesis using assms by (simp add: trim_pad)
qed

lemma canonical_eq_normalize: "canonical_language v = normalize_language v"
proof -
  obtain a b where v: "v = a @ trim v @ b" "\<forall>c\<in>set a. is_whitespace c" "\<forall>c\<in>set b. is_whitespace c"
    by (rule trim_split)
  have "trim (takeWhile (\<lambda>c. c \<noteq> 45) v) = trim (takeWhile (\<lambda>c. c \<noteq> 45) (trim v))"
    using trim_takeWhile_pad [OF v(2,3), of "trim v"] v(1) by argo
  then show ?thesis by (simp add: canonical_language_def normalize_language_def before_dash_takeWhile)
qed

definition rounds_to :: "alignment_score \<Rightarrow> alignment_score \<Rightarrow> bool" where
  "rounds_to s t \<longleftrightarrow> t = s\<lparr>sc_distance := sc_distance t\<rparr> \<and> sc_distance s \<le> sc_distance t \<and> sc_distance t \<le> sc_distance s + 1"

lemma halved_distance:
  "abs_diff a b div 2 \<le> abs_diff (a div 2) (b div 2)" "abs_diff (a div 2) (b div 2) \<le> abs_diff a b div 2 + 1"
  by (auto simp: abs_diff_def)

lemma distances: "rounds_to (s\<lparr>sc_distance := inbox_midpoint_distance a b c d, sc_overlap := n\<rparr>)
                            (s\<lparr>sc_distance := timeline_midpoint_distance a b c d, sc_overlap := n\<rparr>)"
  using halved_distance [of "sat_u64_add a b" "sat_u64_add c d"]
  by (simp add: rounds_to_def inbox_midpoint_distance_def timeline_midpoint_distance_def)

lemma scores_round:
  "rel_option rounds_to (score_with inbox_midpoint_distance al l start stop u) (score_with timeline_midpoint_distance al l start stop u)"
  using distances [where s = "initial_score al l (ut_sequence u)"]
  by (auto simp: score_with_def Let_def rounds_to_def split: option.split)

text \<open>C8: For a fact that waits in the inbox, the interface and the store admit the same rows of its epoch with the same
  evidence, up to one millisecond in the distance of the midpoints, which they round differently.\<close>

theorem interface_scores_as_the_store:
  assumes "pending_from_inbox i = Some p" "cm_group_epoch c = pv_group_epoch p"
  shows "rel_option rounds_to (inbox_alignment_score tbl i (cm_utterance c)) (timeline_alignment_score tbl p c)"
proof -
  have p: "pv_source_text p = it_source_text i" "pv_source_language p = normalize_language (it_source_language i)"
      "pv_source_start_ms p = it_source_start_ms i" "pv_source_end_ms p = it_source_end_ms i"
    using assms(1) by (auto simp: pending_from_inbox_def split: if_splits option.splits)
  then show ?thesis
    using assms(2) scores_round
    by (simp add: inbox_alignment_score_def timeline_alignment_score_def canonical_eq_normalize eq_commute)
qed

definition demo_row :: "nat \<Rightarrow> nat \<Rightarrow> nat \<Rightarrow> utterance" where
  "demo_row n start stop =
     \<lparr>ut_id = [n], ut_session_id = [9], ut_sequence = n, ut_session_speaker_id = None, ut_source_language = lit ''en'',
      ut_source_text = lit ''hi'', ut_source_start_ms = Some start, ut_source_end_ms = Some stop,
      ut_translated_language = None, ut_translated_text = None, ut_revision = 0, ut_completion = CompleteFact,
      ut_alignment = SourceOnly, ut_created_at = [], ut_updated_at = [], ut_source_projection_revision = 1,
      ut_source_edit_revision = 0, ut_variants = []\<rparr>"

definition demo_item :: "nat \<Rightarrow> nat \<Rightarrow> inbox_item" where
  "demo_item start stop =
     \<lparr>it_key = \<lparr>ik_session_id = [9], ik_lane_index = 2, ik_group_epoch = 0, ik_provider_sequence = 0, ik_target_language = lit ''zh''\<rparr>,
      it_source_language = lit ''en'', it_source_text = lit ''hi'', it_source_start_ms = Some start, it_source_end_ms = Some stop,
      it_translated_text = Some (lit ''x''), it_completion = Some CompleteFact, it_withdrawn = False, it_revision = 0,
      it_bound_utterance_id = None, it_bound_sequence = None, it_created_at = [], it_updated_at = []\<rparr>"

lemma demo_pending: "\<exists>p. pending_from_inbox (demo_item a b) = Some p \<and> pv_group_epoch p = 0"
  by (simp add: pending_from_inbox_def demo_item_def)

theorem interface_scores_as_the_store_witness:
  "\<exists>p. pending_from_inbox (demo_item 3 5) = Some p \<and>
       rel_option rounds_to (inbox_alignment_score (\<lambda>c. [c]) (demo_item 3 5) (demo_row 3 2 5))
         (timeline_alignment_score (\<lambda>c. [c]) p \<lparr>cm_group_epoch = 0, cm_utterance = demo_row 3 2 5\<rparr>)"
proof -
  obtain p where "pending_from_inbox (demo_item 3 5) = Some p" "pv_group_epoch p = 0" using demo_pending by blast
  then show ?thesis
    using interface_scores_as_the_store [of "demo_item 3 5" p "\<lparr>cm_group_epoch = 0, cm_utterance = demo_row 3 2 5\<rparr>" "\<lambda>c. [c]"]
    by simp
qed

text \<open>A tie for the store need not be one for the interface: the fact from 3 to 5 is placed on row 2.\<close>

lemma tie_only_for_the_store:
  "unique_inbox_candidate (\<lambda>c. [c]) (demo_item 3 5) [demo_row 2 3 5, demo_row 3 2 5] = None"
  "pending_from_inbox (demo_item 3 5) = Some p \<Longrightarrow>
     ranked_canonical_sequences (\<lambda>c. [c]) p
       [\<lparr>cm_group_epoch = 0, cm_utterance = demo_row 2 3 5\<rparr>, \<lparr>cm_group_epoch = 0, cm_utterance = demo_row 3 2 5\<rparr>] = [2, 3]"
proof -
  have sums: "sat_u64_add 3 5 = 8" "sat_u64_add 2 5 = 7" by (simp_all add: sat_u64_add_def u64_max_def)
  have ovl: "timestamp_overlap_per_mille 3 5 3 5 = Some 1000" "timestamp_overlap_per_mille 3 5 2 5 = Some 1000"
    by (simp_all add: timestamp_overlap_per_mille_def Let_def)
  have al: "align_source_text tbl (lit ''hi'') (lit ''hi'') = AlignExact" for tbl
    by (simp add: align_source_text_def Let_def normalized_alignment_text_def lit_def is_alignment_noise_def is_whitespace_def
        is_ascii_punctuation_def to_lowercase_def)
  note defs = demo_row_def demo_item_def score_with_def initial_score_def al ovl sums abs_diff_def ranked_def evidence_key_def
    equally_supported_def evidence_eq_def insort_key.simps sort_key_simps map_filter_simps
  show "unique_inbox_candidate (\<lambda>c. [c]) (demo_item 3 5) [demo_row 2 3 5, demo_row 3 2 5] = None"
    by (simp add: unique_inbox_candidate_def inbox_alignment_score_def inbox_midpoint_distance_def defs Let_def del: set_map)
  assume "pending_from_inbox (demo_item 3 5) = Some p"
  then have "p = \<lparr>pv_session_id = [9], pv_group_epoch = 0, pv_source_sequence = 0, pv_target_language = normalize_language (lit ''zh''),
      pv_source_language = normalize_language (lit ''en''), pv_source_text = lit ''hi'', pv_source_start_ms = Some 3,
      pv_source_end_ms = Some 5, pv_completion = CompleteFact\<rparr>"
    by (simp add: pending_from_inbox_def demo_item_def)
  then show "ranked_canonical_sequences (\<lambda>c. [c]) p
       [\<lparr>cm_group_epoch = 0, cm_utterance = demo_row 2 3 5\<rparr>, \<lparr>cm_group_epoch = 0, cm_utterance = demo_row 3 2 5\<rparr>] = [2, 3]"
    by (simp add: ranked_canonical_sequences_def timeline_alignment_score_def timeline_midpoint_distance_def defs Let_def del: set_map)
qed

end
