(* ===== verification/Capture_Row_Laws.thy ===== *)
theory Capture_Row_Laws
  imports Capture_Edits Capture_Alignment_Laws
begin

text \<open>
  What the writes of a recording keep. A row is well formed when its languages are canonical and
  unique, its source lane repeats its source columns, and every final lane carries a revision of the
  projection that the run has asked for. \<open>advances\<close> says what may happen between two states of the
  tables: final facts stay, and a final lane that is new or different has a revision above those asked
  for before. Each write is shown to lead from one well formed state to another in this way.
\<close>

section \<open>Languages\<close>

definition canon :: "ustring \<Rightarrow> bool" where
  "canon l \<longleftrightarrow> canonical_language l = l \<and> sql_language l = l"

lemma sql_language_id:
  assumes "l = [] \<or> \<not> is_whitespace (hd l) \<and> \<not> is_whitespace (last l)" "to_ascii_lowercase l = l"
  shows "sql_language l = l"
proof -
  have sp: "is_whitespace 32" by (simp add: is_whitespace_def)
  have id: "dropWhile (\<lambda>c. c = 32) xs = xs" if "xs = [] \<or> \<not> is_whitespace (hd xs)" for xs :: ustring
    using that sp by (cases xs) auto
  have "dropWhile (\<lambda>c. c = 32) l = l" using assms(1) by (intro id) auto
  moreover have "dropWhile (\<lambda>c. c = 32) (rev l) = rev l" using assms(1) by (intro id) (auto simp: hd_rev)
  ultimately show ?thesis using assms(2) by (simp add: sql_language_def)
qed

lemma lower_idem: "to_ascii_lowercase (to_ascii_lowercase s) = to_ascii_lowercase s"
  by (simp add: to_ascii_lowercase_def comp_def)

lemma canon_canonical [simp]: "canon (canonical_language l)"
proof -
  let ?t = "trim (before_dash l)"
  have n: "canonical_language l = to_ascii_lowercase ?t" by (simp add: canonical_eq_normalize normalize_language_def)
  have "?t = [] \<or> \<not> is_whitespace (hd ?t) \<and> \<not> is_whitespace (last ?t)" using trim_head_last by blast
  then have "to_ascii_lowercase ?t = [] \<or> \<not> is_whitespace (hd (to_ascii_lowercase ?t)) \<and> \<not> is_whitespace (last (to_ascii_lowercase ?t))"
    by (auto simp: to_ascii_lowercase_def hd_map last_map)
  then have "sql_language (canonical_language l) = canonical_language l"
    unfolding n by (rule sql_language_id) (rule lower_idem)
  moreover have "canonical_language (canonical_language l) = canonical_language l"
    using canonical_normalize [of l] by (simp add: canonical_eq_normalize)
  ultimately show ?thesis by (simp add: canon_def)
qed

lemma canonD: "canon l \<Longrightarrow> canonical_language l = l" "canon l \<Longrightarrow> sql_language l = l"
  by (simp_all add: canon_def)

lemma canon_und [simp]: "canon und"
proof -
  have "canonical_language und = und"
    using proper_und by (simp add: proper_language_def und_def)
  then show ?thesis using canon_canonical [of und] by simp
qed

section \<open>Well formed rows\<close>

definition lane_wf :: "nat \<Rightarrow> utterance \<Rightarrow> variant \<Rightarrow> bool" where
  "lane_wf d u v \<longleftrightarrow>
     canon (vr_language v) \<and>
     (vr_state v = VarReady) = (vr_text v \<noteq> None) \<and> (vr_state v = VarReady) = (vr_completion v \<noteq> None) \<and>
     (final_variant v \<longrightarrow> 0 < vr_projection_revision v \<and> vr_projection_revision v \<le> d) \<and>
     (vr_role v = RoleSource \<longrightarrow>
        vr_language v = ut_source_language u \<and> vr_text v = Some (ut_source_text u) \<and> vr_completion v = Some (ut_completion u))"

definition row_wf :: "nat \<Rightarrow> utterance \<Rightarrow> bool" where
  "row_wf d u \<longleftrightarrow>
     canon (ut_source_language u) \<and> distinct (map vr_language (ut_variants u)) \<and> (\<forall>v\<in>set (ut_variants u). lane_wf d u v)"

definition desired_of :: "ustring \<Rightarrow> capture_db \<Rightarrow> nat" where
  "desired_of s db = (case run_of s db of Some r \<Rightarrow> rn_desired_revision r | None \<Rightarrow> 0)"

definition applied_of :: "ustring \<Rightarrow> capture_db \<Rightarrow> nat" where
  "applied_of s db = (case run_of s db of Some r \<Rightarrow> rn_applied_revision r | None \<Rightarrow> 0)"

definition db_wf :: "capture_db \<Rightarrow> bool" where
  "db_wf db \<longleftrightarrow>
     distinct (map ut_id (db_utterances db)) \<and>
     distinct (map (\<lambda>u. (ut_session_id u, ut_sequence u)) (db_utterances db)) \<and>
     distinct (map rn_session_id (db_runs db)) \<and>
     (\<forall>r\<in>set (db_runs db). rn_applied_revision r \<le> rn_desired_revision r) \<and>
     (\<forall>u\<in>set (db_utterances db). run_of (ut_session_id u) db \<noteq> None \<and> row_wf (desired_of (ut_session_id u) db) u)"

lemma row_wf_mono: "row_wf d u \<Longrightarrow> d \<le> d' \<Longrightarrow> row_wf d' u"
  unfolding row_wf_def lane_wf_def by (meson order_trans)

section \<open>What may happen\<close>

definition same_lane :: "variant \<Rightarrow> variant \<Rightarrow> bool" where
  "same_lane v w \<longleftrightarrow>
     final_variant v \<and> vr_language w = vr_language v \<and> vr_role w = vr_role v \<and> vr_text w = vr_text v \<and>
     vr_projection_revision w = vr_projection_revision v"

text \<open>A later form of a final lane: a translation may grow at its end, a source may learn its language.\<close>

definition later_lane :: "variant \<Rightarrow> variant \<Rightarrow> bool" where
  "later_lane v w \<longleftrightarrow>
     final_variant w \<and> vr_role w = vr_role v \<and>
     (case (vr_text v, vr_text w) of (Some t, Some t') \<Rightarrow> starts_with t t' | _ \<Rightarrow> False) \<and>
     (vr_role v = RoleTranslation \<longrightarrow> vr_language w = vr_language v) \<and>
     (vr_role v = RoleSource \<longrightarrow> vr_text w = vr_text v \<and> (vr_language w = vr_language v \<or> vr_language v = und))"

definition row_keeps :: "utterance \<Rightarrow> utterance \<Rightarrow> bool" where
  "row_keeps u w \<longleftrightarrow>
     ut_id w = ut_id u \<and> ut_session_id w = ut_session_id u \<and> ut_sequence w = ut_sequence u \<and>
     (ut_completion u = CompleteFact \<longrightarrow>
        ut_completion w = CompleteFact \<and> ut_source_text w = ut_source_text u \<and> ut_source_start_ms w = ut_source_start_ms u \<and>
        ut_source_end_ms w = ut_source_end_ms u \<and>
        (ut_source_language w = ut_source_language u \<or> ut_source_language u = und)) \<and>
     (\<forall>v\<in>set (ut_variants u). final_variant v \<longrightarrow> (\<exists>v'\<in>set (ut_variants w). later_lane v v'))"

definition settled :: "utterance \<Rightarrow> bool" where
  "settled u \<longleftrightarrow> ut_completion u = CompleteFact \<or> (\<exists>v\<in>set (ut_variants u). final_variant v)"

definition lanes_fresh :: "nat \<Rightarrow> utterance \<Rightarrow> utterance \<Rightarrow> bool" where
  "lanes_fresh d u w \<longleftrightarrow>
     (\<forall>v'\<in>set (ut_variants w). final_variant v' \<longrightarrow>
        d < vr_projection_revision v' \<or> (\<exists>v\<in>set (ut_variants u). same_lane v v'))"

definition advances :: "capture_db \<Rightarrow> capture_db \<Rightarrow> bool" where
  "advances db db' \<longleftrightarrow>
     (\<forall>s. desired_of s db \<le> desired_of s db' \<and> applied_of s db \<le> applied_of s db') \<and>
     (\<forall>u\<in>set (db_utterances db). settled u \<longrightarrow> (\<exists>w\<in>set (db_utterances db'). row_keeps u w)) \<and>
     (\<forall>w\<in>set (db_utterances db'). \<forall>v'\<in>set (ut_variants w). final_variant v' \<longrightarrow>
        desired_of (ut_session_id w) db < vr_projection_revision v' \<or>
        (\<exists>u\<in>set (db_utterances db). ut_id u = ut_id w \<and> ut_session_id u = ut_session_id w \<and>
           (\<exists>v\<in>set (ut_variants u). same_lane v v')))"

definition progresses :: "capture_db \<Rightarrow> capture_db \<Rightarrow> bool" where
  "progresses db db' \<longleftrightarrow> db_wf db' \<and> advances db db'"

lemma starts_with_refl [simp]: "starts_with t t"
  by (simp add: starts_with_iff)

lemma starts_with_trans: "starts_with a b \<Longrightarrow> starts_with b c \<Longrightarrow> starts_with a c"
  by (auto simp: starts_with_iff)

lemma wf_lane_text: "lane_wf d u v \<Longrightarrow> final_variant v \<Longrightarrow> \<exists>t. vr_text v = Some t"
  by (auto simp: lane_wf_def final_variant_def)

lemma later_refl: "lane_wf d u v \<Longrightarrow> final_variant v \<Longrightarrow> later_lane v v"
  using wf_lane_text [of d u v] by (auto simp: later_lane_def)

lemma later_trans: "later_lane a b \<Longrightarrow> later_lane b c \<Longrightarrow> later_lane a c"
  unfolding later_lane_def by (auto split: option.splits intro: starts_with_trans; metis variant_role.distinct(1))

lemma later_final: "later_lane v w \<Longrightarrow> final_variant w"
  by (simp add: later_lane_def)

lemma same_lane_refl: "final_variant v \<Longrightarrow> same_lane v v"
  by (simp add: same_lane_def)

lemma same_lane_trans: "same_lane a b \<Longrightarrow> same_lane b c \<Longrightarrow> same_lane a c"
  by (simp add: same_lane_def)

lemma row_keeps_refl: "row_wf d u \<Longrightarrow> row_keeps u u"
  unfolding row_keeps_def row_wf_def using later_refl by blast

lemma row_keeps_trans: "row_keeps a b \<Longrightarrow> row_keeps b c \<Longrightarrow> row_keeps a c"
  unfolding row_keeps_def using later_trans later_final by (smt (verit))

lemma keeps_settled: "row_keeps u w \<Longrightarrow> settled u \<Longrightarrow> settled w"
  unfolding row_keeps_def settled_def using later_final by blast

lemma db_wf_row: "db_wf db \<Longrightarrow> u \<in> set (db_utterances db) \<Longrightarrow> row_wf (desired_of (ut_session_id u) db) u"
  by (simp add: db_wf_def)

lemma progresses_refl [simp]:
  assumes wf: "db_wf db"
  shows "progresses db db"
proof -
  have "\<exists>w\<in>set (db_utterances db). row_keeps u w" if "u \<in> set (db_utterances db)" for u
    using row_keeps_refl [OF db_wf_row [OF wf that]] that by blast
  moreover have "\<exists>u\<in>set (db_utterances db). ut_id u = ut_id w \<and> ut_session_id u = ut_session_id w \<and>
      (\<exists>v\<in>set (ut_variants u). same_lane v v')"
    if "w \<in> set (db_utterances db)" "v' \<in> set (ut_variants w)" "final_variant v'" for w v'
    using that same_lane_refl by blast
  ultimately show ?thesis using wf unfolding progresses_def advances_def by blast
qed

lemma advances_revisions: "advances a b \<Longrightarrow> desired_of s a \<le> desired_of s b \<and> applied_of s a \<le> applied_of s b"
  by (simp add: advances_def)

lemma advances_row:
  assumes "advances a b" "u \<in> set (db_utterances a)" "settled u"
  obtains w where "w \<in> set (db_utterances b)" "row_keeps u w"
  using assms unfolding advances_def by blast

lemma advances_lane:
  assumes "advances a b" "w \<in> set (db_utterances b)" "v' \<in> set (ut_variants w)" "final_variant v'"
  obtains (fresh) "desired_of (ut_session_id w) a < vr_projection_revision v'"
    | (kept) u v where "u \<in> set (db_utterances a)" "ut_id u = ut_id w" "ut_session_id u = ut_session_id w"
      "v \<in> set (ut_variants u)" "same_lane v v'"
  using assms unfolding advances_def by blast

lemma advances_trans:
  assumes ab: "advances a b" and bc: "advances b c"
  shows "advances a c"
proof -
  have "\<exists>w\<in>set (db_utterances c). row_keeps u w" if u: "u \<in> set (db_utterances a)" "settled u" for u
  proof -
    obtain w where w: "w \<in> set (db_utterances b)" "row_keeps u w" by (rule advances_row [OF ab u])
    then obtain x where "x \<in> set (db_utterances c)" "row_keeps w x"
      using advances_row [OF bc] keeps_settled [OF _ u(2)] by metis
    then show ?thesis using w row_keeps_trans by blast
  qed
  moreover have "desired_of (ut_session_id w) a < vr_projection_revision v' \<or>
        (\<exists>u\<in>set (db_utterances a). ut_id u = ut_id w \<and> ut_session_id u = ut_session_id w \<and>
           (\<exists>v\<in>set (ut_variants u). same_lane v v'))"
    if w: "w \<in> set (db_utterances c)" "v' \<in> set (ut_variants w)" "final_variant v'" for w v'
    using bc w
  proof (cases rule: advances_lane)
    case fresh
    then show ?thesis using advances_revisions [OF ab] by (meson order_le_less_trans)
  next
    case (kept u v)
    then have v: "final_variant v" "vr_projection_revision v = vr_projection_revision v'" by (simp_all add: same_lane_def)
    show ?thesis
      using ab kept(1,4) v(1)
    proof (cases rule: advances_lane)
      case fresh
      then show ?thesis using kept v by simp
    next
      case before: (kept u0 v0)
      then have "same_lane v0 v'" using kept same_lane_trans by blast
      then show ?thesis using before kept by auto
    qed
  qed
  moreover have "desired_of s a \<le> desired_of s c \<and> applied_of s a \<le> applied_of s c" for s
    using advances_revisions [OF ab, of s] advances_revisions [OF bc, of s] by linarith
  ultimately show ?thesis unfolding advances_def by blast
qed

lemma progresses_trans: "progresses a b \<Longrightarrow> progresses b c \<Longrightarrow> progresses a c"
  using advances_trans by (auto simp: progresses_def)

lemma progresses_wf: "progresses a b \<Longrightarrow> db_wf b"
  by (simp add: progresses_def)

text \<open>Only utterances and runs matter.\<close>

lemma progresses_frame:
  assumes "db_utterances b' = db_utterances b" "db_runs b' = db_runs b"
  shows "progresses a b' \<longleftrightarrow> progresses a b" "progresses b' c \<longleftrightarrow> progresses b c" "db_wf b' \<longleftrightarrow> db_wf b"
proof -
  have "run_of s b' = run_of s b" for s using assms by (simp add: run_of_def)
  then have "desired_of s b' = desired_of s b" "applied_of s b' = applied_of s b" "run_of s b' = run_of s b" for s
    by (simp_all add: desired_of_def applied_of_def)
  then show "progresses a b' \<longleftrightarrow> progresses a b" "progresses b' c \<longleftrightarrow> progresses b c" "db_wf b' \<longleftrightarrow> db_wf b"
    using assms by (simp_all add: progresses_def advances_def db_wf_def)
qed

text \<open>What an order of states gives for loops and for histories of calls.\<close>

locale step_order =
  fixes ok :: "'s \<Rightarrow> bool" and le :: "'s \<Rightarrow> 's \<Rightarrow> bool"
  assumes stay: "ok a \<Longrightarrow> le a a"
    and further: "le a b \<Longrightarrow> le b c \<Longrightarrow> le a c"
    and reached: "le a b \<Longrightarrow> ok b"
begin

lemma loop:
  assumes "\<And>x a b. ok a \<Longrightarrow> f x a = Inr b \<Longrightarrow> le a b" "ok s" "fold_ok f xs s = Inr t"
  shows "le s t"
  using assms(2,3)
proof (induction xs arbitrary: s)
  case (Cons x xs)
  then obtain m where m: "f x s = Inr m" "fold_ok f xs m = Inr t" by (cases "f x s") auto
  then have "le s m" using assms(1) Cons.prems by blast
  then show ?case using Cons.IH [OF reached m(2)] further by blast
qed (simp add: stay)

lemma history:
  assumes "\<And>c a. ok a \<Longrightarrow> le a (step c a)" "ok s"
  shows "le s (fold step cs s)"
  using assms(2)
proof (induction cs arbitrary: s)
  case (Cons c cs)
  then have "le s (step c s)" using assms(1) by blast
  then show ?case using Cons.IH [OF reached] further by simp
qed (simp add: stay)

end

interpretation rows: step_order db_wf progresses
  by unfold_locales (auto intro: progresses_trans progresses_wf)

interpretation rows_with: step_order "\<lambda>a. db_wf (fst a)" "\<lambda>a b. progresses (fst a) (fst b)"
  by unfold_locales (auto intro: progresses_trans progresses_wf)

section \<open>A change of one row\<close>

definition bumped :: "ustring \<Rightarrow> nat \<Rightarrow> capture_run list \<Rightarrow> capture_run list" where
  "bumped s k = map (\<lambda>r. if rn_session_id r = s then r\<lparr>rn_desired_revision := rn_desired_revision r + k\<rparr> else r)"

lemma bumped_zero [simp]: "bumped s 0 rs = rs"
  unfolding bumped_def by (rule map_idI) (simp add: capture_run.equality)

lemma find_bumped:
  "find (\<lambda>r. rn_session_id r = s') (bumped s k rs) =
     map_option (\<lambda>r. if s' = s then r\<lparr>rn_desired_revision := rn_desired_revision r + k\<rparr> else r)
       (find (\<lambda>r. rn_session_id r = s') rs)"
  by (induction rs) (auto simp: bumped_def)

lemma bumped_run:
  assumes "db_runs db' = bumped s k (db_runs db)" "run_of s db \<noteq> None"
  shows "desired_of s' db' = (if s' = s then desired_of s db + k else desired_of s' db)"
    "applied_of s' db' = applied_of s' db" "run_of s' db' = None \<longleftrightarrow> run_of s' db = None"
  using assms by (auto simp: desired_of_def applied_of_def run_of_def find_bumped split: option.splits)

definition changed :: "ustring \<Rightarrow> (utterance \<Rightarrow> utterance) \<Rightarrow> utterance list \<Rightarrow> utterance list" where
  "changed i f = map (\<lambda>u. if ut_id u = i then f u else u)"

lemma update_utterances_changed: "db_utterances (update_utterances (\<lambda>u. ut_id u = i) f db) = changed i f (db_utterances db)"
  by (simp add: update_utterances_def changed_def)

lemma changed_changed: "(\<And>u. ut_id (f u) = ut_id u) \<Longrightarrow> changed i g (changed i f us) = changed i (\<lambda>u. g (f u)) us"
  by (induction us) (auto simp: changed_def)

lemma same_id_row:
  assumes "db_wf db" "u \<in> set (db_utterances db)" "w \<in> set (db_utterances db)" "ut_id u = ut_id w"
  shows "u = w"
proof -
  have "distinct (map ut_id (db_utterances db))" using assms(1) unfolding db_wf_def by (elim conjE)
  then have "inj_on ut_id (set (db_utterances db))" by (simp only: distinct_map)
  then show ?thesis using assms(4,2,3) by (rule inj_onD)
qed

lemma map_one:
  assumes "\<And>u. u \<in> set us \<Longrightarrow> ut_id u = i \<Longrightarrow> u = r" "ut_id r = i"
  shows "changed i f us = map (\<lambda>u. if u = r then f r else u) us"
  using assms(1)
proof (induction us)
  case (Cons u us)
  then have "changed i f us = map (\<lambda>u. if u = r then f r else u) us" by simp
  moreover have "ut_id u = i \<longleftrightarrow> u = r" using Cons.prems [of u] assms(2) by auto
  ultimately show ?case by (simp add: changed_def)
qed (simp add: changed_def)

lemma db_wf_run: "db_wf db \<Longrightarrow> u \<in> set (db_utterances db) \<Longrightarrow> run_of (ut_session_id u) db \<noteq> None"
  by (simp add: db_wf_def)

lemma net_update:
  assumes wf: "db_wf db" and us: "db_utterances db' = changed i f (db_utterances db)"
    and rs: "db_runs db' = bumped s k (db_runs db)" and r: "r \<in> set (db_utterances db)" "ut_id r = i" "ut_session_id r = s"
    and keep: "row_keeps r (f r)" and ok: "row_wf (desired_of s db + k) (f r)" and fresh: "lanes_fresh (desired_of s db) r (f r)"
  shows "progresses db db'"
proof -
  have run: "run_of s db \<noteq> None" using db_wf_run [OF wf r(1)] r by simp
  note run_facts = bumped_run [OF rs run]
  have only: "u = r" if "u \<in> set (db_utterances db)" "ut_id u = i" for u using same_id_row [OF wf] that r by metis
  have f: "ut_id (f r) = i" "ut_session_id (f r) = s" "ut_sequence (f r) = ut_sequence r"
    using keep r by (auto simp: row_keeps_def)
  have rows: "db_utterances db' = map (\<lambda>u. if u = r then f r else u) (db_utterances db)"
    unfolding us using only r(2) by (rule map_one)
  have a: "map ut_id (db_utterances db') = map ut_id (db_utterances db)"
    unfolding rows using f r by auto
  have b: "map (\<lambda>u. (ut_session_id u, ut_sequence u)) (db_utterances db') =
      map (\<lambda>u. (ut_session_id u, ut_sequence u)) (db_utterances db)"
    unfolding rows using f r by auto
  have c: "map rn_session_id (db_runs db') = map rn_session_id (db_runs db)"
    unfolding rs bumped_def by auto
  have d: "\<forall>x\<in>set (db_runs db'). rn_applied_revision x \<le> rn_desired_revision x"
  proof
    fix x assume "x \<in> set (db_runs db')"
    then obtain y where y: "y \<in> set (db_runs db)"
        "x = (if rn_session_id y = s then y\<lparr>rn_desired_revision := rn_desired_revision y + k\<rparr> else y)"
      unfolding rs bumped_def by auto
    then have "rn_applied_revision y \<le> rn_desired_revision y" using wf by (simp add: db_wf_def)
    then show "rn_applied_revision x \<le> rn_desired_revision x" using y by simp
  qed
  have e: "\<forall>u\<in>set (db_utterances db'). run_of (ut_session_id u) db' \<noteq> None \<and> row_wf (desired_of (ut_session_id u) db') u"
  proof
    fix w assume "w \<in> set (db_utterances db')"
    then obtain u where u: "u \<in> set (db_utterances db)" "w = (if u = r then f r else u)"
      unfolding rows set_map by blast
    show "run_of (ut_session_id w) db' \<noteq> None \<and> row_wf (desired_of (ut_session_id w) db') w"
    proof (cases "u = r")
      case True
      then show ?thesis using u f ok run run_facts(1) [of s] run_facts(3) [of s] by simp
    next
      case False
      then have "w = u" using u by simp
      moreover have "desired_of (ut_session_id u) db \<le> desired_of (ut_session_id u) db'"
        using run_facts(1) [of "ut_session_id u"] by simp
      ultimately show ?thesis
        using row_wf_mono [OF db_wf_row [OF wf u(1)]] db_wf_run [OF wf u(1)] run_facts(3) [of "ut_session_id u"] by simp
    qed
  qed
  have wf': "db_wf db'"
    using wf unfolding db_wf_def a b c by (simp add: d e)
  have g: "\<exists>w\<in>set (db_utterances db'). row_keeps u w" if "u \<in> set (db_utterances db)" for u
    using that keep row_keeps_refl [OF db_wf_row [OF wf that]] unfolding rows by (cases "u = r") auto
  have h: "desired_of (ut_session_id w) db < vr_projection_revision v' \<or>
      (\<exists>u\<in>set (db_utterances db). ut_id u = ut_id w \<and> ut_session_id u = ut_session_id w \<and> (\<exists>v\<in>set (ut_variants u). same_lane v v'))"
    if w: "w \<in> set (db_utterances db')" and v: "v' \<in> set (ut_variants w)" "final_variant v'" for w v'
  proof -
    obtain u where u: "u \<in> set (db_utterances db)" "w = (if u = r then f r else u)"
      using w unfolding rows set_map by blast
    show ?thesis
    proof (cases "u = r")
      case True
      then have "w = f r" using u by simp
      then have "desired_of s db < vr_projection_revision v' \<or> (\<exists>v\<in>set (ut_variants r). same_lane v v')"
        using fresh v unfolding lanes_fresh_def by blast
      then show ?thesis using \<open>w = f r\<close> f r by auto
    next
      case False
      then show ?thesis using u v same_lane_refl by auto
    qed
  qed
  have "desired_of s' db \<le> desired_of s' db' \<and> applied_of s' db \<le> applied_of s' db'" for s'
    using run_facts(1) [of s'] run_facts(2) [of s'] by simp
  then show ?thesis using wf' g h unfolding progresses_def advances_def by blast
qed

section \<open>One row exchanged\<close>

definition swaps :: "utterance \<Rightarrow> utterance \<Rightarrow> nat \<Rightarrow> capture_db \<Rightarrow> capture_db \<Rightarrow> bool" where
  "swaps r w k db db' \<longleftrightarrow>
     r \<in> set (db_utterances db) \<and> ut_id w = ut_id r \<and> db_utterances db' = changed (ut_id r) (\<lambda>_. w) (db_utterances db) \<and>
     db_runs db' = bumped (ut_session_id r) k (db_runs db)"

lemma swaps_start:
  assumes "db_wf db" "r \<in> set (db_utterances db)"
  shows "swaps r r 0 db db"
proof -
  have "changed (ut_id r) (\<lambda>_. r) (db_utterances db) = map (\<lambda>u. if u = r then r else u) (db_utterances db)"
    using same_id_row [OF assms(1) _ assms(2)] by (intro map_one) auto
  also have "\<dots> = db_utterances db" by (rule map_idI) simp
  finally show ?thesis using assms by (simp add: swaps_def)
qed

lemma swaps_update:
  assumes "swaps r w k db d" "ut_id (g w) = ut_id w"
  shows "swaps r (g w) k db (update_utterances (\<lambda>u. ut_id u = ut_id r) g d)"
  using assms unfolding swaps_def update_utterances_def changed_def by auto

lemma swaps_frame:
  assumes "swaps r w k db d" "db_utterances d' = db_utterances d" "db_runs d' = db_runs d"
  shows "swaps r w k db d'"
  using assms by (simp add: swaps_def)

lemma bump_result:
  assumes "bump_desired_revision s d = Inr (d', n)"
  shows "n = desired_of s d + 1" "db_utterances d' = db_utterances d" "db_runs d' = bumped s 1 (db_runs d)"
  using assms
  by (auto simp: bump_desired_revision_def update_run_def bumped_def desired_of_def and_then_def ok_or_def
      split: option.splits sum.splits)

lemma bumped_bumped: "bumped s (Suc 0) (bumped s k rs) = bumped s (Suc k) rs"
  by (induction rs) (auto simp: bumped_def)

lemma swaps_bump:
  assumes "db_wf db" "swaps r w k db d" "bump_desired_revision (ut_session_id r) d = Inr (d', n)"
  shows "n = desired_of (ut_session_id r) db + k + 1" "swaps r w (Suc k) db d'"
proof -
  have r: "r \<in> set (db_utterances db)" and rs: "db_runs d = bumped (ut_session_id r) k (db_runs db)"
    using assms(2) by (auto simp: swaps_def)
  note run = db_wf_run [OF assms(1) r]
  show "n = desired_of (ut_session_id r) db + k + 1"
    using bump_result(1) [OF assms(3)] bumped_run(1) [OF rs run, of "ut_session_id r"] by simp
  show "swaps r w (Suc k) db d'"
    using assms(2) bump_result [OF assms(3)] rs by (simp add: swaps_def bumped_bumped)
qed

lemma find_changed:
  assumes "r \<in> set us" "ut_id r = i" "ut_id w = i"
  shows "find (\<lambda>u. ut_id u = i) (changed i (\<lambda>_. w) us) = Some w"
  using assms by (induction us) (auto simp: changed_def)

lemma swaps_read: "swaps r w k db d \<Longrightarrow> find (\<lambda>u. ut_id u = ut_id r) (db_utterances d) = Some w"
  by (auto simp: swaps_def find_changed)

lemma swaps_variants: "swaps r w k db d \<Longrightarrow> variants_of (ut_id r) d = ut_variants w"
  by (simp add: variants_of_def swaps_read)

lemma swaps_progresses:
  assumes "db_wf db" "swaps r w k db d" "row_keeps r w" "row_wf (desired_of (ut_session_id r) db + k) w"
    "lanes_fresh (desired_of (ut_session_id r) db) r w"
  shows "progresses db d" "w \<in> set (db_utterances d)"
proof -
  have s: "r \<in> set (db_utterances db)" "ut_id w = ut_id r" "db_utterances d = changed (ut_id r) (\<lambda>_. w) (db_utterances db)"
      "db_runs d = bumped (ut_session_id r) k (db_runs db)"
    using assms(2) by (auto simp: swaps_def)
  show "progresses db d"
    using net_update [OF assms(1) s(3) s(4) s(1) refl refl assms(3) assms(4) assms(5)] .
  show "w \<in> set (db_utterances d)" using swaps_read [OF assms(2)] by (auto simp: find_Some_iff)
qed

text \<open>What the relations look at.\<close>

definition core :: "utterance \<Rightarrow> utterance \<Rightarrow> bool" where
  "core u w \<longleftrightarrow>
     ut_id w = ut_id u \<and> ut_session_id w = ut_session_id u \<and> ut_sequence w = ut_sequence u \<and>
     ut_completion w = ut_completion u \<and> ut_source_text w = ut_source_text u \<and> ut_source_start_ms w = ut_source_start_ms u \<and>
     ut_source_end_ms w = ut_source_end_ms u \<and> ut_source_language w = ut_source_language u \<and> ut_variants w = ut_variants u"

lemma core_same:
  assumes "core u w"
  shows "row_keeps r w = row_keeps r u" "row_wf d w = row_wf d u" "lanes_fresh d r w = lanes_fresh d r u"
  using assms by (auto simp: core_def row_keeps_def row_wf_def lane_wf_def lanes_fresh_def)

lemma core_refl [simp]: "core u u"
  by (simp add: core_def)

section \<open>What is read\<close>

text \<open>The outline of a row: all but the texts, which an edit may cover.\<close>

definition outline :: "variant \<Rightarrow> ustring \<times> variant_role \<times> variant_state \<times> utterance_completion option" where
  "outline v = (vr_language v, vr_role v, vr_state v, vr_completion v)"

definition seen_as :: "utterance \<Rightarrow> utterance \<Rightarrow> bool" where
  "seen_as u r \<longleftrightarrow>
     ut_id u = ut_id r \<and> ut_session_id u = ut_session_id r \<and> ut_sequence u = ut_sequence r \<and>
     ut_source_language u = ut_source_language r \<and> ut_completion u = ut_completion r \<and>
     outline ` set (ut_variants u) = outline ` set (ut_variants r) \<and>
     (\<forall>v\<in>set (ut_variants u). vr_state v = VarReady \<longrightarrow> vr_text v \<noteq> None)"

lemma set_hydrate [simp]: "set (ut_variants (hydrate_utterance_variants u)) = set (ut_variants u)"
  by (simp add: hydrate_utterance_variants_def)

lemma hydrate_simps [simp]:
  "ut_id (hydrate_utterance_variants u) = ut_id u" "ut_session_id (hydrate_utterance_variants u) = ut_session_id u"
  "ut_sequence (hydrate_utterance_variants u) = ut_sequence u" "ut_completion (hydrate_utterance_variants u) = ut_completion u"
  "ut_source_language (hydrate_utterance_variants u) = ut_source_language u"
  "ut_source_text (hydrate_utterance_variants u) = ut_source_text u"
  "ut_source_start_ms (hydrate_utterance_variants u) = ut_source_start_ms u"
  "ut_source_end_ms (hydrate_utterance_variants u) = ut_source_end_ms u"
  "ut_revision (hydrate_utterance_variants u) = ut_revision u"
  "ut_translated_language (hydrate_utterance_variants u) = ut_translated_language u"
  by (simp_all add: hydrate_utterance_variants_def)

lemma hydrate_seen_as: "row_wf d r \<Longrightarrow> seen_as (hydrate_utterance_variants r) r"
  by (auto simp: seen_as_def row_wf_def lane_wf_def)

lemma update_first_text:
  "map outline (update_first p (\<lambda>v. v\<lparr>vr_text := Some body, vr_edit_revision := n\<rparr>) vs) = map outline vs"
  "\<forall>v\<in>set vs. vr_state v = VarReady \<longrightarrow> vr_text v \<noteq> None \<Longrightarrow>
   \<forall>v\<in>set (update_first p (\<lambda>v. v\<lparr>vr_text := Some body, vr_edit_revision := n\<rparr>) vs). vr_state v = VarReady \<longrightarrow> vr_text v \<noteq> None"
  by (induction vs) (auto simp: outline_def)

lemma put_text_seen:
  assumes "seen_as u r"
  shows "seen_as (put_variant_text l body n u) r"
proof -
  let ?p = "\<lambda>v. canonical_language (vr_language v) = l" and ?f = "\<lambda>v. v\<lparr>vr_text := Some body, vr_edit_revision := n\<rparr>"
  have "set (map outline (update_first ?p ?f (ut_variants u))) = set (map outline (ut_variants u))"
    by (simp only: update_first_text(1))
  then show ?thesis
    using assms update_first_text(2) [of "ut_variants u" ?p n body] by (simp add: seen_as_def put_variant_text_def)
qed

lemma override_seen: "apply_override x u = Inr u' \<Longrightarrow> seen_as u r \<Longrightarrow> seen_as u' r"
proof -
  assume a: "apply_override x u = Inr u'" and u: "seen_as u r"
  have put: "seen_as (u\<lparr>ut_source_text := t, ut_source_edit_revision := n\<rparr>) r" "seen_as (u\<lparr>ut_translated_text := t'\<rparr>) r" for t n t'
    using u by (auto simp: seen_as_def)
  show ?thesis
    using a u put_text_seen [OF put(1)] put_text_seen [OF put(2)] put_text_seen [OF u]
    by (auto simp: apply_override_def Let_def split: option.splits if_splits)
qed

lemma fold_seen: "fold_ok apply_override xs u = Inr u' \<Longrightarrow> seen_as u r \<Longrightarrow> seen_as u' r"
  by (induction xs arbitrary: u) (auto simp: and_then_def override_seen split: sum.splits)

lemma overlay_seen: "apply_utterance_overrides db u = Inr u' \<Longrightarrow> seen_as u r \<Longrightarrow> seen_as u' r"
  unfolding apply_utterance_overrides_def by (rule fold_seen)

lemma visible_seen: "visible d u = Inr (d', u') \<Longrightarrow> seen_as u r \<Longrightarrow> d' = d \<and> seen_as u' r"
  using overlay_seen by (auto simp: visible_def and_then_def split: sum.splits)

lemma find_SomeD: "find p xs = Some x \<Longrightarrow> x \<in> set xs \<and> p x"
  by (induction xs) (auto split: if_splits)

lemma require_by_id_row:
  assumes "require_by_id i d = Inr u"
  obtains r where "r \<in> set (db_utterances d)" "ut_id r = i" "u = hydrate_utterance_variants r"
  using assms by (auto simp: require_by_id_def machine_utterance_by_id_def ok_or_def split: option.splits dest!: find_SomeD)

lemma by_sequence_row:
  assumes "machine_utterance_by_sequence s n d = Inr (Some u)"
  obtains r where "r \<in> set (db_utterances d)" "ut_session_id r = s" "ut_sequence r = n" "u = hydrate_utterance_variants r"
  using assms
  by (auto simp: machine_utterance_by_sequence_def and_then_def u64_to_i64_def split: if_splits dest!: find_SomeD)

lemma require_by_sequence_row:
  assumes "require_by_sequence s n d = Inr u"
  obtains r where "r \<in> set (db_utterances d)" "ut_session_id r = s" "ut_sequence r = n" "u = hydrate_utterance_variants r"
proof -
  have "machine_utterance_by_sequence s n d = Inr (Some u)"
    using assms by (auto simp: require_by_sequence_def and_then_def ok_or_def split: sum.splits option.splits)
  then show ?thesis using that by (rule by_sequence_row)
qed

lemma visible_by_id_seen:
  assumes "db_wf d" "visible_by_id i d = Inr (d', u)"
  obtains r where "d' = d" "r \<in> set (db_utterances d)" "ut_id r = i" "seen_as u r"
proof -
  obtain m where m: "require_by_id i d = Inr m" "visible d m = Inr (d', u)"
    using assms(2) by (auto simp: visible_by_id_def and_then_def split: sum.splits)
  obtain r where r: "r \<in> set (db_utterances d)" "ut_id r = i" "m = hydrate_utterance_variants r"
    using m(1) by (rule require_by_id_row)
  show ?thesis
    using visible_seen [OF m(2), of r] hydrate_seen_as [OF db_wf_row [OF assms(1) r(1)]] r that by simp
qed

lemma seen_after:
  assumes "progresses a d" "visible_by_id i d = Inr (db', u)"
  shows "progresses a db' \<and> (\<exists>x\<in>set (db_utterances db'). seen_as u x)"
proof -
  obtain r where "db' = d" "r \<in> set (db_utterances d)" "ut_id r = i" "seen_as u r"
    by (rule visible_by_id_seen [OF progresses_wf [OF assms(1)] assms(2)])
  then show ?thesis using assms(1) by blast
qed

text \<open>What an outline tells.\<close>

lemma outline_lane:
  assumes "seen_as u r" "v \<in> set (ut_variants r)"
  obtains w where "w \<in> set (ut_variants u)" "outline w = outline v" "vr_state w = VarReady \<longrightarrow> vr_text w \<noteq> None"
proof -
  have "outline v \<in> outline ` set (ut_variants u)" using assms by (auto simp: seen_as_def)
  then obtain w where "w \<in> set (ut_variants u)" "outline w = outline v" by (metis imageE)
  then show ?thesis using assms(1) that by (auto simp: seen_as_def)
qed

lemma seen_settled:
  assumes "seen_as u r" "settled r"
  shows "has_source_fact u \<or> translation_fact u"
proof (cases "ut_completion r = CompleteFact")
  case True
  then show ?thesis using assms by (simp add: has_source_fact_def seen_as_def)
next
  case False
  then obtain v where v: "v \<in> set (ut_variants r)" "final_variant v" using assms(2) by (auto simp: settled_def)
  obtain w where "w \<in> set (ut_variants u)" "outline w = outline v" "vr_state w = VarReady \<longrightarrow> vr_text w \<noteq> None"
    using assms(1) v(1) by (rule outline_lane)
  then have "w \<in> set (ut_variants u)" "ready_variant w" using v by (auto simp: outline_def ready_variant_def final_variant_def)
  then show ?thesis by (cases "vr_role w") (auto simp: has_source_fact_def translation_fact_def)
qed

end
