(* ===== verification/Capture_Lane_Laws.thy ===== *)
theory Capture_Lane_Laws
  imports Capture_Row_Laws
begin

text \<open>
  The writes of a language lane keep what is settled: the direct write, the adoption of a language
  that a fact identifies, the claim of the lane of a provisional source, withdrawals and the collection
  of empty rows. Each lemma says that the operation progresses from a well formed state and that what
  it returns is a row of the new state under the edits.
\<close>

lemma and_then_InrE:
  assumes "and_then m f = Inr y"
  obtains x where "m = Inr x" "f x = Inr y"
  using assms by (cases m) auto

lemma find_exists: "x \<in> set xs \<Longrightarrow> p x \<Longrightarrow> \<exists>y. find p xs = Some y"
  by (induction xs) auto

section \<open>One lane exchanged\<close>

definition exchanged :: "ustring \<Rightarrow> variant \<Rightarrow> variant list \<Rightarrow> variant list \<Rightarrow> bool" where
  "exchanged l x vs vs' \<longleftrightarrow>
     distinct (map vr_language vs') \<and> x \<in> set vs' \<and> vr_language x = l \<and>
     (\<forall>v. vr_language v \<noteq> l \<longrightarrow> (v \<in> set vs' \<longleftrightarrow> v \<in> set vs))"

lemma same_language: "distinct (map vr_language vs) \<Longrightarrow> v \<in> set vs \<Longrightarrow> w \<in> set vs \<Longrightarrow> vr_language v = vr_language w \<Longrightarrow> v = w"
  by (simp add: distinct_map inj_on_def)

lemma exchanged_only: "exchanged l x vs vs' \<Longrightarrow> v \<in> set vs' \<Longrightarrow> vr_language v = l \<Longrightarrow> v = x"
  unfolding exchanged_def using same_language by metis

lemma exchanged_map:
  assumes "exchanged l x vs vs'" "\<And>v. vr_language (f v) = vr_language v" "\<And>v. v \<in> set vs' \<Longrightarrow> vr_language v \<noteq> l \<Longrightarrow> f v = v"
  shows "exchanged l (f x) vs (map f vs')"
proof -
  have "vr_language \<circ> f = vr_language" using assms(2) by (simp add: fun_eq_iff)
  moreover have "v \<in> f ` set vs' \<longleftrightarrow> v \<in> set vs'" if l: "vr_language v \<noteq> l" for v
  proof
    assume "v \<in> f ` set vs'"
    then obtain u where "u \<in> set vs'" "v = f u" by blast
    then show "v \<in> set vs'" using assms(2,3) l by metis
  next
    assume "v \<in> set vs'"
    then show "v \<in> f ` set vs'" using assms(3) [of v] l by force
  qed
  ultimately show ?thesis using assms(1,2) unfolding exchanged_def by simp
qed

lemma exchanged_refl: "distinct (map vr_language vs) \<Longrightarrow> x \<in> set vs \<Longrightarrow> exchanged (vr_language x) x vs vs"
  by (simp add: exchanged_def)

lemma exchanged_upsert:
  assumes "row_wf d r" "canon (vr_language new)" "\<And>v. vr_language (f v) = vr_language v"
  obtains x where "exchanged (vr_language new) x (ut_variants r) (upsert_variant new f (ut_variants r))"
    "x = new \<or> (\<exists>v\<in>set (ut_variants r). x = f v)"
proof -
  let ?vs = "ut_variants r"
  have cn: "sql_language (vr_language v) = vr_language v" if "v \<in> set ?vs" for v
    using assms(1) that by (auto simp: row_wf_def lane_wf_def canon_def)
  have dv: "distinct (map vr_language ?vs)" using assms(1) by (simp add: row_wf_def)
  show ?thesis
  proof (cases "\<exists>v\<in>set ?vs. vr_language v = vr_language new")
    case True
    then obtain v where v: "v \<in> set ?vs" "vr_language v = vr_language new" by blast
    have "upsert_variant new f ?vs = map (\<lambda>v. if vr_language v = vr_language new then f v else v) ?vs"
      using True cn canonD(2) [OF assms(2)] by (auto simp: upsert_variant_def)
    moreover have "exchanged (vr_language new) (if vr_language v = vr_language new then f v else v) ?vs
        (map (\<lambda>v. if vr_language v = vr_language new then f v else v) ?vs)"
      using exchanged_refl [OF dv v(1)] v(2) assms(3) by (intro exchanged_map) auto
    ultimately show ?thesis using that [of "f v"] v by auto
  next
    case False
    then have "upsert_variant new f ?vs = ?vs @ [new]"
      using cn canonD(2) [OF assms(2)] by (auto simp: upsert_variant_def)
    moreover have "exchanged (vr_language new) new ?vs (?vs @ [new])"
      using False dv by (auto simp: exchanged_def)
    ultimately show ?thesis using that [of new] by simp
  qed
qed

text \<open>Source columns that stay.\<close>

definition same_source :: "utterance \<Rightarrow> utterance \<Rightarrow> bool" where
  "same_source u w \<longleftrightarrow>
     ut_id w = ut_id u \<and> ut_session_id w = ut_session_id u \<and> ut_sequence w = ut_sequence u \<and>
     ut_completion w = ut_completion u \<and> ut_source_text w = ut_source_text u \<and> ut_source_start_ms w = ut_source_start_ms u \<and>
     ut_source_end_ms w = ut_source_end_ms u \<and> ut_source_language w = ut_source_language u"

lemma lane_exchange:
  assumes wf: "row_wf d r" and ex: "exchanged l x (ut_variants r) (ut_variants w)" and src: "same_source r w"
    and x: "lane_wf (d + k) w x" and keep: "\<And>v. v \<in> set (ut_variants r) \<Longrightarrow> vr_language v = l \<Longrightarrow> final_variant v \<Longrightarrow> later_lane v x"
    and fresh: "final_variant x \<Longrightarrow> d < vr_projection_revision x"
  shows "row_keeps r w" "row_wf (d + k) w" "lanes_fresh d r w"
proof -
  have mem: "v \<in> set (ut_variants w) \<longleftrightarrow> v \<in> set (ut_variants r)" if "vr_language v \<noteq> l" for v
    using ex that by (simp add: exchanged_def)
  have rl: "lane_wf d r v" if "v \<in> set (ut_variants r)" for v using wf that by (simp add: row_wf_def)
  have "\<exists>v'\<in>set (ut_variants w). later_lane v v'" if v: "v \<in> set (ut_variants r)" "final_variant v" for v
  proof (cases "vr_language v = l")
    case True
    then have "later_lane v x" using keep v by blast
    then show ?thesis using ex by (auto simp: exchanged_def)
  next
    case False
    then show ?thesis using mem v later_refl [OF rl [OF v(1)] v(2)] by blast
  qed
  then show "row_keeps r w" using src by (simp add: row_keeps_def same_source_def)
  have "lane_wf (d + k) w v" if v: "v \<in> set (ut_variants w)" for v
  proof (cases "vr_language v = l")
    case True
    then show ?thesis using exchanged_only [OF ex v] x by simp
  next
    case False
    then have "lane_wf d r v" using mem v rl by blast
    then show ?thesis using src by (auto simp: lane_wf_def same_source_def)
  qed
  moreover have "canon (ut_source_language w)" using wf src by (simp add: row_wf_def same_source_def)
  moreover have "distinct (map vr_language (ut_variants w))" using ex by (simp add: exchanged_def)
  ultimately show "row_wf (d + k) w" by (simp add: row_wf_def)
  show "lanes_fresh d r w"
    unfolding lanes_fresh_def
  proof (intro ballI impI)
    fix v assume v: "v \<in> set (ut_variants w)" "final_variant v"
    show "d < vr_projection_revision v \<or> (\<exists>u\<in>set (ut_variants r). same_lane u v)"
    proof (cases "vr_language v = l")
      case True
      then show ?thesis using exchanged_only [OF ex v(1)] fresh v(2) by simp
    next
      case False
      then show ?thesis using mem v same_lane_refl by blast
    qed
  qed
qed

section \<open>The direct write\<close>

lemma source_lane_there:
  assumes "row_wf d r" "v \<in> set (ut_variants r)" "vr_role v = RoleSource"
  shows "has_source_lane (hydrate_utterance_variants r)"
proof -
  have "\<exists>w. find (\<lambda>v. vr_role v = RoleSource) (ut_variants (hydrate_utterance_variants r)) = Some w"
    by (rule find_exists [of v]) (use assms(2,3) in simp_all)
  then obtain w where w: "find (\<lambda>v. vr_role v = RoleSource) (ut_variants (hydrate_utterance_variants r)) = Some w" by blast
  then have "w \<in> set (ut_variants r)" "vr_role w = RoleSource" by (auto dest!: find_SomeD)
  then have "ready_variant w" using assms(1) by (auto simp: row_wf_def lane_wf_def ready_variant_def)
  then show ?thesis using w by (simp add: has_source_lane_def source_variant_def)
qed

lemma not_the_source:
  assumes "row_wf d r" "\<not> target_is_source (hydrate_utterance_variants r) l" "v \<in> set (ut_variants r)" "vr_language v = l"
  shows "vr_role v = RoleTranslation"
proof (rule ccontr)
  assume "vr_role v \<noteq> RoleTranslation"
  then have s: "vr_role v = RoleSource" by (cases "vr_role v") auto
  then have "vr_language v = ut_source_language r" "canon (ut_source_language r)"
    using assms(1,3) by (auto simp: row_wf_def lane_wf_def)
  then show False
    using source_lane_there [OF assms(1,3) s] assms(2,4) by (simp add: target_is_source_def canon_def)
qed

lemma variant_in_row:
  assumes "row_wf d r" "v \<in> set (ut_variants r)" "vr_language v = l"
  shows "variant_in l (hydrate_utterance_variants r) = Some v"
proof -
  have c: "canonical_language (vr_language w) = vr_language w" if "w \<in> set (ut_variants r)" for w
    using assms(1) that by (auto simp: row_wf_def lane_wf_def canon_def)
  have "\<exists>w. variant_in l (hydrate_utterance_variants r) = Some w"
    unfolding variant_in_def by (rule find_exists [of v]) (use assms(2,3) c [of v] in simp_all)
  then obtain w where w: "variant_in l (hydrate_utterance_variants r) = Some w" by blast
  then have "w \<in> set (ut_variants r)" "canonical_language (vr_language w) = l"
    unfolding variant_in_def by (auto dest!: find_SomeD)
  then have "w = v" using c assms same_language [of "ut_variants r" w v] by (simp add: row_wf_def)
  then show ?thesis using w by simp
qed

lemma admitted_later:
  assumes "admit_lane_write name w body st c (Some v) = Inr True" "final_variant v" "vr_role v = RoleTranslation"
    "vr_role x = RoleTranslation" "vr_language x = vr_language v" "vr_text x = body" "vr_state x = st" "vr_completion x = c"
  shows "later_lane v x"
proof -
  have "st = VarReady \<and> c = Some CompleteFact \<and>
      (case (vr_text v, body) of (Some old, Some incoming) \<Rightarrow> starts_with old incoming | _ \<Rightarrow> False)"
    using assms(1,2,3) by (auto simp: admit_lane_write_def Let_def split: if_splits option.splits)
  then show ?thesis using assms(3-) by (simp add: later_lane_def final_variant_def)
qed

lemma shadow_swaps:
  assumes "swaps r w k db d" "ut_id u = ut_id r"
  obtains w' where "swaps r w' k db (update_shadow now u l body st d)" "core w w'"
proof -
  have shadow: "\<exists>w'. swaps r w' k db (set_shadow now (ut_id r) a b c d) \<and> core w w'" for a b c
  proof -
    let ?g = "\<lambda>u. u\<lparr>ut_translated_language := a, ut_translated_text := b, ut_alignment := c, ut_updated_at := now\<rparr>"
    have "swaps r (?g w) k db (update_utterances (\<lambda>u. ut_id u = ut_id r) ?g d)"
      by (rule swaps_update [OF assms(1)]) simp
    moreover have "core w (?g w)" by (simp add: core_def)
    ultimately show ?thesis unfolding set_shadow_def by blast
  qed
  have "\<exists>w'. swaps r w' k db (update_shadow now u l body st d) \<and> core w w'"
    using shadow assms core_refl unfolding update_shadow_def by (auto split: option.split)
  then show ?thesis using that by blast
qed

lemma swaps_variants_update:
  assumes "swaps r w k db d"
  shows "swaps r (w\<lparr>ut_variants := f (ut_variants w)\<rparr>) k db (update_variants (ut_id r) f d)"
  unfolding update_variants_def by (rule swaps_update [OF assms]) simp

lemma put_lane_swaps:
  assumes "swaps r w k db d" "put_lane now (ut_id r) l body st c d = Inr d'"
  shows "lane_row_allowed l body st c"
    "swaps r (w\<lparr>ut_variants := upsert_variant (lane_row now l body st c)
       (\<lambda>v. v\<lparr>vr_role := RoleTranslation, vr_text := body, vr_state := st, vr_completion := c,
              vr_revision := vr_revision v + 1, vr_updated_at := now\<rparr>) (ut_variants w)\<rparr>) k db d'"
  using assms(2) swaps_variants_update [OF assms(1)] by (auto simp: put_lane_def split: if_splits)

lemma stamp_lane_swaps:
  assumes "db_wf db" "swaps r w k db d" "stamp_lane (ut_session_id r) (ut_id r) l d = Inr d'"
  shows "swaps r (w\<lparr>ut_variants := stamp_variants (\<lambda>v. sql_language (vr_language v) = l \<and> vr_role v = RoleTranslation)
       (desired_of (ut_session_id r) db + k + 1) (ut_variants w)\<rparr>) (Suc k) db d'"
proof -
  from assms(3) obtain y where y: "bump_desired_revision (ut_session_id r) d = Inr y"
      "d' = update_variants (ut_id r) (stamp_variants (\<lambda>v. sql_language (vr_language v) = l \<and> vr_role v = RoleTranslation) (snd y)) (fst y)"
    unfolding stamp_lane_def by (elim and_then_InrE) auto
  obtain e n where e: "y = (e, n)" by (cases y)
  note b = swaps_bump [OF assms(1,2), of e n]
  show ?thesis using b y e swaps_variants_update by auto
qed

lemma upsert_lane_progresses:
  assumes wf: "db_wf db" and step: "upsert_lane now s n l0 body st c w db = Inr (db', u')"
  shows "progresses db db' \<and> (\<exists>x\<in>set (db_utterances db'). seen_as u' x)"
proof -
  define l where "l = canonical_language l0"
  have cl: "canon l" by (simp add: l_def)
  obtain u where u: "require_by_sequence s n db = Inr u" and ts: "\<not> target_is_source u l"
    and rest: "and_then (admit_lane_write (row_name s n @ lit '':'' @ l) w body st c (variant_in l u)) (\<lambda>wr.
            if \<not> wr then visible db u
            else
              and_then (put_lane now (ut_id u) l body st c db) (\<lambda>db.
              and_then (if st = VarReady \<and> c = Some CompleteFact
                        then stamp_lane s (ut_id u) l (update_shadow now u l body st db)
                        else Inr (update_shadow now u l body st db)) (\<lambda>db.
                visible_by_id (ut_id u) db))) = Inr (db', u')"
    using step unfolding upsert_lane_def Let_def l_def [symmetric] by (elim and_then_InrE) (simp split: if_splits)
  obtain r where r: "r \<in> set (db_utterances db)" "ut_session_id r = s" "ut_sequence r = n" and ur: "u = hydrate_utterance_variants r"
    using u by (rule require_by_sequence_row)
  note rw = db_wf_row [OF wf r(1)]
  from rest obtain wr where admit: "admit_lane_write (row_name s n @ lit '':'' @ l) w body st c (variant_in l u) = Inr wr"
    and go: "(if \<not> wr then visible db u
            else
              and_then (put_lane now (ut_id u) l body st c db) (\<lambda>db.
              and_then (if st = VarReady \<and> c = Some CompleteFact
                        then stamp_lane s (ut_id u) l (update_shadow now u l body st db)
                        else Inr (update_shadow now u l body st db)) (\<lambda>db.
                visible_by_id (ut_id u) db))) = Inr (db', u')"
    by (elim and_then_InrE) blast
  show ?thesis
  proof (cases wr)
    case False
    then have "visible db u = Inr (db', u')" using go by simp
    then have "db' = db \<and> seen_as u' r" using visible_seen hydrate_seen_as [OF rw] ur by blast
    then show ?thesis using wf r by auto
  next
    case True
    have iu: "ut_id u = ut_id r" using ur by simp
    have go': "and_then (put_lane now (ut_id r) l body st c db) (\<lambda>db.
              and_then (if st = VarReady \<and> c = Some CompleteFact
                        then stamp_lane s (ut_id r) l (update_shadow now u l body st db)
                        else Inr (update_shadow now u l body st db)) (\<lambda>db.
                visible_by_id (ut_id r) db)) = Inr (db', u')"
      using go True unfolding iu by simp
    obtain d1 d2 where d1: "put_lane now (ut_id r) l body st c db = Inr d1"
      and d2: "(if st = VarReady \<and> c = Some CompleteFact
                then stamp_lane s (ut_id r) l (update_shadow now u l body st d1)
                else Inr (update_shadow now u l body st d1)) = Inr d2" and v: "visible_by_id (ut_id r) d2 = Inr (db', u')"
      using go' by (elim and_then_InrE) blast
    let ?f = "\<lambda>v. v\<lparr>vr_role := RoleTranslation, vr_text := body, vr_state := st, vr_completion := c,
              vr_revision := vr_revision v + 1, vr_updated_at := now\<rparr>"
    let ?new = "lane_row now l body st c" and ?d = "desired_of (ut_session_id r) db"
    have nl: "vr_language ?new = l" by (simp add: lane_row_def)
    obtain x where ex: "exchanged (vr_language ?new) x (ut_variants r) (upsert_variant ?new ?f (ut_variants r))"
      and x: "x = ?new \<or> (\<exists>v\<in>set (ut_variants r). x = ?f v)"
      using exchanged_upsert [OF rw, of ?new ?f] nl cl by auto
    note ex' = ex [unfolded nl]
    have "vr_language x = l" using ex' by (simp add: exchanged_def)
    moreover have "vr_role x = RoleTranslation \<and> vr_text x = body \<and> vr_state x = st \<and> vr_completion x = c"
      using x by (auto simp: lane_row_def)
    ultimately have xf: "vr_language x = l" "vr_role x = RoleTranslation" "vr_text x = body" "vr_state x = st" "vr_completion x = c"
      by simp_all
    note p = put_lane_swaps [OF swaps_start [OF wf r(1)] d1]
    have ready: "(st = VarReady) = (body \<noteq> None)" "(st = VarReady) = (c \<noteq> None)" using p(1) by (auto simp: lane_row_allowed_def)
    obtain w1 where w1: "swaps r w1 0 db (update_shadow now u l body st d1)"
        "core (r\<lparr>ut_variants := upsert_variant ?new ?f (ut_variants r)\<rparr>) w1"
      by (rule shadow_swaps [OF p(2) iu])
    have w1v: "ut_variants w1 = upsert_variant ?new ?f (ut_variants r)" and src: "same_source r w1"
      using w1(2) by (simp_all add: core_def same_source_def)
    have later: "later_lane v x'" if v: "v \<in> set (ut_variants r)" "vr_language v = l" "final_variant v"
        and x': "vr_role x' = RoleTranslation" "vr_language x' = l" "vr_text x' = body" "vr_state x' = st" "vr_completion x' = c"
      for v x'
    proof -
      have "vr_role v = RoleTranslation" using not_the_source [OF rw _ v(1,2)] ts ur by simp
      moreover have "variant_in l u = Some v" using variant_in_row [OF rw v(1,2)] ur by simp
      ultimately show ?thesis using admitted_later admit True v x' by metis
    qed
    show ?thesis
    proof (cases "st = VarReady \<and> c = Some CompleteFact")
      case False
      then have d2': "d2 = update_shadow now u l body st d1" using d2 by (auto split: if_splits)
      have "\<not> final_variant x" using False xf by (simp add: final_variant_def)
      then have "lane_wf (?d + 0) w1 x" using xf cl ready by (simp add: lane_wf_def)
      then have "row_keeps r w1" "row_wf (?d + 0) w1" "lanes_fresh ?d r w1"
        using lane_exchange [OF rw ex' [folded w1v] src] later xf \<open>\<not> final_variant x\<close> by blast+
      then have "progresses db d2" using swaps_progresses [OF wf w1(1)] d2' by simp
      then show ?thesis using v by (rule seen_after)
    next
      case True
      then have st: "stamp_lane (ut_session_id r) (ut_id r) l (update_shadow now u l body st d1) = Inr d2" using d2 r by simp
      note sw = stamp_lane_swaps [OF wf w1(1) st]
      let ?g = "\<lambda>v. if sql_language (vr_language v) = l \<and> vr_role v = RoleTranslation then v\<lparr>vr_projection_revision := ?d + 0 + 1\<rparr> else v"
      let ?w = "w1\<lparr>ut_variants := stamp_variants (\<lambda>v. sql_language (vr_language v) = l \<and> vr_role v = RoleTranslation) (?d + 0 + 1) (ut_variants w1)\<rparr>"
      have cn: "sql_language (vr_language v) = vr_language v" if "v \<in> set (ut_variants w1)" for v
      proof (cases "vr_language v = l")
        case True
        then show ?thesis using cl by (simp add: canon_def)
      next
        case False
        then have "v \<in> set (ut_variants r)" using ex' that by (simp add: exchanged_def w1v)
        then show ?thesis using rw by (auto simp: row_wf_def lane_wf_def canon_def)
      qed
      have "exchanged l (?g x) (ut_variants r) (map ?g (ut_variants w1))"
        by (rule exchanged_map [OF ex' [folded w1v]]) (simp_all add: cn)
      moreover have wv: "ut_variants ?w = map ?g (ut_variants w1)" by (simp add: stamp_variants_def)
      ultimately have exw: "exchanged l (?g x) (ut_variants r) (ut_variants ?w)" by (simp only: wv)
      have gx: "?g x = x\<lparr>vr_projection_revision := ?d + 1\<rparr>" using xf cl by (simp add: canon_def)
      have srcw: "same_source r ?w" using src by (simp add: same_source_def)
      have lw: "lane_wf (?d + Suc 0) ?w (?g x)" unfolding gx using xf cl ready by (simp add: lane_wf_def)
      have "row_keeps r ?w" "row_wf (?d + Suc 0) ?w" "lanes_fresh ?d r ?w"
        using lane_exchange [OF rw exw srcw lw] later xf unfolding gx by simp_all
      then have "progresses db d2" using swaps_progresses [OF wf sw] by simp
      then show ?thesis using v by (rule seen_after)
    qed
  qed
qed

section \<open>Rows that are collected\<close>

lemma delete_progresses:
  assumes wf: "db_wf db" and r: "r \<in> set (db_utterances db)" and loose: "\<not> settled r"
  shows "progresses db (delete_utterance (ut_id r) db)"
proof -
  let ?db = "delete_utterance (ut_id r) db"
  have us: "db_utterances ?db = filter (\<lambda>u. ut_id u \<noteq> ut_id r) (db_utterances db)" and rs: "db_runs ?db = db_runs db"
    by (simp_all add: delete_utterance_def)
  have run: "run_of s ?db = run_of s db" for s by (simp add: run_of_def rs)
  have rev: "desired_of s ?db = desired_of s db" "applied_of s ?db = applied_of s db" for s
    by (simp_all add: desired_of_def applied_of_def run)
  have a: "distinct (map ut_id (db_utterances ?db))"
    using wf unfolding us db_wf_def by (simp add: distinct_map_filter)
  have b: "distinct (map (\<lambda>u. (ut_session_id u, ut_sequence u)) (db_utterances ?db))"
    using wf unfolding us db_wf_def by (simp add: distinct_map_filter)
  have wf': "db_wf ?db"
    using wf a b unfolding db_wf_def rs run rev by (simp add: us)
  have "\<exists>w\<in>set (db_utterances ?db). row_keeps u w" if u: "u \<in> set (db_utterances db)" "settled u" for u
  proof -
    have "u \<noteq> r" using u loose by blast
    then have "ut_id u \<noteq> ut_id r" using same_id_row [OF wf u(1) r] by blast
    then show ?thesis using u row_keeps_refl [OF db_wf_row [OF wf u(1)]] us by auto
  qed
  moreover have "\<exists>u\<in>set (db_utterances db). ut_id u = ut_id w \<and> ut_session_id u = ut_session_id w \<and>
      (\<exists>v\<in>set (ut_variants u). same_lane v v')"
    if "w \<in> set (db_utterances ?db)" "v' \<in> set (ut_variants w)" "final_variant v'" for w v'
    using that same_lane_refl us by auto
  ultimately show ?thesis using wf' rev unfolding progresses_def advances_def by simp
qed

lemma collect_progresses:
  assumes wf: "db_wf db" and x: "x \<in> set (db_utterances db)" "seen_as u x" and step: "collect_empty_shell db u = Inr (db', y)"
  shows "progresses db db'"
proof (cases "has_source_fact u \<or> translation_fact u")
  case True
  then show ?thesis using step wf by (simp add: collect_empty_shell_def)
next
  case False
  then have "\<not> settled x" using seen_settled x(2) by blast
  then have "progresses db (delete_utterance (ut_id u) db)"
    using delete_progresses [OF wf x(1)] x(2) by (simp add: seen_as_def)
  then show ?thesis using step False wf by (auto simp: collect_empty_shell_def split: if_splits)
qed

lemma withdraw_progresses:
  assumes "db_wf db" "withdraw_lane now i n w db = Inr (db', y)"
  shows "progresses db db'"
proof -
  obtain d u where d: "upsert_lane now (ik_session_id (it_key i)) n (ik_target_language (it_key i)) None VarWaiting None w db = Inr (d, u)"
      "collect_empty_shell d u = Inr (db', y)"
    using assms(2) unfolding withdraw_lane_def by (elim and_then_InrE) auto
  have p: "progresses db d \<and> (\<exists>x\<in>set (db_utterances d). seen_as u x)" using upsert_lane_progresses [OF assms(1) d(1)] .
  then obtain x where "x \<in> set (db_utterances d)" "seen_as u x" by blast
  then have "progresses d db'" using collect_progresses [OF _ _ _ d(2)] p progresses_wf by blast
  then show ?thesis using p progresses_trans by blast
qed

section \<open>Languages that are adopted\<close>

lemma adopted_row:
  assumes wf: "row_wf d r" and src: "ut_source_language r = und" and a: "canon a"
    and free: "\<And>v. v \<in> set (ut_variants r) \<Longrightarrow> vr_role v = RoleTranslation \<Longrightarrow> vr_language v = a \<Longrightarrow> vr_state v \<noteq> VarReady"
    and w: "ut_id w = ut_id r" "ut_session_id w = ut_session_id r" "ut_sequence w = ut_sequence r" "ut_completion w = ut_completion r"
      "ut_source_text w = ut_source_text r" "ut_source_start_ms w = ut_source_start_ms r" "ut_source_end_ms w = ut_source_end_ms r"
      "ut_source_language w = a"
    and vs: "ut_variants w = map f (filter (\<lambda>v. \<not> (vr_role v = RoleTranslation \<and> vr_language v = a \<and> vr_state v \<noteq> VarReady)) (ut_variants r))"
    and other: "\<And>v. vr_role v = RoleTranslation \<Longrightarrow> f v = v"
    and source: "\<And>v. v \<in> set (ut_variants r) \<Longrightarrow> vr_role v = RoleSource \<Longrightarrow>
       vr_language (f v) = a \<and> vr_role (f v) = RoleSource \<and> vr_text (f v) = vr_text v \<and> vr_state (f v) = vr_state v \<and>
       vr_completion (f v) = vr_completion v \<and>
       (final_variant v \<longrightarrow> d < vr_projection_revision (f v) \<and> vr_projection_revision (f v) \<le> d + k)"
  shows "row_keeps r w" "row_wf (d + k) w" "lanes_fresh d r w"
proof -
  have lane: "lane_wf d r v" if "v \<in> set (ut_variants r)" for v using wf that by (simp add: row_wf_def)
  have role: "vr_role v = RoleSource \<or> vr_role v = RoleTranslation" for v by (cases "vr_role v") auto
  have und: "vr_language v = und" if "v \<in> set (ut_variants r)" "vr_role v = RoleSource" for v
    using lane [OF that(1)] that(2) src by (simp add: lane_wf_def)
  let ?keep = "\<lambda>v. \<not> (vr_role v = RoleTranslation \<and> vr_language v = a \<and> vr_state v \<noteq> VarReady)"
  have mem: "x \<in> set (ut_variants w) \<longleftrightarrow> (\<exists>v\<in>set (ut_variants r). ?keep v \<and> x = f v)" for x
    unfolding vs by auto
  have fin: "final_variant (f v) = final_variant v" if "v \<in> set (ut_variants r)" for v
    using source [OF that] other [of v] role [of v] by (auto simp: final_variant_def)
  have "\<exists>v'\<in>set (ut_variants w). later_lane v v'" if v: "v \<in> set (ut_variants r)" "final_variant v" for v
  proof -
    have "f v \<in> set (ut_variants w)" using mem v by (auto simp: final_variant_def)
    moreover have "later_lane v (f v)"
    proof (cases "vr_role v = RoleTranslation")
      case True
      then show ?thesis using other later_refl [OF lane [OF v(1)] v(2)] by simp
    next
      case False
      then have s: "vr_role v = RoleSource" using role by blast
      obtain t where "vr_text v = Some t" using wf_lane_text [OF lane [OF v(1)] v(2)] by blast
      then show ?thesis using source [OF v(1) s] fin [OF v(1)] v(2) s und [OF v(1) s] by (simp add: later_lane_def)
    qed
    ultimately show ?thesis by blast
  qed
  then show "row_keeps r w" using w src by (simp add: row_keeps_def)
  have inj: "inj_on (\<lambda>v. vr_language (f v)) {v \<in> set (ut_variants r). ?keep v}"
  proof (rule inj_onI)
    fix x y assume x: "x \<in> {v \<in> set (ut_variants r). ?keep v}" and y: "y \<in> {v \<in> set (ut_variants r). ?keep v}"
      and eq: "vr_language (f x) = vr_language (f y)"
    have key: "if vr_role v = RoleSource then vr_language (f v) = a \<and> vr_language v = und else vr_language (f v) = vr_language v \<and> vr_language v \<noteq> a"
      if "v \<in> {v \<in> set (ut_variants r). ?keep v}" for v
      using that source [of v] und [of v] other [of v] free [of v] role [of v] by auto
    have "vr_language x = vr_language y" using key [OF x] key [OF y] eq by (auto split: if_splits)
    then show "x = y" using same_language [of "ut_variants r" x y] wf x y by (simp add: row_wf_def)
  qed
  have "distinct (ut_variants r)" using wf by (simp add: row_wf_def distinct_map)
  then have dis: "distinct (map vr_language (ut_variants w))"
    using inj unfolding vs by (simp add: distinct_map comp_def inj_on_def)
  have "lane_wf (d + k) w x" if x: "x \<in> set (ut_variants w)" for x
  proof -
    obtain v where v: "v \<in> set (ut_variants r)" "x = f v" using mem x by blast
    show ?thesis
    proof (cases "vr_role v = RoleTranslation")
      case True
      then show ?thesis using other lane [OF v(1)] v(2) by (auto simp: lane_wf_def)
    next
      case False
      then have s: "vr_role v = RoleSource" using role by blast
      show ?thesis using source [OF v(1) s] lane [OF v(1)] fin [OF v(1)] s w a unfolding v(2) by (auto simp: lane_wf_def)
    qed
  qed
  then show "row_wf (d + k) w" using dis w(8) a by (simp add: row_wf_def)
  show "lanes_fresh d r w"
    unfolding lanes_fresh_def
  proof (intro ballI impI)
    fix x assume x: "x \<in> set (ut_variants w)" "final_variant x"
    obtain v where v: "v \<in> set (ut_variants r)" "x = f v" using mem x by blast
    show "d < vr_projection_revision x \<or> (\<exists>u\<in>set (ut_variants r). same_lane u x)"
    proof (cases "vr_role v = RoleTranslation")
      case True
      then show ?thesis using other v x same_lane_refl by auto
    next
      case False
      then show ?thesis using source [OF v(1)] role [of v] fin [OF v(1)] v(2) x(2) by blast
    qed
  qed
qed

lemma stamp_source_swaps:
  assumes "swaps r w k db d"
  shows "swaps r (w\<lparr>ut_source_projection_revision := n, ut_variants := stamp_variants (\<lambda>v. vr_role v = RoleSource) n (ut_variants w)\<rparr>) k db
    (stamp_source (ut_id r) n d)"
  unfolding stamp_source_def by (rule swaps_update [OF assms]) simp

lemma source_completion:
  assumes "row_wf d r"
  shows "source_lane_is_complete (hydrate_utterance_variants r) \<or> (\<forall>v\<in>set (ut_variants r). vr_role v = RoleSource \<longrightarrow> \<not> final_variant v)"
proof (cases "source_variant (hydrate_utterance_variants r)")
  case None
  then have "\<forall>v\<in>set (ut_variants r). vr_role v \<noteq> RoleSource"
    unfolding source_variant_def find_None_iff by (metis set_hydrate)
  then show ?thesis by blast
next
  case (Some v)
  then have v: "v \<in> set (ut_variants r)" "vr_role v = RoleSource" unfolding source_variant_def by (auto dest!: find_SomeD)
  have wf: "lane_wf d r x" if "x \<in> set (ut_variants r)" for x using assms that by (simp add: row_wf_def)
  have "x = v" if "x \<in> set (ut_variants r)" "vr_role x = RoleSource" for x
    using same_language [of "ut_variants r" x v] wf [OF that(1)] wf [OF v(1)] that v assms by (simp add: row_wf_def lane_wf_def)
  moreover have "final_variant v \<longrightarrow> source_lane_is_complete (hydrate_utterance_variants r)"
    using Some wf_lane_text [OF wf [OF v(1)]] by (auto simp: source_lane_is_complete_def final_variant_def)
  ultimately show ?thesis by blast
qed

lemma adopt_progresses:
  assumes wf: "db_wf db" and r: "r \<in> set (db_utterances db)"
    and step: "adopt_source_language now i (hydrate_utterance_variants r) db = Inr (db', u')"
  shows "progresses db db' \<and> (\<exists>x\<in>set (db_utterances db'). seen_as u' x)"
proof (cases "adopts i (hydrate_utterance_variants r)")
  case False
  then have "db' = db" "u' = hydrate_utterance_variants r" using step by (simp_all add: adopt_source_language_def)
  then show ?thesis using wf r hydrate_seen_as [OF db_wf_row [OF wf r]] by auto
next
  case True
  define a where "a = canonical_language (it_source_language i)"
  let ?h = "hydrate_utterance_variants r" and ?d = "desired_of (ut_session_id r) db"
  define w1 where "w1 = r\<lparr>ut_variants := rename_source now a (ut_variants r), ut_source_language := a, ut_updated_at := now\<rparr>"
  define d1 where "d1 = update_utterances (\<lambda>x. ut_id x = ut_id r)
      (\<lambda>x. x\<lparr>ut_variants := rename_source now a (ut_variants x), ut_source_language := a, ut_updated_at := now\<rparr>) db"
  define ren where "ren = (\<exists>v\<in>set (ut_variants r). vr_role v = RoleSource \<and> sql_language (vr_language v) = und)"
  have sw1: "swaps r w1 0 db d1"
    unfolding w1_def d1_def by (rule swaps_update [OF swaps_start [OF wf r]]) simp
  have "and_then (if \<not> ren then Inr d1
               else if source_lane_is_complete ?h then
                 and_then (bump_desired_revision (ut_session_id r) d1) (\<lambda>(db, n). Inr (stamp_source (ut_id r) n db))
               else Inr (stamp_source (ut_id r) 0 d1)) (visible_by_id (ut_id r)) = Inr (db', u')"
    using step unfolding adopt_source_language_def d1_def a_def ren_def
    by (simp only: True Let_def hydrate_simps set_hydrate not_True_eq_False if_False)
  then obtain d2 where d2: "(if \<not> ren then Inr d1
               else if source_lane_is_complete ?h then
                 and_then (bump_desired_revision (ut_session_id r) d1) (\<lambda>(db, n). Inr (stamp_source (ut_id r) n db))
               else Inr (stamp_source (ut_id r) 0 d1)) = Inr d2" and vis: "visible_by_id (ut_id r) d2 = Inr (db', u')"
    by (elim and_then_InrE)
  note rw = db_wf_row [OF wf r]
  have lane: "lane_wf ?d r v" if "v \<in> set (ut_variants r)" for v using rw that by (simp add: row_wf_def)
  have cr: "canon (ut_source_language r)" using rw by (simp add: row_wf_def)
  have src: "ut_source_language r = und" using True cr by (simp add: adopts_def canon_def)
  have ca: "canon a" "a \<noteq> und" using True by (simp_all add: a_def adopts_def)
  have cl: "sql_language (vr_language v) = vr_language v" "canonical_language (vr_language v) = vr_language v"
    if "v \<in> set (ut_variants r)" for v
    using lane [OF that] by (auto simp: lane_wf_def canon_def)
  have und: "vr_language v = und" if "v \<in> set (ut_variants r)" "vr_role v = RoleSource" for v
    using lane [OF that(1)] that(2) src by (simp add: lane_wf_def)
  have free: "vr_state v \<noteq> VarReady" if "v \<in> set (ut_variants r)" "vr_role v = RoleTranslation" "vr_language v = a" for v
    using True that cl by (auto simp: adopts_def a_def [symmetric])
  let ?keep = "\<lambda>v. \<not> (vr_role v = RoleTranslation \<and> vr_language v = a \<and> vr_state v \<noteq> VarReady)"
  let ?ren = "\<lambda>v. if vr_role v = RoleSource \<and> sql_language (vr_language v) = und
              then v\<lparr>vr_language := a, vr_revision := vr_revision v + 1, vr_updated_at := now\<rparr> else v"
  have vs: "rename_source now a (ut_variants r) = map ?ren (filter ?keep (ut_variants r))"
  proof -
    have "filter (\<lambda>v. \<not> (vr_role v = RoleTranslation \<and> sql_language (vr_language v) = a \<and> vr_state v \<noteq> VarReady)) (ut_variants r) =
        filter ?keep (ut_variants r)"
      using cl by (intro filter_cong refl) auto
    then show ?thesis by (simp add: rename_source_def)
  qed
  have w1v: "ut_variants w1 = map ?ren (filter ?keep (ut_variants r))" unfolding w1_def vs [symmetric] by simp
  have plain: "progresses db d2" if "swaps r w 0 db d2" and w: "ut_variants w = map f (filter ?keep (ut_variants r))"
      "same_source (r\<lparr>ut_source_language := a\<rparr>) w" and f: "\<And>v. vr_role v = RoleTranslation \<Longrightarrow> f v = v"
      "\<And>v. v \<in> set (ut_variants r) \<Longrightarrow> vr_role v = RoleSource \<Longrightarrow> \<not> final_variant v \<and>
        vr_language (f v) = a \<and> vr_role (f v) = RoleSource \<and> vr_text (f v) = vr_text v \<and> vr_state (f v) = vr_state v \<and>
        vr_completion (f v) = vr_completion v" for w f
  proof -
    have k: "ut_id w = ut_id r" "ut_session_id w = ut_session_id r" "ut_sequence w = ut_sequence r" "ut_completion w = ut_completion r"
        "ut_source_text w = ut_source_text r" "ut_source_start_ms w = ut_source_start_ms r" "ut_source_end_ms w = ut_source_end_ms r"
        "ut_source_language w = a"
      using w(2) by (simp_all add: same_source_def)
    have g: "vr_language (f v) = a \<and> vr_role (f v) = RoleSource \<and> vr_text (f v) = vr_text v \<and> vr_state (f v) = vr_state v \<and>
       vr_completion (f v) = vr_completion v \<and>
       (final_variant v \<longrightarrow> ?d < vr_projection_revision (f v) \<and> vr_projection_revision (f v) \<le> ?d + 0)"
      if "v \<in> set (ut_variants r)" "vr_role v = RoleSource" for v
      using f(2) [OF that] by simp
    note row = adopted_row [OF rw src ca(1) free k w(1) f(1) g]
    have "row_keeps r w" "row_wf (?d + 0) w" "lanes_fresh ?d r w" by (rule row; assumption)+
    then show ?thesis using swaps_progresses(1) [OF wf that(1)] by simp
  qed
  have "progresses db d2"
  proof (cases ren)
    case False
    then have "d2 = d1" using d2 by simp
    moreover have "\<not> (v \<in> set (ut_variants r) \<and> vr_role v = RoleSource)" for v using False und cl unfolding ren_def by auto
    ultimately show ?thesis
      using plain [of w1 ?ren] sw1 vs by (simp add: w1_def same_source_def)
  next
    case ren: True
    show ?thesis
    proof (cases "source_lane_is_complete ?h")
      case False
      then have e: "d2 = stamp_source (ut_id r) 0 d1" using d2 ren by simp
      have nf: "\<not> final_variant v" if "v \<in> set (ut_variants r)" "vr_role v = RoleSource" for v
        using source_completion [OF rw] False that by blast
      let ?f = "\<lambda>v. if vr_role (?ren v) = RoleSource then (?ren v)\<lparr>vr_projection_revision := 0\<rparr> else ?ren v"
      have wv: "stamp_variants (\<lambda>v. vr_role v = RoleSource) 0 (ut_variants w1) = map ?f (filter ?keep (ut_variants r))"
        by (simp only: w1v stamp_variants_def map_map comp_def)
      let ?w = "w1\<lparr>ut_source_projection_revision := 0, ut_variants := stamp_variants (\<lambda>v. vr_role v = RoleSource) 0 (ut_variants w1)\<rparr>"
      have sw: "swaps r ?w 0 db d2" unfolding e by (rule stamp_source_swaps [OF sw1])
      have ss: "same_source (r\<lparr>ut_source_language := a\<rparr>) ?w" by (simp add: w1_def same_source_def)
      have wv': "ut_variants ?w = map ?f (filter ?keep (ut_variants r))" using wv by simp
      show ?thesis by (rule plain [OF sw wv' ss]) (use nf und cl canonD(2) [OF canon_und] in simp_all)
    next
      case True
      then obtain d3 n where b: "bump_desired_revision (ut_session_id r) d1 = Inr (d3, n)" and e: "d2 = stamp_source (ut_id r) n d3"
        using d2 ren by (auto elim!: and_then_InrE)
      note bb = swaps_bump [OF wf sw1 b]
      let ?f = "\<lambda>v. if vr_role (?ren v) = RoleSource then (?ren v)\<lparr>vr_projection_revision := n\<rparr> else ?ren v"
      have wv: "stamp_variants (\<lambda>v. vr_role v = RoleSource) n (ut_variants w1) = map ?f (filter ?keep (ut_variants r))"
        by (simp only: w1v stamp_variants_def map_map comp_def)
      let ?w = "w1\<lparr>ut_source_projection_revision := n, ut_variants := stamp_variants (\<lambda>v. vr_role v = RoleSource) n (ut_variants w1)\<rparr>"
      have wv': "ut_variants ?w = map ?f (filter ?keep (ut_variants r))" using wv by simp
      have k: "ut_id ?w = ut_id r" "ut_session_id ?w = ut_session_id r" "ut_sequence ?w = ut_sequence r"
        "ut_completion ?w = ut_completion r" "ut_source_text ?w = ut_source_text r" "ut_source_start_ms ?w = ut_source_start_ms r"
        "ut_source_end_ms ?w = ut_source_end_ms r" "ut_source_language ?w = a"
        by (simp_all add: w1_def)
      have o: "?f v = v" if "vr_role v = RoleTranslation" for v using that by simp
      have g: "vr_language (?f v) = a \<and> vr_role (?f v) = RoleSource \<and> vr_text (?f v) = vr_text v \<and> vr_state (?f v) = vr_state v \<and>
          vr_completion (?f v) = vr_completion v \<and>
          (final_variant v \<longrightarrow> ?d < vr_projection_revision (?f v) \<and> vr_projection_revision (?f v) \<le> ?d + Suc 0)"
        if "v \<in> set (ut_variants r)" "vr_role v = RoleSource" for v
        using that und [OF that] canonD(2) [OF canon_und] bb(1) by simp
      note row = adopted_row [OF rw src ca(1) free k wv' o g]
      have "row_keeps r ?w" "row_wf (?d + Suc 0) ?w" "lanes_fresh ?d r ?w" by (rule row; assumption)+
      then show ?thesis using swaps_progresses(1) [OF wf stamp_source_swaps [OF bb(2)]] e by simp
    qed
  qed
  then show ?thesis using vis by (rule seen_after)
qed

end
