(* ===== verification/Capture_Inbox_Laws.thy ===== *)
theory Capture_Inbox_Laws
  imports Capture_Lane_Laws
begin

text \<open>
  What the facts of the translation inbox do to the rows: the claim of a lane, the application of a
  bound fact, binding, detaching and reconciliation. All of them progress from a well formed state.
\<close>

lemma claim_progresses:
  assumes wf: "db_wf db" and r: "r \<in> set (db_utterances db)" and seen: "seen_as u r"
    and step: "claim_lane now u i composed db = Inr (db', u')"
  shows "progresses db db' \<and> (\<exists>x\<in>set (db_utterances db'). seen_as u' x)"
proof -
  define l where "l = canonical_language (ik_target_language (it_key i))"
  let ?d = "desired_of (ut_session_id r) db"
  have id: "ut_id u = ut_id r" "ut_session_id u = ut_session_id r" using seen by (simp_all add: seen_as_def)
  have cl: "canon l" by (simp add: l_def)
  note rw = db_wf_row [OF wf r]
  have vo: "variants_of (ut_id r) db = ut_variants r" by (rule swaps_variants [OF swaps_start [OF wf r]])
  obtain body where body: "(if length (filter (claimable_source l) (ut_variants r)) \<noteq> 1 then
          Inl (StConflict (lit ''provisional source owner '' @ row_name (ut_session_id u) (ut_sequence u) @ lit '':'' @ l @
            lit '' changed before auxiliary Final''))
        else
          (let db = update_utterances (\<lambda>x. ut_id x = ut_id r)
                 (\<lambda>x. x\<lparr>ut_variants :=
                        map (\<lambda>v. if claimable_source l v
                                 then v\<lparr>vr_role := RoleTranslation, vr_text := Some body, vr_state := VarReady,
                                        vr_completion := Some CompleteFact, vr_revision := vr_revision v + 1,
                                        vr_projection_revision := 0, vr_updated_at := now\<rparr>
                                 else v) (ut_variants x),
                        ut_translated_language := Some l, ut_translated_text := Some body, ut_alignment := Paired,
                        ut_source_projection_revision := 0, ut_updated_at := now\<rparr>) db
           in and_then (bump_desired_revision (ut_session_id r) db) (\<lambda>(db, n).
                visible_by_id (ut_id r)
                  (update_variants (ut_id r)
                     (stamp_variants (\<lambda>v. vr_role v = RoleTranslation \<and> sql_language (vr_language v) = l \<and>
                                          vr_completion v = Some CompleteFact) n) db)))) = Inr (db', u')"
    using step unfolding claim_lane_def Let_def l_def [symmetric] id vo by (elim and_then_InrE) blast
  let ?c = "\<lambda>v. if claimable_source l v
       then v\<lparr>vr_role := RoleTranslation, vr_text := Some body, vr_state := VarReady, vr_completion := Some CompleteFact,
              vr_revision := vr_revision v + 1, vr_projection_revision := 0, vr_updated_at := now\<rparr>
       else v"
  define w1 where "w1 = r\<lparr>ut_variants := map ?c (ut_variants r), ut_translated_language := Some l,
       ut_translated_text := Some body, ut_alignment := Paired, ut_source_projection_revision := 0, ut_updated_at := now\<rparr>"
  define d1 where "d1 = update_utterances (\<lambda>x. ut_id x = ut_id r)
       (\<lambda>x. x\<lparr>ut_variants := map ?c (ut_variants x), ut_translated_language := Some l, ut_translated_text := Some body,
              ut_alignment := Paired, ut_source_projection_revision := 0, ut_updated_at := now\<rparr>) db"
  have sw1: "swaps r w1 0 db d1"
    unfolding w1_def d1_def by (rule swaps_update [OF swaps_start [OF wf r]]) simp
  have one: "length (filter (claimable_source l) (ut_variants r)) = 1" using body by (simp split: if_splits)
  have "and_then (bump_desired_revision (ut_session_id r) d1) (\<lambda>(db, n).
                visible_by_id (ut_id r)
                  (update_variants (ut_id r)
                     (stamp_variants (\<lambda>v. vr_role v = RoleTranslation \<and> sql_language (vr_language v) = l \<and>
                                          vr_completion v = Some CompleteFact) n) db)) = Inr (db', u')"
    using body unfolding one Let_def d1_def by simp
  then obtain d2 n where b: "bump_desired_revision (ut_session_id r) d1 = Inr (d2, n)" and vis: "visible_by_id (ut_id r)
                  (update_variants (ut_id r)
                     (stamp_variants (\<lambda>v. vr_role v = RoleTranslation \<and> sql_language (vr_language v) = l \<and>
                                          vr_completion v = Some CompleteFact) n) d2) = Inr (db', u')"
    by (elim and_then_InrE) auto
  note bb = swaps_bump [OF wf sw1 b]
  let ?g = "\<lambda>v. if vr_role v = RoleTranslation \<and> sql_language (vr_language v) = l \<and> vr_completion v = Some CompleteFact
                then v\<lparr>vr_projection_revision := n\<rparr> else v"
  let ?w = "w1\<lparr>ut_variants := map ?g (ut_variants w1)\<rparr>"
  have sw: "swaps r ?w (Suc 0) db (update_variants (ut_id r)
      (stamp_variants (\<lambda>v. vr_role v = RoleTranslation \<and> sql_language (vr_language v) = l \<and> vr_completion v = Some CompleteFact) n) d2)"
    using swaps_variants_update [OF bb(2)] unfolding stamp_variants_def by blast
  have cn: "sql_language (vr_language v) = vr_language v" if "v \<in> set (ut_variants r)" for v
    using rw that by (auto simp: row_wf_def lane_wf_def canon_def)
  obtain v where v: "v \<in> set (ut_variants r)" "claimable_source l v"
  proof -
    obtain y where "filter (claimable_source l) (ut_variants r) = [y]" using one by (auto simp: length_Suc_conv)
    then have "y \<in> set (filter (claimable_source l) (ut_variants r))" by simp
    then show ?thesis by (intro that [of y]) simp_all
  qed
  have lv: "vr_language v = l" using v cn by (auto simp: claimable_source_def)
  have dv: "distinct (map vr_language (ut_variants r))" using rw by (simp add: row_wf_def)
  have "exchanged l (?c v) (ut_variants r) (map ?c (ut_variants r))"
    using exchanged_map [OF exchanged_refl [OF dv v(1)], of ?c] cn lv by (simp add: claimable_source_def)
  moreover have "ut_variants w1 = map ?c (ut_variants r)" by (simp add: w1_def)
  ultimately have ex1: "exchanged l (?c v) (ut_variants r) (ut_variants w1)" by simp
  have stay: "?g x = x" if x: "x \<in> set (ut_variants w1)" "vr_language x \<noteq> l" for x
  proof -
    have "x \<in> set (ut_variants r)" using ex1 x by (simp add: exchanged_def)
    then show ?thesis using cn x(2) by simp
  qed
  have "exchanged l (?g (?c v)) (ut_variants r) (map ?g (ut_variants w1))"
    by (rule exchanged_map [OF ex1]) (simp_all add: stay)
  then have ex: "exchanged l (?g (?c v)) (ut_variants r) (ut_variants ?w)" by simp
  have gc: "?g (?c v) = v\<lparr>vr_role := RoleTranslation, vr_text := Some body, vr_state := VarReady, vr_completion := Some CompleteFact,
              vr_revision := vr_revision v + 1, vr_projection_revision := ?d + 1, vr_updated_at := now\<rparr>"
    using v(2) lv canonD(2) [OF cl] bb(1) by simp
  have ss: "same_source r ?w" by (simp add: same_source_def w1_def)
  have lw: "lane_wf (?d + Suc 0) ?w (?g (?c v))" unfolding gc using lv cl by (simp add: lane_wf_def)
  have keep: "later_lane y (?g (?c v))" if "y \<in> set (ut_variants r)" "vr_language y = l" "final_variant y" for y
  proof -
    have "y = v" using same_language [OF dv that(1) v(1)] that(2) lv by simp
    then show ?thesis using that(3) v(2) by (simp add: claimable_source_def final_variant_def)
  qed
  have fresh: "?d < vr_projection_revision (?g (?c v))" unfolding gc by simp
  note row = lane_exchange [OF rw ex ss lw keep fresh]
  have "row_keeps r ?w" "row_wf (?d + Suc 0) ?w" "lanes_fresh ?d r ?w" by (rule row; assumption)+
  then have "progresses db (update_variants (ut_id r)
      (stamp_variants (\<lambda>v. vr_role v = RoleTranslation \<and> sql_language (vr_language v) = l \<and> vr_completion v = Some CompleteFact) n) d2)"
    using swaps_progresses(1) [OF wf sw] by simp
  then show ?thesis using vis by (rule seen_after)
qed

section \<open>Applying a bound fact\<close>

lemma withdrawal_progresses:
  assumes wf: "db_wf db" and r: "r \<in> set (db_utterances db)" and seen: "seen_as u r"
    and step: "apply_withdrawal now i n u db = Inr (db', y)"
  shows "progresses db db'"
proof -
  have direct: "progresses db db'" if "withdraw_lane now i n FinalIsImmutable db = Inr (db', y)"
    using withdraw_progresses [OF wf that] .
  have waiting: "progresses db db'" if w: "and_then (apply_utterance_overrides db u) (collect_empty_shell db) = Inr (db', y)"
  proof -
    obtain v where "apply_utterance_overrides db u = Inr v" "collect_empty_shell db v = Inr (db', y)"
      using w by (elim and_then_InrE)
    then show ?thesis using collect_progresses [OF wf r] overlay_seen seen by blast
  qed
  show ?thesis using step direct waiting unfolding apply_withdrawal_def by (auto split: option.splits if_splits)
qed

lemma some_result_progresses:
  assumes "some_result x = Inr (db', y)" "\<And>u. x = Inr (db', u) \<Longrightarrow> P"
  shows P
  using assms unfolding some_result_def by (elim and_then_InrE) auto

lemma place_progresses:
  assumes wf: "db_wf db" and x: "x \<in> set (db_utterances db)" "seen_as u x" and step: "place_fact now i n u db mutable = Inr (db', y)"
  shows "progresses db db'"
proof -
  have a: "progresses db db'" if "apply_withdrawal now i n u db = Inr (db', y)" using withdrawal_progresses [OF wf x that] .
  have b: "progresses db db'" if "some_result (claim_lane now u i c db) = Inr (db', y)" for c
    by (rule some_result_progresses [OF that]) (use claim_progresses [OF wf x] in blast)
  have c: "progresses db db'" if "some_result (upsert_lane now s m l t st c w db) = Inr (db', y)" for s m l t st c w
    by (rule some_result_progresses [OF that]) (use upsert_lane_progresses [OF wf] in blast)
  have e: "progresses db db" using wf by simp
  show ?thesis using step a b c e unfolding place_fact_def Let_def by (auto split: if_splits prod.splits option.splits)
qed

lemma apply_item_progresses:
  assumes wf: "db_wf db" and step: "apply_inbox_item now i n db = Inr (db', y)"
  shows "progresses db db'"
proof -
  obtain u0 where u0: "require_by_sequence (ik_session_id (it_key i)) n db = Inr u0"
    and r1: "and_then (adopt_source_language now i u0 db) (\<lambda>(db, u).
       and_then (source_is_mutable i u db) (place_fact now i n u db)) = Inr (db', y)"
    using step unfolding apply_inbox_item_def by (rule and_then_InrE)
  obtain r where r: "r \<in> set (db_utterances db)" "u0 = hydrate_utterance_variants r" using u0 by (rule require_by_sequence_row)
  obtain d u where ad: "adopt_source_language now i u0 db = Inr (d, u)"
    and r2: "and_then (source_is_mutable i u d) (place_fact now i n u d) = Inr (db', y)"
    using r1 by (elim and_then_InrE) auto
  have p: "progresses db d \<and> (\<exists>x\<in>set (db_utterances d). seen_as u x)"
    using adopt_progresses [OF wf r(1)] ad r(2) by blast
  then obtain x where x: "x \<in> set (db_utterances d)" "seen_as u x" by blast
  obtain mutable where "place_fact now i n u d mutable = Inr (db', y)" using r2 by (rule and_then_InrE)
  then have "progresses d db'" using place_progresses [OF progresses_wf x] p by blast
  then show ?thesis using p progresses_trans by blast
qed

lemma apply_items_progresses:
  assumes "db_wf db" "apply_items now i n xs db = Inr (db', there)"
  shows "progresses db db'"
  using assms
proof (induction xs arbitrary: db)
  case (Cons x xs)
  obtain d y where d: "apply_inbox_item now x n db = Inr (d, y)"
    "(if machine_utterance_by_id i d = None then Inr (d, False) else apply_items now i n xs d) = Inr (db', there)"
    using Cons.prems(2) by (cases "apply_inbox_item now x n db") auto
  have p: "progresses db d" by (rule apply_item_progresses [OF Cons.prems(1) d(1)])
  then have "progresses d db'"
    using d(2) Cons.IH [OF progresses_wf [OF p]] progresses_wf [OF p] by (auto split: if_splits)
  then show ?case using p progresses_trans by blast
qed simp

lemma apply_bound_progresses:
  assumes "db_wf db" "apply_bound_items now s i n db = Inr (db', there)"
  shows "progresses db db'"
  using assms apply_items_progresses unfolding apply_bound_items_def Let_def by blast

section \<open>Bindings\<close>

lemma inbox_frame:
  "progresses (update_inbox p f db) c \<longleftrightarrow> progresses db c" "db_wf (update_inbox p f db) \<longleftrightarrow> db_wf db"
  "progresses a (update_inbox p f db) \<longleftrightarrow> progresses a db"
  by (rule progresses_frame; simp add: update_inbox_def)+

lemma detach_progresses:
  assumes wf: "db_wf db" and step: "detach_item now i db = Inr (db', y)"
  shows "progresses db db'"
proof -
  obtain n row where "(if length (filter (\<lambda>x. same_key (it_key i) x \<and> bound_to row n x) (db_inbox db)) \<noteq> 1 then
         Inl (StConflict (lit ''translation inbox binding changed while revalidating identity''))
       else
         (let db = update_inbox (\<lambda>x. same_key (it_key i) x \<and> bound_to row n x) unbind db;
              target = canonical_language (ik_target_language (it_key i))
          in case machine_utterance_by_id row db of
               None \<Rightarrow> Inr (db, None)
             | Some u \<Rightarrow>
                 if target_is_source u target then Inr (db, Some u)
                 else
                   (case find (\<lambda>x. \<not> it_withdrawn x \<and> bound_to row n x \<and>
                                   canonical_language (ik_target_language (it_key x)) = target)
                           (list_translation_inbox (ik_session_id (it_key i)) db) of
                      Some x \<Rightarrow> apply_inbox_item now x n db
                    | None \<Rightarrow> withdraw_lane now i n DetachDerivedBinding db))) = Inr (db', y)"
    using step unfolding detach_item_def by (elim and_then_InrE)
  moreover define d where "d = update_inbox (\<lambda>x. same_key (it_key i) x \<and> bound_to row n x) unbind db"
  ultimately have "db' = d \<or> (\<exists>x. apply_inbox_item now x n d = Inr (db', y)) \<or> withdraw_lane now i n DetachDerivedBinding d = Inr (db', y)"
    unfolding Let_def by (auto split: if_splits option.splits)
  moreover have wd: "db_wf d" using wf by (simp add: d_def inbox_frame)
  ultimately have "progresses d db'" using apply_item_progresses withdraw_progresses progresses_refl by metis
  then show ?thesis by (simp add: d_def inbox_frame)
qed

lemma revalidate_progresses:
  assumes wf: "db_wf db" and step: "revalidate_bound_items now tbl s i n db = Inr db'"
  shows "progresses db db'"
proof -
  obtain u where "fold_ok (\<lambda>x db. and_then (detach_item now x db) (\<lambda>(db, _). Inr db))
         (filter (\<lambda>x. bound_to i n x \<and> \<not> inbox_matches_utterance tbl x u) (list_translation_inbox s db)) db = Inr db'"
    using step unfolding revalidate_bound_items_def by (rule and_then_InrE)
  then show ?thesis
  proof (rule rows.loop [OF _ wf, rotated])
    fix x a b
    assume "db_wf a" "and_then (detach_item now x a) (\<lambda>(db, _). Inr db) = Inr b"
    then show "progresses a b" using detach_progresses by (elim and_then_InrE) auto
  qed
qed

lemma bind_progresses:
  assumes wf: "db_wf db" and step: "bind_item now tbl k n db = Inr (db', y)"
  shows "progresses db db'"
proof -
  have e: "progresses db db" using wf by simp
  have a: "progresses (update_inbox p f db) db'" if "apply_inbox_item now i n (update_inbox p f db) = Inr (db', y)" for p f i
    using apply_item_progresses [OF _ that] wf inbox_frame(2) by blast
  show ?thesis
    using step e a unfolding bind_item_def Let_def
    by (elim and_then_InrE) (auto simp: inbox_frame elim!: and_then_InrE split: if_splits)
qed

lemma try_bind_progresses:
  assumes "db_wf db" "try_bind now tbl k n db = Inr (db', y)"
  shows "progresses db db'"
  using assms bind_progresses unfolding try_bind_def by (auto split: sum.splits store_error.splits)

lemma reconcile_progresses:
  assumes wf: "db_wf db" and step: "reconcile_inbox now tbl s db = Inr (db', bs)"
  shows "progresses db db'"
proof -
  have one: "progresses (fst a) (fst b)" if a: "db_wf (fst a)" and f: "reconcile_one now tbl us x a = Inr b" for us x a b
  proof (cases "unique_inbox_candidate tbl x us")
    case None
    then show ?thesis using a f by (cases a) (auto simp: reconcile_one_def)
  next
    case (Some n)
    then obtain d y where "try_bind now tbl (it_key x) n (fst a) = Inr (d, y)" "fst b = d"
      using f by (cases a) (auto simp: reconcile_one_def elim!: and_then_InrE)
    then show ?thesis using try_bind_progresses a by blast
  qed
  have "progresses (fst (db, [] :: inbox_binding list)) (fst (db', bs))"
    using step unfolding reconcile_inbox_def by (intro rows_with.loop [OF one]) (simp_all add: wf)
  then show ?thesis by simp
qed

end
