(* ===== verification/Capture_Write_Laws.thy ===== *)
theory Capture_Write_Laws
  imports Capture_Inbox_Laws
begin

text \<open>
  The public writes of a recording progress: facts of the inbox, the canonical source and its
  withdrawal, edits, receipts.
\<close>

section \<open>Facts of the inbox\<close>

lemma require_item_frame:
  assumes "and_then (require_item k d) f = Inr (db', p)" "\<And>i. f i = Inr (db', p) \<Longrightarrow> P"
  shows P
  using assms by (elim and_then_InrE) blast

lemma write_row_frame:
  assumes "write_inbox_row now n db = Inr d"
  shows "db_utterances d = db_utterances db" "db_runs d = db_runs db"
  using assms unfolding write_inbox_row_def Let_def
  by (auto simp: update_inbox_def elim!: and_then_InrE split: if_splits)

lemma revise_progresses:
  assumes wf: "db_wf db" and step: "revise_binding now tbl k p db = Inr (db', p')"
  shows "progresses db db'"
proof -
  have e: "progresses db db" using wf by simp
  show ?thesis
    using step e detach_progresses [OF wf] apply_item_progresses [OF wf] unfolding revise_binding_def Let_def
    by (auto simp: inbox_frame elim!: and_then_InrE split: option.splits if_splits)
qed

lemma bind_new_progresses:
  assumes wf: "db_wf db" and step: "bind_new_fact now tbl k p db = Inr (db', p')"
  shows "progresses db db'"
  using step progresses_refl [OF wf] try_bind_progresses [OF wf] unfolding bind_new_fact_def
  by (auto elim!: and_then_InrE split: option.splits if_splits)

lemma settle_progresses:
  assumes wf: "db_wf db" and step: "settle_fact now tbl k ch db = Inr (db', p')"
  shows "progresses db db'"
proof -
  obtain p d q where d: "(if ch then revise_binding now tbl k p db else Inr (db, p)) = Inr (d, q)"
      and b: "bind_new_fact now tbl k q d = Inr (db', p')"
    using step unfolding settle_fact_def Let_def by (elim and_then_InrE) (auto split: prod.splits)
  have p: "progresses db d" using d revise_progresses [OF wf] progresses_refl [OF wf] by (auto split: if_splits)
  then show ?thesis using bind_new_progresses [OF progresses_wf b] progresses_trans by blast
qed

lemma write_item_progresses:
  assumes wf: "db_wf db" and step: "write_inbox_item now tbl n db = Inr (db', p')"
  shows "progresses db db'"
proof -
  define ch where "ch = inbox_changed n (inbox_item_of (canonical_key (ni_key n)) db)"
  have "and_then (if ch then write_inbox_row now n db else Inr db) (settle_fact now tbl (canonical_key (ni_key n)) ch) = Inr (db', p')"
    using step unfolding write_inbox_item_def Let_def ch_def [symmetric] by (simp split: if_splits)
  then obtain d where d: "(if ch then write_inbox_row now n db else Inr db) = Inr d"
      and s: "settle_fact now tbl (canonical_key (ni_key n)) ch d = Inr (db', p')" by (rule and_then_InrE)
  have fr: "db_utterances d = db_utterances db" "db_runs d = db_runs db"
    using d write_row_frame [of now n db d] by (auto split: if_splits)
  then have "progresses d db'" using settle_progresses [OF _ s] wf progresses_frame(3) by blast
  then show ?thesis using progresses_frame(2) [OF fr] by blast
qed

text \<open>What every call promises: from a well formed state, a call that returns progresses.\<close>

definition progressive :: "(capture_db \<Rightarrow> store_error + capture_db \<times> 'a) \<Rightarrow> bool" where
  "progressive f \<longleftrightarrow> (\<forall>db db' y. db_wf db \<longrightarrow> f db = Inr (db', y) \<longrightarrow> progresses db db')"

lemma progressiveI: "(\<And>db db' y. db_wf db \<Longrightarrow> f db = Inr (db', y) \<Longrightarrow> progresses db db') \<Longrightarrow> progressive f"
  by (simp add: progressive_def)

lemma progressiveD: "progressive f \<Longrightarrow> db_wf db \<Longrightarrow> f db = Inr (db', y) \<Longrightarrow> progresses db db'"
  by (simp add: progressive_def)

lemma upsert_inbox_progressive: "progressive (upsert_translation_inbox_item now tbl n)"
  using write_item_progresses
  by (intro progressiveI) (auto simp: upsert_translation_inbox_item_def elim!: and_then_InrE)

lemma bind_inbox_progressive: "progressive (bind_translation_inbox_item now tbl k n)"
  using bind_progresses by (intro progressiveI) (auto simp: bind_translation_inbox_item_def elim!: and_then_InrE)

lemma bind_if_unique_progressive: "progressive (bind_translation_inbox_item_if_unique now tbl k)"
  using try_bind_progresses
  by (intro progressiveI)
     (auto simp: bind_translation_inbox_item_if_unique_def elim!: and_then_InrE split: if_splits option.splits)

lemma reconcile_progressive: "progressive (reconcile_active_translation_inbox now tbl s)"
  using reconcile_progresses by (intro progressiveI) (auto simp: reconcile_active_translation_inbox_def elim!: and_then_InrE)

lemma recovery_progressive: "progressive (reconcile_translation_inbox_after_recovery now tbl arrange s)"
proof (rule progressiveI)
  fix db db' y assume wf: "db_wf db" and step: "reconcile_translation_inbox_after_recovery now tbl arrange s db = Inr (db', y)"
  obtain d bs where d: "fold_ok (\<lambda>(i, n) db. and_then (apply_bound_items now s i n db) (\<lambda>(db, _). Inr db))
                 (arrange (bound_rows s db)) db = Inr d" and b: "reconcile_inbox now tbl s d = Inr (db', bs)"
    using step unfolding reconcile_translation_inbox_after_recovery_def by (auto elim!: and_then_InrE)
  have "progresses a b" if "db_wf a" "(case x of (i, n) \<Rightarrow> \<lambda>db. and_then (apply_bound_items now s i n db) (\<lambda>(db, _). Inr db)) a = Inr b"
    for x a b
    using that(2) apply_bound_progresses [OF that(1)] by (auto elim!: and_then_InrE split: prod.splits)
  then have p: "progresses db d" using rows.loop [OF _ wf d] by blast
  show "progresses db db'" using reconcile_progresses [OF progresses_wf [OF p] b] p progresses_trans by blast
qed

lemma upsert_variant_progressive: "progressive (upsert_translation_variant now s n l body st c)"
  using upsert_lane_progresses by (intro progressiveI) (auto simp: upsert_translation_variant_def elim!: and_then_InrE)

lemma unavailable_progressive: "progressive (mark_waiting_translation_variants_unavailable now s)"
proof (rule progressiveI)
  fix db db' y assume wf: "db_wf db" and step: "mark_waiting_translation_variants_unavailable now s db = Inr (db', y)"
  have one: "progresses (fst a) (fst b)" if "db_wf (fst a)" "(\<lambda>(n, l) (db, us).
           and_then (upsert_lane now s n l None VarUnavailable None FinalIsImmutable db) (\<lambda>(db, u).
             Inr (db, us @ [u]))) x a = Inr b" for x a b
    using that upsert_lane_progresses by (cases a, cases x) (auto elim!: and_then_InrE)
  have "fold_ok (\<lambda>(n, l) (db, us).
           and_then (upsert_lane now s n l None VarUnavailable None FinalIsImmutable db) (\<lambda>(db, u).
             Inr (db, us @ [u]))) (waiting_lanes s db) (db, []) = Inr (db', y)"
    using step unfolding mark_waiting_translation_variants_unavailable_def by (auto elim!: and_then_InrE)
  from rows_with.loop [OF one _ this] wf show "progresses db db'" by simp
qed

section \<open>Edits and receipts\<close>

lemma frame_progresses:
  assumes "db_wf db" "db_utterances db' = db_utterances db" "db_runs db' = db_runs db"
  shows "progresses db db'"
  using progresses_frame(1) [OF assms(2,3), of db] assms(1) by simp

lemma stage_progressive: "progressive (stage_utterance_variant_replacement fresh now i l target e)"
proof (rule progressiveI)
  fix db db' y assume wf: "db_wf db" and "stage_utterance_variant_replacement fresh now i l target e db = Inr (db', y)"
  then have "db_utterances db' = db_utterances db \<and> db_runs db' = db_runs db"
    unfolding stage_utterance_variant_replacement_def
    by (elim and_then_InrE) (auto simp: Let_def elim!: and_then_InrE split: if_splits option.splits)
  then show "progresses db db'" using frame_progresses [OF wf] by blast
qed

lemma stage_lane_progressive: "progressive (stage_utterance_lane_replacement fresh now i l target e)"
proof (rule progressiveI)
  fix db db' y assume wf: "db_wf db" and "stage_utterance_lane_replacement fresh now i l target e db = Inr (db', y)"
  then obtain k where "stage_utterance_variant_replacement fresh now i k target e db = Inr (db', y)"
    unfolding stage_utterance_lane_replacement_def by (elim and_then_InrE) blast
  then show "progresses db db'" by (rule progressiveD [OF stage_progressive wf])
qed

lemma cancel_progressive: "progressive (cancel_projection_mutation m)"
  by (intro progressiveI frame_progresses) (auto simp: cancel_projection_mutation_def drop_mutation_def elim!: and_then_InrE)

lemma commit_edit_progressive: "progressive (commit_projection_mutation m)"
proof (rule progressiveI)
  fix db db' y assume wf: "db_wf db" and "commit_projection_mutation m db = Inr (db', y)"
  then obtain x d i where d: "d = drop_mutation m (put_override x db)" and v: "visible_by_id i d = Inr (db', y)"
    unfolding commit_projection_mutation_def
    by (elim and_then_InrE) (auto simp: Let_def elim!: and_then_InrE split: if_splits)
  have "progresses db d" using wf d by (intro frame_progresses) (simp_all add: drop_mutation_def put_override_def)
  then show "progresses db db'" using seen_after v by blast
qed

lemma speaker_progressive: "progressive (ensure_session_speaker fresh s e p l)"
  by (intro progressiveI frame_progresses)
     (auto simp: ensure_session_speaker_def Let_def elim!: and_then_InrE split: if_splits option.splits)

lemma ack_progressive: "progressive (ack_realtime_loro_projection s n)"
proof (rule progressiveI)
  fix db db' y assume wf: "db_wf db" and step: "ack_realtime_loro_projection s n db = Inr (db', y)"
  have db': "db' = update_run s (\<lambda>r. r\<lparr>rn_applied_revision := max (rn_applied_revision r) n\<rparr>) db" and le: "n \<le> desired_of s db"
    using step unfolding ack_realtime_loro_projection_def
    by (auto simp: u64_to_i64_def realtime_loro_projection_def desired_of_def ok_or_def elim!: and_then_InrE split: if_splits option.splits)
  have us: "db_utterances db' = db_utterances db" by (simp add: db' update_run_def)
  have f: "run_of t db' = map_option (\<lambda>r. if t = s then r\<lparr>rn_applied_revision := max (rn_applied_revision r) n\<rparr> else r) (run_of t db)" for t
  proof -
    have "find (\<lambda>r. rn_session_id r = t) (map (\<lambda>r. if rn_session_id r = s then r\<lparr>rn_applied_revision := max (rn_applied_revision r) n\<rparr> else r) rs) =
        map_option (\<lambda>r. if t = s then r\<lparr>rn_applied_revision := max (rn_applied_revision r) n\<rparr> else r) (find (\<lambda>r. rn_session_id r = t) rs)" for rs
      by (induction rs) auto
    then show ?thesis by (simp add: db' run_of_def update_run_def)
  qed
  have d: "desired_of t db' = desired_of t db" for t by (simp add: desired_of_def f split: option.split)
  have a: "applied_of t db \<le> applied_of t db'" for t by (simp add: applied_of_def f split: option.split)
  have some: "(run_of t db' = None) = (run_of t db = None)" for t by (simp add: f)
  have ids: "map rn_session_id (db_runs db') = map rn_session_id (db_runs db)" by (auto simp: db' update_run_def)
  have "rn_applied_revision x \<le> rn_desired_revision x" if "x \<in> set (db_runs db')" for x
  proof -
    obtain r where r: "r \<in> set (db_runs db)" "x = (if rn_session_id r = s then r\<lparr>rn_applied_revision := max (rn_applied_revision r) n\<rparr> else r)"
      using \<open>x \<in> set (db_runs db')\<close> unfolding db' update_run_def by auto
    have "distinct (map rn_session_id (db_runs db))" "rn_applied_revision r \<le> rn_desired_revision r"
      using wf r(1) unfolding db_wf_def by blast+
    moreover have "find (\<lambda>q. rn_session_id q = rn_session_id r) rs = Some r"
      if "distinct (map rn_session_id rs)" "r \<in> set rs" for rs
      using that by (induction rs) auto
    ultimately have "rn_session_id r = s \<longrightarrow> n \<le> rn_desired_revision r"
      using le r(1) by (auto simp: desired_of_def run_of_def)
    then show ?thesis using r \<open>rn_applied_revision r \<le> rn_desired_revision r\<close> by simp
  qed
  then have "db_wf db'" using wf unfolding db_wf_def us ids d some by blast
  moreover have "advances db db'" using progresses_refl [OF wf] a d unfolding progresses_def advances_def us by simp
  ultimately show "progresses db db'" by (simp add: progresses_def)
qed

end
