(* ===== verification/Capture_Source_Laws.thy ===== *)
theory Capture_Source_Laws
  imports Capture_Write_Laws
begin

text \<open>
  The canonical source: a new row, a revision of a provisional row, and the withdrawal of one.
\<close>

lemma same_place_row:
  assumes "db_wf db" "u \<in> set (db_utterances db)" "w \<in> set (db_utterances db)" "row_at s n u" "row_at s n w"
  shows "u = w"
proof -
  have "distinct (map (\<lambda>u. (ut_session_id u, ut_sequence u)) (db_utterances db))" using assms(1) unfolding db_wf_def by (elim conjE)
  then have "inj_on (\<lambda>u. (ut_session_id u, ut_sequence u)) (set (db_utterances db))" by (simp only: distinct_map)
  then show ?thesis using assms(2-5) by (auto simp: row_at_def dest: inj_onD)
qed

lemma net_insert:
  assumes wf: "db_wf db" and us: "db_utterances db' = db_utterances db @ [w]" and rs: "db_runs db' = db_runs db"
    and run: "run_of (ut_session_id w) db \<noteq> None" and ok: "row_wf (desired_of (ut_session_id w) db) w"
    and none: "ut_variants w = []"
    and new: "\<And>u. u \<in> set (db_utterances db) \<Longrightarrow> ut_id u \<noteq> ut_id w \<and> \<not> row_at (ut_session_id w) (ut_sequence w) u"
  shows "progresses db db'"
proof -
  have run': "run_of s db' = run_of s db" for s by (simp add: run_of_def rs)
  have rev: "desired_of s db' = desired_of s db" "applied_of s db' = applied_of s db" for s
    by (simp_all add: desired_of_def applied_of_def run')
  have a: "distinct (map ut_id (db_utterances db'))"
  proof -
    have "distinct (map ut_id (db_utterances db))" using wf unfolding db_wf_def by (elim conjE)
    moreover have "ut_id w \<notin> ut_id ` set (db_utterances db)"
    proof
      assume "ut_id w \<in> ut_id ` set (db_utterances db)"
      then obtain u where "u \<in> set (db_utterances db)" "ut_id w = ut_id u" by blast
      then show False using new [of u] by simp
    qed
    ultimately show ?thesis unfolding us by simp
  qed
  have b: "distinct (map (\<lambda>u. (ut_session_id u, ut_sequence u)) (db_utterances db'))"
  proof -
    have "distinct (map (\<lambda>u. (ut_session_id u, ut_sequence u)) (db_utterances db))" using wf unfolding db_wf_def by (elim conjE)
    moreover have "(ut_session_id w, ut_sequence w) \<notin> (\<lambda>u. (ut_session_id u, ut_sequence u)) ` set (db_utterances db)"
    proof
      assume "(ut_session_id w, ut_sequence w) \<in> (\<lambda>u. (ut_session_id u, ut_sequence u)) ` set (db_utterances db)"
      then obtain u where "u \<in> set (db_utterances db)" "ut_session_id w = ut_session_id u" "ut_sequence w = ut_sequence u" by blast
      then show False using new [of u] by (simp add: row_at_def)
    qed
    ultimately show ?thesis unfolding us by simp
  qed
  have wf': "db_wf db'"
    using wf a b run ok unfolding db_wf_def rs run' rev by (auto simp: us)
  have keep: "\<exists>w\<in>set (db_utterances db'). row_keeps u w" if "u \<in> set (db_utterances db)" for u
    using row_keeps_refl [OF db_wf_row [OF wf that]] that us by auto
  have "\<exists>u\<in>set (db_utterances db). ut_id u = ut_id x \<and> ut_session_id u = ut_session_id x \<and> (\<exists>v\<in>set (ut_variants u). same_lane v v')"
    if "x \<in> set (db_utterances db')" "v' \<in> set (ut_variants x)" "final_variant v'" for x v'
    using that none us same_lane_refl by auto
  then show ?thesis using wf' keep rev unfolding progresses_def advances_def by simp
qed

lemma swaps_hit:
  assumes "swaps r w k db d" "ut_id (g w) = ut_id w" "\<And>u. u \<in> set (db_utterances d) \<Longrightarrow> hit u \<longleftrightarrow> ut_id u = ut_id r"
  shows "swaps r (g w) k db (update_utterances hit g d)"
proof -
  have "update_utterances hit g d = update_utterances (\<lambda>u. ut_id u = ut_id r) g d"
    using assms(3) by (simp add: update_utterances_def)
  then show ?thesis using swaps_update [OF assms(1), of g] assms(2) by simp
qed

section \<open>The lane of the source\<close>

definition final_lanes_allow :: "source_write \<Rightarrow> utterance \<Rightarrow> bool" where
  "final_lanes_allow w r \<longleftrightarrow>
     (\<forall>v\<in>set (ut_variants r). final_variant v \<longrightarrow> vr_role v = RoleTranslation \<and> (vr_language v = sw_language w \<longrightarrow> sw_coalesces w))"

lemma source_lane_row_facts:
  assumes wf: "row_wf d r" and allow: "final_lanes_allow w r" and cw: "canon (sw_language w)"
    and x: "ut_id x = ut_id r" "ut_session_id x = ut_session_id r" "ut_sequence x = ut_sequence r" "ut_variants x = ut_variants r"
      "ut_source_language x = sw_language w" "ut_source_text x = nu_source_text n" "ut_completion x = nu_completion n"
    and fixed: "ut_completion r = CompleteFact \<Longrightarrow> x = r"
    and z: "z = write_source_lane now n w x \<and> \<not> (nu_completion n = CompleteFact \<and> \<not> sw_coalesces w) \<and> k = 0 \<or>
        z = (write_source_lane now n w x)\<lparr>ut_source_projection_revision := d + 1,
               ut_variants := stamp_variants (\<lambda>v. vr_role v = RoleSource) (d + 1) (ut_variants (write_source_lane now n w x))\<rparr> \<and>
        \<not> sw_coalesces w \<and> k = 1"
  shows "row_keeps r z" "row_wf (d + k) z" "lanes_fresh d r z"
proof -
  have lane: "lane_wf d r v" if "v \<in> set (ut_variants r)" for v using wf that by (simp add: row_wf_def)
  have cn: "sql_language (vr_language v) = vr_language v" if "v \<in> set (ut_variants r)" for v
    using lane [OF that] by (simp add: lane_wf_def canon_def)
  have role: "vr_role v = RoleSource \<or> vr_role v = RoleTranslation" for v by (cases "vr_role v") auto
  have cols: "ut_id z = ut_id r" "ut_session_id z = ut_session_id r" "ut_sequence z = ut_sequence r" "ut_completion z = nu_completion n"
      "ut_source_text z = nu_source_text n" "ut_source_language z = sw_language w"
      "ut_source_start_ms z = ut_source_start_ms x" "ut_source_end_ms z = ut_source_end_ms x"
    using z x by (auto simp: write_source_lane_def)
  define old where "old = filter (\<lambda>v. vr_role v \<noteq> RoleSource \<and> (sw_coalesces w \<or> vr_language v \<noteq> sw_language w)) (ut_variants r)"
  obtain own where own: "ut_variants z = old @ own" "own = [] \<or> (\<exists>v. own = [v] \<and> \<not> sw_coalesces w \<and> vr_role v = RoleSource \<and>
      vr_language v = sw_language w \<and> vr_text v = Some (nu_source_text n) \<and> vr_state v = VarReady \<and>
      vr_completion v = Some (nu_completion n) \<and> (final_variant v \<longrightarrow> vr_projection_revision v = d + 1 \<and> k = 1))"
  proof -
    have f: "filter (\<lambda>v. vr_role v \<noteq> RoleSource \<and> sql_language (vr_language v) \<noteq> sw_language w) (ut_variants r) =
        filter (\<lambda>v. vr_role v \<noteq> RoleSource \<and> vr_language v \<noteq> sw_language w) (ut_variants r)"
      using cn by (intro filter_cong refl) auto
    have st: "stamp_variants (\<lambda>v. vr_role v = RoleSource) m old = old" for m
      unfolding stamp_variants_def by (rule map_idI) (auto simp: old_def)
    let ?v = "source_lane_row now (sw_language w) n (ut_revision x) (ut_created_at x)"
    show ?thesis
    proof (cases "sw_coalesces w")
      case True
      then show ?thesis using z x by (intro that [of "[]"]) (auto simp: write_source_lane_def old_def)
    next
      case False
      then have v: "ut_variants (write_source_lane now n w x) = old @ [?v]"
        using x f by (simp add: write_source_lane_def old_def)
      show ?thesis
      proof (cases "k = 0")
        case True
        then have "ut_variants z = old @ [?v]" "nu_completion n \<noteq> CompleteFact" using z v False by auto
        then show ?thesis using False by (intro that [of "[?v]"]) (auto simp: source_lane_row_def final_variant_def)
      next
        case k: False
        then have "ut_variants z = stamp_variants (\<lambda>v. vr_role v = RoleSource) (d + 1) (old @ [?v])" "k = 1" using z v False by auto
        moreover have "stamp_variants (\<lambda>v. vr_role v = RoleSource) (d + 1) (old @ [?v]) = old @ [?v\<lparr>vr_projection_revision := d + 1\<rparr>]"
          using st [of "d + 1"] by (simp add: stamp_variants_def source_lane_row_def)
        ultimately show ?thesis using False by (intro that [of "[?v\<lparr>vr_projection_revision := d + 1\<rparr>]"]) (auto simp: source_lane_row_def)
      qed
    qed
  qed
  have old_lane: "v \<in> set (ut_variants r)" "vr_role v = RoleTranslation" "sw_coalesces w \<or> vr_language v \<noteq> sw_language w"
    if "v \<in> set old" for v
    using that role [of v] by (auto simp: old_def)
  have "\<exists>v'\<in>set (ut_variants z). later_lane v v'" if v: "v \<in> set (ut_variants r)" "final_variant v" for v
  proof -
    have "v \<in> set old" using allow v by (auto simp: final_lanes_allow_def old_def)
    then show ?thesis using own(1) later_refl [OF lane [OF v(1)] v(2)] by auto
  qed
  moreover have "ut_completion z = CompleteFact \<and> ut_source_text z = ut_source_text r \<and> ut_source_start_ms z = ut_source_start_ms r \<and>
      ut_source_end_ms z = ut_source_end_ms r \<and> ut_source_language z = ut_source_language r" if "ut_completion r = CompleteFact"
    using fixed [OF that] cols x that by simp
  ultimately show "row_keeps r z" using cols by (simp add: row_keeps_def)
  have dis: "distinct (map vr_language (ut_variants z))"
  proof -
    have "distinct (map vr_language old)" using wf unfolding old_def row_wf_def by (simp add: distinct_map_filter)
    then show ?thesis using own old_lane(3) by auto
  qed
  have "lane_wf (d + k) z v" if v: "v \<in> set (ut_variants z)" for v
  proof (cases "v \<in> set old")
    case True
    then have "lane_wf d r v" "vr_role v = RoleTranslation" using lane old_lane by blast+
    then show ?thesis by (auto simp: lane_wf_def)
  next
    case False
    then have "own = [v]" using own v by auto
    then show ?thesis using own(2) cw cols by (auto simp: lane_wf_def)
  qed
  then show "row_wf (d + k) z" using dis cols cw by (simp add: row_wf_def)
  show "lanes_fresh d r z"
    unfolding lanes_fresh_def
  proof (intro ballI impI)
    fix v assume v: "v \<in> set (ut_variants z)" "final_variant v"
    show "d < vr_projection_revision v \<or> (\<exists>u\<in>set (ut_variants r). same_lane u v)"
    proof (cases "v \<in> set old")
      case True
      then show ?thesis using old_lane(1) same_lane_refl v(2) by blast
    next
      case False
      then show ?thesis using own v by auto
    qed
  qed
qed

lemma settle_lane_progresses:
  assumes wf: "db_wf base" and sw: "swaps r x 0 base d1" and s: "ut_session_id r = nu_session_id n"
    and allow: "final_lanes_allow w r" and cw: "canon (sw_language w)"
    and x: "ut_session_id x = ut_session_id r" "ut_sequence x = ut_sequence r" "ut_variants x = ut_variants r"
      "ut_source_language x = sw_language w" "ut_source_text x = nu_source_text n" "ut_completion x = nu_completion n"
    and fixed: "ut_completion r = CompleteFact \<Longrightarrow> x = r"
    and step: "settle_source_lane now n w (ut_id r) d1 = Inr d2"
  shows "progresses base d2"
proof -
  have r: "r \<in> set (db_utterances base)" and ix: "ut_id x = ut_id r" using sw by (simp_all add: swaps_def)
  let ?d = "desired_of (ut_session_id r) base" and ?z = "write_source_lane now n w x"
  note row = source_lane_row_facts [OF db_wf_row [OF wf r] allow cw ix x fixed]
  have sw2: "swaps r ?z 0 base (update_utterances (\<lambda>u. ut_id u = ut_id r) (write_source_lane now n w) d1)"
    by (rule swaps_update [OF sw]) (simp add: write_source_lane_def)
  show ?thesis
  proof (cases "nu_completion n = CompleteFact \<and> \<not> sw_coalesces w")
    case False
    then have "d2 = update_utterances (\<lambda>u. ut_id u = ut_id r) (write_source_lane now n w) d1"
      using step by (auto simp: settle_source_lane_def)
    moreover have "row_keeps r ?z" "row_wf (?d + 0) ?z" "lanes_fresh ?d r ?z"
      by (rule row [where k = 0]; (assumption | use False in blast))+
    ultimately show ?thesis using swaps_progresses(1) [OF wf sw2] by simp
  next
    case True
    then obtain d3 m where b: "bump_desired_revision (ut_session_id r)
        (update_utterances (\<lambda>u. ut_id u = ut_id r) (write_source_lane now n w) d1) = Inr (d3, m)"
      and e: "d2 = stamp_source (ut_id r) m d3"
      using step s by (auto simp: settle_source_lane_def elim!: and_then_InrE)
    note bb = swaps_bump [OF wf sw2 b]
    let ?y = "?z\<lparr>ut_source_projection_revision := ?d + 1,
       ut_variants := stamp_variants (\<lambda>v. vr_role v = RoleSource) (?d + 1) (ut_variants ?z)\<rparr>"
    have "swaps r ?y 1 base d2" using stamp_source_swaps [OF bb(2), of m] bb(1) unfolding e by simp
    moreover have "row_keeps r ?y" "row_wf (?d + 1) ?y" "lanes_fresh ?d r ?y"
      by (rule row [where k = 1]; (assumption | use True in blast))+
    ultimately show ?thesis using swaps_progresses(1) [OF wf] by blast
  qed
qed

lemma write_and_settle_progresses:
  assumes wf: "db_wf db" and run: "run_of (nu_session_id n) db \<noteq> None" and cw: "canon (sw_language w)"
    and open_row: "\<And>r. r \<in> set (db_utterances db) \<Longrightarrow> row_at (nu_session_id n) (nu_sequence n) r \<Longrightarrow>
      ut_completion r \<noteq> CompleteFact \<and> final_lanes_allow w r"
    and wr: "write_source_row now n w e db = Inr d1" and found: "find (row_at (nu_session_id n) (nu_sequence n)) (db_utterances d1) = Some u"
    and step: "settle_source_lane now n w (ut_id u) d1 = Inr d2"
  shows "progresses db d2"
proof -
  obtain start stop where wr': "(case e of
         None \<Rightarrow>
           if \<exists>u\<in>set (db_utterances db). ut_id u = nu_id n \<or> row_at (nu_session_id n) (nu_sequence n) u then
             Inl (StSqlite (lit ''UNIQUE constraint failed''))
           else Inr (db\<lparr>db_utterances := db_utterances db @ [source_columns now n w start stop (empty_row now n)]\<rparr>)
       | Some revision \<Rightarrow>
           and_then (u64_to_i64 ''expected_revision'' revision) (\<lambda>_.
             let hit = (\<lambda>u. row_at (nu_session_id n) (nu_sequence n) u \<and> ut_revision u = revision) in
             if \<not> (\<exists>u\<in>set (db_utterances db). hit u) then
               Inl (StConflict (lit ''utterance '' @ row_name (nu_session_id n) (nu_sequence n) @ lit '' expected revision '' @
                 show_nat revision))
             else
               Inr (update_utterances hit (\<lambda>u. source_columns now n w start stop (u\<lparr>ut_revision := ut_revision u + 1\<rparr>)) db))) = Inr d1"
    using wr unfolding write_source_row_def by (elim and_then_InrE) blast
  have at: "row_at (nu_session_id n) (nu_sequence n) u" "u \<in> set (db_utterances d1)" using find_SomeD [OF found] by auto
  show ?thesis
  proof (cases e)
    case None
    let ?x = "source_columns now n w start stop (empty_row now n)"
    have new: "ut_id y \<noteq> nu_id n \<and> \<not> row_at (nu_session_id n) (nu_sequence n) y" if "y \<in> set (db_utterances db)" for y
      using wr' None that by (auto split: if_splits)
    have d1: "d1 = db\<lparr>db_utterances := db_utterances db @ [?x]\<rparr>" using wr' None by (auto split: if_splits)
    have x: "ut_id ?x = nu_id n" "ut_session_id ?x = nu_session_id n" "ut_sequence ?x = nu_sequence n" "ut_variants ?x = []"
        "ut_source_language ?x = sw_language w" "ut_source_text ?x = nu_source_text n" "ut_completion ?x = nu_completion n"
      by (simp_all add: source_columns_def empty_row_def)
    have p: "progresses db d1"
      by (rule net_insert [where w = ?x]) (use wf run new x cw in \<open>simp_all add: d1 row_wf_def\<close>)
    have "u = ?x" using at new d1 by auto
    moreover have "?x \<in> set (db_utterances d1)" by (simp add: d1)
    ultimately have "progresses d1 d2"
      using settle_lane_progresses [OF progresses_wf [OF p] swaps_start [OF progresses_wf [OF p]], of ?x n w now d2] x cw step
      by (simp add: final_lanes_allow_def)
    then show ?thesis using p progresses_trans by blast
  next
    case (Some rev)
    let ?hit = "\<lambda>u. row_at (nu_session_id n) (nu_sequence n) u \<and> ut_revision u = rev"
    let ?g = "\<lambda>u. source_columns now n w start stop (u\<lparr>ut_revision := ut_revision u + 1\<rparr>)"
    obtain r where r: "r \<in> set (db_utterances db)" "?hit r" and d1: "d1 = update_utterances ?hit ?g db"
      using wr' Some by (auto simp: Let_def elim!: and_then_InrE split: if_splits)
    have g: "ut_id (?g y) = ut_id y" "ut_session_id (?g y) = ut_session_id y" "ut_sequence (?g y) = ut_sequence y"
        "ut_variants (?g y) = ut_variants y" "ut_source_language (?g y) = sw_language w" "ut_source_text (?g y) = nu_source_text n"
        "ut_completion (?g y) = nu_completion n" for y
      by (simp_all add: source_columns_def)
    have hit: "?hit y \<longleftrightarrow> ut_id y = ut_id r" if "y \<in> set (db_utterances db)" for y
      using same_id_row [OF wf that r(1)] same_place_row [OF wf that r(1)] r(2) by blast
    have sw: "swaps r (?g r) 0 db d1"
      unfolding d1 by (rule swaps_hit [OF swaps_start [OF wf r(1)]]) (use g hit in simp_all)
    have "ut_id u = ut_id r"
    proof -
      obtain y where y: "y \<in> set (db_utterances db)" "u = (if ?hit y then ?g y else y)"
        using at(2) unfolding d1 update_utterances_def by auto
      then have "row_at (nu_session_id n) (nu_sequence n) y" using at(1) g by (auto simp: row_at_def split: if_splits)
      then have "y = r" using same_place_row [OF wf y(1) r(1)] r(2) by blast
      then show ?thesis using y(2) g(1) [of y] by (auto split: if_splits)
    qed
    then have st: "settle_source_lane now n w (ut_id r) d1 = Inr d2" using step by simp
    have o: "ut_completion r \<noteq> CompleteFact" "final_lanes_allow w r" using open_row r by blast+
    have s: "ut_session_id r = nu_session_id n" using r(2) by (simp add: row_at_def)
    show ?thesis
      by (rule settle_lane_progresses [OF wf sw s o(2) cw g(2) g(3) g(4) g(5) g(6) g(7) _ st]) (use o(1) in simp)
  qed
qed

lemma commit_source_progresses:
  assumes wf: "db_wf db" and run: "run_of (nu_session_id n) db \<noteq> None" and cw: "canon (sw_language w)"
    and open_row: "\<And>r. r \<in> set (db_utterances db) \<Longrightarrow> row_at (nu_session_id n) (nu_sequence n) r \<Longrightarrow>
      ut_completion r \<noteq> CompleteFact \<and> final_lanes_allow w r"
    and step: "commit_source now tbl n w e db = Inr (db', y)"
  shows "progresses db db'"
proof -
  obtain d1 u d2 d3 d4 t where d1: "write_source_row now n w e db = Inr d1"
    and u: "find (row_at (nu_session_id n) (nu_sequence n)) (db_utterances d1) = Some u"
    and d2: "settle_source_lane now n w (ut_id u) d1 = Inr d2"
    and d3: "revalidate_bound_items now tbl (nu_session_id n) (ut_id u) (nu_sequence n) d2 = Inr d3"
    and d4: "apply_bound_items now (nu_session_id n) (ut_id u) (nu_sequence n) d3 = Inr (d4, t)"
    and d5: "and_then (require_by_sequence (nu_session_id n) (nu_sequence n) d4) (visible d4) = Inr (db', y)"
    using step unfolding commit_source_def Let_def
    by (elim and_then_InrE) (auto simp: ok_or_def elim!: and_then_InrE split: option.splits if_splits)
  have p2: "progresses db d2" using write_and_settle_progresses [OF wf run cw open_row d1 u d2] .
  have p3: "progresses d2 d3" using revalidate_progresses [OF progresses_wf [OF p2] d3] .
  have p4: "progresses d3 d4" using apply_bound_progresses [OF progresses_wf [OF p3] d4] .
  have "db' = d4" using d5 by (auto simp: visible_def elim!: and_then_InrE)
  then show ?thesis using p2 p3 p4 progresses_trans by blast
qed

section \<open>What the write of the source decides beforehand\<close>

lemma learned_canon: "canon l \<Longrightarrow> canon (learned_language l e)"
  by (auto simp: learned_language_def split: option.split)

lemma weigh_keeps:
  assumes "fold_ok (weigh_final_variant name u) vs w = Inr w'"
  shows "sw_language w' = sw_language w" "sw_coalesces w \<longrightarrow> sw_coalesces w'"
    "\<forall>v\<in>set vs. vr_role v = RoleTranslation \<and> (canonical_language (vr_language v) = sw_language w \<longrightarrow> sw_coalesces w')"
proof -
  have step: "sw_language b = sw_language a \<and> (sw_coalesces a \<longrightarrow> sw_coalesces b) \<and> vr_role v = RoleTranslation \<and>
      (canonical_language (vr_language v) = sw_language a \<longrightarrow> sw_coalesces b)"
    if "weigh_final_variant name u v a = Inr b" for v a b
    using that by (cases "vr_role v") (auto simp: weigh_final_variant_def Let_def split: if_splits)
  have "sw_language w' = sw_language w \<and> (sw_coalesces w \<longrightarrow> sw_coalesces w') \<and>
      (\<forall>v\<in>set vs. vr_role v = RoleTranslation \<and> (canonical_language (vr_language v) = sw_language w \<longrightarrow> sw_coalesces w'))"
    using assms
  proof (induction vs arbitrary: w)
    case (Cons v vs)
    obtain x where x: "weigh_final_variant name u v w = Inr x" "fold_ok (weigh_final_variant name u) vs x = Inr w'"
      using Cons.prems by (cases "weigh_final_variant name u v w") auto
    show ?case using step [OF x(1)] Cons.IH [OF x(2)] by auto
  qed simp
  then show "sw_language w' = sw_language w" "sw_coalesces w \<longrightarrow> sw_coalesces w'"
    "\<forall>v\<in>set vs. vr_role v = RoleTranslation \<and> (canonical_language (vr_language v) = sw_language w \<longrightarrow> sw_coalesces w')"
    by blast+
qed

lemma keep_shadow_keeps: "sw_language (keep_shadow u w) = sw_language w"
  by (simp add: keep_shadow_def)

lemma active_run: "ensure_active_realtime_session s db = Inr x \<Longrightarrow> run_of s db \<noteq> None"
  by (auto simp: ensure_active_realtime_session_def ok_or_def split: option.splits)

lemma upsert_utterance_progressive: "progressive (upsert_utterance now tbl n e)"
proof (rule progressiveI)
  fix db db' y assume wf: "db_wf db" and step: "upsert_utterance now tbl n e db = Inr (db', y)"
  let ?name = "row_name (nu_session_id n) (nu_sequence n)"
  obtain act found where act: "ensure_active_realtime_session (nu_session_id n) db = Inr act"
    and found: "machine_utterance_by_sequence (nu_session_id n) (nu_sequence n) db = Inr found"
    and go: "source_over now tbl n e found db = Inr (db', y)"
    using step unfolding upsert_utterance_def by (auto elim!: and_then_InrE split: if_splits)
  note run = active_run [OF act]
  define w where "w = \<lparr>sw_language = learned_language (canonical_language (nu_source_language n)) found,
                    sw_translated_language = None, sw_translated_text = None, sw_alignment = nu_alignment n, sw_coalesces = False\<rparr>"
  have cw: "canon (sw_language w)" by (simp add: w_def learned_canon)
  show "progresses db db'"
  proof (cases found)
    case None
    then have c: "commit_source now tbl n w e db = Inr (db', y)" using go unfolding w_def by (simp add: source_over_def Let_def)
    have "\<not> row_at (nu_session_id n) (nu_sequence n) r" if "r \<in> set (db_utterances db)" for r
      using found None that
      by (auto simp: machine_utterance_by_sequence_def row_at_def find_None_iff u64_to_i64_def split: if_splits elim!: and_then_InrE)
    then show ?thesis using commit_source_progresses [OF wf run cw _ c] by blast
  next
    case (Some u)
    obtain r where r: "r \<in> set (db_utterances db)" "ut_session_id r = nu_session_id n" "ut_sequence r = nu_sequence n"
        and u: "u = hydrate_utterance_variants r"
      using found [unfolded Some] by (rule by_sequence_row)
    show ?thesis
    proof (cases "source_fact_is_complete u")
      case True
      then have "visible db u = Inr (db', y)" using go Some by (simp add: source_over_def Let_def split: if_splits)
      then have "db' = db" by (auto simp: visible_def elim!: and_then_InrE)
      then show ?thesis using wf by simp
    next
      case False
      have "and_then (fold_ok (weigh_final_variant ?name u) (filter final_variant (ut_variants u)) (keep_shadow u w))
                      (\<lambda>w. commit_source now tbl n w e db) = Inr (db', y)"
        using go Some False unfolding w_def by (simp add: source_over_def Let_def)
      then obtain w' where w': "fold_ok (weigh_final_variant ?name u) (filter final_variant (ut_variants u)) (keep_shadow u w) = Inr w'"
        and c: "commit_source now tbl n w' e db = Inr (db', y)" by (rule and_then_InrE)
      note k = weigh_keeps [OF w']
      have lw: "sw_language w' = sw_language w" using k(1) by (simp add: keep_shadow_keeps)
      have "ut_completion q \<noteq> CompleteFact \<and> final_lanes_allow w' q"
        if "q \<in> set (db_utterances db)" "row_at (nu_session_id n) (nu_sequence n) q" for q
      proof -
        have "q = r" using same_place_row [OF wf that(1) r(1) that(2)] r by (simp add: row_at_def)
        moreover have "canonical_language (vr_language v) = vr_language v" if "v \<in> set (ut_variants r)" for v
          using db_wf_row [OF wf r(1)] that by (auto simp: row_wf_def lane_wf_def canon_def)
        ultimately show ?thesis
          using k(3) False u lw by (auto simp: final_lanes_allow_def source_fact_is_complete_def keep_shadow_keeps)
      qed
      then show ?thesis using commit_source_progresses [OF wf run _ _ c] cw lw by simp
    qed
  qed
qed

section \<open>Withdrawing a provisional source\<close>

lemma clear_source_progresses:
  assumes wf: "db_wf db" and r: "r \<in> set (db_utterances db)" and open_row: "ut_completion r \<noteq> CompleteFact"
    and step: "clear_source now name (hydrate_utterance_variants r) db = Inr db'"
  shows "progresses db db'"
proof (cases "has_source_fact (hydrate_utterance_variants r)")
  case False
  then show ?thesis using step wf by (simp add: clear_source_def)
next
  case True
  let ?h = "hydrate_utterance_variants r" and ?f = "filter (\<lambda>v. vr_role v \<noteq> RoleSource)"
  note rw = db_wf_row [OF wf r]
  have lane: "lane_wf (desired_of (ut_session_id r) db) r v" if "v \<in> set (ut_variants r)" for v using rw that by (simp add: row_wf_def)
  define d where "d = (if has_source_lane ?h then update_variants (ut_id r) ?f db else db)"
  let ?hit = "\<lambda>x. ut_id x = ut_id r \<and> ut_revision x = ut_revision r \<and> ut_completion x = PartialFact"
  have ex: "\<exists>x\<in>set (db_utterances d). ?hit x" and db': "db' = update_utterances ?hit (withdrawn_source now) d"
    using step True unfolding clear_source_def d_def Let_def by (auto split: if_splits)
  let ?x = "r\<lparr>ut_variants := ?f (ut_variants r)\<rparr>"
  have sw: "swaps r ?x 0 db d"
  proof (cases "has_source_lane ?h")
    case True
    then show ?thesis using swaps_variants_update [OF swaps_start [OF wf r]] by (simp add: d_def)
  next
    case False
    then have "\<forall>v\<in>set (ut_variants r). vr_role v \<noteq> RoleSource" using source_lane_there [OF rw] by blast
    then have "?x = r" by simp
    then show ?thesis using swaps_start [OF wf r] False by (simp add: d_def)
  qed
  have only: "x = ?x" if "x \<in> set (db_utterances d)" "ut_id x = ut_id r" for x
    using that sw by (auto simp: swaps_def changed_def split: if_splits)
  have hit: "?hit x \<longleftrightarrow> ut_id x = ut_id r" if "x \<in> set (db_utterances d)" for x
    using ex only that by metis
  have sw2: "swaps r (withdrawn_source now ?x) 0 db db'"
    unfolding db' by (rule swaps_hit [OF sw _ hit]) (simp add: withdrawn_source_def)
  let ?z = "withdrawn_source now ?x"
  have z: "ut_id ?z = ut_id r" "ut_session_id ?z = ut_session_id r" "ut_sequence ?z = ut_sequence r"
      "ut_source_language ?z = ut_source_language r" "ut_variants ?z = ?f (ut_variants r)"
    by (simp_all add: withdrawn_source_def)
  have fin: "vr_role v = RoleTranslation" if "v \<in> set (ut_variants r)" "final_variant v" for v
    using lane [OF that(1)] that(2) open_row by (cases "vr_role v") (auto simp: lane_wf_def final_variant_def)
  have "row_keeps r ?z"
    unfolding row_keeps_def
    using z open_row fin later_refl [OF lane] by auto
  moreover have "row_wf (desired_of (ut_session_id r) db + 0) ?z"
    using rw z by (auto simp: row_wf_def lane_wf_def distinct_map_filter)
  moreover have "lanes_fresh (desired_of (ut_session_id r) db) r ?z"
    unfolding lanes_fresh_def using z same_lane_refl by auto
  ultimately show ?thesis using swaps_progresses(1) [OF wf sw2] by simp
qed

lemma shell_progresses:
  assumes wf: "db_wf db" and r: "r \<in> set (db_utterances db)" and step: "drop_or_keep_shell name (hydrate_utterance_variants r) db = Inr (db', y)"
  shows "progresses db db'"
proof (cases "translation_fact (hydrate_utterance_variants r)")
  case True
  then have "db' = db" using step by (auto simp: drop_or_keep_shell_def some_result_def visible_def elim!: and_then_InrE)
  then show ?thesis using wf by simp
next
  case False
  then obtain x where x: "x \<in> set (db_utterances db)" "row_at (ut_session_id r) (ut_sequence r) x" "ut_completion x = PartialFact"
    and db': "db' = delete_utterance (ut_id r) db"
    using step by (auto simp: drop_or_keep_shell_def split: if_splits)
  have xr: "x = r" using same_place_row [OF wf x(1) r x(2)] by (simp add: row_at_def)
  have lane: "lane_wf (desired_of (ut_session_id r) db) r v" if "v \<in> set (ut_variants r)" for v
    using db_wf_row [OF wf r] that by (simp add: row_wf_def)
  have "\<not> final_variant v" if "v \<in> set (ut_variants r)" for v
    using lane [OF that] False that x(3) xr
    by (cases "vr_role v") (auto simp: lane_wf_def final_variant_def translation_fact_def ready_variant_def)
  then have "\<not> settled r" using x(3) xr by (auto simp: settled_def)
  then show ?thesis using delete_progresses [OF wf r] db' by simp
qed

lemma remove_partial_progressive: "progressive (remove_partial_utterance now tbl s n e lu)"
proof (rule progressiveI)
  fix db db' y assume wf: "db_wf db" and step: "remove_partial_utterance now tbl s n e lu db = Inr (db', y)"
  let ?name = "row_name s n"
  obtain found where found: "machine_utterance_by_sequence s n db = Inr found" and go: "(case found of
          None \<Rightarrow> Inr (db, None)
        | Some u \<Rightarrow>
            if ut_revision u \<noteq> e then
              Inl (StConflict (lit ''utterance '' @ ?name @ lit '' expected revision '' @ show_nat e))
            else if source_fact_is_complete u then
              Inl (StConflict (lit ''final machine source fact '' @ ?name @ lit '' is immutable''))
            else
              and_then (clear_source now ?name u db) (\<lambda>db.
              and_then (case lu of
                          Some l \<Rightarrow>
                            and_then (upsert_lane now s n (lu_language l) (lu_text l) (lu_state l) (lu_completion l)
                                        FinalIsImmutable db) (\<lambda>(db, _). Inr db)
                        | None \<Rightarrow> and_then (require_by_id (ut_id u) db) (\<lambda>_. Inr db)) (\<lambda>db.
              and_then (apply_bound_items now s (ut_id u) n db) (\<lambda>(db, there).
                if \<not> there then Inr (db, None)
                else
                  and_then (reconcile_inbox now tbl s db) (\<lambda>(db, _).
                  and_then (require_by_id (ut_id u) db) (\<lambda>u. drop_or_keep_shell ?name u db)))))) = Inr (db', y)"
    using step unfolding remove_partial_utterance_def Let_def by (elim and_then_InrE) blast
  show "progresses db db'"
  proof (cases found)
    case None
    then show ?thesis using go wf by simp
  next
    case (Some u)
    obtain r where r: "r \<in> set (db_utterances db)" and u: "u = hydrate_utterance_variants r"
      using found [unfolded Some] by (rule by_sequence_row)
    have open_row: "ut_completion r \<noteq> CompleteFact" using go Some u by (auto simp: source_fact_is_complete_def split: if_splits)
    have "and_then (clear_source now ?name u db) (\<lambda>db.
              and_then (case lu of
                          Some l \<Rightarrow>
                            and_then (upsert_lane now s n (lu_language l) (lu_text l) (lu_state l) (lu_completion l)
                                        FinalIsImmutable db) (\<lambda>(db, _). Inr db)
                        | None \<Rightarrow> and_then (require_by_id (ut_id u) db) (\<lambda>_. Inr db)) (\<lambda>db.
              and_then (apply_bound_items now s (ut_id u) n db) (\<lambda>(db, there).
                if \<not> there then Inr (db, None)
                else
                  and_then (reconcile_inbox now tbl s db) (\<lambda>(db, _).
                  and_then (require_by_id (ut_id u) db) (\<lambda>u. drop_or_keep_shell ?name u db))))) = Inr (db', y)"
      using go Some by (simp split: if_splits)
    then obtain d1 d2 d3 t where d1: "clear_source now ?name u db = Inr d1"
      and d2: "(case lu of
                          Some l \<Rightarrow>
                            and_then (upsert_lane now s n (lu_language l) (lu_text l) (lu_state l) (lu_completion l)
                                        FinalIsImmutable d1) (\<lambda>(db, _). Inr db)
                        | None \<Rightarrow> and_then (require_by_id (ut_id u) d1) (\<lambda>_. Inr d1)) = Inr d2"
      and d3: "apply_bound_items now s (ut_id u) n d2 = Inr (d3, t)"
      and d4: "(if \<not> t then Inr (d3, None)
                else
                  and_then (reconcile_inbox now tbl s d3) (\<lambda>(db, _).
                  and_then (require_by_id (ut_id u) db) (\<lambda>u. drop_or_keep_shell ?name u db))) = Inr (db', y)"
      by (elim and_then_InrE) (simp only: split_paired_all prod.case)
    have p1: "progresses db d1" using clear_source_progresses [OF wf r open_row] d1 u by simp
    have p2: "progresses d1 d2"
      using d2 upsert_lane_progresses [OF progresses_wf [OF p1]] progresses_refl [OF progresses_wf [OF p1]]
      by (auto elim!: and_then_InrE split: option.splits)
    have p3: "progresses d2 d3" using apply_bound_progresses [OF progresses_wf [OF p2] d3] .
    have p4: "progresses d3 db'"
    proof (cases t)
      case False
      then show ?thesis using d4 progresses_wf [OF p3] by simp
    next
      case True
      then obtain d5 bs v where d5: "reconcile_inbox now tbl s d3 = Inr (d5, bs)" and v: "require_by_id (ut_id u) d5 = Inr v"
        and sh: "drop_or_keep_shell ?name v d5 = Inr (db', y)"
        using d4 by (auto elim!: and_then_InrE)
      have p5: "progresses d3 d5" using reconcile_progresses [OF progresses_wf [OF p3] d5] .
      obtain q where "q \<in> set (db_utterances d5)" "v = hydrate_utterance_variants q" using v by (rule require_by_id_row)
      then have "progresses d5 db'" using shell_progresses [OF progresses_wf [OF p5]] sh by blast
      then show ?thesis using p5 progresses_trans by blast
    qed
    show ?thesis using p1 p2 p3 p4 progresses_trans by blast
  qed
qed

end
