(* ===== verification/Capture_History.thy ===== *)
theory Capture_History
  imports Capture_Source_Laws
begin

text \<open>
  The public writes of a recording (\<^verbatim>\<open>crates/vt-store/src/notebook_capture_store.rs\<close>) in any order: a call is
  one transaction, a failed one leaves the tables as they were. What holds after every history of calls:
  final facts stay, receipts stay within what was asked for, and a revision that the document has
  acknowledged stands for the facts of the snapshot it was written from.
\<close>

section \<open>Calls\<close>

datatype capture_call =
    UpsertUtterance new_utterance "nat option"
  | RemovePartial ustring nat nat "lane_update option"
  | UpsertTranslation ustring nat ustring "ustring option" variant_state "utterance_completion option"
  | MarkUnavailable ustring
  | UpsertInbox new_inbox_item
  | BindInbox inbox_key nat
  | BindIfUnique inbox_key
  | ReconcileInbox ustring
  | ReconcileAfterRecovery "(ustring \<times> nat) list \<Rightarrow> (ustring \<times> nat) list" ustring
  | StageVariant ustring ustring ustring ustring nat
  | StageLane ustring ustring utterance_lane ustring nat
  | CommitEdit ustring
  | CancelEdit ustring
  | EnsureSpeaker ustring ustring nat ustring ustring
  | AckProjection ustring nat

definition tables :: "store_error + capture_db \<times> 'a \<Rightarrow> capture_db \<Rightarrow> capture_db" where
  "tables r db = (case r of Inl _ \<Rightarrow> db | Inr (db', _) \<Rightarrow> db')"

text \<open>\<^verbatim>\<open>transaction()\<close> and \<^verbatim>\<open>commit()\<close>: an error rolls back.\<close>

fun call_step :: "(uchar \<Rightarrow> ustring) \<Rightarrow> ustring \<times> capture_call \<Rightarrow> capture_db \<Rightarrow> capture_db" where
  "call_step tbl (now, UpsertUtterance n e) db = tables (upsert_utterance now tbl n e db) db"
| "call_step tbl (now, RemovePartial s n e u) db = tables (remove_partial_utterance now tbl s n e u db) db"
| "call_step tbl (now, UpsertTranslation s n l body st c) db = tables (upsert_translation_variant now s n l body st c db) db"
| "call_step tbl (now, MarkUnavailable s) db = tables (mark_waiting_translation_variants_unavailable now s db) db"
| "call_step tbl (now, UpsertInbox n) db = tables (upsert_translation_inbox_item now tbl n db) db"
| "call_step tbl (now, BindInbox k n) db = tables (bind_translation_inbox_item now tbl k n db) db"
| "call_step tbl (now, BindIfUnique k) db = tables (bind_translation_inbox_item_if_unique now tbl k db) db"
| "call_step tbl (now, ReconcileInbox s) db = tables (reconcile_active_translation_inbox now tbl s db) db"
| "call_step tbl (now, ReconcileAfterRecovery arrange s) db =
     tables (reconcile_translation_inbox_after_recovery now tbl arrange s db) db"
| "call_step tbl (now, StageVariant fresh i l target e) db =
     tables (stage_utterance_variant_replacement fresh now i l target e db) db"
| "call_step tbl (now, StageLane fresh i l target e) db =
     tables (stage_utterance_lane_replacement fresh now i l target e db) db"
| "call_step tbl (now, CommitEdit m) db = tables (commit_projection_mutation m db) db"
| "call_step tbl (now, CancelEdit m) db = tables (cancel_projection_mutation m db) db"
| "call_step tbl (now, EnsureSpeaker fresh s e p l) db = tables (ensure_session_speaker fresh s e p l db) db"
| "call_step tbl (now, AckProjection s n) db = tables (ack_realtime_loro_projection s n db) db"

definition run_calls :: "(uchar \<Rightarrow> ustring) \<Rightarrow> (ustring \<times> capture_call) list \<Rightarrow> capture_db \<Rightarrow> capture_db" where
  "run_calls tbl cs db = fold (call_step tbl) cs db"

text \<open>The tables before the first utterance: runs of distinct sessions and nothing else that matters.\<close>

definition started :: "capture_db \<Rightarrow> bool" where
  "started db \<longleftrightarrow>
     db_utterances db = [] \<and> distinct (map rn_session_id (db_runs db)) \<and>
     list_all (\<lambda>r. rn_applied_revision r \<le> rn_desired_revision r) (db_runs db)"

section \<open>Every history progresses\<close>

lemma tables_progress: "progressive f \<Longrightarrow> db_wf db \<Longrightarrow> progresses db (tables (f db) db)"
  by (auto simp: tables_def intro: progressiveD split: sum.splits)

lemma call_progresses:
  assumes "db_wf db"
  shows "progresses db (call_step tbl c db)"
proof -
  obtain now k where c: "c = (now, k)" by fastforce
  show ?thesis
    unfolding c
    by (cases k)
       (simp_all add: assms tables_progress upsert_utterance_progressive remove_partial_progressive upsert_variant_progressive
          unavailable_progressive upsert_inbox_progressive bind_inbox_progressive bind_if_unique_progressive reconcile_progressive
          recovery_progressive stage_progressive stage_lane_progressive commit_edit_progressive cancel_progressive
          speaker_progressive ack_progressive)
qed

lemma run_calls_progress: "db_wf db \<Longrightarrow> progresses db (run_calls tbl cs db)"
  unfolding run_calls_def by (rule rows.history) (rule call_progresses)

lemma run_calls_append: "run_calls tbl (cs @ cs') db = run_calls tbl cs' (run_calls tbl cs db)"
  by (simp add: run_calls_def)

lemma started_wf: "started db \<Longrightarrow> db_wf db"
  by (simp add: started_def db_wf_def list_all_iff)

lemma history_wf: "started db \<Longrightarrow> db_wf (run_calls tbl cs db)"
  using run_calls_progress started_wf progresses_wf by blast

lemma history_progresses:
  "started db \<Longrightarrow> progresses (run_calls tbl cs db) (run_calls tbl (cs @ cs') db)"
  unfolding run_calls_append by (intro run_calls_progress history_wf)

section \<open>What holds after every history\<close>

text \<open>C2: A fact that is final stays. Whatever calls come after, and whichever of them fail, the row of a
  settled utterance is still there under its id and sequence: a complete source keeps its text and times, and
  its language unless it was undetermined; a final translation keeps its language and grows only at its end.\<close>

theorem final_facts_stay:
  assumes "started db" "u \<in> set (db_utterances (run_calls tbl cs db))" "settled u"
  shows "\<exists>w\<in>set (db_utterances (run_calls tbl (cs @ cs') db)). row_keeps u w"
  using history_progresses [OF assms(1)] assms(2,3) unfolding progresses_def advances_def by blast

text \<open>C4: The receipts of the projection stay in bounds: after every history no run has acknowledged more than it
  asked for, and the revision of every final lane is positive and at most what its run has asked for.\<close>

theorem receipts_in_bounds:
  assumes "started db"
  shows "(\<forall>r\<in>set (db_runs (run_calls tbl cs db)). rn_applied_revision r \<le> rn_desired_revision r) \<and>
    (\<forall>u\<in>set (db_utterances (run_calls tbl cs db)). \<forall>v\<in>set (ut_variants u). final_variant v \<longrightarrow>
       0 < vr_projection_revision v \<and> vr_projection_revision v \<le> desired_of (ut_session_id u) (run_calls tbl cs db))"
  using history_wf [OF assms, of tbl cs] unfolding db_wf_def row_wf_def lane_wf_def by blast



section \<open>A recording\<close>

definition demo_run :: capture_run where
  "demo_run =
     \<lparr>rn_id = [7], rn_notebook_id = [8], rn_session_id = [5], rn_realtime_provider_id = Some soniox_provider_id,
      rn_realtime_model_id = Some soniox_stt_rt_v5_model_id, rn_post_stop_provider_id = None, rn_post_stop_model_id = None,
      rn_capture_state = Recording, rn_remote_health = Live, rn_projection_state = ProjPending, rn_async_task_state = AtNone,
      rn_async_authorized_at_ms = None, rn_async_language_hint = None, rn_async_projection_state = ApNone,
      rn_async_task_id = None, rn_async_task_payload_sha256 = None, rn_provider_error_type = None,
      rn_provider_request_id = None, rn_audio_journal_path = None, rn_audio_path = None, rn_audio_key_ref = None,
      rn_sample_rate = None, rn_channels = None, rn_captured_frames = 0, rn_created_at = [], rn_updated_at = [],
      rn_completed_at = None, rn_desired_revision = 0, rn_applied_revision = 0\<rparr>"

definition demo_tables :: capture_db where
  "demo_tables =
     \<lparr>db_runs = [demo_run], db_speakers = [], db_utterances = [], db_overrides = [], db_mutations = [], db_inbox = [],
      db_purge_jobs = []\<rparr>"

definition demo_source :: new_utterance where
  "demo_source =
     \<lparr>nu_id = [4], nu_session_id = [5], nu_sequence = 2, nu_session_speaker_id = None, nu_source_language = lit ''en'',
      nu_source_text = lit ''hi'', nu_source_start_ms = None, nu_source_end_ms = None, nu_translated_language = None,
      nu_translated_text = None, nu_completion = CompleteFact, nu_alignment = SourceOnly\<rparr>"

definition demo_write :: "ustring \<times> capture_call" where
  "demo_write = ([], UpsertUtterance demo_source None)"

definition demo_settled :: utterance where
  "demo_settled =
     \<lparr>ut_id = [4], ut_session_id = [5], ut_sequence = 2, ut_session_speaker_id = None, ut_source_language = lit ''en'',
      ut_source_text = lit ''hi'', ut_source_start_ms = None, ut_source_end_ms = None, ut_translated_language = None,
      ut_translated_text = None, ut_revision = 0, ut_completion = CompleteFact, ut_alignment = SourceOnly,
      ut_created_at = [], ut_updated_at = [], ut_source_projection_revision = 1, ut_source_edit_revision = 0,
      ut_variants =
        [\<lparr>vr_language = lit ''en'', vr_role = RoleSource, vr_text = Some (lit ''hi''), vr_state = VarReady,
          vr_completion = Some CompleteFact, vr_revision = 0, vr_created_at = [], vr_updated_at = [],
          vr_projection_revision = 1, vr_edit_revision = 0\<rparr>]\<rparr>"

lemma demo_started: "started demo_tables"
  by (simp add: started_def demo_tables_def demo_run_def)

lemma demo_language: "canonical_language (lit ''en'') = lit ''en''" "sql_language (lit ''en'') = lit ''en''"
  "validate_language (lit ''en'') = Inr ()"
  by (simp_all add: validate_language_def canonical_language_def Let_def lit_def before_dash_def trim_def trim_start_def
      trim_end_def is_whitespace_def to_ascii_lowercase_def ascii_lower_def is_ascii_alphabetic_def str_len_def len_utf8_def
      sql_language_def)

lemma demo_admitted: "validate_utterance demo_source = Inr ()"
proof -
  have "trim [4] = [4]" "trim [5] = [5]" "trim (lit ''en'') = lit ''en''"
    by (simp_all add: trim_def trim_start_def trim_end_def is_whitespace_def lit_def)
  then show ?thesis by (simp add: validate_utterance_def demo_source_def demo_language require_nonempty_def)
qed

lemma demo_running: "run_of [5] demo_tables = Some demo_run" "provenance_ok demo_run = Inr ()"
  "check_speaker demo_source demo_tables = Inr ()"
  by (simp_all add: demo_source_def run_of_def demo_tables_def demo_run_def provenance_ok_def check_speaker_def)

lemma demo_written:
  "run_calls (\<lambda>c. [c]) [demo_write] demo_tables =
     demo_tables\<lparr>db_utterances := [demo_settled], db_runs := [demo_run\<lparr>rn_desired_revision := 1\<rparr>]\<rparr>"
proof -
  have small: "u64_to_i64 f n = Inr n" if "n \<le> 2" for f n
    using that by (simp add: u64_to_i64_def i64_max_def)
  have active: "ensure_active_realtime_session [5] demo_tables = Inr ()"
    using demo_running by (simp add: ensure_active_realtime_session_def ok_or_def) (simp add: demo_run_def is_active_def)
  let ?w = "\<lparr>sw_language = lit ''en'', sw_translated_language = None, sw_translated_text = None, sw_alignment = SourceOnly,
                 sw_coalesces = False\<rparr>"
  let ?r = "demo_settled\<lparr>ut_source_projection_revision := 0, ut_variants := []\<rparr>"
  let ?d = "demo_tables\<lparr>db_utterances := [demo_settled], db_runs := [demo_run\<lparr>rn_desired_revision := 1\<rparr>]\<rparr>"
  have "write_source_row [] demo_source ?w None demo_tables = Inr (demo_tables\<lparr>db_utterances := [?r]\<rparr>)"
    by (simp add: write_source_row_def option_u64_to_i64_def small demo_source_def demo_tables_def source_columns_def empty_row_def
        demo_settled_def)
  moreover have "settle_source_lane [] demo_source ?w [4] (demo_tables\<lparr>db_utterances := [?r]\<rparr>) = Inr ?d"
    by (simp add: settle_source_lane_def Let_def bump_desired_revision_def stamp_source_def update_variants_def update_utterances_def
        demo_source_def demo_settled_def demo_tables_def demo_run_def write_source_lane_def source_lane_row_def run_of_def
        update_run_def stamp_variants_def ok_or_def)
  moreover have "revalidate_bound_items [] (\<lambda>c. [c]) [5] [4] 2 ?d = Inr ?d"
    by (simp add: revalidate_bound_items_def require_by_id_def machine_utterance_by_id_def demo_tables_def demo_settled_def
        list_translation_inbox_def ok_or_def)
  moreover have "apply_bound_items [] [5] [4] 2 ?d = Inr (?d, True)"
    by (simp add: apply_bound_items_def demo_tables_def list_translation_inbox_def)
  moreover have "require_by_sequence [5] 2 ?d = Inr demo_settled" "visible ?d demo_settled = Inr (?d, demo_settled)"
    by (simp_all add: require_by_sequence_def machine_utterance_by_sequence_def small demo_tables_def demo_settled_def
        hydrate_utterance_variants_def visible_def apply_utterance_overrides_def ok_or_def)
  moreover have "row_at [5] 2 demo_settled" "row_at [5] 2 ?r" "ut_id ?r = [4]" "lit ''en'' \<noteq> und"
    by (simp_all add: row_at_def demo_settled_def und_def)
  moreover have "nu_session_id demo_source = [5]" "nu_sequence demo_source = 2" "nu_alignment demo_source = SourceOnly"
      "canonical_language (nu_source_language demo_source) = lit ''en''"
    by (simp_all add: demo_source_def demo_language)
  ultimately have "source_over [] (\<lambda>c. [c]) demo_source None None demo_tables = Inr (?d, demo_settled)"
    by (simp add: source_over_def commit_source_def learned_language_def ok_or_def Let_def)
  then show ?thesis
    using demo_admitted demo_running active small
    by (simp add: run_calls_def demo_write_def upsert_utterance_def machine_utterance_by_sequence_def tables_def
        demo_source_def demo_tables_def)
qed

theorem final_facts_stay_witness:
  "\<exists>w\<in>set (db_utterances (run_calls (\<lambda>c. [c]) ([demo_write] @ [([], RemovePartial [5] 2 0 None)]) demo_tables)).
     row_keeps demo_settled w"
  by (rule final_facts_stay [OF demo_started]) (simp_all add: demo_written settled_def demo_settled_def)

theorem receipts_in_bounds_witness:
  "0 < vr_projection_revision (hd (ut_variants demo_settled)) \<and>
   vr_projection_revision (hd (ut_variants demo_settled)) \<le> desired_of [5] (run_calls (\<lambda>c. [c]) [demo_write] demo_tables)"
proof -
  let ?d = "run_calls (\<lambda>c. [c]) [demo_write] demo_tables"
  have "demo_settled \<in> set (db_utterances ?d)" by (simp add: demo_written)
  moreover have "hd (ut_variants demo_settled) \<in> set (ut_variants demo_settled)" "final_variant (hd (ut_variants demo_settled))"
    "ut_session_id demo_settled = [5]"
    by (simp_all add: demo_settled_def final_variant_def)
  ultimately show ?thesis using receipts_in_bounds [OF demo_started, of "\<lambda>c. [c]" "[demo_write]"] by metis
qed


end
