(* ===== verification/Capture_Adoption.thy ===== *)
theory Capture_Adoption
  imports Capture_History
begin

text \<open>
  An edit of the user and the language of a source (\<^verbatim>\<open>crates/vt-store/src/notebook_capture_store.rs\<close>): when a bound
  fact gives an undetermined source its language, the lane is renamed, but an edit that was committed on the
  undetermined lane is not. From then on the row cannot be read, so the whole transaction fails.
\<close>

definition lacks :: "ustring \<Rightarrow> ustring \<Rightarrow> capture_db \<Rightarrow> bool" where
  "lacks l i d \<longleftrightarrow> (\<forall>u\<in>set (db_utterances d). ut_id u = i \<longrightarrow> variant_in l u = None)"

lemma variant_in_None: "variant_in l u = None \<longleftrightarrow> l \<notin> canonical_language ` vr_language ` set (ut_variants u)"
  by (auto simp: variant_in_def find_None_iff)

lemma fold_ok_fails:
  assumes keep: "\<And>y s t. P s \<Longrightarrow> f y s = Inr t \<Longrightarrow> P t" and bad: "\<And>s. P s \<Longrightarrow> \<exists>e. f x s = Inl e"
  shows "x \<in> set xs \<Longrightarrow> P s \<Longrightarrow> \<exists>e. fold_ok f xs s = Inl e"
proof (induction xs arbitrary: s)
  case (Cons y xs)
  show ?case
  proof (cases "f y s")
    case (Inr t)
    then have "x \<in> set xs" using bad [OF Cons.prems(2)] Cons.prems(1) by auto
    then show ?thesis using Cons.IH keep [OF Cons.prems(2) Inr] Inr by simp
  qed simp
qed simp

lemma update_first_languages:
  "map vr_language (update_first p (\<lambda>v. v\<lparr>vr_text := b, vr_edit_revision := e\<rparr>) vs) = map vr_language vs"
  by (induction vs) auto

lemma variant_in_cong: "map vr_language (ut_variants u) = map vr_language (ut_variants w) \<Longrightarrow> variant_in l u = None \<longleftrightarrow> variant_in l w = None"
  unfolding variant_in_None by (metis list.set_map)

lemma override_keeps_languages:
  assumes "apply_override x u = Inr u'"
  shows "variant_in l u' = None \<longleftrightarrow> variant_in l u = None"
proof (rule variant_in_cong)
  show "map vr_language (ut_variants u') = map vr_language (ut_variants u)"
    using assms unfolding apply_override_def Let_def
    by (auto simp: put_variant_text_def update_first_languages simp del: map_eq_conv split: if_splits option.splits)
qed

lemma missing_lane_fails: "variant_in (canonical_language (ov_lane_language x)) u = None \<Longrightarrow> \<exists>e. apply_override x u = Inl e"
  by (simp add: apply_override_def Let_def)

lemma overrides_corrupt: "fold_ok apply_override xs u = Inl e \<Longrightarrow> \<exists>m. e = StCorruptData m"
proof (induction xs arbitrary: u)
  case (Cons x xs)
  have "\<exists>m. a = StCorruptData m" if "apply_override x u = Inl a" for a
    using that by (auto simp: apply_override_def utterance_error_def Let_def split: if_splits option.splits)
  then show ?case using Cons by (cases "apply_override x u") auto
qed simp

lemma lost_edit_is_unreadable:
  assumes "lacks (canonical_language (ov_lane_language x)) i d" "x \<in> set (db_overrides d)" "ov_utterance_id x = i"
    "r \<in> set (db_utterances d)" "ut_id r = i"
  shows "\<exists>m. visible_by_id i d = Inl (StCorruptData m)"
proof -
  let ?P = "\<lambda>u. variant_in (canonical_language (ov_lane_language x)) u = None"
  have "find (\<lambda>u. ut_id u = i) (db_utterances d) \<noteq> None" using assms(4,5) by (auto simp: find_None_iff)
  then obtain r where r: "find (\<lambda>u. ut_id u = i) (db_utterances d) = Some r" by blast
  let ?u = "hydrate_utterance_variants r"
  have q: "require_by_id i d = Inr ?u" using r by (simp add: require_by_id_def machine_utterance_by_id_def ok_or_def)
  have "r \<in> set (db_utterances d)" "ut_id r = i" using find_SomeD [OF r] by auto
  then have "?P ?u" "ut_id ?u = i" using assms(1) by (simp_all add: lacks_def variant_in_None)
  then have "\<exists>e. apply_utterance_overrides d ?u = Inl e"
    unfolding apply_utterance_overrides_def using assms(2,3)
    by (intro fold_ok_fails [of ?P]) (auto simp: missing_lane_fails override_keeps_languages)
  then show ?thesis using q overrides_corrupt unfolding apply_utterance_overrides_def
    by (auto simp: visible_by_id_def visible_def apply_utterance_overrides_def)
qed

lemma rename_removes:
  assumes wf: "row_wf d r" and src: "v \<in> set (ut_variants r)" "vr_role v = RoleSource" "vr_language v = und" and a: "a \<noteq> und" "canon a"
  shows "und \<notin> canonical_language ` vr_language ` set (rename_source now a (ut_variants r))"
proof
  assume "und \<in> canonical_language ` vr_language ` set (rename_source now a (ut_variants r))"
  then obtain w where w: "w \<in> set (ut_variants r)" "canonical_language (if vr_role w = RoleSource \<and> sql_language (vr_language w) = und then a else vr_language w) = und"
    by (auto simp: rename_source_def split: if_splits)
  have c: "canon (vr_language w)" using wf w(1) by (simp add: row_wf_def lane_wf_def)
  then have l: "vr_language w = und" "\<not> (vr_role w = RoleSource)"
    using w(2) a canonD by (auto split: if_splits)
  then have "w = v" using wf w(1) src same_language [of "ut_variants r" w v] by (simp add: row_wf_def)
  then show False using l src by simp
qed

lemma stamp_source_lacks: "lacks l i d \<Longrightarrow> lacks l i (stamp_source j n d)"
proof -
  have "variant_in l (u\<lparr>ut_source_projection_revision := n, ut_variants := stamp_variants p n (ut_variants u)\<rparr>) = None \<longleftrightarrow>
      variant_in l u = None" for u p
    by (rule variant_in_cong) (simp add: stamp_variants_def)
  then show "lacks l i d \<Longrightarrow> lacks l i (stamp_source j n d)" by (auto simp: lacks_def stamp_source_def update_utterances_def)
qed

lemma stamp_source_overrides: "db_overrides (stamp_source k n a) = db_overrides a"
  by (simp add: stamp_source_def update_utterances_def)

lemma find_filter: "find p xs = (case filter p xs of [] \<Rightarrow> None | x # _ \<Rightarrow> Some x)"
  by (induction xs) auto

definition unbound_candidates :: "ustring \<Rightarrow> capture_db \<Rightarrow> inbox_item list" where
  "unbound_candidates s db = filter unbound_candidate (list_translation_inbox s db)"

lemma bump_lacks: "bump_desired_revision s d = Inr (d', n) \<Longrightarrow> lacks l i d' = lacks l i d \<and> db_overrides d' = db_overrides d"
  by (auto simp: bump_desired_revision_def lacks_def update_run_def elim!: and_then_InrE)

text \<open>The row of \<open>u\<close> after its source was renamed: the row and every source lane of it carry the language.\<close>

definition named :: "ustring \<Rightarrow> ustring \<Rightarrow> capture_db \<Rightarrow> bool" where
  "named l i d \<longleftrightarrow>
     (\<exists>w\<in>set (db_utterances d). ut_id w = i \<and> ut_source_language w = l \<and>
        (\<forall>y\<in>set (ut_variants w). vr_role y = RoleSource \<longrightarrow> vr_language y = l))"

lemma stamp_source_named: "named l i d \<Longrightarrow> named l i (stamp_source j n d)"
proof -
  let ?g = "\<lambda>w. if ut_id w = j then w\<lparr>ut_source_projection_revision := n,
      ut_variants := stamp_variants (\<lambda>v. vr_role v = RoleSource) n (ut_variants w)\<rparr> else w"
  assume "named l i d"
  then obtain w where w: "w \<in> set (db_utterances d)" "ut_id w = i" "ut_source_language w = l"
      "\<forall>y\<in>set (ut_variants w). vr_role y = RoleSource \<longrightarrow> vr_language y = l"
    by (auto simp: named_def)
  then have "?g w \<in> set (db_utterances (stamp_source j n d))" by (auto simp: stamp_source_def update_utterances_def)
  moreover have "\<forall>y\<in>set (ut_variants (?g w)). vr_role y = RoleSource \<longrightarrow> vr_language y = l"
    using w(4) by (auto simp: stamp_variants_def)
  ultimately show ?thesis using w(2,3) unfolding named_def by (intro bexI [of _ "?g w"]) auto
qed

lemma bump_named: "bump_desired_revision s d = Inr (d', n) \<Longrightarrow> named l i d' = named l i d"
  by (auto simp: bump_desired_revision_def named_def update_run_def elim!: and_then_InrE)

lemma adoption_of_edited_source:
  assumes "db_wf db" "machine_utterance_by_sequence (ik_session_id (it_key i)) sequence db = Inr (Some u)" "adopts i u"
    "v \<in> set (ut_variants u)" "vr_role v = RoleSource"
    "x \<in> set (db_overrides db)" "ov_utterance_id x = ut_id u" "canonical_language (ov_lane_language x) = und"
  shows "\<exists>d m. adopt_source_language now i u db = visible_by_id (ut_id u) d \<and> db_overrides d = db_overrides db \<and>
    named (canonical_language (it_source_language i)) (ut_id u) d \<and> visible_by_id (ut_id u) d = Inl (StCorruptData m)"
proof -
  let ?a = "canonical_language (it_source_language i)"
  let ?f = "\<lambda>x. x\<lparr>ut_variants := rename_source now ?a (ut_variants x), ut_source_language := ?a, ut_updated_at := now\<rparr>"
  let ?d = "update_utterances (\<lambda>x. ut_id x = ut_id u) ?f db"
  let ?ren = "\<exists>v\<in>set (ut_variants u). vr_role v = RoleSource \<and> sql_language (vr_language v) = und"
  obtain r where r: "r \<in> set (db_utterances db)" "u = hydrate_utterance_variants r"
    using assms(2) unfolding machine_utterance_by_sequence_def by (auto elim!: and_then_InrE dest!: find_SomeD)
  have ur: "ut_id u = ut_id r" "set (ut_variants u) = set (ut_variants r)" using r(2) by simp_all
  have wf: "row_wf (desired_of (ut_session_id r) db) r" using db_wf_row [OF assms(1) r(1)] .
  have v: "v \<in> set (ut_variants r)" using assms(4) ur by simp
  have all_und: "vr_language y = und" if "y \<in> set (ut_variants r)" "vr_role y = RoleSource" for y
    using wf that assms(3) r canonD(1) unfolding row_wf_def lane_wf_def adopts_def by force
  note und = all_und [OF v assms(5)]
  have "lacks und (ut_id u) ?d"
    unfolding lacks_def
  proof (intro ballI impI)
    fix w assume w: "w \<in> set (db_utterances ?d)" "ut_id w = ut_id u"
    then obtain z where z: "z \<in> set (db_utterances db)" "w = (if ut_id z = ut_id u then ?f z else z)"
      by (auto simp: update_utterances_def)
    then have "ut_id z = ut_id r" using w r by (auto split: if_splits)
    then have "z = r" using same_id_row [OF assms(1) z(1) r(1)] by simp
    then show "variant_in und w = None"
      using z r rename_removes [OF wf v assms(5) und] assms(3) by (auto simp: variant_in_None adopts_def)
  qed
  moreover have "named ?a (ut_id u) ?d"
    unfolding named_def
    by (rule bexI [of _ "?f r"])
       (auto simp: ur(1) update_utterances_def r(1) rename_source_def all_und canon_und canonD(2) intro!: image_eqI [of _ _ r])
  moreover have "?ren" using assms(4,5) und by (auto simp: canonD(2) canon_und)
  moreover have "run_of (ut_session_id u) db \<noteq> None" using assms(1) r unfolding db_wf_def by auto
  then obtain b n where b: "bump_desired_revision (ut_session_id u) ?d = Inr (b, n)"
    by (auto simp: bump_desired_revision_def ok_or_def run_of_def update_utterances_def)
  define e where "e = (if source_lane_is_complete u then stamp_source (ut_id u) n b else stamp_source (ut_id u) 0 ?d)"
  have "adopt_source_language now i u db = visible_by_id (ut_id u) e" if "?ren"
    using that assms(3) b by (simp add: adopt_source_language_def e_def Let_def)
  moreover have "lacks und (ut_id u) e" if "lacks und (ut_id u) ?d"
    using that bump_lacks [OF b] stamp_source_lacks by (simp add: e_def)
  moreover have "named ?a (ut_id u) e" if "named ?a (ut_id u) ?d"
    using that bump_named [OF b] stamp_source_named by (simp add: e_def)
  moreover have "db_overrides e = db_overrides ?d" using bump_lacks [OF b] by (simp add: e_def stamp_source_overrides)
  ultimately obtain d where d: "adopt_source_language now i u db = visible_by_id (ut_id u) d"
      "lacks und (ut_id u) d" "named ?a (ut_id u) d" "db_overrides d = db_overrides ?d"
    by blast
  moreover have frame: "db_overrides ?d = db_overrides db" by (simp add: update_utterances_def)
  moreover obtain w where "w \<in> set (db_utterances d)" "ut_id w = ut_id u" using d(3) by (auto simp: named_def)
  ultimately show ?thesis
    using lost_edit_is_unreadable [of x "ut_id u" d w] assms(6-8) by auto
qed

text \<open>C5: A language that arrives for an edited source is refused for good. The source of a row is undetermined and the
  user's edit of it was committed; a fact of the inbox that names its language and matches the row is bound to it.
  The row and its source lane are renamed, the edit is not, and the row can then no longer be read: this is an
  error of corrupt data, which a bind attempt does not take for an ambiguity. So the transaction fails and leaves
  the tables as they were, and the reconciliation of the session fails where it comes to the fact first.\<close>

theorem edited_source_refuses_its_language:
  assumes "db_wf db" "machine_utterance_by_sequence (ik_session_id (it_key i)) sequence db = Inr (Some u)" "adopts i u"
    "v \<in> set (ut_variants u)" "vr_role v = RoleSource"
    "x \<in> set (db_overrides db)" "ov_utterance_id x = ut_id u" "canonical_language (ov_lane_language x) = und"
    "filter (same_key (it_key i)) (db_inbox db) = [i]" "it_bound_utterance_id i = None" "it_bound_sequence i = None"
    "inbox_matches_utterance tbl i u" "list_all (\<lambda>y. it_bound_utterance_id y \<noteq> Some (ut_id u)) (db_inbox db)"
    "canonical_language (ik_target_language (it_key i)) \<noteq> und"
    "validate_inbox_key (it_key i) = Inr ()" "ensure_active_realtime_session (ik_session_id (it_key i)) db = Inr ()"
  shows "(\<exists>d m. adopt_source_language now i u db = visible_by_id (ut_id u) d \<and> db_overrides d = db_overrides db \<and>
        named (canonical_language (it_source_language i)) (ut_id u) d \<and> visible_by_id (ut_id u) d = Inl (StCorruptData m)) \<and>
    (\<exists>m. bind_translation_inbox_item now tbl (it_key i) sequence db = Inl (StCorruptData m)) \<and>
    (\<exists>m. try_bind now tbl (it_key i) sequence db = Inl (StCorruptData m)) \<and>
    call_step tbl (now, BindInbox (it_key i) sequence) db = db \<and>
    (unbound_candidates (ik_session_id (it_key i)) db \<noteq> [] \<and> hd (unbound_candidates (ik_session_id (it_key i)) db) = i \<and>
     unique_inbox_candidate tbl i (list_machine_utterances (ik_session_id (it_key i)) db) = Some sequence \<longrightarrow>
       call_step tbl (now, ReconcileInbox (ik_session_id (it_key i))) db = db \<and>
       (\<exists>m. reconcile_active_translation_inbox now tbl (ik_session_id (it_key i)) db = Inl (StCorruptData m)))"
proof -
  let ?k = "it_key i" and ?s = "ik_session_id (it_key i)"
  let ?bindable = "\<lambda>x. same_key ?k x \<and> (it_bound_utterance_id x = None \<or> it_bound_utterance_id x = Some (ut_id u))"
  let ?b = "update_inbox ?bindable
      (\<lambda>x. x\<lparr>it_bound_utterance_id := Some (ut_id u), it_bound_sequence := Some sequence, it_updated_at := now\<rparr>) db"
  have frame: "db_utterances ?b = db_utterances db" "db_runs ?b = db_runs db" "db_overrides ?b = db_overrides db"
    by (simp_all add: update_inbox_def)
  have "db_wf ?b" using assms(1) by (simp add: db_wf_def run_of_def desired_of_def frame)
  moreover have "machine_utterance_by_sequence ?s sequence ?b = Inr (Some u)"
    using assms(2) by (simp add: machine_utterance_by_sequence_def frame)
  ultimately obtain m where "adopt_source_language now i u ?b = Inl (StCorruptData m)"
    using adoption_of_edited_source [of ?b i sequence u v x now] assms(3-8) frame(3) by auto
  then have applied: "apply_inbox_item now i sequence ?b = Inl (StCorruptData m)"
    using \<open>machine_utterance_by_sequence ?s sequence ?b = _\<close> by (simp add: apply_inbox_item_def require_by_sequence_def ok_or_def)
  have item: "require_item ?k db = Inr i"
    using assms(9) by (simp add: require_item_def inbox_item_of_def find_filter ok_or_def)
  have one: "length (filter ?bindable (db_inbox db)) = 1"
  proof -
    have "filter ?bindable (db_inbox db) = filter (\<lambda>x. it_bound_utterance_id x = None \<or> it_bound_utterance_id x = Some (ut_id u)) [i]"
      by (subst assms(9) [symmetric]) (simp add: conj_commute)
    then show ?thesis using assms(10) by simp
  qed
  have "\<not> target_is_source u (canonical_language (ik_target_language ?k))"
    using assms(3,14) by (auto simp: target_is_source_def adopts_def)
  moreover have "\<not> it_withdrawn i" using assms(3) by (simp add: adopts_def)
  ultimately have bind: "bind_item now tbl ?k sequence db = Inl (StCorruptData m)"
    using assms(2,11-13) item one applied
    by (auto simp: bind_item_def require_by_sequence_def ok_or_def Let_def list_all_iff)
  then have attempt: "try_bind now tbl ?k sequence db = Inl (StCorruptData m)" by (simp add: try_bind_def)
  have public: "bind_translation_inbox_item now tbl ?k sequence db = Inl (StCorruptData m)"
    using bind assms(15,16) by (simp add: bind_translation_inbox_item_def)
  have "reconcile_active_translation_inbox now tbl ?s db = Inl (StCorruptData m)"
    if "unbound_candidates ?s db \<noteq> []" "hd (unbound_candidates ?s db) = i"
       "unique_inbox_candidate tbl i (list_machine_utterances ?s db) = Some sequence"
  proof -
    note first = that
    obtain rest where "filter unbound_candidate (list_translation_inbox ?s db) = i # rest"
      using first(1,2) unfolding unbound_candidates_def by (metis list.collapse)
    then have "reconcile_inbox now tbl ?s db = Inl (StCorruptData m)"
      using attempt first(3) by (simp add: reconcile_inbox_def reconcile_one_def)
    moreover have "require_nonempty ''session_id'' ?s = Inr ()"
      using assms(15) by (cases "require_nonempty ''session_id'' ?s") (simp_all add: validate_inbox_key_def)
    ultimately show ?thesis using assms(16) by (simp add: reconcile_active_translation_inbox_def)
  qed
  moreover note adoption_of_edited_source [OF assms(1-8), of now]
  ultimately show ?thesis using attempt public by (simp add: tables_def)
qed

definition demo_unknown :: utterance where
  "demo_unknown =
     demo_settled\<lparr>ut_source_language := und,
       ut_variants := map (\<lambda>v. v\<lparr>vr_language := und\<rparr>) (ut_variants demo_settled)\<rparr>"

definition demo_named :: inbox_item where
  "demo_named =
     \<lparr>it_key = \<lparr>ik_session_id = [5], ik_lane_index = 1, ik_group_epoch = 0, ik_provider_sequence = 0, ik_target_language = lit ''zh''\<rparr>,
      it_source_language = lit ''en'', it_source_text = lit ''hi'', it_source_start_ms = None, it_source_end_ms = None,
      it_translated_text = Some (lit ''x''), it_completion = Some CompleteFact, it_withdrawn = False, it_revision = 0,
      it_bound_utterance_id = None, it_bound_sequence = None, it_created_at = [], it_updated_at = []\<rparr>"

definition demo_edited :: capture_db where
  "demo_edited =
     demo_tables\<lparr>db_utterances := [demo_unknown], db_runs := [demo_run\<lparr>rn_desired_revision := 1, rn_applied_revision := 1\<rparr>],
       db_inbox := [demo_named],
       db_overrides :=
         [\<lparr>ov_utterance_id = [4], ov_lane = SourceLane, ov_lane_language = und, ov_text = lit ''ho'',
           ov_machine_utterance_revision = 0, ov_machine_variant_revision = 0, ov_edit_revision = 1\<rparr>]\<rparr>"

lemma demo_target: "canonical_language (lit ''zh'') = lit ''zh''" "validate_language (lit ''zh'') = Inr ()"
  by (simp_all add: validate_language_def canonical_language_def Let_def lit_def before_dash_def trim_def trim_start_def
      trim_end_def is_whitespace_def to_ascii_lowercase_def ascii_lower_def is_ascii_alphabetic_def str_len_def len_utf8_def)

lemma demo_language_named: "lit ''zh'' \<noteq> und"
  by (simp add: und_def lit_def)

lemma demo_matches: "inbox_matches_utterance (\<lambda>c. [c]) demo_named demo_unknown"
proof -
  have "align_source_text (\<lambda>c. [c]) (lit ''hi'') (lit ''hi'') = AlignExact"
    by (simp add: align_source_text_def Let_def normalized_alignment_text_def lit_def is_alignment_noise_def is_whitespace_def
        is_ascii_punctuation_def to_lowercase_def)
  then show ?thesis
    by (simp add: inbox_matches_utterance_def inbox_alignment_score_def score_with_def initial_score_def demo_named_def
        demo_unknown_def demo_settled_def)
qed

theorem edited_source_refuses_its_language_witness:
  "\<exists>m. bind_translation_inbox_item [] (\<lambda>c. [c]) (it_key demo_named) 2 demo_edited = Inl (StCorruptData m)"
proof -
  have "distinct (map ut_id (db_utterances demo_edited))"
    "distinct (map (\<lambda>u. (ut_session_id u, ut_sequence u)) (db_utterances demo_edited))"
    "distinct (map rn_session_id (db_runs demo_edited))"
    "\<forall>r\<in>set (db_runs demo_edited). rn_applied_revision r \<le> rn_desired_revision r"
    "\<forall>u\<in>set (db_utterances demo_edited). run_of (ut_session_id u) demo_edited \<noteq> None \<and> row_wf (desired_of (ut_session_id u) demo_edited) u"
    by (simp_all add: demo_edited_def demo_tables_def demo_unknown_def demo_settled_def demo_run_def run_of_def desired_of_def
        row_wf_def lane_wf_def final_variant_def)
  then have "db_wf demo_edited" unfolding db_wf_def by blast
  moreover have "machine_utterance_by_sequence (ik_session_id (it_key demo_named)) 2 demo_edited = Inr (Some demo_unknown)"
    by (simp add: machine_utterance_by_sequence_def u64_to_i64_def i64_max_def demo_named_def demo_edited_def demo_tables_def
        demo_unknown_def demo_settled_def hydrate_utterance_variants_def)
  moreover have "adopts demo_named demo_unknown"
    using canonD(1) [OF canon_und] by (auto simp: adopts_def demo_named_def demo_unknown_def demo_settled_def demo_language und_def)
  moreover have "filter (same_key (it_key demo_named)) (db_inbox demo_edited) = [demo_named]"
    by (simp add: demo_edited_def same_key_def demo_named_def demo_target)
  moreover have "validate_inbox_key (it_key demo_named) = Inr ()"
    by (simp add: validate_inbox_key_def require_nonempty_def demo_named_def demo_target trim_def trim_start_def trim_end_def
        is_whitespace_def)
  moreover have "ensure_active_realtime_session (ik_session_id (it_key demo_named)) demo_edited = Inr ()"
    by (simp add: ensure_active_realtime_session_def run_of_def demo_edited_def demo_named_def demo_run_def ok_or_def
        provenance_ok_def is_active_def)
  moreover have "canonical_language (ik_target_language (it_key demo_named)) \<noteq> und"
    using demo_language_named by (simp add: demo_named_def demo_target)
  ultimately show ?thesis
    using edited_source_refuses_its_language [of demo_edited demo_named 2 demo_unknown "hd (ut_variants demo_unknown)"
        "hd (db_overrides demo_edited)" "\<lambda>c. [c]" "[]"] demo_matches canonD(1) [OF canon_und]
    by (simp add: demo_unknown_def demo_settled_def demo_edited_def demo_named_def)
qed

end
