(* ===== verification/Spec2Isabelle.thy ===== *)
theory Spec2Isabelle
  imports Main Share_Wire Share_Control Share_Docsync Share_Caption Share_Code Task_Queue_Laws Mirror_Sync_Laws
    Transcript_Moves Note_Outline Block_Guard Erasure_Meter Stt_Stream_Faults Capture_Validity
    Capture_Adoption
begin

text \<open>
  Zulangue is a macOS application that records speech, has it transcribed and translated while it is
  being recorded, keeps transcripts and notes as shared documents and lets several machines edit them
  in a room. Its core is the Rust workspace under \<^verbatim>\<open>crates/\<close>; this development models the parts of that
  core that decide something, and proves what they promise to each other.

  \<^bold>\<open>The parts and how they interact.\<close> Audio goes to the provider over one stream per lane
  (\<^verbatim>\<open>vt-stt\<close>); what comes back ends up in transcripts, which are block documents (\<^verbatim>\<open>vt-store\<close>): Loro
  documents that are only written through a mirror of their JSON state (\<^verbatim>\<open>vt-mirror\<close>). Work that is left
  after a recording goes through a durable queue (\<^verbatim>\<open>vt-pipeline\<close>). Rooms (\<^verbatim>\<open>vt-share\<close>) send changes of
  documents as signed envelopes, and a guard decides which of them may touch a document.

  \<^bold>\<open>Theories, in the order of the code.\<close> Each names its source file and the correspondence of its state
  and operations at its beginning.
    \<^item> \<open>Prelude\<close>, \<open>Str_Ops\<close>: results, bytes, Unicode strings, numbers as text, prefixed encodings; the
      string operations of the Rust standard library that the code uses.
    \<^item> \<open>Share_Room\<close>, \<open>Share_Wire\<close>, \<open>Share_Envelope\<close>, \<open>Share_Permission\<close>, \<open>Share_Control\<close>, \<open>Share_Docsync\<close>,
      \<open>Share_Caption\<close>, \<open>Share_Code\<close>: \<^verbatim>\<open>vt-share\<close>. Rooms and names, framing, signatures, the roster and the
      admission gate, presence, exchange of document updates, captions, share codes. Hashing, signing
      and serialisation are arguments with their laws as hypotheses (locales \<open>crypto\<close> and others).
    \<^item> \<open>Task_Queue\<close>, \<open>Task_Queue_Laws\<close>: \<^verbatim>\<open>vt-pipeline/src/task_queue.rs\<close>; the SQL table is a list of rows, each
      method one transition, a run any list of calls.
    \<^item> \<open>Mirror_Value\<close>, \<open>Mirror_Lis\<close>, \<open>Mirror_Schema\<close>, \<open>Mirror_Diff\<close>, \<open>Mirror_Doc\<close>, \<open>Mirror_Apply\<close>, \<open>Mirror_Create\<close>,
      \<open>Mirror_Laws\<close>, \<open>Mirror_Lists\<close>, \<open>Mirror_Movable\<close>, \<open>Mirror_Sync\<close>, \<open>Mirror_Sync_Laws\<close>: \<^verbatim>\<open>vt-mirror\<close>. JSON values,
      schemas, the differences of two states and their application to a document. The Loro library is a
      record of operations with its documented laws as a locale, interpreted on an in-memory document.
    \<^item> \<open>Document_Schema\<close>, \<open>Transcript_Projection\<close>, \<open>Transcript_Laws\<close>, \<open>Transcript_Refinement\<close>, \<open>Transcript_Facade\<close>,
      \<open>Transcript_Moves\<close>, \<open>Note_Outline\<close>, \<open>Block_Guard\<close>: the block documents of \<^verbatim>\<open>vt-store\<close>.
    \<^item> \<open>Erasure_Meter\<close>: \<^verbatim>\<open>vt-ffi/src/capture_erasure.rs\<close>.
    \<^item> \<open>Stt_Errors\<close>, \<open>Stt_Recovery\<close>, \<open>Stt_Stream\<close>, \<open>Stt_Stream_Laws\<close>, \<open>Stt_Stream_Faults\<close>: \<^verbatim>\<open>vt-stt\<close>. Errors and
      what of the provider's text may get into them; the recovery buffer; the select loop of a session
      and the reconnecting stream around it.
    \<^item> \<open>Capture_Domain\<close>, \<open>Capture_Assembler\<close>, \<open>Capture_Ledger\<close>, \<open>Capture_Routing\<close>, \<open>Capture_Transcript\<close>, \<open>Capture_Validity\<close>:
      the states and validations of \<^verbatim>\<open>vt-store/src/notebook_capture_store.rs\<close> and the assembler of
      \<^verbatim>\<open>vt-ffi/src/notebook_capture_api.rs\<close>, which turns the tokens of the provider into rows: what it has
      published stays in order (\<open>Capture_Transcript\<close>) and passes the validation of the store (\<open>Capture_Validity\<close>).
    \<^item> \<open>Capture_Tables\<close>, \<open>Capture_Rows\<close>, \<open>Capture_Writes\<close>, \<open>Capture_Edits\<close>: the tables of that store that hold the
      rows of a recording and every transaction on them during the recording. A statement of SQL is a
      function on lists of rows, a transaction returns an error or the new tables.
    \<^item> \<open>Capture_Alignment\<close>, \<open>Capture_Alignment_Laws\<close>: \<^verbatim>\<open>align_source_text\<close> of \<^verbatim>\<open>vt-model\<close> and the two scores built on
      it, by which translations that arrive on streams of their own find their row.
    \<^item> \<open>Capture_Row_Laws\<close>, \<open>Capture_Lane_Laws\<close>, \<open>Capture_Inbox_Laws\<close>, \<open>Capture_Write_Laws\<close>, \<open>Capture_Source_Laws\<close>,
      \<open>Capture_History\<close>, \<open>Capture_Adoption\<close>: well formed rows, the order of states \<open>progresses\<close> that every one of those
      transactions follows, and what that gives for every history of calls, failed ones included.
  \<^bold>\<open>What the groups of lemmas show.\<close> Operations keep well-formedness of their state (\<open>queue_inv\<close>, the mirror's
  fence, \<open>recovery_inv\<close>, presence). Detailed operations implement abstract ones: the transcript facade
  a list of typed blocks, the recovery buffer the list of everything ever recorded, the mirror a
  list of values. Error paths are branches of the same statements. Where the code falls short of
  its comments, a theorem states what it does instead, and the manifest lists the finding.
  \<^bold>\<open>Bounds, fuel and termination.\<close> Recursions are structural or have a measure. The registration of nested
  containers takes a bound on the depth of the document, which is at least its nesting when it is
  the number of containers. Runs over time are lists: calls of a queue, turns of a session, attempts
  of a stream; they end where the observation ends, and what must happen in time is stated over
  lists that are long enough. Machine integers are bounded naturals or words, with saturation,
  wrap-around and panics written out; a panic of the code is the value None.

  \<^bold>\<open>Not modelled.\<close> Of \<^verbatim>\<open>notebook_capture_store.rs\<close> the life of a run, the purge of a session, participants
  and the history; the threads and callbacks of \<^verbatim>\<open>notebook_capture_api.rs\<close>; \<^verbatim>\<open>task_worker.rs\<close>,
  \<^verbatim>\<open>migration.rs\<close>, \<^verbatim>\<open>context_pack_store.rs\<close> and the other stores; conversions between types of the two
  languages; third-party libraries (Loro, iroh, serde, codecs, ciphers, SQLite), which are arguments
  where the modelled code relies on them; files, sockets and clocks, which are data.
\<close>

end
